(* ===== verification/Prelude.thy ===== *)
theory Prelude
  imports Main "HOL-Library.Word" "HOL-Library.Char_ord" "HOL-Library.List_Lexorder"
    "HOL-Library.Product_Lexorder" "HOL-Library.Option_ord" "HOL-Library.Multiset"
begin

text \<open>
  Shared vocabulary of the development: the part of Rust's standard library that the modelled
  sources use, and the generic lemmas about it.

  A Rust \<open>String\<close> is a UTF-8 byte sequence and is modelled as \<^typ>\<open>string\<close>, one \<^typ>\<open>char\<close> per
  byte.  Byte-wise comparison is Rust's \<open>Ord for str\<close>, which is the lexicographic order that
  \<open>List_Lexorder\<close> puts on \<^typ>\<open>string\<close>.  A \<open>Result<T, String>\<close> is \<open>string + 'a\<close> with \<open>Inl\<close> for
  the error; \<open>u32\<close> is \<^typ>\<open>32 word\<close>; a \<open>usize\<close> count of elements is \<^typ>\<open>nat\<close>.
  A \<open>BTreeMap\<close> is an association list kept strictly ascending by key.
\<close>

named_theorems limit_defs \<open>definitions of the request-limit helpers\<close>
named_theorems string_simps \<open>equations of the string primitives\<close>

type_synonym 'a result = "string + 'a"
type_synonym u32 = "32 word"

section \<open>Results and integers\<close>

definition res_bind :: "'a result \<Rightarrow> ('a \<Rightarrow> 'b result) \<Rightarrow> 'b result" where
  "res_bind r f = (case r of Inl e \<Rightarrow> Inl e | Inr x \<Rightarrow> f x)"

lemma res_bind_simps [simp]:
  "res_bind (Inl e) f = Inl e"
  "res_bind (Inr x) f = f x"
  by (simp_all add: res_bind_def)

lemma res_bind_Inr_iff: "res_bind r f = Inr y \<longleftrightarrow> (\<exists>x. r = Inr x \<and> f x = Inr y)"
  by (cases r) auto

lemma res_bind_Inl_iff: "res_bind r f = Inl e \<longleftrightarrow> r = Inl e \<or> (\<exists>x. r = Inr x \<and> f x = Inl e)"
  by (cases r) auto

definition unwrap_or :: "'a option \<Rightarrow> 'a \<Rightarrow> 'a" where
  "unwrap_or v d = (case v of None \<Rightarrow> d | Some x \<Rightarrow> x)"

lemma unwrap_or_simps [simp]:
  "unwrap_or None d = d"
  "unwrap_or (Some x) d = x"
  by (simp_all add: unwrap_or_def)

text \<open>\<open>Ord::clamp\<close>, \<open>u32::saturating_add\<close> and \<open>u32::saturating_sub\<close>.\<close>

definition clamp :: "'a::linorder \<Rightarrow> 'a \<Rightarrow> 'a \<Rightarrow> 'a" where
  "clamp x lo hi = (if x < lo then lo else if hi < x then hi else x)"

lemma clamp_bounds: "lo \<le> hi \<Longrightarrow> lo \<le> clamp x lo hi \<and> clamp x lo hi \<le> hi"
  by (auto simp: clamp_def)

lemma clamp_id: "lo \<le> x \<Longrightarrow> x \<le> hi \<Longrightarrow> clamp x lo hi = x"
  by (auto simp: clamp_def)

lemma clamp_idem [simp]: "lo \<le> hi \<Longrightarrow> clamp (clamp x lo hi) lo hi = clamp x lo hi"
  by (auto simp: clamp_def)

lemma clamp_mono: "lo \<le> hi \<Longrightarrow> x \<le> y \<Longrightarrow> clamp x lo hi \<le> clamp y lo hi"
  by (auto simp: clamp_def)

definition saturating_add :: "'n::len word \<Rightarrow> 'n word \<Rightarrow> 'n word" where
  "saturating_add a b = (if unat a + unat b < 2 ^ LENGTH('n) then a + b else - 1)"

definition saturating_sub :: "'n::len word \<Rightarrow> 'n word \<Rightarrow> 'n word" where
  "saturating_sub a b = (if a < b then 0 else a - b)"

lemma unat_saturating_add:
  "unat (saturating_add a b :: 'n::len word) = min (unat a + unat b) (2 ^ LENGTH('n) - 1)"
proof (cases "unat a + unat b < 2 ^ LENGTH('n)")
  case True
  then show ?thesis by (simp add: saturating_add_def unat_word_ariths)
next
  case False
  moreover have "unat (- 1 :: 'n word) = 2 ^ LENGTH('n) - 1"
    by (simp add: unsigned_minus_1_eq_mask mask_eq_exp_minus_1)
  ultimately show ?thesis by (simp add: saturating_add_def)
qed

lemma unat_saturating_sub: "unat (saturating_sub a b) = unat a - unat b"
  by (auto simp: saturating_sub_def unat_sub_if' word_less_nat_alt word_le_nat_alt)

section \<open>Strings\<close>

definition starts_with :: "string \<Rightarrow> string \<Rightarrow> bool" where
  "starts_with p s \<longleftrightarrow> take (length p) s = p"

lemma starts_with_iff: "starts_with p s \<longleftrightarrow> (\<exists>t. s = p @ t)"
  unfolding starts_with_def by (metis append_eq_conv_conj append_take_drop_id)

lemma starts_with_append [simp]: "starts_with p (p @ t)"
  by (simp add: starts_with_def)

lemma starts_with_mono: "starts_with p s \<Longrightarrow> starts_with p (s @ t)"
  by (auto simp: starts_with_iff)

lemma starts_with_simps [simp]:
  "starts_with [] s"
  "starts_with (a # p) (c # s) \<longleftrightarrow> a = c \<and> starts_with p s"
  "starts_with (a # p) [] \<longleftrightarrow> False"
  by (auto simp: starts_with_def)

definition ends_with :: "string \<Rightarrow> string \<Rightarrow> bool" where
  "ends_with p s \<longleftrightarrow> starts_with (rev p) (rev s)"

definition strip_prefix :: "string \<Rightarrow> string \<Rightarrow> string option" where
  "strip_prefix p s = (if starts_with p s then Some (drop (length p) s) else None)"

definition strip_suffix :: "string \<Rightarrow> string \<Rightarrow> string option" where
  "strip_suffix p s = (if ends_with p s then Some (take (length s - length p) s) else None)"

lemma strip_prefix_append [simp]: "strip_prefix p (p @ t) = Some t"
  by (simp add: strip_prefix_def)

lemma strip_prefix_Some: "strip_prefix p s = Some t \<longleftrightarrow> s = p @ t"
  by (auto simp: strip_prefix_def starts_with_iff)

lemma strip_suffix_append [simp]: "strip_suffix p (t @ p) = Some t"
  by (simp add: strip_suffix_def ends_with_def)

text \<open>
  \<open>strip_front ws s\<close> removes elements of \<open>ws\<close> from the front as long as one matches: with the
  UTF-8 encodings of the Unicode white-space characters it is \<open>str::trim_start\<close>, with a single
  character it is \<open>trim_start_matches\<close>.
\<close>

definition front_match :: "string list \<Rightarrow> string \<Rightarrow> string option" where
  "front_match ws s = find (\<lambda>w. w \<noteq> [] \<and> starts_with w s) ws"

lemma front_match_Some: "front_match ws s = Some w \<Longrightarrow> w \<in> set ws \<and> w \<noteq> [] \<and> starts_with w s"
  by (auto simp: front_match_def find_Some_iff)

lemma front_match_shorter:
  "front_match ws s = Some w \<Longrightarrow> length (drop (length w) s) < length s"
  using front_match_Some [of ws s w] by (auto simp: starts_with_iff)

function strip_front :: "string list \<Rightarrow> string \<Rightarrow> string" where
  "strip_front ws s =
     (case front_match ws s of None \<Rightarrow> s | Some w \<Rightarrow> strip_front ws (drop (length w) s))"
  by pat_completeness auto
termination
  by (relation "measure (length o snd)") (auto dest: front_match_shorter simp del: length_drop)

declare strip_front.simps [simp del]

lemma strip_front_None [simp]: "front_match ws s = None \<Longrightarrow> strip_front ws s = s"
  by (subst strip_front.simps) simp

lemma front_match_strip_front [simp]: "front_match ws (strip_front ws s) = None"
proof (induction ws s rule: strip_front.induct)
  case (1 ws s)
  then show ?case by (subst strip_front.simps) (simp split: option.split)
qed

lemma strip_front_suffix: "\<exists>a. s = a @ strip_front ws s"
proof (induction ws s rule: strip_front.induct)
  case (1 ws s)
  show ?case
  proof (cases "front_match ws s")
    case (Some w)
    then obtain t where s: "s = w @ t"
      using front_match_Some [OF Some] by (auto simp: starts_with_iff)
    with 1 Some obtain a where "t = a @ strip_front ws t" by auto
    with s Some show ?thesis
      by (subst strip_front.simps) (auto intro!: exI [of _ "w @ a"])
  qed simp
qed

lemma front_match_prefix_None: "front_match ws (s @ t) = None \<Longrightarrow> front_match ws s = None"
  by (auto simp: front_match_def find_None_iff dest: starts_with_mono)

definition white_space :: "string list" where
  "white_space =
     [[CHR 0x20], [CHR 0x09], [CHR 0x0A], [CHR 0x0B], [CHR 0x0C], [CHR 0x0D],
      [CHR 0xC2, CHR 0x85], [CHR 0xC2, CHR 0xA0], [CHR 0xE1, CHR 0x9A, CHR 0x80],
      [CHR 0xE2, CHR 0x80, CHR 0x80], [CHR 0xE2, CHR 0x80, CHR 0x81],
      [CHR 0xE2, CHR 0x80, CHR 0x82], [CHR 0xE2, CHR 0x80, CHR 0x83],
      [CHR 0xE2, CHR 0x80, CHR 0x84], [CHR 0xE2, CHR 0x80, CHR 0x85],
      [CHR 0xE2, CHR 0x80, CHR 0x86], [CHR 0xE2, CHR 0x80, CHR 0x87],
      [CHR 0xE2, CHR 0x80, CHR 0x88], [CHR 0xE2, CHR 0x80, CHR 0x89],
      [CHR 0xE2, CHR 0x80, CHR 0x8A], [CHR 0xE2, CHR 0x80, CHR 0xA8],
      [CHR 0xE2, CHR 0x80, CHR 0xA9], [CHR 0xE2, CHR 0x80, CHR 0xAF],
      [CHR 0xE2, CHR 0x81, CHR 0x9F], [CHR 0xE3, CHR 0x80, CHR 0x80]]"

definition trim_start :: "string \<Rightarrow> string" where
  "trim_start s = strip_front white_space s"

definition trim_end :: "string \<Rightarrow> string" where
  "trim_end s = rev (strip_front (map rev white_space) (rev s))"

definition trim :: "string \<Rightarrow> string" where
  "trim s = trim_end (trim_start s)"

lemma trim_end_prefix: "\<exists>b. s = trim_end s @ b"
proof -
  obtain a where "rev s = a @ strip_front (map rev white_space) (rev s)"
    using strip_front_suffix by blast
  then have "s = trim_end s @ rev a"
    unfolding trim_end_def by (metis rev_append rev_rev_ident)
  then show ?thesis ..
qed

lemma trim_end_idem [simp]: "trim_end (trim_end s) = trim_end s"
  by (simp add: trim_end_def)

lemma trim_start_fixed: "front_match white_space s = None \<Longrightarrow> trim_start s = s"
  by (simp add: trim_start_def)

text \<open>Trimming is idempotent: cutting the end cannot expose white space at the front.\<close>

lemma trim_idem [simp]: "trim (trim s) = trim s"
proof -
  obtain b where "trim_start s = trim_end (trim_start s) @ b"
    using trim_end_prefix by blast
  moreover have "front_match white_space (trim_start s) = None"
    by (simp add: trim_start_def)
  ultimately have "front_match white_space (trim_end (trim_start s)) = None"
    by (metis front_match_prefix_None)
  then show ?thesis by (simp add: trim_def trim_start_fixed)
qed

lemma trim_Nil [simp]: "trim [] = []"
  by (simp add: trim_def trim_start_def trim_end_def front_match_def find_None_iff white_space_def)

lemma trim_substring: "\<exists>a b. s = a @ trim s @ b"
proof -
  obtain a where "s = a @ trim_start s"
    unfolding trim_start_def using strip_front_suffix by blast
  moreover obtain b where "trim_start s = trim s @ b"
    unfolding trim_def using trim_end_prefix by blast
  ultimately show ?thesis by metis
qed

text \<open>\<open>to_ascii_lowercase\<close> and \<open>eq_ignore_ascii_case\<close> touch the bytes A to Z only.\<close>

definition ascii_lower :: "char \<Rightarrow> char" where
  "ascii_lower c = (if 65 \<le> (of_char c :: nat) \<and> (of_char c :: nat) \<le> 90
                    then char_of ((of_char c :: nat) + 32) else c)"

definition to_ascii_lowercase :: "string \<Rightarrow> string" where
  "to_ascii_lowercase s = map ascii_lower s"

definition eq_ignore_ascii_case :: "string \<Rightarrow> string \<Rightarrow> bool" where
  "eq_ignore_ascii_case a b \<longleftrightarrow> to_ascii_lowercase a = to_ascii_lowercase b"

lemma ascii_lower_idem [simp]: "ascii_lower (ascii_lower c) = ascii_lower c"
  by (auto simp: ascii_lower_def of_char_of)

lemma to_ascii_lowercase_idem [simp]:
  "to_ascii_lowercase (to_ascii_lowercase s) = to_ascii_lowercase s"
  by (simp add: to_ascii_lowercase_def)

lemma length_to_ascii_lowercase [simp]: "length (to_ascii_lowercase s) = length s"
  by (simp add: to_ascii_lowercase_def)

lemma to_ascii_lowercase_Nil_iff [simp]: "to_ascii_lowercase s = [] \<longleftrightarrow> s = []"
  by (simp add: to_ascii_lowercase_def)

section \<open>Splitting and joining\<close>

text \<open>
  \<open>str::split_once\<close> cuts at the first occurrence of the pattern; \<open>str::split\<close> repeats this on
  the rest and always yields at least one piece.
\<close>

fun split_once :: "string \<Rightarrow> string \<Rightarrow> (string \<times> string) option" where
  "split_once p [] = (if p = [] then Some ([], []) else None)"
| "split_once p (c # s) =
     (if starts_with p (c # s) then Some ([], drop (length p) (c # s))
      else map_option (\<lambda>(a, b). (c # a, b)) (split_once p s))"

lemma split_once_Some: "split_once p s = Some (a, b) \<Longrightarrow> s = a @ p @ b"
  by (induction p s arbitrary: a b rule: split_once.induct)
    (auto simp: starts_with_iff simp del: starts_with_simps split: if_splits)

lemma split_once_first: "c \<notin> set a \<Longrightarrow> split_once (c # p) (a @ c # p @ b) = Some (a, b)"
  by (induction a) auto

lemma split_once_absent: "c \<notin> set s \<Longrightarrow> split_once (c # p) s = None"
  by (induction s) auto

lemma split_once_shorter: "p \<noteq> [] \<Longrightarrow> split_once p s = Some (a, b) \<Longrightarrow> length b < length s"
  by (drule split_once_Some) simp

function split_on :: "string \<Rightarrow> string \<Rightarrow> string list" where
  "split_on p s =
     (case split_once p s of
        None \<Rightarrow> [s]
      | Some (a, b) \<Rightarrow> if p = [] then [s] else a # split_on p b)"
  by pat_completeness auto
termination
  by (relation "measure (length o snd)") (auto dest: split_once_shorter)

declare split_on.simps [simp del]

definition contains :: "string \<Rightarrow> string \<Rightarrow> bool" where
  "contains p s \<longleftrightarrow> split_once p s \<noteq> None"

fun join :: "string \<Rightarrow> string list \<Rightarrow> string" where
  "join sep [] = []"
| "join sep [x] = x"
| "join sep (x # y # ys) = x @ sep @ join sep (y # ys)"

lemma split_on_absent [simp]: "c \<notin> set s \<Longrightarrow> split_on (c # p) s = [s]"
  by (subst split_on.simps) (simp add: split_once_absent)

lemma split_on_first:
  "c \<notin> set a \<Longrightarrow> split_on (c # p) (a @ c # p @ b) = a # split_on (c # p) b"
  by (subst split_on.simps) (simp add: split_once_first)

lemma split_on_join:
  assumes "xs \<noteq> []" and "\<forall>x \<in> set xs. c \<notin> set x"
  shows "split_on (c # p) (join (c # p) xs) = xs"
  using assms
proof (induction "c # p" xs rule: join.induct)
  case (3 x y ys)
  then show ?case using split_on_first [of c x p "join (c # p) (y # ys)"] by simp
qed auto

lemma split_on_nonempty [simp]: "split_on p s \<noteq> []"
  by (subst split_on.simps) (auto split: option.split)

lemma join_split_on: "p \<noteq> [] \<Longrightarrow> join p (split_on p s) = s"
proof (induction p s rule: split_on.induct)
  case (1 p s)
  show ?case
  proof (cases "split_once p s")
    case None
    then show ?thesis by (subst split_on.simps) simp
  next
    case (Some ab)
    obtain a b where ab: "ab = (a, b)" by (cases ab)
    obtain y ys where y: "split_on p b = y # ys"
      using split_on_nonempty by (cases "split_on p b") auto
    from 1 Some ab have "join p (split_on p b) = b" by simp
    with y split_once_Some [of p s a b] Some ab \<open>p \<noteq> []\<close> show ?thesis
      by (subst split_on.simps) simp
  qed
qed

lemma split_once_None_hd: "p \<noteq> [] \<Longrightarrow> split_once p s = None \<Longrightarrow> \<nexists>a b. s = a @ p @ b"
proof (induction p s rule: split_once.induct)
  case (2 p c s)
  then have n: "\<not> starts_with p (c # s)" and t: "\<nexists>a b. s = a @ p @ b"
    by (auto split: if_splits)
  show ?case
  proof
    assume "\<exists>a b. c # s = a @ p @ b"
    then obtain a b where e: "c # s = a @ p @ b" by blast
    show False
      using e n t by (cases a) (auto simp: starts_with_iff)
  qed
qed simp

lemma contains_iff: "contains p s \<longleftrightarrow> (\<exists>a b. s = a @ p @ b)"
proof (cases "p = []")
  case True
  then show ?thesis by (cases s) (auto simp: contains_def)
next
  case False
  show ?thesis
  proof (cases "split_once p s")
    case None
    with False show ?thesis using split_once_None_hd [of p s] by (simp add: contains_def)
  next
    case (Some ab)
    then show ?thesis using split_once_Some [of p s "fst ab" "snd ab"] by (auto simp: contains_def)
  qed
qed

lemma set_join_subset: "set (join sep xs) \<subseteq> set sep \<union> \<Union> (set ` set xs)"
  by (induction sep xs rule: join.induct) auto

text \<open>Decimal rendering, as \<open>format!\<close> prints an unsigned integer.\<close>

fun show_nat :: "nat \<Rightarrow> string" where
  "show_nat n = (if n < 10 then [char_of (n + 48)]
                 else show_nat (n div 10) @ [char_of (n mod 10 + 48)])"

declare show_nat.simps [simp del]

section \<open>Sorted vectors without duplicates\<close>

text \<open>The idiom \<open>v.sort(); v.dedup();\<close>, and the iteration of a \<open>BTreeSet\<close>.\<close>

lemma distinct_map_sort_key: "distinct (map f (sort_key k xs)) = distinct (map f xs)"
  by (rule mset_eq_imp_distinct_iff) simp

lemma sort_key_Nil_iff [simp]: "sort_key f xs = [] \<longleftrightarrow> xs = []"
  by (metis length_0_conv length_sort)

text \<open>\<open>ORDER BY k LIMIT 1\<close>: the head of the sorted rows is a row with the least key.\<close>

lemma sort_key_hd:
  assumes "sort_key f xs = x # ys"
  shows "x \<in> set xs" and "\<And>y. y \<in> set xs \<Longrightarrow> f x \<le> f y"
proof -
  have s: "set (x # ys) = set xs" using assms by (metis set_sort)
  then show "x \<in> set xs" by auto
  have "sorted (map f (x # ys))" using assms by (metis sorted_sort_key)
  then show "f x \<le> f y" if "y \<in> set xs" for y using that s by auto
qed

text \<open>\<open>DISTINCT ON\<close>: the first row of every key.\<close>

fun distinct_on :: "('a \<Rightarrow> 'k) \<Rightarrow> 'a list \<Rightarrow> 'a list" where
  "distinct_on f [] = []"
| "distinct_on f (x # xs) = x # distinct_on f (filter (\<lambda>y. f y \<noteq> f x) xs)"

lemma distinct_on_keys: "f ` set (distinct_on f xs) = f ` set xs"
proof (induction f xs rule: distinct_on.induct)
  case (2 f x xs)
  then have "f ` set (distinct_on f (x # xs)) = insert (f x) (f ` {y \<in> set xs. f y \<noteq> f x})" by simp
  also have "\<dots> = f ` set (x # xs)" by auto
  finally show ?case .
qed simp

lemma distinct_on_subset: "set (distinct_on f xs) \<subseteq> set xs"
  by (induction f xs rule: distinct_on.induct) auto

lemma distinct_on_distinct: "distinct (map f (distinct_on f xs))"
proof (induction f xs rule: distinct_on.induct)
  case (2 f x xs)
  then show ?case using distinct_on_subset [of f "filter (\<lambda>y. f y \<noteq> f x) xs"] by auto
qed simp

lemma length_distinct_on: "length (distinct_on f xs) = card (f ` set xs)"
  using distinct_card [OF distinct_on_distinct [of f xs]] by (simp add: distinct_on_keys)

lemma distinct_on_least:
  assumes "sorted (map k xs)" "r \<in> set (distinct_on f xs)" "y \<in> set xs" "f y = f r"
  shows "k r \<le> k y"
  using assms
proof (induction f xs rule: distinct_on.induct)
  case (2 f x xs)
  show ?case
  proof (cases "r = x")
    case False
    then have r: "r \<in> set (distinct_on f (filter (\<lambda>y. f y \<noteq> f x) xs))" using "2.prems"(2) by simp
    then have "f r \<noteq> f x" using distinct_on_subset by fastforce
    then have "y \<in> set (filter (\<lambda>y. f y \<noteq> f x) xs)" using "2.prems"(3,4) by auto
    moreover have "sorted (map k (filter (\<lambda>y. f y \<noteq> f x) xs))" using "2.prems"(1) by (simp add: sorted_filter)
    ultimately show ?thesis using "2.IH" r "2.prems"(4) by blast
  qed (use "2.prems" in auto)
qed simp

definition sort_dedup :: "'a::linorder list \<Rightarrow> 'a list" where
  "sort_dedup xs = remdups_adj (sort xs)"

lemma strict_remdups_adj: "sorted xs \<Longrightarrow> sorted_wrt (<) (remdups_adj xs)"
proof (induction xs rule: remdups_adj.induct)
  case (3 x y xs)
  then show ?case by (cases "x = y") (auto simp: order_le_less)
qed auto

lemma strict_sort_dedup [simp]: "sorted_wrt (<) (sort_dedup xs)"
  by (simp add: sort_dedup_def strict_remdups_adj)

lemma set_sort_dedup [simp]: "set (sort_dedup xs) = set xs"
  by (simp add: sort_dedup_def)

lemma sorted_sort_dedup [simp]: "sorted (sort_dedup xs)"
  using strict_sort_dedup strict_sorted_imp_sorted by blast

lemma distinct_sort_dedup [simp]: "distinct (sort_dedup xs)"
  using strict_sort_dedup strict_sorted_iff by blast

lemma sort_dedup_eq: "sort_dedup xs = sorted_list_of_set (set xs)"
  by (metis strict_sort_dedup set_sort_dedup strict_sorted_equal strict_sorted_list_of_set
      finite_set set_sorted_list_of_set)

lemma sort_dedup_cong: "set xs = set ys \<Longrightarrow> sort_dedup xs = sort_dedup ys"
  by (simp add: sort_dedup_eq)

lemma find_SomeD: "find P xs = Some x \<Longrightarrow> x \<in> set xs \<and> P x"
  by (induction xs) (auto split: if_splits)

lemma insort_key_map_stable:
  "(\<And>x. k (g x) = k x) \<Longrightarrow> insort_key k (g x) (map g xs) = map g (insort_key k x xs)"
  by (induction xs) auto

lemma sort_key_map_stable: "(\<And>x. k (g x) = k x) \<Longrightarrow> sort_key k (map g xs) = map g (sort_key k xs)"
  by (induction xs) (simp_all add: insort_key_map_stable)

lemma filter_ConsD: "filter P xs = y # ys \<Longrightarrow> P y \<and> y \<in> set xs"
  by (auto dest!: filter_eq_ConsD)

lemma set_map_filter: "y \<in> set (List.map_filter f xs) \<longleftrightarrow> (\<exists>x \<in> set xs. f x = Some y)"
  by (induction xs) (auto simp: map_filter_simps split: option.split)

lemma set_map_filter_pair:
  "c \<in> set (List.map_filter f xs) \<longleftrightarrow> (\<exists>k a. (k, a) \<in> set xs \<and> f (k, a) = Some c)"
  by (force simp: set_map_filter)

lemma map_filter_keys_distinct:
  assumes "distinct (map fst xs)" and "\<And>k a c. f (k, a) = Some c \<Longrightarrow> g c = k"
  shows "distinct (map g (List.map_filter f xs)) \<and> g ` set (List.map_filter f xs) \<subseteq> fst ` set xs"
  using assms(1)
proof (induction xs)
  case (Cons x xs)
  obtain k a where x: "x = (k, a)" by (cases x)
  show ?case using Cons x assms(2) [of k a] by (auto simp: map_filter_simps split: option.split)
qed (simp add: map_filter_simps)

lemma find_first:
  assumes "xs = pre @ y # post" and "P y" and "\<forall>x \<in> set pre. \<not> P x"
  shows "find P xs = Some y"
  using assms by (induction pre arbitrary: xs) auto

section \<open>Lines\<close>

text \<open>\<open>str::lines\<close>: a carriage return is dropped only before a line feed.\<close>

definition strip_cr :: "string \<Rightarrow> string" where
  "strip_cr line = unwrap_or (strip_suffix [CHR 0x0D] line) line"

definition str_lines :: "string \<Rightarrow> string list" where
  "str_lines s =
     (let ps = split_on [CHR 0x0A] s
      in map strip_cr (butlast ps) @ (if last ps = [] then [] else [last ps]))"

end
