(* ===== verification/Collections.thy ===== *)
theory Collections
  imports Prelude
begin

text \<open>
  Containers the components share.  A \<open>BTreeMap\<close> is an association list that is strictly
  ascending by key (\<open>bt_invar\<close>); \<open>dict\<close> is the interface its clients rely on.  The keyed-merge
  loop (look the key up, insert when absent or when the new entry is better) occurs in several
  sources; \<open>keyed_merge\<close> and \<open>ranked_merge\<close> state its contract once.
\<close>

section \<open>Ordered maps\<close>

type_synonym ('k, 'v) btree = "('k \<times> 'v) list"

definition bt_get :: "('k, 'v) btree \<Rightarrow> 'k \<Rightarrow> 'v option" where
  "bt_get m k = map_of m k"

fun bt_insert :: "'k::linorder \<Rightarrow> 'v \<Rightarrow> ('k, 'v) btree \<Rightarrow> ('k, 'v) btree" where
  "bt_insert k v [] = [(k, v)]"
| "bt_insert k v ((k', v') # m) =
     (if k < k' then (k, v) # (k', v') # m
      else if k = k' then (k, v) # m
      else (k', v') # bt_insert k v m)"

definition bt_invar :: "('k::linorder, 'v) btree \<Rightarrow> bool" where
  "bt_invar m \<longleftrightarrow> sorted_wrt (<) (map fst m)"

definition bt_values :: "('k, 'v) btree \<Rightarrow> 'v list" where
  "bt_values m = map snd m"

lemma bt_get_Nil [simp]: "bt_get [] k = None"
  by (simp add: bt_get_def)

lemma bt_get_Cons: "bt_get ((k', v) # m) k = (if k' = k then Some v else bt_get m k)"
  by (simp add: bt_get_def)

lemma bt_get_insert: "bt_get (bt_insert k v m) k' = (if k' = k then Some v else bt_get m k')"
  by (induction m) (auto simp: bt_get_Cons)

lemma keys_bt_insert: "fst ` set (bt_insert k v m) = insert k (fst ` set m)"
  by (induction k v m rule: bt_insert.induct) (simp_all add: insert_commute)

lemma bt_invar_insert: "bt_invar m \<Longrightarrow> bt_invar (bt_insert k v m)"
proof (induction m)
  case (Cons p m)
  obtain k' v' where p: "p = (k', v')" by (cases p)
  from Cons.prems p have ih: "bt_invar (bt_insert k v m)" and lt: "\<forall>x \<in> fst ` set m. k' < x"
    using Cons.IH by (auto simp: bt_invar_def)
  have "fst ` set (bt_insert k v m) = insert k (fst ` set m)" by (rule keys_bt_insert)
  with ih lt p Cons.prems show ?case
    by (fastforce simp: bt_invar_def)
qed (simp add: bt_invar_def)

lemma bt_invar_Nil [simp]: "bt_invar []"
  by (simp add: bt_invar_def)

lemma bt_invar_distinct: "bt_invar m \<Longrightarrow> distinct (map fst m)"
  unfolding bt_invar_def by (simp add: strict_sorted_iff)

lemma bt_get_in_set: "bt_get m k = Some v \<Longrightarrow> (k, v) \<in> set m"
  by (simp add: bt_get_def map_of_SomeD)

lemma bt_get_iff: "bt_invar m \<Longrightarrow> bt_get m k = Some v \<longleftrightarrow> (k, v) \<in> set m"
  by (simp add: bt_get_def bt_invar_distinct)

lemma bt_get_None_iff: "bt_get m k = None \<longleftrightarrow> k \<notin> fst ` set m"
  by (simp add: bt_get_def map_of_eq_None_iff)

text \<open>Two ordered maps with the same lookup function are the same list: iteration is determined.\<close>

lemma bt_rebuild:
  assumes "bt_invar m"
  shows "map (\<lambda>k. (k, the (bt_get m k))) (map fst m) = m"
proof -
  have "(fst p, the (bt_get m (fst p))) = p" if "p \<in> set m" for p
    using that bt_get_iff [OF assms, of "fst p" "snd p"] by simp
  then show ?thesis by (simp add: map_idI)
qed

lemma bt_ext:
  assumes m: "bt_invar m" and n: "bt_invar n" and e: "\<And>k. bt_get m k = bt_get n k"
  shows "m = n"
proof -
  have "set m = set n" using bt_get_iff [OF m] bt_get_iff [OF n] e by auto
  then have "map fst m = map fst n"
    using m n by (intro strict_sorted_equal) (auto simp: bt_invar_def)
  moreover have "bt_get m = bt_get n" using e by (rule ext)
  ultimately show ?thesis using bt_rebuild [OF m] bt_rebuild [OF n] by simp
qed

text \<open>
  Mapping and filtering the values of an ordered map by \<open>f\<close>, where \<open>g\<close> recovers the key of a
  result: the results are ascending by key and looked up through the map.
\<close>

lemma bt_map_filter_keys:
  assumes "\<And>k x y. (k, x) \<in> set m \<Longrightarrow> f x = Some y \<Longrightarrow> g y = k"
  shows "g ` set (List.map_filter f (bt_values m)) \<subseteq> fst ` set m"
proof
  fix k assume "k \<in> g ` set (List.map_filter f (bt_values m))"
  then obtain k' x y where "(k', x) \<in> set m" "f x = Some y" "k = g y"
    by (auto simp: bt_values_def map_filter_def)
  with assms show "k \<in> fst ` set m" by force
qed

lemma bt_map_filter_sorted:
  assumes "bt_invar m" and "\<And>k x y. (k, x) \<in> set m \<Longrightarrow> f x = Some y \<Longrightarrow> g y = k"
  shows "sorted_wrt (<) (map g (List.map_filter f (bt_values m)))"
  using assms
proof (induction m)
  case (Cons p m)
  obtain k x where p: "p = (k, x)" by (cases p)
  have ih: "sorted_wrt (<) (map g (List.map_filter f (bt_values m)))"
    using Cons.prems by (intro Cons.IH) (auto simp: bt_invar_def)
  have "g ` set (List.map_filter f (bt_values m)) \<subseteq> fst ` set m"
    using Cons.prems(2) by (intro bt_map_filter_keys) auto
  moreover have "\<forall>k' \<in> fst ` set m. k < k'" using Cons.prems(1) p by (auto simp: bt_invar_def)
  ultimately have "\<forall>y \<in> set (List.map_filter f (bt_values m)). k < g y" by blast
  moreover have "g y = k" if "f x = Some y" for y using Cons.prems(2) p that by auto
  ultimately show ?case using ih p
    by (auto simp: bt_values_def map_filter_simps split: option.split)
qed (simp add: bt_values_def map_filter_simps)

lemma bt_map_filter_map_of:
  assumes "bt_invar m" and "\<And>k x y. (k, x) \<in> set m \<Longrightarrow> f x = Some y \<Longrightarrow> g y = k"
  shows "map_of (map (\<lambda>y. (g y, h y)) (List.map_filter f (bt_values m))) k =
           (case bt_get m k of None \<Rightarrow> None | Some x \<Rightarrow> map_option h (f x))"
  using assms
proof (induction m)
  case (Cons p m)
  obtain k' x where p: "p = (k', x)" by (cases p)
  let ?t = "List.map_filter f (bt_values m)"
  have ih: "map_of (map (\<lambda>y. (g y, h y)) ?t) k =
      (case bt_get m k of None \<Rightarrow> None | Some x \<Rightarrow> map_option h (f x))"
    using Cons.prems by (intro Cons.IH) (auto simp: bt_invar_def)
  have "k' \<notin> fst ` set m" using Cons.prems(1) p by (auto simp: bt_invar_def)
  then have "bt_get m k' = None" by (simp add: bt_get_None_iff)
  moreover have "g y = k'" if "f x = Some y" for y using Cons.prems(2) p that by auto
  ultimately show ?case using ih p
    by (auto simp: bt_values_def map_filter_simps bt_get_Cons split: option.split)
qed (simp add: bt_values_def map_filter_simps)

text \<open>\<open>entry(k).or_insert(v)\<close>\<close>

definition or_insert :: "'k::linorder \<Rightarrow> 'v \<Rightarrow> ('k, 'v) btree \<Rightarrow> ('k, 'v) btree" where
  "or_insert k v m = (case bt_get m k of None \<Rightarrow> bt_insert k v m | Some _ \<Rightarrow> m)"

lemma bt_invar_or_insert: "bt_invar m \<Longrightarrow> bt_invar (or_insert k v m)"
  by (simp add: or_insert_def bt_invar_insert split: option.split)

lemma bt_get_or_insert:
  "bt_get (or_insert k v m) k' = (if k = k' \<and> bt_get m k = None then Some v else bt_get m k')"
  by (auto simp: or_insert_def bt_get_insert split: option.split)

lemma fold_or_insert_invar: "bt_invar m \<Longrightarrow> bt_invar (fold (\<lambda>x. or_insert (f x) (g x)) xs m)"
  by (induction xs arbitrary: m) (simp_all add: bt_invar_or_insert)

lemma fold_or_insert_get:
  "bt_get (fold (\<lambda>x. or_insert (f x) (g x)) xs m) k =
     (case bt_get m k of None \<Rightarrow> map_option g (find (\<lambda>x. f x = k) xs) | Some v \<Rightarrow> Some v)"
  by (induction xs arbitrary: m) (auto simp: bt_get_or_insert split: option.split)

locale dict =
  fixes empty :: "'m" and get :: "'m \<Rightarrow> 'k \<Rightarrow> 'v option"
    and insert :: "'k \<Rightarrow> 'v \<Rightarrow> 'm \<Rightarrow> 'm" and invar :: "'m \<Rightarrow> bool"
  assumes get_empty: "get empty k = None"
    and get_insert: "get (insert k v m) k' = (if k' = k then Some v else get m k')"
    and invar_empty: "invar empty"
    and invar_insert: "invar m \<Longrightarrow> invar (insert k v m)"

interpretation bt: dict "[]" bt_get bt_insert bt_invar
  by unfold_locales (auto simp: bt_get_insert bt_invar_insert)

section \<open>Keyed merging\<close>

definition pick :: "('a \<Rightarrow> 'a \<Rightarrow> bool) \<Rightarrow> 'a \<Rightarrow> 'a option \<Rightarrow> 'a option" where
  "pick better x cur =
     (case cur of None \<Rightarrow> Some x | Some e \<Rightarrow> if better e x then Some x else Some e)"

lemma pick_simps [simp]:
  "pick better x None = Some x"
  "pick better x (Some e) = (if better e x then Some x else Some e)"
  by (simp_all add: pick_def)

lemma fold_pick_Some [simp]: "\<exists>y. fold (pick better) xs (Some e) = Some y"
  by (induction xs arbitrary: e) auto

lemma fold_pick_member:
  "fold (pick better) xs cur = Some y \<Longrightarrow> y \<in> set xs \<or> cur = Some y"
proof (induction xs arbitrary: cur)
  case (Cons x xs)
  from Cons.prems Cons.IH [of "pick better x cur"] show ?case
    by (auto simp: pick_def split: option.splits if_splits)
qed simp

text \<open>A loop that keeps the best candidate so far, an earlier one on a tie.\<close>

locale ranked =
  fixes better :: "'a \<Rightarrow> 'a \<Rightarrow> bool" and rank :: "'a \<Rightarrow> nat"
  assumes better_rank: "better e x \<longleftrightarrow> rank e < rank x"
begin

lemma fold_pick_rank:
  "fold (pick better) xs cur = Some y \<Longrightarrow>
   (\<forall>x \<in> set xs. rank x \<le> rank y) \<and> (\<forall>e. cur = Some e \<longrightarrow> rank e \<le> rank y)"
proof (induction xs arbitrary: cur)
  case (Cons x xs)
  from Cons.prems Cons.IH [of "pick better x cur"] show ?case
    by (cases cur) (auto simp: better_rank split: if_splits)
qed simp

lemma fold_pick_first:
  "fold (pick better) xs cur = Some y \<Longrightarrow>
   cur = Some y \<or> (\<exists>pre post. xs = pre @ y # post \<and> (\<forall>x \<in> set pre. rank x < rank y) \<and>
                      (\<forall>e. cur = Some e \<longrightarrow> rank e < rank y))"
proof (induction xs arbitrary: cur)
  case (Cons x xs)
  then have f: "fold (pick better) xs (pick better x cur) = Some y" by simp
  from Cons.IH [OF f] show ?case
  proof
    assume "pick better x cur = Some y"
    then show ?thesis
      by (cases cur) (fastforce simp: better_rank split: if_splits)+
  next
    assume "\<exists>pre post. xs = pre @ y # post \<and> (\<forall>z \<in> set pre. rank z < rank y) \<and>
              (\<forall>e. pick better x cur = Some e \<longrightarrow> rank e < rank y)"
    then obtain pre post where *: "xs = pre @ y # post" "\<forall>z \<in> set pre. rank z < rank y"
      "\<forall>e. pick better x cur = Some e \<longrightarrow> rank e < rank y" by blast
    then have "rank x < rank y" and "\<forall>e. cur = Some e \<longrightarrow> rank e < rank y"
      by (cases cur; auto simp: better_rank split: if_splits)+
    with * have "x # xs = (x # pre) @ y # post \<and> (\<forall>z \<in> set (x # pre). rank z < rank y) \<and>
        (\<forall>e. cur = Some e \<longrightarrow> rank e < rank y)" by simp
    then show ?thesis by blast
  qed
qed simp

end

locale keyed_merge = dict empty get insert invar
  for empty :: "'m" and get :: "'m \<Rightarrow> 'k \<Rightarrow> 'a option"
    and insert :: "'k \<Rightarrow> 'a \<Rightarrow> 'm \<Rightarrow> 'm" and invar :: "'m \<Rightarrow> bool" +
  fixes key :: "'a \<Rightarrow> 'k" and better :: "'a \<Rightarrow> 'a \<Rightarrow> bool" and step :: "'a \<Rightarrow> 'm \<Rightarrow> 'm"
  assumes step_eq: "step x m =
      (case get m (key x) of
         None \<Rightarrow> insert (key x) x m
       | Some e \<Rightarrow> if better e x then insert (key x) x m else m)"
begin

lemma step_invar: "invar m \<Longrightarrow> invar (step x m)"
  by (auto simp: step_eq invar_insert split: option.split)

lemma merge_invar: "invar m \<Longrightarrow> invar (fold step xs m)"
  by (induction xs arbitrary: m) (auto simp: step_invar)

lemma step_get: "get (step x m) k = (if key x = k then pick better x (get m k) else get m k)"
  by (auto simp: step_eq get_insert split: option.split)

lemma merge_get:
  "get (fold step xs m) k = fold (pick better) (filter (\<lambda>x. key x = k) xs) (get m k)"
  by (induction xs arbitrary: m) (auto simp: step_get)

lemma merge_dom: "get (fold step xs empty) k \<noteq> None \<longleftrightarrow> k \<in> key ` set xs"
proof (cases "filter (\<lambda>x. key x = k) xs")
  case Nil
  then show ?thesis by (auto simp: merge_get get_empty filter_empty_conv)
next
  case (Cons y ys)
  then have "y \<in> set (filter (\<lambda>x. key x = k) xs)" by simp
  then have "k \<in> key ` set xs" by auto
  with Cons show ?thesis
    using fold_pick_Some [of better ys y] by (auto simp: merge_get get_empty)
qed

lemma merge_member: "get (fold step xs empty) k = Some e \<Longrightarrow> e \<in> set xs \<and> key e = k"
  using fold_pick_member [of better "filter (\<lambda>x. key x = k) xs" None e]
  by (simp add: merge_get get_empty)

end

locale ranked_merge = keyed_merge empty get insert invar key better step + ranked better rank
  for empty :: "'m" and get :: "'m \<Rightarrow> 'k \<Rightarrow> 'a option"
    and insert :: "'k \<Rightarrow> 'a \<Rightarrow> 'm \<Rightarrow> 'm" and invar :: "'m \<Rightarrow> bool"
    and key :: "'a \<Rightarrow> 'k" and better :: "'a \<Rightarrow> 'a \<Rightarrow> bool" and step :: "'a \<Rightarrow> 'm \<Rightarrow> 'm"
    and rank :: "'a \<Rightarrow> nat"
begin

text \<open>The kept entry has the greatest rank of its key, and is the first of that rank.\<close>

lemma merge_best:
  assumes "get (fold step xs empty) k = Some e"
  shows "e \<in> set xs \<and> key e = k \<and> (\<forall>x \<in> set xs. key x = k \<longrightarrow> rank x \<le> rank e)"
  using merge_member [OF assms] fold_pick_rank [of "filter (\<lambda>x. key x = k) xs" None e] assms
  by (auto simp: merge_get get_empty)

lemma merge_first:
  assumes "get (fold step xs empty) k = Some e"
  shows "\<exists>pre post. filter (\<lambda>x. key x = k) xs = pre @ e # post \<and> (\<forall>x \<in> set pre. rank x < rank e)"
  using fold_pick_first [of "filter (\<lambda>x. key x = k) xs" None e] assms
  by (auto simp: merge_get get_empty)

end

end
