(* ===== verification/Manifest_Deps.thy ===== *)
theory Manifest_Deps
  imports Collections
begin

text \<open>
  Dependency extraction from a Cargo.toml (\<open>mcp/tools/dependency/manifest.rs\<close>).  The \<open>cargo_toml\<close>
  crate that parses the manifest is the argument \<open>cargo_api\<close>: \<open>manifest_from_slice\<close> and the
  \<open>try_req\<close> of a dependency; the fields of a parsed manifest are those the code reads.
\<close>

datatype inheritable = Set string | Inherited

record 'd deps_sections =
  ds_dependencies :: "(string \<times> 'd) list"
  ds_dev_dependencies :: "(string \<times> 'd) list"
  ds_build_dependencies :: "(string \<times> 'd) list"

record 'd cargo_manifest = "'d deps_sections" +
  cm_package :: "(string \<times> inheritable option) option"
  cm_target :: "'d deps_sections list"

record 'd cargo_api =
  manifest_from_slice :: "string \<Rightarrow> string + 'd cargo_manifest"
  try_req :: "'d \<Rightarrow> string option"

record parsed_dependency =
  pd_name :: string
  pd_requirement :: "string option"

record parsed_manifest =
  pm_package_name :: "string option"
  pm_package_rust_version :: "string option"
  pm_dependencies :: "parsed_dependency list"

definition version_req :: "'d cargo_api \<Rightarrow> 'd \<Rightarrow> string option" where
  "version_req api dep =
     (case try_req api dep of
        None \<Rightarrow> None
      | Some r \<Rightarrow> if r \<noteq> [] \<and> r \<noteq> ''*'' then Some r else None)"

definition merge_dep :: "parsed_dependency \<Rightarrow> (string, parsed_dependency) btree \<Rightarrow> (string, parsed_dependency) btree" where
  "merge_dep parsed merged =
     (let key = to_ascii_lowercase (pd_name parsed)
      in case bt_get merged key of
           None \<Rightarrow> bt_insert key parsed merged
         | Some existing \<Rightarrow>
             if pd_requirement existing = None \<and> pd_requirement parsed \<noteq> None
             then bt_insert key parsed merged else merged)"

definition parsed_deps :: "'d cargo_api \<Rightarrow> (string \<times> 'd) list \<Rightarrow> parsed_dependency list" where
  "parsed_deps api deps = map (\<lambda>(name, dep). \<lparr>pd_name = name, pd_requirement = version_req api dep\<rparr>) deps"

definition collect_deps_set ::
  "'d cargo_api \<Rightarrow> (string \<times> 'd) list \<Rightarrow> (string, parsed_dependency) btree \<Rightarrow> (string, parsed_dependency) btree" where
  "collect_deps_set api deps merged = fold merge_dep (parsed_deps api deps) merged"

definition collect_sections ::
  "'d cargo_api \<Rightarrow> ('d, 'x) deps_sections_scheme \<Rightarrow> (string, parsed_dependency) btree \<Rightarrow> (string, parsed_dependency) btree" where
  "collect_sections api s merged =
     collect_deps_set api (ds_build_dependencies s)
       (collect_deps_set api (ds_dev_dependencies s) (collect_deps_set api (ds_dependencies s) merged))"

definition parse_manifest :: "'d cargo_api \<Rightarrow> string \<Rightarrow> parsed_manifest result" where
  "parse_manifest api manifest =
     (case manifest_from_slice api manifest of
        Inl e \<Rightarrow> Inl (''invalid Cargo.toml: '' @ e)
      | Inr parsed \<Rightarrow>
          Inr \<lparr>pm_package_name = map_option fst (cm_package parsed),
               pm_package_rust_version =
                 Option.bind (Option.bind (cm_package parsed) snd)
                   (\<lambda>v. case v of Set s \<Rightarrow> Some s | Inherited \<Rightarrow> None),
               pm_dependencies =
                 bt_values (fold (collect_sections api) (cm_target parsed) (collect_sections api parsed []))\<rparr>)"

section \<open>The merge keeps, per crate, the first declaration with a requirement\<close>

definition req_rank :: "parsed_dependency \<Rightarrow> nat" where
  "req_rank d = (if pd_requirement d = None then 0 else 1)"

interpretation deps: ranked_merge "[]" bt_get bt_insert bt_invar "\<lambda>d. to_ascii_lowercase (pd_name d)"
  "\<lambda>e d. pd_requirement e = None \<and> pd_requirement d \<noteq> None" merge_dep req_rank
  by unfold_locales (auto simp: merge_dep_def Let_def req_rank_def split: option.split)

definition section_deps :: "'d cargo_api \<Rightarrow> ('d, 'x) deps_sections_scheme \<Rightarrow> parsed_dependency list" where
  "section_deps api s =
     parsed_deps api (ds_dependencies s) @ parsed_deps api (ds_dev_dependencies s) @
     parsed_deps api (ds_build_dependencies s)"

definition declared_deps :: "'d cargo_api \<Rightarrow> 'd cargo_manifest \<Rightarrow> parsed_dependency list" where
  "declared_deps api m = section_deps api m @ concat (map (section_deps api) (cm_target m))"

lemma collect_sections_fold: "collect_sections api s = fold merge_dep (section_deps api s)"
  by (rule ext) (simp add: collect_sections_def collect_deps_set_def section_deps_def)

lemma fold_sections: "fold (collect_sections api) ss m = fold merge_dep (concat (map (section_deps api) ss)) m"
  by (induction ss arbitrary: m) (simp_all add: collect_sections_fold)

lemma manifest_merge:
  "fold (collect_sections api) (cm_target m) (collect_sections api m []) = fold merge_dep (declared_deps api m) []"
  by (simp add: collect_sections_fold declared_deps_def fold_sections)

lemma bt_values_key_sorted:
  assumes "bt_invar m" "\<And>k v. (k, v) \<in> set m \<Longrightarrow> g v = k"
  shows "map g (bt_values m) = map fst m"
  using assms(2) by (auto simp: bt_values_def)

text \<open>
  The dependencies of a parsed manifest are one entry per crate name (compared without case), in
  ascending order of name: an entry exists exactly for the declared names, it is one of the
  declarations, it has a requirement whenever any declaration of that crate has one, and among
  those it is the first in the order of the sections.
\<close>

theorem parse_manifest_dependencies:
  assumes "manifest_from_slice api text = Inr m" and "parse_manifest api text = Inr p"
  shows "sorted_wrt (<) (map (\<lambda>d. to_ascii_lowercase (pd_name d)) (pm_dependencies p)) \<and>
    (\<lambda>d. to_ascii_lowercase (pd_name d)) ` set (pm_dependencies p) =
      (\<lambda>d. to_ascii_lowercase (pd_name d)) ` set (declared_deps api m) \<and>
    list_all (\<lambda>d. \<exists>pre post.
        filter (\<lambda>x. to_ascii_lowercase (pd_name x) = to_ascii_lowercase (pd_name d)) (declared_deps api m) = pre @ d # post \<and>
        list_all (\<lambda>x. req_rank x < req_rank d) pre \<and> list_all (\<lambda>x. req_rank x \<le> req_rank d) post)
      (pm_dependencies p)"
proof -
  let ?key = "\<lambda>d. to_ascii_lowercase (pd_name d)"
  let ?t = "fold merge_dep (declared_deps api m) []"
  have p: "pm_dependencies p = bt_values ?t" using assms by (auto simp: parse_manifest_def manifest_merge)
  have inv: "bt_invar ?t" by (rule deps.merge_invar) simp
  have key: "?key v = k" if "(k, v) \<in> set ?t" for k v
    using that deps.merge_member [of "declared_deps api m" k v] by (simp add: bt_get_iff [OF inv])
  have keys: "map ?key (bt_values ?t) = map fst ?t" by (rule bt_values_key_sorted [OF inv key])
  then have sorted: "sorted_wrt (<) (map ?key (bt_values ?t))" using inv by (simp add: bt_invar_def)
  have "?key ` set (bt_values ?t) = fst ` set ?t" using keys by (metis set_map)
  also have "\<dots> = ?key ` set (declared_deps api m)"
    using deps.merge_dom [of "declared_deps api m"] by (auto simp: bt_get_None_iff)
  finally have names: "?key ` set (bt_values ?t) = ?key ` set (declared_deps api m)" .
  have "\<exists>pre post. filter (\<lambda>x. ?key x = ?key d) (declared_deps api m) = pre @ d # post \<and>
      list_all (\<lambda>x. req_rank x < req_rank d) pre \<and> list_all (\<lambda>x. req_rank x \<le> req_rank d) post"
    if d: "d \<in> set (bt_values ?t)" for d
  proof -
    obtain k where "(k, d) \<in> set ?t" using d by (auto simp: bt_values_def)
    then have get: "bt_get ?t (?key d) = Some d" using key by (simp add: bt_get_iff [OF inv])
    obtain pre post where f: "filter (\<lambda>x. ?key x = ?key d) (declared_deps api m) = pre @ d # post"
      "\<forall>x \<in> set pre. req_rank x < req_rank d" using deps.merge_first [OF get] by blast
    moreover have "set post \<subseteq> {x \<in> set (declared_deps api m). ?key x = ?key d}"
      using arg_cong [OF f(1), of set] by auto
    moreover have "\<forall>x \<in> set (declared_deps api m). ?key x = ?key d \<longrightarrow> req_rank x \<le> req_rank d"
      using deps.merge_best [OF get] by blast
    ultimately show ?thesis
      by (intro exI [of _ pre] exI [of _ post]) (auto simp only: list_all_iff subset_iff mem_Collect_eq)
  qed
  with sorted names show ?thesis by (simp add: p list_all_iff)
qed

definition sample_cargo :: "string cargo_api" where
  "sample_cargo =
     \<lparr>manifest_from_slice = (\<lambda>_. Inr \<lparr>ds_dependencies = [(''Serde'', '''')], ds_dev_dependencies = [(''serde'', ''1.0'')],
         ds_build_dependencies = [], cm_package = Some (''demo'', Some (Set ''1.70'')), cm_target = []\<rparr>),
      try_req = (\<lambda>d. Some d)\<rparr>"

theorem parse_manifest_dependencies_witness:
  "\<exists>p. parse_manifest sample_cargo [] = Inr p \<and>
     (\<lambda>d. to_ascii_lowercase (pd_name d)) ` set (pm_dependencies p) = {''serde''}"
proof -
  obtain m p where m: "manifest_from_slice sample_cargo [] = Inr m" and p: "parse_manifest sample_cargo [] = Inr p"
    by (simp add: sample_cargo_def parse_manifest_def)
  have "map (\<lambda>d. to_ascii_lowercase (pd_name d)) (case manifest_from_slice sample_cargo [] of Inr m \<Rightarrow> declared_deps sample_cargo m) =
      [''serde'', ''serde'']" by code_simp
  then have "(\<lambda>d. to_ascii_lowercase (pd_name d)) ` set (declared_deps sample_cargo m) = {''serde''}"
    using m by (metis (no_types, lifting) list.set_map list.simps(15) empty_set insert_absorb2 old.sum.simps(6))
  with parse_manifest_dependencies [OF m p] p show ?thesis by auto
qed

end
