(* ===== verification/Text_Utils.thy ===== *)
theory Text_Utils
  imports Prelude
begin

text \<open>
  The text helpers of \<open>mcp/utils.rs\<close>: request normalisation, glob translation, documentation
  summaries, string-set clean-up, character truncation and search match reasons, with the JSON
  value type they read.
\<close>

section \<open>Request normalisation\<close>

definition normalize_optional :: "string option \<Rightarrow> string option" where
  "normalize_optional value =
     (case map_option trim value of
        None \<Rightarrow> None
      | Some v \<Rightarrow> if v = [] then None else Some v)"

definition normalize_required :: "string \<Rightarrow> string \<Rightarrow> string result" where
  "normalize_required value field =
     (let trimmed = trim value in
      if trimmed = [] then Inl (field @ '' must not be empty'') else Inr trimmed)"

lemma normalize_optional_idem [simp]:
  "normalize_optional (normalize_optional v) = normalize_optional v"
  by (cases v) (simp_all add: normalize_optional_def)

lemma normalize_required_Inr:
  "normalize_required v f = Inr t \<longleftrightarrow> t = trim v \<and> trim v \<noteq> []"
  by (auto simp: normalize_required_def Let_def)

lemma normalize_required_optional:
  "normalize_required v f = Inr t \<longleftrightarrow> normalize_optional (Some v) = Some t"
  by (auto simp: normalize_required_def normalize_optional_def Let_def)

section \<open>Globs\<close>

definition glob_char_to_like :: "char \<Rightarrow> string" where
  "glob_char_to_like ch =
     (if ch = CHR ''*'' then ''%''
      else if ch = CHR ''?'' then ''_''
      else if ch = CHR ''%'' \<or> ch = CHR ''_'' \<or> ch = CHR 0x5C then [CHR 0x5C, ch]
      else [ch])"

fun path_glob_to_like :: "string \<Rightarrow> string" where
  "path_glob_to_like [] = []"
| "path_glob_to_like (ch # glob) = glob_char_to_like ch @ path_glob_to_like glob"

text \<open>
  What the two pattern languages mean.  In a glob \<open>*\<close> is any text and \<open>?\<close> any one character; in
  SQL \<open>LIKE\<close> (default escape character, the backslash) these are \<open>%\<close> and \<open>_\<close>, and an escaped
  character stands for itself.
\<close>

fun glob_match :: "string \<Rightarrow> string \<Rightarrow> bool" where
  "glob_match [] s = (s = [])"
| "glob_match (c # g) [] = (c = CHR ''*'' \<and> glob_match g [])"
| "glob_match (c # g) (x # s) =
     (if c = CHR ''*'' then glob_match g (x # s) \<or> glob_match (c # g) s
      else if c = CHR ''?'' then glob_match g s
      else c = x \<and> glob_match g s)"

fun like_match :: "string \<Rightarrow> string \<Rightarrow> bool" where
  "like_match [] s = (s = [])"
| "like_match (c # p) [] = (c = CHR ''%'' \<and> like_match p [])"
| "like_match (c # p) (x # s) =
     (if c = CHR ''%'' then like_match p (x # s) \<or> like_match (c # p) s
      else if c = CHR ''_'' then like_match p s
      else if c = CHR 0x5C then (case p of [] \<Rightarrow> False | e # q \<Rightarrow> e = x \<and> like_match q s)
      else c = x \<and> like_match p s)"

lemma like_match_glob_char:
  "like_match (glob_char_to_like c @ p) s \<longleftrightarrow>
     (if c = CHR ''*'' then like_match (CHR ''%'' # p) s
      else if c = CHR ''?'' then s \<noteq> [] \<and> like_match p (tl s)
      else s \<noteq> [] \<and> hd s = c \<and> like_match p (tl s))"
  by (cases s) (auto simp: glob_char_to_like_def)

text \<open>
  \<open>path_glob_to_like\<close> is exact: the \<open>LIKE\<close> pattern matches a path precisely when the glob
  does, so no metacharacter of the path leaks into SQL as a wildcard and none is lost.
\<close>

theorem path_glob_to_like_correct: "like_match (path_glob_to_like g) s \<longleftrightarrow> glob_match g s"
proof (induction g s rule: glob_match.induct)
  case (2 c g)
  then show ?case by (auto simp: like_match_glob_char)
next
  case (3 c g x s)
  then show ?case by (auto simp: like_match_glob_char glob_char_to_like_def)
qed simp

section \<open>Documentation text and string sets\<close>

definition doc_summary :: "string \<Rightarrow> string" where
  "doc_summary docs =
     trim (case split_once [CHR 0x0A, CHR 0x0A] docs of None \<Rightarrow> docs | Some (first, _) \<Rightarrow> first)"

definition dedupe_strings :: "string list \<Rightarrow> string list" where
  "dedupe_strings values = sort_dedup (filter (\<lambda>v. v \<noteq> []) (map trim values))"

datatype json =
  JNull | JBool bool | JNumber string | JString string | JArray "json list"
  | JObject "(string \<times> json) list"

fun as_str :: "json \<Rightarrow> string option" where
  "as_str (JString s) = Some s"
| "as_str _ = None"

definition value_to_string_vec :: "json \<Rightarrow> string list" where
  "value_to_string_vec value =
     (case value of JArray items \<Rightarrow> List.map_filter as_str items | _ \<Rightarrow> [])"

lemma dedupe_strings_idem: "dedupe_strings (dedupe_strings vs) = dedupe_strings vs"
proof -
  let ?d = "dedupe_strings vs"
  have "map trim ?d = ?d" by (rule map_idI) (auto simp: dedupe_strings_def)
  moreover have "filter (\<lambda>v. v \<noteq> []) ?d = ?d" by (auto simp: dedupe_strings_def filter_id_conv)
  moreover have "sort_dedup ?d = ?d" by (simp add: dedupe_strings_def sort_dedup_eq)
  ultimately show ?thesis by (simp add: dedupe_strings_def [of ?d])
qed

section \<open>Truncation by characters\<close>

text \<open>
  \<open>chars()\<close> walks code points: in UTF-8 a code point is a byte that is no continuation byte
  (\<open>10xxxxxx\<close>) followed by its continuation bytes.
\<close>

definition continuation :: "char \<Rightarrow> bool" where
  "continuation c \<longleftrightarrow> 128 \<le> (of_char c :: nat) \<and> (of_char c :: nat) < 192"

fun take_chars :: "nat \<Rightarrow> string \<Rightarrow> string \<times> string" where
  "take_chars 0 s = ([], s)"
| "take_chars (Suc n) [] = ([], [])"
| "take_chars (Suc n) (c # s) =
     (let (a, b) = take_chars n (dropWhile continuation s) in (c # takeWhile continuation s @ a, b))"

definition truncate_optional_text :: "string option \<Rightarrow> nat \<Rightarrow> string option \<times> bool" where
  "truncate_optional_text value max_chars =
     (case value of
        None \<Rightarrow> (None, False)
      | Some text \<Rightarrow>
          (let (truncated, rest) = take_chars max_chars text in (Some truncated, rest \<noteq> [])))"

definition char_count :: "string \<Rightarrow> nat" where
  "char_count s = length (filter (\<lambda>c. \<not> continuation c) s)"

definition at_boundary :: "string \<Rightarrow> bool" where
  "at_boundary s \<longleftrightarrow> s = [] \<or> \<not> continuation (hd s)"

lemma char_count_append [simp]: "char_count (a @ b) = char_count a + char_count b"
  by (simp add: char_count_def)

lemma char_count_span [simp]:
  "char_count (takeWhile continuation s) = 0"
  "char_count (dropWhile continuation s) = char_count s"
  by (induction s) (auto simp: char_count_def)

lemma at_boundary_dropWhile [simp]: "at_boundary (dropWhile continuation s)"
  by (induction s) (auto simp: at_boundary_def)

lemma char_count_zero: "at_boundary s \<Longrightarrow> char_count s = 0 \<longleftrightarrow> s = []"
  by (cases s) (auto simp: at_boundary_def char_count_def)

lemma take_chars_spec:
  "at_boundary s \<Longrightarrow> take_chars n s = (a, b) \<Longrightarrow>
     s = a @ b \<and> char_count a = min n (char_count s) \<and> at_boundary b"
proof (induction n s arbitrary: a b rule: take_chars.induct)
  case (3 n c s)
  obtain a' b' where t: "take_chars n (dropWhile continuation s) = (a', b')"
    by (cases "take_chars n (dropWhile continuation s)")
  with "3.prems" have ab: "a = c # takeWhile continuation s @ a'" "b = b'" by auto
  from "3.IH" [OF at_boundary_dropWhile t]
  have ih: "dropWhile continuation s = a' @ b'" "char_count a' = min n (char_count s)"
    "at_boundary b'" by auto
  have "s = takeWhile continuation s @ a' @ b'" using ih(1) by (metis takeWhile_dropWhile_id)
  moreover have "char_count (c # t) = Suc (char_count t)" for t
    using "3.prems"(1) by (simp add: at_boundary_def char_count_def)
  ultimately show ?case using ih ab by auto
qed (auto simp: char_count_def)

text \<open>
  Truncation keeps a prefix of the text with exactly \<open>min max_chars (number of characters)\<close>
  characters, never splits a character, and reports truncation exactly when text was lost.
\<close>

theorem truncate_optional_text_spec:
  assumes "at_boundary text"
  shows "\<exists>kept rest. truncate_optional_text (Some text) n = (Some kept, rest \<noteq> []) \<and>
           text = kept @ rest \<and> at_boundary rest \<and>
           char_count kept = min n (char_count text) \<and> (rest \<noteq> [] \<longleftrightarrow> n < char_count text)"
proof -
  obtain a b where t: "take_chars n text = (a, b)" by (cases "take_chars n text")
  note s = take_chars_spec [OF assms t]
  then have "char_count text = char_count a + char_count b"
    using char_count_append [of a b] by metis
  with s have "b \<noteq> [] \<longleftrightarrow> n < char_count text"
    using char_count_zero [of b] by linarith
  moreover have "truncate_optional_text (Some text) n = (Some a, b \<noteq> [])"
    by (simp add: truncate_optional_text_def t)
  ultimately show ?thesis using s by blast
qed

theorem truncate_optional_text_spec_witness:
  "at_boundary [CHR 0xC3, CHR 0xA9, CHR ''a''] \<and>
   (\<exists>kept rest. truncate_optional_text (Some [CHR 0xC3, CHR 0xA9, CHR ''a'']) 1 = (Some kept, rest \<noteq> [])
      \<and> [CHR 0xC3, CHR 0xA9, CHR ''a''] = kept @ rest)"
proof -
  have b: "at_boundary [CHR 0xC3, CHR 0xA9, CHR ''a'']"
    by (simp add: at_boundary_def continuation_def)
  show ?thesis using b truncate_optional_text_spec [OF b, of 1] by blast
qed

section \<open>Match reasons\<close>

text \<open>
  \<open>CrateSearchRow\<close> without its last field, the \<open>f64\<close> relevance score, which nothing here reads.
\<close>

record crate_search_row =
  csr_crate_id :: int
  csr_name :: string
  csr_description :: "string option"
  csr_repository_url :: "string option"
  csr_docs_url :: "string option"
  csr_homepage_url :: "string option"
  csr_categories :: "string list"
  csr_keywords :: "string list"
  csr_total_downloads :: int
  csr_latest_version :: "string option"
  csr_latest_published_at :: "string option"
  csr_dependent_count :: int

definition match_reasons ::
  "crate_search_row \<Rightarrow> string option \<Rightarrow> string option \<Rightarrow> string option \<Rightarrow> string list" where
  "match_reasons row query category keyword =
     (case query of
        None \<Rightarrow> []
      | Some q \<Rightarrow>
          let q_lower = to_ascii_lowercase q;
              hit = (\<lambda>k. eq_ignore_ascii_case k q \<or> contains q_lower (to_ascii_lowercase k)) in
          (if contains q_lower (to_ascii_lowercase (csr_name row)) then [''name_match''] else []) @
          (if contains q_lower (to_ascii_lowercase (unwrap_or (csr_description row) []))
           then [''description_match''] else []) @
          (if list_ex hit (csr_keywords row) then [''keyword_match''] else []) @
          (if list_ex hit (csr_categories row) then [''category_match''] else [])) @
     (case category of
        None \<Rightarrow> []
      | Some c \<Rightarrow> if list_ex (\<lambda>v. eq_ignore_ascii_case v c) (csr_categories row)
                  then [''category_filter_match''] else []) @
     (case keyword of
        None \<Rightarrow> []
      | Some k \<Rightarrow> if list_ex (\<lambda>v. eq_ignore_ascii_case v k) (csr_keywords row)
                  then [''keyword_filter_match''] else [])"

text \<open>The case-insensitive equality test inside the query branch is subsumed by containment.\<close>

lemma match_hit_redundant:
  "eq_ignore_ascii_case k q \<or> contains (to_ascii_lowercase q) (to_ascii_lowercase k) \<longleftrightarrow>
   contains (to_ascii_lowercase q) (to_ascii_lowercase k)"
proof -
  have "contains p p" for p unfolding contains_iff by (metis append_Nil append_Nil2)
  then show ?thesis by (auto simp: eq_ignore_ascii_case_def)
qed

lemma match_reasons_distinct: "distinct (match_reasons row q c k)"
  by (cases q; cases c; cases k) (simp_all add: match_reasons_def Let_def)

lemma match_reasons_none: "match_reasons row None None None = []"
  by (simp add: match_reasons_def)

end
