(* ===== verification/Refresh_Queue.thy ===== *)
theory Refresh_Queue
  imports Text_Utils
begin

text \<open>
  The durable job queue: the \<open>refresh_jobs\<close> table of \<open>migrations/0002_refresh_policy.sql\<close> and the
  statements of \<open>db/indexing.rs\<close> that read and change it.  A table is a list of rows, the
  \<open>BIGSERIAL\<close> sequence a counter, and \<open>NOW()\<close> the argument \<open>now\<close> (seconds).  One SQL statement is
  one atomic step.  \<open>LOWER\<close> is taken on ASCII, the alphabet of crate names.
\<close>

section \<open>The table and its statements\<close>

datatype job_status = Pending | Running | Finished | Failed

record refresh_job =
  rj_id :: nat
  rj_crate_name :: string
  rj_scope :: string
  rj_priority :: int
  rj_status :: job_status
  rj_attempts :: nat
  rj_include_dependencies :: bool
  rj_payload :: json
  rj_requested_at :: int
  rj_started_at :: "int option"
  rj_finished_at :: "int option"
  rj_last_error :: "string option"

record refresh_queue =
  rq_jobs :: "refresh_job list"
  rq_next_id :: nat

record enqueue_outcome =
  eo_job_id :: nat
  eo_is_new :: bool

record refresh_job_queue_row =
  jq_id :: nat
  jq_crate_name :: string
  jq_scope :: string
  jq_include_dependencies :: bool
  jq_payload :: json
  jq_attempts :: nat

definition is_active :: "refresh_job \<Rightarrow> bool" where
  "is_active j \<longleftrightarrow> rj_status j = Pending \<or> rj_status j = Running"

definition job_key :: "refresh_job \<Rightarrow> string \<times> string" where
  "job_key j = (to_ascii_lowercase (rj_crate_name j), rj_scope j)"

definition new_job ::
  "nat \<Rightarrow> int \<Rightarrow> string \<Rightarrow> string \<Rightarrow> int \<Rightarrow> bool \<Rightarrow> json \<Rightarrow> refresh_job" where
  "new_job i now crate_name scope priority include_dependencies payload =
     \<lparr>rj_id = i, rj_crate_name = crate_name, rj_scope = scope, rj_priority = priority,
      rj_status = Pending, rj_attempts = 0, rj_include_dependencies = include_dependencies,
      rj_payload = payload, rj_requested_at = now, rj_started_at = None, rj_finished_at = None,
      rj_last_error = None\<rparr>"

text \<open>The two statements of \<open>enqueue_or_get_refresh_job_id\<close>: look up, then insert.\<close>

definition select_active :: "refresh_queue \<Rightarrow> string \<Rightarrow> string \<Rightarrow> nat option" where
  "select_active q crate_name scope =
     (case sort (map rj_id (filter (\<lambda>j. job_key j = (to_ascii_lowercase crate_name, scope) \<and>
                                        is_active j) (rq_jobs q))) of
        [] \<Rightarrow> None
      | i # _ \<Rightarrow> Some i)"

definition insert_job ::
  "refresh_queue \<Rightarrow> int \<Rightarrow> string \<Rightarrow> string \<Rightarrow> int \<Rightarrow> bool \<Rightarrow> json \<Rightarrow> nat \<times> refresh_queue" where
  "insert_job q now crate_name scope priority include_dependencies payload =
     (rq_next_id q,
      \<lparr>rq_jobs = rq_jobs q @ [new_job (rq_next_id q) now crate_name scope priority
                                include_dependencies payload],
       rq_next_id = Suc (rq_next_id q)\<rparr>)"

definition enqueue_or_get_refresh_job_id ::
  "refresh_queue \<Rightarrow> int \<Rightarrow> string \<Rightarrow> string \<Rightarrow> int \<Rightarrow> bool \<Rightarrow> json \<Rightarrow> enqueue_outcome \<times> refresh_queue" where
  "enqueue_or_get_refresh_job_id q now crate_name scope priority include_dependencies payload =
     (case select_active q crate_name scope of
        Some existing_id \<Rightarrow> (\<lparr>eo_job_id = existing_id, eo_is_new = False\<rparr>, q)
      | None \<Rightarrow>
          (let (job_id, q') = insert_job q now crate_name scope priority include_dependencies payload
           in (\<lparr>eo_job_id = job_id, eo_is_new = True\<rparr>, q')))"

definition update_job :: "nat \<Rightarrow> (refresh_job \<Rightarrow> refresh_job) \<Rightarrow> refresh_queue \<Rightarrow> refresh_queue" where
  "update_job i f q = q\<lparr>rq_jobs := map (\<lambda>j. if rj_id j = i then f j else j) (rq_jobs q)\<rparr>"

definition claim_key :: "refresh_job \<Rightarrow> int \<times> nat \<times> int \<times> nat" where
  "claim_key j = (rj_priority j, rj_attempts j, rj_requested_at j, rj_id j)"

definition runnable :: "int \<Rightarrow> refresh_job \<Rightarrow> bool" where
  "runnable now j \<longleftrightarrow> rj_status j = Pending \<and> rj_requested_at j \<le> now"

definition mark_running :: "int \<Rightarrow> refresh_job \<Rightarrow> refresh_job" where
  "mark_running now j =
     j\<lparr>rj_status := Running, rj_started_at := Some now, rj_finished_at := None,
       rj_attempts := rj_attempts j + 1, rj_last_error := None\<rparr>"

definition queue_row :: "refresh_job \<Rightarrow> refresh_job_queue_row" where
  "queue_row j =
     \<lparr>jq_id = rj_id j, jq_crate_name = rj_crate_name j, jq_scope = rj_scope j,
      jq_include_dependencies = rj_include_dependencies j, jq_payload = rj_payload j,
      jq_attempts = rj_attempts j\<rparr>"

definition claim_next_refresh_job ::
  "refresh_queue \<Rightarrow> int \<Rightarrow> refresh_job_queue_row option \<times> refresh_queue" where
  "claim_next_refresh_job q now =
     (case sort_key claim_key (filter (runnable now) (rq_jobs q)) of
        [] \<Rightarrow> (None, q)
      | j # _ \<Rightarrow> (Some (queue_row (mark_running now j)), update_job (rj_id j) (mark_running now) q))"

definition mark_refresh_job_finished :: "refresh_queue \<Rightarrow> int \<Rightarrow> nat \<Rightarrow> refresh_queue" where
  "mark_refresh_job_finished q now job_id =
     update_job job_id (\<lambda>j. j\<lparr>rj_status := Finished, rj_finished_at := Some now,
                              rj_last_error := None\<rparr>) q"

definition mark_refresh_job_failed_or_requeued ::
  "refresh_queue \<Rightarrow> int \<Rightarrow> nat \<Rightarrow> bool \<Rightarrow> int \<Rightarrow> string \<Rightarrow> refresh_queue" where
  "mark_refresh_job_failed_or_requeued q now job_id terminal retry_delay_seconds error_message =
     update_job job_id
       (\<lambda>j. j\<lparr>rj_status := (if terminal then Failed else Pending),
              rj_requested_at := (if terminal then rj_requested_at j else now + retry_delay_seconds),
              rj_finished_at := (if terminal then Some now else None),
              rj_last_error := Some error_message\<rparr>) q"

section \<open>Queue counters\<close>

record index_queue_counts =
  iq_pending_jobs :: nat
  iq_delayed_jobs :: nat
  iq_retrying_jobs :: nat
  iq_running_jobs :: nat
  iq_failed_jobs :: nat

definition count_jobs :: "(refresh_job \<Rightarrow> bool) \<Rightarrow> refresh_queue \<Rightarrow> nat" where
  "count_jobs P q = length (filter P (rq_jobs q))"

definition fetch_index_queue_counts :: "refresh_queue \<Rightarrow> int \<Rightarrow> index_queue_counts" where
  "fetch_index_queue_counts q now =
     \<lparr>iq_pending_jobs = count_jobs (\<lambda>j. rj_status j = Pending \<and> rj_requested_at j \<le> now) q,
      iq_delayed_jobs = count_jobs (\<lambda>j. rj_status j = Pending \<and> rj_requested_at j > now) q,
      iq_retrying_jobs = count_jobs (\<lambda>j. rj_status j = Pending \<and> rj_attempts j > 0) q,
      iq_running_jobs = count_jobs (\<lambda>j. rj_status j = Running) q,
      iq_failed_jobs = count_jobs (\<lambda>j. rj_status j = Failed) q\<rparr>"

record retry_distribution =
  rd_inflight_attempt_1 :: nat
  rd_inflight_attempt_2 :: nat
  rd_inflight_attempt_3_plus :: nat
  rd_failed_attempt_1 :: nat
  rd_failed_attempt_2 :: nat
  rd_failed_attempt_3_plus :: nat

definition fetch_refresh_job_retry_distribution :: "refresh_queue \<Rightarrow> retry_distribution" where
  "fetch_refresh_job_retry_distribution q =
     \<lparr>rd_inflight_attempt_1 = count_jobs (\<lambda>j. is_active j \<and> rj_attempts j = 1) q,
      rd_inflight_attempt_2 = count_jobs (\<lambda>j. is_active j \<and> rj_attempts j = 2) q,
      rd_inflight_attempt_3_plus = count_jobs (\<lambda>j. is_active j \<and> rj_attempts j \<ge> 3) q,
      rd_failed_attempt_1 = count_jobs (\<lambda>j. rj_status j = Failed \<and> rj_attempts j = 1) q,
      rd_failed_attempt_2 = count_jobs (\<lambda>j. rj_status j = Failed \<and> rj_attempts j = 2) q,
      rd_failed_attempt_3_plus = count_jobs (\<lambda>j. rj_status j = Failed \<and> rj_attempts j \<ge> 3) q\<rparr>"

record refresh_job_gauge_counts =
  gc_pending_jobs :: nat
  gc_running_jobs :: nat
  gc_failed_jobs :: nat
  gc_background_pending_jobs :: nat

definition fetch_refresh_job_gauge_counts :: "refresh_queue \<Rightarrow> refresh_job_gauge_counts" where
  "fetch_refresh_job_gauge_counts q =
     \<lparr>gc_pending_jobs = count_jobs (\<lambda>j. rj_status j = Pending) q,
      gc_running_jobs = count_jobs (\<lambda>j. rj_status j = Running) q,
      gc_failed_jobs = count_jobs (\<lambda>j. rj_status j = Failed) q,
      gc_background_pending_jobs = count_jobs (\<lambda>j. rj_status j = Pending \<and> rj_priority j \<ge> 50) q\<rparr>"

section \<open>The invariant\<close>

text \<open>
  Row ids are unique and below the sequence, and a crate and scope have at most one active
  (pending or running) job.
\<close>

definition unique_active :: "refresh_job list \<Rightarrow> bool" where
  "unique_active js \<longleftrightarrow> distinct (map job_key (filter is_active js))"

definition queue_inv :: "refresh_queue \<Rightarrow> bool" where
  "queue_inv q \<longleftrightarrow> distinct (map rj_id (rq_jobs q)) \<and>
     (\<forall>j \<in> set (rq_jobs q). rj_id j < rq_next_id q) \<and> unique_active (rq_jobs q)"

definition empty_queue :: refresh_queue where
  "empty_queue = \<lparr>rq_jobs = [], rq_next_id = 1\<rparr>"

lemma queue_inv_empty: "queue_inv empty_queue"
  by (simp add: queue_inv_def empty_queue_def unique_active_def)

lemma select_active_Some:
  assumes "select_active q c s = Some i"
  shows "\<exists>j \<in> set (rq_jobs q). rj_id j = i \<and> is_active j \<and> job_key j = (to_ascii_lowercase c, s)"
proof -
  let ?js = "filter (\<lambda>j. job_key j = (to_ascii_lowercase c, s) \<and> is_active j) (rq_jobs q)"
  obtain rest where "sort (map rj_id ?js) = i # rest"
    using assms by (auto simp: select_active_def split: list.splits)
  then have "i \<in> set (sort (map rj_id ?js))" by simp
  then show ?thesis by auto
qed

lemma select_active_None:
  "select_active q c s = None \<longleftrightarrow>
     (\<forall>j \<in> set (rq_jobs q). is_active j \<longrightarrow> job_key j \<noteq> (to_ascii_lowercase c, s))"
proof -
  let ?js = "filter (\<lambda>j. job_key j = (to_ascii_lowercase c, s) \<and> is_active j) (rq_jobs q)"
  have "sort (map rj_id ?js) = [] \<longleftrightarrow> ?js = []" by simp
  then have "select_active q c s = None \<longleftrightarrow> ?js = []"
    unfolding select_active_def by (cases "sort (map rj_id ?js)") simp_all
  then show ?thesis by (auto simp: filter_empty_conv)
qed

lemma enqueue_cases:
  assumes "enqueue_or_get_refresh_job_id q now c s p d pl = (out, q')"
  shows "(\<exists>i. select_active q c s = Some i \<and> q' = q \<and> out = \<lparr>eo_job_id = i, eo_is_new = False\<rparr>) \<or>
         (select_active q c s = None \<and> out = \<lparr>eo_job_id = rq_next_id q, eo_is_new = True\<rparr> \<and>
          rq_jobs q' = rq_jobs q @ [new_job (rq_next_id q) now c s p d pl] \<and>
          rq_next_id q' = Suc (rq_next_id q))"
  using assms
  by (auto simp: enqueue_or_get_refresh_job_id_def insert_job_def split: option.splits)

lemma enqueue_snd:
  "(\<exists>i. select_active q c s = Some i \<and> snd (enqueue_or_get_refresh_job_id q now c s p d pl) = q) \<or>
   (select_active q c s = None \<and>
    rq_jobs (snd (enqueue_or_get_refresh_job_id q now c s p d pl)) =
      rq_jobs q @ [new_job (rq_next_id q) now c s p d pl])"
  by (auto simp: enqueue_or_get_refresh_job_id_def insert_job_def split: option.split)

lemma new_job_simps [simp]:
  "rj_id (new_job i now c s p d pl) = i"
  "rj_status (new_job i now c s p d pl) = Pending"
  "rj_attempts (new_job i now c s p d pl) = 0"
  "job_key (new_job i now c s p d pl) = (to_ascii_lowercase c, s)"
  "is_active (new_job i now c s p d pl)"
  by (simp_all add: new_job_def job_key_def is_active_def)

lemma enqueue_inv:
  assumes "queue_inv q" "enqueue_or_get_refresh_job_id q now c s p d pl = (out, q')"
  shows "queue_inv q'"
proof -
  consider (old) "q' = q"
    | (new) "select_active q c s = None" "rq_next_id q' = Suc (rq_next_id q)"
      "rq_jobs q' = rq_jobs q @ [new_job (rq_next_id q) now c s p d pl]"
    using enqueue_cases [OF assms(2)] by auto
  then show ?thesis
  proof cases
    case new
    then have "\<forall>j \<in> set (rq_jobs q). is_active j \<longrightarrow> job_key j \<noteq> (to_ascii_lowercase c, s)"
      by (simp add: select_active_None)
    with new assms(1) show ?thesis
      by (force simp: queue_inv_def unique_active_def less_Suc_eq)
  qed (use assms in simp)
qed

text \<open>Updating one row keeps the invariant when the row stays the same job and does not wake up.\<close>

lemma update_job_jobs:
  "rq_jobs (update_job i f q) = map (\<lambda>j. if rj_id j = i then f j else j) (rq_jobs q)"
  "rq_next_id (update_job i f q) = rq_next_id q"
  by (simp_all add: update_job_def)

lemma update_job_inv:
  assumes inv: "queue_inv q"
    and f: "\<And>j. rj_id (f j) = rj_id j" "\<And>j. job_key (f j) = job_key j"
    and act: "\<And>j. j \<in> set (rq_jobs q) \<Longrightarrow> rj_id j = i \<Longrightarrow> is_active (f j) \<Longrightarrow> is_active j"
  shows "queue_inv (update_job i f q)"
proof -
  let ?g = "\<lambda>j. if rj_id j = i then f j else j"
  have "distinct (map job_key (filter is_active (map ?g js)))"
    if "distinct (map job_key (filter is_active js))" "set js \<subseteq> set (rq_jobs q)" for js
    using that
  proof (induction js)
    case (Cons j js)
    have sub: "job_key ` set (filter is_active (map ?g js)) \<subseteq> job_key ` set (filter is_active js)"
      using Cons.prems(2) act f(2) by (fastforce simp: image_iff)
    have "is_active (?g j) \<Longrightarrow> is_active j" using Cons.prems(2) act by (auto split: if_splits)
    moreover have "job_key (?g j) = job_key j" using f(2) by simp
    ultimately show ?case using Cons sub by (auto split: if_splits)
  qed simp
  then have "unique_active (map ?g (rq_jobs q))" using inv by (simp add: queue_inv_def unique_active_def)
  moreover have "map rj_id (map ?g (rq_jobs q)) = map rj_id (rq_jobs q)" using f(1) by simp
  moreover have "\<forall>j \<in> set (map ?g (rq_jobs q)). rj_id j < rq_next_id q"
    using inv f(1) by (auto simp: queue_inv_def)
  ultimately show ?thesis using inv by (simp only: queue_inv_def update_job_jobs)
qed

lemma claim_cases:
  assumes "claim_next_refresh_job q now = (r, q')"
  shows "(r = None \<and> q' = q \<and> (\<forall>j \<in> set (rq_jobs q). \<not> runnable now j)) \<or>
         (\<exists>j \<in> set (rq_jobs q). runnable now j \<and>
            (\<forall>k \<in> set (rq_jobs q). runnable now k \<longrightarrow> claim_key j \<le> claim_key k) \<and>
            r = Some (queue_row (mark_running now j)) \<and> q' = update_job (rj_id j) (mark_running now) q)"
proof (cases "sort_key claim_key (filter (runnable now) (rq_jobs q))")
  case Nil
  with assms show ?thesis by (auto simp: claim_next_refresh_job_def filter_empty_conv)
next
  case (Cons j rest)
  then show ?thesis
    using assms sort_key_hd [OF Cons] by (auto simp: claim_next_refresh_job_def)
qed

lemma mark_running_simps [simp]:
  "rj_id (mark_running now j) = rj_id j"
  "job_key (mark_running now j) = job_key j"
  "rj_status (mark_running now j) = Running"
  "rj_attempts (mark_running now j) = rj_attempts j + 1"
  by (simp_all add: mark_running_def job_key_def)

lemma same_id_same_job:
  "queue_inv q \<Longrightarrow> j \<in> set (rq_jobs q) \<Longrightarrow> k \<in> set (rq_jobs q) \<Longrightarrow> rj_id j = rj_id k \<Longrightarrow> j = k"
  by (auto simp: queue_inv_def distinct_map inj_on_def)

lemma claim_inv:
  assumes "queue_inv q" "claim_next_refresh_job q now = (r, q')"
  shows "queue_inv q'"
proof -
  have "queue_inv (update_job (rj_id j) (mark_running now) q)"
    if "j \<in> set (rq_jobs q)" "runnable now j" for j
  proof (rule update_job_inv [OF assms(1)])
    fix k assume "k \<in> set (rq_jobs q)" "rj_id k = rj_id j"
    then have "k = j" using same_id_same_job [OF assms(1)] that(1) by blast
    then show "is_active k" using that(2) by (simp add: runnable_def is_active_def)
  qed simp_all
  with claim_cases [OF assms(2)] assms(1) show ?thesis by auto
qed

lemma finished_inv: "queue_inv q \<Longrightarrow> queue_inv (mark_refresh_job_finished q now i)"
  unfolding mark_refresh_job_finished_def
  by (rule update_job_inv) (auto simp: job_key_def is_active_def)

lemma failed_inv:
  assumes "queue_inv q" "\<And>j. j \<in> set (rq_jobs q) \<Longrightarrow> rj_id j = i \<Longrightarrow> is_active j"
  shows "queue_inv (mark_refresh_job_failed_or_requeued q now i t d e)"
  unfolding mark_refresh_job_failed_or_requeued_def
  by (rule update_job_inv) (auto simp: job_key_def assms)

section \<open>The queue as a state machine\<close>

text \<open>
  The steps the server takes on the table: enqueue; claim; and, for a job the worker claimed and
  is running, finish or fail.  The worker's failure is terminal from the third attempt on
  (\<open>MAX_ATTEMPTS\<close>), otherwise the job is requeued with a delay.
\<close>

abbreviation MAX_ATTEMPTS :: nat where
  "MAX_ATTEMPTS \<equiv> 3"

inductive queue_step :: "refresh_queue \<Rightarrow> refresh_queue \<Rightarrow> bool" where
  enqueue: "enqueue_or_get_refresh_job_id q now c s p d pl = (out, q') \<Longrightarrow> queue_step q q'"
| claim: "claim_next_refresh_job q now = (r, q') \<Longrightarrow> queue_step q q'"
| finish: "j \<in> set (rq_jobs q) \<Longrightarrow> rj_status j = Running \<Longrightarrow>
     queue_step q (mark_refresh_job_finished q now (rj_id j))"
| fail: "j \<in> set (rq_jobs q) \<Longrightarrow> rj_status j = Running \<Longrightarrow>
     queue_step q (mark_refresh_job_failed_or_requeued q now (rj_id j)
       (MAX_ATTEMPTS \<le> rj_attempts j) delay msg)"

inductive queue_reachable :: "refresh_queue \<Rightarrow> bool" where
  init: "queue_reachable empty_queue"
| step: "queue_reachable q \<Longrightarrow> queue_step q q' \<Longrightarrow> queue_reachable q'"

definition attempts_ok :: "refresh_job \<Rightarrow> bool" where
  "attempts_ok j \<longleftrightarrow>
     (case rj_status j of
        Pending \<Rightarrow> rj_attempts j < MAX_ATTEMPTS
      | Running \<Rightarrow> 1 \<le> rj_attempts j \<and> rj_attempts j \<le> MAX_ATTEMPTS
      | Finished \<Rightarrow> 1 \<le> rj_attempts j \<and> rj_attempts j \<le> MAX_ATTEMPTS
      | Failed \<Rightarrow> rj_attempts j = MAX_ATTEMPTS)"

definition queue_ok :: "refresh_queue \<Rightarrow> bool" where
  "queue_ok q \<longleftrightarrow> queue_inv q \<and> (\<forall>j \<in> set (rq_jobs q). attempts_ok j)"

lemma update_job_attempts:
  assumes "\<forall>j \<in> set (rq_jobs q). attempts_ok j"
    and "\<And>j. j \<in> set (rq_jobs q) \<Longrightarrow> rj_id j = i \<Longrightarrow> attempts_ok (f j)"
  shows "\<forall>j \<in> set (rq_jobs (update_job i f q)). attempts_ok j"
  using assms by (auto simp: update_job_jobs)

lemma queue_step_ok: "queue_step q q' \<Longrightarrow> queue_ok q \<Longrightarrow> queue_ok q'"
proof (induction rule: queue_step.induct)
  case (enqueue q now c s p d pl out q')
  then have "queue_inv q'" by (auto simp: queue_ok_def intro: enqueue_inv)
  moreover have "\<forall>j \<in> set (rq_jobs q'). attempts_ok j"
    using enqueue_cases [OF enqueue.hyps] enqueue.prems by (auto simp: queue_ok_def attempts_ok_def)
  ultimately show ?case by (simp add: queue_ok_def)
next
  case (claim q now r q')
  then have inv: "queue_inv q" "queue_inv q'" by (auto simp: queue_ok_def intro: claim_inv)
  moreover have "\<forall>j \<in> set (rq_jobs q'). attempts_ok j"
    using claim_cases [OF claim.hyps] claim.prems
  proof (elim disjE bexE conjE)
    fix j assume j: "j \<in> set (rq_jobs q)" "runnable now j" "q' = update_job (rj_id j) (mark_running now) q"
    have "attempts_ok (mark_running now k)" if "k \<in> set (rq_jobs q)" "rj_id k = rj_id j" for k
      using same_id_same_job [OF inv(1) that(1) j(1) that(2)] j(2) claim.prems that(1)
      by (auto simp: queue_ok_def attempts_ok_def runnable_def)
    then show ?thesis
      unfolding j(3) using claim.prems by (intro update_job_attempts) (auto simp: queue_ok_def)
  qed (auto simp: queue_ok_def)
  ultimately show ?case by (simp add: queue_ok_def)
next
  case (finish j q now)
  then have "attempts_ok (k\<lparr>rj_status := Finished, rj_finished_at := Some now, rj_last_error := None\<rparr>)"
    if "k \<in> set (rq_jobs q)" "rj_id k = rj_id j" for k
    using same_id_same_job [of q k j] that by (auto simp: queue_ok_def attempts_ok_def)
  then have "\<forall>k \<in> set (rq_jobs (mark_refresh_job_finished q now (rj_id j))). attempts_ok k"
    unfolding mark_refresh_job_finished_def using finish.prems
    by (intro update_job_attempts) (auto simp: queue_ok_def)
  with finish finished_inv show ?case by (simp add: queue_ok_def)
next
  case (fail j q now delay msg)
  have k: "k = j" if "k \<in> set (rq_jobs q)" "rj_id k = rj_id j" for k
    using that fail same_id_same_job by (auto simp: queue_ok_def)
  have "queue_inv (mark_refresh_job_failed_or_requeued q now (rj_id j) (MAX_ATTEMPTS \<le> rj_attempts j) delay msg)"
    using fail k by (intro failed_inv) (auto simp: queue_ok_def is_active_def)
  moreover have "attempts_ok j" using fail by (simp add: queue_ok_def)
  then have "\<forall>k \<in> set (rq_jobs (mark_refresh_job_failed_or_requeued q now (rj_id j)
      (MAX_ATTEMPTS \<le> rj_attempts j) delay msg)). attempts_ok k"
    unfolding mark_refresh_job_failed_or_requeued_def using fail
    by (intro update_job_attempts) (auto simp: queue_ok_def attempts_ok_def dest!: k)
  ultimately show ?case by (simp add: queue_ok_def)
qed

lemma queue_reachable_ok: "queue_reachable q \<Longrightarrow> queue_ok q"
proof (induction rule: queue_reachable.induct)
  case init
  show ?case by (simp add: queue_ok_def queue_inv_empty) (simp add: empty_queue_def)
next
  case (step q q')
  then show ?case by (blast intro: queue_step_ok)
qed


definition sample_job :: refresh_job where
  "sample_job = new_job 1 0 ''serde'' ''crate'' 1 False JNull"


text \<open>
  Claiming takes the most urgent runnable job (least priority number, then fewest attempts,
  oldest request, least id), marks exactly that row running with one more attempt, and returns
  nothing only when no pending job is due.
\<close>

theorem claim_most_urgent:
  "case claim_next_refresh_job q now of
     (None, q') \<Rightarrow> q' = q \<and> list_all (\<lambda>k. \<not> runnable now k) (rq_jobs q)
   | (Some row, q') \<Rightarrow> \<exists>j. j \<in> set (rq_jobs q) \<and> runnable now j \<and>
       list_all (\<lambda>k. claim_key j \<le> claim_key k) (filter (runnable now) (rq_jobs q)) \<and>
       row = queue_row (mark_running now j) \<and> jq_attempts row = rj_attempts j + 1 \<and>
       rq_jobs q' = map (\<lambda>k. if rj_id k = rj_id j then mark_running now k else k) (rq_jobs q)"
  using claim_cases [of q now "fst (claim_next_refresh_job q now)" "snd (claim_next_refresh_job q now)"]
  by (auto simp: list_all_iff update_job_jobs queue_row_def split: prod.split option.split)

section \<open>Coalescing enqueues\<close>

type_synonym enqueue_request = "int \<times> string \<times> string \<times> int \<times> bool \<times> json"

definition enqueue_request ::
  "refresh_queue \<Rightarrow> enqueue_request \<Rightarrow> enqueue_outcome \<times> refresh_queue" where
  "enqueue_request q r =
     (case r of (now, c, s, p, d, pl) \<Rightarrow> enqueue_or_get_refresh_job_id q now c s p d pl)"

definition request_key :: "enqueue_request \<Rightarrow> string \<times> string" where
  "request_key r = (case r of (now, c, s, p, d, pl) \<Rightarrow> (to_ascii_lowercase c, s))"

definition job_active :: "refresh_queue \<Rightarrow> nat \<Rightarrow> string \<times> string \<Rightarrow> bool" where
  "job_active q i k \<longleftrightarrow> (\<exists>j \<in> set (rq_jobs q). rj_id j = i \<and> is_active j \<and> job_key j = k)"

fun enqueue_all :: "('q \<Rightarrow> 'r \<Rightarrow> enqueue_outcome \<times> 'q) \<Rightarrow> 'q \<Rightarrow> 'r list \<Rightarrow> enqueue_outcome list \<times> 'q" where
  "enqueue_all enq q [] = ([], q)"
| "enqueue_all enq q (r # rs) =
     (let (out, q') = enq q r; (outs, q'') = enqueue_all enq q' rs in (out # outs, q''))"

locale coalescing_queue =
  fixes enq :: "'q \<Rightarrow> 'r \<Rightarrow> enqueue_outcome \<times> 'q" and ok :: "'q \<Rightarrow> bool"
    and active :: "'q \<Rightarrow> nat \<Rightarrow> 'k \<Rightarrow> bool" and key :: "'r \<Rightarrow> 'k"
  assumes enq_ok: "ok q \<Longrightarrow> enq q r = (out, q') \<Longrightarrow> ok q'"
    and enq_active: "ok q \<Longrightarrow> enq q r = (out, q') \<Longrightarrow> active q' (eo_job_id out) (key r)"
    and enq_keeps: "enq q r = (out, q') \<Longrightarrow> active q i k \<Longrightarrow> active q' i k"
    and enq_coalesce: "ok q \<Longrightarrow> active q i (key r) \<Longrightarrow>
      enq q r = (\<lparr>eo_job_id = i, eo_is_new = False\<rparr>, q)"
begin

lemma all_ok: "ok q \<Longrightarrow> enqueue_all enq q rs = (outs, q') \<Longrightarrow> ok q'"
  by (induction rs arbitrary: q outs) (auto split: prod.splits dest: enq_ok)

lemma all_keeps: "enqueue_all enq q rs = (outs, q') \<Longrightarrow> active q i k \<Longrightarrow> active q' i k"
  by (induction rs arbitrary: q outs) (auto split: prod.splits dest: enq_keeps)

lemma all_active:
  "ok q \<Longrightarrow> enqueue_all enq q rs = (outs, q') \<Longrightarrow> length outs = length rs \<and>
     (\<forall>i < length rs. active q' (eo_job_id (outs ! i)) (key (rs ! i)))"
proof (induction rs arbitrary: q outs)
  case (Cons r rs)
  obtain out q1 where e: "enq q r = (out, q1)" by (cases "enq q r")
  obtain os where a: "enqueue_all enq q1 rs = (os, q')" and o: "outs = out # os"
    using Cons.prems(2) e by (auto split: prod.splits)
  have "active q' (eo_job_id out) (key r)"
    using all_keeps [OF a] enq_active [OF Cons.prems(1) e] by blast
  with Cons.IH [OF enq_ok [OF Cons.prems(1) e] a] o show ?case
    by (auto simp: nth_Cons split: nat.split)
qed simp

text \<open>Enqueuing a batch whose keys are all active changes nothing and creates no job.\<close>

lemma all_coalesce:
  "ok q \<Longrightarrow> length ids = length rs \<Longrightarrow> (\<forall>i < length rs. active q (ids ! i) (key (rs ! i))) \<Longrightarrow>
   enqueue_all enq q rs = (map (\<lambda>i. \<lparr>eo_job_id = i, eo_is_new = False\<rparr>) ids, q)"
proof (induction rs arbitrary: ids)
  case (Cons r rs)
  obtain i is' where ids: "ids = i # is'" using Cons.prems(2) by (cases ids) auto
  have "active q i (key r)" using Cons.prems(3) ids by force
  then have "enq q r = (\<lparr>eo_job_id = i, eo_is_new = False\<rparr>, q)" by (rule enq_coalesce [OF Cons.prems(1)])
  moreover have "enqueue_all enq q rs = (map (\<lambda>i. \<lparr>eo_job_id = i, eo_is_new = False\<rparr>) is', q)"
    using Cons.prems ids by (intro Cons.IH) auto
  ultimately show ?case using ids by simp
qed simp

lemma all_again:
  assumes "ok q" "enqueue_all enq q rs = (outs, q')"
  shows "enqueue_all enq q' rs = (map (\<lambda>out. \<lparr>eo_job_id = eo_job_id out, eo_is_new = False\<rparr>) outs, q')"
  using all_active [OF assms] all_coalesce [of q' "map eo_job_id outs" rs] all_ok [OF assms]
  by (simp add: comp_def)

end

interpretation jobs: coalescing_queue enqueue_request queue_inv job_active request_key
proof
  fix q :: refresh_queue and r :: enqueue_request and out q' i k
  obtain now c s p d pl where r: "r = (now, c, s, p, d, pl)" by (cases r)
  show "queue_inv q'" if "queue_inv q" "enqueue_request q r = (out, q')"
    using that r enqueue_inv by (simp add: enqueue_request_def)
  show "job_active q' (eo_job_id out) (request_key r)"
    if "queue_inv q" "enqueue_request q r = (out, q')"
    using enqueue_cases [of q now c s p d pl out q'] that(2) r select_active_Some [of q c s]
    by (auto simp: enqueue_request_def request_key_def job_active_def)
  show "job_active q' i k" if "enqueue_request q r = (out, q')" "job_active q i k"
    using enqueue_cases [of q now c s p d pl out q'] that r
    by (auto simp: enqueue_request_def job_active_def)
  show "enqueue_request q r = (\<lparr>eo_job_id = i, eo_is_new = False\<rparr>, q)"
    if inv: "queue_inv q" and act: "job_active q i (request_key r)"
  proof -
    obtain j where j: "j \<in> set (rq_jobs q)" "rj_id j = i" "is_active j" "job_key j = (to_ascii_lowercase c, s)"
      using act r by (auto simp: job_active_def request_key_def)
    then obtain i' where i': "select_active q c s = Some i'"
      using select_active_None [of q c s] by (cases "select_active q c s") auto
    from select_active_Some [OF i'] obtain j' where j': "j' \<in> set (rq_jobs q)" "rj_id j' = i'"
      "is_active j'" "job_key j' = (to_ascii_lowercase c, s)" by blast
    have "inj_on job_key (set (filter is_active (rq_jobs q)))"
      using inv by (simp add: queue_inv_def unique_active_def distinct_map)
    with j j' have "j = j'" by (auto simp: inj_on_def)
    with i' j j' r show ?thesis by (simp add: enqueue_request_def enqueue_or_get_refresh_job_id_def)
  qed
qed

section \<open>What the statements do not prevent\<close>

text \<open>
  Enqueue is two statements without a transaction or a unique index.  When two callers both look
  up before either inserts, the crate and scope get two active jobs and the invariant is lost.
\<close>

theorem enqueue_race:
  assumes "select_active q c s = None"
  shows "\<not> queue_inv (snd (insert_job (snd (insert_job q now c s p d pl)) now' c s p' d' pl')) \<and>
         queue_inv (snd (enqueue_or_get_refresh_job_id (snd (enqueue_or_get_refresh_job_id empty_queue now c s p d pl))
            now' c s p' d' pl'))"
proof
  show "\<not> queue_inv (snd (insert_job (snd (insert_job q now c s p d pl)) now' c s p' d' pl'))"
    by (simp add: queue_inv_def unique_active_def insert_job_def)
  show "queue_inv (snd (enqueue_or_get_refresh_job_id (snd (enqueue_or_get_refresh_job_id empty_queue now c s p d pl))
            now' c s p' d' pl'))"
    by (rule enqueue_inv [OF enqueue_inv [OF queue_inv_empty prod.collapse [symmetric]] prod.collapse [symmetric]])
qed

theorem enqueue_race_witness:
  "select_active empty_queue ''serde'' ''crate'' = None \<and>
   \<not> queue_inv (snd (insert_job (snd (insert_job empty_queue 0 ''serde'' ''crate'' 1 False JNull)) 0 ''serde'' ''crate'' 1 False JNull))"
proof -
  have n: "select_active empty_queue ''serde'' ''crate'' = None" by (simp add: select_active_def empty_queue_def)
  show ?thesis using n enqueue_race [OF n, of 0 1 False JNull 0 1 False JNull] by simp
qed

text \<open>
  A job left in the running state (the process died before it recorded the result) blocks its
  crate and scope: enqueuing them returns the dead job and creates none, and no claim ever picks it
  up again, however late.
\<close>

theorem running_job_blocks:
  assumes "queue_inv q" and "j \<in> set (rq_jobs q)" and "rj_status j = Running"
  shows "enqueue_or_get_refresh_job_id q now (rj_crate_name j) (rj_scope j) p d pl =
           (\<lparr>eo_job_id = rj_id j, eo_is_new = False\<rparr>, q) \<and>
         (case claim_next_refresh_job q now of (None, _) \<Rightarrow> True | (Some row, q') \<Rightarrow>
            jq_id row \<noteq> rj_id j \<and> j \<in> set (rq_jobs q'))"
proof
  have "job_active q (rj_id j) (request_key (now, rj_crate_name j, rj_scope j, p, d, pl))"
    using assms by (auto simp: job_active_def request_key_def job_key_def is_active_def)
  from jobs.enq_coalesce [OF assms(1) this]
  show "enqueue_or_get_refresh_job_id q now (rj_crate_name j) (rj_scope j) p d pl =
           (\<lparr>eo_job_id = rj_id j, eo_is_new = False\<rparr>, q)" by (simp add: enqueue_request_def)
  show "case claim_next_refresh_job q now of (None, _) \<Rightarrow> True | (Some row, q') \<Rightarrow>
            jq_id row \<noteq> rj_id j \<and> j \<in> set (rq_jobs q')"
  proof (cases "claim_next_refresh_job q now")
    case (Pair r q')
    from claim_cases [OF Pair] show ?thesis
    proof (elim disjE bexE conjE)
      fix k assume k: "k \<in> set (rq_jobs q)" "runnable now k" "r = Some (queue_row (mark_running now k))"
        "q' = update_job (rj_id k) (mark_running now) q"
      have "rj_id k \<noteq> rj_id j" using same_id_same_job [OF assms(1) k(1) assms(2)] k(2) assms(3)
        by (auto simp: runnable_def)
      with k assms(2) Pair show ?thesis by (force simp: queue_row_def update_job_jobs image_iff)
    qed (simp add: Pair)
  qed
qed

theorem running_job_blocks_witness:
  "\<exists>q. enqueue_or_get_refresh_job_id q 5 ''serde'' ''crate'' 1 False JNull = (\<lparr>eo_job_id = 1, eo_is_new = False\<rparr>, q)"
proof -
  let ?j = "mark_running 3 sample_job"
  let ?q = "\<lparr>rq_jobs = [?j], rq_next_id = 2\<rparr>"
  have "queue_inv ?q" "?j \<in> set (rq_jobs ?q)" "rj_status ?j = Running"
    by (auto simp: queue_inv_def unique_active_def sample_job_def)
  from running_job_blocks [OF this, of 5 1 False JNull] show ?thesis
    by (auto simp: sample_job_def mark_running_def new_job_def)
qed

end
