(* ===== verification/Crate_Store.thy ===== *)
theory Crate_Store
  imports Refresh_Queue
begin

text \<open>
  The \<open>crates\<close> and \<open>crate_versions\<close> tables and the statements of \<open>db/indexing.rs\<close> and \<open>db/tools.rs\<close>
  that the worker, the freshness policy, the maintenance scan and the version look-ups run on them.
  Timestamps are seconds.  The primary keys and unique indexes of the schema (\<open>crates.id\<close>,
  \<open>crates.name_lower\<close>, \<open>crate_versions.id\<close>, \<open>crate_versions(crate_id, version)\<close>) are \<open>store_inv\<close>.
\<close>

section \<open>Tables\<close>

record crate_core_row =
  cc_id :: nat
  cc_name :: string
  cc_description :: "string option"
  cc_repository_url :: "string option"
  cc_docs_url :: "string option"
  cc_homepage_url :: "string option"
  cc_categories :: "string list"
  cc_keywords :: "string list"
  cc_updated_at :: int

record crate_row = crate_core_row +
  cr_last_checked_at :: "int option"
  cr_next_check_at :: "int option"
  cr_ttl_hint_seconds :: int
  cr_ttl_reason :: "string option"
  cr_last_refresh_error :: "string option"

record crate_version_selection_row =
  cv_id :: nat
  cv_version :: string
  cv_rust_version :: "string option"
  cv_published_at :: "int option"
  cv_readme :: "string option"

record version_row = crate_version_selection_row +
  vr_crate_id :: nat
  vr_yanked :: bool
  vr_total_downloads :: nat
  vr_locally_present :: bool
  vr_source_origin :: int
  vr_rustdoc_enriched_at :: "int option"
  vr_rustdoc_last_attempt_at :: "int option"
  vr_checksum :: "string option"
  vr_license_expression :: "string option"
  vr_dependencies_synced_at :: "int option"

record crate_store =
  st_crates :: "crate_row list"
  st_versions :: "version_row list"

text \<open>The rows of \<open>dependency_edges\<close> and \<open>crate_version_features\<close>.\<close>

record dependency_edge_row =
  er_from_version_id :: nat
  er_to_crate_id :: nat
  er_requirement :: string
  er_dependency_kind :: string
  er_optional :: bool
  er_features :: json

record feature_row =
  fr_crate_version_id :: nat
  fr_feature_name :: string
  fr_enables :: json

section \<open>Look-ups\<close>

definition name_lower :: "('a) crate_core_row_scheme \<Rightarrow> string" where
  "name_lower c = to_ascii_lowercase (cc_name c)"

definition fetch_crate_core_by_name :: "crate_store \<Rightarrow> string \<Rightarrow> crate_core_row option" where
  "fetch_crate_core_by_name st crate_name =
     map_option crate_core_row.truncate
       (find (\<lambda>c. name_lower c = to_ascii_lowercase crate_name) (st_crates st))"

definition store_inv :: "crate_store \<Rightarrow> bool" where
  "store_inv st \<longleftrightarrow> distinct (map cc_id (st_crates st)) \<and> distinct (map name_lower (st_crates st)) \<and>
     distinct (map cv_id (st_versions st)) \<and> distinct (map (\<lambda>v. (vr_crate_id v, cv_version v)) (st_versions st))"

text \<open>\<open>ORDER BY published_at DESC NULLS LAST, id DESC\<close>\<close>

definition newest_key :: "('a) crate_version_selection_row_scheme \<Rightarrow> bool \<times> int \<times> int" where
  "newest_key v = (case cv_published_at v of
      None \<Rightarrow> (True, 0, - int (cv_id v))
    | Some p \<Rightarrow> (False, - p, - int (cv_id v)))"

definition fetch_latest_crate_version :: "crate_store \<Rightarrow> nat \<Rightarrow> crate_version_selection_row option" where
  "fetch_latest_crate_version st crate_id =
     (case sort_key newest_key (filter (\<lambda>v. vr_crate_id v = crate_id) (st_versions st)) of
        [] \<Rightarrow> None
      | v # _ \<Rightarrow> Some (crate_version_selection_row.truncate v))"

definition fetch_crate_version_by_name ::
  "crate_store \<Rightarrow> nat \<Rightarrow> string \<Rightarrow> crate_version_selection_row option" where
  "fetch_crate_version_by_name st crate_id version =
     map_option crate_version_selection_row.truncate
       (find (\<lambda>v. vr_crate_id v = crate_id \<and> cv_version v = version) (st_versions st))"

section \<open>The freshness columns\<close>

definition is_crate_refresh_due :: "crate_store \<Rightarrow> int \<Rightarrow> nat \<Rightarrow> bool option" where
  "is_crate_refresh_due st now crate_id =
     map_option (\<lambda>c. case cr_next_check_at c of None \<Rightarrow> True | Some t \<Rightarrow> t \<le> now)
       (find (\<lambda>c. cc_id c = crate_id) (st_crates st))"

definition DAY :: int where "DAY = 86400"

definition count_crate_releases_last_year :: "crate_store \<Rightarrow> int \<Rightarrow> nat \<Rightarrow> int" where
  "count_crate_releases_last_year st now crate_id =
     int (length (filter (\<lambda>v. vr_crate_id v = crate_id \<and>
        (case cv_published_at v of None \<Rightarrow> False | Some p \<Rightarrow> p \<ge> now - 365 * DAY)) (st_versions st)))"

definition days_since_latest_crate_release :: "crate_store \<Rightarrow> int \<Rightarrow> nat \<Rightarrow> int option" where
  "days_since_latest_crate_release st now crate_id =
     (case List.map_filter (\<lambda>v. if vr_crate_id v = crate_id then cv_published_at v else None) (st_versions st) of
        [] \<Rightarrow> None
      | p # ps \<Rightarrow> Some (let secs = now - fold max ps p
                       in if secs \<ge> 0 then secs div DAY else - ((- secs) div DAY)))"

definition update_crate :: "(crate_row \<Rightarrow> bool) \<Rightarrow> (crate_row \<Rightarrow> crate_row) \<Rightarrow> crate_store \<Rightarrow> crate_store" where
  "update_crate P f st = st\<lparr>st_crates := map (\<lambda>c. if P c then f c else c) (st_crates st)\<rparr>"

definition mark_crate_probe_failed :: "crate_store \<Rightarrow> int \<Rightarrow> nat \<Rightarrow> string \<Rightarrow> crate_store" where
  "mark_crate_probe_failed st now crate_id error_message =
     update_crate (\<lambda>c. cc_id c = crate_id)
       (\<lambda>c. c\<lparr>cr_last_checked_at := Some now, cr_next_check_at := Some (now + 3600),
              cr_ttl_hint_seconds := 3600, cr_ttl_reason := Some ''probe_failed'',
              cr_last_refresh_error := Some error_message, cc_updated_at := now\<rparr>) st"

definition mark_crate_freshness_checked :: "crate_store \<Rightarrow> int \<Rightarrow> nat \<Rightarrow> int \<Rightarrow> string \<Rightarrow> crate_store" where
  "mark_crate_freshness_checked st now crate_id ttl_seconds ttl_reason =
     update_crate (\<lambda>c. cc_id c = crate_id)
       (\<lambda>c. c\<lparr>cr_last_checked_at := Some now, cr_next_check_at := Some (now + ttl_seconds),
              cr_ttl_hint_seconds := ttl_seconds, cr_ttl_reason := Some ttl_reason,
              cr_last_refresh_error := None, cc_updated_at := now\<rparr>) st"

definition mark_crate_refresh_error :: "crate_store \<Rightarrow> int \<Rightarrow> string \<Rightarrow> string \<Rightarrow> crate_store" where
  "mark_crate_refresh_error st now crate_name error_message =
     update_crate (\<lambda>c. name_lower c = to_ascii_lowercase crate_name)
       (\<lambda>c. c\<lparr>cr_last_refresh_error := Some error_message, cc_updated_at := now\<rparr>) st"

section \<open>The enrichment columns\<close>

definition crate_of :: "crate_store \<Rightarrow> version_row \<Rightarrow> crate_row option" where
  "crate_of st v = find (\<lambda>c. cc_id c = vr_crate_id v) (st_crates st)"

definition of_crate :: "crate_store \<Rightarrow> string \<Rightarrow> version_row \<Rightarrow> bool" where
  "of_crate st crate_name v \<longleftrightarrow>
     (case crate_of st v of None \<Rightarrow> False | Some c \<Rightarrow> name_lower c = to_ascii_lowercase crate_name)"

definition update_version :: "(version_row \<Rightarrow> bool) \<Rightarrow> (version_row \<Rightarrow> version_row) \<Rightarrow> crate_store \<Rightarrow> crate_store" where
  "update_version P f st = st\<lparr>st_versions := map (\<lambda>v. if P v then f v else v) (st_versions st)\<rparr>"

definition mark_versions_locally_present :: "crate_store \<Rightarrow> string \<Rightarrow> string list \<Rightarrow> nat \<times> crate_store" where
  "mark_versions_locally_present st crate_name local_versions =
     (let local = (\<lambda>v. cv_version v \<in> set local_versions);
          touched = (\<lambda>v. of_crate st crate_name v \<and>
             (vr_locally_present v \<noteq> local v \<or> local v \<and> vr_source_origin v \<noteq> 1))
      in (length (filter touched (st_versions st)),
          update_version touched
            (\<lambda>v. v\<lparr>vr_locally_present := local v,
                   vr_source_origin := (if local v then 1 else vr_source_origin v)\<rparr>) st))"

definition mark_version_rustdoc_enriched :: "crate_store \<Rightarrow> int \<Rightarrow> nat \<Rightarrow> crate_store" where
  "mark_version_rustdoc_enriched st now i =
     update_version (\<lambda>v. cv_id v = i)
       (\<lambda>v. v\<lparr>vr_rustdoc_enriched_at := Some now, vr_rustdoc_last_attempt_at := Some now\<rparr>) st"

definition mark_version_rustdoc_attempted :: "crate_store \<Rightarrow> int \<Rightarrow> nat \<Rightarrow> crate_store" where
  "mark_version_rustdoc_attempted st now i =
     update_version (\<lambda>v. cv_id v = i) (\<lambda>v. v\<lparr>vr_rustdoc_last_attempt_at := Some now\<rparr>) st"

definition set_source_origin :: "crate_store \<Rightarrow> nat \<Rightarrow> int \<Rightarrow> crate_store" where
  "set_source_origin st i origin =
     update_version (\<lambda>v. cv_id v = i) (\<lambda>v. v\<lparr>vr_source_origin := origin\<rparr>) st"

definition needs_enrichment :: "int \<Rightarrow> int option \<Rightarrow> version_row \<Rightarrow> bool" where
  "needs_enrichment now cooldown v \<longleftrightarrow> vr_rustdoc_enriched_at v = None \<and>
     (case vr_rustdoc_last_attempt_at v of
        None \<Rightarrow> True
      | Some t \<Rightarrow> (case cooldown of None \<Rightarrow> False | Some s \<Rightarrow> t < now - s))"

definition fetch_unenriched_crate_names :: "crate_store \<Rightarrow> int \<Rightarrow> int \<Rightarrow> string list" where
  "fetch_unenriched_crate_names st now retry_cooldown_seconds =
     sort_dedup (List.map_filter
       (\<lambda>v. if vr_locally_present v \<and> needs_enrichment now (Some retry_cooldown_seconds) v
            then map_option cc_name (crate_of st v) else None) (st_versions st))"

record rustdoc_candidate_filter =
  rf_crate_name :: "string option"
  rf_version :: "string option"
  rf_locally_present_only :: bool
  rf_skip_enriched :: bool
  rf_retry_cooldown_seconds :: "int option"

definition rustdoc_filter_default :: rustdoc_candidate_filter where
  "rustdoc_filter_default = \<lparr>rf_crate_name = None, rf_version = None, rf_locally_present_only = False,
     rf_skip_enriched = False, rf_retry_cooldown_seconds = None\<rparr>"

definition rustdoc_candidate :: "crate_store \<Rightarrow> int \<Rightarrow> rustdoc_candidate_filter \<Rightarrow> version_row \<Rightarrow> bool" where
  "rustdoc_candidate st now f v \<longleftrightarrow> crate_of st v \<noteq> None \<and>
     (case rf_crate_name f of None \<Rightarrow> True | Some n \<Rightarrow> of_crate st n v) \<and>
     (case rf_version f of None \<Rightarrow> True | Some x \<Rightarrow> cv_version v = x) \<and>
     (rf_locally_present_only f \<longrightarrow> vr_locally_present v) \<and>
     (rf_skip_enriched f \<longrightarrow> needs_enrichment now (rf_retry_cooldown_seconds f) v)"

definition fetch_rustdoc_sync_candidates ::
  "crate_store \<Rightarrow> int \<Rightarrow> rustdoc_candidate_filter \<Rightarrow> nat \<Rightarrow> nat \<Rightarrow> version_row list" where
  "fetch_rustdoc_sync_candidates st now f limit offset =
     take limit (drop offset (sort_key newest_key (filter (rustdoc_candidate st now f) (st_versions st))))"

definition fetch_local_cache_version_keys ::
  "crate_store \<Rightarrow> string option \<Rightarrow> string option \<Rightarrow> bool \<Rightarrow> (string \<times> string \<times> string \<times> nat) list" where
  "fetch_local_cache_version_keys st crate_name version locally_present_only =
     List.map_filter
       (\<lambda>v. case crate_of st v of
              None \<Rightarrow> None
            | Some c \<Rightarrow>
                if (case crate_name of None \<Rightarrow> True | Some n \<Rightarrow> name_lower c = to_ascii_lowercase n) \<and>
                   (\<not> locally_present_only \<or> vr_locally_present v) \<and>
                   (case version of None \<Rightarrow> True | Some x \<Rightarrow> cv_version v = x)
                then Some (cc_name c @ ''-'' @ cv_version v, cc_name c, cv_version v, cv_id v)
                else None)
       (st_versions st)"

section \<open>What the statements do\<close>

lemma of_crate_update [simp]:
  "of_crate (update_version P f st) n v = of_crate st n v"
  "crate_of (update_version P f st) v = crate_of st v"
  by (simp_all add: of_crate_def crate_of_def update_version_def)

lemma of_crate_cong: "vr_crate_id v = vr_crate_id w \<Longrightarrow> of_crate st n v = of_crate st n w"
  by (simp add: of_crate_def crate_of_def)

lemma update_version_versions [simp]:
  "st_versions (update_version P f st) = map (\<lambda>v. if P v then f v else v) (st_versions st)"
  "st_crates (update_version P f st) = st_crates st"
  by (simp_all add: update_version_def)

lemma update_version_none: "(\<And>v. v \<in> set (st_versions st) \<Longrightarrow> \<not> P v) \<Longrightarrow> update_version P f st = st"
  by (simp add: update_version_def map_idI)

text \<open>
  Marking the locally present versions of a crate makes its versions present exactly when they
  are in the list, with the host registry as their origin, leaves every other row alone, and is
  idempotent: doing it again affects no row.
\<close>

theorem mark_locally_present_correct:
  "let (n, st') = mark_versions_locally_present st name vs
   in st_versions st' =
        map (\<lambda>v. if of_crate st name v
                 then v\<lparr>vr_locally_present := (cv_version v \<in> set vs),
                        vr_source_origin := (if cv_version v \<in> set vs then 1 else vr_source_origin v)\<rparr>
                 else v) (st_versions st) \<and>
      st_crates st' = st_crates st \<and>
      mark_versions_locally_present st' name vs = (0, st')"
proof -
  define loc where "loc v = (cv_version v \<in> set vs)" for v :: version_row
  define touched where "touched v = (of_crate st name v \<and>
    (vr_locally_present v \<noteq> loc v \<or> loc v \<and> vr_source_origin v \<noteq> 1))" for v
  define f where "f v = v\<lparr>vr_locally_present := loc v,
    vr_source_origin := (if loc v then 1 else vr_source_origin v)\<rparr>" for v :: version_row
  define st' where "st' = update_version touched f st"
  have mark: "mark_versions_locally_present s name vs =
      (length (filter (\<lambda>v. of_crate s name v \<and> (vr_locally_present v \<noteq> loc v \<or> loc v \<and> vr_source_origin v \<noteq> 1))
        (st_versions s)),
       update_version (\<lambda>v. of_crate s name v \<and> (vr_locally_present v \<noteq> loc v \<or> loc v \<and> vr_source_origin v \<noteq> 1)) f s)"
    for s by (simp add: mark_versions_locally_present_def loc_def f_def Let_def)
  have st': "mark_versions_locally_present st name vs = (length (filter touched (st_versions st)), st')"
    unfolding mark st'_def touched_def [abs_def] ..
  have eq: "(if touched v then f v else v) = (if of_crate st name v then f v else v)" for v
    by (auto simp: touched_def f_def)
  have kept: "\<not> (of_crate st' name v \<and> (vr_locally_present v \<noteq> loc v \<or> loc v \<and> vr_source_origin v \<noteq> 1))"
    if "v \<in> set (st_versions st')" for v
    using that of_crate_cong [of "f _" _ st name] by (auto simp: st'_def eq f_def loc_def split: if_splits)
  have "mark_versions_locally_present st' name vs = (0, st')"
    unfolding mark using kept by (simp add: filter_empty_conv update_version_none)
  then show ?thesis
    unfolding st' by (simp add: st'_def eq) (simp add: f_def loc_def)
qed

lemma newest_key_le:
  "newest_key v \<le> newest_key w \<longleftrightarrow>
     (case (cv_published_at v, cv_published_at w) of
        (Some p, Some q) \<Rightarrow> q < p \<or> q = p \<and> cv_id w \<le> cv_id v
      | (Some _, None) \<Rightarrow> True
      | (None, Some _) \<Rightarrow> False
      | (None, None) \<Rightarrow> cv_id w \<le> cv_id v)"
  by (auto simp: newest_key_def split: option.split)

lemma truncate_selection [simp]:
  "cv_version (crate_version_selection_row.truncate v) = cv_version v"
  "cv_id (crate_version_selection_row.truncate v) = cv_id v"
  "cv_published_at (crate_version_selection_row.truncate v) = cv_published_at v"
  by (simp_all add: crate_version_selection_row.truncate_def)

lemma latest_version_spec:
  assumes "fetch_latest_crate_version st i = Some r"
  shows "\<exists>v \<in> set (st_versions st). vr_crate_id v = i \<and> r = crate_version_selection_row.truncate v \<and>
    (\<forall>w \<in> set (st_versions st). vr_crate_id w = i \<longrightarrow> newest_key v \<le> newest_key w)"
proof -
  obtain v vs where v: "sort_key newest_key (filter (\<lambda>v. vr_crate_id v = i) (st_versions st)) = v # vs"
    "r = crate_version_selection_row.truncate v"
    using assms by (auto simp: fetch_latest_crate_version_def split: list.splits)
  from sort_key_hd [OF v(1)] v(2) show ?thesis by auto
qed

lemma latest_version_None:
  "fetch_latest_crate_version st i = None \<longleftrightarrow> (\<forall>v \<in> set (st_versions st). vr_crate_id v \<noteq> i)"
proof -
  have "sort_key newest_key (filter (\<lambda>v. vr_crate_id v = i) (st_versions st)) = [] \<longleftrightarrow>
      (\<forall>v \<in> set (st_versions st). vr_crate_id v \<noteq> i)"
    by (simp add: sort_key_Nil_iff filter_empty_conv)
  then show ?thesis by (auto simp: fetch_latest_crate_version_def split: list.split)
qed

text \<open>
  \<open>fetch_latest_crate_version\<close> returns the most recently published version of the crate, and
  does not look at \<open>yanked\<close>: yanking versions never changes its answer, although the field it fills
  is documented as the latest non-yanked version.
\<close>

theorem latest_version_ignores_yanked:
  "fetch_latest_crate_version (update_version P (\<lambda>v. v\<lparr>vr_yanked := True\<rparr>) st) i =
   fetch_latest_crate_version st i"
proof -
  let ?g = "\<lambda>v. if P v then v\<lparr>vr_yanked := True\<rparr> else v"
  have sk: "sort_key newest_key (map ?g vs) = map ?g (sort_key newest_key vs)" for vs
    by (rule sort_key_map_stable) (simp add: newest_key_def split: option.split)
  have "filter (\<lambda>v. vr_crate_id v = i) (map ?g vs) = map ?g (filter (\<lambda>v. vr_crate_id v = i) vs)" for vs
    by (induction vs) auto
  moreover have "crate_version_selection_row.truncate (?g v) = crate_version_selection_row.truncate v" for v
    by (simp add: crate_version_selection_row.truncate_def)
  ultimately show ?thesis
    by (simp add: fetch_latest_crate_version_def sk split: list.split)
qed

end
