(* ===== verification/Semver.thy ===== *)
theory Semver
  imports Prelude
begin

text \<open>
  The interface of the \<open>semver\<close> and \<open>rustsec\<close> crates that the sources call.  These crates are not
  part of the repository, so they are arguments of the model: \<open>version_parse\<close> is
  \<open>Version::parse(..).ok()\<close>, \<open>clear_build\<close> assigns \<open>BuildMetadata::EMPTY\<close>, \<open>req_parse\<close> and
  \<open>req_matches\<close> (\<open>req_error\<close> the text of a failed parse) are \<open>VersionReq::parse(..).ok()\<close> and \<open>VersionReq::matches\<close>, and \<open>versions_new\<close> is
  \<open>Versions::new\<close> with \<open>None\<close> for \<open>Err\<close> and otherwise the predicate \<open>is_vulnerable\<close>.
  A parsed version is a value of some type \<open>'v::linorder\<close>: \<open>Version\<close> implements \<open>Ord\<close>.

  \<open>sample_semver\<close> is a small instance (three decimal components, single-comparator requirements)
  at which theorems about the interface are evaluated; no definition of the model uses it.
\<close>

record ('v, 'r) semver_api =
  version_parse :: "string \<Rightarrow> 'v option"
  clear_build :: "'v \<Rightarrow> 'v"
  req_parse :: "string \<Rightarrow> 'r option"
  req_error :: "string \<Rightarrow> string"
  req_matches :: "'r \<Rightarrow> 'v \<Rightarrow> bool"
  versions_new :: "'r list \<Rightarrow> 'r list \<Rightarrow> ('v \<Rightarrow> bool) option"

section \<open>A sample instance\<close>

type_synonym sample_version = "nat \<times> nat \<times> nat"
type_synonym sample_req = "bool \<times> sample_version"

definition sample_digit :: "char \<Rightarrow> nat option" where
  "sample_digit c = (let n = (of_char c :: nat) in if 48 \<le> n \<and> n \<le> 57 then Some (n - 48) else None)"

fun sample_number :: "nat \<Rightarrow> string \<Rightarrow> nat option" where
  "sample_number acc [] = Some acc"
| "sample_number acc (c # cs) =
     (case sample_digit c of None \<Rightarrow> None | Some d \<Rightarrow> sample_number (10 * acc + d) cs)"

definition sample_component :: "string \<Rightarrow> nat option" where
  "sample_component s = (if s = [] then None else sample_number 0 s)"

definition sample_version_parse :: "string \<Rightarrow> sample_version option" where
  "sample_version_parse s =
     (case map sample_component (split_on ''.'' s) of
        [Some a, Some b, Some c] \<Rightarrow> Some (a, b, c)
      | _ \<Rightarrow> None)"

definition sample_req_parse :: "string \<Rightarrow> sample_req option" where
  "sample_req_parse s =
     (case strip_prefix ''>= '' s of
        Some t \<Rightarrow> map_option (Pair True) (sample_version_parse t)
      | None \<Rightarrow> (case strip_prefix ''< '' s of
                    Some t \<Rightarrow> map_option (Pair False) (sample_version_parse t)
                  | None \<Rightarrow> None))"

definition sample_req_matches :: "sample_req \<Rightarrow> sample_version \<Rightarrow> bool" where
  "sample_req_matches r v = (if fst r then snd r \<le> v else v < snd r)"

definition sample_semver :: "(sample_version, sample_req) semver_api" where
  "sample_semver =
     \<lparr>version_parse = sample_version_parse, clear_build = (\<lambda>v. v),
      req_parse = sample_req_parse, req_error = (\<lambda>_. ''invalid''), req_matches = sample_req_matches,
      versions_new = (\<lambda>patched unaffected.
        Some (\<lambda>v. \<not> list_ex (\<lambda>r. sample_req_matches r v) (patched @ unaffected)))\<rparr>"

end
