(* ===== verification/Limits.thy ===== *)
theory Limits
  imports Prelude
begin

text \<open>
  The request-limit helpers of \<open>mcp/utils.rs\<close>.  Every helper has the shape
  \<open>value.unwrap_or(d).clamp(lo, hi)\<close>; the locale \<open>clamped_limit\<close> is the contract the tool
  handlers rely on, interpreted for each of them.
\<close>

section \<open>The helpers\<close>

definition search_limit :: "u32 option \<Rightarrow> u32" where
  [limit_defs]: "search_limit value = clamp (unwrap_or value 10) 1 50"

definition source_search_limit :: "u32 option \<Rightarrow> u32" where
  [limit_defs]: "source_search_limit value = clamp (unwrap_or value 20) 1 100"

definition symbol_search_limit :: "u32 option \<Rightarrow> u32" where
  [limit_defs]: "symbol_search_limit value = clamp (unwrap_or value 25) 1 200"

definition docs_search_limit :: "u32 option \<Rightarrow> u32" where
  [limit_defs]: "docs_search_limit value = clamp (unwrap_or value 25) 1 200"

definition source_read_end_line :: "u32 option \<Rightarrow> u32" where
  [limit_defs]: "source_read_end_line value = clamp (unwrap_or value 200) 1 2000"

definition version_limit :: "u32 option \<Rightarrow> u32" where
  [limit_defs]: "version_limit value = clamp (unwrap_or value 100) 1 500"

definition dependents_limit :: "u32 option \<Rightarrow> u32" where
  [limit_defs]: "dependents_limit value = clamp (unwrap_or value 25) 1 200"

definition sync_page :: "u32 option \<Rightarrow> u32" where
  "sync_page value = max (unwrap_or value 1) 1"

definition sync_per_page :: "u32 option \<Rightarrow> u32" where
  [limit_defs]: "sync_per_page value = clamp (unwrap_or value 25) 1 100"

definition graph_depth :: "u32 option \<Rightarrow> u32" where
  [limit_defs]: "graph_depth value = clamp (unwrap_or value 1) 1 4"

definition api_diff_limit :: "u32 option \<Rightarrow> u32" where
  [limit_defs]: "api_diff_limit value = clamp (unwrap_or value 500) 1 2000"

definition alternatives_limit :: "u32 option \<Rightarrow> u32" where
  [limit_defs]: "alternatives_limit value = clamp (unwrap_or value 10) 1 50"

definition hotspots_limit :: "u32 option \<Rightarrow> u32" where
  [limit_defs]: "hotspots_limit value = clamp (unwrap_or value 100) 1 500"

definition crate_api_limit :: "u32 option \<Rightarrow> u32" where
  [limit_defs]: "crate_api_limit value = clamp (unwrap_or value 200) 1 1000"

definition trait_impls_limit :: "u32 option \<Rightarrow> u32" where
  [limit_defs]: "trait_impls_limit value = clamp (unwrap_or value 200) 1 1000"

definition dependency_resolve_limit :: "u32 option \<Rightarrow> u32" where
  [limit_defs]: "dependency_resolve_limit value = clamp (unwrap_or value 100) 1 1000"

definition compatibility_matrix_version_limit :: "u32 option \<Rightarrow> u32" where
  [limit_defs]: "compatibility_matrix_version_limit value = clamp (unwrap_or value 5) 1 20"

definition compatibility_matrix_max_pairs :: "u32 option \<Rightarrow> u32" where
  [limit_defs]: "compatibility_matrix_max_pairs value = clamp (unwrap_or value 25) 1 200"

definition usage_patterns_limit :: "u32 option \<Rightarrow> u32" where
  [limit_defs]: "usage_patterns_limit value = clamp (unwrap_or value 20) 1 200"

definition re_exports_limit :: "u32 option \<Rightarrow> u32" where
  [limit_defs]: "re_exports_limit value = clamp (unwrap_or value 200) 1 1000"

definition import_path_limit :: "u32 option \<Rightarrow> u32" where
  [limit_defs]: "import_path_limit value = clamp (unwrap_or value 10) 1 100"

definition error_types_limit :: "u32 option \<Rightarrow> u32" where
  [limit_defs]: "error_types_limit value = clamp (unwrap_or value 100) 1 500"

definition feature_impact_heavy_threshold :: "u32 option \<Rightarrow> u32" where
  [limit_defs]: "feature_impact_heavy_threshold value = clamp (unwrap_or value 5) 1 100"

text \<open>\<open>readme_limit\<close>: \<open>Some 0\<close> omits the readme, anything else is clamped and widened to \<open>usize\<close>.\<close>

definition readme_limit :: "u32 option \<Rightarrow> nat option" where
  "readme_limit value =
     (case value of
        Some v \<Rightarrow> if v = 0 then None else Some (unat (clamp v 500 200000))
      | None \<Rightarrow> Some (unat (clamp (25000 :: u32) 500 200000)))"

text \<open>The range and default each helper's doc comment promises: (helper, default, least, greatest).\<close>

definition documented_limits :: "((u32 option \<Rightarrow> u32) \<times> u32 \<times> u32 \<times> u32) list" where
  "documented_limits =
     [(search_limit, 10, 1, 50),
      (source_search_limit, 20, 1, 100),
      (symbol_search_limit, 25, 1, 200),
      (docs_search_limit, 25, 1, 200),
      (source_read_end_line, 200, 1, 2000),
      (version_limit, 100, 1, 500),
      (dependents_limit, 25, 1, 200),
      (sync_per_page, 25, 1, 100),
      (graph_depth, 1, 1, 4),
      (api_diff_limit, 500, 1, 2000),
      (alternatives_limit, 10, 1, 50),
      (hotspots_limit, 100, 1, 500),
      (crate_api_limit, 200, 1, 1000),
      (trait_impls_limit, 200, 1, 1000),
      (dependency_resolve_limit, 100, 1, 1000),
      (compatibility_matrix_version_limit, 5, 1, 20),
      (compatibility_matrix_max_pairs, 25, 1, 200),
      (usage_patterns_limit, 20, 1, 200),
      (re_exports_limit, 200, 1, 1000),
      (import_path_limit, 10, 1, 100),
      (error_types_limit, 100, 1, 500),
      (feature_impact_heavy_threshold, 5, 1, 100)]"

section \<open>Their contract\<close>

locale clamped_limit =
  fixes f :: "u32 option \<Rightarrow> u32" and d lo hi :: u32
  assumes f_eq: "f v = clamp (unwrap_or v d) lo hi"
    and positive: "0 < lo" and default_in: "lo \<le> d" "d \<le> hi"
begin

lemma bounds: "lo \<le> f v \<and> f v \<le> hi"
  using clamp_bounds [of lo hi] default_in by (auto simp: f_eq)

lemma nonzero: "f v \<noteq> 0"
  using bounds [of v] positive by auto

lemma default: "f None = d"
  using default_in by (simp add: f_eq clamp_id)

lemma in_range_kept: "lo \<le> v \<Longrightarrow> v \<le> hi \<Longrightarrow> f (Some v) = v"
  by (simp add: f_eq clamp_id)

lemma stable: "f (Some (f v)) = f v"
  using bounds [of v] by (simp add: in_range_kept)

end

interpretation search_limit: clamped_limit search_limit 10 1 50
  by unfold_locales (simp_all add: search_limit_def)

interpretation source_search_limit: clamped_limit source_search_limit 20 1 100
  by unfold_locales (simp_all add: source_search_limit_def)

interpretation symbol_search_limit: clamped_limit symbol_search_limit 25 1 200
  by unfold_locales (simp_all add: symbol_search_limit_def)

interpretation docs_search_limit: clamped_limit docs_search_limit 25 1 200
  by unfold_locales (simp_all add: docs_search_limit_def)

interpretation source_read_end_line: clamped_limit source_read_end_line 200 1 2000
  by unfold_locales (simp_all add: source_read_end_line_def)

interpretation version_limit: clamped_limit version_limit 100 1 500
  by unfold_locales (simp_all add: version_limit_def)

interpretation dependents_limit: clamped_limit dependents_limit 25 1 200
  by unfold_locales (simp_all add: dependents_limit_def)

interpretation sync_per_page: clamped_limit sync_per_page 25 1 100
  by unfold_locales (simp_all add: sync_per_page_def)

interpretation graph_depth: clamped_limit graph_depth 1 1 4
  by unfold_locales (simp_all add: graph_depth_def)

interpretation api_diff_limit: clamped_limit api_diff_limit 500 1 2000
  by unfold_locales (simp_all add: api_diff_limit_def)

interpretation alternatives_limit: clamped_limit alternatives_limit 10 1 50
  by unfold_locales (simp_all add: alternatives_limit_def)

interpretation hotspots_limit: clamped_limit hotspots_limit 100 1 500
  by unfold_locales (simp_all add: hotspots_limit_def)

interpretation crate_api_limit: clamped_limit crate_api_limit 200 1 1000
  by unfold_locales (simp_all add: crate_api_limit_def)

interpretation trait_impls_limit: clamped_limit trait_impls_limit 200 1 1000
  by unfold_locales (simp_all add: trait_impls_limit_def)

interpretation dependency_resolve_limit: clamped_limit dependency_resolve_limit 100 1 1000
  by unfold_locales (simp_all add: dependency_resolve_limit_def)

interpretation compatibility_matrix_version_limit: clamped_limit compatibility_matrix_version_limit 5 1 20
  by unfold_locales (simp_all add: compatibility_matrix_version_limit_def)

interpretation compatibility_matrix_max_pairs: clamped_limit compatibility_matrix_max_pairs 25 1 200
  by unfold_locales (simp_all add: compatibility_matrix_max_pairs_def)

interpretation usage_patterns_limit: clamped_limit usage_patterns_limit 20 1 200
  by unfold_locales (simp_all add: usage_patterns_limit_def)

interpretation re_exports_limit: clamped_limit re_exports_limit 200 1 1000
  by unfold_locales (simp_all add: re_exports_limit_def)

interpretation import_path_limit: clamped_limit import_path_limit 10 1 100
  by unfold_locales (simp_all add: import_path_limit_def)

interpretation error_types_limit: clamped_limit error_types_limit 100 1 500
  by unfold_locales (simp_all add: error_types_limit_def)

interpretation feature_impact_heavy_threshold: clamped_limit feature_impact_heavy_threshold 5 1 100
  by unfold_locales (simp_all add: feature_impact_heavy_threshold_def)

lemmas limit_bounds =
  search_limit.bounds source_search_limit.bounds symbol_search_limit.bounds
  docs_search_limit.bounds source_read_end_line.bounds version_limit.bounds
  dependents_limit.bounds sync_per_page.bounds graph_depth.bounds api_diff_limit.bounds
  alternatives_limit.bounds hotspots_limit.bounds crate_api_limit.bounds
  trait_impls_limit.bounds dependency_resolve_limit.bounds
  compatibility_matrix_version_limit.bounds compatibility_matrix_max_pairs.bounds
  usage_patterns_limit.bounds re_exports_limit.bounds import_path_limit.bounds
  error_types_limit.bounds feature_impact_heavy_threshold.bounds

lemmas limit_defaults =
  search_limit.default source_search_limit.default symbol_search_limit.default
  docs_search_limit.default source_read_end_line.default version_limit.default
  dependents_limit.default sync_per_page.default graph_depth.default api_diff_limit.default
  alternatives_limit.default hotspots_limit.default crate_api_limit.default
  trait_impls_limit.default dependency_resolve_limit.default
  compatibility_matrix_version_limit.default compatibility_matrix_max_pairs.default
  usage_patterns_limit.default re_exports_limit.default import_path_limit.default
  error_types_limit.default feature_impact_heavy_threshold.default

lemmas limit_nonzero [simp] =
  search_limit.nonzero source_search_limit.nonzero symbol_search_limit.nonzero
  docs_search_limit.nonzero source_read_end_line.nonzero version_limit.nonzero
  dependents_limit.nonzero sync_per_page.nonzero graph_depth.nonzero api_diff_limit.nonzero
  alternatives_limit.nonzero hotspots_limit.nonzero crate_api_limit.nonzero
  trait_impls_limit.nonzero dependency_resolve_limit.nonzero
  compatibility_matrix_version_limit.nonzero compatibility_matrix_max_pairs.nonzero
  usage_patterns_limit.nonzero re_exports_limit.nonzero import_path_limit.nonzero
  error_types_limit.nonzero feature_impact_heavy_threshold.nonzero

lemma sync_page_positive [simp]: "sync_page v \<noteq> 0"
  by (auto simp: sync_page_def max_def)

text \<open>
  Every request limit stays inside the range its documentation states, whatever the client
  sends, and an absent limit gets the documented default.
\<close>

theorem limits_as_documented:
  "list_all (\<lambda>(f, d, lo, hi). f None = d \<and> (\<forall>v. lo \<le> f v \<and> f v \<le> hi \<and> f v \<noteq> 0)) documented_limits"
  by (simp add: documented_limits_def limit_bounds limit_defaults)

lemma readme_limit_cases:
  "readme_limit v = None \<longleftrightarrow> v = Some 0"
  "readme_limit v = Some n \<Longrightarrow> 500 \<le> n \<and> n \<le> 200000"
  using clamp_bounds [of "500 :: u32" 200000]
  by (auto simp: readme_limit_def word_le_nat_alt split: option.splits if_splits)

end
