(* ===== verification/Resolve.thy ===== *)
theory Resolve
  imports Manifest_Deps Crate_Store Semver Limits
begin

text \<open>
  The \<open>dependency_resolve\<close> tool (\<open>mcp/tools/dependency/resolve.rs\<close>): merging the requested
  dependencies, selecting an indexed version for each, and reporting the conflicts among the
  selected versions and their dependency edges.  Iteration over a \<open>HashMap\<close> is in no particular
  order: \<open>iter_values\<close> and \<open>iter_entries\<close> are the orders taken.  A database statement that fails is
  given by \<open>fails\<close>.
\<close>

section \<open>Types\<close>

datatype confidence_level = High | Medium | Low

fun confidence_as_str :: "confidence_level \<Rightarrow> string" where
  "confidence_as_str High = ''high''"
| "confidence_as_str Medium = ''medium''"
| "confidence_as_str Low = ''low''"

record confidence_assessment =
  ca_level :: confidence_level
  ca_reason :: string

record input_dependency =
  id_name :: string
  id_version_req :: "string option"

record normalized_dependency =
  nd_name :: string
  nd_version_req :: "string option"
  nd_source :: string

record selected_dependency =
  sd_crate_name :: string
  sd_version_id :: nat
  sd_version :: string
  sd_yanked :: bool

record dependency_version_row =
  dv_id :: nat
  dv_version :: string
  dv_rust_version :: "string option"
  dv_yanked :: bool

record dependency_edge =
  de_from_version_id :: nat
  de_to_crate_name :: string
  de_requirement :: string
  de_dependency_kind :: string
  de_optional :: bool
  de_features :: json

record resolve_conflict =
  rc_dependency_name :: string
  rc_requirement :: "string option"
  rc_message :: string

record resolved_version =
  rv_name :: string
  rv_version :: string
  rv_yanked :: bool

record feature_summary =
  fs_dependency_edges_evaluated :: nat
  fs_unique_optional_dependencies :: nat
  fs_unique_feature_flags_referenced :: nat

record resolve_request =
  rr_dependencies :: "input_dependency list option"
  rr_cargo_toml :: "string option"
  rr_additions :: "input_dependency list option"
  rr_check_features :: "bool option"
  rr_limit :: "u32 option"

record resolve_response =
  rp_input_dependencies :: "normalized_dependency list"
  rp_resolvable :: bool
  rp_resolved_versions :: "resolved_version list"
  rp_conflicts :: "resolve_conflict list"
  rp_check_features :: bool
  rp_feature_unification_summary :: "feature_summary option"
  rp_confidence :: string
  rp_confidence_assessment :: confidence_assessment
  rp_suggested_next_tools :: "string list"
  rp_provenance :: string

section \<open>Statements\<close>

definition dep_version_row :: "version_row \<Rightarrow> dependency_version_row" where
  "dep_version_row v = \<lparr>dv_id = cv_id v, dv_version = cv_version v, dv_rust_version = cv_rust_version v,
     dv_yanked = vr_yanked v\<rparr>"

definition fetch_dependency_crate_by_name :: "crate_store \<Rightarrow> string \<Rightarrow> (nat \<times> string) option" where
  "fetch_dependency_crate_by_name st crate_name =
     map_option (\<lambda>c. (cc_id c, cc_name c))
       (find (\<lambda>c. name_lower c = to_ascii_lowercase crate_name) (st_crates st))"

definition list_dependency_versions_by_crate :: "crate_store \<Rightarrow> nat \<Rightarrow> dependency_version_row list" where
  "list_dependency_versions_by_crate st crate_id =
     map dep_version_row (sort_key newest_key (filter (\<lambda>v. vr_crate_id v = crate_id) (st_versions st)))"

definition list_dependency_versions_by_lower_name :: "crate_store \<Rightarrow> string \<Rightarrow> dependency_version_row list" where
  "list_dependency_versions_by_lower_name st crate_name_lower =
     map dep_version_row (filter (\<lambda>v. case crate_of st v of None \<Rightarrow> False
        | Some c \<Rightarrow> name_lower c = crate_name_lower) (st_versions st))"

definition list_dependency_resolve_edges_for_versions :: "dependency_edge list \<Rightarrow> nat list \<Rightarrow> dependency_edge list" where
  "list_dependency_resolve_edges_for_versions edges version_ids =
     (if version_ids = [] then [] else filter (\<lambda>e. de_from_version_id e \<in> set version_ids) edges)"

section \<open>Merging the inputs\<close>

definition trim_start_v :: "string \<Rightarrow> string" where
  "trim_start_v s = dropWhile (\<lambda>c. c = CHR ''v'') s"

definition resolve_parse_semver_for_matching :: "('v, 'r) semver_api \<Rightarrow> string \<Rightarrow> 'v option" where
  "resolve_parse_semver_for_matching sv version =
     (case version_parse sv version of
        Some v \<Rightarrow> Some v
      | None \<Rightarrow> version_parse sv (trim_start_v version))"

definition collect_manifest_dependencies :: "'d cargo_api \<Rightarrow> string \<Rightarrow> input_dependency list result" where
  "collect_manifest_dependencies api manifest =
     (case parse_manifest api manifest of
        Inl e \<Rightarrow> Inl e
      | Inr p \<Rightarrow> Inr (map (\<lambda>d. \<lparr>id_name = pd_name d, id_version_req = pd_requirement d\<rparr>) (pm_dependencies p)))"

definition with_source :: "string \<Rightarrow> input_dependency list \<Rightarrow> normalized_dependency list" where
  "with_source source es =
     map (\<lambda>e. \<lparr>nd_name = id_name e, nd_version_req = id_version_req e, nd_source = source\<rparr>) es"

definition normalize_entry :: "normalized_dependency \<Rightarrow> normalized_dependency option" where
  "normalize_entry entry =
     (let name = trim (nd_name entry)
      in if name = [] then None
         else Some \<lparr>nd_name = name,
                    nd_version_req = Option.bind (nd_version_req entry)
                      (\<lambda>req. let r = trim req in if r = [] then None else Some r),
                    nd_source = nd_source entry\<rparr>)"

definition merge_input :: "normalized_dependency \<Rightarrow> (string, normalized_dependency) btree \<Rightarrow> (string, normalized_dependency) btree" where
  "merge_input normalized merged =
     (let key = to_ascii_lowercase (nd_name normalized)
      in case bt_get merged key of
           None \<Rightarrow> bt_insert key normalized merged
         | Some existing \<Rightarrow>
             if nd_version_req normalized \<noteq> None \<and>
                (nd_source normalized = ''addition'' \<or> nd_version_req existing = None)
             then bt_insert key normalized merged else merged)"

definition all_inputs ::
  "input_dependency list option \<Rightarrow> input_dependency list \<Rightarrow> input_dependency list option \<Rightarrow> normalized_dependency list" where
  "all_inputs explicit_dependencies manifest_dependencies additions =
     List.map_filter normalize_entry
       (with_source ''explicit'' (unwrap_or explicit_dependencies []) @
        with_source ''cargo_toml'' manifest_dependencies @
        with_source ''addition'' (unwrap_or additions []))"

definition normalize_inputs ::
  "(normalized_dependency list \<Rightarrow> normalized_dependency list) \<Rightarrow>
   input_dependency list option \<Rightarrow> input_dependency list \<Rightarrow> input_dependency list option \<Rightarrow> normalized_dependency list" where
  "normalize_inputs iter_values explicit_dependencies manifest_dependencies additions =
     sort_key (\<lambda>d. to_ascii_lowercase (nd_name d))
       (iter_values (bt_values (fold merge_input (all_inputs explicit_dependencies manifest_dependencies additions) [])))"

section \<open>Selecting a version\<close>

definition max_by_key :: "('v::linorder \<times> 'a) list \<Rightarrow> ('v \<times> 'a) option" where
  "max_by_key xs = fold (pick (\<lambda>e x. fst e \<le> fst x)) xs None"

definition matching_versions ::
  "('v, 'r) semver_api \<Rightarrow> 'r \<Rightarrow> dependency_version_row list \<Rightarrow> ('v \<times> dependency_version_row) list" where
  "matching_versions sv req rows =
     List.map_filter (\<lambda>row. case resolve_parse_semver_for_matching sv (dv_version row) of
        None \<Rightarrow> None
      | Some v \<Rightarrow> if req_matches sv req v then Some (v, row) else None) rows"

definition select_version ::
  "('v::linorder, 'r) semver_api \<Rightarrow> string \<Rightarrow> string option \<Rightarrow> dependency_version_row list \<Rightarrow>
   dependency_version_row option result" where
  "select_version sv name vreq rows =
     (case vreq of
        None \<Rightarrow> Inr (case rows of [] \<Rightarrow> None | r # _ \<Rightarrow> Some r)
      | Some r \<Rightarrow>
          (case req_parse sv r of
             None \<Rightarrow> Inl (''invalid version requirement '' @ [CHR 0x27] @ r @ [CHR 0x27] @ '' for '' @ name @
                         '': '' @ req_error sv r)
           | Some req \<Rightarrow> Inr (map_option snd (max_by_key (matching_versions sv req rows)))))"

datatype resolve_query = CrateQuery string | VersionsQuery string | EdgesQuery | TransitiveQuery string

record resolution =
  rs_conflicts :: "resolve_conflict list"
  rs_selected :: "selected_dependency list"
  rs_unindexed :: nat

definition conflict :: "normalized_dependency \<Rightarrow> string \<Rightarrow> resolve_conflict" where
  "conflict d m = \<lparr>rc_dependency_name = nd_name d, rc_requirement = nd_version_req d, rc_message = m\<rparr>"

definition resolve_one ::
  "('v::linorder, 'r) semver_api \<Rightarrow> (resolve_query \<Rightarrow> string option) \<Rightarrow> crate_store \<Rightarrow> normalized_dependency \<Rightarrow>
   resolution \<Rightarrow> resolution result" where
  "resolve_one sv fails st d acc =
     (case fails (CrateQuery (nd_name d)) of
        Some e \<Rightarrow> Inl (''crate lookup failed for '' @ nd_name d @ '': '' @ e)
      | None \<Rightarrow>
     (case fetch_dependency_crate_by_name st (nd_name d) of
        None \<Rightarrow> Inr (acc\<lparr>rs_unindexed := rs_unindexed acc + 1,
                       rs_conflicts := rs_conflicts acc @
                         [conflict d ''dependency is not present in local index; run index_crates first'']\<rparr>)
      | Some (crate_id, crate_name) \<Rightarrow>
     (case fails (VersionsQuery crate_name) of
        Some e \<Rightarrow> Inl (''version lookup failed for '' @ crate_name @ '': '' @ e)
      | None \<Rightarrow>
     (case select_version sv (nd_name d) (nd_version_req d) (list_dependency_versions_by_crate st crate_id) of
        Inl e \<Rightarrow> Inl e
      | Inr None \<Rightarrow> Inr (acc\<lparr>rs_conflicts := rs_conflicts acc @
                             [conflict d ''no indexed version satisfies the declared version requirement'']\<rparr>)
      | Inr (Some row) \<Rightarrow>
          Inr (acc\<lparr>rs_selected := rs_selected acc @
                   [\<lparr>sd_crate_name = crate_name, sd_version_id = dv_id row, sd_version = dv_version row,
                     sd_yanked = dv_yanked row\<rparr>]\<rparr>)))))"

fun resolve_all ::
  "('v::linorder, 'r) semver_api \<Rightarrow> (resolve_query \<Rightarrow> string option) \<Rightarrow> crate_store \<Rightarrow> normalized_dependency list \<Rightarrow>
   resolution \<Rightarrow> resolution result" where
  "resolve_all sv fails st [] acc = Inr acc"
| "resolve_all sv fails st (d # ds) acc =
     (case resolve_one sv fails st d acc of Inl e \<Rightarrow> Inl e | Inr acc' \<Rightarrow> resolve_all sv fails st ds acc')"

section \<open>The dependency edges\<close>

fun collect_feature_names :: "json \<Rightarrow> string list" where
  "collect_feature_names (JArray entries) = sort_dedup (List.map_filter as_str entries)"
| "collect_feature_names _ = []"

definition edge_conflicts ::
  "('v::linorder, 'r) semver_api \<Rightarrow> selected_dependency list \<Rightarrow> dependency_edge \<Rightarrow> resolve_conflict list" where
  "edge_conflicts sv selected edge =
     (case map_of (rev (map (\<lambda>s. (to_ascii_lowercase (sd_crate_name s), s)) selected))
             (to_ascii_lowercase (de_to_crate_name edge)) of
        None \<Rightarrow> []
      | Some target \<Rightarrow>
          (case (resolve_parse_semver_for_matching sv (sd_version target), req_parse sv (de_requirement edge)) of
             (Some v, Some req) \<Rightarrow>
               if \<not> req_matches sv req v
               then [\<lparr>rc_dependency_name = de_to_crate_name edge, rc_requirement = Some (de_requirement edge),
                      rc_message = ''selected version '' @ sd_version target @
                        '' does not satisfy transitive requirement '' @ [CHR 0x27] @ de_requirement edge @ [CHR 0x27]\<rparr>]
               else []
           | _ \<Rightarrow> []))"

definition push_requirement :: "dependency_edge \<Rightarrow> (string, string list) btree \<Rightarrow> (string, string list) btree" where
  "push_requirement edge m =
     (let key = to_ascii_lowercase (de_to_crate_name edge)
      in bt_insert key (unwrap_or (bt_get m key) [] @ [de_requirement edge]) m)"

definition satisfies_all :: "('v::linorder, 'r) semver_api \<Rightarrow> 'r list \<Rightarrow> dependency_version_row \<Rightarrow> bool" where
  "satisfies_all sv reqs row =
     (case resolve_parse_semver_for_matching sv (dv_version row) of
        None \<Rightarrow> False
      | Some v \<Rightarrow> list_all (\<lambda>req. req_matches sv req v) reqs)"

fun transitive_conflicts ::
  "('v::linorder, 'r) semver_api \<Rightarrow> (resolve_query \<Rightarrow> string option) \<Rightarrow> crate_store \<Rightarrow> (string \<times> string list) list \<Rightarrow>
   resolve_conflict list result" where
  "transitive_conflicts sv fails st [] = Inr []"
| "transitive_conflicts sv fails st ((key, requirements) # rest) =
     (let reqs = List.map_filter (req_parse sv) requirements
      in if length requirements < 2 \<or> length reqs < 2 then transitive_conflicts sv fails st rest
         else (case fails (TransitiveQuery key) of
             Some e \<Rightarrow> Inl (''version lookup failed for transitive crate '' @ key @ '': '' @ e)
           | None \<Rightarrow>
               (case transitive_conflicts sv fails st rest of
                  Inl e \<Rightarrow> Inl e
                | Inr cs \<Rightarrow>
                    Inr (if list_ex (satisfies_all sv reqs) (list_dependency_versions_by_lower_name st key) then cs
                         else \<lparr>rc_dependency_name = key, rc_requirement = None,
                               rc_message = ''no indexed version satisfies all transitive requirements''\<rparr> # cs))))"

definition evaluate_confidence :: "nat \<Rightarrow> nat \<Rightarrow> nat \<Rightarrow> confidence_assessment" where
  "evaluate_confidence selected_count conflict_count unindexed_count =
     (if selected_count = 0
      then \<lparr>ca_level = Low, ca_reason = ''no requested dependencies could be resolved from local index''\<rparr>
      else if unindexed_count > 0
      then \<lparr>ca_level = Medium, ca_reason = show_nat unindexed_count @
             '' requested dependencies were not present in the local index''\<rparr>
      else if conflict_count > 0
      then \<lparr>ca_level = Medium, ca_reason = ''resolution found '' @ show_nat conflict_count @
             '' compatibility conflicts across selected versions''\<rparr>
      else \<lparr>ca_level = High, ca_reason =
             ''selected versions and indexed dependency requirements were mutually compatible''\<rparr>)"

section \<open>The handler\<close>

definition edge_targets_optional :: "dependency_edge list \<Rightarrow> string list" where
  "edge_targets_optional edges = sort_dedup (map de_to_crate_name (filter de_optional edges))"

definition edge_feature_names :: "dependency_edge list \<Rightarrow> string list" where
  "edge_feature_names edges = sort_dedup (concat (map (\<lambda>e. collect_feature_names (de_features e)) edges))"

definition resolve_edges ::
  "('v::linorder, 'r) semver_api \<Rightarrow> (resolve_query \<Rightarrow> string option) \<Rightarrow>
   ((string \<times> string list) list \<Rightarrow> (string \<times> string list) list) \<Rightarrow>
   crate_store \<Rightarrow> dependency_edge list \<Rightarrow> selected_dependency list \<Rightarrow> (resolve_conflict list \<times> dependency_edge list) result" where
  "resolve_edges sv fails iter_entries st table selected =
     (let selected_ids = map sd_version_id selected
      in if selected_ids = [] then Inr ([], [])
         else (case fails EdgesQuery of
             Some e \<Rightarrow> Inl (''dependency edge lookup failed: '' @ e)
           | None \<Rightarrow>
               (let edges = list_dependency_resolve_edges_for_versions table selected_ids
                in case transitive_conflicts sv fails st (iter_entries (fold push_requirement edges [])) of
                     Inl e \<Rightarrow> Inl e
                   | Inr cs \<Rightarrow> Inr (concat (map (edge_conflicts sv selected) edges) @ cs, edges))))"

definition manifest_inputs :: "'d cargo_api \<Rightarrow> string option \<Rightarrow> input_dependency list result" where
  "manifest_inputs api cargo_toml =
     (case cargo_toml of
        None \<Rightarrow> Inr []
      | Some t \<Rightarrow> if trim t = [] then Inr [] else collect_manifest_dependencies api (trim t))"

definition resolve_response_of ::
  "normalized_dependency list \<Rightarrow> bool \<Rightarrow> resolution \<Rightarrow> resolve_conflict list \<Rightarrow> dependency_edge list \<Rightarrow> resolve_response" where
  "resolve_response_of requested check_features r edge_cs edges =
     (let conflicts = rs_conflicts r @ edge_cs;
          resolved = map (\<lambda>s. \<lparr>rv_name = sd_crate_name s, rv_version = sd_version s, rv_yanked = sd_yanked s\<rparr>) (rs_selected r);
          assessment = evaluate_confidence (length resolved) (length conflicts) (rs_unindexed r)
      in \<lparr>rp_input_dependencies = requested, rp_resolvable = (conflicts = []), rp_resolved_versions = resolved,
          rp_conflicts = conflicts, rp_check_features = check_features,
          rp_feature_unification_summary =
            (if check_features
             then Some \<lparr>fs_dependency_edges_evaluated = length edges,
                        fs_unique_optional_dependencies = length (edge_targets_optional edges),
                        fs_unique_feature_flags_referenced = length (edge_feature_names edges)\<rparr>
             else None),
          rp_confidence = confidence_as_str (ca_level assessment), rp_confidence_assessment = assessment,
          rp_suggested_next_tools = [''dependency_audit'', ''crate_graph'', ''crate_features''],
          rp_provenance = ''local_postgres_index(crates, crate_versions, dependency_edges)''\<rparr>)"

definition handle_dependency_resolve ::
  "('v::linorder, 'r) semver_api \<Rightarrow> 'd cargo_api \<Rightarrow> (resolve_query \<Rightarrow> string option) \<Rightarrow>
   (normalized_dependency list \<Rightarrow> normalized_dependency list) \<Rightarrow>
   ((string \<times> string list) list \<Rightarrow> (string \<times> string list) list) \<Rightarrow>
   crate_store \<Rightarrow> dependency_edge list \<Rightarrow> resolve_request \<Rightarrow> resolve_response result" where
  "handle_dependency_resolve sv api fails iter_values iter_entries st table request =
     (case manifest_inputs api (rr_cargo_toml request) of
        Inl e \<Rightarrow> Inl e
      | Inr manifest_dependencies \<Rightarrow>
          (let requested = normalize_inputs iter_values (rr_dependencies request) manifest_dependencies (rr_additions request)
           in if requested = [] then Inl ''provide dependencies, cargo_toml, or additions to evaluate resolution''
              else (let requested = take (unat (dependency_resolve_limit (rr_limit request))) requested
                    in case resolve_all sv fails st requested \<lparr>rs_conflicts = [], rs_selected = [], rs_unindexed = 0\<rparr> of
                         Inl e \<Rightarrow> Inl e
                       | Inr r \<Rightarrow>
                           (case resolve_edges sv fails iter_entries st table (rs_selected r) of
                              Inl e \<Rightarrow> Inl e
                            | Inr (edge_cs, edges) \<Rightarrow>
                                Inr (resolve_response_of requested (unwrap_or (rr_check_features request) False) r edge_cs edges)))))"

section \<open>The merge of the inputs\<close>

interpretation inputs: keyed_merge "[]" bt_get bt_insert bt_invar "\<lambda>d. to_ascii_lowercase (nd_name d)"
  "\<lambda>e d. nd_version_req d \<noteq> None \<and> (nd_source d = ''addition'' \<or> nd_version_req e = None)" merge_input
  by unfold_locales (auto simp: merge_input_def Let_def split: option.split)

text \<open>Which entry wins among those of one crate.\<close>

definition winning_input :: "normalized_dependency list \<Rightarrow> normalized_dependency option" where
  "winning_input es =
     (case rev (filter (\<lambda>d. nd_version_req d \<noteq> None \<and> nd_source d = ''addition'') es) of
        d # _ \<Rightarrow> Some d
      | [] \<Rightarrow> (case filter (\<lambda>d. nd_version_req d \<noteq> None) es of
                 d # _ \<Rightarrow> Some d
               | [] \<Rightarrow> (case es of [] \<Rightarrow> None | d # _ \<Rightarrow> Some d)))"

lemma winning_input_snoc:
  "winning_input (es @ [d]) =
     pick (\<lambda>e d. nd_version_req d \<noteq> None \<and> (nd_source d = ''addition'' \<or> nd_version_req e = None)) d (winning_input es)"
proof -
  define A where "A = rev (filter (\<lambda>d. nd_version_req d \<noteq> None \<and> nd_source d = ''addition'') es)"
  define R where "R = filter (\<lambda>d. nd_version_req d \<noteq> None) es"
  have add: "nd_version_req x \<noteq> None" if "A = x # xs" for x xs
    using that unfolding A_def rev_filter by (drule_tac filter_ConsD) blast
  have req: "nd_version_req x \<noteq> None" if "R = x # xs" for x xs
    using that unfolding R_def by (drule_tac filter_ConsD) blast
  have none: "nd_version_req x = None" if "R = []" "es = x # xs" for x xs
    using that unfolding R_def by (simp split: if_splits)
  have old: "winning_input es = (case A of d # _ \<Rightarrow> Some d | [] \<Rightarrow> (case R of d # _ \<Rightarrow> Some d
      | [] \<Rightarrow> (case es of [] \<Rightarrow> None | d # _ \<Rightarrow> Some d)))"
    by (simp only: winning_input_def A_def R_def)
  have A': "rev (filter (\<lambda>d. nd_version_req d \<noteq> None \<and> nd_source d = ''addition'') (es @ [d])) =
      (if nd_version_req d \<noteq> None \<and> nd_source d = ''addition'' then d # A else A)"
    unfolding A_def by simp
  have R': "filter (\<lambda>d. nd_version_req d \<noteq> None) (es @ [d]) = (if nd_version_req d \<noteq> None then R @ [d] else R)"
    unfolding R_def by simp
  have new: "winning_input (es @ [d]) =
      (case (if nd_version_req d \<noteq> None \<and> nd_source d = ''addition'' then d # A else A) of d # _ \<Rightarrow> Some d
       | [] \<Rightarrow> (case (if nd_version_req d \<noteq> None then R @ [d] else R) of d # _ \<Rightarrow> Some d
       | [] \<Rightarrow> (case es @ [d] of [] \<Rightarrow> None | d # _ \<Rightarrow> Some d)))"
    unfolding winning_input_def by (simp only: A' R')
  show ?thesis
    unfolding old new using add req none
    by (cases A; cases R; cases es; cases "nd_version_req d"; auto)
qed

lemma winning_input_fold:
  "fold (pick (\<lambda>e d. nd_version_req d \<noteq> None \<and> (nd_source d = ''addition'' \<or> nd_version_req e = None))) es None =
   winning_input es"
  by (induction es rule: rev_induct) (simp_all add: winning_input_snoc, simp add: winning_input_def)

lemma normalize_inputs_eq:
  assumes "\<And>vs. mset (iter_values vs) = mset vs"
  shows "normalize_inputs iter_values ex mf ad = bt_values (fold merge_input (all_inputs ex mf ad) [])"
    and "map (\<lambda>d. to_ascii_lowercase (nd_name d)) (bt_values (fold merge_input (all_inputs ex mf ad) [])) =
         map fst (fold merge_input (all_inputs ex mf ad) [])"
proof -
  let ?key = "\<lambda>d. to_ascii_lowercase (nd_name d)"
  let ?t = "fold merge_input (all_inputs ex mf ad) []"
  have inv: "bt_invar ?t" by (rule inputs.merge_invar) simp
  have key: "?key v = k" if "(k, v) \<in> set ?t" for k v
    using that inputs.merge_member [of "all_inputs ex mf ad" k v] by (simp add: bt_get_iff [OF inv])
  show keys: "map ?key (bt_values ?t) = map fst ?t" by (rule bt_values_key_sorted [OF inv key])
  have "sorted_wrt (<) (map ?key (bt_values ?t))" unfolding keys using inv by (simp add: bt_invar_def)
  then have "inj_on ?key (set (bt_values ?t))" "sorted (map ?key (bt_values ?t))"
    by (auto simp: strict_sorted_iff distinct_map)
  moreover have "set (iter_values (bt_values ?t)) = set (bt_values ?t)" using assms by (metis set_mset_mset)
  ultimately show "normalize_inputs iter_values ex mf ad = bt_values ?t"
    unfolding normalize_inputs_def using assms by (intro sort_key_inj_key_eq) auto
qed

text \<open>
  The merged inputs do not depend on the iteration order of the hash map.  They are one entry
  per crate name, in ascending order, for exactly the names given; an addition with a requirement
  overrides (the last one), otherwise the first entry with a requirement is kept, otherwise the
  first entry.
\<close>

theorem normalize_inputs_spec:
  assumes "\<forall>vs. mset (iter_values vs) = mset vs"
  shows "normalize_inputs iter_values ex mf ad = normalize_inputs id ex mf ad \<and>
    sorted_wrt (<) (map (\<lambda>d. to_ascii_lowercase (nd_name d)) (normalize_inputs iter_values ex mf ad)) \<and>
    (\<lambda>d. to_ascii_lowercase (nd_name d)) ` set (normalize_inputs iter_values ex mf ad) =
      (\<lambda>d. to_ascii_lowercase (nd_name d)) ` set (all_inputs ex mf ad) \<and>
    list_all (\<lambda>d. winning_input (filter (\<lambda>x. to_ascii_lowercase (nd_name x) = to_ascii_lowercase (nd_name d))
                     (all_inputs ex mf ad)) = Some d)
      (normalize_inputs iter_values ex mf ad)"
proof -
  let ?key = "\<lambda>d. to_ascii_lowercase (nd_name d)"
  let ?t = "fold merge_input (all_inputs ex mf ad) []"
  have eq: "normalize_inputs iter_values ex mf ad = bt_values ?t" "normalize_inputs id ex mf ad = bt_values ?t"
    using normalize_inputs_eq(1) assms by auto
  have keys: "map ?key (bt_values ?t) = map fst ?t" by (rule normalize_inputs_eq(2) [of id]) simp
  have inv: "bt_invar ?t" by (rule inputs.merge_invar) simp
  have "fst ` set ?t = ?key ` set (all_inputs ex mf ad)"
    using inputs.merge_dom [of "all_inputs ex mf ad"] by (auto simp: bt_get_None_iff)
  then have names: "?key ` set (bt_values ?t) = ?key ` set (all_inputs ex mf ad)" using keys by (metis set_map)
  have "winning_input (filter (\<lambda>x. ?key x = ?key d) (all_inputs ex mf ad)) = Some d" if d: "d \<in> set (bt_values ?t)" for d
  proof -
    obtain k where k: "bt_get ?t k = Some d" using d by (auto simp: bt_values_def bt_get_iff [OF inv])
    then have "?key d = k" using inputs.merge_member by blast
    with k show ?thesis unfolding winning_input_fold [symmetric] by (simp add: inputs.merge_get)
  qed
  with names inv show ?thesis by (simp add: eq keys list_all_iff bt_invar_def)
qed

lemma normalize_inputs_strict:
  assumes "\<forall>vs. mset (iter_values vs) = mset vs"
  shows "sorted_wrt (<) (map (\<lambda>d. to_ascii_lowercase (nd_name d)) (normalize_inputs iter_values ex mf ad))"
proof -
  have "bt_invar (fold merge_input (all_inputs ex mf ad) [])" by (rule inputs.merge_invar) simp
  then show ?thesis using normalize_inputs_eq [of iter_values] assms by (simp add: bt_invar_def)
qed

theorem normalize_inputs_spec_witness:
  "map nd_version_req (normalize_inputs rev None [\<lparr>id_name = ''foo'', id_version_req = Some ''1''\<rparr>]
      (Some [\<lparr>id_name = ''Foo '', id_version_req = Some ''2''\<rparr>])) = [Some ''2'']"
proof -
  have "map nd_version_req (normalize_inputs id None [\<lparr>id_name = ''foo'', id_version_req = Some ''1''\<rparr>]
      (Some [\<lparr>id_name = ''Foo '', id_version_req = Some ''2''\<rparr>])) = [Some ''2'']" by code_simp
  then show ?thesis using normalize_inputs_spec [of rev] by simp
qed

section \<open>Resolution\<close>

lemma max_by_key_spec:
  assumes "max_by_key xs = Some m"
  shows "m \<in> set xs \<and> (\<forall>x \<in> set xs. fst x \<le> fst m)"
proof -
  have "fold (pick (\<lambda>e x. fst e \<le> fst x)) xs cur = Some m \<Longrightarrow>
      (m \<in> set xs \<or> cur = Some m) \<and> (\<forall>x \<in> set xs. fst x \<le> fst m) \<and> (\<forall>e. cur = Some e \<longrightarrow> fst e \<le> fst m)" for cur
  proof (induction xs arbitrary: cur)
    case (Cons x xs)
    from Cons.prems Cons.IH [of "pick (\<lambda>e x. fst e \<le> fst x) x cur"] show ?case
      by (cases x; cases cur) (auto split: if_splits)
  qed simp
  from this [of None] assms show ?thesis by (simp add: max_by_key_def)
qed

text \<open>What a selected version promises for the dependency it was selected for.\<close>

definition selection_ok ::
  "('v::linorder, 'r) semver_api \<Rightarrow> crate_store \<Rightarrow> normalized_dependency \<Rightarrow> selected_dependency \<Rightarrow> bool" where
  "selection_ok sv st d s \<longleftrightarrow>
     (\<exists>i rows row. fetch_dependency_crate_by_name st (nd_name d) = Some (i, sd_crate_name s) \<and>
        rows = list_dependency_versions_by_crate st i \<and> row \<in> set rows \<and>
        s = \<lparr>sd_crate_name = sd_crate_name s, sd_version_id = dv_id row, sd_version = dv_version row, sd_yanked = dv_yanked row\<rparr> \<and>
        (case nd_version_req d of
           None \<Rightarrow> row = hd rows
         | Some q \<Rightarrow> \<exists>req v. req_parse sv q = Some req \<and> resolve_parse_semver_for_matching sv (dv_version row) = Some v \<and>
             req_matches sv req v \<and>
             list_all (\<lambda>x. case resolve_parse_semver_for_matching sv (dv_version x) of
                None \<Rightarrow> True | Some w \<Rightarrow> req_matches sv req w \<longrightarrow> w \<le> v) rows))"

lemma select_version_ok:
  assumes "select_version sv n q rows = Inr (Some row)"
  shows "row \<in> set rows \<and>
    (case q of
       None \<Rightarrow> row = hd rows
     | Some q \<Rightarrow> \<exists>req v. req_parse sv q = Some req \<and> resolve_parse_semver_for_matching sv (dv_version row) = Some v \<and>
         req_matches sv req v \<and>
         list_all (\<lambda>x. case resolve_parse_semver_for_matching sv (dv_version x) of
            None \<Rightarrow> True | Some w \<Rightarrow> req_matches sv req w \<longrightarrow> w \<le> v) rows)"
proof (cases q)
  case None
  with assms show ?thesis by (auto simp: select_version_def split: list.splits)
next
  case (Some r)
  then obtain req v where r: "req_parse sv r = Some req" and m: "max_by_key (matching_versions sv req rows) = Some (v, row)"
    using assms by (auto simp: select_version_def split: option.splits)
  note spec = max_by_key_spec [OF m]
  have mem: "(w, x) \<in> set (matching_versions sv req rows) \<longleftrightarrow>
      x \<in> set rows \<and> resolve_parse_semver_for_matching sv (dv_version x) = Some w \<and> req_matches sv req w" for w x
    unfolding matching_versions_def set_map_filter by (auto split: option.splits if_splits)
  have "w \<le> v" if "x \<in> set rows" "resolve_parse_semver_for_matching sv (dv_version x) = Some w" "req_matches sv req w" for x w
    using bspec [OF conjunct2 [OF spec], of "(w, x)"] mem [of w x] that by simp
  then have "list_all (\<lambda>x. case resolve_parse_semver_for_matching sv (dv_version x) of
      None \<Rightarrow> True | Some w \<Rightarrow> req_matches sv req w \<longrightarrow> w \<le> v) rows"
    by (simp add: list_all_iff split: option.split)
  moreover have "row \<in> set rows" "resolve_parse_semver_for_matching sv (dv_version row) = Some v" "req_matches sv req v"
    using spec mem [of v row] by simp_all
  ultimately show ?thesis using r unfolding Some option.case by blast
qed

lemma resolve_one_clean:
  assumes "resolve_one sv fails st d acc = Inr r" "rs_conflicts r = []"
  shows "rs_conflicts acc = [] \<and> rs_unindexed r = rs_unindexed acc \<and>
    (\<exists>s. rs_selected r = rs_selected acc @ [s] \<and> selection_ok sv st d s)"
proof -
  obtain i name row where c: "fetch_dependency_crate_by_name st (nd_name d) = Some (i, name)"
    and sel: "select_version sv (nd_name d) (nd_version_req d) (list_dependency_versions_by_crate st i) = Inr (Some row)"
    and r: "r = acc\<lparr>rs_selected := rs_selected acc @
       [\<lparr>sd_crate_name = name, sd_version_id = dv_id row, sd_version = dv_version row, sd_yanked = dv_yanked row\<rparr>]\<rparr>"
    using assms unfolding resolve_one_def by (auto split: option.splits sum.splits prod.splits)
  have "selection_ok sv st d \<lparr>sd_crate_name = name, sd_version_id = dv_id row, sd_version = dv_version row, sd_yanked = dv_yanked row\<rparr>"
    unfolding selection_ok_def using c select_version_ok [OF sel]
    by (intro exI [of _ i] exI [of _ "list_dependency_versions_by_crate st i"] exI [of _ row]) simp
  with r assms(2) show ?thesis by simp
qed

lemma resolve_all_clean:
  assumes "resolve_all sv fails st ds acc = Inr r" "rs_conflicts r = []"
  shows "rs_conflicts acc = [] \<and> rs_unindexed r = rs_unindexed acc \<and>
    (\<exists>ss. rs_selected r = rs_selected acc @ ss \<and> list_all2 (selection_ok sv st) ds ss)"
  using assms
proof (induction ds arbitrary: acc)
  case (Cons d ds)
  then obtain acc' where one: "resolve_one sv fails st d acc = Inr acc'" "resolve_all sv fails st ds acc' = Inr r"
    by (auto split: sum.splits)
  obtain ss where ss: "rs_conflicts acc' = []" "rs_unindexed r = rs_unindexed acc'"
    "rs_selected r = rs_selected acc' @ ss" "list_all2 (selection_ok sv st) ds ss"
    using Cons.IH [OF one(2) Cons.prems(2)] by blast
  obtain s where s: "rs_conflicts acc = []" "rs_unindexed acc' = rs_unindexed acc"
    "rs_selected acc' = rs_selected acc @ [s]" "selection_ok sv st d s"
    using resolve_one_clean [OF one(1) ss(1)] by blast
  with ss show ?case by (intro conjI exI [of _ "s # ss"]) simp_all
qed simp

definition edge_satisfied :: "('v::linorder, 'r) semver_api \<Rightarrow> selected_dependency list \<Rightarrow> dependency_edge \<Rightarrow> bool" where
  "edge_satisfied sv selected e \<longleftrightarrow>
     list_all (\<lambda>s. to_ascii_lowercase (sd_crate_name s) = to_ascii_lowercase (de_to_crate_name e) \<longrightarrow>
        (case (resolve_parse_semver_for_matching sv (sd_version s), req_parse sv (de_requirement e)) of
           (Some v, Some req) \<Rightarrow> req_matches sv req v
         | _ \<Rightarrow> True)) selected"

lemma edge_conflicts_satisfied:
  assumes "distinct (map (\<lambda>s. to_ascii_lowercase (sd_crate_name s)) selected)"
  shows "edge_conflicts sv selected e = [] \<longleftrightarrow> edge_satisfied sv selected e"
proof -
  let ?key = "\<lambda>s. to_ascii_lowercase (sd_crate_name s)"
  let ?m = "rev (map (\<lambda>s. (?key s, s)) selected)"
  have "map fst ?m = rev (map ?key selected)" by (simp add: rev_map [symmetric] comp_def)
  then have d: "distinct (map fst ?m)" using assms by simp
  have get: "map_of ?m k = Some s \<longleftrightarrow> s \<in> set selected \<and> ?key s = k" for k s
    unfolding map_of_eq_Some_iff [OF d] by auto
  show ?thesis
  proof (cases "map_of ?m (to_ascii_lowercase (de_to_crate_name e))")
    case None
    then have "\<forall>s \<in> set selected. ?key s \<noteq> to_ascii_lowercase (de_to_crate_name e)"
      using get by (metis option.distinct(1))
    then have "edge_satisfied sv selected e" by (auto simp: edge_satisfied_def list_all_iff)
    then show ?thesis using None by (simp add: edge_conflicts_def)
  next
    case (Some t)
    then have t: "t \<in> set selected" "?key t = to_ascii_lowercase (de_to_crate_name e)" using get by blast+
    have "s = t" if "s \<in> set selected" "?key s = to_ascii_lowercase (de_to_crate_name e)" for s
      using Some get [of "to_ascii_lowercase (de_to_crate_name e)" s] that by simp
    then have "edge_satisfied sv selected e \<longleftrightarrow>
        (case (resolve_parse_semver_for_matching sv (sd_version t), req_parse sv (de_requirement e)) of
           (Some v, Some req) \<Rightarrow> req_matches sv req v | _ \<Rightarrow> True)"
      unfolding edge_satisfied_def list_all_iff using t by blast
    then show ?thesis using Some by (simp add: edge_conflicts_def split: option.split)
  qed
qed

lemma selection_ok_name: "selection_ok sv st d s \<Longrightarrow> to_ascii_lowercase (sd_crate_name s) = to_ascii_lowercase (nd_name d)"
  by (auto simp: selection_ok_def fetch_dependency_crate_by_name_def name_lower_def dest!: find_SomeD)

lemma selection_names:
  "list_all2 (selection_ok sv st) ds ss \<Longrightarrow>
   map (\<lambda>s. to_ascii_lowercase (sd_crate_name s)) ss = map (\<lambda>d. to_ascii_lowercase (nd_name d)) ds"
  by (induction rule: list_all2_induct) (simp_all add: selection_ok_name)

lemma transitive_clean:
  "transitive_conflicts sv fails st entries = Inr [] \<Longrightarrow> (key, qs) \<in> set entries \<Longrightarrow>
   length (List.map_filter (req_parse sv) qs) \<ge> 2 \<Longrightarrow>
   list_ex (satisfies_all sv (List.map_filter (req_parse sv) qs)) (list_dependency_versions_by_lower_name st key)"
proof (induction sv fails st entries rule: transitive_conflicts.induct)
  case (2 sv fails st k requirements rest)
  have len: "length (List.map_filter (req_parse sv) xs) \<le> length xs" for xs
    by (induction xs) (auto simp: map_filter_simps split: option.split)
  show ?case
  proof (cases "length requirements < 2 \<or> length (List.map_filter (req_parse sv) requirements) < 2")
    case True
    with "2.prems" len [of requirements] have "(key, qs) \<in> set rest" "transitive_conflicts sv fails st rest = Inr []"
      by (auto simp: Let_def)
    with "2.IH"(1) [OF refl True] "2.prems"(3) show ?thesis by blast
  next
    case False
    with "2.prems"(1) have f: "fails (TransitiveQuery k) = None" "transitive_conflicts sv fails st rest = Inr []"
      "list_ex (satisfies_all sv (List.map_filter (req_parse sv) requirements)) (list_dependency_versions_by_lower_name st k)"
      by (auto simp: Let_def split: option.splits sum.splits if_splits)
    from "2.IH"(2) [OF refl False f(1,2)] f "2.prems" show ?thesis by auto
  qed
qed simp

lemma handle_resolve_cases:
  assumes "handle_dependency_resolve sv api fails iv ie st table request = Inr resp"
  obtains mf r edge_cs edges where "manifest_inputs api (rr_cargo_toml request) = Inr mf"
    "rp_input_dependencies resp = take (unat (dependency_resolve_limit (rr_limit request)))
       (normalize_inputs iv (rr_dependencies request) mf (rr_additions request))"
    "resolve_all sv fails st (rp_input_dependencies resp) \<lparr>rs_conflicts = [], rs_selected = [], rs_unindexed = 0\<rparr> = Inr r"
    "resolve_edges sv fails ie st table (rs_selected r) = Inr (edge_cs, edges)"
    "resp = resolve_response_of (rp_input_dependencies resp) (unwrap_or (rr_check_features request) False) r edge_cs edges"
  using assms unfolding handle_dependency_resolve_def
  by (auto simp: Let_def resolve_response_of_def split: sum.splits if_splits prod.splits)

lemma strict_sorted_take: "sorted_wrt (<) xs \<Longrightarrow> sorted_wrt (<) (take n xs)"
  using sorted_wrt_append [of "(<)" "take n xs" "drop n xs"] by simp

lemma resolve_sound:
  assumes "handle_dependency_resolve sv api fails iv ie st table request = Inr resp" and "rp_resolvable resp"
    and "\<forall>vs. mset (iv vs) = mset vs" and "\<forall>es. set (ie es) = set es"
  shows "\<exists>ss. rp_resolved_versions resp =
      map (\<lambda>s. \<lparr>rv_name = sd_crate_name s, rv_version = sd_version s, rv_yanked = sd_yanked s\<rparr>) ss \<and>
    list_all2 (selection_ok sv st) (rp_input_dependencies resp) ss \<and>
    (let edges = list_dependency_resolve_edges_for_versions table (map sd_version_id ss)
     in list_all (edge_satisfied sv ss) edges \<and>
        list_all (\<lambda>(key, qs). length (List.map_filter (req_parse sv) qs) < 2 \<or>
            list_ex (satisfies_all sv (List.map_filter (req_parse sv) qs)) (list_dependency_versions_by_lower_name st key))
          (fold push_requirement edges []))"
proof -
  obtain mf r edge_cs edges where inp: "rp_input_dependencies resp =
      take (unat (dependency_resolve_limit (rr_limit request)))
        (normalize_inputs iv (rr_dependencies request) mf (rr_additions request))"
    and all: "resolve_all sv fails st (rp_input_dependencies resp) \<lparr>rs_conflicts = [], rs_selected = [], rs_unindexed = 0\<rparr> = Inr r"
    and ed: "resolve_edges sv fails ie st table (rs_selected r) = Inr (edge_cs, edges)"
    and resp: "resp = resolve_response_of (rp_input_dependencies resp) (unwrap_or (rr_check_features request) False) r edge_cs edges"
    by (rule handle_resolve_cases [OF assms(1)])
  define ss where "ss = rs_selected r"
  have "rs_conflicts r @ edge_cs = []" using assms(2) by (subst (asm) resp) (simp add: resolve_response_of_def Let_def)
  then have clean: "rs_conflicts r = []" "edge_cs = []" by simp_all
  have ok: "list_all2 (selection_ok sv st) (rp_input_dependencies resp) ss"
    using resolve_all_clean [OF all clean(1)] by (auto simp: ss_def)
  have out: "rp_resolved_versions resp =
      map (\<lambda>s. \<lparr>rv_name = sd_crate_name s, rv_version = sd_version s, rv_yanked = sd_yanked s\<rparr>) ss"
    by (subst resp) (simp add: resolve_response_of_def Let_def ss_def)
  have "sorted_wrt (<) (map (\<lambda>d. to_ascii_lowercase (nd_name d)) (rp_input_dependencies resp))"
    unfolding inp take_map [symmetric] using normalize_inputs_strict assms(3) by (intro strict_sorted_take) blast
  then have dist: "distinct (map (\<lambda>s. to_ascii_lowercase (sd_crate_name s)) ss)"
    unfolding selection_names [OF ok] using strict_sorted_iff by blast
  define es where "es = list_dependency_resolve_edges_for_versions table (map sd_version_id ss)"
  have "(ss = [] \<and> es = []) \<or> (transitive_conflicts sv fails st (ie (fold push_requirement es [])) = Inr [] \<and>
      concat (map (edge_conflicts sv ss) es) = [])"
    using ed clean(2) by (auto simp: resolve_edges_def Let_def ss_def [symmetric] es_def
        list_dependency_resolve_edges_for_versions_def split: if_splits option.splits sum.splits)
  then have "list_all (edge_satisfied sv ss) es \<and>
      (\<forall>(key, qs) \<in> set (fold push_requirement es []). length (List.map_filter (req_parse sv) qs) < 2 \<or>
        list_ex (satisfies_all sv (List.map_filter (req_parse sv) qs)) (list_dependency_versions_by_lower_name st key))"
    using transitive_clean assms(4) edge_conflicts_satisfied [OF dist]
    by (fastforce simp: list_all_iff not_less)
  with out ok show ?thesis
    by (intro exI [of _ ss]) (simp add: Let_def es_def [symmetric] list_all_iff)
qed

text \<open>
  (C2) A resolvable answer is sound.  Every evaluated dependency was selected, in order: the crate
  of that name, an indexed version that satisfies the declared requirement and is the highest that
  does (without a requirement the newest published one).  Every dependency edge of the selected
  versions that targets a selected crate is satisfied by its selected version, and every crate with
  two or more readable requirements among the edges has an indexed version that meets all of them.
\<close>

theorem resolvable_is_sound:
  assumes "handle_dependency_resolve sv api fails iv ie st table request = Inr resp" and "rp_resolvable resp"
    and "\<forall>vs. mset (iv vs) = mset vs" and "\<forall>es. set (ie es) = set es"
  shows "\<exists>ss. rp_resolved_versions resp =
      map (\<lambda>s. \<lparr>rv_name = sd_crate_name s, rv_version = sd_version s, rv_yanked = sd_yanked s\<rparr>) ss \<and>
    list_all2 (selection_ok sv st) (rp_input_dependencies resp) ss \<and>
    (let edges = list_dependency_resolve_edges_for_versions table (map sd_version_id ss)
     in list_all (edge_satisfied sv ss) edges \<and>
        list_all (\<lambda>(key, qs). length (List.map_filter (req_parse sv) qs) < 2 \<or>
            list_ex (satisfies_all sv (List.map_filter (req_parse sv) qs)) (list_dependency_versions_by_lower_name st key))
          (fold push_requirement edges []))"
  using resolve_sound [OF assms] .

section \<open>A concrete request\<close>

definition demo_crate :: "nat \<Rightarrow> string \<Rightarrow> crate_row" where
  "demo_crate i n = \<lparr>cc_id = i, cc_name = n, cc_description = None, cc_repository_url = None,
     cc_docs_url = None, cc_homepage_url = None, cc_categories = [], cc_keywords = [], cc_updated_at = 0,
     cr_last_checked_at = None, cr_next_check_at = None, cr_ttl_hint_seconds = 86400, cr_ttl_reason = None,
     cr_last_refresh_error = None\<rparr>"

definition demo_version :: "nat \<Rightarrow> nat \<Rightarrow> string \<Rightarrow> version_row" where
  "demo_version i c x = \<lparr>cv_id = i, cv_version = x, cv_rust_version = None, cv_published_at = None,
     cv_readme = None, vr_crate_id = c, vr_yanked = False, vr_total_downloads = 0,
     vr_locally_present = True, vr_source_origin = 1, vr_rustdoc_enriched_at = None,
     vr_rustdoc_last_attempt_at = None, vr_checksum = None,
     vr_license_expression = None, vr_dependencies_synced_at = None\<rparr>"

definition demo_store :: crate_store where
  "demo_store = \<lparr>st_crates = [demo_crate 1 ''serde'', demo_crate 2 ''tokio''],
     st_versions = [demo_version 10 1 ''1.0.0'', demo_version 11 1 ''1.2.0'', demo_version 12 1 ''2.0.0'',
                    demo_version 20 2 ''0.1.0'']\<rparr>"

definition demo_edges :: "dependency_edge list" where
  "demo_edges = [\<lparr>de_from_version_id = 20, de_to_crate_name = ''Serde'', de_requirement = ''>= 1.1.0'',
     de_dependency_kind = ''normal'', de_optional = False, de_features = JArray [JString ''derive'']\<rparr>]"

definition demo_request :: resolve_request where
  "demo_request = \<lparr>rr_dependencies = Some [\<lparr>id_name = ''Tokio'', id_version_req = None\<rparr>,
       \<lparr>id_name = ''serde'', id_version_req = Some ''< 2.0.0''\<rparr>],
     rr_cargo_toml = None, rr_additions = None, rr_check_features = Some True, rr_limit = None\<rparr>"

definition demo_response :: "resolve_response result" where
  "demo_response = handle_dependency_resolve sample_semver sample_cargo (\<lambda>_. None) id id demo_store demo_edges demo_request"

lemma demo_resolvable:
  "case demo_response of
     Inl _ \<Rightarrow> False
   | Inr resp \<Rightarrow> rp_resolvable resp \<and> map rv_version (rp_resolved_versions resp) = [''1.2.0'', ''0.1.0''] \<and>
       map nd_name (rp_input_dependencies resp) = [''serde'', ''Tokio'']"
  by code_simp

theorem resolvable_is_sound_witness:
  "case demo_response of
     Inl _ \<Rightarrow> False
   | Inr resp \<Rightarrow> \<exists>ss. list_all2 (selection_ok sample_semver demo_store) (rp_input_dependencies resp) ss \<and> length ss = 2"
proof -
  obtain resp where r: "demo_response = Inr resp" "rp_resolvable resp" "length (rp_resolved_versions resp) = 2"
    using demo_resolvable by (auto split: sum.splits simp: map_eq_Cons_conv)
  from resolvable_is_sound [OF r(1) [unfolded demo_response_def] r(2)] r(3) show ?thesis
    by (auto simp: r(1))
qed

end
