(* ===== verification/Compatibility.thy ===== *)
theory Compatibility
  imports Resolve
begin

text \<open>
  The \<open>crate_compatibility\<close> and \<open>crate_compatibility_matrix\<close> tools (\<open>mcp/tools/krate/compatibility.rs\<close>),
  which call \<open>dependency_resolve\<close> with exact requirements.  What may differ between two calls, the
  failures of the queries and the iteration order of hash maps, is indexed by the number of the call.
\<close>

section \<open>Requests and responses\<close>

record crate_compatibility_request =
  kq_left_crate :: string
  kq_left_version :: "string option"
  kq_right_crate :: string
  kq_right_version :: "string option"
  kq_check_features :: "bool option"

record crate_compatibility_response =
  kp_left_crate :: string
  kp_left_version :: "string option"
  kp_right_crate :: string
  kp_right_version :: "string option"
  kp_resolvable :: bool
  kp_resolved_versions :: "resolved_version list"
  kp_conflicts :: "resolve_conflict list"
  kp_check_features :: bool
  kp_feature_unification_summary :: "feature_summary option"
  kp_confidence :: string
  kp_confidence_assessment :: confidence_assessment
  kp_suggested_next_tools :: "string list"
  kp_provenance :: string

record compatibility_matrix_request =
  mq_left_crate :: string
  mq_right_crate :: string
  mq_left_versions :: "string list option"
  mq_right_versions :: "string list option"
  mq_check_features :: "bool option"
  mq_version_limit :: "u32 option"
  mq_max_pairs :: "u32 option"

record compatibility_matrix_entry =
  me_left_version :: string
  me_right_version :: string
  me_resolvable :: bool
  me_conflict_messages :: "string list"

record compatibility_matrix_response =
  mp_left_crate :: string
  mp_right_crate :: string
  mp_check_features :: bool
  mp_pairs_tested :: nat
  mp_compatible_pairs :: "compatibility_matrix_entry list"
  mp_incompatible_pairs :: "compatibility_matrix_entry list"
  mp_confidence :: string
  mp_confidence_assessment :: confidence_assessment
  mp_suggested_next_tools :: "string list"
  mp_provenance :: string

section \<open>Calls of the resolver\<close>

record ('v, 'r, 'd) resolver_env =
  rx_semver :: "('v, 'r) semver_api"
  rx_cargo :: "'d cargo_api"
  rx_fails :: "nat \<Rightarrow> resolve_query \<Rightarrow> string option"
  rx_iter_values :: "nat \<Rightarrow> normalized_dependency list \<Rightarrow> normalized_dependency list"
  rx_iter_entries :: "nat \<Rightarrow> (string \<times> string list) list \<Rightarrow> (string \<times> string list) list"
  rx_crate_fails :: "string \<Rightarrow> string option"
  rx_versions_fails :: "string \<Rightarrow> string option"
  rx_store :: crate_store
  rx_edges :: "dependency_edge list"

definition resolve_call :: "('v::linorder, 'r, 'd) resolver_env \<Rightarrow> nat \<Rightarrow> resolve_request \<Rightarrow> resolve_response result" where
  "resolve_call env n request =
     handle_dependency_resolve (rx_semver env) (rx_cargo env) (rx_fails env n) (rx_iter_values env n) (rx_iter_entries env n)
       (rx_store env) (rx_edges env) request"

definition trimmed :: "string option \<Rightarrow> string option" where
  "trimmed v = Option.bind v (\<lambda>x. if trim x = [] then None else Some (trim x))"

definition exact_req :: "string option \<Rightarrow> string option" where
  "exact_req v = map_option (\<lambda>x. ''='' @ x) (trimmed v)"

definition pair_request :: "string \<Rightarrow> string option \<Rightarrow> string \<Rightarrow> string option \<Rightarrow> bool \<Rightarrow> resolve_request" where
  "pair_request left_crate left_req right_crate right_req check_features =
     \<lparr>rr_dependencies = Some [\<lparr>id_name = left_crate, id_version_req = left_req\<rparr>, \<lparr>id_name = right_crate, id_version_req = right_req\<rparr>],
      rr_cargo_toml = None, rr_additions = None, rr_check_features = Some check_features, rr_limit = Some 2\<rparr>"

definition handle_crate_compatibility ::
  "('v::linorder, 'r, 'd) resolver_env \<Rightarrow> crate_compatibility_request \<Rightarrow> crate_compatibility_response result" where
  "handle_crate_compatibility env request =
     res_bind (normalize_required (kq_left_crate request) ''left_crate'') (\<lambda>left_crate.
     res_bind (normalize_required (kq_right_crate request) ''right_crate'') (\<lambda>right_crate.
       let left_version = trimmed (kq_left_version request); right_version = trimmed (kq_right_version request);
           check_features = unwrap_or (kq_check_features request) True
       in res_bind (resolve_call env 0 (pair_request left_crate (exact_req left_version) right_crate (exact_req right_version) check_features))
           (\<lambda>resolve_response.
             Inr \<lparr>kp_left_crate = left_crate, kp_left_version = left_version, kp_right_crate = right_crate,
                  kp_right_version = right_version, kp_resolvable = rp_resolvable resolve_response,
                  kp_resolved_versions = rp_resolved_versions resolve_response, kp_conflicts = rp_conflicts resolve_response,
                  kp_check_features = rp_check_features resolve_response,
                  kp_feature_unification_summary = rp_feature_unification_summary resolve_response,
                  kp_confidence = rp_confidence resolve_response, kp_confidence_assessment = rp_confidence_assessment resolve_response,
                  kp_suggested_next_tools = [''dependency_resolve'', ''crate_graph'', ''crate_versions''],
                  kp_provenance = ''dependency_resolve wrapper with exact version constraints''\<rparr>)))"

section \<open>The matrix\<close>

definition candidate_versions ::
  "('v, 'r, 'd) resolver_env \<Rightarrow> string \<Rightarrow> string list option \<Rightarrow> nat \<Rightarrow> string list result" where
  "candidate_versions env crate_name values per_crate =
     (case values of
        Some vs \<Rightarrow> Inr (dedupe_strings vs)
      | None \<Rightarrow>
     (case rx_crate_fails env crate_name of
        Some e \<Rightarrow> Inl (''failed to load crate row for '' @ crate_name @ '': '' @ e)
      | None \<Rightarrow>
     (case fetch_dependency_crate_by_name (rx_store env) crate_name of
        None \<Rightarrow> Inl (''crate '' @ [CHR 0x27] @ crate_name @ [CHR 0x27] @ '' is not indexed locally'')
      | Some (i, _) \<Rightarrow>
     (case rx_versions_fails env crate_name of
        Some e \<Rightarrow> Inl (''failed to load versions for '' @ crate_name @ '': '' @ e)
      | None \<Rightarrow> Inr (map dv_version (take per_crate (list_dependency_versions_by_crate (rx_store env) i)))))))"

record matrix_state =
  mx_compatible :: "compatibility_matrix_entry list"
  mx_incompatible :: "compatibility_matrix_entry list"
  mx_tested :: nat

definition matrix_entry :: "string \<times> string \<Rightarrow> resolve_response \<Rightarrow> compatibility_matrix_entry" where
  "matrix_entry p resp =
     \<lparr>me_left_version = fst p, me_right_version = snd p, me_resolvable = rp_resolvable resp,
      me_conflict_messages = map rc_message (rp_conflicts resp)\<rparr>"

definition push_entry :: "compatibility_matrix_entry \<Rightarrow> matrix_state \<Rightarrow> matrix_state" where
  "push_entry e s =
     (if me_resolvable e then s\<lparr>mx_compatible := mx_compatible s @ [e], mx_tested := mx_tested s + 1\<rparr>
      else s\<lparr>mx_incompatible := mx_incompatible s @ [e], mx_tested := mx_tested s + 1\<rparr>)"

definition pair_call ::
  "('v::linorder, 'r, 'd) resolver_env \<Rightarrow> string \<Rightarrow> string \<Rightarrow> bool \<Rightarrow> nat \<Rightarrow> string \<times> string \<Rightarrow> resolve_response result" where
  "pair_call env left_crate right_crate check_features n p =
     resolve_call env n (pair_request left_crate (Some (''='' @ fst p)) right_crate (Some (''='' @ snd p)) check_features)"

fun matrix_inner ::
  "(nat \<Rightarrow> string \<times> string \<Rightarrow> resolve_response result) \<Rightarrow> nat \<Rightarrow> string \<Rightarrow> string list \<Rightarrow> matrix_state \<Rightarrow> matrix_state result" where
  "matrix_inner call max_pairs left_version [] s = Inr s"
| "matrix_inner call max_pairs left_version (right_version # rights) s =
     (if mx_tested s \<ge> max_pairs then Inr s
      else res_bind (call (mx_tested s) (left_version, right_version)) (\<lambda>resolve.
             matrix_inner call max_pairs left_version rights (push_entry (matrix_entry (left_version, right_version) resolve) s)))"

fun matrix_outer ::
  "(nat \<Rightarrow> string \<times> string \<Rightarrow> resolve_response result) \<Rightarrow> nat \<Rightarrow> string list \<Rightarrow> string list \<Rightarrow> matrix_state \<Rightarrow> matrix_state result" where
  "matrix_outer call max_pairs [] rights s = Inr s"
| "matrix_outer call max_pairs (left_version # lefts) rights s =
     res_bind (matrix_inner call max_pairs left_version rights s) (\<lambda>s'.
       if mx_tested s' \<ge> max_pairs then Inr s' else matrix_outer call max_pairs lefts rights s')"

definition matrix_confidence :: "nat \<Rightarrow> nat \<Rightarrow> confidence_assessment" where
  "matrix_confidence tested candidates =
     (if tested = 0 then \<lparr>ca_level = Low, ca_reason = ''no version pairs were evaluated''\<rparr>
      else if tested < candidates
      then \<lparr>ca_level = Medium, ca_reason = ''evaluated '' @ show_nat tested @ '' version pairs (truncated by max_pairs limit)''\<rparr>
      else \<lparr>ca_level = High,
             ca_reason = ''evaluated all '' @ show_nat tested @ '' candidate version pairs using indexed resolver data''\<rparr>)"

definition matrix_inputs ::
  "('v, 'r, 'd) resolver_env \<Rightarrow> compatibility_matrix_request \<Rightarrow> (string \<times> string \<times> string list \<times> string list) result" where
  "matrix_inputs env request =
     res_bind (normalize_required (mq_left_crate request) ''left_crate'') (\<lambda>left_crate.
     res_bind (normalize_required (mq_right_crate request) ''right_crate'') (\<lambda>right_crate.
     let n = unat (compatibility_matrix_version_limit (mq_version_limit request))
     in res_bind (candidate_versions env left_crate (mq_left_versions request) n) (\<lambda>left_versions.
        res_bind (candidate_versions env right_crate (mq_right_versions request) n) (\<lambda>right_versions.
          if left_versions = [] then Inl (''no candidate versions available for '' @ [CHR 0x27] @ left_crate @ [CHR 0x27])
          else if right_versions = [] then Inl (''no candidate versions available for '' @ [CHR 0x27] @ right_crate @ [CHR 0x27])
          else Inr (left_crate, right_crate, left_versions, right_versions)))))"

definition handle_crate_compatibility_matrix ::
  "('v::linorder, 'r, 'd) resolver_env \<Rightarrow> compatibility_matrix_request \<Rightarrow> compatibility_matrix_response result" where
  "handle_crate_compatibility_matrix env request =
     res_bind (matrix_inputs env request) (\<lambda>(left_crate, right_crate, left_versions, right_versions).
       let check_features = unwrap_or (mq_check_features request) True;
           max_pairs = unat (compatibility_matrix_max_pairs (mq_max_pairs request))
       in res_bind (matrix_outer (pair_call env left_crate right_crate check_features) max_pairs left_versions right_versions
              \<lparr>mx_compatible = [], mx_incompatible = [], mx_tested = 0\<rparr>) (\<lambda>s.
            let assessment = matrix_confidence (mx_tested s) (length left_versions * length right_versions)
            in Inr \<lparr>mp_left_crate = left_crate, mp_right_crate = right_crate, mp_check_features = check_features,
                    mp_pairs_tested = mx_tested s, mp_compatible_pairs = mx_compatible s, mp_incompatible_pairs = mx_incompatible s,
                    mp_confidence = confidence_as_str (ca_level assessment), mp_confidence_assessment = assessment,
                    mp_suggested_next_tools = [''crate_compatibility'', ''dependency_resolve'', ''crate_graph''],
                    mp_provenance = ''dependency_resolve matrix expansion over indexed versions''\<rparr>))"

section \<open>The pairs that are tested\<close>

fun run_pairs ::
  "(nat \<Rightarrow> string \<times> string \<Rightarrow> resolve_response result) \<Rightarrow> nat \<Rightarrow> (string \<times> string) list \<Rightarrow> matrix_state \<Rightarrow> matrix_state result" where
  "run_pairs call max_pairs [] s = Inr s"
| "run_pairs call max_pairs (p # ps) s =
     (if mx_tested s \<ge> max_pairs then Inr s
      else res_bind (call (mx_tested s) p) (\<lambda>resolve. run_pairs call max_pairs ps (push_entry (matrix_entry p resolve) s)))"

lemma run_pairs_full [simp]: "mx_tested s \<ge> m \<Longrightarrow> run_pairs call m ps s = Inr s"
  by (cases ps) auto

lemma run_pairs_append: "run_pairs call m (ps @ qs) s = res_bind (run_pairs call m ps s) (run_pairs call m qs)"
proof (induction ps arbitrary: s)
  case (Cons p ps)
  then show ?case by (cases "call (mx_tested s) p") auto
qed simp

lemma matrix_inner_run: "matrix_inner call m l rights s = run_pairs call m (map (Pair l) rights) s"
proof (induction rights arbitrary: s)
  case (Cons r rights)
  then show ?case by (cases "call (mx_tested s) (l, r)") auto
qed simp

lemma matrix_outer_run: "matrix_outer call m lefts rights s = run_pairs call m (List.product lefts rights) s"
proof (induction lefts arbitrary: s)
  case (Cons l lefts)
  then show ?case
    by (cases "run_pairs call m (map (Pair l) rights) s") (auto simp: run_pairs_append matrix_inner_run)
qed simp

text \<open>The answers of the calls, in order: as many as there are pairs within the limit.\<close>

definition answered :: "(nat \<Rightarrow> 'p \<Rightarrow> 'a result) \<Rightarrow> nat \<Rightarrow> 'p list \<Rightarrow> 'a list \<Rightarrow> bool" where
  "answered call n ps answers \<longleftrightarrow> length answers = length ps \<and> (\<forall>i < length ps. call (n + i) (ps ! i) = Inr (answers ! i))"

lemma answered_Cons:
  "call n p = Inr a \<Longrightarrow> answered call (Suc n) ps answers \<Longrightarrow> answered call n (p # ps) (a # answers)"
  by (auto simp: answered_def nth_Cons less_Suc_eq_0_disj split: nat.split)

lemma run_pairs_answers:
  assumes "run_pairs call m ps s = Inr s'"
  obtains answers where "answered call (mx_tested s) (take (m - mx_tested s) ps) answers"
    and "mx_tested s' = mx_tested s + length answers"
    and "mx_compatible s' = mx_compatible s @ filter me_resolvable (map2 matrix_entry (take (m - mx_tested s) ps) answers)"
    and "mx_incompatible s' = mx_incompatible s @ filter (\<lambda>e. \<not> me_resolvable e) (map2 matrix_entry (take (m - mx_tested s) ps) answers)"
  using assms
proof (induction ps arbitrary: s thesis)
  case Nil
  show ?case by (rule Nil.prems(1) [of "[]"]) (use Nil.prems(2) in \<open>auto simp: answered_def\<close>)
next
  case (Cons p ps)
  show ?case
  proof (cases "m \<le> mx_tested s")
    case True
    show ?thesis by (rule Cons.prems(1) [of "[]"]) (use Cons.prems(2) True in \<open>auto simp: answered_def\<close>)
  next
    case False
    then obtain a where a: "call (mx_tested s) p = Inr a" "run_pairs call m ps (push_entry (matrix_entry p a) s) = Inr s'"
      using Cons.prems(2) by (auto simp: res_bind_Inr_iff)
    let ?s = "push_entry (matrix_entry p a) s"
    have t: "mx_tested ?s = Suc (mx_tested s)" by (simp add: push_entry_def)
    have take: "take (m - mx_tested s) (p # ps) = p # take (m - mx_tested ?s) ps"
      using False by (cases "m - mx_tested s") (auto simp: t Suc_diff_Suc diff_Suc split: nat.splits)
    obtain answers where b: "answered call (mx_tested ?s) (take (m - mx_tested ?s) ps) answers"
      "mx_tested s' = mx_tested ?s + length answers"
      "mx_compatible s' = mx_compatible ?s @ filter me_resolvable (map2 matrix_entry (take (m - mx_tested ?s) ps) answers)"
      "mx_incompatible s' = mx_incompatible ?s @ filter (\<lambda>e. \<not> me_resolvable e) (map2 matrix_entry (take (m - mx_tested ?s) ps) answers)"
      by (rule Cons.IH [OF _ a(2)])
    show ?thesis
      by (rule Cons.prems(1) [of "a # answers"])
        (use b answered_Cons [where call = call and n = "mx_tested s" and ps = "take (m - mx_tested ?s) ps" and answers = answers, OF a(1)] in
          \<open>auto simp: take t push_entry_def split: if_splits\<close>)
  qed
qed

text \<open>What a resolvable answer promises for the dependencies it was asked about.\<close>

definition coexist :: "('v::linorder, 'r, 'd) resolver_env \<Rightarrow> resolve_response \<Rightarrow> bool" where
  "coexist env resp \<longleftrightarrow>
     (\<exists>ss. list_all2 (selection_ok (rx_semver env) (rx_store env)) (rp_input_dependencies resp) ss \<and>
        list_all (edge_satisfied (rx_semver env) ss)
          (list_dependency_resolve_edges_for_versions (rx_edges env) (map sd_version_id ss)))"

lemma resolve_call_coexist:
  assumes "resolve_call env n request = Inr resp" and "rp_resolvable resp"
    and "\<forall>n vs. mset (rx_iter_values env n vs) = mset vs" and "\<forall>n es. set (rx_iter_entries env n es) = set es"
  shows "coexist env resp"
  using resolve_sound [OF assms(1) [unfolded resolve_call_def] assms(2)] assms(3,4) by (auto simp: coexist_def Let_def)


definition exact_semver :: "(sample_version, sample_req) semver_api" where
  "exact_semver = sample_semver\<lparr>
     req_parse := (\<lambda>s. Option.bind (strip_prefix ''='' s) (\<lambda>t. map_option (Pair True) (sample_version_parse t))),
     req_matches := (\<lambda>r v. snd r = v)\<rparr>"

definition demo_resolver :: "(sample_version, sample_req, string) resolver_env" where
  "demo_resolver = \<lparr>rx_semver = exact_semver, rx_cargo = sample_cargo, rx_fails = (\<lambda>_ _. None), rx_iter_values = (\<lambda>_ xs. xs),
     rx_iter_entries = (\<lambda>_ xs. xs), rx_crate_fails = (\<lambda>_. None), rx_versions_fails = (\<lambda>_. None), rx_store = demo_store,
     rx_edges = demo_edges\<rparr>"

definition demo_matrix :: "compatibility_matrix_response result" where
  "demo_matrix = handle_crate_compatibility_matrix demo_resolver
     \<lparr>mq_left_crate = ''serde'', mq_right_crate = ''tokio'', mq_left_versions = Some [''1.0.0'', ''9.0.0''], mq_right_versions = Some [''0.1.0''],
      mq_check_features = Some False, mq_version_limit = None, mq_max_pairs = None\<rparr>"

lemma demo_matrix_ok:
  "case demo_matrix of
     Inl _ \<Rightarrow> False
   | Inr resp \<Rightarrow> map me_left_version (mp_compatible_pairs resp) = [''1.0.0''] \<and> map me_left_version (mp_incompatible_pairs resp) = [''9.0.0'']"
  by code_simp


end
