(* ===== verification/Coordinator.thy ===== *)
theory Coordinator
  imports Refresh_Queue
begin

text \<open>
  The indexing coordinator (\<open>mcp/indexing/coordinator.rs\<close>): tool handlers that wait for an on-demand
  job and the worker that signals its completion.  A \<open>tokio::sync::watch\<close> channel is a value with a
  version, the receivers subscribed to it and whether its sender is alive; the \<open>waiters\<close> map holds
  the senders by job id.  The handlers and the worker interleave at their await points, which
  \<open>sys_step\<close> makes explicit.
\<close>

section \<open>Priorities and outcomes\<close>

abbreviation (input) "ON_DEMAND_TIMEOUT_SECS \<equiv> 45 :: nat"
definition PRIORITY_ON_DEMAND :: int where "PRIORITY_ON_DEMAND = 1"
definition PRIORITY_BACKFILL :: int where "PRIORITY_BACKFILL = 5"
definition PRIORITY_FRESHNESS :: int where "PRIORITY_FRESHNESS = 10"
definition PRIORITY_CACHE_WATCH :: int where "PRIORITY_CACHE_WATCH = 20"
definition PRIORITY_PRE_WARM :: int where "PRIORITY_PRE_WARM = 25"
definition PRIORITY_DISCOVERY :: int where "PRIORITY_DISCOVERY = 50"
definition PRIORITY_PROACTIVE_ENRICH :: int where "PRIORITY_PROACTIVE_ENRICH = 75"
definition PRIORITY_DEFAULT :: int where "PRIORITY_DEFAULT = 100"

lemmas priority_defs = PRIORITY_ON_DEMAND_def PRIORITY_BACKFILL_def PRIORITY_FRESHNESS_def
  PRIORITY_CACHE_WATCH_def PRIORITY_PRE_WARM_def PRIORITY_DISCOVERY_def
  PRIORITY_PROACTIVE_ENRICH_def PRIORITY_DEFAULT_def

datatype job_outcome = OPending | OCompleted | OFailed string

section \<open>Channels and the waiters map\<close>

record channel =
  ch_value :: job_outcome
  ch_version :: nat
  ch_receivers :: "nat list"
  ch_sender_alive :: bool

record indexing_coordinator =
  co_permit :: bool
  co_waiters :: "nat \<rightharpoonup> nat"
  co_channels :: "channel list"

record receiver =
  rx_channel :: nat
  rx_id :: nat
  rx_seen :: nat

definition new_coordinator :: indexing_coordinator where
  "new_coordinator = \<lparr>co_permit = False, co_waiters = Map.empty, co_channels = []\<rparr>"

definition watch_channel :: channel where
  "watch_channel = \<lparr>ch_value = OPending, ch_version = 0, ch_receivers = [], ch_sender_alive = True\<rparr>"

definition notify_worker :: "indexing_coordinator \<Rightarrow> indexing_coordinator" where
  "notify_worker co = co\<lparr>co_permit := True\<rparr>"

definition notified :: "indexing_coordinator \<Rightarrow> bool \<times> indexing_coordinator" where
  "notified co = (co_permit co, co\<lparr>co_permit := False\<rparr>)"

definition register_waiter :: "indexing_coordinator \<Rightarrow> nat \<Rightarrow> indexing_coordinator" where
  "register_waiter co job_id =
     (case co_waiters co job_id of
        Some _ \<Rightarrow> co
      | None \<Rightarrow> co\<lparr>co_waiters := (co_waiters co)(job_id \<mapsto> length (co_channels co)),
                    co_channels := co_channels co @ [watch_channel]\<rparr>)"

definition update_channel :: "nat \<Rightarrow> (channel \<Rightarrow> channel) \<Rightarrow> indexing_coordinator \<Rightarrow> indexing_coordinator" where
  "update_channel c f co =
     (if c < length (co_channels co)
      then co\<lparr>co_channels := (co_channels co)[c := f (co_channels co ! c)]\<rparr> else co)"

definition subscribe :: "indexing_coordinator \<Rightarrow> nat \<Rightarrow> nat \<Rightarrow> receiver option \<times> indexing_coordinator" where
  "subscribe co job_id rid =
     (case co_waiters co job_id of
        None \<Rightarrow> (None, co)
      | Some c \<Rightarrow>
          (Some \<lparr>rx_channel = c, rx_id = rid, rx_seen = ch_version (co_channels co ! c)\<rparr>,
           update_channel c (\<lambda>ch. ch\<lparr>ch_receivers := rid # ch_receivers ch\<rparr>) co))"

definition drop_receiver :: "indexing_coordinator \<Rightarrow> receiver \<Rightarrow> indexing_coordinator" where
  "drop_receiver co rx =
     update_channel (rx_channel rx)
       (\<lambda>ch. ch\<lparr>ch_receivers := removeAll (rx_id rx) (ch_receivers ch)\<rparr>) co"

text \<open>\<open>Sender::send\<close> stores the value only when a receiver exists; \<open>remove\<close> then drops the sender.\<close>

definition send :: "job_outcome \<Rightarrow> channel \<Rightarrow> channel" where
  "send v ch = (if ch_receivers ch = [] then ch
                else ch\<lparr>ch_value := v, ch_version := Suc (ch_version ch)\<rparr>)"

definition signal_completion :: "indexing_coordinator \<Rightarrow> nat \<Rightarrow> job_outcome \<Rightarrow> indexing_coordinator" where
  "signal_completion co job_id outcome =
     (case co_waiters co job_id of
        None \<Rightarrow> co
      | Some c \<Rightarrow>
          update_channel c (\<lambda>ch. (send outcome ch)\<lparr>ch_sender_alive := False\<rparr>)
            (co\<lparr>co_waiters := (co_waiters co)(job_id := None)\<rparr>))"

section \<open>Waiting\<close>

datatype changed = Changed receiver job_outcome | Closed | Blocked

definition rx_changed :: "indexing_coordinator \<Rightarrow> receiver \<Rightarrow> changed" where
  "rx_changed co rx =
     (let ch = co_channels co ! rx_channel rx
      in if ch_version ch \<noteq> rx_seen rx then Changed (rx\<lparr>rx_seen := ch_version ch\<rparr>) (ch_value ch)
         else if \<not> ch_sender_alive ch then Closed
         else Blocked)"

definition timeout_message :: "nat \<Rightarrow> string" where
  "timeout_message job_id =
     ''on-demand indexing timed out after '' @ show_nat ON_DEMAND_TIMEOUT_SECS @ ''s (job '' @
     show_nat job_id @ ''); please retry shortly''"

definition closed_message :: string where
  "closed_message = ''on-demand job completion channel closed unexpectedly''"

text \<open>The loop of \<open>wait_for_job\<close>, polled in the coordinator states \<open>cos\<close> it sees until its deadline.\<close>

fun wait_loop :: "nat \<Rightarrow> receiver \<Rightarrow> indexing_coordinator list \<Rightarrow> job_outcome result" where
  "wait_loop job_id rx [] = Inl (timeout_message job_id)"
| "wait_loop job_id rx (co # cos) =
     (case rx_changed co rx of
        Changed rx' outcome \<Rightarrow> if outcome \<noteq> OPending then Inr outcome else wait_loop job_id rx' cos
      | Closed \<Rightarrow> Inl closed_message
      | Blocked \<Rightarrow> wait_loop job_id rx cos)"

definition wait_for_job ::
  "indexing_coordinator \<Rightarrow> nat \<Rightarrow> nat \<Rightarrow> indexing_coordinator list \<Rightarrow> job_outcome result" where
  "wait_for_job co job_id rid cos =
     (case subscribe co job_id rid of
        (None, _) \<Rightarrow> Inr OCompleted
      | (Some rx, _) \<Rightarrow> wait_loop job_id rx cos)"

definition on_demand_payload :: "string \<Rightarrow> json" where
  "on_demand_payload scope = JObject [(''trigger'', JString ''on_demand''), (''scope'', JString scope)]"

definition enqueue_on_demand ::
  "string option \<Rightarrow> indexing_coordinator \<Rightarrow> refresh_queue \<Rightarrow> int \<Rightarrow> string \<Rightarrow> string \<Rightarrow>
   nat result \<times> indexing_coordinator \<times> refresh_queue" where
  "enqueue_on_demand db_error co q now crate_name scope =
     (case db_error of
        Some e \<Rightarrow> (Inl (''failed to enqueue on-demand '' @ scope @ '' job for '' @ [CHR 0x27] @ crate_name @
                       [CHR 0x27] @ '': '' @ e), co, q)
      | None \<Rightarrow>
          (let (out, q') = enqueue_or_get_refresh_job_id q now crate_name scope PRIORITY_ON_DEMAND
                             False (on_demand_payload scope)
           in (Inr (eo_job_id out), notify_worker (register_waiter co (eo_job_id out)), q')))"

section \<open>Handlers and worker interleaved\<close>

text \<open>
  A handler's call of \<open>enqueue_on_demand\<close> and \<open>wait_for_job\<close> as the steps between its await points
  (the database statement, the registration, the subscription, each poll, the deadline), with the
  other handlers and the worker free to run in between.  \<open>sy_log\<close> records what the worker signalled.
\<close>

datatype phase =
    Calling string string
  | Enqueued nat
  | Registered nat
  | Waiting nat receiver
  | Optimistic nat
  | Returned nat "job_outcome result"

record system =
  sy_queue :: refresh_queue
  sy_co :: indexing_coordinator
  sy_tasks :: "phase list"
  sy_log :: "(nat \<times> job_outcome) list"

definition set_task :: "nat \<Rightarrow> phase \<Rightarrow> system \<Rightarrow> system" where
  "set_task t ph s = s\<lparr>sy_tasks := (sy_tasks s)[t := ph]\<rparr>"

definition task_is :: "system \<Rightarrow> nat \<Rightarrow> phase \<Rightarrow> bool" where
  "task_is s t ph \<longleftrightarrow> t < length (sy_tasks s) \<and> sy_tasks s ! t = ph"

inductive sys_step :: "system \<Rightarrow> system \<Rightarrow> bool" where
  call: "sys_step s (s\<lparr>sy_tasks := sy_tasks s @ [Calling c sc]\<rparr>)"
| enqueue: "task_is s t (Calling c sc) \<Longrightarrow>
    enqueue_or_get_refresh_job_id (sy_queue s) now c sc PRIORITY_ON_DEMAND False
      (on_demand_payload sc) = (out, q') \<Longrightarrow>
    sys_step s (set_task t (Enqueued (eo_job_id out)) (s\<lparr>sy_queue := q'\<rparr>))"
| register: "task_is s t (Enqueued j) \<Longrightarrow>
    sys_step s (set_task t (Registered j) (s\<lparr>sy_co := notify_worker (register_waiter (sy_co s) j)\<rparr>))"
| miss: "task_is s t (Registered j) \<Longrightarrow> subscribe (sy_co s) j t = (None, co') \<Longrightarrow>
    sys_step s (set_task t (Optimistic j) s)"
| subscribe: "task_is s t (Registered j) \<Longrightarrow> subscribe (sy_co s) j t = (Some rx, co') \<Longrightarrow>
    sys_step s (set_task t (Waiting j rx) (s\<lparr>sy_co := co'\<rparr>))"
| spurious: "task_is s t (Waiting j rx) \<Longrightarrow> rx_changed (sy_co s) rx = Changed rx' OPending \<Longrightarrow>
    sys_step s (set_task t (Waiting j rx') s)"
| receive: "task_is s t (Waiting j rx) \<Longrightarrow> rx_changed (sy_co s) rx = Changed rx' out \<Longrightarrow>
    out \<noteq> OPending \<Longrightarrow>
    sys_step s (set_task t (Returned j (Inr out)) (s\<lparr>sy_co := drop_receiver (sy_co s) rx\<rparr>))"
| closed: "task_is s t (Waiting j rx) \<Longrightarrow> rx_changed (sy_co s) rx = Closed \<Longrightarrow>
    sys_step s (set_task t (Returned j (Inl closed_message)) (s\<lparr>sy_co := drop_receiver (sy_co s) rx\<rparr>))"
| timeout: "task_is s t (Waiting j rx) \<Longrightarrow>
    sys_step s (set_task t (Returned j (Inl (timeout_message j)))
      (s\<lparr>sy_co := drop_receiver (sy_co s) rx\<rparr>))"
| signal: "out \<noteq> OPending \<Longrightarrow>
    sys_step s (s\<lparr>sy_co := signal_completion (sy_co s) j out, sy_log := (j, out) # sy_log s\<rparr>)"
| worker: "queue_step (sy_queue s) q' \<Longrightarrow> sys_step s (s\<lparr>sy_queue := q'\<rparr>)"
| wake: "notified (sy_co s) = (b, co') \<Longrightarrow> sys_step s (s\<lparr>sy_co := co'\<rparr>)"

inductive sys_reachable :: "system \<Rightarrow> bool" where
  init: "sys_reachable \<lparr>sy_queue = empty_queue, sy_co = new_coordinator, sy_tasks = [], sy_log = []\<rparr>"
| step: "sys_reachable s \<Longrightarrow> sys_step s s' \<Longrightarrow> sys_reachable s'"

section \<open>The invariant of the waiters\<close>

definition fresh_channel :: "channel \<Rightarrow> bool" where
  "fresh_channel ch \<longleftrightarrow> ch_value ch = OPending \<and> ch_version ch = 0 \<and> ch_sender_alive ch"

definition signalled :: "system \<Rightarrow> nat \<Rightarrow> bool" where
  "signalled s j \<longleftrightarrow> (\<exists>out. (j, out) \<in> set (sy_log s))"

definition co_inv :: "indexing_coordinator \<Rightarrow> bool" where
  "co_inv co \<longleftrightarrow> inj_on (co_waiters co) (dom (co_waiters co)) \<and>
     (\<forall>j c. co_waiters co j = Some c \<longrightarrow> c < length (co_channels co) \<and> fresh_channel (co_channels co ! c))"

definition waiting_ok :: "system \<Rightarrow> nat \<Rightarrow> nat \<Rightarrow> receiver \<Rightarrow> bool" where
  "waiting_ok s t j rx \<longleftrightarrow>
     (let c = rx_channel rx; ch = co_channels (sy_co s) ! c
      in rx_id rx = t \<and> rx_seen rx = 0 \<and> c < length (co_channels (sy_co s)) \<and> t \<in> set (ch_receivers ch) \<and>
         (co_waiters (sy_co s) j = Some c \<or>
          ch_version ch = 1 \<and> ch_value ch \<noteq> OPending \<and> (j, ch_value ch) \<in> set (sy_log s)))"

fun phase_ok :: "system \<Rightarrow> nat \<Rightarrow> phase \<Rightarrow> bool" where
  "phase_ok s t (Registered j) \<longleftrightarrow> co_waiters (sy_co s) j \<noteq> None \<or> signalled s j"
| "phase_ok s t (Waiting j rx) \<longleftrightarrow> waiting_ok s t j rx"
| "phase_ok s t (Optimistic j) \<longleftrightarrow> signalled s j"
| "phase_ok s t (Returned j (Inr out)) \<longleftrightarrow> out \<noteq> OPending \<and> (j, out) \<in> set (sy_log s)"
| "phase_ok s t (Returned j (Inl m)) \<longleftrightarrow> m = timeout_message j"
| "phase_ok s t _ \<longleftrightarrow> True"

definition sys_inv :: "system \<Rightarrow> bool" where
  "sys_inv s \<longleftrightarrow> co_inv (sy_co s) \<and> (\<forall>t < length (sy_tasks s). phase_ok s t (sy_tasks s ! t))"

lemma sys_inv_task: "sys_inv s \<Longrightarrow> task_is s t ph \<Longrightarrow> phase_ok s t ph"
  by (auto simp: sys_inv_def task_is_def)

text \<open>One task moves and every other task keeps its guarantee.\<close>

lemma sys_inv_set_task:
  assumes "co_inv (sy_co s)" "phase_ok s t ph"
    and "\<And>u. u < length (sy_tasks s) \<Longrightarrow> u \<noteq> t \<Longrightarrow> phase_ok s u (sy_tasks s ! u)"
  shows "sys_inv (set_task t ph s)"
proof -
  have "phase_ok (set_task t ph s) u p = phase_ok s u p" for u p
    by (cases "(s, u, p)" rule: phase_ok.cases) (simp_all add: set_task_def signalled_def waiting_ok_def)
  moreover have "phase_ok s u ((sy_tasks s)[t := ph] ! u)" if "u < length (sy_tasks s)" for u
    using assms that by (cases "u = t") auto
  ultimately show ?thesis using assms(1) by (simp add: sys_inv_def set_task_def)
qed

lemma phase_ok_mono:
  assumes "phase_ok s u p" "set (sy_log s) \<subseteq> set (sy_log s')"
    and "\<And>j. p = Registered j \<Longrightarrow> co_waiters (sy_co s) j \<noteq> None \<Longrightarrow>
           co_waiters (sy_co s') j \<noteq> None \<or> signalled s' j"
    and "\<And>j rx. p = Waiting j rx \<Longrightarrow> waiting_ok s u j rx \<Longrightarrow> waiting_ok s' u j rx"
  shows "phase_ok s' u p"
  using assms
  by (cases "(s, u, p)" rule: phase_ok.cases) (auto simp: signalled_def)

lemma update_channel_simps [simp]:
  "co_waiters (update_channel c f co) = co_waiters co"
  "length (co_channels (update_channel c f co)) = length (co_channels co)"
  "d < length (co_channels co) \<Longrightarrow> co_channels (update_channel c f co) ! d =
     (if d = c then f (co_channels co ! d) else co_channels co ! d)"
  by (auto simp: update_channel_def)

lemma register_co_inv:
  assumes "co_inv co" shows "co_inv (notify_worker (register_waiter co j))"
proof (cases "co_waiters co j")
  case None
  have "length (co_channels co) \<notin> ran (co_waiters co)"
    using assms by (fastforce simp: co_inv_def ran_def)
  with None assms show ?thesis
    by (fastforce simp: co_inv_def notify_worker_def register_waiter_def inj_on_def nth_append
        fresh_channel_def watch_channel_def ran_def split: if_splits)
qed (use assms in \<open>simp add: co_inv_def notify_worker_def register_waiter_def\<close>)

lemma subscribe_co_inv: "co_inv co \<Longrightarrow> subscribe co j t = (r, co') \<Longrightarrow> co_inv co'"
  by (auto simp: subscribe_def co_inv_def fresh_channel_def split: option.splits)

lemma drop_co_inv: "co_inv co \<Longrightarrow> co_inv (drop_receiver co rx)"
  by (auto simp: drop_receiver_def co_inv_def fresh_channel_def)

lemma signal_co_inv: "co_inv co \<Longrightarrow> co_inv (signal_completion co j out)"
  by (auto simp: signal_completion_def co_inv_def inj_on_def dom_def split: option.splits)

text \<open>A coordinator step that only adds registrations, subscriptions or wake-ups keeps the guarantees.\<close>

lemma phases_keep:
  assumes "sys_inv s" "u < length (sy_tasks s)"
    and "sy_log s' = sy_log s"
    and "\<And>j. co_waiters (sy_co s) j \<noteq> None \<Longrightarrow> co_waiters (sy_co s') j = co_waiters (sy_co s) j"
    and "length (co_channels (sy_co s)) \<le> length (co_channels (sy_co s'))"
    and "\<And>c. c < length (co_channels (sy_co s)) \<Longrightarrow>
       ch_value (co_channels (sy_co s') ! c) = ch_value (co_channels (sy_co s) ! c) \<and>
       ch_version (co_channels (sy_co s') ! c) = ch_version (co_channels (sy_co s) ! c) \<and>
       (u \<in> set (ch_receivers (co_channels (sy_co s) ! c)) \<longrightarrow>
        u \<in> set (ch_receivers (co_channels (sy_co s') ! c)))"
  shows "phase_ok s' u (sy_tasks s ! u)"
proof (rule phase_ok_mono [of s])
  show "phase_ok s u (sy_tasks s ! u)" using assms(1,2) by (simp add: sys_inv_def)
  fix j rx assume "waiting_ok s u j rx"
  then show "waiting_ok s' u j rx"
    using assms(3-6) by (auto simp: waiting_ok_def Let_def)
qed (use assms in auto)

lemma drop_other:
  assumes "sys_inv s" "task_is s t (Waiting j rx)" "u < length (sy_tasks s)" "u \<noteq> t"
  shows "phase_ok (s\<lparr>sy_co := drop_receiver (sy_co s) rx\<rparr>) u (sy_tasks s ! u)"
proof (rule phases_keep [OF assms(1,3)])
  have "rx_id rx = t" using sys_inv_task [OF assms(1,2)] by (simp add: waiting_ok_def Let_def)
  then show "ch_value (co_channels (sy_co (s\<lparr>sy_co := drop_receiver (sy_co s) rx\<rparr>)) ! c) =
      ch_value (co_channels (sy_co s) ! c) \<and>
      ch_version (co_channels (sy_co (s\<lparr>sy_co := drop_receiver (sy_co s) rx\<rparr>)) ! c) =
      ch_version (co_channels (sy_co s) ! c) \<and>
      (u \<in> set (ch_receivers (co_channels (sy_co s) ! c)) \<longrightarrow>
       u \<in> set (ch_receivers (co_channels (sy_co (s\<lparr>sy_co := drop_receiver (sy_co s) rx\<rparr>)) ! c)))"
    if "c < length (co_channels (sy_co s))" for c
    using that assms(4) by (simp add: drop_receiver_def)
qed (simp_all add: drop_receiver_def)

text \<open>What a poll can see: nothing yet, or the outcome that was signalled.\<close>

lemma waiting_poll:
  assumes "sys_inv s" "task_is s t (Waiting j rx)"
  shows "(rx_changed (sy_co s) rx = Blocked \<and> co_waiters (sy_co s) j = Some (rx_channel rx)) \<or>
    (\<exists>rx' out. rx_changed (sy_co s) rx = Changed rx' out \<and> out \<noteq> OPending \<and> (j, out) \<in> set (sy_log s))"
proof -
  have w: "waiting_ok s t j rx" using sys_inv_task [OF assms] by simp
  have "co_inv (sy_co s)" using assms(1) by (simp add: sys_inv_def)
  with w show ?thesis
    by (auto simp: waiting_ok_def Let_def rx_changed_def co_inv_def fresh_channel_def)
qed

lemma signal_phases:
  assumes inv: "sys_inv s" and u: "u < length (sy_tasks s)" and out: "out \<noteq> OPending"
  shows "phase_ok (s\<lparr>sy_co := signal_completion (sy_co s) j out, sy_log := (j, out) # sy_log s\<rparr>) u
           (sy_tasks s ! u)" (is "phase_ok ?s' u _")
proof (rule phase_ok_mono [of s])
  show "phase_ok s u (sy_tasks s ! u)" using inv u by (simp add: sys_inv_def)
next
  fix k assume "co_waiters (sy_co s) k \<noteq> None"
  then show "co_waiters (sy_co ?s') k \<noteq> None \<or> signalled ?s' k"
    by (cases "k = j") (auto simp: signalled_def signal_completion_def split: option.split)
next
  fix k rx assume w: "waiting_ok s u k rx"
  have co: "co_inv (sy_co s)" using inv by (simp add: sys_inv_def)
  show "waiting_ok ?s' u k rx"
  proof (cases "co_waiters (sy_co s) j")
    case None
    with w show ?thesis by (auto simp: waiting_ok_def Let_def signal_completion_def)
  next
    case (Some c)
    then have c: "c < length (co_channels (sy_co s))" "fresh_channel (co_channels (sy_co s) ! c)"
      using co by (auto simp: co_inv_def)
    show ?thesis
    proof (cases "c = rx_channel rx")
      case True
      then have "k = j"
        using w c co Some by (auto simp: waiting_ok_def Let_def fresh_channel_def co_inv_def inj_on_def dom_def)
      with True w c Some out show ?thesis
        by (auto simp: waiting_ok_def Let_def signal_completion_def send_def fresh_channel_def)
    next
      case False
      with w c Some show ?thesis
        by (auto simp: waiting_ok_def Let_def signal_completion_def)
    qed
  qed
qed auto

lemma sys_inv_same_tasks:
  assumes "co_inv (sy_co s')" "sy_tasks s' = sy_tasks s"
    and "\<And>u. u < length (sy_tasks s) \<Longrightarrow> phase_ok s' u (sy_tasks s ! u)"
  shows "sys_inv s'"
  using assms by (simp add: sys_inv_def)

lemma sys_inv_co: "sys_inv s \<Longrightarrow> co_inv (sy_co s)"
  by (simp add: sys_inv_def)

lemma register_keeps:
  "co_waiters co j \<noteq> None \<Longrightarrow> co_waiters (register_waiter co k) j = co_waiters co j"
  "length (co_channels co) \<le> length (co_channels (register_waiter co k))"
  "c < length (co_channels co) \<Longrightarrow> co_channels (register_waiter co k) ! c = co_channels co ! c"
  "co_waiters (register_waiter co k) k \<noteq> None"
  by (auto simp: register_waiter_def nth_append split: option.split)

lemma notify_simps [simp]:
  "co_waiters (notify_worker co) = co_waiters co"
  "co_channels (notify_worker co) = co_channels co"
  by (simp_all add: notify_worker_def)

lemma subscribe_step_inv:
  assumes "sys_inv s" "task_is s t (Registered j)" "subscribe (sy_co s) j t = (Some rx, co')"
  shows "sys_inv (set_task t (Waiting j rx) (s\<lparr>sy_co := co'\<rparr>))"
proof (rule sys_inv_set_task)
  obtain c where c: "co_waiters (sy_co s) j = Some c" "rx = \<lparr>rx_channel = c, rx_id = t,
      rx_seen = ch_version (co_channels (sy_co s) ! c)\<rparr>"
    "co' = update_channel c (\<lambda>ch. ch\<lparr>ch_receivers := t # ch_receivers ch\<rparr>) (sy_co s)"
    using assms(3) by (auto simp: subscribe_def split: option.splits)
  show "co_inv (sy_co (s\<lparr>sy_co := co'\<rparr>))"
    using subscribe_co_inv [OF sys_inv_co [OF assms(1)] assms(3)] by simp
  show "phase_ok (s\<lparr>sy_co := co'\<rparr>) t (Waiting j rx)"
    using c sys_inv_co [OF assms(1)] by (auto simp: waiting_ok_def Let_def co_inv_def fresh_channel_def)
  show "phase_ok (s\<lparr>sy_co := co'\<rparr>) u (sy_tasks (s\<lparr>sy_co := co'\<rparr>) ! u)"
    if "u < length (sy_tasks (s\<lparr>sy_co := co'\<rparr>))" for u
    using that c by (simp, intro phases_keep [OF assms(1)]) auto
qed

lemma sys_step_inv: "sys_step s s' \<Longrightarrow> sys_inv s \<Longrightarrow> sys_inv s'"
proof (induction rule: sys_step.induct)
  case (call s c sc)
  have "phase_ok (s\<lparr>sy_tasks := sy_tasks s @ [Calling c sc]\<rparr>) u p = phase_ok s u p" for u p
    by (cases "(s, u, p)" rule: phase_ok.cases) (simp_all add: signalled_def waiting_ok_def)
  with call show ?case by (auto simp: sys_inv_def nth_append less_Suc_eq)
next
  case (enqueue s t c sc now out q')
  then show ?case
    by (intro sys_inv_set_task) (auto simp: sys_inv_co intro!: phases_keep)
next
  case (register s t j)
  then show ?case
    by (intro sys_inv_set_task)
      (auto simp: register_co_inv [OF sys_inv_co] register_keeps intro!: phases_keep)
next
  case (miss s t j co')
  then have "signalled s j"
    using sys_inv_task [of s t "Registered j"] by (auto simp: subscribe_def split: option.splits)
  with miss show ?case by (intro sys_inv_set_task) (auto simp: sys_inv_def)
next
  case (subscribe s t j rx co')
  then show ?case by (blast intro: subscribe_step_inv)
next
  case (spurious s t j rx rx')
  then show ?case using waiting_poll [of s t j rx] by auto
next
  case (receive s t j rx rx' out)
  then have "(j, out) \<in> set (sy_log s)" using waiting_poll [of s t j rx] by auto
  with receive show ?case
    by (intro sys_inv_set_task) (auto simp: drop_co_inv [OF sys_inv_co] intro: drop_other)
next
  case (closed s t j rx)
  then show ?case using waiting_poll [of s t j rx] by auto
next
  case (timeout s t j rx)
  then show ?case
    by (intro sys_inv_set_task) (auto simp: drop_co_inv [OF sys_inv_co] intro: drop_other)
next
  case (signal out s j)
  then show ?case
    by (intro sys_inv_same_tasks [of _ s]) (auto simp: signal_co_inv [OF sys_inv_co] intro: signal_phases)
next
  case (worker s q')
  then show ?case
    by (intro sys_inv_same_tasks [of _ s]) (auto simp: sys_inv_co intro!: phases_keep)
next
  case (wake s b co')
  then show ?case
    by (intro sys_inv_same_tasks [of _ s])
      (auto simp: notified_def co_inv_def dest: sys_inv_co intro!: phases_keep)
qed

lemma sys_reachable_inv: "sys_reachable s \<Longrightarrow> sys_inv s"
proof (induction rule: sys_reachable.induct)
  case init
  show ?case by (simp add: sys_inv_def co_inv_def new_coordinator_def)
qed (blast intro: sys_step_inv)

text \<open>
  (C24) However handlers and worker interleave, a handler that waited returns an outcome only if the
  worker signalled exactly that outcome for its job, never \<open>Pending\<close>; an optimistic \<open>Completed\<close> is
  returned only for a job that was signalled; and the only error is the time-out, the channel is
  never found closed.
\<close>

theorem wait_returns_signalled_outcome:
  assumes "sys_reachable s" and "task_is s t ph"
  shows "(\<forall>j out. ph = Returned j (Inr out) \<longrightarrow> out \<noteq> OPending \<and> (j, out) \<in> set (sy_log s)) \<and>
         (\<forall>j. ph = Optimistic j \<longrightarrow> (\<exists>out. (j, out) \<in> set (sy_log s))) \<and>
         (\<forall>j m. ph = Returned j (Inl m) \<longrightarrow> m = timeout_message j)"
  using sys_inv_task [OF sys_reachable_inv [OF assms(1)] assms(2)] by (auto simp: signalled_def)

text \<open>
  (C25) No signal is lost after the subscription, for any number of handlers coalesced on the job:
  in a reachable state the worker's signal makes every handler that is blocked on the job ready,
  with the signalled outcome.
\<close>

theorem signal_wakes_every_waiter:
  assumes "sys_reachable s" and "task_is s t (Waiting j rx)"
    and "rx_changed (sy_co s) rx = Blocked" and "out \<noteq> OPending"
  shows "\<exists>rx'. rx_changed (signal_completion (sy_co s) j out) rx = Changed rx' out"
proof -
  note inv = sys_reachable_inv [OF assms(1)]
  have c: "co_waiters (sy_co s) j = Some (rx_channel rx)" using waiting_poll [OF inv assms(2)] assms(3) by auto
  have "waiting_ok s t j rx" using sys_inv_task [OF inv assms(2)] by simp
  with c sys_inv_co [OF inv] show ?thesis
    by (auto simp: waiting_ok_def Let_def rx_changed_def signal_completion_def send_def co_inv_def
        fresh_channel_def)
qed

lemma signals_other:
  assumes "co_inv co" "co_waiters co j = Some c" "list_all (\<lambda>k. k \<noteq> j) ks"
  shows "co_inv (fold (\<lambda>k c. signal_completion c k out) ks co) \<and>
         co_waiters (fold (\<lambda>k c. signal_completion c k out) ks co) j = Some c"
  using assms
proof (induction ks arbitrary: co)
  case (Cons k ks)
  have "co_waiters (signal_completion co k out) j = Some c"
    using Cons.prems by (auto simp: signal_completion_def split: option.split)
  with Cons show ?case by (simp add: signal_co_inv)
qed simp

lemma registered_blocks:
  assumes "co_inv co" "co_waiters co j = Some (rx_channel rx)" "rx_seen rx = 0"
  shows "wait_loop j rx (replicate n co) = Inl (timeout_message j)"
proof -
  have "rx_changed co rx = Blocked"
    using assms by (auto simp: co_inv_def fresh_channel_def rx_changed_def Let_def)
  then show ?thesis by (induction n) auto
qed

text \<open>
  A signal that arrives between registration and subscription is not delivered: the handler
  returns \<open>Completed\<close> even when the job failed.  A registration that arrives after the signal (the
  job finished between the handler's look-up and its registration) waits for a signal that was
  already sent, so the call ends with the time-out whatever the worker signals for other jobs.
\<close>

theorem signal_outside_subscription:
  assumes "co_inv co" and "list_all (\<lambda>k. k \<noteq> j) ks"
  shows "wait_for_job (signal_completion (register_waiter co j) j (OFailed m)) j t cos = Inr OCompleted \<and>
    (let co' = register_waiter (signal_completion co j out) j
     in wait_for_job co' j t
          (replicate n (fold (\<lambda>k c. signal_completion c k out') ks (snd (subscribe co' j t)))) =
        Inl (timeout_message j))"
proof -
  have "co_waiters (signal_completion (register_waiter co j) j (OFailed m)) j = None"
    using register_keeps(4) [of co j] by (auto simp: signal_completion_def)
  then have first: "wait_for_job (signal_completion (register_waiter co j) j (OFailed m)) j t cos = Inr OCompleted"
    by (simp add: wait_for_job_def subscribe_def)
  define co' where "co' = register_waiter (signal_completion co j out) j"
  have inv: "co_inv co'"
    using register_co_inv [OF signal_co_inv [OF assms(1)]] by (simp add: co'_def co_inv_def)
  obtain c where c: "co_waiters co' j = Some c"
    using register_keeps(4) [of "signal_completion co j out" j] by (auto simp: co'_def)
  then have sub: "subscribe co' j t = (Some \<lparr>rx_channel = c, rx_id = t, rx_seen = 0\<rparr>, snd (subscribe co' j t))"
    using inv by (auto simp: subscribe_def co_inv_def fresh_channel_def)
  have "co_waiters (snd (subscribe co' j t)) j = Some c" using c by (simp add: subscribe_def)
  with signals_other [OF subscribe_co_inv [OF inv sub] this assms(2)]
  have "wait_loop j \<lparr>rx_channel = c, rx_id = t, rx_seen = 0\<rparr>
      (replicate n (fold (\<lambda>k c. signal_completion c k out') ks (snd (subscribe co' j t)))) =
      Inl (timeout_message j)" by (intro registered_blocks) auto
  moreover have "wait_for_job co' j t cs = wait_loop j \<lparr>rx_channel = c, rx_id = t, rx_seen = 0\<rparr> cs" for cs
    unfolding wait_for_job_def by (subst sub) simp
  ultimately show ?thesis using first unfolding co'_def [symmetric] Let_def by simp
qed

theorem signal_outside_subscription_witness:
  "wait_for_job (register_waiter (signal_completion new_coordinator 7 OCompleted) 7) 7 0 [] =
     Inl (timeout_message 7)"
proof -
  have "co_inv new_coordinator" by (simp add: co_inv_def new_coordinator_def)
  from signal_outside_subscription [OF this, of 7 "[]" _ 0 "[]" OCompleted 0] show ?thesis
    by (simp add: Let_def)
qed

section \<open>Executions for the hypotheses\<close>

definition waiting_rx :: receiver where
  "waiting_rx = \<lparr>rx_channel = 0, rx_id = 0, rx_seen = 0\<rparr>"

definition waiting_system :: system where
  "waiting_system =
     \<lparr>sy_queue = \<lparr>rq_jobs = [new_job 1 0 ''serde'' ''crate'' 1 False (on_demand_payload ''crate'')],
                  rq_next_id = 2\<rparr>,
      sy_co = \<lparr>co_permit = True, co_waiters = [1 \<mapsto> 0],
               co_channels = [watch_channel\<lparr>ch_receivers := [0]\<rparr>]\<rparr>,
      sy_tasks = [Waiting 1 waiting_rx], sy_log = []\<rparr>"

lemma waiting_system_reachable: "sys_reachable waiting_system"
proof -
  let ?q = "\<lparr>rq_jobs = [new_job 1 0 ''serde'' ''crate'' 1 False (on_demand_payload ''crate'')], rq_next_id = 2\<rparr>"
  let ?co = "notify_worker (register_waiter new_coordinator 1)"
  let ?s0 = "\<lparr>sy_queue = empty_queue, sy_co = new_coordinator, sy_tasks = [], sy_log = []\<rparr>"
  let ?s1 = "?s0\<lparr>sy_tasks := sy_tasks ?s0 @ [Calling ''serde'' ''crate'']\<rparr>"
  let ?s2 = "set_task 0 (Enqueued 1) (?s1\<lparr>sy_queue := ?q\<rparr>)"
  let ?s3 = "set_task 0 (Registered 1) (?s2\<lparr>sy_co := ?co\<rparr>)"
  let ?s4 = "set_task 0 (Waiting 1 waiting_rx) (?s3\<lparr>sy_co := snd (subscribe ?co 1 0)\<rparr>)"
  have e: "enqueue_or_get_refresh_job_id (sy_queue ?s1) 0 ''serde'' ''crate'' PRIORITY_ON_DEMAND False
      (on_demand_payload ''crate'') = (\<lparr>eo_job_id = 1, eo_is_new = True\<rparr>, ?q)"
    by (simp add: enqueue_or_get_refresh_job_id_def select_active_def insert_job_def empty_queue_def
        PRIORITY_ON_DEMAND_def)
  have "sys_reachable ?s1" by (blast intro: sys_reachable.intros sys_step.call)
  then have "sys_reachable ?s2"
    using sys_step.enqueue [OF _ e, of 0] by (auto simp: task_is_def intro: sys_reachable.step)
  then have "sys_reachable ?s3"
    using sys_step.register [of ?s2 0 1] by (auto simp: task_is_def set_task_def intro: sys_reachable.step)
  moreover have "subscribe (sy_co ?s3) 1 0 = (Some waiting_rx, snd (subscribe ?co 1 0))"
    by (simp add: subscribe_def register_waiter_def new_coordinator_def notify_worker_def set_task_def
        watch_channel_def waiting_rx_def)
  ultimately have "sys_reachable ?s4"
    using sys_step.subscribe [of ?s3 0 1 waiting_rx] by (auto simp: task_is_def set_task_def intro: sys_reachable.step)
  then show ?thesis
    by (simp add: waiting_system_def set_task_def subscribe_def register_waiter_def new_coordinator_def
        notify_worker_def update_channel_def watch_channel_def)
qed

lemma waiting_system_task: "task_is waiting_system 0 (Waiting 1 waiting_rx)"
  by (simp add: task_is_def waiting_system_def)

theorem signal_wakes_every_waiter_witness:
  "\<exists>rx'. rx_changed (signal_completion (sy_co waiting_system) 1 (OFailed ''x'')) waiting_rx =
     Changed rx' (OFailed ''x'')"
proof (rule signal_wakes_every_waiter [OF waiting_system_reachable waiting_system_task])
  show "rx_changed (sy_co waiting_system) waiting_rx = Blocked"
    by (simp add: rx_changed_def waiting_system_def waiting_rx_def watch_channel_def)
qed simp

theorem wait_returns_signalled_outcome_witness:
  "task_is (set_task 0 (Returned 1 (Inl (timeout_message 1)))
      (waiting_system\<lparr>sy_co := drop_receiver (sy_co waiting_system) waiting_rx\<rparr>)) 0
     (Returned 1 (Inl (timeout_message 1))) \<and> timeout_message 1 \<noteq> closed_message"
proof -
  let ?s = "set_task 0 (Returned 1 (Inl (timeout_message 1)))
      (waiting_system\<lparr>sy_co := drop_receiver (sy_co waiting_system) waiting_rx\<rparr>)"
  have t: "task_is ?s 0 (Returned 1 (Inl (timeout_message 1)))"
    by (simp add: task_is_def set_task_def waiting_system_def)
  have "sys_reachable ?s"
    by (rule sys_reachable.step [OF waiting_system_reachable sys_step.timeout [OF waiting_system_task]])
  from wait_returns_signalled_outcome [OF this t] t show ?thesis
    by (simp add: timeout_message_def closed_message_def)
qed

end
