(* ===== verification/Query_Cache.thy ===== *)
theory Query_Cache
  imports Text_Utils
begin

text \<open>
  The query cache: the tables \<open>query_cache\<close> (primary key \<open>key\<close>) and \<open>query_cache_events\<close>, the
  statements of \<open>db/tools.rs\<close> on them and the three methods of \<open>mcp/query_cache.rs\<close>.  Times are
  seconds; \<open>NOW()\<close> is the argument \<open>now\<close>.  A statement that fails is an argument of the method that
  runs it: its error message, or that it failed.
\<close>

section \<open>Tables and statements\<close>

record cache_entry =
  ce_key :: string
  ce_value :: json
  ce_source :: string
  ce_created_at :: int
  ce_expires_at :: int

record query_cache =
  qc_entries :: "cache_entry list"
  qc_events :: "(string \<times> bool \<times> int) list"

definition fetch_query_cache_value :: "query_cache \<Rightarrow> int \<Rightarrow> string \<Rightarrow> string \<Rightarrow> json option" where
  "fetch_query_cache_value c now key source =
     map_option ce_value (find (\<lambda>e. ce_key e = key \<and> ce_source e = source \<and> ce_expires_at e > now)
       (qc_entries c))"

definition insert_query_cache_event :: "query_cache \<Rightarrow> int \<Rightarrow> string \<Rightarrow> bool \<Rightarrow> query_cache" where
  "insert_query_cache_event c now source hit = c\<lparr>qc_events := qc_events c @ [(source, hit, now)]\<rparr>"

definition upsert_query_cache_value ::
  "query_cache \<Rightarrow> int \<Rightarrow> string \<Rightarrow> string \<Rightarrow> json \<Rightarrow> int \<Rightarrow> query_cache" where
  "upsert_query_cache_value c now key source v ttl_seconds =
     (let e = \<lparr>ce_key = key, ce_value = v, ce_source = source, ce_created_at = now,
               ce_expires_at = now + max ttl_seconds 1\<rparr>
      in if list_ex (\<lambda>x. ce_key x = key) (qc_entries c)
         then c\<lparr>qc_entries := map (\<lambda>x. if ce_key x = key then e else x) (qc_entries c)\<rparr>
         else c\<lparr>qc_entries := qc_entries c @ [e]\<rparr>)"

definition crate_field :: "string \<Rightarrow> string" where
  "crate_field crate_name = CHR 0x22 # ''crate_name'' @ [CHR 0x22, CHR '':'', CHR 0x22] @ crate_name @ [CHR 0x22]"

definition delete_query_cache_for_crate :: "query_cache \<Rightarrow> string \<Rightarrow> nat \<times> query_cache" where
  "delete_query_cache_for_crate c crate_name =
     (let pattern = CHR ''%'' # crate_field crate_name @ [CHR ''%'']
      in (length (filter (\<lambda>e. like_match pattern (ce_key e)) (qc_entries c)),
          c\<lparr>qc_entries := filter (\<lambda>e. \<not> like_match pattern (ce_key e)) (qc_entries c)\<rparr>))"

section \<open>The server's methods\<close>

definition query_cache_get ::
  "string option \<Rightarrow> bool \<Rightarrow> query_cache \<Rightarrow> int \<Rightarrow> string \<Rightarrow> string \<Rightarrow> json option result \<times> query_cache" where
  "query_cache_get read_error event_failed c now source key =
     (case read_error of
        Some e \<Rightarrow> (Inl (''query cache read failed for '' @ source @ '':'' @ key @ '': '' @ e), c)
      | None \<Rightarrow>
          (let v = fetch_query_cache_value c now key source
           in (Inr v, if event_failed then c else insert_query_cache_event c now source (v \<noteq> None))))"

definition query_cache_put ::
  "string option \<Rightarrow> query_cache \<Rightarrow> int \<Rightarrow> string \<Rightarrow> string \<Rightarrow> json \<Rightarrow> int \<Rightarrow> unit result \<times> query_cache" where
  "query_cache_put write_error c now source key v ttl_seconds =
     (case write_error of
        Some e \<Rightarrow> (Inl (''query cache write failed for '' @ source @ '':'' @ key @ '': '' @ e), c)
      | None \<Rightarrow> (Inr (), upsert_query_cache_value c now key source v ttl_seconds))"

definition query_cache_invalidate_crate ::
  "string option \<Rightarrow> query_cache \<Rightarrow> string \<Rightarrow> nat result \<times> query_cache" where
  "query_cache_invalidate_crate delete_error c crate_name =
     (case delete_error of
        Some e \<Rightarrow> (Inl (''query cache invalidation failed for '' @ crate_name @ '': '' @ e), c)
      | None \<Rightarrow> (let (n, c') = delete_query_cache_for_crate c crate_name in (Inr n, c')))"

section \<open>The primary key\<close>

definition cache_inv :: "query_cache \<Rightarrow> bool" where
  "cache_inv c \<longleftrightarrow> distinct (map ce_key (qc_entries c))"

lemma upsert_inv:
  assumes "cache_inv c"
  shows "cache_inv (upsert_query_cache_value c now key source v ttl)"
proof -
  have keys: "map (ce_key \<circ> (\<lambda>x. if ce_key x = key then e else x)) es = map ce_key es"
    if "ce_key e = key" for e es using that by (induction es) auto
  show ?thesis
    using assms by (simp add: cache_inv_def upsert_query_cache_value_def Let_def keys)
      (auto simp: list_ex_iff)
qed

lemma delete_inv: "cache_inv c \<Longrightarrow> cache_inv (snd (delete_query_cache_for_crate c n))"
  by (auto simp: cache_inv_def delete_query_cache_for_crate_def Let_def intro: distinct_map_filter)

lemma upsert_entries:
  assumes "cache_inv c"
  shows "set (qc_entries (upsert_query_cache_value c now key source v ttl)) =
     {e \<in> set (qc_entries c). ce_key e \<noteq> key} \<union>
     {\<lparr>ce_key = key, ce_value = v, ce_source = source, ce_created_at = now,
       ce_expires_at = now + max ttl 1\<rparr>}"
  by (auto simp: upsert_query_cache_value_def Let_def list_ex_iff image_iff)

lemma fetch_iff:
  assumes "cache_inv c"
  shows "fetch_query_cache_value c now key source = Some v \<longleftrightarrow>
    (\<exists>e \<in> set (qc_entries c). ce_key e = key \<and> ce_source e = source \<and> ce_expires_at e > now \<and> ce_value e = v)"
    (is "?l \<longleftrightarrow> ?r")
proof
  assume ?l then show ?r
    unfolding fetch_query_cache_value_def by (auto dest!: find_SomeD)
next
  let ?P = "\<lambda>e. ce_key e = key \<and> ce_source e = source \<and> ce_expires_at e > now"
  assume ?r
  then obtain e where e: "e \<in> set (qc_entries c)" "?P e" "ce_value e = v" by blast
  then obtain e' where e': "find ?P (qc_entries c) = Some e'"
    by (cases "find ?P (qc_entries c)") (auto simp: find_None_iff)
  then have "e' \<in> set (qc_entries c)" "?P e'" by (auto dest: find_SomeD)
  then have "e' = e" using e assms by (auto simp: cache_inv_def distinct_map inj_on_def)
  with e' e show ?l by (simp add: fetch_query_cache_value_def)
qed

lemma fetch_None:
  "fetch_query_cache_value c now key source = None \<longleftrightarrow>
    (\<forall>e \<in> set (qc_entries c). ce_key e = key \<longrightarrow> ce_source e = source \<longrightarrow> ce_expires_at e \<le> now)"
  by (auto simp: fetch_query_cache_value_def find_None_iff not_less)

section \<open>Reading back what was written\<close>

text \<open>
  A value put into the cache is read back by the same source until its lifetime (at least one
  second) is over, and neither later nor by another source; every other key reads as before.  Each
  successful read leaves exactly one event that says whether it was a hit.
\<close>

theorem query_cache_put_get:
  assumes "cache_inv c" and "query_cache_put None c t source key v ttl = (Inr (), c')"
  shows "query_cache_get None False c' t' source' key' =
    (let r = if key' \<noteq> key then fetch_query_cache_value c t' key' source'
             else if source' = source \<and> t' < t + max ttl 1 then Some v else None
     in (Inr r, c'\<lparr>qc_events := qc_events c' @ [(source', r \<noteq> None, t')]\<rparr>))"
proof -
  have c': "c' = upsert_query_cache_value c t key source v ttl"
    using assms(2) by (simp add: query_cache_put_def)
  note inv' = upsert_inv [OF assms(1), of t key source v ttl]
  let ?r = "if key' \<noteq> key then fetch_query_cache_value c t' key' source'
            else if source' = source \<and> t' < t + max ttl 1 then Some v else None"
  have some: "fetch_query_cache_value c' t' key' source' = Some w \<longleftrightarrow> ?r = Some w" for w
    unfolding c' fetch_iff [OF inv'] upsert_entries [OF assms(1)]
    by (cases "key' = key") (auto simp: fetch_iff [OF assms(1)])
  then have "fetch_query_cache_value c' t' key' source' = ?r" by (metis not_None_eq)
  then show ?thesis by (simp add: query_cache_get_def insert_query_cache_event_def Let_def)
qed

theorem query_cache_put_get_witness:
  "query_cache_get None False
     (snd (query_cache_put None \<lparr>qc_entries = [], qc_events = []\<rparr> 100 ''docs_search'' ''k'' JNull 0))
     100 ''docs_search'' ''k'' =
   (Inr (Some JNull), \<lparr>qc_entries = [\<lparr>ce_key = ''k'', ce_value = JNull, ce_source = ''docs_search'',
      ce_created_at = 100, ce_expires_at = 101\<rparr>], qc_events = [(''docs_search'', True, 100)]\<rparr>)"
proof -
  let ?c = "\<lparr>qc_entries = [], qc_events = []\<rparr>"
  let ?c' = "\<lparr>qc_entries = [\<lparr>ce_key = ''k'', ce_value = JNull, ce_source = ''docs_search'',
      ce_created_at = 100, ce_expires_at = 101\<rparr>], qc_events = []\<rparr>"
  have p: "query_cache_put None ?c 100 ''docs_search'' ''k'' JNull 0 = (Inr (), ?c')"
    by (simp add: query_cache_put_def upsert_query_cache_value_def)
  have "cache_inv ?c" by (simp add: cache_inv_def)
  from query_cache_put_get [OF this p, of 100 "''docs_search''" "''k''"] p show ?thesis by (simp add: Let_def)
qed

section \<open>Invalidation\<close>

lemma like_match_literal:
  "list_all (\<lambda>c. c \<noteq> CHR ''%'' \<and> c \<noteq> CHR 0x5C) p \<Longrightarrow> like_match q s \<Longrightarrow> like_match (p @ q) (p @ s)"
  by (induction p) auto

lemma like_match_percent: "like_match p s \<Longrightarrow> like_match (CHR ''%'' # p) (u @ s)"
proof (induction u)
  case Nil then show ?case by (cases s) auto
qed auto

lemma like_match_percent_all: "like_match [CHR ''%''] s"
  by (induction s) auto

lemma like_match_exact:
  "list_all (\<lambda>c. c \<noteq> CHR ''%'' \<and> c \<noteq> CHR 0x5C \<and> c \<noteq> CHR ''_'') p \<Longrightarrow>
   like_match (p @ q) s \<longleftrightarrow> (\<exists>t. s = p @ t \<and> like_match q t)"
proof (induction p arbitrary: s)
  case (Cons c p) then show ?case by (cases s) auto
qed auto

lemma crate_pattern_matches:
  assumes "list_all (\<lambda>c. c \<noteq> CHR ''%'' \<and> c \<noteq> CHR 0x5C) n" and "contains (crate_field n) key"
  shows "like_match (CHR ''%'' # crate_field n @ [CHR ''%'']) key"
proof -
  obtain u t where "key = u @ crate_field n @ t" using assms(2) by (auto simp: contains_iff)
  moreover have "list_all (\<lambda>c. c \<noteq> CHR ''%'' \<and> c \<noteq> CHR 0x5C) (crate_field n)"
    using assms(1) by (simp add: crate_field_def)
  ultimately show ?thesis
    using like_match_percent like_match_literal like_match_percent_all by metis
qed

text \<open>
  Invalidating a crate whose name has no \<open>LIKE\<close> metacharacter but \<open>_\<close> (as crate names are)
  removes every entry whose key holds the crate's \<open>crate_name\<close> field, so no later read of such a key
  hits, reports the number of rows removed, and keeps the entries the pattern does not match.
\<close>

theorem query_cache_invalidate_complete:
  assumes "list_all (\<lambda>c. c \<noteq> CHR ''%'' \<and> c \<noteq> CHR 0x5C) n"
    and "query_cache_invalidate_crate None c n = (r, c')"
  shows "(contains (crate_field n) key \<longrightarrow> fetch_query_cache_value c' now key source = None) \<and>
    r = Inr (length (qc_entries c) - length (qc_entries c')) \<and>
    (\<not> like_match (CHR ''%'' # crate_field n @ [CHR ''%'']) key \<longrightarrow>
       fetch_query_cache_value c' now key source = fetch_query_cache_value c now key source)"
proof -
  let ?p = "CHR ''%'' # crate_field n @ [CHR ''%'']"
  have c': "qc_entries c' = filter (\<lambda>e. \<not> like_match ?p (ce_key e)) (qc_entries c)"
    and r: "r = Inr (length (filter (\<lambda>e. like_match ?p (ce_key e)) (qc_entries c)))"
    using assms(2) by (auto simp: query_cache_invalidate_crate_def delete_query_cache_for_crate_def Let_def)
  have gone: "fetch_query_cache_value c' now key source = None" if "contains (crate_field n) key"
    using crate_pattern_matches [OF assms(1) that] by (auto simp: fetch_None c')
  have "length (filter (\<lambda>e. like_match ?p (ce_key e)) (qc_entries c)) +
      length (qc_entries c') = length (qc_entries c)"
    unfolding c' by (rule sum_length_filter_compl)
  then have len: "length (filter (\<lambda>e. like_match ?p (ce_key e)) (qc_entries c)) =
      length (qc_entries c) - length (qc_entries c')" by simp
  have kept: "find (\<lambda>e. ce_key e = key \<and> Q e) (filter (\<lambda>e. \<not> like_match ?p (ce_key e)) es) =
      find (\<lambda>e. ce_key e = key \<and> Q e) es" if "\<not> like_match ?p key" for Q es
    using that by (induction es) auto
  have "fetch_query_cache_value c' now key source = fetch_query_cache_value c now key source"
    if "\<not> like_match ?p key" unfolding fetch_query_cache_value_def c' kept [OF that] ..
  then show ?thesis using gone len r by auto
qed

theorem query_cache_invalidate_complete_witness:
  "fetch_query_cache_value
     (snd (query_cache_invalidate_crate None
       \<lparr>qc_entries = [\<lparr>ce_key = CHR ''{'' # crate_field ''serde_json'', ce_value = JNull, ce_source = ''symbol_search'',
           ce_created_at = 0, ce_expires_at = 60\<rparr>], qc_events = []\<rparr> ''serde_json''))
     1 (CHR ''{'' # crate_field ''serde_json'') ''symbol_search'' = None"
proof -
  have "list_all (\<lambda>c. c \<noteq> CHR ''%'' \<and> c \<noteq> CHR 0x5C) ''serde_json''" by simp
  moreover have "contains (crate_field ''serde_json'') (CHR ''{'' # crate_field ''serde_json'')"
    unfolding contains_iff by (intro exI [of _ "[CHR ''{'']"] exI [of _ "[]"]) simp
  ultimately show ?thesis
    by (rule mp [OF conjunct1 [OF query_cache_invalidate_complete [OF _ prod.collapse [symmetric]]]])
qed

end
