(* ===== verification/Worker.thy ===== *)
theory Worker
  imports Coordinator Crate_Store Query_Cache Limits
begin

text \<open>
  The background refresh worker (\<open>mcp/indexing/worker.rs\<close>): one iteration of its loop claims a job,
  dispatches it by scope, and records the result in the queue, the coordinator, the query cache and
  the crate tables.  The synchronisation handlers it dispatches to reach crates.io, docs.rs and the
  file system: they are the functions of \<open>worker_env\<close>, together with the clock, the deserialiser of
  the payload and which bookkeeping statements fail.
\<close>

section \<open>Outcomes, payload and environment\<close>

record sync_crate_outcome =
  sc_versions_synced :: nat
  sc_dependencies_synced :: nat
  sc_selected_version :: "string option"

record rustdoc_json_refresh_outcome =
  ro_scanned_files :: nat
  ro_synced_versions :: nat
  ro_symbols_written :: nat
  ro_types_written :: nat
  ro_impls_written :: nat
  ro_traits_written :: nat
  ro_touched_versions :: "string list"
  ro_errors :: "string list"

record local_cache_refresh_outcome =
  lo_scanned_versions :: nat
  lo_scanned_files :: nat
  lo_upserted_files :: nat
  lo_deleted_files :: nat
  lo_touched_versions :: "string list"
  lo_errors :: "string list"

record docs_refresh_outcome =
  do_versions_processed :: nat
  do_pages_written :: nat
  do_touched_versions :: "string list"
  do_errors :: "string list"

record security_sync_outcome =
  so_crates_processed :: nat
  so_advisories_written :: nat
  so_errors :: "string list"
  so_touched_crates :: "string list"
  so_checked_crate_ids :: "nat list"

datatype refresh_job_outcome =
    CrateSync sync_crate_outcome
  | RustdocJson rustdoc_json_refresh_outcome
  | LocalCache local_cache_refresh_outcome
  | Docs docs_refresh_outcome
  | Security security_sync_outcome

record refresh_job_payload =
  pl_crate_name :: "string option"
  pl_query :: "string option"
  pl_page :: "u32 option"
  pl_per_page :: "u32 option"
  pl_local_versions :: "string list option"
  pl_locally_present_only :: "bool option"

definition payload_default :: refresh_job_payload where
  "payload_default = \<lparr>pl_crate_name = None, pl_query = None, pl_page = None, pl_per_page = None,
     pl_local_versions = None, pl_locally_present_only = None\<rparr>"

text \<open>The calls the worker makes on the server.\<close>

datatype sync_call =
    SyncSingleCrate string bool
  | SyncDocsPages "string option" "u32 option" "u32 option"
  | SyncLocalSourceCache "string option" "string option" "string option" "u32 option" "u32 option" bool
  | SyncRustdocJsonCache rustdoc_candidate_filter "u32 option" "u32 option"

record worker_env =
  we_now :: int
  we_now_nanos :: u32
  we_dequeue_error :: "string option"
  we_from_value :: "json \<Rightarrow> refresh_job_payload option"
  we_sync :: "sync_call \<Rightarrow> crate_store \<Rightarrow> refresh_job_outcome result \<times> crate_store"
  we_security_page :: "u32 \<Rightarrow> u32 \<Rightarrow> string list result"
  we_sync_security :: "string list \<Rightarrow> security_sync_outcome"
  we_rustdoc_retry_cooldown_secs :: int
  we_local_versions :: "string \<Rightarrow> string list"
  we_mark_fails :: bool
  we_cache_fails :: bool
  we_local_fails :: bool
  we_crate_error_fails :: bool
  we_enqueue_fails :: "string \<Rightarrow> bool"

record worker_state =
  ws_queue :: refresh_queue
  ws_co :: indexing_coordinator
  ws_store :: crate_store
  ws_cache :: query_cache
  ws_counters :: "(string \<times> nat) list"

section \<open>Helpers\<close>

definition job_crate_filter :: "string \<Rightarrow> string option" where
  "job_crate_filter name =
     (let trimmed = trim name
      in if trimmed = [] \<or> trimmed = ''*'' \<or> eq_ignore_ascii_case trimmed ''all'' then None
         else Some trimmed)"

definition optional_job_crate_name :: "string \<Rightarrow> string option \<Rightarrow> string option" where
  "optional_job_crate_name job_crate_name payload_crate_name =
     (case Option.bind payload_crate_name job_crate_filter of
        Some n \<Rightarrow> Some n
      | None \<Rightarrow> job_crate_filter job_crate_name)"

definition trunc_div :: "int \<Rightarrow> int \<Rightarrow> int" where
  "trunc_div a b = sgn a * sgn b * (\<bar>a\<bar> div \<bar>b\<bar>)"

definition jittered_retry_delay_seconds :: "u32 \<Rightarrow> 64 word \<Rightarrow> nat \<Rightarrow> int" where
  "jittered_retry_delay_seconds subsec_nanos job_id attempts =
     (let base = 5;
          exponent = clamp (int attempts - 1) 0 5;
          backoff = min (base * 2 ^ nat exponent) 300;
          now_nanos = (ucast subsec_nanos :: 64 word);
          seed = now_nanos + job_id * 97;
          jitter_percent = sint seed mod 31 - 15;
          jittered = backoff + trunc_div (backoff * jitter_percent) 100
      in clamp jittered 1 600)"

fun emit_outcome_counters :: "refresh_job_outcome \<Rightarrow> (string \<times> nat) list" where
  "emit_outcome_counters (CrateSync r) =
     [(''rust_mcp_crate_versions_synced_total'', sc_versions_synced r),
      (''rust_mcp_dependencies_synced_total'', sc_dependencies_synced r)]"
| "emit_outcome_counters (RustdocJson r) =
     [(''rust_mcp_rustdoc_symbols_written_total'', ro_symbols_written r),
      (''rust_mcp_rustdoc_types_written_total'', ro_types_written r),
      (''rust_mcp_rustdoc_impls_written_total'', ro_impls_written r),
      (''rust_mcp_rustdoc_traits_written_total'', ro_traits_written r)]"
| "emit_outcome_counters (LocalCache r) =
     [(''rust_mcp_source_files_upserted_total'', lo_upserted_files r)]"
| "emit_outcome_counters (Docs r) = [(''rust_mcp_docs_pages_written_total'', do_pages_written r)]"
| "emit_outcome_counters (Security r) =
     [(''rust_mcp_security_advisories_written_total'', so_advisories_written r)]"

section \<open>Dispatch by scope\<close>

definition security_offset :: "u32 \<Rightarrow> u32 \<Rightarrow> u32" where
  "security_offset page per_page = saturating_sub page 1 * per_page"

definition run_security :: "worker_env \<Rightarrow> refresh_job_payload \<Rightarrow> refresh_job_outcome result" where
  "run_security env payload =
     (let page = sync_page (pl_page payload); per_page = sync_per_page (pl_per_page payload)
      in case we_security_page env per_page (security_offset page per_page) of
           Inl e \<Rightarrow> Inl (''failed to load crates for security refresh: '' @ e)
         | Inr crates \<Rightarrow>
             (let outcome = we_sync_security env crates
              in if so_errors outcome = [] then Inr (Security outcome)
                 else Inl (join ''; '' (so_errors outcome))))"

definition rustdoc_job_filter :: "int \<Rightarrow> string option \<Rightarrow> bool \<Rightarrow> rustdoc_candidate_filter" where
  "rustdoc_job_filter cooldown crate_name locally_present_only =
     rustdoc_filter_default\<lparr>rf_crate_name := crate_name, rf_locally_present_only := locally_present_only,
       rf_skip_enriched := True, rf_retry_cooldown_seconds := Some cooldown\<rparr>"

definition run_job ::
  "worker_env \<Rightarrow> refresh_job_queue_row \<Rightarrow> refresh_job_payload \<Rightarrow> crate_store \<Rightarrow>
   refresh_job_outcome result \<times> crate_store" where
  "run_job env job payload st =
     (let locally_present_only = unwrap_or (pl_locally_present_only payload) False;
          crate_name = optional_job_crate_name (jq_crate_name job) (pl_crate_name payload)
      in if jq_scope job = ''crate'' \<or> jq_scope job = ''crate_deep_refresh'' \<or> jq_scope job = ''all''
         then we_sync env (SyncSingleCrate (jq_crate_name job) (jq_include_dependencies job)) st
         else if jq_scope job = ''security'' then (run_security env payload, st)
         else if jq_scope job = ''docs''
         then we_sync env (SyncDocsPages crate_name (pl_page payload) (pl_per_page payload)) st
         else if jq_scope job = ''local_cache''
         then we_sync env (SyncLocalSourceCache crate_name None (pl_query payload) (pl_page payload)
                (pl_per_page payload) locally_present_only) st
         else if jq_scope job = ''rustdoc_json''
         then we_sync env (SyncRustdocJsonCache
                (rustdoc_job_filter (we_rustdoc_retry_cooldown_secs env) crate_name locally_present_only)
                (pl_page payload) (pl_per_page payload)) st
         else (Inl (''unsupported refresh scope '' @ [CHR 0x27] @ jq_scope job @ [CHR 0x27] @ '' for crate '' @
                    [CHR 0x27] @ jq_crate_name job @ [CHR 0x27]), st))"

section \<open>Recording the result\<close>

definition is_crate_scope :: "string \<Rightarrow> bool" where
  "is_crate_scope scope \<longleftrightarrow> scope = ''crate'' \<or> scope = ''crate_deep_refresh'' \<or> scope = ''all''"

definition proactive_payload :: json where
  "proactive_payload = JObject [(''trigger'', JString ''proactive_enrich''), (''locally_present_only'', JBool True)]"

definition enqueue_enrichment :: "worker_env \<Rightarrow> string \<Rightarrow> string \<Rightarrow> refresh_queue \<Rightarrow> refresh_queue" where
  "enqueue_enrichment env crate_name scope q =
     (if we_enqueue_fails env scope then q
      else snd (enqueue_or_get_refresh_job_id q (we_now env) crate_name scope PRIORITY_PROACTIVE_ENRICH
             False proactive_payload))"

definition local_versions_of :: "worker_env \<Rightarrow> refresh_job_queue_row \<Rightarrow> refresh_job_payload \<Rightarrow> string list" where
  "local_versions_of env job payload =
     (case pl_local_versions payload of
        Some vs \<Rightarrow> if vs \<noteq> [] then vs else we_local_versions env (jq_crate_name job)
      | None \<Rightarrow> we_local_versions env (jq_crate_name job))"

definition invalidate_job_cache :: "worker_env \<Rightarrow> refresh_job_queue_row \<Rightarrow> query_cache \<Rightarrow> query_cache" where
  "invalidate_job_cache env job c =
     (case optional_job_crate_name (jq_crate_name job) None of
        None \<Rightarrow> c
      | Some name \<Rightarrow> if we_cache_fails env then c else snd (delete_query_cache_for_crate c name))"

definition follow_up :: "worker_env \<Rightarrow> refresh_job_queue_row \<Rightarrow> refresh_job_payload \<Rightarrow> worker_state \<Rightarrow> worker_state" where
  "follow_up env job payload ws =
     (if is_crate_scope (jq_scope job)
      then (let st = (if we_local_fails env then ws_store ws
                      else snd (mark_versions_locally_present (ws_store ws) (jq_crate_name job)
                             (local_versions_of env job payload)));
                q = fold (enqueue_enrichment env (jq_crate_name job)) [''local_cache'', ''rustdoc_json''] (ws_queue ws)
            in ws\<lparr>ws_store := st, ws_queue := q\<rparr>)
      else ws)"

definition job_succeeded ::
  "worker_env \<Rightarrow> refresh_job_queue_row \<Rightarrow> refresh_job_payload \<Rightarrow> refresh_job_outcome \<Rightarrow> worker_state \<Rightarrow> worker_state" where
  "job_succeeded env job payload outcome ws =
     follow_up env job payload
       (ws\<lparr>ws_counters := ws_counters ws @ emit_outcome_counters outcome @
             [(''rust_mcp_refresh_jobs_completed_total'', 1)],
           ws_queue := (if we_mark_fails env then ws_queue ws
                        else mark_refresh_job_finished (ws_queue ws) (we_now env) (jq_id job)),
           ws_co := signal_completion (ws_co ws) (jq_id job) OCompleted,
           ws_cache := invalidate_job_cache env job (ws_cache ws)\<rparr>)"

definition job_failed :: "worker_env \<Rightarrow> refresh_job_queue_row \<Rightarrow> string \<Rightarrow> worker_state \<Rightarrow> worker_state" where
  "job_failed env job error_message ws =
     (let terminal = jq_attempts job \<ge> MAX_ATTEMPTS;
          retry_delay_seconds =
            jittered_retry_delay_seconds (we_now_nanos env) (word_of_nat (jq_id job)) (jq_attempts job)
      in ws\<lparr>ws_queue := (if we_mark_fails env then ws_queue ws
                         else mark_refresh_job_failed_or_requeued (ws_queue ws) (we_now env) (jq_id job)
                                terminal retry_delay_seconds error_message),
            ws_counters := ws_counters ws @ [(''rust_mcp_refresh_jobs_errored_total'', 1)],
            ws_store := (if we_crate_error_fails env then ws_store ws
                         else mark_crate_refresh_error (ws_store ws) (we_now env) (jq_crate_name job) error_message),
            ws_co := signal_completion (ws_co ws) (jq_id job) (OFailed error_message)\<rparr>)"

section \<open>One iteration of the loop\<close>

datatype iteration = DequeueFailed string | Idle bool | Processed refresh_job_queue_row "refresh_job_outcome result"

definition worker_iteration :: "worker_env \<Rightarrow> worker_state \<Rightarrow> iteration \<times> worker_state" where
  "worker_iteration env ws =
     (case we_dequeue_error env of
        Some e \<Rightarrow> (DequeueFailed e, ws)
      | None \<Rightarrow>
          (case claim_next_refresh_job (ws_queue ws) (we_now env) of
             (None, q) \<Rightarrow> (let (woken, co) = notified (ws_co ws) in (Idle woken, ws\<lparr>ws_queue := q, ws_co := co\<rparr>))
           | (Some job, q) \<Rightarrow>
               (let payload = unwrap_or (we_from_value env (jq_payload job)) payload_default;
                    (r, st) = run_job env job payload (ws_store ws);
                    ws' = ws\<lparr>ws_queue := q, ws_store := st\<rparr>
                in (Processed job r,
                    case r of
                      Inr outcome \<Rightarrow> job_succeeded env job payload outcome ws'
                    | Inl error_message \<Rightarrow> job_failed env job error_message ws'))))"

section \<open>The retry delay\<close>

lemma trunc_div_bounds:
  assumes "0 \<le> b" "\<bar>j\<bar> \<le> 15"
  shows "- (15 * b) \<le> 100 * trunc_div (b * j) 100 \<and> 100 * trunc_div (b * j) 100 \<le> 15 * b"
proof -
  have "100 * (\<bar>b * j\<bar> div 100) \<le> \<bar>b * j\<bar>" by simp
  also have "\<dots> \<le> 15 * b" using mult_left_mono [OF assms(2,1)] assms(1) by (simp add: abs_mult)
  finally have "100 * (\<bar>b * j\<bar> div 100) \<le> 15 * b" .
  moreover have "0 \<le> \<bar>b * j\<bar> div 100" by simp
  ultimately show ?thesis by (auto simp: trunc_div_def sgn_if)
qed

lemma retry_delay_cases:
  "\<exists>b t. b = 5 * 2 ^ min (attempts - 1) 5 \<and> jittered_retry_delay_seconds nanos job_id attempts = b + t \<and>
     - (15 * b) \<le> 100 * t \<and> 100 * t \<le> 15 * b \<and> 5 \<le> b \<and> b \<le> 160 \<and> (attempts > 1 \<or> b = 5 \<and> t = 0)"
proof -
  define j where "j = sint (ucast nanos + job_id * 97 :: 64 word) mod 31 - 15"
  have j: "\<bar>j\<bar> \<le> 15" using pos_mod_bound [of 31 "sint (ucast nanos + job_id * 97 :: 64 word)"]
    pos_mod_sign [of 31 "sint (ucast nanos + job_id * 97 :: 64 word)"] unfolding j_def by linarith
  define b :: int where "b = 5 * 2 ^ min (attempts - 1) 5"
  have e: "nat (clamp (int attempts - 1) 0 5) = min (attempts - 1) 5" by (auto simp: clamp_def)
  have "(2::int) ^ min (attempts - 1) 5 \<le> 2 ^ 5" "1 \<le> (2::int) ^ min (attempts - 1) 5"
    by (rule power_increasing, simp_all)
  then have b: "5 \<le> b" "b \<le> 160" by (simp_all add: b_def)
  have t: "- (15 * b) \<le> 100 * trunc_div (b * j) 100" "100 * trunc_div (b * j) 100 \<le> 15 * b"
    using trunc_div_bounds [of b j] b j by auto
  have d: "jittered_retry_delay_seconds nanos job_id attempts = clamp (b + trunc_div (b * j) 100) 1 600"
    unfolding jittered_retry_delay_seconds_def Let_def e j_def [symmetric] b_def [symmetric]
    using b by simp
  have first: "trunc_div (b * j) 100 = 0" if "attempts \<le> 1"
    using that j by (auto simp: b_def trunc_div_def abs_mult)
  have "clamp (b + trunc_div (b * j) 100) 1 600 = b + trunc_div (b * j) 100"
    using t b by (simp add: clamp_def)
  moreover have "b = 5" if "attempts \<le> 1" using that by (simp add: b_def)
  ultimately have "attempts > 1 \<or> b = 5 \<and> trunc_div (b * j) 100 = 0"
    "jittered_retry_delay_seconds nanos job_id attempts = b + trunc_div (b * j) 100"
    using first d by (auto simp: not_less)
  moreover have "b = 5 * 2 ^ min (attempts - 1) 5" by (rule b_def)
  ultimately show ?thesis using t b by blast
qed

lemma retry_delay_range:
  "4 < jittered_retry_delay_seconds nanos job_id attempts \<and> jittered_retry_delay_seconds nanos job_id attempts \<le> 184"
proof -
  obtain b t where "jittered_retry_delay_seconds nanos job_id attempts = b + t"
    "- (15 * b) \<le> 100 * t" "100 * t \<le> 15 * b" "5 \<le> b" "b \<le> 160"
    using retry_delay_cases [of attempts nanos job_id] by blast
  then show ?thesis by simp
qed

text \<open>
  The delay before a retry is the exponential back-off \<open>5 * 2 ^ (attempts - 1)\<close> seconds (the
  exponent capped at 5), off by at most 15 per cent, whatever the job id and the clock wrap to; the
  first retry comes after exactly 5 seconds.
\<close>

theorem retry_delay_bounds:
  "let d = jittered_retry_delay_seconds nanos job_id attempts; b = 5 * 2 ^ min (attempts - 1) 5
   in 85 * b \<le> 100 * d \<and> 100 * d \<le> 115 * b \<and> 4 < d \<and> d \<le> 184 \<and> (attempts > 1 \<or> d = 5)"
proof -
  obtain b t where "b = 5 * 2 ^ min (attempts - 1) 5" "jittered_retry_delay_seconds nanos job_id attempts = b + t"
    "- (15 * b) \<le> 100 * t" "100 * t \<le> 15 * b" "attempts > 1 \<or> b = 5 \<and> t = 0"
    using retry_delay_cases [of attempts nanos job_id] by blast
  then show ?thesis using retry_delay_range [of nanos job_id attempts] unfolding Let_def by auto
qed

section \<open>The worker refines the queue's state machine\<close>

lemma claim_running:
  assumes "claim_next_refresh_job q now = (Some job, q')"
  shows "\<exists>j \<in> set (rq_jobs q'). rj_id j = jq_id job \<and> rj_status j = Running \<and>
    rj_attempts j = jq_attempts job \<and> rj_crate_name j = jq_crate_name job \<and> rj_scope j = jq_scope job"
proof -
  obtain j where j: "j \<in> set (rq_jobs q)" "job = queue_row (mark_running now j)"
    "q' = update_job (rj_id j) (mark_running now) q" using claim_cases [OF assms] by auto
  then have "mark_running now j \<in> set (rq_jobs q')" by (force simp: update_job_jobs)
  then show ?thesis
    by (rule rev_bexI) (simp add: j(2) queue_row_def)
qed

lemma enqueue_enrichment_reachable:
  "queue_reachable q \<Longrightarrow> queue_reachable (enqueue_enrichment env c s q)"
  unfolding enqueue_enrichment_def
  by (auto intro: queue_reachable.step queue_step.enqueue [OF prod.collapse [symmetric]])

lemma follow_up_reachable:
  "queue_reachable (ws_queue ws) \<Longrightarrow> queue_reachable (ws_queue (follow_up env job payload ws))"
  by (simp add: follow_up_def Let_def enqueue_enrichment_reachable)

lemma worker_queue_reachable:
  assumes "queue_reachable (ws_queue ws)"
  shows "queue_reachable (ws_queue (snd (worker_iteration env ws)))"
proof (cases "we_dequeue_error env")
  case None
  obtain r q where claim: "claim_next_refresh_job (ws_queue ws) (we_now env) = (r, q)" by fastforce
  have q: "queue_reachable q" by (rule queue_reachable.step [OF assms queue_step.claim [OF claim]])
  show ?thesis
  proof (cases r)
    case None
    with \<open>we_dequeue_error env = None\<close> claim q show ?thesis
      by (simp add: worker_iteration_def notified_def)
  next
    case (Some job)
    obtain j where j: "j \<in> set (rq_jobs q)" "rj_status j = Running" "rj_id j = jq_id job"
      "rj_attempts j = jq_attempts job" using claim_running claim Some by blast
    have "queue_reachable (mark_refresh_job_finished q (we_now env) (jq_id job))"
      using queue_step.finish [OF j(1,2)] j(3) q by (metis queue_reachable.step)
    moreover have "queue_reachable (mark_refresh_job_failed_or_requeued q (we_now env) (jq_id job)
        (MAX_ATTEMPTS \<le> jq_attempts job) d e)" for d e
      using queue_step.fail [OF j(1,2)] j(3,4) q by (metis queue_reachable.step)
    ultimately show ?thesis
      using \<open>we_dequeue_error env = None\<close> claim Some q
      by (auto simp: worker_iteration_def job_succeeded_def job_failed_def Let_def
          intro!: follow_up_reachable split: prod.split sum.split)
  qed
qed (use assms in \<open>simp add: worker_iteration_def\<close>)


section \<open>What an iteration records\<close>

lemma enqueue_enrichment_keeps:
  "j \<in> set (rq_jobs q) \<Longrightarrow> j \<in> set (rq_jobs (enqueue_enrichment env c s q))"
  using enqueue_snd [of q c s "we_now env" PRIORITY_PROACTIVE_ENRICH False proactive_payload]
  by (auto simp: enqueue_enrichment_def)

lemma enqueue_enrichment_active:
  assumes "\<not> we_enqueue_fails env s"
  shows "\<exists>j \<in> set (rq_jobs (enqueue_enrichment env c s q)). is_active j \<and> job_key j = (to_ascii_lowercase c, s)"
  using enqueue_snd [of q c s "we_now env" PRIORITY_PROACTIVE_ENRICH False proactive_payload] assms select_active_Some [of q c s]
  by (auto simp: enqueue_enrichment_def)

lemma follow_up_keeps:
  "j \<in> set (rq_jobs (ws_queue ws)) \<Longrightarrow> j \<in> set (rq_jobs (ws_queue (follow_up env job payload ws)))"
  by (simp add: follow_up_def Let_def enqueue_enrichment_keeps)

lemma follow_up_active:
  assumes "is_crate_scope (jq_scope job)" "\<And>s. \<not> we_enqueue_fails env s" "s = ''local_cache'' \<or> s = ''rustdoc_json''"
  shows "\<exists>j \<in> set (rq_jobs (ws_queue (follow_up env job payload ws))).
    is_active j \<and> job_key j = (to_ascii_lowercase (jq_crate_name job), s)"
proof -
  let ?e = "enqueue_enrichment env (jq_crate_name job)"
  obtain j where "j \<in> set (rq_jobs (?e ''local_cache'' (ws_queue ws)))" "is_active j"
    "job_key j = (to_ascii_lowercase (jq_crate_name job), ''local_cache'')"
    using enqueue_enrichment_active assms(2) by blast
  moreover from this enqueue_enrichment_keeps
  have "j \<in> set (rq_jobs (?e ''rustdoc_json'' (?e ''local_cache'' (ws_queue ws))))" by blast
  moreover obtain k where "k \<in> set (rq_jobs (?e ''rustdoc_json'' (?e ''local_cache'' (ws_queue ws))))" "is_active k"
    "job_key k = (to_ascii_lowercase (jq_crate_name job), ''rustdoc_json'')"
    using enqueue_enrichment_active assms(2) by blast
  ultimately show ?thesis using assms(1,3) by (auto simp: follow_up_def Let_def)
qed

lemma follow_up_co [simp]: "ws_co (follow_up env job payload ws) = ws_co ws"
  by (simp add: follow_up_def Let_def)

lemma signal_removes: "co_waiters (signal_completion co j out) j = None"
  by (auto simp: signal_completion_def split: option.split)

definition row_records :: "worker_env \<Rightarrow> refresh_job_queue_row \<Rightarrow> refresh_job_outcome result \<Rightarrow> refresh_job \<Rightarrow> bool" where
  "row_records env job r j \<longleftrightarrow> rj_id j = jq_id job \<and> rj_attempts j = jq_attempts job \<and>
     (case r of
        Inr _ \<Rightarrow> rj_status j = Finished \<and> rj_last_error j = None
      | Inl e \<Rightarrow> rj_last_error j = Some e \<and>
          (if jq_attempts job \<ge> MAX_ATTEMPTS then rj_status j = Failed
           else rj_status j = Pending \<and> we_now env + 4 < rj_requested_at j \<and>
                rj_requested_at j \<le> we_now env + 184))"

lemma mark_finished_row:
  "j \<in> set (rq_jobs q) \<Longrightarrow> rj_id j = jq_id job \<Longrightarrow> rj_attempts j = jq_attempts job \<Longrightarrow>
   \<exists>k \<in> set (rq_jobs (mark_refresh_job_finished q (we_now env) (jq_id job))). row_records env job (Inr out) k"
  unfolding mark_refresh_job_finished_def update_job_jobs row_records_def
  by (intro bexI [of _ "j\<lparr>rj_status := Finished, rj_finished_at := Some (we_now env), rj_last_error := None\<rparr>"])
    (auto simp: image_iff)

lemma mark_failed_row:
  assumes "j \<in> set (rq_jobs q)" "rj_id j = jq_id job" "rj_attempts j = jq_attempts job"
  shows "\<exists>k \<in> set (rq_jobs (mark_refresh_job_failed_or_requeued q (we_now env) (jq_id job)
      (MAX_ATTEMPTS \<le> jq_attempts job)
      (jittered_retry_delay_seconds (we_now_nanos env) (word_of_nat (jq_id job)) (jq_attempts job)) e)).
    row_records env job (Inl e) k"
proof -
  define d where "d = jittered_retry_delay_seconds (we_now_nanos env) (word_of_nat (jq_id job)) (jq_attempts job)"
  have d: "4 < d" "d \<le> 184"
    using retry_delay_range [of "we_now_nanos env" "word_of_nat (jq_id job)" "jq_attempts job"]
    by (simp_all add: d_def)
  show ?thesis
    unfolding mark_refresh_job_failed_or_requeued_def update_job_jobs row_records_def d_def [symmetric]
    using assms d
    by (intro bexI [of _ "j\<lparr>rj_status := (if MAX_ATTEMPTS \<le> jq_attempts job then Failed else Pending),
          rj_requested_at := (if MAX_ATTEMPTS \<le> jq_attempts job then rj_requested_at j else we_now env + d),
          rj_finished_at := (if MAX_ATTEMPTS \<le> jq_attempts job then Some (we_now env) else None),
          rj_last_error := Some e\<rparr>"])
      (auto simp: image_iff)
qed

text \<open>
  (C5) When the worker processes a job (and its bookkeeping statements go through), the job's row
  records the result: finished on success; on an error failed when the attempts are used up, else
  pending again and due within the retry delay, with the error kept.  The handlers waiting for the
  job are released, and a successful crate job leaves active source and rustdoc enrichment jobs for
  the crate.
\<close>

theorem worker_records_result:
  assumes "worker_iteration env ws = (Processed job r, ws')"
    and "\<not> we_mark_fails env" and "we_enqueue_fails env = (\<lambda>_. False)"
  shows "(\<exists>j. j \<in> set (rq_jobs (ws_queue ws')) \<and> row_records env job r j) \<and>
    co_waiters (ws_co ws') (jq_id job) = None \<and>
    (\<not> isl r \<and> is_crate_scope (jq_scope job) \<longrightarrow>
      list_all (\<lambda>s. \<exists>j. j \<in> set (rq_jobs (ws_queue ws')) \<and> is_active j \<and>
          job_key j = (to_ascii_lowercase (jq_crate_name job), s)) [''local_cache'', ''rustdoc_json''])"
proof -
  obtain q payload st where claim: "claim_next_refresh_job (ws_queue ws) (we_now env) = (Some job, q)"
    and r: "run_job env job payload (ws_store ws) = (r, st)"
    and ws': "ws' = (case r of Inr outcome \<Rightarrow> job_succeeded env job payload outcome (ws\<lparr>ws_queue := q, ws_store := st\<rparr>)
                    | Inl e \<Rightarrow> job_failed env job e (ws\<lparr>ws_queue := q, ws_store := st\<rparr>))"
    using assms(1) by (auto simp: worker_iteration_def Let_def split: option.splits prod.splits)
  obtain j where j: "j \<in> set (rq_jobs q)" "rj_id j = jq_id job" "rj_attempts j = jq_attempts job"
    using claim_running [OF claim] by blast
  show ?thesis
  proof (cases r)
    case (Inl e)
    then show ?thesis
      using mark_failed_row [OF j] assms(2) ws' by (auto simp: job_failed_def Let_def signal_removes)
  next
    case (Inr out)
    then have eq: "ws' = job_succeeded env job payload out (ws\<lparr>ws_queue := q, ws_store := st\<rparr>)" using ws' by simp
    have "\<exists>k \<in> set (rq_jobs (ws_queue ws')). row_records env job r k"
    proof -
      obtain k where "k \<in> set (rq_jobs (mark_refresh_job_finished q (we_now env) (jq_id job)))" "row_records env job r k"
        using mark_finished_row [OF j, of env out] Inr by blast
      then show ?thesis
        using assms(2) unfolding eq job_succeeded_def by (intro bexI [of _ k] follow_up_keeps) auto
    qed
    moreover have "\<exists>k \<in> set (rq_jobs (ws_queue ws')). is_active k \<and> job_key k = (to_ascii_lowercase (jq_crate_name job), s)"
      if "is_crate_scope (jq_scope job)" "s = ''local_cache'' \<or> s = ''rustdoc_json''" for s
      unfolding eq job_succeeded_def using that assms(3) by (intro follow_up_active) auto
    moreover have "co_waiters (ws_co ws') (jq_id job) = None"
      unfolding eq job_succeeded_def by (simp add: signal_removes)
    ultimately show ?thesis using Inr by auto
  qed
qed

section \<open>A concrete worker\<close>

definition sample_env :: worker_env where
  "sample_env =
     \<lparr>we_now = 100, we_now_nanos = 0, we_dequeue_error = None, we_from_value = (\<lambda>_. None),
      we_sync = (\<lambda>_ st. (Inr (CrateSync \<lparr>sc_versions_synced = 2, sc_dependencies_synced = 3,
                           sc_selected_version = None\<rparr>), st)),
      we_security_page = (\<lambda>_ _. Inr []),
      we_sync_security = (\<lambda>_. \<lparr>so_crates_processed = 0, so_advisories_written = 0, so_errors = [],
                           so_touched_crates = [], so_checked_crate_ids = []\<rparr>),
      we_rustdoc_retry_cooldown_secs = 86400, we_local_versions = (\<lambda>_. []), we_mark_fails = False,
      we_cache_fails = False, we_local_fails = False, we_crate_error_fails = False,
      we_enqueue_fails = (\<lambda>_. False)\<rparr>"

definition sample_worker :: worker_state where
  "sample_worker =
     \<lparr>ws_queue = snd (enqueue_or_get_refresh_job_id empty_queue 0 ''serde'' ''crate'' 1 False JNull),
      ws_co = new_coordinator, ws_store = \<lparr>st_crates = [], st_versions = []\<rparr>,
      ws_cache = \<lparr>qc_entries = [], qc_events = []\<rparr>, ws_counters = []\<rparr>"

lemma sample_worker_reachable: "queue_reachable (ws_queue sample_worker)"
  unfolding sample_worker_def
  by (simp, rule queue_reachable.step [OF queue_reachable.init queue_step.enqueue [OF prod.collapse [symmetric]]])


lemma sample_worker_processes:
  "\<exists>job r ws'. worker_iteration sample_env sample_worker = (Processed job (Inr r), ws') \<and> jq_scope job = ''crate''"
  by (simp add: worker_iteration_def sample_env_def sample_worker_def claim_next_refresh_job_def
      enqueue_or_get_refresh_job_id_def select_active_def insert_job_def empty_queue_def new_job_def
      runnable_def run_job_def queue_row_def mark_running_def)

theorem worker_records_result_witness:
  "\<exists>j. j \<in> set (rq_jobs (ws_queue (snd (worker_iteration sample_env sample_worker)))) \<and> is_active j \<and>
     job_key j = (to_ascii_lowercase (jq_crate_name (case fst (worker_iteration sample_env sample_worker)
        of Processed job _ \<Rightarrow> job)), ''rustdoc_json'')"
proof -
  obtain job r ws' where w: "worker_iteration sample_env sample_worker = (Processed job (Inr r), ws')"
    "jq_scope job = ''crate''" using sample_worker_processes by blast
  have "\<not> we_mark_fails sample_env" "we_enqueue_fails sample_env = (\<lambda>_. False)" by (simp_all add: sample_env_def)
  from worker_records_result [OF w(1) this] w(2) show ?thesis
    by (simp add: w(1) is_crate_scope_def)
qed

end
