(* ===== verification/Freshness.thy ===== *)
theory Freshness
  imports Worker
begin

text \<open>
  The freshness policy of an interaction (\<open>mcp/indexing/freshness.rs\<close>) and the crate and version
  look-ups every crate tool starts with (\<open>mcp/queries.rs\<close>).  \<open>fresh_env\<close> holds the clock, the answer
  of crates.io, the inline synchronisation, the database statements that fail and, for each wait on
  the coordinator, the polls the handler sees and the state in which the wait returns.
\<close>

section \<open>State and environment\<close>

datatype db_call =
    DueCheck | CadenceQuery | RecencyQuery | ProbePersist | UnchangedPersist | ChangedPersist
  | EnqueueRefresh | EnqueueOnDemand | ExistenceCheck | CrateLookup | LatestLookup | LatestRelookup
  | VersionLookup | VersionLookupAfter | SourceCheck | RustdocCheck

record server_state =
  sv_store :: crate_store
  sv_queue :: refresh_queue
  sv_co :: indexing_coordinator

record fresh_env =
  fe_now :: int
  fe_db_error :: "db_call \<Rightarrow> string option"
  fe_crate_detail :: "string \<Rightarrow> string option result"
  fe_sync_single_crate :: "string \<Rightarrow> bool \<Rightarrow> crate_store \<Rightarrow> unit result \<times> crate_store"
  fe_polls :: "indexing_coordinator list"
  fe_after_wait :: "server_state \<Rightarrow> server_state"
  fe_receiver :: nat
  fe_has_source_files :: "nat \<Rightarrow> bool"
  fe_has_rustdoc_symbols :: "nat \<Rightarrow> bool"
  fe_source_on_disk :: "string \<Rightarrow> string \<Rightarrow> bool"
  fe_download_source :: "string \<Rightarrow> string \<Rightarrow> string result"
  fe_origin_fails :: bool

record interaction_refresh_outcome =
  io_freshness_check_performed :: bool
  io_freshness_check_result :: string
  io_refresh_enqueued :: bool
  io_refresh_job_id :: "string option"

definition io_outcome :: "bool \<Rightarrow> string \<Rightarrow> interaction_refresh_outcome" where
  "io_outcome performed r = \<lparr>io_freshness_check_performed = performed, io_freshness_check_result = r,
     io_refresh_enqueued = False, io_refresh_job_id = None\<rparr>"

section \<open>The freshness policy\<close>

definition ttl_hint_seconds :: "int option \<Rightarrow> int \<Rightarrow> int \<times> string" where
  "ttl_hint_seconds days_since_latest_release releases_last_year =
     (let ttl =
        (if releases_last_year \<ge> 24 \<or> unwrap_or days_since_latest_release 0 < 30
         then (6 * 60 * 60, ''high_activity'')
         else if releases_last_year \<ge> 6 \<or> unwrap_or days_since_latest_release 365 < 180
         then (2 * 24 * 60 * 60, ''moderate_activity'')
         else if unwrap_or days_since_latest_release 0 > 365 * 5
         then (60 * 24 * 60 * 60, ''long_stable'')
         else (14 * 24 * 60 * 60, ''default''))
      in (clamp (fst ttl) (60 * 60) (90 * 24 * 60 * 60), snd ttl))"

definition row_not_found :: string where
  "row_not_found = ''no rows returned by a query that expected to return at least one row''"

definition enqueue_refresh_job ::
  "fresh_env \<Rightarrow> refresh_queue \<Rightarrow> string \<Rightarrow> string \<Rightarrow> int \<Rightarrow> bool \<Rightarrow> json \<Rightarrow> string result \<times> refresh_queue" where
  "enqueue_refresh_job env q crate_name scope priority include_dependencies payload =
     (case fe_db_error env EnqueueRefresh of
        Some e \<Rightarrow> (Inl (''failed to enqueue refresh job for '' @ crate_name @ '': '' @ e), q)
      | None \<Rightarrow>
          (let (out, q') = enqueue_or_get_refresh_job_id q (fe_now env) crate_name scope priority
                             include_dependencies payload
           in (Inr (''refresh-job-'' @ show_nat (eo_job_id out)), q')))"

definition trigger_payload :: "string \<Rightarrow> json" where
  "trigger_payload t = JObject [(''trigger'', JString t)]"

definition refresh_changed ::
  "fresh_env \<Rightarrow> nat \<Rightarrow> string \<Rightarrow> int \<Rightarrow> server_state \<Rightarrow> interaction_refresh_outcome result \<times> server_state" where
  "refresh_changed env crate_id crate_name ttl_seconds sv =
     (case fe_sync_single_crate env crate_name False (sv_store sv) of
        (Inl e, st) \<Rightarrow> (Inl (''inline minimal refresh failed for '' @ crate_name @ '': '' @ e), sv\<lparr>sv_store := st\<rparr>)
      | (Inr _, st) \<Rightarrow>
          (case enqueue_refresh_job env (sv_queue sv) crate_name ''crate_deep_refresh'' PRIORITY_FRESHNESS
                  True (trigger_payload ''ttl_expired_changed'') of
             (Inl e, q) \<Rightarrow> (Inl e, sv\<lparr>sv_store := st, sv_queue := q\<rparr>)
           | (Inr job, q) \<Rightarrow>
               (case fe_db_error env ChangedPersist of
                  Some e \<Rightarrow> (Inl (''failed to persist changed freshness for '' @ crate_name @ '': '' @ e),
                             sv\<lparr>sv_store := st, sv_queue := q\<rparr>)
                | None \<Rightarrow>
                    (Inr \<lparr>io_freshness_check_performed = True, io_freshness_check_result = ''changed'',
                          io_refresh_enqueued = True, io_refresh_job_id = Some job\<rparr>,
                     sv\<lparr>sv_store := mark_crate_freshness_checked st (fe_now env) crate_id ttl_seconds ''changed_inline'',
                        sv_queue := q\<rparr>))))"

definition probe_crate ::
  "fresh_env \<Rightarrow> nat \<Rightarrow> string \<Rightarrow> string \<Rightarrow> int \<times> string \<Rightarrow> server_state \<Rightarrow>
   interaction_refresh_outcome result \<times> server_state" where
  "probe_crate env crate_id crate_name local_latest_version ttl sv =
     (case fe_crate_detail env crate_name of
        Inl e \<Rightarrow>
          (case fe_db_error env ProbePersist of
             Some d \<Rightarrow> (Inl (''failed to persist probe failure for '' @ crate_name @ '': '' @ d), sv)
           | None \<Rightarrow> (Inr (io_outcome True ''failed''),
                      sv\<lparr>sv_store := mark_crate_probe_failed (sv_store sv) (fe_now env) crate_id e\<rparr>))
      | Inr max_version \<Rightarrow>
          (let remote_latest = unwrap_or max_version []
           in if remote_latest \<noteq> [] \<and> remote_latest \<noteq> local_latest_version
              then refresh_changed env crate_id crate_name (fst ttl) sv
              else (case fe_db_error env UnchangedPersist of
                  Some d \<Rightarrow> (Inl (''failed to persist unchanged freshness for '' @ crate_name @ '': '' @ d), sv)
                | None \<Rightarrow> (Inr (io_outcome True ''unchanged''),
                           sv\<lparr>sv_store := mark_crate_freshness_checked (sv_store sv) (fe_now env) crate_id
                                (fst ttl) (snd ttl)\<rparr>))))"

definition ensure_freshness_for_interaction ::
  "fresh_env \<Rightarrow> nat \<Rightarrow> string \<Rightarrow> string \<Rightarrow> server_state \<Rightarrow> interaction_refresh_outcome result \<times> server_state" where
  "ensure_freshness_for_interaction env crate_id crate_name local_latest_version sv =
     (case (fe_db_error env DueCheck, is_crate_refresh_due (sv_store sv) (fe_now env) crate_id) of
        (Some e, _) \<Rightarrow> (Inl (''failed to evaluate freshness deadline for '' @ crate_name @ '': '' @ e), sv)
      | (None, None) \<Rightarrow>
          (Inl (''failed to evaluate freshness deadline for '' @ crate_name @ '': '' @ row_not_found), sv)
      | (None, Some False) \<Rightarrow> (Inr (io_outcome False ''skipped''), sv)
      | (None, Some True) \<Rightarrow>
          (case (fe_db_error env CadenceQuery, fe_db_error env RecencyQuery) of
             (Some e, _) \<Rightarrow> (Inl (''failed to compute release cadence for '' @ crate_name @ '': '' @ e), sv)
           | (None, Some e) \<Rightarrow> (Inl (''failed to compute recency for '' @ crate_name @ '': '' @ e), sv)
           | (None, None) \<Rightarrow>
               probe_crate env crate_id crate_name local_latest_version
                 (ttl_hint_seconds (days_since_latest_crate_release (sv_store sv) (fe_now env) crate_id)
                    (count_crate_releases_last_year (sv_store sv) (fe_now env) crate_id)) sv))"

section \<open>On-demand waits\<close>

definition await_job :: "fresh_env \<Rightarrow> nat \<Rightarrow> server_state \<Rightarrow> job_outcome result \<times> server_state" where
  "await_job env job_id sv = (wait_for_job (sv_co sv) job_id (fe_receiver env) (fe_polls env), fe_after_wait env sv)"

definition on_demand ::
  "fresh_env \<Rightarrow> string \<Rightarrow> string \<Rightarrow> server_state \<Rightarrow> (string + job_outcome result) \<times> server_state" where
  "on_demand env crate_name scope sv =
     (case enqueue_on_demand (fe_db_error env EnqueueOnDemand) (sv_co sv) (sv_queue sv) (fe_now env) crate_name scope of
        (Inl e, co, q) \<Rightarrow> (Inl e, sv\<lparr>sv_co := co, sv_queue := q\<rparr>)
      | (Inr job_id, co, q) \<Rightarrow>
          (let (r, sv') = await_job env job_id (sv\<lparr>sv_co := co, sv_queue := q\<rparr>) in (Inr r, sv')))"

definition backfill_missing_requested_version ::
  "fresh_env \<Rightarrow> string \<Rightarrow> server_state \<Rightarrow> string option result \<times> server_state" where
  "backfill_missing_requested_version env crate_name sv =
     (case on_demand env crate_name ''crate'' sv of
        (Inl e, sv') \<Rightarrow> (Inl e, sv')
      | (Inr (Inl timeout_msg), sv') \<Rightarrow> (Inl timeout_msg, sv')
      | (Inr (Inr (OFailed msg)), sv') \<Rightarrow>
          (Inl (''on-demand version backfill failed for '' @ [CHR 0x27] @ crate_name @ [CHR 0x27] @ '': '' @ msg), sv')
      | (Inr (Inr OPending), sv') \<Rightarrow>
          (Inl (''unexpected pending state after version backfill for '' @ [CHR 0x27] @ crate_name @ [CHR 0x27]), sv')
      | (Inr (Inr OCompleted), sv') \<Rightarrow>
          (case enqueue_refresh_job env (sv_queue sv') crate_name ''crate_deep_refresh'' PRIORITY_BACKFILL
                  True (trigger_payload ''missing_requested_version'') of
             (Inl e, q) \<Rightarrow> (Inl e, sv'\<lparr>sv_queue := q\<rparr>)
           | (Inr job, q) \<Rightarrow> (Inr (Some job), sv'\<lparr>sv_queue := q\<rparr>)))"

section \<open>Crate and version look-ups\<close>

record crate_context =
  cx_crate_row :: crate_core_row
  cx_latest_version :: crate_version_selection_row
  cx_freshness_outcome :: interaction_refresh_outcome

record version_resolution =
  vs_selected_version :: crate_version_selection_row
  vs_refresh_enqueued :: bool
  vs_refresh_job_id :: "string option"

definition ensure_crate_indexed :: "fresh_env \<Rightarrow> string \<Rightarrow> server_state \<Rightarrow> unit result \<times> server_state" where
  "ensure_crate_indexed env crate_name sv =
     (case fe_db_error env ExistenceCheck of
        Some e \<Rightarrow> (Inl (''crate existence check failed for '' @ crate_name @ '': '' @ e), sv)
      | None \<Rightarrow>
          if fetch_crate_core_by_name (sv_store sv) crate_name \<noteq> None then (Inr (), sv)
          else (case on_demand env crate_name ''crate'' sv of
              (Inl e, sv') \<Rightarrow> (Inl e, sv')
            | (Inr (Inl timeout_msg), sv') \<Rightarrow> (Inl timeout_msg, sv')
            | (Inr (Inr OCompleted), sv') \<Rightarrow> (Inr (), sv')
            | (Inr (Inr (OFailed msg)), sv') \<Rightarrow>
                (Inl (''on-demand indexing failed for '' @ [CHR 0x27] @ crate_name @ [CHR 0x27] @ '': '' @ msg), sv')
            | (Inr (Inr OPending), sv') \<Rightarrow>
                (Inl (''unexpected pending state after waiting for on-demand indexing of '' @ [CHR 0x27] @
                      crate_name @ [CHR 0x27]), sv')))"

definition no_versions_message :: "string \<Rightarrow> string" where
  "no_versions_message name =
     ''crate '' @ [CHR 0x27] @ name @ [CHR 0x27] @ '' has no indexed versions yet; run index_crates first''"

definition lookup_crate :: "fresh_env \<Rightarrow> string \<Rightarrow> crate_store \<Rightarrow> crate_core_row result" where
  "lookup_crate env crate_name st =
     (case fe_db_error env CrateLookup of
        Some e \<Rightarrow> Inl (''crate lookup failed for '' @ crate_name @ '': '' @ e)
      | None \<Rightarrow>
          (case fetch_crate_core_by_name st crate_name of
             None \<Rightarrow> Inl (''crate '' @ [CHR 0x27] @ crate_name @ [CHR 0x27] @
                         '' could not be indexed; it may not exist on crates.io'')
           | Some c \<Rightarrow> Inr c))"

definition lookup_latest ::
  "string option \<Rightarrow> string \<Rightarrow> string \<Rightarrow> crate_core_row \<Rightarrow> crate_store \<Rightarrow> crate_version_selection_row result" where
  "lookup_latest db_error what crate_name crate_row st =
     (case db_error of
        Some e \<Rightarrow> Inl (''latest version '' @ what @ '' failed for '' @ crate_name @ '': '' @ e)
      | None \<Rightarrow>
          (case fetch_latest_crate_version st (cc_id crate_row) of
             None \<Rightarrow> Inl (no_versions_message (cc_name crate_row))
           | Some v \<Rightarrow> Inr v))"

definition fetch_crate_context :: "fresh_env \<Rightarrow> string \<Rightarrow> server_state \<Rightarrow> crate_context result \<times> server_state" where
  "fetch_crate_context env crate_name sv =
     (case ensure_crate_indexed env crate_name sv of
        (Inl e, sv1) \<Rightarrow> (Inl e, sv1)
      | (Inr _, sv1) \<Rightarrow>
          (case lookup_crate env crate_name (sv_store sv1) of
             Inl e \<Rightarrow> (Inl e, sv1)
           | Inr crate_row \<Rightarrow>
               (case lookup_latest (fe_db_error env LatestLookup) ''lookup'' crate_name crate_row (sv_store sv1) of
                  Inl e \<Rightarrow> (Inl e, sv1)
                | Inr latest \<Rightarrow>
                    (case ensure_freshness_for_interaction env (cc_id crate_row) (cc_name crate_row)
                            (cv_version latest) sv1 of
                       (Inl e, sv2) \<Rightarrow> (Inl e, sv2)
                     | (Inr fresh, sv2) \<Rightarrow>
                         (case (if io_freshness_check_result fresh = ''changed''
                                then lookup_latest (fe_db_error env LatestRelookup) ''relookup'' crate_name
                                       crate_row (sv_store sv2)
                                else Inr latest) of
                            Inl e \<Rightarrow> (Inl e, sv2)
                          | Inr latest' \<Rightarrow>
                              (Inr \<lparr>cx_crate_row = crate_row, cx_latest_version = latest',
                                    cx_freshness_outcome = fresh\<rparr>, sv2))))))"

definition at_name :: "string \<Rightarrow> string \<Rightarrow> string" where
  "at_name name version = name @ ''@'' @ version"

definition resolve_version_or_latest ::
  "fresh_env \<Rightarrow> crate_context \<Rightarrow> string option \<Rightarrow> server_state \<Rightarrow> version_resolution result \<times> server_state" where
  "resolve_version_or_latest env ctx requested_version sv =
     (let name = cc_name (cx_crate_row ctx); i = cc_id (cx_crate_row ctx);
          fresh = cx_freshness_outcome ctx;
          resolved = (\<lambda>v enqueued job. \<lparr>vs_selected_version = v, vs_refresh_enqueued = enqueued,
                        vs_refresh_job_id = job\<rparr>)
      in case requested_version of
           None \<Rightarrow> (Inr (resolved (cx_latest_version ctx) (io_refresh_enqueued fresh) (io_refresh_job_id fresh)), sv)
         | Some version \<Rightarrow>
             (case fe_db_error env VersionLookup of
                Some e \<Rightarrow> (Inl (''selected version lookup failed for '' @ at_name name version @ '': '' @ e), sv)
              | None \<Rightarrow>
                  (case fetch_crate_version_by_name (sv_store sv) i version of
                     Some v \<Rightarrow> (Inr (resolved v (io_refresh_enqueued fresh) (io_refresh_job_id fresh)), sv)
                   | None \<Rightarrow>
                       (case backfill_missing_requested_version env name sv of
                          (Inl e, sv') \<Rightarrow> (Inl e, sv')
                        | (Inr queued, sv') \<Rightarrow>
                            (let enqueued = (if queued \<noteq> None then True else io_refresh_enqueued fresh);
                                 job = (if queued \<noteq> None then queued else io_refresh_job_id fresh)
                             in case fe_db_error env VersionLookupAfter of
                                  Some e \<Rightarrow> (Inl (''selected version lookup failed after backfill for '' @
                                                 at_name name version @ '': '' @ e), sv')
                                | None \<Rightarrow>
                                    (case fetch_crate_version_by_name (sv_store sv') i version of
                                       Some v \<Rightarrow> (Inr (resolved v enqueued job), sv')
                                     | None \<Rightarrow> (Inl (''version '' @ [CHR 0x27] @ version @ [CHR 0x27] @ '' for crate '' @
                                                [CHR 0x27] @ name @ [CHR 0x27] @
                                                '' is not indexed locally (refresh attempted)''), sv')))))))"

definition ensure_source_on_disk :: "fresh_env \<Rightarrow> string \<Rightarrow> string \<Rightarrow> nat \<Rightarrow> server_state \<Rightarrow> unit result \<times> server_state" where
  "ensure_source_on_disk env crate_name version crate_version_id sv =
     (if fe_source_on_disk env crate_name version then (Inr (), sv)
      else (case fe_download_source env crate_name version of
          Inl _ \<Rightarrow> (Inr (), sv)
        | Inr _ \<Rightarrow>
            (Inr (), if fe_origin_fails env then sv
                     else sv\<lparr>sv_store := set_source_origin (sv_store sv) crate_version_id 2\<rparr>)))"

definition best_effort :: "fresh_env \<Rightarrow> string \<Rightarrow> string \<Rightarrow> server_state \<Rightarrow> unit result \<times> server_state" where
  "best_effort env crate_name scope sv =
     (case on_demand env crate_name scope sv of
        (Inl e, sv') \<Rightarrow> (Inl e, sv')
      | (Inr _, sv') \<Rightarrow> (Inr (), sv'))"

definition ensure_source_indexed ::
  "fresh_env \<Rightarrow> string \<Rightarrow> string \<Rightarrow> nat \<Rightarrow> server_state \<Rightarrow> unit result \<times> server_state" where
  "ensure_source_indexed env crate_name version crate_version_id sv =
     (case fe_db_error env SourceCheck of
        Some e \<Rightarrow> (Inl (''source file existence check failed for '' @ crate_name @ '': '' @ e), sv)
      | None \<Rightarrow>
          if fe_has_source_files env crate_version_id then (Inr (), sv)
          else (case ensure_source_on_disk env crate_name version crate_version_id sv of
              (Inl e, sv') \<Rightarrow> (Inl e, sv')
            | (Inr _, sv') \<Rightarrow> best_effort env crate_name ''local_cache'' sv'))"

definition ensure_rustdoc_indexed :: "fresh_env \<Rightarrow> string \<Rightarrow> nat \<Rightarrow> server_state \<Rightarrow> unit result \<times> server_state" where
  "ensure_rustdoc_indexed env crate_name crate_version_id sv =
     (case fe_db_error env RustdocCheck of
        Some e \<Rightarrow> (Inl (''rustdoc symbol existence check failed for '' @ crate_name @ '': '' @ e), sv)
      | None \<Rightarrow>
          if fe_has_rustdoc_symbols env crate_version_id then (Inr (), sv)
          else best_effort env crate_name ''rustdoc_json'' sv)"

section \<open>Properties of the freshness policy\<close>

lemma ttl_hint_range: "21600 \<le> fst (ttl_hint_seconds d r) \<and> fst (ttl_hint_seconds d r) \<le> 60 * DAY"
  by (auto simp: ttl_hint_seconds_def clamp_def DAY_def)

text \<open>
  The lifetime of a freshness check is between six hours and sixty days and follows activity: a
  crate that releases at least as often and at least as recently is checked at least as often.
\<close>

theorem ttl_hint_monotone:
  assumes "r \<le> r'" and "d' \<le> d"
  shows "fst (ttl_hint_seconds (Some d') r') \<le> fst (ttl_hint_seconds (Some d) r) \<and>
    6 * 3600 \<le> fst (ttl_hint_seconds (Some d') r') \<and> fst (ttl_hint_seconds (Some d) r) \<le> 60 * DAY"
  using assms ttl_hint_range [of "Some d'" r'] ttl_hint_range [of "Some d" r]
  by (auto simp: ttl_hint_seconds_def clamp_def Let_def)

theorem ttl_hint_monotone_witness:
  "fst (ttl_hint_seconds (Some 10) 30) \<le> fst (ttl_hint_seconds (Some 2000) 0) \<and>
   ttl_hint_seconds (Some 2000) 0 = (5184000, ''long_stable'')"
  using ttl_hint_monotone [of 0 30 10 2000] by (simp add: ttl_hint_seconds_def clamp_def)

lemma find_update:
  "(\<And>c. cc_id (f c) = cc_id c) \<Longrightarrow>
   find (\<lambda>c. cc_id c = i) (map (\<lambda>c. if cc_id c = i then f c else c) cs) = map_option f (find (\<lambda>c. cc_id c = i) cs)"
  by (induction cs) auto

definition has_crate :: "crate_store \<Rightarrow> nat \<Rightarrow> bool" where
  "has_crate st i \<longleftrightarrow> list_ex (\<lambda>c. cc_id c = i) (st_crates st)"

lemma has_crate_find: "has_crate st i \<longleftrightarrow> find (\<lambda>c. cc_id c = i) (st_crates st) \<noteq> None"
  by (auto simp: has_crate_def find_None_iff list_ex_iff)

lemma due_after_checked:
  "has_crate st i \<Longrightarrow> is_crate_refresh_due (mark_crate_freshness_checked st now i ttl reason) t i = Some (now + ttl \<le> t)"
  by (auto simp: is_crate_refresh_due_def mark_crate_freshness_checked_def update_crate_def find_update
      has_crate_find)

lemma due_after_probe_failed:
  "has_crate st i \<Longrightarrow> is_crate_refresh_due (mark_crate_probe_failed st now i e) t i = Some (now + 3600 \<le> t)"
  by (auto simp: is_crate_refresh_due_def mark_crate_probe_failed_def update_crate_def find_update has_crate_find)

definition sync_keeps_crates :: "fresh_env \<Rightarrow> bool" where
  "sync_keeps_crates env \<longleftrightarrow>
     (\<forall>n d st i. has_crate st i \<longrightarrow> has_crate (snd (fe_sync_single_crate env n d st)) i)"

lemma refresh_changed_due:
  assumes "refresh_changed env i n ttl sv = (Inr out, sv')" "has_crate (sv_store sv) i" "sync_keeps_crates env"
  shows "is_crate_refresh_due (sv_store sv') t i = Some (fe_now env + ttl \<le> t)"
proof -
  obtain u st where st: "fe_sync_single_crate env n False (sv_store sv) = (Inr u, st)"
    "sv_store sv' = mark_crate_freshness_checked st (fe_now env) i ttl ''changed_inline''"
    using assms(1) by (auto simp: refresh_changed_def split: prod.splits sum.splits option.splits)
  have "has_crate st i" using assms(2,3) st(1) unfolding sync_keeps_crates_def by (metis snd_conv)
  then show ?thesis by (simp add: st(2) due_after_checked)
qed

lemma freshness_next_check:
  assumes "ensure_freshness_for_interaction env i n v sv = (Inr out, sv')" "sync_keeps_crates env"
    and "io_freshness_check_performed out"
  shows "\<exists>ttl. 3600 \<le> ttl \<and> ttl \<le> 60 * DAY \<and>
    (\<forall>t. is_crate_refresh_due (sv_store sv') t i = Some (fe_now env + ttl \<le> t))"
proof -
  define ttl where "ttl = ttl_hint_seconds (days_since_latest_crate_release (sv_store sv) (fe_now env) i)
    (count_crate_releases_last_year (sv_store sv) (fe_now env) i)"
  have range: "3600 \<le> fst ttl" "fst ttl \<le> 60 * DAY" 
    using ttl_hint_range [of "days_since_latest_crate_release (sv_store sv) (fe_now env) i"
        "count_crate_releases_last_year (sv_store sv) (fe_now env) i"] by (auto simp: ttl_def)
  have due: "is_crate_refresh_due (sv_store sv) (fe_now env) i = Some True"
    and p: "probe_crate env i n v ttl sv = (Inr out, sv')"
    using assms(1,3) unfolding ensure_freshness_for_interaction_def ttl_def
    by (auto simp: io_outcome_def split: option.splits bool.splits prod.splits)
  have row: "has_crate (sv_store sv) i" using due by (auto simp: is_crate_refresh_due_def has_crate_find)
  show ?thesis
  proof (cases "fe_crate_detail env n")
    case (Inl e)
    then have "sv_store sv' = mark_crate_probe_failed (sv_store sv) (fe_now env) i e"
      using p by (auto simp: probe_crate_def split: option.splits)
    then show ?thesis
      using due_after_probe_failed [OF row] by (intro exI [of _ 3600]) (simp add: DAY_def)
  next
    case (Inr mv)
    show ?thesis
    proof (cases "unwrap_or mv [] \<noteq> [] \<and> unwrap_or mv [] \<noteq> v")
      case True
      with p Inr have "refresh_changed env i n (fst ttl) sv = (Inr out, sv')" by (simp add: probe_crate_def Let_def)
      from refresh_changed_due [OF this row assms(2)] range show ?thesis by blast
    next
      case False
      then have "sv_store sv' = mark_crate_freshness_checked (sv_store sv) (fe_now env) i (fst ttl) (snd ttl)"
        using p Inr unfolding probe_crate_def Let_def by (simp split: option.splits if_splits) auto
      then show ?thesis using due_after_checked [OF row] range by auto
    qed
  qed
qed

text \<open>
  (C40) After a freshness check that was performed (whatever crates.io answered), the crate is not
  checked again for at least an hour: a further interaction in that time is skipped and changes
  nothing; and it is due again within sixty days.
\<close>

theorem freshness_check_rate_limited:
  assumes "ensure_freshness_for_interaction env i n v sv = (Inr out, sv')" and "sync_keeps_crates env"
    and "io_freshness_check_performed out"
    and "fe_now env' < fe_now env + 3600" and "fe_db_error env' DueCheck = None"
  shows "ensure_freshness_for_interaction env' i n' v' sv' = (Inr (io_outcome False ''skipped''), sv') \<and>
         is_crate_refresh_due (sv_store sv') (fe_now env + 60 * DAY) i = Some True"
proof -
  obtain ttl where "3600 \<le> ttl" "ttl \<le> 60 * DAY"
    "\<And>t. is_crate_refresh_due (sv_store sv') t i = Some (fe_now env + ttl \<le> t)"
    using freshness_next_check [OF assms(1-3)] by blast
  then show ?thesis using assms(4,5) by (auto simp: ensure_freshness_for_interaction_def)
qed

definition sample_crate :: crate_row where
  "sample_crate = \<lparr>cc_id = 1, cc_name = ''Serde'', cc_description = None, cc_repository_url = None,
     cc_docs_url = None, cc_homepage_url = None, cc_categories = [], cc_keywords = [], cc_updated_at = 0,
     cr_last_checked_at = None, cr_next_check_at = None, cr_ttl_hint_seconds = 86400, cr_ttl_reason = None,
     cr_last_refresh_error = None\<rparr>"

definition sample_version :: version_row where
  "sample_version = \<lparr>cv_id = 10, cv_version = ''1.0.0'', cv_rust_version = None, cv_published_at = Some 0,
     cv_readme = None, vr_crate_id = 1, vr_yanked = False, vr_total_downloads = 0,
     vr_locally_present = True, vr_source_origin = 1, vr_rustdoc_enriched_at = None,
     vr_rustdoc_last_attempt_at = None, vr_checksum = None,
     vr_license_expression = None, vr_dependencies_synced_at = None\<rparr>"

definition sample_server :: server_state where
  "sample_server = \<lparr>sv_store = \<lparr>st_crates = [sample_crate], st_versions = [sample_version]\<rparr>,
     sv_queue = empty_queue, sv_co = new_coordinator\<rparr>"

definition sample_fresh_env :: "string \<Rightarrow> int \<Rightarrow> fresh_env" where
  "sample_fresh_env remote now =
     \<lparr>fe_now = now, fe_db_error = (\<lambda>_. None), fe_crate_detail = (\<lambda>_. Inr (Some remote)),
      fe_sync_single_crate = (\<lambda>_ _ st. (Inr (), st)), fe_polls = [], fe_after_wait = id, fe_receiver = 0,
      fe_has_source_files = (\<lambda>_. False), fe_has_rustdoc_symbols = (\<lambda>_. False),
      fe_source_on_disk = (\<lambda>_ _. False), fe_download_source = (\<lambda>_ _. Inl ''offline''), fe_origin_fails = False\<rparr>"

lemma sample_probe:
  "\<exists>out sv'. ensure_freshness_for_interaction (sample_fresh_env ''1.0.0'' 1000) 1 ''Serde'' ''1.0.0'' sample_server =
     (Inr out, sv') \<and> io_freshness_check_performed out"
  by (simp add: ensure_freshness_for_interaction_def probe_crate_def sample_fresh_env_def sample_server_def
      is_crate_refresh_due_def sample_crate_def io_outcome_def)

theorem freshness_check_rate_limited_witness:
  "\<exists>sv'. ensure_freshness_for_interaction (sample_fresh_env ''2.0.0'' 4000) 1 ''Serde'' ''1.0.0'' sv' =
     (Inr (io_outcome False ''skipped''), sv')"
proof -
  obtain out sv' where w: "ensure_freshness_for_interaction (sample_fresh_env ''1.0.0'' 1000) 1 ''Serde'' ''1.0.0''
      sample_server = (Inr out, sv')" "io_freshness_check_performed out" using sample_probe by blast
  have "sync_keeps_crates (sample_fresh_env ''1.0.0'' 1000)" by (simp add: sync_keeps_crates_def sample_fresh_env_def)
  from freshness_check_rate_limited [OF w(1) this w(2), of "sample_fresh_env ''2.0.0'' 4000" "''Serde''" "''1.0.0''"]
  show ?thesis by (auto simp: sample_fresh_env_def)
qed

section \<open>Properties of the look-ups\<close>

lemma version_by_name_row:
  assumes "fetch_crate_version_by_name st i x = Some v"
  shows "cv_version v = x \<and> (\<exists>r \<in> set (st_versions st). vr_crate_id r = i \<and> v = crate_version_selection_row.truncate r)"
  using assms unfolding fetch_crate_version_by_name_def by (auto dest!: find_SomeD)

text \<open>
  Resolving a version returns what was asked for: without a request the context's latest version
  and no effect; with one, a row of that crate with exactly that version, and either nothing was
  changed or the missing version was backfilled and the deep refresh job is reported.
\<close>

theorem resolve_version_exact:
  assumes "resolve_version_or_latest env ctx req sv = (Inr res, sv')"
  shows "case req of
      None \<Rightarrow> vs_selected_version res = cx_latest_version ctx \<and> sv' = sv
    | Some x \<Rightarrow> cv_version (vs_selected_version res) = x \<and>
        (\<exists>r. r \<in> set (st_versions (sv_store sv')) \<and> vr_crate_id r = cc_id (cx_crate_row ctx) \<and>
             vs_selected_version res = crate_version_selection_row.truncate r) \<and>
        (sv' = sv \<or> fetch_crate_version_by_name (sv_store sv) (cc_id (cx_crate_row ctx)) x = None \<and>
           vs_refresh_enqueued res \<and> vs_refresh_job_id res \<noteq> None)"
proof (cases req)
  case None
  with assms show ?thesis by (auto simp: resolve_version_or_latest_def Let_def)
next
  case (Some x)
  let ?i = "cc_id (cx_crate_row ctx)"
  show ?thesis
  proof (cases "fetch_crate_version_by_name (sv_store sv) ?i x")
    case (Some v)
    with assms \<open>req = Some x\<close> have "sv' = sv" "vs_selected_version res = v"
      by (auto simp: resolve_version_or_latest_def Let_def split: option.splits)
    with version_by_name_row [OF Some] \<open>req = Some x\<close> show ?thesis by auto
  next
    case None
    with assms \<open>req = Some x\<close> obtain queued v
      where b: "backfill_missing_requested_version env (cc_name (cx_crate_row ctx)) sv = (Inr queued, sv')"
        and v: "fetch_crate_version_by_name (sv_store sv') ?i x = Some v" "vs_selected_version res = v"
        and e: "queued \<noteq> None \<longrightarrow> vs_refresh_enqueued res \<and> vs_refresh_job_id res = queued"
      by (auto simp: resolve_version_or_latest_def Let_def split: option.splits sum.splits prod.splits)
    have "queued \<noteq> None"
      using b by (auto simp: backfill_missing_requested_version_def
          split: prod.splits sum.splits job_outcome.splits)
    with version_by_name_row [OF v(1)] v(2) e None \<open>req = Some x\<close> show ?thesis by auto
  qed
qed

definition sample_context :: crate_context where
  "sample_context = \<lparr>cx_crate_row = crate_core_row.truncate sample_crate,
     cx_latest_version = crate_version_selection_row.truncate sample_version,
     cx_freshness_outcome = io_outcome False ''skipped''\<rparr>"

theorem resolve_version_exact_witness:
  "case resolve_version_or_latest (sample_fresh_env ''1.0.0'' 0) sample_context (Some ''1.0.0'') sample_server of
     (Inr res, sv') \<Rightarrow> cv_version (vs_selected_version res) = ''1.0.0''
   | _ \<Rightarrow> False"
proof -
  obtain res where w: "resolve_version_or_latest (sample_fresh_env ''1.0.0'' 0) sample_context (Some ''1.0.0'')
      sample_server = (Inr res, sample_server)"
    by (simp add: resolve_version_or_latest_def Let_def sample_fresh_env_def sample_context_def sample_server_def
        fetch_crate_version_by_name_def sample_version_def crate_core_row.truncate_def sample_crate_def)
  with resolve_version_exact [OF w] show ?thesis by simp
qed

lemma enqueue_refresh_job_active:
  assumes "enqueue_refresh_job env q n s p d pl = (Inr job, q')"
  shows "\<exists>j. j \<in> set (rq_jobs q') \<and> is_active j \<and> job_key j = (to_ascii_lowercase n, s) \<and>
    job = ''refresh-job-'' @ show_nat (rj_id j)"
proof -
  obtain out where e: "enqueue_or_get_refresh_job_id q (fe_now env) n s p d pl = (out, q')"
    "job = ''refresh-job-'' @ show_nat (eo_job_id out)"
    using assms by (auto simp: enqueue_refresh_job_def split: option.splits prod.splits)
  from enqueue_cases [OF e(1)] show ?thesis
    using select_active_Some [of q n s] e(2) by fastforce
qed

lemma freshness_changed:
  assumes "ensure_freshness_for_interaction env i n v sv = (Inr out, sv')"
  shows "if io_freshness_check_result out = ''changed''
    then io_refresh_enqueued out \<and> (\<exists>j. j \<in> set (rq_jobs (sv_queue sv')) \<and> is_active j \<and>
        job_key j = (to_ascii_lowercase n, ''crate_deep_refresh'') \<and>
        io_refresh_job_id out = Some (''refresh-job-'' @ show_nat (rj_id j)))
    else \<not> io_refresh_enqueued out \<and> sv_queue sv' = sv_queue sv"
proof -
  consider (plain) "io_freshness_check_result out \<noteq> ''changed''" "\<not> io_refresh_enqueued out" "sv_queue sv' = sv_queue sv"
    | (changed) ttl where "refresh_changed env i n ttl sv = (Inr out, sv')"
    using assms
    by (auto simp: ensure_freshness_for_interaction_def probe_crate_def io_outcome_def Let_def
        split: option.splits bool.splits sum.splits if_splits)
  then show ?thesis
  proof cases
    case changed
    then obtain job q where "enqueue_refresh_job env (sv_queue sv) n ''crate_deep_refresh'' PRIORITY_FRESHNESS True
        (trigger_payload ''ttl_expired_changed'') = (Inr job, q)" "sv_queue sv' = q"
      "out = \<lparr>io_freshness_check_performed = True, io_freshness_check_result = ''changed'',
              io_refresh_enqueued = True, io_refresh_job_id = Some job\<rparr>"
      by (auto simp: refresh_changed_def split: prod.splits sum.splits option.splits)
    with enqueue_refresh_job_active show ?thesis by fastforce
  qed simp
qed

lemma lookup_latest_row:
  "lookup_latest e w n c st = Inr v \<Longrightarrow> fetch_latest_crate_version st (cc_id c) = Some v"
  by (auto simp: lookup_latest_def split: option.splits)

lemma sample_context_changed:
  "case fetch_crate_context (sample_fresh_env ''2.0.0'' 1000) ''sErDe'' sample_server of
     (Inr ctx, _) \<Rightarrow> io_freshness_check_result (cx_freshness_outcome ctx) = ''changed''
   | _ \<Rightarrow> False"
  by code_simp

text \<open>
  A crate context is about the crate that was asked for, found without regard to case; its
  latest version is a newest version of that crate in the store; and when the freshness check saw a
  change, the latest version is read again after the inline refresh and the reported deep refresh
  job is active.
\<close>

theorem crate_context_correct:
  assumes "fetch_crate_context env crate_name sv = (Inr ctx, sv')"
  shows "to_ascii_lowercase (cc_name (cx_crate_row ctx)) = to_ascii_lowercase crate_name \<and>
    (\<exists>sv1. ensure_crate_indexed env crate_name sv = (Inr (), sv1) \<and>
       fetch_crate_core_by_name (sv_store sv1) crate_name = Some (cx_crate_row ctx) \<and>
       (if io_freshness_check_result (cx_freshness_outcome ctx) = ''changed''
        then fetch_latest_crate_version (sv_store sv') (cc_id (cx_crate_row ctx)) = Some (cx_latest_version ctx) \<and>
          (\<exists>j. j \<in> set (rq_jobs (sv_queue sv')) \<and> is_active j \<and>
             job_key j = (to_ascii_lowercase crate_name, ''crate_deep_refresh'') \<and>
             io_refresh_job_id (cx_freshness_outcome ctx) = Some (''refresh-job-'' @ show_nat (rj_id j)))
        else fetch_latest_crate_version (sv_store sv1) (cc_id (cx_crate_row ctx)) = Some (cx_latest_version ctx) \<and>
          sv_queue sv' = sv_queue sv1))"
proof -
  obtain sv1 c latest fresh where s1: "ensure_crate_indexed env crate_name sv = (Inr (), sv1)"
    and c: "lookup_crate env crate_name (sv_store sv1) = Inr c"
    and l: "lookup_latest (fe_db_error env LatestLookup) ''lookup'' crate_name c (sv_store sv1) = Inr latest"
    and f: "ensure_freshness_for_interaction env (cc_id c) (cc_name c) (cv_version latest) sv1 = (Inr fresh, sv')"
    and ctx: "cx_crate_row ctx = c" "cx_freshness_outcome ctx = fresh"
      "(if io_freshness_check_result fresh = ''changed''
        then lookup_latest (fe_db_error env LatestRelookup) ''relookup'' crate_name c (sv_store sv')
        else Inr latest) = Inr (cx_latest_version ctx)"
    using assms unfolding fetch_crate_context_def by (auto split: prod.splits sum.splits)
  have row: "fetch_crate_core_by_name (sv_store sv1) crate_name = Some c"
    using c by (auto simp: lookup_crate_def split: option.splits)
  then have name: "to_ascii_lowercase (cc_name c) = to_ascii_lowercase crate_name"
    by (auto simp: fetch_crate_core_by_name_def name_lower_def crate_core_row.truncate_def dest!: find_SomeD)
  show ?thesis
    using s1 row name ctx freshness_changed [OF f] lookup_latest_row [OF l]
    by (cases "io_freshness_check_result fresh = ''changed''") (auto dest: lookup_latest_row)
qed

theorem crate_context_correct_witness:
  "case fetch_crate_context (sample_fresh_env ''2.0.0'' 1000) ''sErDe'' sample_server of
     (Inr ctx, sv') \<Rightarrow> to_ascii_lowercase (cc_name (cx_crate_row ctx)) = ''serde'' \<and>
        io_freshness_check_result (cx_freshness_outcome ctx) = ''changed''
   | _ \<Rightarrow> False"
proof -
  obtain ctx sv' where w: "fetch_crate_context (sample_fresh_env ''2.0.0'' 1000) ''sErDe'' sample_server = (Inr ctx, sv')"
    "io_freshness_check_result (cx_freshness_outcome ctx) = ''changed''"
    using sample_context_changed by (auto split: prod.splits sum.splits)
  have "to_ascii_lowercase ''sErDe'' = ''serde''" by code_simp
  with crate_context_correct [OF w(1)] w show ?thesis by simp
qed

text \<open>
  The documentation of \<open>ensure_source_indexed\<close> says that failures do not propagate; a failing
  existence check or enqueue does, and only the job's own failure or time-out is swallowed.
\<close>

theorem source_indexing_errors_propagate:
  "case ensure_source_indexed env n v i sv of
     (Inl _, _) \<Rightarrow> (\<exists>e. fe_db_error env SourceCheck = Some e) \<or> (\<exists>e. fe_db_error env EnqueueOnDemand = Some e)
   | (Inr _, _) \<Rightarrow> fe_db_error env SourceCheck = None \<and>
       (fe_has_source_files env i \<or> fe_db_error env EnqueueOnDemand = None)"
  by (auto simp: ensure_source_indexed_def best_effort_def on_demand_def enqueue_on_demand_def
      ensure_source_on_disk_def Let_def split: option.splits prod.splits sum.splits)

end
