(* ===== verification/Pagination.thy ===== *)
theory Pagination
  imports Limits
begin

text \<open>
  Cursor pagination of \<open>mcp/utils.rs\<close>.  A tool's cursor token is serialised by \<open>serde_json\<close> and
  the \<open>base64\<close> crate; both are arguments of the model (\<open>codec\<close>), and what the code relies on is
  the hypothesis \<open>lossless\<close>.  The \<open>CursorToken\<close> trait is the record \<open>cursor_ops\<close>; the locale
  \<open>cursor_token\<close> is the contract between a tool's token type and the pagination helpers.
\<close>

section \<open>Tokens and their codec\<close>

record 't codec =
  to_vec :: "'t \<Rightarrow> string result"
  from_slice :: "string \<Rightarrow> 't result"
  b64_encode :: "string \<Rightarrow> string"
  b64_decode :: "string \<Rightarrow> string result"

record 't cursor_ops =
  version :: "'t \<Rightarrow> 8 word"
  limit :: "'t \<Rightarrow> u32"
  offset :: "'t \<Rightarrow> u32"

definition lossless :: "'t codec \<Rightarrow> bool" where
  "lossless cd \<longleftrightarrow>
     (\<forall>t. \<exists>bs. to_vec cd t = Inr bs \<and> from_slice cd bs = Inr t) \<and>
     (\<forall>bs. b64_decode cd (b64_encode cd bs) = Inr bs)"

definition decode_cursor :: "'t codec \<Rightarrow> 't cursor_ops \<Rightarrow> string \<Rightarrow> 't result" where
  "decode_cursor cd ops token =
     (case b64_decode cd token of
        Inl e \<Rightarrow> Inl (''cursor is invalid (base64 decode failed: '' @ e @ '')'')
      | Inr bytes \<Rightarrow>
          (case from_slice cd bytes of
             Inl e \<Rightarrow> Inl (''cursor is invalid (deserialization failed: '' @ e @ '')'')
           | Inr decoded \<Rightarrow>
               if version ops decoded \<noteq> 1 then Inl ''cursor version is not supported''
               else if limit ops decoded = 0 then Inl ''cursor is invalid''
               else Inr decoded))"

definition encode_cursor :: "'t codec \<Rightarrow> 't \<Rightarrow> string result" where
  "encode_cursor cd token =
     (case to_vec cd token of
        Inl e \<Rightarrow> Inl (''cursor serialization failed: '' @ e)
      | Inr bytes \<Rightarrow> Inr (b64_encode cd bytes))"

lemma decode_cursor_valid:
  "decode_cursor cd ops s = Inr t \<Longrightarrow> version ops t = 1 \<and> limit ops t \<noteq> 0"
  by (auto simp: decode_cursor_def split: sum.splits if_splits)

lemma encode_decode:
  assumes "lossless cd" "version ops t = 1" "limit ops t \<noteq> 0"
  shows "\<exists>s. encode_cursor cd t = Inr s \<and> decode_cursor cd ops s = Inr t"
proof -
  obtain bs where b: "to_vec cd t = Inr bs" "from_slice cd bs = Inr t"
    using assms(1) unfolding lossless_def by blast
  have "b64_decode cd (b64_encode cd bs) = Inr bs"
    using assms(1) by (simp add: lossless_def)
  with b assms(2,3) show ?thesis by (auto simp: encode_cursor_def decode_cursor_def)
qed

section \<open>Resolving a page\<close>

record pagination_params =
  pp_offset :: u32
  pp_limit :: u32
  pp_effective_page :: u32

text \<open>
  The product in the page branch is \<open>u32\<close> arithmetic: it wraps in a release build, which is the
  build modelled here (a debug build panics instead).
\<close>

definition resolve_pagination ::
  "'t cursor_ops \<Rightarrow> 't option \<Rightarrow> bool \<Rightarrow> u32 \<Rightarrow> u32 \<Rightarrow> pagination_params result" where
  "resolve_pagination ops cursor_token explicit_limit_provided requested_limit page =
     (case cursor_token of
        Some token \<Rightarrow>
          if explicit_limit_provided \<and> requested_limit \<noteq> limit ops token
          then Inl ''limit must match the cursor page size''
          else Inr \<lparr>pp_offset = offset ops token, pp_limit = limit ops token,
                    pp_effective_page = saturating_add (offset ops token div limit ops token) 1\<rparr>
      | None \<Rightarrow>
          Inr \<lparr>pp_offset = (page - 1) * requested_limit, pp_limit = requested_limit,
               pp_effective_page = page\<rparr>)"

definition page_offset_fits :: "u32 \<Rightarrow> u32 \<Rightarrow> bool" where
  "page_offset_fits page lim \<longleftrightarrow> page \<noteq> 0 \<and> (unat page - 1) * unat lim < 2 ^ 32"

text \<open>
  A page request starts at row \<open>(page - 1) * limit\<close> as long as that number fits in 32 bits.
\<close>

theorem resolve_pagination_page:
  assumes "page_offset_fits page lim"
  shows "\<exists>p. resolve_pagination ops None expl lim page = Inr p \<and>
           unat (pp_offset p) = (unat page - 1) * unat lim \<and> pp_limit p = lim \<and>
           pp_effective_page p = page"
proof -
  have "unat (page - 1) = unat page - 1"
    using assms by (simp add: page_offset_fits_def unat_minus_one)
  then have "unat ((page - 1) * lim) = (unat page - 1) * unat lim"
    using assms by (simp add: page_offset_fits_def unat_word_ariths)
  then show ?thesis by (simp add: resolve_pagination_def)
qed

theorem resolve_pagination_page_witness:
  "page_offset_fits 3 25 \<and>
   (\<exists>p. resolve_pagination (undefined :: unit cursor_ops) None False 25 3 = Inr p \<and>
      unat (pp_offset p) = 50 \<and> pp_limit p = 25 \<and> pp_effective_page p = 3)"
proof -
  have f: "page_offset_fits 3 25" by (simp add: page_offset_fits_def)
  show ?thesis
    using f resolve_pagination_page [OF f, of "undefined :: unit cursor_ops" False] by simp
qed

text \<open>
  Past that bound the offset wraps: page 42949674 of size 100, a page number that
  \<open>sync_page\<close> accepts, is served from row 4 while the response still calls it page 42949674.
\<close>

theorem resolve_pagination_wraps:
  "sync_page (Some 42949674) = 42949674 \<and>
   resolve_pagination ops None expl 100 42949674 =
     Inr \<lparr>pp_offset = 4, pp_limit = 100, pp_effective_page = 42949674\<rparr>"
  by (simp add: sync_page_def resolve_pagination_def)

section \<open>Cutting a page\<close>

record 'a paginated_result =
  items :: "'a list"
  has_more :: bool
  next_cursor :: "string option"

definition apply_pagination_limit ::
  "'t codec \<Rightarrow> 'a list \<Rightarrow> u32 \<Rightarrow> u32 \<Rightarrow> (u32 \<Rightarrow> 't) \<Rightarrow> 'a paginated_result result" where
  "apply_pagination_limit cd its lim off build_next_token =
     (let more = unat lim < length its;
          kept = (if more then take (unat lim) its else its) in
      if more then
        (case encode_cursor cd (build_next_token (saturating_add off lim)) of
           Inl e \<Rightarrow> Inl e
         | Inr c \<Rightarrow> Inr \<lparr>items = kept, has_more = more, next_cursor = Some c\<rparr>)
      else Inr \<lparr>items = kept, has_more = more, next_cursor = None\<rparr>)"

lemma apply_pagination_limit_Inr:
  assumes "apply_pagination_limit cd its lim off b = Inr r"
  shows "items r = take (unat lim) its" "has_more r \<longleftrightarrow> unat lim < length its"
    "next_cursor r \<noteq> None \<longleftrightarrow> has_more r" "length (items r) \<le> unat lim"
  using assms by (auto simp: apply_pagination_limit_def Let_def split: if_splits sum.splits)

text \<open>
  A client that follows \<open>next_cursor\<close>: every call fetches one row more than the page size from
  the current offset (as the handlers do), cuts the page, and decodes the returned cursor for the
  next call.  The first argument bounds the number of calls.
\<close>

fun follow_cursors ::
  "nat \<Rightarrow> 't codec \<Rightarrow> 't cursor_ops \<Rightarrow> (u32 \<Rightarrow> u32 \<Rightarrow> 't) \<Rightarrow> 'a list \<Rightarrow> u32 \<Rightarrow> u32 \<Rightarrow> 'a list list result"
where
  "follow_cursors 0 cd ops mk rows lim off = Inl ''call budget exhausted''"
| "follow_cursors (Suc n) cd ops mk rows lim off =
     res_bind (apply_pagination_limit cd
                 (take (unat (saturating_add lim 1)) (drop (unat off) rows)) lim off (mk lim))
       (\<lambda>r. case next_cursor r of
              None \<Rightarrow> Inr [items r]
            | Some c \<Rightarrow>
                res_bind (decode_cursor cd ops c) (\<lambda>tok.
                res_bind (resolve_pagination ops (Some tok) False lim 1) (\<lambda>p.
                res_bind (follow_cursors n cd ops mk rows (pp_limit p) (pp_offset p)) (\<lambda>rest.
                  Inr (items r # rest)))))"

locale cursor_token =
  fixes ops :: "'t cursor_ops" and mk :: "u32 \<Rightarrow> u32 \<Rightarrow> 't"
  assumes mk_version: "version ops (mk l n) = 1"
    and mk_limit: "limit ops (mk l n) = l"
    and mk_offset: "offset ops (mk l n) = n"
begin

lemma token_round_trip:
  assumes "lossless cd" "l \<noteq> 0"
  shows "\<exists>s. encode_cursor cd (mk l n) = Inr s \<and> decode_cursor cd ops s = Inr (mk l n) \<and>
           resolve_pagination ops (Some (mk l n)) False lim 1 =
             Inr \<lparr>pp_offset = n, pp_limit = l, pp_effective_page = saturating_add (n div l) 1\<rparr>"
  using encode_decode [of cd ops "mk l n"] assms
  by (auto simp: mk_version mk_limit mk_offset resolve_pagination_def)

lemma follow_step_last:
  assumes "length rows \<le> unat off + unat l" "unat l < 2 ^ 32 - 1"
  shows "follow_cursors (Suc n) cd ops mk rows l off = Inr [drop (unat off) rows]"
proof -
  have "unat (saturating_add l 1) = Suc (unat l)" using assms(2) by (simp add: unat_saturating_add)
  moreover have "\<not> unat l < length rows - unat off" using assms(1) by simp
  ultimately show ?thesis by (simp add: apply_pagination_limit_def Let_def)
qed

lemma follow_step_more:
  assumes "lossless cd" "l \<noteq> 0" "unat off + unat l < length rows" "length rows < 2 ^ 32"
  shows "follow_cursors (Suc n) cd ops mk rows l off =
           res_bind (follow_cursors n cd ops mk rows l (off + l))
             (\<lambda>rest. Inr (take (unat l) (drop (unat off) rows) # rest))"
proof -
  have s: "saturating_add off l = off + l"
    using assms(3,4) by (simp add: saturating_add_def)
  have s1: "unat (saturating_add l 1) = Suc (unat l)"
    using assms(3,4) by (subst unat_saturating_add) simp
  obtain c where c: "encode_cursor cd (mk l (off + l)) = Inr c"
    "decode_cursor cd ops c = Inr (mk l (off + l))"
    "resolve_pagination ops (Some (mk l (off + l))) False l 1 =
       Inr \<lparr>pp_offset = off + l, pp_limit = l,
            pp_effective_page = saturating_add ((off + l) div l) 1\<rparr>"
    using token_round_trip [OF assms(1,2), of "off + l" l] by blast
  have "unat l < length rows - unat off" using assms(3) by linarith
  then have "apply_pagination_limit cd (take (Suc (unat l)) (drop (unat off) rows)) l off (mk l) =
      Inr \<lparr>items = take (unat l) (drop (unat off) rows), has_more = True, next_cursor = Some c\<rparr>"
    using c s by (simp add: apply_pagination_limit_def Let_def min_def)
  with c s s1 show ?thesis by simp
qed

text \<open>Enough calls always reach the end, and the pages are the rows, in order, without overlap.\<close>

lemma follow_complete:
  assumes "lossless cd" "l \<noteq> 0" "unat l < 2 ^ 32 - 1" "length rows < 2 ^ 32"
    and "unat off \<le> length rows" "length rows - unat off < n"
  shows "\<exists>pages. follow_cursors n cd ops mk rows l off = Inr pages \<and>
           concat pages = drop (unat off) rows \<and> (\<forall>p \<in> set pages. length p \<le> unat l)"
  using assms(5,6)
proof (induction n arbitrary: off)
  case (Suc n)
  show ?case
  proof (cases "unat off + unat l < length rows")
    case True
    have u: "unat (off + l) = unat off + unat l"
      using True assms(4) by (simp add: unat_word_ariths)
    moreover have "0 < unat l" using assms(2) by (simp add: unat_gt_0)
    moreover from this have "length rows - (unat off + unat l) < n"
      using Suc.prems(2) True by linarith
    ultimately obtain pages where p: "follow_cursors n cd ops mk rows l (off + l) = Inr pages"
      "concat pages = drop (unat off + unat l) rows" "\<forall>p \<in> set pages. length p \<le> unat l"
      using Suc.IH [of "off + l"] Suc.prems True by auto
    have "take (unat l) (drop (unat off) rows) @ drop (unat off + unat l) rows = drop (unat off) rows"
      by (metis append_take_drop_id drop_drop add.commute)
    with p show ?thesis using follow_step_more [OF assms(1,2) True assms(4), of n] by auto
  next
    case False
    then show ?thesis using follow_step_last [of rows off l n cd] assms(3) by auto
  qed
qed simp

end

end
