(* ===== verification/Advisories.thy ===== *)
theory Advisories
  imports Collections Text_Utils Semver
begin

text \<open>
  \<open>mcp/advisories.rs\<close>: whether a stored advisory affects a crate version.

  The definitions take the \<open>semver\<close> and \<open>rustsec\<close> crates as their argument \<open>sv\<close> (theory
  \<open>Semver\<close>).
\<close>

section \<open>Rows and verdicts\<close>

datatype applicability = Affected | NotAffected | Unknown

fun applicability_as_str :: "applicability \<Rightarrow> string" where
  "applicability_as_str Affected = ''affected''"
| "applicability_as_str NotAffected = ''not_affected''"
| "applicability_as_str Unknown = ''unknown''"

record crate_advisory_row =
  car_crate_id :: int
  car_requires_resync :: bool
  car_version_id :: "int option"
  car_advisory_id :: string
  car_title :: string
  car_severity :: "string option"
  car_url :: "string option"
  car_affected_range :: string
  car_fixed_versions :: json
  car_source :: string
  car_details :: "string option"
  car_affected_functions :: "string list"
  car_cwe_ids :: "string list"

record version_advisory =
  va_applicability :: applicability
  va_row :: crate_advisory_row

definition is_withdrawn :: "string \<Rightarrow> bool" where
  "is_withdrawn affected_range = list_ex (starts_with ''withdrawn='') (split_on ''; '' affected_range)"

definition parse_semver_for_matching :: "('v, 'r) semver_api \<Rightarrow> string \<Rightarrow> 'v option" where
  "parse_semver_for_matching sv v =
     map_option (clear_build sv) (version_parse sv (unwrap_or (strip_prefix ''v'' v) v))"

section \<open>OSV ranges\<close>

datatype osv_event = Introduced | Fixed | LastAffected

text \<open>The derived \<open>Ord\<close> of \<open>OsvEvent\<close> is the declaration order.\<close>

fun osv_rank :: "osv_event \<Rightarrow> nat" where
  "osv_rank Introduced = 0"
| "osv_rank Fixed = 1"
| "osv_rank LastAffected = 2"

lemma osv_rank_inj: "osv_rank a = osv_rank b \<longleftrightarrow> a = b"
  by (cases a; cases b) auto

instantiation osv_event :: linorder
begin

definition less_eq_osv_event :: "osv_event \<Rightarrow> osv_event \<Rightarrow> bool" where
  "less_eq_osv_event a b \<longleftrightarrow> osv_rank a \<le> osv_rank b"

definition less_osv_event :: "osv_event \<Rightarrow> osv_event \<Rightarrow> bool" where
  "less_osv_event a b \<longleftrightarrow> osv_rank a < osv_rank b"

instance
  by standard (auto simp: less_eq_osv_event_def less_osv_event_def osv_rank_inj)

end

record 'v osv_range =
  osv_events :: "('v option \<times> osv_event) list"
  osv_limits :: "'v option list"

fun osv_kind :: "string \<Rightarrow> osv_event option" where
  "osv_kind k =
     (if k = ''introduced'' then Some Introduced
      else if k = ''fixed'' then Some Fixed
      else if k = ''last_affected'' then Some LastAffected
      else None)"

text \<open>One iteration of the parsing loop; \<open>None\<close> is the early return of the \<open>?\<close> operator.\<close>

definition parse_osv_event ::
  "('v, 'r) semver_api \<Rightarrow> string \<Rightarrow> 'v osv_range \<Rightarrow> 'v osv_range option" where
  "parse_osv_event sv event rng =
     (case split_once ''='' (trim event) of
        None \<Rightarrow> None
      | Some (kind, val) \<Rightarrow>
          if kind = ''limit'' then
            (if contains ''*'' val then Some (rng\<lparr>osv_limits := osv_limits rng @ [None]\<rparr>)
             else (case parse_semver_for_matching sv val of
                     None \<Rightarrow> None
                   | Some b \<Rightarrow> Some (rng\<lparr>osv_limits := osv_limits rng @ [Some b]\<rparr>)))
          else
            (case osv_kind kind of
               None \<Rightarrow> None
             | Some k \<Rightarrow>
                 if k = Introduced \<and> val = ''0''
                 then Some (rng\<lparr>osv_events := osv_events rng @ [(None, k)]\<rparr>)
                 else (case parse_semver_for_matching sv val of
                         None \<Rightarrow> None
                       | Some b \<Rightarrow> Some (rng\<lparr>osv_events := osv_events rng @ [(Some b, k)]\<rparr>))))"

fun parse_osv_loop ::
  "('v, 'r) semver_api \<Rightarrow> string list \<Rightarrow> 'v osv_range \<Rightarrow> 'v osv_range option" where
  "parse_osv_loop sv [] rng = Some rng"
| "parse_osv_loop sv (e # es) rng =
     (case parse_osv_event sv e rng of None \<Rightarrow> None | Some r \<Rightarrow> parse_osv_loop sv es r)"

definition has_event :: "'v osv_range \<Rightarrow> osv_event \<Rightarrow> bool" where
  "has_event rng kind = list_ex (\<lambda>(_, event). event = kind) (osv_events rng)"

definition parse_osv_events ::
  "('v::linorder, 'r) semver_api \<Rightarrow> string \<Rightarrow> 'v osv_range option" where
  "parse_osv_events sv text =
     (case parse_osv_loop sv (split_on '','' text) \<lparr>osv_events = [], osv_limits = []\<rparr> of
        None \<Rightarrow> None
      | Some rng \<Rightarrow>
          if \<not> has_event rng Introduced \<or> (has_event rng Fixed \<and> has_event rng LastAffected)
          then None
          else Some (rng\<lparr>osv_events := sort (osv_events rng)\<rparr>))"

definition osv_transition :: "'v::linorder \<Rightarrow> 'v option \<times> osv_event \<Rightarrow> bool \<Rightarrow> bool" where
  "osv_transition v e affected =
     (case e of (bound, kind) \<Rightarrow>
        let at_or_after = (case bound of None \<Rightarrow> True | Some b \<Rightarrow> b \<le> v) in
        (case kind of
           Introduced \<Rightarrow> if at_or_after then True else affected
         | Fixed \<Rightarrow> if at_or_after then False else affected
         | LastAffected \<Rightarrow> (case bound of
                             Some b \<Rightarrow> if b < v then False else affected
                           | None \<Rightarrow> affected)))"

definition osv_range_affects :: "'v::linorder osv_range \<Rightarrow> 'v \<Rightarrow> bool" where
  "osv_range_affects rng v =
     (if osv_limits rng \<noteq> [] \<and>
         \<not> list_ex (\<lambda>l. case l of None \<Rightarrow> True | Some b \<Rightarrow> v < b) (osv_limits rng)
      then False
      else fold (osv_transition v) (osv_events rng) False)"

definition osv_clause ::
  "('v::linorder, 'r) semver_api \<Rightarrow> string \<Rightarrow> 'v osv_range option" where
  "osv_clause sv rng =
     (case (case strip_prefix ''SEMVER('' rng of
              Some rest \<Rightarrow> Some rest
            | None \<Rightarrow> strip_prefix ''ECOSYSTEM('' rng) of
        None \<Rightarrow> None
      | Some rest \<Rightarrow>
          (case strip_suffix '')'' rest of None \<Rightarrow> None | Some t \<Rightarrow> parse_osv_events sv t))"

fun osv_loop ::
  "('v::linorder, 'r) semver_api \<Rightarrow> 'v \<Rightarrow> bool \<Rightarrow> string list \<Rightarrow> applicability" where
  "osv_loop sv v unknown [] = (if unknown then Unknown else NotAffected)"
| "osv_loop sv v unknown (rng # ranges) =
     (case osv_clause sv rng of
        Some r \<Rightarrow> if osv_range_affects r v then Affected else osv_loop sv v unknown ranges
      | None \<Rightarrow> osv_loop sv v True ranges)"

definition osv_applicability ::
  "('v::linorder, 'r) semver_api \<Rightarrow> string \<Rightarrow> 'v \<Rightarrow> applicability" where
  "osv_applicability sv affected_range v = osv_loop sv v False (split_on ''; '' affected_range)"

section \<open>RustSec and GHSA ranges\<close>

fun parse_reqs :: "('v, 'r) semver_api \<Rightarrow> string list \<Rightarrow> 'r list option" where
  "parse_reqs sv [] = Some []"
| "parse_reqs sv (s # ss) =
     (case req_parse sv s of
        None \<Rightarrow> None
      | Some r \<Rightarrow> map_option (Cons r) (parse_reqs sv ss))"

fun rustsec_loop ::
  "('v, 'r) semver_api \<Rightarrow> 'v \<Rightarrow> 'r list \<Rightarrow> 'r list \<Rightarrow> string list \<Rightarrow> applicability" where
  "rustsec_loop sv v patched unaffected [] =
     (case versions_new sv patched unaffected of
        Some is_vulnerable \<Rightarrow> if is_vulnerable v then Affected else NotAffected
      | None \<Rightarrow> Unknown)"
| "rustsec_loop sv v patched unaffected (clause # clauses) =
     (case split_once ''='' clause of
        None \<Rightarrow> Unknown
      | Some (key, val) \<Rightarrow>
          if key = ''patched'' then
            (case parse_reqs sv (split_on '' | '' val) of
               None \<Rightarrow> Unknown
             | Some rs \<Rightarrow> rustsec_loop sv v (patched @ rs) unaffected clauses)
          else if key = ''unaffected'' then
            (case parse_reqs sv (split_on '' | '' val) of
               None \<Rightarrow> Unknown
             | Some rs \<Rightarrow> rustsec_loop sv v patched (unaffected @ rs) clauses)
          else if key = ''categories'' then rustsec_loop sv v patched unaffected clauses
          else Unknown)"

definition rustsec_applicability ::
  "('v, 'r) semver_api \<Rightarrow> string \<Rightarrow> 'v \<Rightarrow> applicability" where
  "rustsec_applicability sv affected_range v =
     (if is_withdrawn affected_range then NotAffected
      else rustsec_loop sv v [] [] (filter (\<lambda>c. c \<noteq> []) (split_on ''; '' affected_range)))"

definition ghsa_compare :: "string \<Rightarrow> 'v::linorder \<Rightarrow> 'v \<Rightarrow> bool" where
  "ghsa_compare operator v bound =
     (if operator = ''>='' then bound \<le> v
      else if operator = ''<='' then v \<le> bound
      else if operator = ''>'' then bound < v
      else if operator = ''<'' then v < bound
      else v = bound)"

text \<open>One comparator: \<open>None\<close> where the source clears \<open>valid\<close>, otherwise its truth value.\<close>

definition ghsa_comparator ::
  "('v::linorder, 'r) semver_api \<Rightarrow> 'v \<Rightarrow> string \<Rightarrow> bool option" where
  "ghsa_comparator sv v comparator =
     (let c = trim comparator in
      case List.find (\<lambda>op. starts_with op c) [''>='', ''<='', ''>'', ''<'', ''=''] of
        None \<Rightarrow> None
      | Some operator \<Rightarrow>
          (case parse_semver_for_matching sv (trim (drop (length operator) c)) of
             None \<Rightarrow> None
           | Some bound \<Rightarrow> Some (ghsa_compare operator v bound)))"

fun ghsa_range ::
  "('v::linorder, 'r) semver_api \<Rightarrow> 'v \<Rightarrow> bool \<Rightarrow> bool \<Rightarrow> string list \<Rightarrow> bool \<times> bool" where
  "ghsa_range sv v matches valid [] = (matches, valid)"
| "ghsa_range sv v matches valid (c # cs) =
     (case ghsa_comparator sv v c of
        None \<Rightarrow> ghsa_range sv v matches False cs
      | Some b \<Rightarrow> ghsa_range sv v (matches \<and> b) valid cs)"

fun ghsa_loop ::
  "('v::linorder, 'r) semver_api \<Rightarrow> 'v \<Rightarrow> bool \<Rightarrow> string list \<Rightarrow> applicability" where
  "ghsa_loop sv v unknown [] = (if unknown then Unknown else NotAffected)"
| "ghsa_loop sv v unknown (rng # ranges) =
     (let (matches, valid) = ghsa_range sv v True True (split_on '','' rng) in
      if valid \<and> matches then Affected else ghsa_loop sv v (unknown \<or> \<not> valid) ranges)"

definition ghsa_applicability ::
  "('v::linorder, 'r) semver_api \<Rightarrow> string \<Rightarrow> 'v \<Rightarrow> applicability" where
  "ghsa_applicability sv ranges v = ghsa_loop sv v False (split_on '' || '' ranges)"

section \<open>Dispatch and merging\<close>

definition range_applicability ::
  "('v::linorder, 'r) semver_api \<Rightarrow> string \<Rightarrow> string \<Rightarrow> string \<Rightarrow> applicability" where
  "range_applicability sv source affected_range v =
     (if is_withdrawn affected_range then NotAffected
      else case parse_semver_for_matching sv v of
        None \<Rightarrow> Unknown
      | Some parsed \<Rightarrow>
          if contains ''SEMVER('' affected_range \<or> contains ''ECOSYSTEM('' affected_range
          then osv_applicability sv affected_range parsed
          else if source = ''rustsec_db'' \<or>
                  list_ex (\<lambda>key. contains key affected_range) [''patched='', ''unaffected='', ''withdrawn='']
          then rustsec_applicability sv affected_range parsed
          else if source = ''ghsa'' then ghsa_applicability sv affected_range parsed
          else Unknown)"

definition ghsa_version_in_range ::
  "('v::linorder, 'r) semver_api \<Rightarrow> string \<Rightarrow> string \<Rightarrow> bool" where
  "ghsa_version_in_range sv v range_str = (range_applicability sv ''ghsa'' range_str v = Affected)"

definition row_applicability ::
  "('v::linorder, 'r) semver_api \<Rightarrow> int \<Rightarrow> string \<Rightarrow> crate_advisory_row \<Rightarrow> applicability" where
  "row_applicability sv version_id v row =
     (if car_requires_resync row then Unknown
      else if car_version_id row = Some version_id then Affected
      else range_applicability sv (car_source row) (car_affected_range row) v)"

definition advisory_priority :: "int \<Rightarrow> version_advisory \<Rightarrow> bool \<times> bool" where
  "advisory_priority version_id a =
     (va_applicability a = Affected, car_version_id (va_row a) = Some version_id)"

definition select_step ::
  "('v::linorder, 'r) semver_api \<Rightarrow> int \<Rightarrow> string \<Rightarrow> crate_advisory_row \<Rightarrow>
   version_advisory option \<Rightarrow> version_advisory option" where
  "select_step sv version_id v row selected =
     (let a = row_applicability sv version_id v row in
      if a = NotAffected then selected
      else let candidate = \<lparr>va_applicability = a, va_row = row\<rparr> in
        (case selected of
           None \<Rightarrow> Some candidate
         | Some current \<Rightarrow>
             if advisory_priority version_id candidate > advisory_priority version_id current
             then Some candidate else selected))"

definition row_withdrawal :: "crate_advisory_row \<Rightarrow> bool" where
  "row_withdrawal row \<longleftrightarrow> \<not> car_requires_resync row \<and> is_withdrawn (car_affected_range row)"

definition row_sort_key :: "crate_advisory_row \<Rightarrow> string \<times> string \<times> int option" where
  "row_sort_key row = (car_source row, car_affected_range row, car_version_id row)"

definition select_advisory ::
  "('v::linorder, 'r) semver_api \<Rightarrow> int \<Rightarrow> string \<Rightarrow> crate_advisory_row list \<Rightarrow>
   version_advisory option" where
  "select_advisory sv version_id v rows =
     (let sorted_rows = sort_key row_sort_key rows in
      if list_ex row_withdrawal sorted_rows then None
      else fold (select_step sv version_id v) sorted_rows None)"

definition group_push ::
  "crate_advisory_row \<Rightarrow> (string, crate_advisory_row list) btree \<Rightarrow>
   (string, crate_advisory_row list) btree" where
  "group_push row m =
     bt_insert (car_advisory_id row) (unwrap_or (bt_get m (car_advisory_id row)) [] @ [row]) m"

definition advisories_for_version ::
  "('v::linorder, 'r) semver_api \<Rightarrow> crate_advisory_row list \<Rightarrow> int \<Rightarrow> string \<Rightarrow>
   version_advisory list" where
  "advisories_for_version sv rows version_id v =
     List.map_filter (select_advisory sv version_id v) (bt_values (fold group_push rows []))"

record advisory_counts =
  ac_affected :: nat
  ac_unknown :: nat

definition advisory_counts_step :: "version_advisory \<Rightarrow> advisory_counts \<Rightarrow> advisory_counts" where
  "advisory_counts_step a c =
     (case va_applicability a of
        Affected \<Rightarrow> c\<lparr>ac_affected := ac_affected c + 1\<rparr>
      | Unknown \<Rightarrow> c\<lparr>ac_unknown := ac_unknown c + 1\<rparr>
      | NotAffected \<Rightarrow> c)"

definition advisory_counts ::
  "('v::linorder, 'r) semver_api \<Rightarrow> crate_advisory_row list \<Rightarrow> int \<Rightarrow> string \<Rightarrow> advisory_counts" where
  "advisory_counts sv rows version_id v =
     fold advisory_counts_step (advisories_for_version sv rows version_id v)
       \<lparr>ac_affected = 0, ac_unknown = 0\<rparr>"

section \<open>What the merge promises\<close>

text \<open>
  The specification: per advisory ID a verdict that depends only on which rows are stored, not on
  their order.  A trusted withdrawal silences the ID; otherwise affected evidence wins over
  unknown, and an ID with neither is not reported.
\<close>

definition spec_verdict ::
  "('v::linorder, 'r) semver_api \<Rightarrow> int \<Rightarrow> string \<Rightarrow> crate_advisory_row list \<Rightarrow> string \<Rightarrow>
   applicability option" where
  "spec_verdict sv vid v rows aid =
     (let rs = filter (\<lambda>r. car_advisory_id r = aid) rows in
      if list_ex row_withdrawal rs then None
      else if list_ex (\<lambda>r. row_applicability sv vid v r = Affected) rs then Some Affected
      else if list_ex (\<lambda>r. row_applicability sv vid v r = Unknown) rs then Some Unknown
      else None)"

abbreviation va_id :: "version_advisory \<Rightarrow> string" where
  "va_id a \<equiv> car_advisory_id (va_row a)"

definition verdicts :: "version_advisory list \<Rightarrow> (string \<times> applicability) list" where
  "verdicts as = map (\<lambda>a. (va_id a, va_applicability a)) as"

lemma group_push_invar: "bt_invar m \<Longrightarrow> bt_invar (fold group_push rows m)"
  by (induction rows arbitrary: m) (auto simp: group_push_def bt_invar_insert)

lemma group_push_get:
  "bt_get (fold group_push rows m) k =
     (let rs = filter (\<lambda>r. car_advisory_id r = k) rows in
      if rs = [] then bt_get m k else Some (unwrap_or (bt_get m k) [] @ rs))"
  by (induction rows arbitrary: m) (auto simp: group_push_def bt_get_insert Let_def)

definition evidence_wf :: "version_advisory option \<Rightarrow> bool" where
  "evidence_wf sel \<longleftrightarrow> (\<forall>a. sel = Some a \<longrightarrow> va_applicability a \<noteq> NotAffected)"

lemma select_step_cases:
  assumes "evidence_wf sel"
  shows "evidence_wf (select_step sv vid v r sel)"
    and "select_step sv vid v r sel = None \<longleftrightarrow>
           sel = None \<and> row_applicability sv vid v r = NotAffected"
    and "select_step sv vid v r sel = Some a \<Longrightarrow> va_row a = r \<or> sel = Some a"
    and "select_step sv vid v r sel = Some a \<Longrightarrow> va_applicability a = Affected \<longleftrightarrow>
           row_applicability sv vid v r = Affected \<or>
           (\<exists>b. sel = Some b \<and> va_applicability b = Affected)"
  using assms
  by (cases "row_applicability sv vid v r"; cases sel;
      force simp: select_step_def Let_def evidence_wf_def advisory_priority_def less_prod_def
        split: if_splits)+

lemma select_fold:
  "evidence_wf sel \<Longrightarrow> f = fold (select_step sv vid v) rows sel \<Longrightarrow>
     evidence_wf f \<and>
     (f = None \<longleftrightarrow> sel = None \<and> (\<forall>r \<in> set rows. row_applicability sv vid v r = NotAffected)) \<and>
     (\<forall>a. f = Some a \<longrightarrow> (va_row a \<in> set rows \<or> sel = Some a) \<and>
        (va_applicability a = Affected \<longleftrightarrow>
           (\<exists>r \<in> set rows. row_applicability sv vid v r = Affected) \<or>
           (\<exists>b. sel = Some b \<and> va_applicability b = Affected)))"
proof (induction rows arbitrary: sel)
  case (Cons r rows)
  let ?s = "select_step sv vid v r sel"
  note step = select_step_cases [OF Cons.prems(1), of sv vid v r]
  have f: "f = fold (select_step sv vid v) rows ?s" using Cons.prems(2) by simp
  note ih = Cons.IH [OF step(1) f]
  have "(\<exists>b. ?s = Some b \<and> va_applicability b = Affected) \<longleftrightarrow>
      row_applicability sv vid v r = Affected \<or> (\<exists>b. sel = Some b \<and> va_applicability b = Affected)"
    using step(2,4) by (cases ?s) auto
  with ih step(2,3) show ?case by auto
qed auto

lemma not_NotAffected_iff: "a \<noteq> NotAffected \<longleftrightarrow> a = Affected \<or> a = Unknown"
  by (cases a) auto

lemma select_advisory_verdict:
  assumes "select_advisory sv vid v rs = res" and "rs = filter (\<lambda>r. car_advisory_id r = k) rows"
  shows "map_option va_applicability res = spec_verdict sv vid v rows k"
    and "res = Some a \<Longrightarrow> va_row a \<in> set rs"
proof -
  let ?f = "fold (select_step sv vid v) (sort_key row_sort_key rs) None"
  have w: "evidence_wf None" by (simp add: evidence_wf_def)
  note sf = select_fold [OF w refl, of sv vid v "sort_key row_sort_key rs"]
  have app: "va_applicability a = Affected \<or> va_applicability a = Unknown" if "?f = Some a" for a
    using sf that by (cases "va_applicability a") (auto simp: evidence_wf_def)
  show "map_option va_applicability res = spec_verdict sv vid v rows k"
  proof (cases "list_ex row_withdrawal rs")
    case True
    then show ?thesis
      using assms by (auto simp: select_advisory_def spec_verdict_def list_ex_iff)
  next
    case False
    then have "res = ?f" using assms(1) by (auto simp: select_advisory_def list_ex_iff)
    then show ?thesis
      using False sf app assms(2)
      by (cases ?f) (auto simp: spec_verdict_def list_ex_iff not_NotAffected_iff)
  qed
  show "va_row a \<in> set rs" if "res = Some a"
  proof -
    have "?f = Some a"
      using that assms(1) by (auto simp: select_advisory_def Let_def split: if_splits)
    then show ?thesis using sf by auto
  qed
qed

lemma advisories_for_version_core:
  "sorted_wrt (<) (map va_id (advisories_for_version sv rows vid v)) \<and>
   map_of (verdicts (advisories_for_version sv rows vid v)) = spec_verdict sv vid v rows"
proof -
  let ?g = "fold group_push rows []"
  let ?sel = "select_advisory sv vid v"
  have inv: "bt_invar ?g" by (simp add: group_push_invar)
  have get: "bt_get ?g k = (let rs = filter (\<lambda>r. car_advisory_id r = k) rows in
      if rs = [] then None else Some rs)" for k
    by (simp add: group_push_get Let_def)
  have entry: "rs = filter (\<lambda>r. car_advisory_id r = k) rows" if "(k, rs) \<in> set ?g" for k rs
    using that inv get [of k] by (auto simp: bt_get_iff [symmetric] Let_def split: if_splits)
  have key: "va_id a = k" if "(k, rs) \<in> set ?g" "?sel rs = Some a" for k rs a
    using select_advisory_verdict(2) [OF that(2) entry [OF that(1)]] entry [OF that(1)] by auto
  have "map_of (verdicts (advisories_for_version sv rows vid v)) k = spec_verdict sv vid v rows k" for k
  proof -
    have "map_of (verdicts (advisories_for_version sv rows vid v)) k =
        (case bt_get ?g k of None \<Rightarrow> None | Some rs \<Rightarrow> map_option va_applicability (?sel rs))"
      unfolding verdicts_def advisories_for_version_def
      by (rule bt_map_filter_map_of [OF inv key])
    also have "\<dots> = spec_verdict sv vid v rows k"
      using select_advisory_verdict(1) [OF refl refl, of sv vid v k rows]
      by (auto simp: get Let_def spec_verdict_def)
    finally show ?thesis .
  qed
  moreover have "sorted_wrt (<) (map va_id (advisories_for_version sv rows vid v))"
    unfolding advisories_for_version_def by (rule bt_map_filter_sorted [OF inv key])
  ultimately show ?thesis by auto
qed

lemma advisories_rows_stored: "va_row ` set (advisories_for_version sv rows vid v) \<subseteq> set rows"
proof
  fix r assume "r \<in> va_row ` set (advisories_for_version sv rows vid v)"
  then obtain k rs a where e: "(k, rs) \<in> set (fold group_push rows [])"
      "select_advisory sv vid v rs = Some a" "r = va_row a"
    by (auto simp: advisories_for_version_def bt_values_def map_filter_def)
  have "bt_get (fold group_push rows []) k = Some rs"
    using e(1) bt_get_iff group_push_invar bt_invar_Nil by metis
  then have rs: "rs = filter (\<lambda>r. car_advisory_id r = k) rows"
    by (auto simp: group_push_get Let_def split: if_splits)
  from select_advisory_verdict(2) [OF e(2) rs refl] rs e(3) show "r \<in> set rows" by simp
qed

text \<open>
  (C1) \<open>advisories_for_version\<close> implements the specification: the reported advisories are strictly
  ascending by ID (so one entry per ID), and for every ID the reported applicability is exactly
  the specified verdict; IDs without a verdict are absent.  Every representative is a stored row.
\<close>

theorem advisories_for_version_refines_spec:
  "sorted_wrt (<) (map va_id (advisories_for_version sv rows vid v)) \<and>
   map_of (verdicts (advisories_for_version sv rows vid v)) = spec_verdict sv vid v rows \<and>
   va_row ` set (advisories_for_version sv rows vid v) \<subseteq> set rows"
  using advisories_for_version_core advisories_rows_stored by blast

lemma verdicts_bt:
  "bt_invar (verdicts (advisories_for_version sv rows vid v))"
  "bt_get (verdicts (advisories_for_version sv rows vid v)) = spec_verdict sv vid v rows"
  using advisories_for_version_core [of sv rows vid v]
  by (simp_all add: bt_invar_def bt_get_def [abs_def] verdicts_def comp_def)

lemma spec_verdict_set_cong:
  "set rows = set rows' \<Longrightarrow> spec_verdict sv vid v rows = spec_verdict sv vid v rows'"
proof
  fix k assume s: "set rows = set rows'"
  have "list_ex P (filter Q rows) = list_ex P (filter Q rows')" for P Q
    using s by (auto simp: list_ex_iff)
  then show "spec_verdict sv vid v rows k = spec_verdict sv vid v rows' k"
    by (simp only: spec_verdict_def Let_def)
qed

text \<open>
  The reported verdicts do not depend on the order in which the database returned the rows,
  nor on repeated rows: equal row sets give equal verdict lists.
\<close>

theorem advisories_row_order_independent:
  assumes "set rows = set rows'"
  shows "verdicts (advisories_for_version sv rows vid v) = verdicts (advisories_for_version sv rows' vid v)"
  using spec_verdict_set_cong [OF assms, of sv vid v]
  by (intro bt_ext) (simp_all add: verdicts_bt)

definition sample_row :: "string \<Rightarrow> string \<Rightarrow> string \<Rightarrow> crate_advisory_row" where
  "sample_row aid source rng =
     \<lparr>car_crate_id = 1, car_requires_resync = False, car_version_id = None, car_advisory_id = aid,
      car_title = ''t'', car_severity = None, car_url = None, car_affected_range = rng,
      car_fixed_versions = JArray [], car_source = source, car_details = None,
      car_affected_functions = [], car_cwe_ids = []\<rparr>"

theorem advisories_row_order_independent_witness:
  "set [sample_row ''A'' ''ghsa'' ''< 2.0.0'', sample_row ''A'' ''osv'' ''?''] =
     set [sample_row ''A'' ''osv'' ''?'', sample_row ''A'' ''ghsa'' ''< 2.0.0''] \<and>
   verdicts (advisories_for_version sample_semver
     [sample_row ''A'' ''ghsa'' ''< 2.0.0'', sample_row ''A'' ''osv'' ''?''] 7 ''1.0.0'') =
   verdicts (advisories_for_version sample_semver
     [sample_row ''A'' ''osv'' ''?'', sample_row ''A'' ''ghsa'' ''< 2.0.0''] 7 ''1.0.0'')"
proof -
  have s: "set [sample_row ''A'' ''ghsa'' ''< 2.0.0'', sample_row ''A'' ''osv'' ''?''] =
      set [sample_row ''A'' ''osv'' ''?'', sample_row ''A'' ''ghsa'' ''< 2.0.0'']" by auto
  then show ?thesis using advisories_row_order_independent [OF s, of sample_semver 7 "''1.0.0''"] by simp
qed

lemma advisory_counts_fold:
  "fold advisory_counts_step as c =
     \<lparr>ac_affected = ac_affected c + length (filter (\<lambda>a. va_applicability a = Affected) as),
      ac_unknown = ac_unknown c + length (filter (\<lambda>a. va_applicability a = Unknown) as)\<rparr>"
  by (induction as arbitrary: c)
    (auto simp: advisory_counts_step_def split: applicability.split)

lemma count_verdicts:
  "length (filter (\<lambda>a. va_applicability a = x) as) = length (filter (\<lambda>p. snd p = x) (verdicts as))"
  by (induction as) (auto simp: verdicts_def)

lemma bt_count_values:
  assumes "bt_invar m"
  shows "length (filter (\<lambda>p. snd p = x) m) = card {k. bt_get m k = Some x}"
proof -
  have d: "distinct (map fst (filter (\<lambda>p. snd p = x) m))"
    using bt_invar_distinct [OF assms] by (rule distinct_map_filter)
  have "{k. bt_get m k = Some x} = set (map fst (filter (\<lambda>p. snd p = x) m))"
    using bt_get_iff [OF assms] by force
  with d show ?thesis by (metis distinct_card length_map)
qed

text \<open>
  \<open>advisory_counts\<close> counts advisory IDs, not rows: the affected (unknown) count is the number
  of IDs whose specified verdict is affected (unknown).
\<close>

lemma advisory_counts_card:
  "ac_affected (advisory_counts sv rows vid v) = card {k. spec_verdict sv vid v rows k = Some Affected} \<and>
   ac_unknown (advisory_counts sv rows vid v) = card {k. spec_verdict sv vid v rows k = Some Unknown}"
proof -
  let ?as = "advisories_for_version sv rows vid v"
  have "length (filter (\<lambda>a. va_applicability a = x) ?as) = card {k. spec_verdict sv vid v rows k = Some x}" for x
    using bt_count_values [OF verdicts_bt(1)] by (simp add: count_verdicts verdicts_bt(2))
  then show ?thesis by (simp add: advisory_counts_def advisory_counts_fold)
qed

section \<open>What the range evaluators promise\<close>

text \<open>
  The intervals an OSV range describes: pairs of an inclusive start (\<open>None\<close> for \<open>introduced=0\<close>)
  and an exclusive end, in ascending order with a gap before each start.
\<close>

fun interval_events :: "('v option \<times> 'v) list \<Rightarrow> ('v option \<times> osv_event) list" where
  "interval_events [] = []"
| "interval_events ((i, f) # ivs) = (i, Introduced) # (Some f, Fixed) # interval_events ivs"

fun intervals_ascending :: "('v::linorder option \<times> 'v) list \<Rightarrow> bool" where
  "intervals_ascending [] = True"
| "intervals_ascending [(i, f)] = (i < Some f)"
| "intervals_ascending ((i, f) # (i', f') # ivs) =
     (i < Some f \<and> Some f < i' \<and> intervals_ascending ((i', f') # ivs))"

definition in_interval :: "'v::linorder \<Rightarrow> 'v option \<times> 'v \<Rightarrow> bool" where
  "in_interval v iv \<longleftrightarrow> fst iv \<le> Some v \<and> v < snd iv"

lemma bound_le_iff: "(case b of None \<Rightarrow> True | Some x \<Rightarrow> x \<le> v) \<longleftrightarrow> b \<le> Some v"
  by (cases b) auto

lemma intervals_ascending_Cons:
  "intervals_ascending ((i, f) # ivs) \<longleftrightarrow>
     i < Some f \<and> (\<forall>iv \<in> set ivs. Some f < fst iv) \<and> intervals_ascending ivs"
proof (induction ivs arbitrary: i f)
  case (Cons iv ivs)
  obtain i' f' where iv: "iv = (i', f')" by (cases iv)
  have "intervals_ascending (iv # ivs) \<Longrightarrow> Some f < i' \<Longrightarrow> \<forall>x \<in> set ivs. Some f < fst x"
    using Cons.IH [of i' f'] iv by (meson order.strict_trans)
  with iv show ?case by auto
qed simp

lemma interval_events_sorted:
  "intervals_ascending ivs \<Longrightarrow> sorted (interval_events ivs)"
proof (induction ivs)
  case (Cons iv ivs)
  obtain i f where iv: "iv = (i, f)" by (cases iv)
  with Cons have a: "i < Some f" "\<forall>iv \<in> set ivs. Some f < fst iv" "sorted (interval_events ivs)"
    by (auto simp: intervals_ascending_Cons)
  have "\<forall>e \<in> set (interval_events ivs). Some f < fst e"
    using a(2) Cons.prems iv
  proof (induction ivs)
    case (Cons jv jvs)
    then show ?case
      by (cases jv) (auto simp: intervals_ascending_Cons dest: order.strict_trans)
  qed simp
  then have t: "\<forall>e \<in> set (interval_events ivs). (Some f, Fixed) \<le> e"
    by (auto simp: less_eq_prod_def)
  have h: "(i, Introduced) \<le> (Some f, Fixed)" using a(1) by (simp add: less_eq_prod_def)
  with t have "\<forall>e \<in> set (interval_events ivs). (i, Introduced) \<le> e" by (meson order.trans)
  with t h a(3) iv show ?case by simp
qed simp

lemma osv_intervals_fold:
  "intervals_ascending ivs \<Longrightarrow> (\<forall>iv \<in> set ivs. aff \<longrightarrow> \<not> fst iv \<le> Some v) \<Longrightarrow>
   fold (osv_transition v) (interval_events ivs) aff \<longleftrightarrow> aff \<or> (\<exists>iv \<in> set ivs. in_interval v iv)"
proof (induction ivs arbitrary: aff)
  case (Cons iv ivs)
  obtain i f where iv: "iv = (i, f)" by (cases iv)
  with Cons.prems have a: "i < Some f" "\<forall>iv \<in> set ivs. Some f < fst iv" "intervals_ascending ivs"
    by (auto simp: intervals_ascending_Cons)
  define aff' where "aff' = ((aff \<or> i \<le> Some v) \<and> v < f)"
  have "\<forall>iv \<in> set ivs. aff' \<longrightarrow> \<not> fst iv \<le> Some v"
    using a(2) unfolding aff'_def by (metis less_option_Some order.strict_trans2 order.asym)
  then have "fold (osv_transition v) (interval_events ivs) aff' \<longleftrightarrow>
      aff' \<or> (\<exists>iv \<in> set ivs. in_interval v iv)" using Cons.IH a(3) by blast
  moreover have "osv_transition v (Some f, Fixed) (osv_transition v (i, Introduced) aff) = aff'"
    by (cases i) (auto simp: osv_transition_def aff'_def)
  moreover have "aff \<Longrightarrow> v < f" using Cons.prems(2) a(1) iv by (cases i) auto
  ultimately show ?case by (auto simp: iv in_interval_def aff'_def)
qed simp

definition below_limit :: "'v::linorder option list \<Rightarrow> 'v \<Rightarrow> bool" where
  "below_limit limits v \<longleftrightarrow> limits = [] \<or> None \<in> set limits \<or> (\<exists>b. Some b \<in> set limits \<and> v < b)"

lemma osv_range_affects_alt:
  "osv_range_affects r v \<longleftrightarrow> below_limit (osv_limits r) v \<and> fold (osv_transition v) (osv_events r) False"
proof -
  have "list_ex (\<lambda>l. case l of None \<Rightarrow> True | Some b \<Rightarrow> v < b) ls \<longleftrightarrow>
      None \<in> set ls \<or> (\<exists>b. Some b \<in> set ls \<and> v < b)" for ls
    by (induction ls) (auto split: option.split)
  then show ?thesis by (auto simp: osv_range_affects_def below_limit_def)
qed

lemma parse_osv_events_sorted: "parse_osv_events sv t = Some r \<Longrightarrow> sorted (osv_events r)"
  by (auto simp: parse_osv_events_def split: option.splits if_splits)

text \<open>
  An OSV range whose events describe ascending half-open intervals, listed in any order,
  affects a version exactly when the version lies in one of the intervals and below one of the
  limits (when there are any).
\<close>

theorem osv_range_interval_semantics:
  assumes "parse_osv_events sv text = Some r"
    and "mset (osv_events r) = mset (interval_events ivs)" and "intervals_ascending ivs"
  shows "osv_range_affects r v \<longleftrightarrow>
           below_limit (osv_limits r) v \<and> (\<exists>iv. iv \<in> set ivs \<and> in_interval v iv)"
proof -
  have "osv_events r = interval_events ivs"
    using assms(2) parse_osv_events_sorted [OF assms(1)] interval_events_sorted [OF assms(3)]
    by (metis properties_for_sort sorted_sort_id)
  then show ?thesis
    using osv_intervals_fold [OF assms(3), of False v] by (auto simp: osv_range_affects_alt)
qed

theorem osv_range_interval_semantics_witness:
  "parse_osv_events sample_semver ''fixed=2.0.0,introduced=0'' =
     Some \<lparr>osv_events = [(None, Introduced), (Some (2, 0, 0), Fixed)], osv_limits = []\<rparr> \<and>
   intervals_ascending [(None, (2, 0, 0) :: sample_version)] \<and>
   osv_range_affects \<lparr>osv_events = [(None, Introduced), (Some (2, 0, 0), Fixed)], osv_limits = []\<rparr>
     ((1, 9, 0) :: sample_version)"
proof -
  let ?r = "\<lparr>osv_events = [(None, Introduced), (Some ((2, 0, 0) :: sample_version), Fixed)],
             osv_limits = []\<rparr>"
  have p: "parse_osv_events sample_semver ''fixed=2.0.0,introduced=0'' = Some ?r" by code_simp
  have i: "intervals_ascending [(None, (2, 0, 0) :: sample_version)]" by simp
  have m: "mset (osv_events ?r) = mset (interval_events [(None, (2, 0, 0))])" by simp
  show ?thesis
    using p i osv_range_interval_semantics [OF p m i, of "(1, 9, 0)"]
    by (simp add: below_limit_def in_interval_def)
qed

lemma osv_loop_cases:
  "osv_loop sv v u cs = Affected \<longleftrightarrow>
     (\<exists>c \<in> set cs. \<exists>r. osv_clause sv c = Some r \<and> osv_range_affects r v)"
  "osv_loop sv v u cs = NotAffected \<longleftrightarrow>
     \<not> u \<and> (\<forall>c \<in> set cs. \<exists>r. osv_clause sv c = Some r \<and> \<not> osv_range_affects r v)"
  by (induction sv v u cs rule: osv_loop.induct) (auto split: option.splits)

text \<open>
  OSV evaluation never clears a version it could not evaluate: the verdict is affected iff
  some clause parses and covers the version, not affected iff every clause parses and none covers
  it, and unknown in the remaining case.
\<close>

theorem osv_applicability_conservative:
  "(osv_applicability sv t v = Affected \<longleftrightarrow>
      list_ex (\<lambda>c. \<exists>r. osv_clause sv c = Some r \<and> osv_range_affects r v) (split_on ''; '' t)) \<and>
   (osv_applicability sv t v = NotAffected \<longleftrightarrow>
      list_all (\<lambda>c. \<exists>r. osv_clause sv c = Some r \<and> \<not> osv_range_affects r v) (split_on ''; '' t))"
  by (simp add: osv_applicability_def osv_loop_cases list_ex_iff list_all_iff)

lemma ghsa_range_eq:
  "ghsa_range sv v m k cs =
     (m \<and> (\<forall>c \<in> set cs. ghsa_comparator sv v c \<noteq> Some False),
      k \<and> (\<forall>c \<in> set cs. ghsa_comparator sv v c \<noteq> None))"
  by (induction sv v m k cs rule: ghsa_range.induct) (auto split: option.splits)

definition ghsa_alternative ::
  "('v::linorder, 'r) semver_api \<Rightarrow> 'v \<Rightarrow> string \<Rightarrow> bool option list" where
  "ghsa_alternative sv v alt = map (ghsa_comparator sv v) (split_on '','' alt)"

lemma ghsa_loop_Cons:
  "ghsa_loop sv v u (a # as) =
     (if set (ghsa_alternative sv v a) \<subseteq> {Some True} then Affected
      else ghsa_loop sv v (u \<or> None \<in> set (ghsa_alternative sv v a)) as)"
proof -
  have "x = Some True \<longleftrightarrow> None \<noteq> x \<and> Some False \<noteq> x" for x
    by (cases x) auto
  then have sub: "set xs \<subseteq> {Some True} \<longleftrightarrow> None \<notin> set xs \<and> Some False \<notin> set xs" for xs
    by (induction xs) (simp_all add: conj_ac)
  have "b \<in> set (ghsa_alternative sv v a) \<longleftrightarrow>
      \<not> (\<forall>c \<in> set (split_on '','' a). ghsa_comparator sv v c \<noteq> b)" for b
    by (auto simp: ghsa_alternative_def)
  then show ?thesis unfolding sub by (auto simp: ghsa_range_eq simp del: not_None_eq)
qed

lemma ghsa_loop_cases:
  "ghsa_loop sv v u as = Affected \<longleftrightarrow> (\<exists>a \<in> set as. set (ghsa_alternative sv v a) \<subseteq> {Some True})"
  "ghsa_loop sv v u as = NotAffected \<longleftrightarrow>
     \<not> u \<and> (\<forall>a \<in> set as. None \<notin> set (ghsa_alternative sv v a) \<and>
                         \<not> set (ghsa_alternative sv v a) \<subseteq> {Some True})"
  by (induction as arbitrary: u) (auto simp: ghsa_loop_Cons simp del: subset_singleton_iff ghsa_loop.simps(2))

text \<open>
  GHSA evaluation is a disjunction of conjunctions with an honest unknown: affected iff all
  comparators of some alternative hold, not affected iff every alternative is well formed and
  not all of its comparators hold.
\<close>

theorem ghsa_applicability_semantics:
  "(ghsa_applicability sv t v = Affected \<longleftrightarrow>
      list_ex (\<lambda>a. set (ghsa_alternative sv v a) \<subseteq> {Some True}) (split_on '' || '' t)) \<and>
   (ghsa_applicability sv t v = NotAffected \<longleftrightarrow>
      list_all (\<lambda>a. None \<notin> set (ghsa_alternative sv v a) \<and>
                      \<not> set (ghsa_alternative sv v a) \<subseteq> {Some True}) (split_on '' || '' t))"
  by (simp add: ghsa_applicability_def ghsa_loop_cases list_ex_iff list_all_iff)

end
