(* ===== verification/Crate_Versions.thy ===== *)
theory Crate_Versions
  imports Freshness Pagination Advisories Resolve
begin

text \<open>
  The \<open>crate_versions\<close> tool (\<open>mcp/tools/krate/versions.rs\<close>): a cursor-paginated timeline of the
  versions of a crate with advisory markers.  \<open>show_time\<close> renders a timestamp the way the database
  casts it to text.
\<close>

section \<open>The cursor token\<close>

record crate_versions_cursor_token =
  vt_v :: "8 word"
  vt_offset :: u32
  vt_limit :: u32
  vt_crate_name :: string

definition crate_versions_ops :: "crate_versions_cursor_token cursor_ops" where
  "crate_versions_ops = \<lparr>version = vt_v, limit = vt_limit, offset = vt_offset\<rparr>"

definition next_versions_token :: "string \<Rightarrow> u32 \<Rightarrow> u32 \<Rightarrow> crate_versions_cursor_token" where
  "next_versions_token crate_name lim next_offset =
     \<lparr>vt_v = 1, vt_offset = next_offset, vt_limit = lim, vt_crate_name = crate_name\<rparr>"

interpretation versions_cursor: cursor_token crate_versions_ops "next_versions_token crate_name"
  by unfold_locales (simp_all add: crate_versions_ops_def next_versions_token_def)

section \<open>Rows and items\<close>

record crate_version_timeline_row =
  tr_version_id :: nat
  tr_version :: string
  tr_rust_version :: "string option"
  tr_published_at :: "string option"
  tr_yanked :: bool
  tr_total_downloads :: nat
  tr_release_age_days :: "int option"

record crate_version_timeline_item =
  ti_version :: string
  ti_rust_version :: "string option"
  ti_published_at :: "string option"
  ti_yanked :: bool
  ti_downloads :: nat
  ti_advisory_count :: nat
  ti_release_age_days :: "int option"
  ti_is_latest :: bool
  ti_adoption_signal :: string
  ti_markers :: "string list"

definition timeline_row :: "(int \<Rightarrow> string) \<Rightarrow> int \<Rightarrow> version_row \<Rightarrow> crate_version_timeline_row" where
  "timeline_row show_time now v =
     \<lparr>tr_version_id = cv_id v, tr_version = cv_version v, tr_rust_version = cv_rust_version v,
      tr_published_at = map_option show_time (cv_published_at v), tr_yanked = vr_yanked v,
      tr_total_downloads = vr_total_downloads v,
      tr_release_age_days = map_option (\<lambda>p. trunc_div (now - p) DAY) (cv_published_at v)\<rparr>"

definition crate_timeline :: "crate_store \<Rightarrow> nat \<Rightarrow> version_row list" where
  "crate_timeline st crate_id = sort_key newest_key (filter (\<lambda>v. vr_crate_id v = crate_id) (st_versions st))"

definition list_crate_version_timeline ::
  "(int \<Rightarrow> string) \<Rightarrow> int \<Rightarrow> crate_store \<Rightarrow> nat \<Rightarrow> nat \<Rightarrow> nat \<Rightarrow> crate_version_timeline_row list" where
  "list_crate_version_timeline show_time now st crate_id lim off =
     map (timeline_row show_time now) (take (max lim 1) (drop off (crate_timeline st crate_id)))"

definition advisory_row_key :: "crate_advisory_row \<Rightarrow> int \<times> string \<times> (bool \<times> int) \<times> string" where
  "advisory_row_key r = (car_crate_id r, car_advisory_id r,
     (case car_version_id r of None \<Rightarrow> (True, 0) | Some i \<Rightarrow> (False, i)), car_source r)"

definition fetch_advisory_rows :: "crate_advisory_row list \<Rightarrow> int list \<Rightarrow> crate_advisory_row list" where
  "fetch_advisory_rows table crate_ids =
     sort_key advisory_row_key (filter (\<lambda>r. car_crate_id r \<in> set crate_ids) table)"

definition adoption_signal :: "nat \<Rightarrow> bool \<Rightarrow> string" where
  "adoption_signal downloads yanked =
     (if yanked then ''deprecated''
      else if downloads \<ge> 1000000 then ''high''
      else if downloads \<ge> 100000 then ''medium''
      else ''low'')"

definition timeline_item ::
  "('v::linorder, 'r) semver_api \<Rightarrow> crate_advisory_row list \<Rightarrow> string \<Rightarrow> crate_version_timeline_row \<Rightarrow> crate_version_timeline_item" where
  "timeline_item sv advisory_rows latest_version row =
     (let is_latest = (tr_version row = latest_version);
          counts = advisory_counts sv advisory_rows (int (tr_version_id row)) (tr_version row);
          markers = (if is_latest then [''latest''] else []) @ (if tr_yanked row then [''yanked''] else []) @
            (if ac_affected counts > 0 then [''security_advisory''] else []) @
            (if ac_unknown counts > 0 then [''security_advisory_unknown''] else []) @
            (case tr_release_age_days row of None \<Rightarrow> [] | Some days \<Rightarrow> if days \<ge> 365 then [''legacy''] else [])
      in \<lparr>ti_version = tr_version row, ti_rust_version = tr_rust_version row,
          ti_published_at = tr_published_at row, ti_yanked = tr_yanked row, ti_downloads = tr_total_downloads row,
          ti_advisory_count = ac_affected counts, ti_release_age_days = tr_release_age_days row,
          ti_is_latest = is_latest, ti_adoption_signal = adoption_signal (tr_total_downloads row) (tr_yanked row),
          ti_markers = markers\<rparr>)"

section \<open>The handler\<close>

record response_freshness_source =
  rf_source :: string
  rf_status :: string
  rf_checked_at :: "string option"

definition build_crate_freshness_sources :: "string option \<Rightarrow> string \<Rightarrow> response_freshness_source list" where
  "build_crate_freshness_sources local_checked_at crates_io_status =
     [\<lparr>rf_source = ''local_postgres_index'', rf_status = ''fresh'', rf_checked_at = local_checked_at\<rparr>,
      \<lparr>rf_source = ''crates.io'', rf_status = crates_io_status, rf_checked_at = None\<rparr>]"

record crate_versions_request =
  vq_crate_name :: string
  vq_cursor :: "string option"
  vq_page :: "u32 option"
  vq_limit :: "u32 option"

record crate_versions_response =
  vp_crate_name :: string
  vp_cursor :: "string option"
  vp_next_cursor :: "string option"
  vp_page :: u32
  vp_limit :: u32
  vp_has_more :: bool
  vp_truncated :: bool
  vp_latest_rust_version :: "string option"
  vp_count :: nat
  vp_versions :: "crate_version_timeline_item list"
  vp_freshness_check_performed :: bool
  vp_freshness_check_result :: string
  vp_refresh_enqueued :: bool
  vp_refresh_job_id :: "string option"
  vp_freshness :: "response_freshness_source list"
  vp_confidence :: string
  vp_confidence_assessment :: confidence_assessment
  vp_suggested_next_tools :: "string list"
  vp_provenance :: string

definition versions_confidence :: "crate_version_timeline_item list \<Rightarrow> confidence_assessment" where
  "versions_confidence its =
     (if its = [] then \<lparr>ca_level = Low, ca_reason = ''no versions were returned from local index for selected crate''\<rparr>
      else if list_ex (\<lambda>v. list_ex (\<lambda>m. m = ''security_advisory_unknown'') (ti_markers v)) its
      then \<lparr>ca_level = Medium, ca_reason = ''some listed versions have advisories of unknown applicability''\<rparr>
      else \<lparr>ca_level = High, ca_reason = ''version timeline resolved from indexed crate versions and advisories''\<rparr>)"

definition versions_pagination ::
  "crate_versions_cursor_token codec \<Rightarrow> crate_versions_request \<Rightarrow> (string \<times> string option \<times> pagination_params) result" where
  "versions_pagination cd request =
     (case normalize_required (vq_crate_name request) ''crate_name'' of
        Inl e \<Rightarrow> Inl e
      | Inr crate_name \<Rightarrow>
          (let cursor = normalize_optional (vq_cursor request);
               page = sync_page (vq_page request); requested_limit = version_limit (vq_limit request)
           in case (case cursor of None \<Rightarrow> Inr None
                    | Some c \<Rightarrow> (case decode_cursor cd crate_versions_ops c of Inl e \<Rightarrow> Inl e | Inr t \<Rightarrow> Inr (Some t))) of
                Inl e \<Rightarrow> Inl e
              | Inr decoded \<Rightarrow>
                  if (case decoded of None \<Rightarrow> False | Some t \<Rightarrow> vt_crate_name t \<noteq> crate_name)
                  then Inl ''cursor does not match current crate_versions filters''
                  else (case resolve_pagination crate_versions_ops decoded (vq_limit request \<noteq> None) requested_limit page of
                      Inl e \<Rightarrow> Inl e
                    | Inr pag \<Rightarrow> Inr (crate_name, cursor, pag))))"

definition versions_items ::
  "(int \<Rightarrow> string) \<Rightarrow> int \<Rightarrow> ('v::linorder, 'r) semver_api \<Rightarrow> crate_advisory_row list \<Rightarrow> crate_context \<Rightarrow> crate_store \<Rightarrow>
   nat \<Rightarrow> nat \<Rightarrow> crate_version_timeline_item list" where
  "versions_items show_time now sv table ctx st lim off =
     map (timeline_item sv (fetch_advisory_rows table [int (cc_id (cx_crate_row ctx))]) (cv_version (cx_latest_version ctx)))
       (list_crate_version_timeline show_time now st (cc_id (cx_crate_row ctx)) lim off)"

definition handle_crate_versions ::
  "(int \<Rightarrow> string) \<Rightarrow> crate_versions_cursor_token codec \<Rightarrow> ('v::linorder, 'r) semver_api \<Rightarrow> fresh_env \<Rightarrow>
   string option \<Rightarrow> string option \<Rightarrow> crate_advisory_row list \<Rightarrow> crate_versions_request \<Rightarrow> server_state \<Rightarrow>
   crate_versions_response result \<times> server_state" where
  "handle_crate_versions show_time cd sv env timeline_error advisory_error table request srv =
     (case versions_pagination cd request of
        Inl e \<Rightarrow> (Inl e, srv)
      | Inr (crate_name, cursor, pag) \<Rightarrow>
     (case fetch_crate_context env crate_name srv of
        (Inl e, srv') \<Rightarrow> (Inl e, srv')
      | (Inr ctx, srv') \<Rightarrow>
     (let name = cc_name (cx_crate_row ctx); fresh = cx_freshness_outcome ctx
      in case (timeline_error, advisory_error) of
           (Some e, _) \<Rightarrow> (Inl (''version timeline query failed for '' @ name @ '': '' @ e), srv')
         | (None, Some e) \<Rightarrow> (Inl (''advisory query failed for '' @ name @ '': '' @ e), srv')
         | (None, None) \<Rightarrow>
             (let rows = versions_items show_time (fe_now env) sv table ctx (sv_store srv')
                           (unat (saturating_add (pp_limit pag) 1)) (unat (pp_offset pag))
              in case apply_pagination_limit cd rows (pp_limit pag) (pp_offset pag)
                        (next_versions_token crate_name (pp_limit pag)) of
                   Inl e \<Rightarrow> (Inl e, srv')
                 | Inr paginated \<Rightarrow>
                     (let assessment = versions_confidence (items paginated)
                      in (Inr \<lparr>vp_crate_name = name, vp_cursor = cursor, vp_next_cursor = next_cursor paginated,
                               vp_page = pp_effective_page pag, vp_limit = pp_limit pag,
                               vp_has_more = has_more paginated, vp_truncated = has_more paginated,
                               vp_latest_rust_version = cv_rust_version (cx_latest_version ctx),
                               vp_count = length (items paginated), vp_versions = items paginated,
                               vp_freshness_check_performed = io_freshness_check_performed fresh,
                               vp_freshness_check_result = io_freshness_check_result fresh,
                               vp_refresh_enqueued = io_refresh_enqueued fresh,
                               vp_refresh_job_id = io_refresh_job_id fresh,
                               vp_freshness = build_crate_freshness_sources (Some (show_time (cc_updated_at (cx_crate_row ctx))))
                                 (io_freshness_check_result fresh),
                               vp_confidence = confidence_as_str (ca_level assessment),
                               vp_confidence_assessment = assessment,
                               vp_suggested_next_tools = [''crate_intel'', ''crate_graph'', ''index_refresh''],
                               vp_provenance = ''local_postgres_index''\<rparr>, srv'))))))"

section \<open>Pages and their sequence\<close>

definition all_items ::
  "(int \<Rightarrow> string) \<Rightarrow> int \<Rightarrow> ('v::linorder, 'r) semver_api \<Rightarrow> crate_advisory_row list \<Rightarrow> crate_context \<Rightarrow> crate_store \<Rightarrow>
   crate_version_timeline_item list" where
  "all_items show_time now sv table ctx st =
     map (timeline_item sv (fetch_advisory_rows table [int (cc_id (cx_crate_row ctx))]) (cv_version (cx_latest_version ctx)))
       (map (timeline_row show_time now) (crate_timeline st (cc_id (cx_crate_row ctx))))"

lemma versions_items_slice:
  "lim \<noteq> 0 \<Longrightarrow> versions_items show_time now sv table ctx st lim off = take lim (drop off (all_items show_time now sv table ctx st))"
proof -
  assume "lim \<noteq> 0"
  then have "max lim 1 = lim" by simp
  then show ?thesis by (simp only: versions_items_def list_crate_version_timeline_def all_items_def take_map drop_map)
qed

lemma handle_crate_versions_cases:
  assumes "handle_crate_versions show_time cd sv env te ae table request srv = (Inr resp, srv')"
  obtains crate_name cursor pag ctx paginated where
    "versions_pagination cd request = Inr (crate_name, cursor, pag)"
    "fetch_crate_context env crate_name srv = (Inr ctx, srv')"
    "apply_pagination_limit cd (versions_items show_time (fe_now env) sv table ctx (sv_store srv')
        (unat (saturating_add (pp_limit pag) 1)) (unat (pp_offset pag))) (pp_limit pag) (pp_offset pag)
        (next_versions_token crate_name (pp_limit pag)) = Inr paginated"
    "vp_versions resp = items paginated" "vp_has_more resp = has_more paginated"
    "vp_next_cursor resp = next_cursor paginated" "vp_count resp = length (items paginated)"
  using assms unfolding handle_crate_versions_def Let_def
  by (auto split: sum.splits prod.splits option.splits)

text \<open>
  A page of \<open>crate_versions\<close> is the requested slice of the crate's timeline (newest first): the
  entries from the offset on, at most \<open>limit\<close> of them, with \<open>has_more\<close> exactly when entries remain
  and a next cursor exactly then.
\<close>

theorem crate_versions_page:
  assumes "handle_crate_versions show_time cd sv env te ae table request srv = (Inr resp, srv')"
    and "versions_pagination cd request = Inr (crate_name, cursor, pag)" and "unat (pp_limit pag) < 2 ^ 32 - 1"
  shows "\<exists>ctx. fetch_crate_context env crate_name srv = (Inr ctx, srv') \<and>
    (let its = all_items show_time (fe_now env) sv table ctx (sv_store srv'); off = unat (pp_offset pag); lim = unat (pp_limit pag)
     in vp_versions resp = take lim (drop off its) \<and> vp_count resp = length (vp_versions resp) \<and>
        (vp_has_more resp \<longleftrightarrow> off + lim < length its) \<and> (vp_next_cursor resp \<noteq> None \<longleftrightarrow> vp_has_more resp))"
proof -
  obtain ctx paginated where c: "fetch_crate_context env crate_name srv = (Inr ctx, srv')"
    and a: "apply_pagination_limit cd (versions_items show_time (fe_now env) sv table ctx (sv_store srv')
        (unat (saturating_add (pp_limit pag) 1)) (unat (pp_offset pag))) (pp_limit pag) (pp_offset pag)
        (next_versions_token crate_name (pp_limit pag)) = Inr paginated"
    and r: "vp_versions resp = items paginated" "vp_has_more resp = has_more paginated"
      "vp_next_cursor resp = next_cursor paginated" "vp_count resp = length (items paginated)"
    using handle_crate_versions_cases [OF assms(1)] assms(2) by (metis Pair_inject sum.inject(2))
  have u: "unat (saturating_add (pp_limit pag) 1) = Suc (unat (pp_limit pag))"
    using assms(3) by (simp add: unat_saturating_add)
  have its: "versions_items show_time (fe_now env) sv table ctx (sv_store srv')
        (unat (saturating_add (pp_limit pag) 1)) (unat (pp_offset pag)) =
      take (Suc (unat (pp_limit pag))) (drop (unat (pp_offset pag)) (all_items show_time (fe_now env) sv table ctx (sv_store srv')))"
    unfolding u by (rule versions_items_slice) simp
  show ?thesis
    using c r apply_pagination_limit_Inr [OF a] unfolding its
    by (intro exI [of _ ctx]) (auto simp: Let_def less_diff_conv add.commute)
qed

text \<open>
  Following \<open>next_cursor\<close> from the first page to the end terminates and enumerates the whole
  timeline: for any number of rows below \<open>2 ^ 32\<close> and any requested limit, the pages concatenated
  are the rows, in order, each once, and no page exceeds 500 entries.
\<close>

theorem crate_versions_enumeration:
  assumes "lossless cd" and "length rows < 2 ^ 32"
  shows "\<exists>pages. follow_cursors (Suc (length rows)) cd crate_versions_ops (next_versions_token crate_name) rows
      (version_limit req) 0 = Inr pages \<and> concat pages = rows \<and> list_all (\<lambda>p. length p \<le> 500) pages"
proof -
  let ?l = "version_limit req"
  have b: "?l \<le> 500" "?l \<noteq> 0" using version_limit.bounds [of req] version_limit.nonzero [of req] by auto
  then have "unat ?l \<le> 500" by (simp add: word_le_nat_alt)
  moreover obtain pages where "follow_cursors (Suc (length rows)) cd crate_versions_ops (next_versions_token crate_name) rows ?l 0 = Inr pages"
    "concat pages = rows" "\<forall>p \<in> set pages. length p \<le> unat ?l"
    using versions_cursor.follow_complete [of cd ?l rows 0 "Suc (length rows)" crate_name] assms b \<open>unat ?l \<le> 500\<close> by auto
  ultimately show ?thesis by (fastforce simp: list_all_iff)
qed

definition plain_codec :: "crate_versions_cursor_token codec" where
  "plain_codec =
     \<lparr>to_vec = (\<lambda>t. Inr (char_of (unat (vt_v t)) # replicate (unat (vt_offset t)) CHR ''o'' @ [CHR ''l''] @
                  replicate (unat (vt_limit t)) CHR ''n'' @ [CHR ''l''] @ vt_crate_name t)),
      from_slice = (\<lambda>bs. case bs of
         [] \<Rightarrow> Inl ''empty''
       | v # r \<Rightarrow> (let off = takeWhile (\<lambda>c. c = CHR ''o'') r; r1 = drop (Suc (length off)) r;
                      lim = takeWhile (\<lambda>c. c = CHR ''n'') r1
                  in Inr \<lparr>vt_v = word_of_nat (of_char v), vt_offset = word_of_nat (length off),
                          vt_limit = word_of_nat (length lim), vt_crate_name = drop (Suc (length lim)) r1\<rparr>)),
      b64_encode = (\<lambda>s. s), b64_decode = Inr\<rparr>"

lemma takeWhile_replicate_sep: "c \<noteq> d \<Longrightarrow> takeWhile (\<lambda>x. x = c) (replicate n c @ d # s) = replicate n c"
  by (induction n) auto

lemma plain_codec_lossless: "lossless plain_codec"
proof -
  have "from_slice plain_codec (char_of (unat (vt_v t)) # replicate (unat (vt_offset t)) CHR ''o'' @ [CHR ''l''] @
                  replicate (unat (vt_limit t)) CHR ''n'' @ [CHR ''l''] @ vt_crate_name t) = Inr t" for t
  proof -
    have "unat (vt_v t) < 2 ^ LENGTH(8)" by (rule unsigned_less)
    then show ?thesis by (simp add: plain_codec_def Let_def takeWhile_replicate_sep)
  qed
  then show ?thesis by (simp add: lossless_def) (simp add: plain_codec_def)
qed

theorem crate_versions_enumeration_witness:
  "\<exists>pages. follow_cursors (Suc (length [1, 2, 3 :: nat])) plain_codec crate_versions_ops
      (next_versions_token ''serde'') [1, 2, 3 :: nat] (version_limit (Some 2)) 0 = Inr pages \<and> concat pages = [1, 2, 3]"
proof -
  have "length [1, 2, 3 :: nat] < 2 ^ 32" by simp
  from crate_versions_enumeration [OF plain_codec_lossless this, of "''serde''" "Some 2"] show ?thesis by blast
qed

definition sample_versions_request :: crate_versions_request where
  "sample_versions_request = \<lparr>vq_crate_name = '' Serde'', vq_cursor = None, vq_page = None, vq_limit = Some 1\<rparr>"

definition sample_versions_call :: "crate_versions_response result \<times> server_state" where
  "sample_versions_call = handle_crate_versions (\<lambda>_. []) plain_codec sample_semver (sample_fresh_env ''1.0.0'' 1000)
     None None [] sample_versions_request sample_server"

lemma sample_versions_pagination:
  "versions_pagination plain_codec sample_versions_request =
     Inr (''Serde'', None, \<lparr>pp_offset = 0, pp_limit = 1, pp_effective_page = 1\<rparr>)"
proof -
  have "normalize_required '' Serde'' ''crate_name'' = Inr ''Serde''" by code_simp
  then show ?thesis
    by (simp add: versions_pagination_def sample_versions_request_def normalize_optional_def version_limit_def
        sync_page_def resolve_pagination_def clamp_def)
qed

lemma sample_versions_context:
  "case fetch_crate_context (sample_fresh_env ''1.0.0'' 1000) ''Serde'' sample_server of (Inr _, _) \<Rightarrow> True | _ \<Rightarrow> False"
  by code_simp

lemma apply_pagination_total: "lossless cd \<Longrightarrow> \<exists>r. apply_pagination_limit cd its l off mk = Inr r"
  unfolding lossless_def apply_pagination_limit_def encode_cursor_def Let_def
  by (auto split: sum.split) (metis Inl_Inr_False)

lemma sample_versions_ok: "\<exists>resp srv'. sample_versions_call = (Inr resp, srv')"
proof -
  obtain ctx srv' where c: "fetch_crate_context (sample_fresh_env ''1.0.0'' 1000) ''Serde'' sample_server = (Inr ctx, srv')"
    using sample_versions_context by (auto split: prod.splits sum.splits)
  obtain r where r: "apply_pagination_limit plain_codec (versions_items (\<lambda>_. []) (fe_now (sample_fresh_env ''1.0.0'' 1000))
      sample_semver [] ctx (sv_store srv') (unat (saturating_add 1 (1 :: u32))) (unat (0 :: u32))) 1 0
      (next_versions_token ''Serde'' 1) = Inr r"
    using apply_pagination_total [OF plain_codec_lossless] by blast
  show ?thesis
    unfolding sample_versions_call_def handle_crate_versions_def sample_versions_pagination sum.case prod.case c
    by (simp only: Let_def option.case prod.case pagination_params.select_convs r sum.case) blast
qed

theorem crate_versions_page_witness:
  "case sample_versions_call of
     (Inr resp, srv') \<Rightarrow> vp_count resp = length (vp_versions resp) \<and> (vp_next_cursor resp \<noteq> None \<longleftrightarrow> vp_has_more resp)
   | _ \<Rightarrow> False"
proof -
  obtain resp srv' where r: "sample_versions_call = (Inr resp, srv')" using sample_versions_ok by blast
  from crate_versions_page [OF r [unfolded sample_versions_call_def] sample_versions_pagination] show ?thesis
    unfolding r by (auto simp: Let_def)
qed

end
