(* ===== verification/Graph_Cycles.thy ===== *)
theory Graph_Cycles
  imports Prelude
begin

text \<open>
  \<open>detect_cycle_presence\<close> of \<open>tools/krate/graph.rs\<close>: a depth-first search with three colours over
  the crate names of the returned edges.  The adjacency \<open>HashMap\<close> and its \<open>HashSet\<close>s are lists in
  an unspecified iteration order; the theorem holds for every order.
\<close>

section \<open>The search\<close>

datatype color = White | Gray | Black

type_synonym adjacency = "(string \<times> string list) list"
type_synonym colors = "string \<Rightarrow> color option"

definition neighbors :: "adjacency \<Rightarrow> string \<Rightarrow> string list" where
  "neighbors adj node = (case map_of adj node of None \<Rightarrow> [] | Some ns \<Rightarrow> ns)"

definition color_of :: "colors \<Rightarrow> string \<Rightarrow> color" where
  "color_of colors node = unwrap_or (colors node) White"

lemma color_of_upd [simp]: "color_of (c(n \<mapsto> x)) m = (if m = n then x else color_of c m)"
  by (simp add: color_of_def)

definition whites :: "adjacency \<Rightarrow> colors \<Rightarrow> string set" where
  "whites adj c = {n \<in> fst ` set adj. color_of c n = White}"

lemma finite_whites [simp]: "finite (whites adj c)"
  by (simp add: whites_def)

lemma neighbors_no_key: "n \<notin> fst ` set adj \<Longrightarrow> neighbors adj n = []"
  by (simp add: neighbors_def map_of_eq_None_iff [THEN iffD2])

definition search_order :: "(adjacency \<times> string \<times> colors + adjacency \<times> string list \<times> colors) rel" where
  "search_order = inv_image (less_than <*lex*> less_than)
     (\<lambda>x. case x of Inl (adj, n, c) \<Rightarrow> (card (whites adj c - {n}), 2 * length (neighbors adj n) + 1)
                  | Inr (adj, ns, c) \<Rightarrow> (card (whites adj c), 2 * length ns))"

lemma whites_gray: "whites adj (c(n \<mapsto> Gray)) = whites adj c - {n}"
  by (auto simp: whites_def)

lemma call_visit: "color_of c n = White \<Longrightarrow> (Inl (adj, n, c), Inr (adj, n # ns, c)) \<in> search_order"
proof (cases "n \<in> fst ` set adj")
  case True
  assume "color_of c n = White"
  with True have "n \<in> whites adj c" by (simp add: whites_def)
  then have "card (whites adj c - {n}) < card (whites adj c)" by (intro psubset_card_mono) auto
  then show ?thesis by (simp add: search_order_def)
next
  case False
  then have "whites adj c - {n} = whites adj c" by (auto simp: whites_def)
  with False show ?thesis by (simp add: search_order_def neighbors_no_key)
qed

text \<open>
  \<open>visit\<close> and the loop over the neighbours inside it; the first component of the result is the
  returned Boolean, the second the colours left behind.
\<close>

function (sequential) visit :: "adjacency \<Rightarrow> string \<Rightarrow> colors \<Rightarrow> bool \<times> colors"
  and visit_neighbors :: "adjacency \<Rightarrow> string list \<Rightarrow> colors \<Rightarrow> bool \<times> colors" where
  "visit adj node colors =
     (case visit_neighbors adj (neighbors adj node) (colors(node \<mapsto> Gray)) of
        (True, colors') \<Rightarrow> (True, colors')
      | (False, colors') \<Rightarrow> (False, colors'(node \<mapsto> Black)))"
| "visit_neighbors adj [] colors = (False, colors)"
| "visit_neighbors adj (n # ns) colors =
     (case color_of colors n of
        Gray \<Rightarrow> (True, colors)
      | Black \<Rightarrow> visit_neighbors adj ns colors
      | White \<Rightarrow> (case visit adj n colors of
            (True, colors') \<Rightarrow> (True, colors')
          | (False, colors') \<Rightarrow> visit_neighbors adj ns colors'))"
  by pat_completeness auto

termination
proof (relation search_order)
  have grow:
    "visit_visit_neighbors_dom (Inl (adj, n, c)) \<Longrightarrow> visit adj n c = (b, c') \<Longrightarrow> whites adj c' \<subseteq> whites adj c"
    "visit_visit_neighbors_dom (Inr (adj, ns, c)) \<Longrightarrow> visit_neighbors adj ns c = (b, c') \<Longrightarrow> whites adj c' \<subseteq> whites adj c"
    for adj n ns c b c'
  proof (induction arbitrary: b c' and b c' rule: visit_visit_neighbors.pinduct)
    case (1 adj node colors)
    then show ?case
      by (fastforce simp: visit.psimps whites_def split: prod.splits bool.splits if_splits)
  next
    case (2 adj colors)
    then show ?case by (simp add: visit_neighbors.psimps)
  next
    case (3 adj n ns colors)
    then show ?case
      by (auto simp: visit_neighbors.psimps split: prod.splits bool.splits color.splits) blast+
  qed
  show "(Inr (adj, ns, c'), Inr (adj, n # ns, c)) \<in> search_order"
    if "color_of c n = White" "(b, c') = visit adj n c" "b = False"
       "visit_visit_neighbors_dom (Inl (adj, n, c))" for adj n ns c b c'
  proof -
    have "card (whites adj c') \<le> card (whites adj c)"
      using grow(1) [OF that(4) that(2) [symmetric]] by (intro card_mono) auto
    then show ?thesis by (auto simp: search_order_def)
  qed
  show "wf search_order" by (simp add: search_order_def wf_lex_prod)
qed (simp_all add: call_visit, simp_all add: search_order_def whites_gray)

declare visit.simps [simp del] visit_neighbors.simps [simp del]

fun search_keys :: "adjacency \<Rightarrow> string list \<Rightarrow> colors \<Rightarrow> bool" where
  "search_keys adj [] colors = False"
| "search_keys adj (node # nodes) colors =
     (if color_of colors node = White
      then (case visit adj node colors of (True, _) \<Rightarrow> True | (False, colors') \<Rightarrow> search_keys adj nodes colors')
      else search_keys adj nodes colors)"

definition detect_cycle :: "adjacency \<Rightarrow> bool" where
  "detect_cycle adj = search_keys adj (map fst adj) Map.empty"

section \<open>Correctness\<close>

definition adj_rel :: "adjacency \<Rightarrow> (string \<times> string) set" where
  "adj_rel adj = {(u, v). v \<in> set (neighbors adj u)}"

definition grays :: "colors \<Rightarrow> string set" where
  "grays c = {n. color_of c n = Gray}"

definition blacks :: "colors \<Rightarrow> string set" where
  "blacks c = {n. color_of c n = Black}"

definition finished :: "adjacency \<Rightarrow> colors \<Rightarrow> bool" where
  "finished adj c \<longleftrightarrow> (\<forall>u \<in> blacks c. (u, u) \<notin> (adj_rel adj)\<^sup>+ \<and> set (neighbors adj u) \<subseteq> blacks c)"

lemma grays_upd [simp]:
  "grays (c(n \<mapsto> Gray)) = insert n (grays c)"
  "grays (c(n \<mapsto> Black)) = grays c - {n}"
  by (auto simp: grays_def)

lemma blacks_upd [simp]:
  "blacks (c(n \<mapsto> Gray)) = blacks c - {n}"
  "blacks (c(n \<mapsto> Black)) = insert n (blacks c)"
  by (auto simp: blacks_def)

text \<open>Closing a node whose neighbours are all finished: it can lie on no cycle.\<close>

lemma finished_closed:
  assumes "finished adj c" and "u \<in> blacks c" and "(u, v) \<in> (adj_rel adj)\<^sup>*"
  shows "v \<in> blacks c"
  using assms(3,2)
proof (induction rule: rtrancl_induct)
  case (step y z)
  with assms(1) show ?case by (auto simp: finished_def adj_rel_def)
qed

lemma finished_close:
  assumes fin: "finished adj c" and n: "n \<notin> blacks c" and sub: "set (neighbors adj n) \<subseteq> blacks c"
  shows "finished adj (c(n \<mapsto> Black))"
proof -
  have "(n, n) \<notin> (adj_rel adj)\<^sup>+"
  proof
    assume "(n, n) \<in> (adj_rel adj)\<^sup>+"
    then obtain v where "(n, v) \<in> adj_rel adj" "(v, n) \<in> (adj_rel adj)\<^sup>*" by (blast dest: tranclD)
    with sub finished_closed [OF fin, of v n] n show False by (auto simp: adj_rel_def)
  qed
  with fin sub show ?thesis by (auto simp: finished_def)
qed

lemma visit_correct:
  "visit adj n c = (b, c') \<Longrightarrow> color_of c n = White \<Longrightarrow> finished adj c \<Longrightarrow>
     (\<forall>g \<in> grays c. (g, n) \<in> (adj_rel adj)\<^sup>+) \<Longrightarrow>
     (if b then \<exists>u. (u, u) \<in> (adj_rel adj)\<^sup>+
      else finished adj c' \<and> grays c' = grays c \<and> insert n (blacks c) \<subseteq> blacks c')"
  "visit_neighbors adj ns c = (b, c') \<Longrightarrow> finished adj c \<Longrightarrow>
     (\<forall>g \<in> grays c. \<forall>v \<in> set ns. (g, v) \<in> (adj_rel adj)\<^sup>+) \<Longrightarrow>
     (if b then \<exists>u. (u, u) \<in> (adj_rel adj)\<^sup>+
      else finished adj c' \<and> grays c' = grays c \<and> set ns \<union> blacks c \<subseteq> blacks c')"
proof (induction adj n c and adj ns c arbitrary: b c' and b c' rule: visit_visit_neighbors.induct)
  case (1 adj n c)
  obtain r c1 where loop: "visit_neighbors adj (neighbors adj n) (c(n \<mapsto> Gray)) = (r, c1)" by fastforce
  have nb: "n \<notin> blacks c" "n \<notin> grays c" using 1(3) by (auto simp: blacks_def grays_def)
  then have f: "finished adj (c(n \<mapsto> Gray))" using 1(4) by (auto simp: finished_def)
  have g: "\<forall>g \<in> grays (c(n \<mapsto> Gray)). \<forall>v \<in> set (neighbors adj n). (g, v) \<in> (adj_rel adj)\<^sup>+"
    using 1(5) by (auto simp: adj_rel_def intro: trancl_into_trancl)
  have ih: "if r then \<exists>u. (u, u) \<in> (adj_rel adj)\<^sup>+
      else finished adj c1 \<and> grays c1 = insert n (grays c) \<and> set (neighbors adj n) \<union> blacks c \<subseteq> blacks c1"
    using 1(1) [OF loop f g] nb by (simp only: grays_upd blacks_upd) (auto split: if_splits)
  show ?case
  proof (cases r)
    case False
    with ih have "n \<in> grays c1" by auto
    then have "n \<notin> blacks c1" by (simp add: grays_def blacks_def)
    with False ih have "finished adj (c1(n \<mapsto> Black))" by (auto intro: finished_close)
    with 1(2) False loop ih nb show ?thesis by (auto simp: visit.simps)
  qed (use 1(2) loop ih in \<open>auto simp: visit.simps\<close>)
next
  case (2 adj c)
  then show ?case by (simp add: visit_neighbors.simps)
next
  case (3 adj n ns c)
  show ?case
  proof (cases "color_of c n")
    case White
    obtain r c1 where v: "visit adj n c = (r, c1)" by fastforce
    have ih: "if r then \<exists>u. (u, u) \<in> (adj_rel adj)\<^sup>+
       else finished adj c1 \<and> grays c1 = grays c \<and> insert n (blacks c) \<subseteq> blacks c1"
      using 3(1) [OF White v White 3(5)] 3(6) by auto
    show ?thesis
    proof (cases r)
      case False
      with ih have c1: "finished adj c1" "grays c1 = grays c" "insert n (blacks c) \<subseteq> blacks c1" by auto
      have "visit_neighbors adj ns c1 = (b, c')" using 3(4) White v False by (simp add: visit_neighbors.simps)
      then show ?thesis
        using 3(2) [OF White v [symmetric], of b c'] 3(6) c1 False by (auto split: if_splits)
    qed (use 3(4) White v ih in \<open>auto simp: visit_neighbors.simps\<close>)
  next
    case Gray
    then have "(n, n) \<in> (adj_rel adj)\<^sup>+" using 3(6) by (auto simp: grays_def)
    with 3(4) Gray show ?thesis by (auto simp: visit_neighbors.simps)
  next
    case Black
    then have "visit_neighbors adj ns c = (b, c')" "n \<in> blacks c"
      using 3(4) by (simp_all add: visit_neighbors.simps blacks_def)
    then show ?thesis using 3(3) [OF Black _ 3(5)] 3(6) by (auto split: if_splits)
  qed
qed

lemma search_keys_correct:
  "finished adj c \<Longrightarrow> grays c = {} \<Longrightarrow>
     (if search_keys adj ns c then \<exists>u. (u, u) \<in> (adj_rel adj)\<^sup>+
      else \<exists>c'. finished adj c' \<and> set ns \<union> blacks c \<subseteq> blacks c')"
proof (induction ns arbitrary: c)
  case (Cons n ns)
  show ?case
  proof (cases "color_of c n = White")
    case True
    obtain r c1 where v: "visit adj n c = (r, c1)" by fastforce
    have c1: "if r then \<exists>u. (u, u) \<in> (adj_rel adj)\<^sup>+
       else finished adj c1 \<and> grays c1 = {} \<and> insert n (blacks c) \<subseteq> blacks c1"
      using visit_correct(1) [OF v True Cons.prems(1)] Cons.prems(2) by auto
    show ?thesis
    proof (cases r)
      case False
      with c1 Cons.IH [of c1] v True show ?thesis by (auto split: if_splits) blast+
    qed (use v True c1 in auto)
  next
    case False
    then have "n \<in> blacks c" using Cons.prems(2) by (cases "color_of c n") (auto simp: blacks_def grays_def)
    with False Cons.IH [OF Cons.prems] show ?thesis by (auto split: if_splits)
  qed
qed auto

lemma adj_rel_key: "(u, v) \<in> adj_rel adj \<Longrightarrow> u \<in> fst ` set adj"
  using neighbors_no_key [of u adj] by (force simp: adj_rel_def)

lemma detect_cycle_iff: "detect_cycle adj \<longleftrightarrow> \<not> acyclic (adj_rel adj)"
proof -
  have "finished adj Map.empty" "grays Map.empty = {}" "blacks Map.empty = {}"
    by (auto simp: finished_def grays_def blacks_def color_of_def)
  with search_keys_correct [of adj Map.empty "map fst adj"]
  have c: "if detect_cycle adj then \<exists>u. (u, u) \<in> (adj_rel adj)\<^sup>+
     else \<exists>c'. finished adj c' \<and> fst ` set adj \<subseteq> blacks c'"
    by (auto simp: detect_cycle_def split: if_splits)
  have "(u, u) \<notin> (adj_rel adj)\<^sup>+" if "finished adj c'" "fst ` set adj \<subseteq> blacks c'" for u c'
  proof
    assume u: "(u, u) \<in> (adj_rel adj)\<^sup>+"
    then obtain v where "(u, v) \<in> adj_rel adj" by (blast dest: tranclD)
    then have "u \<in> blacks c'" using that(2) by (auto dest: adj_rel_key)
    with that(1) u show False by (simp add: finished_def)
  qed
  with c show ?thesis by (auto simp: acyclic_def split: if_splits)
qed

end
