(* ===== verification/Crate_Graph.thy ===== *)
theory Crate_Graph
  imports Crate_Versions Graph_Cycles
begin

text \<open>
  The \<open>crate_graph\<close> tool (\<open>tools/krate/graph.rs\<close>): level-by-level traversal of the
  \<open>dependency_edges\<close> table towards dependencies and dependents, the distance bookkeeping and the
  response.  The two traversal loops have one shape, \<open>traverse\<close>; \<open>level_traversal\<close> is its contract.
\<close>

section \<open>Data\<close>

datatype crate_graph_direction = Dependencies | Dependents | Both

record crate_graph_request =
  gq_crate_name :: string
  gq_version :: "string option"
  gq_direction :: "crate_graph_direction option"
  gq_depth :: "u32 option"

record crate_graph_node =
  gn_crate_name :: string
  gn_latest_version :: "string option"
  gn_min_distance :: u32
  gn_role :: string

record crate_graph_edge =
  gg_from_crate :: string
  gg_from_version :: "string option"
  gg_to_crate :: string
  gg_to_version :: "string option"
  gg_requirement :: string
  gg_dependency_kind :: string
  gg_optional :: bool
  gg_depth :: u32

record crate_graph_response =
  gr_crate_name :: string
  gr_selected_version :: string
  gr_direction :: crate_graph_direction
  gr_depth :: u32
  gr_node_count :: nat
  gr_edge_count :: nat
  gr_nodes :: "crate_graph_node list"
  gr_edges :: "crate_graph_edge list"
  gr_cycle_safe_traversal_notes :: "string list"
  gr_freshness_check_performed :: bool
  gr_freshness_check_result :: string
  gr_refresh_enqueued :: bool
  gr_refresh_job_id :: "string option"
  gr_freshness :: "response_freshness_source list"
  gr_confidence :: string
  gr_confidence_assessment :: confidence_assessment
  gr_suggested_next_tools :: "string list"
  gr_provenance :: string

section \<open>Cycle notes\<close>

fun add_adjacency :: "string \<Rightarrow> string \<Rightarrow> adjacency \<Rightarrow> adjacency" where
  "add_adjacency u v [] = [(u, [v])]"
| "add_adjacency u v ((k, ns) # adj) =
     (if k = u then (k, if v \<in> set ns then ns else ns @ [v]) # adj else (k, ns) # add_adjacency u v adj)"

definition detect_cycle_presence :: "crate_graph_edge list \<Rightarrow> bool" where
  "detect_cycle_presence edges =
     detect_cycle (fold (\<lambda>e. add_adjacency (gg_from_crate e) (gg_to_crate e)) edges [])"

definition cycle_safe_traversal_notes :: "crate_graph_edge list \<Rightarrow> u32 \<Rightarrow> string list" where
  "cycle_safe_traversal_notes edges depth =
     [''Traversal is cycle-safe: edges are deduplicated and traversal depth is bounded.'',
      ''Traversal depth cap applied: '' @ show_nat (unat depth)] @
     (if list_ex (\<lambda>e. gg_from_crate e = gg_to_crate e) edges
      then [''Self-referential edges detected in result set.''] else []) @
     (if detect_cycle_presence edges
      then [''Cycle detected in returned graph; traversal remained bounded and avoided infinite loops.'']
      else [''No directed cycles detected in returned graph slice.''])"

lemma neighbors_simps:
  "neighbors [] w = []"
  "neighbors ((k, ns) # adj) w = (if k = w then ns else neighbors adj w)"
  by (simp_all add: neighbors_def)

lemma neighbors_add:
  "set (neighbors (add_adjacency u v adj) w) = set (neighbors adj w) \<union> (if w = u then {v} else {})"
proof (induction adj)
  case (Cons p adj)
  obtain k ns where p: "p = (k, ns)" by (cases p)
  show ?case
  proof (cases "k = u")
    case True
    with p show ?thesis by (cases "w = u") (auto simp: neighbors_simps)
  next
    case False
    with p Cons show ?thesis by (cases "w = k") (simp_all add: neighbors_simps)
  qed
qed (simp add: neighbors_simps)

lemma adj_rel_fold:
  "adj_rel (fold (\<lambda>e. add_adjacency (gg_from_crate e) (gg_to_crate e)) edges adj) =
     adj_rel adj \<union> {(gg_from_crate e, gg_to_crate e) | e. e \<in> set edges}"
proof (induction edges arbitrary: adj)
  case (Cons e edges)
  have "adj_rel (add_adjacency u v adj) = insert (u, v) (adj_rel adj)" for u v
    by (auto simp: adj_rel_def neighbors_add split: if_splits)
  then show ?case by (auto simp: Cons.IH)
qed simp

text \<open>
  (C39) The cycle detector returns, for every list of edges, and answers true exactly when the edges
  contain a directed cycle; the answer does not depend on the iteration order of the hash maps.
\<close>

theorem detect_cycle_presence_correct:
  "(detect_cycle_presence edges \<longleftrightarrow>
      (\<exists>c. (c, c) \<in> {(gg_from_crate e, gg_to_crate e) | e. e \<in> set edges}\<^sup>+)) \<and>
   (detect_cycle adj \<longleftrightarrow> (\<exists>c. (c, c) \<in> (adj_rel adj)\<^sup>+))"
proof -
  have "adj_rel [] = {}" by (simp add: adj_rel_def neighbors_def)
  then show ?thesis
    by (simp add: detect_cycle_presence_def detect_cycle_iff acyclic_def adj_rel_fold)
qed

section \<open>Statements\<close>

definition version_by_id :: "crate_store \<Rightarrow> nat \<Rightarrow> version_row option" where
  "version_by_id st i = find (\<lambda>v. cv_id v = i) (st_versions st)"

definition crate_by_id :: "crate_store \<Rightarrow> nat \<Rightarrow> crate_row option" where
  "crate_by_id st i = find (\<lambda>c. cc_id c = i) (st_crates st)"

record graph_dependency_traversal_row =
  gd_from_crate_name :: string
  gd_from_version :: string
  gd_to_crate_id :: nat
  gd_to_crate_name :: string
  gd_requirement :: string
  gd_dependency_kind :: string
  gd_optional :: bool

record graph_dependent_traversal_row =
  gt_from_crate_id :: nat
  gt_from_crate_name :: string
  gt_from_version :: string
  gt_to_crate_name :: string
  gt_requirement :: string
  gt_dependency_kind :: string
  gt_optional :: bool

definition dependency_row :: "crate_store \<Rightarrow> dependency_edge_row \<Rightarrow> graph_dependency_traversal_row option" where
  "dependency_row st d =
     Option.bind (version_by_id st (er_from_version_id d)) (\<lambda>cv_from.
     Option.bind (crate_by_id st (vr_crate_id cv_from)) (\<lambda>c_from.
     map_option (\<lambda>c_to. \<lparr>gd_from_crate_name = cc_name c_from, gd_from_version = cv_version cv_from,
        gd_to_crate_id = er_to_crate_id d, gd_to_crate_name = cc_name c_to, gd_requirement = er_requirement d,
        gd_dependency_kind = er_dependency_kind d, gd_optional = er_optional d\<rparr>)
       (crate_by_id st (er_to_crate_id d))))"

definition list_graph_dependency_traversal_rows ::
  "crate_store \<Rightarrow> dependency_edge_row list \<Rightarrow> nat list \<Rightarrow> graph_dependency_traversal_row list" where
  "list_graph_dependency_traversal_rows st edges from_version_ids =
     (if from_version_ids = [] then []
      else List.map_filter (dependency_row st) (filter (\<lambda>d. er_from_version_id d \<in> set from_version_ids) edges))"

definition dependent_row :: "crate_store \<Rightarrow> dependency_edge_row \<Rightarrow> graph_dependent_traversal_row option" where
  "dependent_row st d =
     Option.bind (version_by_id st (er_from_version_id d)) (\<lambda>cv_from.
     Option.bind (crate_by_id st (vr_crate_id cv_from)) (\<lambda>c_from.
     map_option (\<lambda>c_to. \<lparr>gt_from_crate_id = vr_crate_id cv_from, gt_from_crate_name = cc_name c_from,
        gt_from_version = cv_version cv_from, gt_to_crate_name = cc_name c_to, gt_requirement = er_requirement d,
        gt_dependency_kind = er_dependency_kind d, gt_optional = er_optional d\<rparr>)
       (crate_by_id st (er_to_crate_id d))))"

definition list_graph_dependent_traversal_rows ::
  "crate_store \<Rightarrow> dependency_edge_row list \<Rightarrow> nat list \<Rightarrow> graph_dependent_traversal_row list" where
  "list_graph_dependent_traversal_rows st edges to_crate_ids =
     (if to_crate_ids = [] then []
      else List.map_filter (dependent_row st) (filter (\<lambda>d. er_to_crate_id d \<in> set to_crate_ids) edges))"

definition list_graph_latest_versions_for_crates :: "crate_store \<Rightarrow> nat list \<Rightarrow> (nat \<times> nat \<times> string) list" where
  "list_graph_latest_versions_for_crates st crate_ids =
     List.map_filter (\<lambda>i. map_option (\<lambda>v. (i, cv_id v, cv_version v)) (fetch_latest_crate_version st i))
       (sort_dedup crate_ids)"

definition latest_versions_for_crates ::
  "string option \<Rightarrow> crate_store \<Rightarrow> nat list \<Rightarrow> (nat \<times> nat \<times> string) list result" where
  "latest_versions_for_crates query_error st crate_ids =
     (if crate_ids = [] then Inr []
      else (case query_error of
              Some e \<Rightarrow> Inl (''latest-version lookup failed: '' @ e)
            | None \<Rightarrow> Inr (list_graph_latest_versions_for_crates st crate_ids)))"

section \<open>The traversal\<close>

type_synonym edge_key = "string \<times> string \<times> string \<times> string \<times> bool \<times> u32"

record graph_state =
  gs_edges :: "crate_graph_edge list"
  gs_distance :: "(string, u32) btree"
  gs_latest :: "(string, string option) btree"
  gs_seen :: "edge_key list"

definition edge_key :: "crate_graph_edge \<Rightarrow> edge_key" where
  "edge_key e = (gg_from_crate e, gg_to_crate e, gg_requirement e, gg_dependency_kind e, gg_optional e, gg_depth e)"

definition note_distance :: "string \<Rightarrow> u32 \<Rightarrow> (string, u32) btree \<Rightarrow> (string, u32) btree" where
  "note_distance name d m = bt_insert name (case bt_get m name of None \<Rightarrow> d | Some d0 \<Rightarrow> min d0 d) m"

definition push_edge :: "crate_graph_edge \<Rightarrow> graph_state \<Rightarrow> graph_state" where
  "push_edge e gs =
     (if edge_key e \<in> set (gs_seen gs) then gs
      else gs\<lparr>gs_seen := edge_key e # gs_seen gs, gs_edges := gs_edges gs @ [e]\<rparr>)"

text \<open>
  The bookkeeping for one row found at \<open>level\<close>: \<open>near\<close> is the crate on the side of the root, \<open>far\<close> the
  crate the row leads to.
\<close>

definition record_row ::
  "u32 \<Rightarrow> string \<Rightarrow> string \<Rightarrow> string option \<Rightarrow> string option \<Rightarrow> crate_graph_edge \<Rightarrow> graph_state \<Rightarrow> graph_state" where
  "record_row level near far near_version far_version edge gs =
     push_edge edge
       (gs\<lparr>gs_distance := note_distance far level (note_distance near (saturating_sub level 1) (gs_distance gs)),
           gs_latest := or_insert far far_version (or_insert near near_version (gs_latest gs))\<rparr>)"

definition dependency_step ::
  "u32 \<Rightarrow> (nat \<times> nat \<times> string) list \<Rightarrow> graph_dependency_traversal_row \<Rightarrow> graph_state \<Rightarrow> graph_state" where
  "dependency_step level next_latest row gs =
     (let to_latest_version = map_option snd (map_of next_latest (gd_to_crate_id row))
      in record_row level (gd_from_crate_name row) (gd_to_crate_name row) (Some (gd_from_version row)) to_latest_version
           \<lparr>gg_from_crate = gd_from_crate_name row, gg_from_version = Some (gd_from_version row),
            gg_to_crate = gd_to_crate_name row, gg_to_version = to_latest_version, gg_requirement = gd_requirement row,
            gg_dependency_kind = gd_dependency_kind row, gg_optional = gd_optional row, gg_depth = level\<rparr> gs)"

definition dependency_level ::
  "crate_store \<Rightarrow> dependency_edge_row list \<Rightarrow> (u32 \<Rightarrow> string option) \<Rightarrow> (u32 \<Rightarrow> string option) \<Rightarrow>
   u32 \<Rightarrow> nat list \<Rightarrow> graph_state \<Rightarrow> (nat list \<times> graph_state) result" where
  "dependency_level st edges rows_error latest_error level frontier gs =
     (case rows_error level of
        Some e \<Rightarrow> Inl (''dependency traversal failed: '' @ e)
      | None \<Rightarrow>
          (let rows = list_graph_dependency_traversal_rows st edges frontier
           in res_bind (latest_versions_for_crates (latest_error level) st (map gd_to_crate_id rows))
                (\<lambda>next_latest.
                   Inr (sort_dedup (List.map_filter (\<lambda>row. map_option fst (map_of next_latest (gd_to_crate_id row))) rows),
                        fold (dependency_step level next_latest) rows gs))))"

definition dependent_step ::
  "string \<Rightarrow> u32 \<Rightarrow> (nat \<times> nat \<times> string) list \<Rightarrow> graph_dependent_traversal_row \<Rightarrow> graph_state \<Rightarrow> graph_state" where
  "dependent_step selected_version level next_latest row gs =
     (let from_latest_version = map_option snd (map_of next_latest (gt_from_crate_id row))
      in record_row level (gt_to_crate_name row) (gt_from_crate_name row) (Some selected_version) from_latest_version
           \<lparr>gg_from_crate = gt_from_crate_name row, gg_from_version = Some (gt_from_version row),
            gg_to_crate = gt_to_crate_name row, gg_to_version = Some selected_version, gg_requirement = gt_requirement row,
            gg_dependency_kind = gt_dependency_kind row, gg_optional = gt_optional row, gg_depth = level\<rparr> gs)"

definition dependent_level ::
  "crate_store \<Rightarrow> dependency_edge_row list \<Rightarrow> string \<Rightarrow> (u32 \<Rightarrow> string option) \<Rightarrow> (u32 \<Rightarrow> string option) \<Rightarrow>
   u32 \<Rightarrow> nat list \<Rightarrow> graph_state \<Rightarrow> (nat list \<times> graph_state) result" where
  "dependent_level st edges selected_version rows_error latest_error level frontier gs =
     (case rows_error level of
        Some e \<Rightarrow> Inl (''dependent traversal failed: '' @ e)
      | None \<Rightarrow>
          (let rows = list_graph_dependent_traversal_rows st edges frontier
           in res_bind (latest_versions_for_crates (latest_error level) st (map gt_from_crate_id rows))
                (\<lambda>next_latest. Inr (sort_dedup (map gt_from_crate_id rows),
                                   fold (dependent_step selected_version level next_latest) rows gs))))"

fun traverse ::
  "(u32 \<Rightarrow> nat list \<Rightarrow> graph_state \<Rightarrow> (nat list \<times> graph_state) result) \<Rightarrow> u32 list \<Rightarrow> nat list \<Rightarrow> graph_state \<Rightarrow>
   graph_state result" where
  "traverse level [] frontier gs = Inr gs"
| "traverse level (l # ls) frontier gs =
     (if frontier = [] then Inr gs
      else res_bind (level l frontier gs) (\<lambda>(frontier', gs'). traverse level ls frontier' gs'))"

definition depth_levels :: "u32 \<Rightarrow> u32 list" where
  "depth_levels depth = map word_of_nat [1..<Suc (unat depth)]"

record graph_faults =
  gf_dependency :: "u32 \<Rightarrow> string option"
  gf_dependency_latest :: "u32 \<Rightarrow> string option"
  gf_dependent :: "u32 \<Rightarrow> string option"
  gf_dependent_latest :: "u32 \<Rightarrow> string option"

definition graph_traversal ::
  "crate_store \<Rightarrow> dependency_edge_row list \<Rightarrow> graph_faults \<Rightarrow> crate_context \<Rightarrow> crate_version_selection_row \<Rightarrow>
   crate_graph_direction \<Rightarrow> u32 \<Rightarrow> graph_state result" where
  "graph_traversal st edges faults ctx selected direction depth =
     (let name = cc_name (cx_crate_row ctx);
          start = \<lparr>gs_edges = [], gs_distance = bt_insert name 0 [],
                   gs_latest = bt_insert name (Some (cv_version (cx_latest_version ctx))) [], gs_seen = []\<rparr>
      in res_bind
           (if direction = Dependencies \<or> direction = Both
            then traverse (dependency_level st edges (gf_dependency faults) (gf_dependency_latest faults))
                   (depth_levels depth) [cv_id selected] start
            else Inr start)
           (\<lambda>gs. if direction = Dependents \<or> direction = Both
                 then traverse (dependent_level st edges (cv_version selected) (gf_dependent faults) (gf_dependent_latest faults))
                        (depth_levels depth) [cc_id (cx_crate_row ctx)] gs
                 else Inr gs))"

section \<open>The handler\<close>

definition graph_nodes :: "string \<Rightarrow> graph_state \<Rightarrow> crate_graph_node list" where
  "graph_nodes root gs =
     sort_key (\<lambda>n. (gn_min_distance n, gn_crate_name n))
       (map (\<lambda>(name, min_distance).
          \<lparr>gn_crate_name = name, gn_latest_version = unwrap_or (bt_get (gs_latest gs) name) None,
           gn_min_distance = min_distance, gn_role = (if name = root then ''root'' else ''related'')\<rparr>)
        (gs_distance gs))"

definition graph_confidence :: "crate_graph_edge list \<Rightarrow> confidence_assessment" where
  "graph_confidence edges =
     (if edges = []
      then \<lparr>ca_level = Low, ca_reason = ''no dependency/dependent edges found for selected traversal slice''\<rparr>
      else \<lparr>ca_level = Medium, ca_reason = ''graph is depth-bounded and may omit relationships beyond traversal limit''\<rparr>)"

definition graph_response ::
  "(int \<Rightarrow> string) \<Rightarrow> crate_context \<Rightarrow> crate_version_selection_row \<Rightarrow> crate_graph_direction \<Rightarrow> u32 \<Rightarrow> graph_state \<Rightarrow>
   crate_graph_response" where
  "graph_response show_time ctx selected direction depth gs =
     (let nodes = graph_nodes (cc_name (cx_crate_row ctx)) gs; edges = gs_edges gs;
          fresh = cx_freshness_outcome ctx; assessment = graph_confidence edges
      in \<lparr>gr_crate_name = cc_name (cx_crate_row ctx), gr_selected_version = cv_version selected,
          gr_direction = direction, gr_depth = depth, gr_node_count = length nodes, gr_edge_count = length edges,
          gr_nodes = nodes, gr_edges = edges, gr_cycle_safe_traversal_notes = cycle_safe_traversal_notes edges depth,
          gr_freshness_check_performed = io_freshness_check_performed fresh,
          gr_freshness_check_result = io_freshness_check_result fresh,
          gr_refresh_enqueued = io_refresh_enqueued fresh, gr_refresh_job_id = io_refresh_job_id fresh,
          gr_freshness = build_crate_freshness_sources (Some (show_time (cc_updated_at (cx_crate_row ctx))))
            (io_freshness_check_result fresh),
          gr_confidence = confidence_as_str (ca_level assessment), gr_confidence_assessment = assessment,
          gr_suggested_next_tools =
            (if nodes = [] then [''index_crates'', ''crate_intel'', ''index_refresh'']
             else [''crate_intel'', ''crate_versions'', ''dependency_audit'']),
          gr_provenance = ''local_postgres_index''\<rparr>)"

definition graph_selected_version ::
  "string option \<Rightarrow> crate_store \<Rightarrow> crate_context \<Rightarrow> string option \<Rightarrow> crate_version_selection_row result" where
  "graph_selected_version lookup_error st ctx requested_version =
     (case requested_version of
        None \<Rightarrow> Inr (cx_latest_version ctx)
      | Some ver \<Rightarrow>
          (let name = cc_name (cx_crate_row ctx)
           in case lookup_error of
                Some e \<Rightarrow> Inl (''selected version lookup failed for '' @ at_name name ver @ '': '' @ e)
              | None \<Rightarrow>
                  (case fetch_crate_version_by_name st (cc_id (cx_crate_row ctx)) ver of
                     Some v \<Rightarrow> Inr v
                   | None \<Rightarrow> Inl (''version '' @ [CHR 0x27] @ ver @ [CHR 0x27] @ '' for crate '' @ [CHR 0x27] @
                               name @ [CHR 0x27] @ '' is not indexed locally''))))"

definition handle_crate_graph ::
  "(int \<Rightarrow> string) \<Rightarrow> fresh_env \<Rightarrow> graph_faults \<Rightarrow> dependency_edge_row list \<Rightarrow> crate_graph_request \<Rightarrow> server_state \<Rightarrow>
   crate_graph_response result \<times> server_state" where
  "handle_crate_graph show_time env faults edges request srv =
     (case normalize_required (gq_crate_name request) ''crate_name'' of
        Inl e \<Rightarrow> (Inl e, srv)
      | Inr crate_name \<Rightarrow>
          (let requested_version = normalize_optional (gq_version request);
               direction = unwrap_or (gq_direction request) Dependencies;
               depth = graph_depth (gq_depth request)
           in case fetch_crate_context env crate_name srv of
                (Inl e, srv') \<Rightarrow> (Inl e, srv')
              | (Inr ctx, srv') \<Rightarrow>
                  (res_bind (graph_selected_version (fe_db_error env VersionLookup) (sv_store srv') ctx requested_version)
                     (\<lambda>selected. res_bind (graph_traversal (sv_store srv') edges faults ctx selected direction depth)
                        (\<lambda>gs. Inr (graph_response show_time ctx selected direction depth gs))), srv')))"

section \<open>What a traversal finds\<close>

text \<open>
  One joined row of either direction, as the traversal sees it: the frontier id it starts from, the
  two crate names, the edge (at depth 0) and the frontier id it leads to.
\<close>

record hop =
  h_src :: nat
  h_near :: string
  h_far :: string
  h_near_version :: "string option"
  h_far_version :: "string option"
  h_edge :: crate_graph_edge
  h_next :: "nat option"

definition apply_hop :: "u32 \<Rightarrow> hop \<Rightarrow> graph_state \<Rightarrow> graph_state" where
  "apply_hop level h = record_row level (h_near h) (h_far h) (h_near_version h) (h_far_version h) ((h_edge h)\<lparr>gg_depth := level\<rparr>)"

definition hop_rel :: "hop list \<Rightarrow> (nat \<times> nat) set" where
  "hop_rel hops = {(h_src h, n) | h n. h \<in> set hops \<and> h_next h = Some n}"

definition dist_ok :: "(string, u32) btree \<Rightarrow> (string \<times> u32) set \<Rightarrow> bool" where
  "dist_ok m obs \<longleftrightarrow> bt_invar m \<and>
     (\<forall>n d. bt_get m n = Some d \<longleftrightarrow> (n, d) \<in> obs \<and> (\<forall>d'. (n, d') \<in> obs \<longrightarrow> d \<le> d')) \<and>
     (\<forall>n. bt_get m n = None \<longleftrightarrow> (\<forall>d. (n, d) \<notin> obs))"

lemma dist_ok_note:
  assumes "dist_ok m obs"
  shows "dist_ok (note_distance n d m) (insert (n, d) obs)"
proof -
  have ok: "bt_invar m"
    "\<And>n d. bt_get m n = Some d \<longleftrightarrow> (n, d) \<in> obs \<and> (\<forall>d'. (n, d') \<in> obs \<longrightarrow> d \<le> d')"
    "\<And>n. bt_get m n = None \<longleftrightarrow> (\<forall>d. (n, d) \<notin> obs)"
    using assms by (simp_all add: dist_ok_def)
  define x where "x = (case bt_get m n of None \<Rightarrow> d | Some d0 \<Rightarrow> min d0 d)"
  have x: "(n, x) \<in> insert (n, d) obs \<and> (\<forall>d'. (n, d') \<in> insert (n, d) obs \<longrightarrow> x \<le> d')"
  proof (cases "bt_get m n")
    case None
    then show ?thesis using ok(3) [of n] by (auto simp: x_def)
  next
    case (Some d0)
    then show ?thesis using ok(2) [of n d0] by (auto simp: x_def min_def intro: order_trans)
  qed
  have get: "bt_get (note_distance n d m) k = (if k = n then Some x else bt_get m k)" for k
    by (simp add: note_distance_def x_def bt_get_insert)
  have "bt_invar (note_distance n d m)" unfolding note_distance_def by (rule bt_invar_insert [OF ok(1)])
  moreover have "bt_get (note_distance n d m) k = Some e \<longleftrightarrow>
      (k, e) \<in> insert (n, d) obs \<and> (\<forall>d'. (k, d') \<in> insert (n, d) obs \<longrightarrow> e \<le> d')" for k e
  proof (cases "k = n")
    case True
    with x have "e = x" if "(k, e) \<in> insert (n, d) obs" "\<forall>d'. (k, d') \<in> insert (n, d) obs \<longrightarrow> e \<le> d'"
      using that by (intro antisym) auto
    with True x show ?thesis by (auto simp: get)
  next
    case False
    then show ?thesis by (simp add: get ok(2))
  qed
  moreover have "bt_get (note_distance n d m) k = None \<longleftrightarrow> (\<forall>e. (k, e) \<notin> insert (n, d) obs)" for k
    by (auto simp: get ok(3))
  ultimately show ?thesis by (simp add: dist_ok_def)
qed

definition edges_ok :: "graph_state \<Rightarrow> edge_key set \<Rightarrow> bool" where
  "edges_ok gs keys \<longleftrightarrow> set (gs_seen gs) = keys \<and> edge_key ` set (gs_edges gs) = keys \<and> distinct (map edge_key (gs_edges gs))"

definition graph_ok :: "graph_state \<Rightarrow> (string \<times> u32) set \<Rightarrow> edge_key set \<Rightarrow> bool" where
  "graph_ok gs obs keys \<longleftrightarrow> dist_ok (gs_distance gs) obs \<and> edges_ok gs keys"

definition hop_obs :: "u32 \<Rightarrow> hop \<Rightarrow> (string \<times> u32) set" where
  "hop_obs level h = {(h_near h, saturating_sub level 1), (h_far h, level)}"

definition hop_key :: "u32 \<Rightarrow> hop \<Rightarrow> edge_key" where
  "hop_key level h = edge_key ((h_edge h)\<lparr>gg_depth := level\<rparr>)"

lemma graph_ok_hop:
  assumes "graph_ok gs obs keys"
  shows "graph_ok (apply_hop l h gs) (obs \<union> hop_obs l h) (insert (hop_key l h) keys)"
proof -
  have "dist_ok (gs_distance (apply_hop l h gs)) (insert (h_far h, l) (insert (h_near h, saturating_sub l 1) obs))"
    using assms by (auto simp: graph_ok_def apply_hop_def record_row_def push_edge_def intro: dist_ok_note)
  moreover have "insert (h_far h, l) (insert (h_near h, saturating_sub l 1) obs) = obs \<union> hop_obs l h"
    by (auto simp: hop_obs_def)
  moreover have "edges_ok (apply_hop l h gs) (insert (hop_key l h) keys)"
    using assms by (auto simp: graph_ok_def edges_ok_def apply_hop_def record_row_def push_edge_def hop_key_def)
  ultimately show ?thesis by (simp add: graph_ok_def)
qed

lemma graph_ok_hops:
  "graph_ok gs obs keys \<Longrightarrow>
   graph_ok (fold (apply_hop l) hs gs) (obs \<union> (\<Union>h \<in> set hs. hop_obs l h)) (keys \<union> hop_key l ` set hs)"
proof (induction hs arbitrary: gs obs keys)
  case (Cons h hs)
  from Cons.IH [OF graph_ok_hop [OF Cons.prems, of l h]] show ?case by (simp add: Un_assoc)
qed simp

definition found :: "hop list \<Rightarrow> nat set \<Rightarrow> u32 list \<Rightarrow> (u32 \<times> hop) set" where
  "found hops F ls = {(ls ! j, h) | j h. j < length ls \<and> h \<in> set hops \<and> h_src h \<in> (hop_rel hops ^^ j) `` F}"

lemma found_Cons:
  "found hops F (l # ls) = {(l, h) | h. h \<in> set hops \<and> h_src h \<in> F} \<union> found hops (hop_rel hops `` F) ls"
proof -
  have step: "(hop_rel hops ^^ Suc j) `` F = (hop_rel hops ^^ j) `` (hop_rel hops `` F)" for j
    by (metis relpow.simps(2) relpow_commute relcomp_Image)
  show ?thesis (is "?l = ?r")
  proof (intro set_eqI iffI)
    fix x assume "x \<in> ?l"
    then obtain j h where "x = ((l # ls) ! j, h)" "j < Suc (length ls)" "h \<in> set hops" "h_src h \<in> (hop_rel hops ^^ j) `` F"
      by (auto simp: found_def)
    then show "x \<in> ?r"
    proof (cases j)
      case (Suc i)
      with \<open>h_src h \<in> _\<close> have "h_src h \<in> (hop_rel hops ^^ i) `` (hop_rel hops `` F)" using step by simp
      with Suc \<open>x = _\<close> \<open>j < _\<close> \<open>h \<in> _\<close> show ?thesis by (auto simp: found_def)
    qed auto
  next
    fix x assume "x \<in> ?r"
    then show "x \<in> ?l"
    proof
      assume "x \<in> {(l, h) | h. h \<in> set hops \<and> h_src h \<in> F}"
      then show ?thesis by (force simp: found_def intro: exI [of _ 0])
    next
      assume "x \<in> found hops (hop_rel hops `` F) ls"
      then obtain i h where "x = (ls ! i, h)" "i < length ls" "h \<in> set hops"
        "h_src h \<in> (hop_rel hops ^^ Suc i) `` F" unfolding step by (auto simp: found_def)
      then show ?thesis unfolding found_def by (intro CollectI exI [of _ "Suc i"] exI [of _ h]) auto
    qed
  qed
qed

lemma found_empty: "found hops {} ls = {}"
  by (auto simp: found_def)

locale level_traversal =
  fixes level :: "u32 \<Rightarrow> nat list \<Rightarrow> graph_state \<Rightarrow> (nat list \<times> graph_state) result" and hops :: "hop list"
  assumes level_frontier: "level l fr gs = Inr (fr', gs') \<Longrightarrow> fr \<noteq> [] \<Longrightarrow> set fr' = hop_rel hops `` set fr"
    and level_state: "level l fr gs = Inr (fr', gs') \<Longrightarrow> fr \<noteq> [] \<Longrightarrow>
      gs' = fold (apply_hop l) (filter (\<lambda>h. h_src h \<in> set fr) hops) gs"
begin

lemma traverse_found:
  "traverse level ls fr gs = Inr gs' \<Longrightarrow> graph_ok gs obs keys \<Longrightarrow>
   graph_ok gs' (obs \<union> (\<Union>(l, h) \<in> found hops (set fr) ls. hop_obs l h)) (keys \<union> (\<lambda>(l, h). hop_key l h) ` found hops (set fr) ls)"
proof (induction ls arbitrary: fr gs obs keys)
  case Nil
  then show ?case by (simp add: found_def)
next
  case (Cons l ls)
  show ?case
  proof (cases "fr = []")
    case True
    with Cons.prems show ?thesis by (simp add: found_empty)
  next
    case False
    with Cons.prems(1) obtain fr1 gs1 where lev: "level l fr gs = Inr (fr1, gs1)" and rest: "traverse level ls fr1 gs1 = Inr gs'"
      by (auto simp: res_bind_Inr_iff)
    let ?hs = "filter (\<lambda>h. h_src h \<in> set fr) hops"
    have fr1: "set fr1 = hop_rel hops `` set fr" by (rule level_frontier [OF lev False])
    have "graph_ok gs1 (obs \<union> (\<Union>h \<in> set ?hs. hop_obs l h)) (keys \<union> hop_key l ` set ?hs)"
      unfolding level_state [OF lev False] by (rule graph_ok_hops [OF Cons.prems(2)])
    note ok = Cons.IH [OF rest this]
    have "(\<Union>(k, h) \<in> found hops (set fr) (l # ls). hop_obs k h) =
        (\<Union>h \<in> set ?hs. hop_obs l h) \<union> (\<Union>(k, h) \<in> found hops (set fr1) ls. hop_obs k h)"
      unfolding found_Cons fr1 by auto
    moreover have "(\<lambda>(k, h). hop_key k h) ` found hops (set fr) (l # ls) =
        hop_key l ` set ?hs \<union> (\<lambda>(k, h). hop_key k h) ` found hops (set fr1) ls"
      unfolding found_Cons fr1 by (auto simp: image_Un) force
    ultimately show ?thesis using ok by (simp only: Un_assoc)
  qed
qed

end

section \<open>Both traversals satisfy the contract\<close>

lemma fold_map_filter:
  "fold g (List.map_filter f xs) s = fold (\<lambda>x s. case f x of None \<Rightarrow> s | Some y \<Rightarrow> g y s) xs s"
  by (induction xs arbitrary: s) (simp_all add: map_filter_simps split: option.split)

lemma map_of_map_filter_keyed:
  "map_of (List.map_filter (\<lambda>i. map_option (\<lambda>v. (i, f v)) (g i)) is') i =
     (if i \<in> set is' then map_option f (g i) else None)"
  by (induction is') (auto simp: map_filter_simps split: option.split)

lemma latest_versions_lookup:
  assumes "latest_versions_for_crates err st ids = Inr nl"
  shows "map_of nl i = (if i \<in> set ids then map_option (\<lambda>v. (cv_id v, cv_version v)) (fetch_latest_crate_version st i) else None)"
  using assms map_of_map_filter_keyed [of "\<lambda>v. (cv_id v, cv_version v)" "fetch_latest_crate_version st" "sort_dedup ids" i]
  by (auto simp: latest_versions_for_crates_def list_graph_latest_versions_for_crates_def split: if_splits option.splits)

definition dependency_hop :: "crate_store \<Rightarrow> dependency_edge_row \<Rightarrow> hop option" where
  "dependency_hop st d =
     map_option (\<lambda>row. let latest = fetch_latest_crate_version st (gd_to_crate_id row) in
        \<lparr>h_src = er_from_version_id d, h_near = gd_from_crate_name row, h_far = gd_to_crate_name row,
         h_near_version = Some (gd_from_version row), h_far_version = map_option cv_version latest,
         h_edge = \<lparr>gg_from_crate = gd_from_crate_name row, gg_from_version = Some (gd_from_version row),
            gg_to_crate = gd_to_crate_name row, gg_to_version = map_option cv_version latest,
            gg_requirement = gd_requirement row, gg_dependency_kind = gd_dependency_kind row,
            gg_optional = gd_optional row, gg_depth = 0\<rparr>,
         h_next = map_option cv_id latest\<rparr>) (dependency_row st d)"

definition dependency_hops :: "crate_store \<Rightarrow> dependency_edge_row list \<Rightarrow> hop list" where
  "dependency_hops st edges = List.map_filter (dependency_hop st) edges"

definition dependent_hop :: "crate_store \<Rightarrow> string \<Rightarrow> dependency_edge_row \<Rightarrow> hop option" where
  "dependent_hop st selected_version d =
     map_option (\<lambda>row.
        \<lparr>h_src = er_to_crate_id d, h_near = gt_to_crate_name row, h_far = gt_from_crate_name row,
         h_near_version = Some selected_version,
         h_far_version = map_option cv_version (fetch_latest_crate_version st (gt_from_crate_id row)),
         h_edge = \<lparr>gg_from_crate = gt_from_crate_name row, gg_from_version = Some (gt_from_version row),
            gg_to_crate = gt_to_crate_name row, gg_to_version = Some selected_version,
            gg_requirement = gt_requirement row, gg_dependency_kind = gt_dependency_kind row,
            gg_optional = gt_optional row, gg_depth = 0\<rparr>,
         h_next = Some (gt_from_crate_id row)\<rparr>) (dependent_row st d)"

definition dependent_hops :: "crate_store \<Rightarrow> string \<Rightarrow> dependency_edge_row list \<Rightarrow> hop list" where
  "dependent_hops st selected_version edges = List.map_filter (dependent_hop st selected_version) edges"

lemma filter_map_filter:
  assumes "\<And>x y. f x = Some y \<Longrightarrow> P y \<longleftrightarrow> Q x"
  shows "filter P (List.map_filter f xs) = List.map_filter f (filter Q xs)"
  using assms by (induction xs) (auto simp: map_filter_simps split: option.split)

lemma hop_rel_Image:
  "n \<in> hop_rel (List.map_filter f xs) `` F \<longleftrightarrow> (\<exists>x \<in> set xs. \<exists>h. f x = Some h \<and> h_src h \<in> F \<and> h_next h = Some n)"
  by (auto simp: hop_rel_def set_map_filter)

lemma dependency_hop_next:
  "(\<exists>h. dependency_hop st d = Some h \<and> h_src h \<in> F \<and> h_next h = Some n) \<longleftrightarrow>
     er_from_version_id d \<in> F \<and>
     (\<exists>row. dependency_row st d = Some row \<and> map_option cv_id (fetch_latest_crate_version st (gd_to_crate_id row)) = Some n)"
  by (cases "dependency_row st d") (auto simp: dependency_hop_def Let_def)

lemma dependent_hop_next:
  "(\<exists>h. dependent_hop st v d = Some h \<and> h_src h \<in> F \<and> h_next h = Some n) \<longleftrightarrow>
     er_to_crate_id d \<in> F \<and> (\<exists>row. dependent_row st d = Some row \<and> gt_from_crate_id row = n)"
  by (cases "dependent_row st d") (auto simp: dependent_hop_def)

interpretation dependencies: level_traversal "dependency_level st edges e1 e2" "dependency_hops st edges"
proof
  fix l fr gs fr' gs'
  assume run: "dependency_level st edges e1 e2 l fr gs = Inr (fr', gs')" and fr: "fr \<noteq> []"
  let ?rows = "list_graph_dependency_traversal_rows st edges fr"
  from run obtain nl where nl: "latest_versions_for_crates (e2 l) st (map gd_to_crate_id ?rows) = Inr nl"
    and fr': "fr' = sort_dedup (List.map_filter (\<lambda>row. map_option fst (map_of nl (gd_to_crate_id row))) ?rows)"
    and gs': "gs' = fold (dependency_step l nl) ?rows gs"
    by (auto simp: dependency_level_def Let_def res_bind_Inr_iff split: option.splits)
  have latest: "map_of nl (gd_to_crate_id row) = map_option (\<lambda>v. (cv_id v, cv_version v)) (fetch_latest_crate_version st (gd_to_crate_id row))"
    if "row \<in> set ?rows" for row using that by (simp add: latest_versions_lookup [OF nl])
  have rows: "?rows = List.map_filter (dependency_row st) (filter (\<lambda>d. er_from_version_id d \<in> set fr) edges)"
    using fr by (simp add: list_graph_dependency_traversal_rows_def)
  have mem: "row \<in> set ?rows \<longleftrightarrow> (\<exists>d. d \<in> set edges \<and> er_from_version_id d \<in> set fr \<and> dependency_row st d = Some row)" for row
    unfolding rows by (auto simp: set_map_filter)
  show "set fr' = hop_rel (dependency_hops st edges) `` set fr" (is "?l = ?r")
  proof -
    have "n \<in> ?l \<longleftrightarrow> (\<exists>row. row \<in> set ?rows \<and> map_option cv_id (fetch_latest_crate_version st (gd_to_crate_id row)) = Some n)" for n
      unfolding Bex_def [symmetric] fr' set_sort_dedup set_map_filter by (rule bex_cong [OF refl]) (simp add: latest option.map_comp comp_def)
    then show ?thesis
      unfolding dependency_hops_def set_eq_iff hop_rel_Image dependency_hop_next mem by blast
  qed
  have "filter (\<lambda>h. h_src h \<in> set fr) (dependency_hops st edges) =
      List.map_filter (dependency_hop st) (filter (\<lambda>d. er_from_version_id d \<in> set fr) edges)"
    unfolding dependency_hops_def by (rule filter_map_filter) (auto simp: dependency_hop_def Let_def)
  then show "gs' = fold (apply_hop l) (filter (\<lambda>h. h_src h \<in> set fr) (dependency_hops st edges)) gs"
    unfolding gs' rows
  proof (simp only: fold_map_filter, intro fold_cong)
    fix d assume d: "d \<in> set (filter (\<lambda>d. er_from_version_id d \<in> set fr) edges)"
    show "(\<lambda>s. case dependency_row st d of None \<Rightarrow> s | Some y \<Rightarrow> dependency_step l nl y s) =
          (\<lambda>s. case dependency_hop st d of None \<Rightarrow> s | Some y \<Rightarrow> apply_hop l y s)"
    proof (cases "dependency_row st d")
      case (Some row)
      with d have "row \<in> set ?rows" by (auto simp: mem)
      then show ?thesis using Some
        by (simp add: dependency_hop_def dependency_step_def apply_hop_def latest Let_def option.map_comp comp_def)
    qed (simp add: dependency_hop_def)
  qed simp_all
qed

interpretation dependents: level_traversal "dependent_level st edges v e1 e2" "dependent_hops st v edges"
proof
  fix l fr gs fr' gs'
  assume run: "dependent_level st edges v e1 e2 l fr gs = Inr (fr', gs')" and fr: "fr \<noteq> []"
  let ?rows = "list_graph_dependent_traversal_rows st edges fr"
  from run obtain nl where nl: "latest_versions_for_crates (e2 l) st (map gt_from_crate_id ?rows) = Inr nl"
    and fr': "fr' = sort_dedup (map gt_from_crate_id ?rows)"
    and gs': "gs' = fold (dependent_step v l nl) ?rows gs"
    by (auto simp: dependent_level_def Let_def res_bind_Inr_iff split: option.splits)
  have latest: "map_of nl (gt_from_crate_id row) = map_option (\<lambda>v. (cv_id v, cv_version v)) (fetch_latest_crate_version st (gt_from_crate_id row))"
    if "row \<in> set ?rows" for row using that by (simp add: latest_versions_lookup [OF nl])
  have rows: "?rows = List.map_filter (dependent_row st) (filter (\<lambda>d. er_to_crate_id d \<in> set fr) edges)"
    using fr by (simp add: list_graph_dependent_traversal_rows_def)
  have mem: "row \<in> set ?rows \<longleftrightarrow> (\<exists>d. d \<in> set edges \<and> er_to_crate_id d \<in> set fr \<and> dependent_row st d = Some row)" for row
    unfolding rows by (auto simp: set_map_filter)
  have "n \<in> set fr' \<longleftrightarrow> (\<exists>row. row \<in> set ?rows \<and> gt_from_crate_id row = n)" for n
    unfolding fr' by auto
  then show "set fr' = hop_rel (dependent_hops st v edges) `` set fr"
    unfolding dependent_hops_def set_eq_iff hop_rel_Image dependent_hop_next mem by blast
  have "filter (\<lambda>h. h_src h \<in> set fr) (dependent_hops st v edges) =
      List.map_filter (dependent_hop st v) (filter (\<lambda>d. er_to_crate_id d \<in> set fr) edges)"
    unfolding dependent_hops_def by (rule filter_map_filter) (auto simp: dependent_hop_def)
  then show "gs' = fold (apply_hop l) (filter (\<lambda>h. h_src h \<in> set fr) (dependent_hops st v edges)) gs"
    unfolding gs' rows
  proof (simp only: fold_map_filter, intro fold_cong)
    fix d assume d: "d \<in> set (filter (\<lambda>d. er_to_crate_id d \<in> set fr) edges)"
    show "(\<lambda>s. case dependent_row st d of None \<Rightarrow> s | Some y \<Rightarrow> dependent_step v l nl y s) =
          (\<lambda>s. case dependent_hop st v d of None \<Rightarrow> s | Some y \<Rightarrow> apply_hop l y s)"
    proof (cases "dependent_row st d")
      case (Some row)
      with d have "row \<in> set ?rows" by (auto simp: mem)
      then show ?thesis using Some
        by (simp add: dependent_hop_def dependent_step_def apply_hop_def latest Let_def option.map_comp comp_def)
    qed (simp add: dependent_hop_def)
  qed simp_all
qed

section \<open>The reported graph\<close>

text \<open>
  \<open>sightings hops start depth\<close>: a crate name with a distance at which a row reached from \<open>start\<close> in
  fewer than \<open>depth\<close> hops mentions it.
\<close>

definition sightings :: "hop list \<Rightarrow> nat \<Rightarrow> nat \<Rightarrow> (string \<times> nat) set" where
  "sightings hops start depth =
     (\<Union>j \<in> {..<depth}. \<Union>h \<in> {h \<in> set hops. h_src h \<in> (hop_rel hops ^^ j) `` {start}}. {(h_near h, j), (h_far h, Suc j)})"

definition edge_sightings :: "hop list \<Rightarrow> nat \<Rightarrow> nat \<Rightarrow> (edge_key \<times> nat) set" where
  "edge_sightings hops start depth =
     (\<Union>j \<in> {..<depth}. \<Union>h \<in> {h \<in> set hops. h_src h \<in> (hop_rel hops ^^ j) `` {start}}. {(edge_key (h_edge h), Suc j)})"

lemma depth_levels_nth:
  "length (depth_levels depth) = unat depth"
  "j < unat depth \<Longrightarrow> depth_levels depth ! j = word_of_nat (Suc j)"
proof -
  show "length (depth_levels depth) = unat depth" by (simp add: depth_levels_def)
  show "depth_levels depth ! j = word_of_nat (Suc j)" if "j < unat depth"
    using that by (simp only: depth_levels_def length_map length_upt nth_map nth_upt) simp
qed

lemma level_word:
  assumes "j < unat (depth :: u32)"
  shows "unat (word_of_nat (Suc j) :: u32) = Suc j" "unat (saturating_sub (word_of_nat (Suc j)) (1 :: u32)) = j"
proof -
  have "Suc j < 2 ^ 32" using assms unsigned_less [of depth, where ?'a = nat] by (simp add: le_less_trans Suc_le_eq)
  then show "unat (word_of_nat (Suc j) :: u32) = Suc j" by (simp add: unsigned_of_nat take_bit_nat_eq_self del: of_nat_Suc)
  then show "unat (saturating_sub (word_of_nat (Suc j)) (1 :: u32)) = j" unfolding unat_saturating_sub by simp
qed

lemma found_levels:
  "found hops {s} (depth_levels depth) =
     (\<Union>j \<in> {..<unat depth}. \<Union>h \<in> {h \<in> set hops. h_src h \<in> (hop_rel hops ^^ j) `` {s}}. {(word_of_nat (Suc j), h)})"
  (is "?l = ?r")
proof (intro set_eqI iffI)
  fix x assume "x \<in> ?l"
  then obtain j h where "x = (depth_levels depth ! j, h)" "j < unat depth" "h \<in> set hops" "h_src h \<in> (hop_rel hops ^^ j) `` {s}"
    unfolding found_def depth_levels_nth(1) by blast
  then show "x \<in> ?r" unfolding depth_levels_nth(2) [OF \<open>j < unat depth\<close>] by blast
next
  fix x assume "x \<in> ?r"
  then obtain j h where "x = (word_of_nat (Suc j), h)" "j < unat depth" "h \<in> set hops" "h_src h \<in> (hop_rel hops ^^ j) `` {s}"
    by blast
  then show "x \<in> ?l"
    unfolding found_def depth_levels_nth(1) depth_levels_nth(2) [OF \<open>j < unat depth\<close>, symmetric] by blast
qed

lemma obs_sightings:
  "(n, d) \<in> (\<Union>(l, h) \<in> found hops {s} (depth_levels depth). hop_obs l h) \<longleftrightarrow> (n, unat d) \<in> sightings hops s (unat depth)"
proof -
  have "(n, d) \<in> hop_obs (word_of_nat (Suc j)) h \<longleftrightarrow> (n, unat d) \<in> {(h_near h, j), (h_far h, Suc j)}" if "j < unat depth" for j h
    using level_word [OF that] by (auto simp: hop_obs_def word_unat_eq_iff simp del: of_nat_Suc)
  then show ?thesis unfolding found_levels sightings_def by (simp del: of_nat_Suc)
qed

lemma sightings_small: "(n, k) \<in> sightings hops s (unat (depth :: u32)) \<Longrightarrow> k < 2 ^ 32"
  using unsigned_less [of depth, where ?'a = nat] by (auto simp: sightings_def)

lemma start_ok:
  "graph_ok \<lparr>gs_edges = [], gs_distance = bt_insert name 0 [], gs_latest = l, gs_seen = []\<rparr> {(name, 0)} {}"
  by (auto simp: graph_ok_def dist_ok_def edges_ok_def bt_get_Cons bt_invar_def split: if_splits)

definition at_depth :: "edge_key \<times> nat \<Rightarrow> edge_key" where
  "at_depth x = (case x of ((f, t, r, k, b, _), j) \<Rightarrow> (f, t, r, k, b, word_of_nat j))"

lemma keys_sightings:
  "(\<lambda>(l, h). hop_key l h) ` found hops {s} (depth_levels depth) =
     at_depth ` edge_sightings hops s (unat depth)"
  unfolding found_levels edge_sightings_def image_UN
  by (simp add: hop_key_def edge_key_def at_depth_def del: of_nat_Suc)

text \<open>The rows each direction may use; none in a direction that was not asked for.\<close>

definition graph_sightings ::
  "crate_store \<Rightarrow> dependency_edge_row list \<Rightarrow> crate_context \<Rightarrow> crate_version_selection_row \<Rightarrow> crate_graph_direction \<Rightarrow> nat \<Rightarrow>
   (string \<times> nat) set" where
  "graph_sightings st edges ctx selected direction depth =
     {(cc_name (cx_crate_row ctx), 0)} \<union>
     (if direction = Dependents then {} else sightings (dependency_hops st edges) (cv_id selected) depth) \<union>
     (if direction = Dependencies then {}
      else sightings (dependent_hops st (cv_version selected) edges) (cc_id (cx_crate_row ctx)) depth)"

definition graph_edge_sightings ::
  "crate_store \<Rightarrow> dependency_edge_row list \<Rightarrow> crate_context \<Rightarrow> crate_version_selection_row \<Rightarrow> crate_graph_direction \<Rightarrow> nat \<Rightarrow>
   (edge_key \<times> nat) set" where
  "graph_edge_sightings st edges ctx selected direction depth =
     (if direction = Dependents then {} else edge_sightings (dependency_hops st edges) (cv_id selected) depth) \<union>
     (if direction = Dependencies then {}
      else edge_sightings (dependent_hops st (cv_version selected) edges) (cc_id (cx_crate_row ctx)) depth)"

lemma graph_traversal_ok:
  assumes "graph_traversal st edges faults ctx selected direction depth = Inr gs"
  shows "\<exists>obs. graph_ok gs obs (at_depth ` graph_edge_sightings st edges ctx selected direction (unat depth)) \<and>
    (\<forall>n d. (n, d) \<in> obs \<longleftrightarrow> (n, unat d) \<in> graph_sightings st edges ctx selected direction (unat depth))"
proof -
  let ?name = "cc_name (cx_crate_row ctx)" let ?deps = "dependency_hops st edges"
  let ?dpts = "dependent_hops st (cv_version selected) edges"
  let ?O = "\<lambda>hops s. \<Union>(l, h) \<in> found hops {s} (depth_levels depth). hop_obs l h"
  let ?K = "\<lambda>hops s. (\<lambda>(l, h). hop_key l h) ` found hops {s} (depth_levels depth)"
  let ?start = "\<lparr>gs_edges = [], gs_distance = bt_insert ?name 0 [],
     gs_latest = bt_insert ?name (Some (cv_version (cx_latest_version ctx))) [], gs_seen = []\<rparr>"
  define o1 where "o1 = {(?name, 0)} \<union> (if direction = Dependents then {} else ?O ?deps (cv_id selected))"
  define k1 where "k1 = (if direction = Dependents then {} else ?K ?deps (cv_id selected))"
  from assms obtain gs1 where one: "(if direction = Dependencies \<or> direction = Both
        then traverse (dependency_level st edges (gf_dependency faults) (gf_dependency_latest faults))
               (depth_levels depth) [cv_id selected] ?start else Inr ?start) = Inr gs1"
    and two: "(if direction = Dependents \<or> direction = Both
        then traverse (dependent_level st edges (cv_version selected) (gf_dependent faults) (gf_dependent_latest faults))
               (depth_levels depth) [cc_id (cx_crate_row ctx)] gs1 else Inr gs1) = Inr gs"
    unfolding graph_traversal_def Let_def res_bind_Inr_iff by blast
  have ok1: "graph_ok gs1 o1 k1"
  proof (cases "direction = Dependents")
    case True
    with one start_ok [of ?name] show ?thesis by (auto simp: o1_def k1_def)
  next
    case False
    then have run: "traverse (dependency_level st edges (gf_dependency faults) (gf_dependency_latest faults))
        (depth_levels depth) [cv_id selected] ?start = Inr gs1"
      using one by (cases direction) simp_all
    show ?thesis
      using dependencies.traverse_found [OF run start_ok] False by (simp add: o1_def k1_def)
  qed
  define o2 where "o2 = o1 \<union> (if direction = Dependencies then {} else ?O ?dpts (cc_id (cx_crate_row ctx)))"
  define k2 where "k2 = k1 \<union> (if direction = Dependencies then {} else ?K ?dpts (cc_id (cx_crate_row ctx)))"
  have ok2: "graph_ok gs o2 k2"
  proof (cases "direction = Dependencies")
    case True
    with two ok1 show ?thesis by (simp add: o2_def k2_def)
  next
    case False
    then have run: "traverse (dependent_level st edges (cv_version selected) (gf_dependent faults) (gf_dependent_latest faults))
        (depth_levels depth) [cc_id (cx_crate_row ctx)] gs1 = Inr gs"
      using two by (cases direction) simp_all
    show ?thesis using dependents.traverse_found [OF run ok1] False by (simp add: o2_def k2_def)
  qed
  have "(n, d) \<in> o2 \<longleftrightarrow> (n, unat d) \<in> graph_sightings st edges ctx selected direction (unat depth)" for n d
    unfolding o2_def o1_def graph_sightings_def Un_iff obs_sightings if_distrib [of "\<lambda>S. _ \<in> S"]
    by (simp add: unat_eq_0)
  moreover have "k2 = at_depth ` graph_edge_sightings st edges ctx selected direction (unat depth)"
    unfolding k2_def k1_def graph_edge_sightings_def keys_sightings by (simp add: image_Un)
  ultimately show ?thesis using ok2 by blast
qed

lemma set_graph_nodes:
  "set (graph_nodes root gs) = (\<lambda>(name, d).
     \<lparr>gn_crate_name = name, gn_latest_version = unwrap_or (bt_get (gs_latest gs) name) None,
      gn_min_distance = d, gn_role = (if name = root then ''root'' else ''related'')\<rparr>) ` set (gs_distance gs)"
  by (simp add: graph_nodes_def)

lemma least_distance:
  assumes d: "dist_ok m obs" and obs: "\<And>n d. (n, d) \<in> obs \<longleftrightarrow> (n, unat d) \<in> seen"
    and small: "\<And>n k. (n, k) \<in> seen \<Longrightarrow> k < 2 ^ 32"
  shows "bt_get m n = Some d \<longleftrightarrow> (n, unat d) \<in> seen \<and> unat d = (LEAST j. (n, j) \<in> seen)"
proof -
  have w: "unat (word_of_nat k :: u32) = k" if "(n, k) \<in> seen" for k
    using small [OF that] by (simp add: unsigned_of_nat take_bit_nat_eq_self)
  have "(\<forall>d'. (n, d') \<in> obs \<longrightarrow> d \<le> d') \<longleftrightarrow> (\<forall>k. (n, k) \<in> seen \<longrightarrow> unat d \<le> k)"
    using obs w by (metis word_le_nat_alt)
  moreover have "(n, unat d) \<in> seen \<Longrightarrow> (\<forall>k. (n, k) \<in> seen \<longrightarrow> unat d \<le> k) \<longleftrightarrow> unat d = (LEAST j. (n, j) \<in> seen)"
    by (metis Least_equality Least_le)
  ultimately show ?thesis using d obs by (auto simp: dist_ok_def)
qed

lemma unat_image:
  assumes iff: "\<And>n d. (n, d :: u32) \<in> S \<longleftrightarrow> (n, unat d) \<in> T \<and> P n (unat d)" and small: "\<And>n k. (n, k) \<in> T \<Longrightarrow> k < 2 ^ 32"
  shows "(\<lambda>(n, d). (n, unat d)) ` S = {(n, k). (n, k) \<in> T \<and> P n k}"
proof (intro set_eqI iffI)
  fix x assume "x \<in> {(n, k). (n, k) \<in> T \<and> P n k}"
  then obtain n k where x: "x = (n, k)" "(n, k) \<in> T" "P n k" by blast
  have w: "unat (word_of_nat k :: u32) = k" using small [OF x(2)] by (simp add: unsigned_of_nat take_bit_nat_eq_self)
  with x iff have "(n, word_of_nat k) \<in> S" by simp
  then show "x \<in> (\<lambda>(n, d). (n, unat d)) ` S" using w x(1) by force
qed (use iff in auto)

lemma graph_nodes_distinct:
  assumes "bt_invar (gs_distance gs)"
  shows "distinct (map gn_crate_name (graph_nodes root gs))"
proof -
  have "map gn_crate_name (map (\<lambda>(name, d).
      \<lparr>gn_crate_name = name, gn_latest_version = unwrap_or (bt_get (gs_latest gs) name) None,
       gn_min_distance = d, gn_role = (if name = root then ''root'' else ''related'')\<rparr>) m) = map fst m" for m
    by (induction m) auto
  then have "distinct (map gn_crate_name (map (\<lambda>(name, d).
      \<lparr>gn_crate_name = name, gn_latest_version = unwrap_or (bt_get (gs_latest gs) name) None,
       gn_min_distance = d, gn_role = (if name = root then ''root'' else ''related'')\<rparr>) (gs_distance gs)))"
    using bt_invar_distinct [OF assms] by (simp only:)
  then show ?thesis unfolding graph_nodes_def by (simp only: distinct_map_sort_key)
qed

lemma traverse_error: "traverse f ls fr gs = Inl e \<Longrightarrow> \<exists>l fr gs. f l fr gs = Inl e"
  by (induction f ls fr gs rule: traverse.induct) (auto simp: res_bind_def split: if_splits sum.splits)

lemma graph_traversal_error:
  assumes "graph_traversal st edges faults ctx selected direction depth = Inl e"
  shows "\<exists>l x. Some x \<in> {gf_dependency faults l, gf_dependency_latest faults l, gf_dependent faults l, gf_dependent_latest faults l}"
proof -
  have dep: ?thesis if "dependency_level st edges (gf_dependency faults) (gf_dependency_latest faults) l fr gs = Inl e" for l fr gs
    using that by (auto simp: dependency_level_def latest_versions_for_crates_def res_bind_def Let_def
        split: option.splits if_splits) metis+
  have dpt: ?thesis if "dependent_level st edges v (gf_dependent faults) (gf_dependent_latest faults) l fr gs = Inl e" for l fr gs v
    using that by (auto simp: dependent_level_def latest_versions_for_crates_def res_bind_def Let_def
        split: option.splits if_splits) metis+
  from assms have "(\<exists>l fr gs. dependency_level st edges (gf_dependency faults) (gf_dependency_latest faults) l fr gs = Inl e) \<or>
      (\<exists>l fr gs. dependent_level st edges (cv_version selected) (gf_dependent faults) (gf_dependent_latest faults) l fr gs = Inl e)"
    unfolding graph_traversal_def Let_def res_bind_Inl_iff by (auto dest: traverse_error split: if_splits)
  then show ?thesis using dep dpt by blast
qed

text \<open>
  (C38) The graph that \<open>crate_graph\<close> reports is exact: its nodes are the crates that the traversal in the
  requested directions can see within the depth, each once, with the least distance at which a row
  mentions it, ordered by distance and name; its edges are the rows seen, once for every crate pair,
  requirement, kind, optionality and depth.  An error occurs only when one of the queries fails.
\<close>

theorem crate_graph_exact:
  "case graph_traversal st edges faults ctx selected direction depth of
     Inl e \<Rightarrow> \<exists>l x. Some x \<in> {gf_dependency faults l, gf_dependency_latest faults l, gf_dependent faults l, gf_dependent_latest faults l}
   | Inr gs \<Rightarrow>
       (let seen = graph_sightings st edges ctx selected direction (unat depth);
            r = graph_response show_time ctx selected direction depth gs
        in (\<lambda>n. (gn_crate_name n, unat (gn_min_distance n))) ` set (gr_nodes r) = {(n, k). (n, k) \<in> seen \<and> k = (LEAST j. (n, j) \<in> seen)} \<and>
           distinct (map gn_crate_name (gr_nodes r)) \<and>
           sorted (map (\<lambda>n. (gn_min_distance n, gn_crate_name n)) (gr_nodes r)) \<and>
           edge_key ` set (gr_edges r) = at_depth ` graph_edge_sightings st edges ctx selected direction (unat depth) \<and>
           distinct (map edge_key (gr_edges r)))"
proof (cases "graph_traversal st edges faults ctx selected direction depth")
  case (Inl e)
  then show ?thesis using graph_traversal_error [OF Inl] by simp
next
  case (Inr gs)
  define seen where "seen = graph_sightings st edges ctx selected direction (unat depth)"
  from graph_traversal_ok [OF Inr] obtain obs
    where ok: "graph_ok gs obs (at_depth ` graph_edge_sightings st edges ctx selected direction (unat depth))"
      and obs: "\<And>n d. (n, d) \<in> obs \<longleftrightarrow> (n, unat d) \<in> seen"
    unfolding seen_def by blast
  have d: "dist_ok (gs_distance gs) obs" using ok by (simp add: graph_ok_def)
  have small: "k < 2 ^ 32" if "(n, k) \<in> seen" for n k
    using that by (auto simp: seen_def graph_sightings_def dest: sightings_small split: if_splits)
  have "bt_get (gs_distance gs) n = Some d \<longleftrightarrow> (n, unat d) \<in> seen \<and> unat d = (LEAST j. (n, j) \<in> seen)" for n d
    by (rule least_distance [OF d obs small])
  then have nodes: "(n, d) \<in> set (gs_distance gs) \<longleftrightarrow> (n, unat d) \<in> seen \<and> unat d = (LEAST j. (n, j) \<in> seen)" for n d
    using bt_get_iff [of "gs_distance gs" n d] d by (simp add: dist_ok_def)
  let ?r = "graph_response show_time ctx selected direction depth gs"
  have gn: "gr_nodes ?r = graph_nodes (cc_name (cx_crate_row ctx)) gs" and ge: "gr_edges ?r = gs_edges gs"
    by (simp_all add: graph_response_def Let_def)
  have "(\<lambda>n. (gn_crate_name n, unat (gn_min_distance n))) ` set (gr_nodes ?r) = (\<lambda>(n, d). (n, unat d)) ` set (gs_distance gs)"
    unfolding gn set_graph_nodes image_image by (rule image_cong) auto
  also have "\<dots> = {(n, k). (n, k) \<in> seen \<and> k = (LEAST j. (n, j) \<in> seen)}"
    by (rule unat_image [OF nodes small])
  moreover have "distinct (map gn_crate_name (gr_nodes ?r))"
    unfolding gn using d by (intro graph_nodes_distinct) (simp add: dist_ok_def)
  moreover have "sorted (map (\<lambda>n. (gn_min_distance n, gn_crate_name n)) (gr_nodes ?r))"
    unfolding gn graph_nodes_def by (rule sorted_sort_key)
  moreover have "edge_key ` set (gr_edges ?r) = at_depth ` graph_edge_sightings st edges ctx selected direction (unat depth) \<and>
      distinct (map edge_key (gr_edges ?r))"
    using ok by (simp add: graph_ok_def edges_ok_def ge)
  ultimately show ?thesis unfolding Inr Let_def seen_def [symmetric] by simp
qed

end
