(* ===== verification/Crate_Sync.thy ===== *)
theory Crate_Sync
  imports Freshness Collections
begin

text \<open>
  Synchronising a crate from crates.io: \<open>pick_primary_version\<close> and \<open>sync_single_crate\<close>
  (\<open>mcp/indexing/handlers.rs\<close>), the read-me handling of the client (\<open>integration/crates_io/mod.rs\<close>) and
  the transaction that writes the crate, its versions, features and dependency edges
  (\<open>persist_crate_sync\<close>, \<open>replace_dependency_edges_tx\<close>, \<open>ensure_crate_stub_tx\<close> in \<open>db/indexing.rs\<close>).
  A statement that fails, for a constraint or for any other reason, rolls the transaction back; the
  sequence values a rolled-back statement consumed are not modelled.
\<close>

section \<open>What crates.io returns\<close>

record crates_io_crate_record =
  ck_name :: string
  ck_description :: "string option"
  ck_repository :: "string option"
  ck_documentation :: "string option"
  ck_homepage :: "string option"
  ck_max_version :: "string option"

record crates_io_version_record =
  vn_num :: string
  vn_created_at :: "string option"
  vn_updated_at :: "string option"
  vn_yanked :: bool
  vn_downloads :: "nat option"
  vn_checksum :: "string option"
  vn_rust_version :: "string option"
  vn_license :: "string option"
  vn_features :: "(string, string list) btree"

record crates_io_keyword =
  kw_id :: string
  kw_keyword :: "string option"

record crates_io_category =
  ct_id :: string
  ct_slug :: "string option"
  ct_category :: "string option"

record crates_io_crate_detail =
  cd_krate :: crates_io_crate_record
  cd_versions :: "crates_io_version_record list"
  cd_keywords :: "crates_io_keyword list"
  cd_categories :: "crates_io_category list"

record crates_io_dependency =
  xd_crate_id :: string
  xd_req :: string
  xd_kind :: "string option"
  xd_optional :: bool
  xd_features :: "string list"

section \<open>The read-me\<close>

definition README_MAX_CHARS :: nat where "README_MAX_CHARS = 1000000"

definition normalize_readme :: "string option \<Rightarrow> string option" where
  "normalize_readme readme =
     (case readme of
        None \<Rightarrow> None
      | Some text \<Rightarrow>
          (let trimmed = trim text
           in if trimmed = [] then None
              else if length trimmed > README_MAX_CHARS then Some (fst (take_chars README_MAX_CHARS trimmed))
              else Some trimmed))"

record crates_io_readme_body =
  rb_content :: "string option"
  rb_readme :: "string option"
  rb_message :: "string option"

definition or_opt :: "'a option \<Rightarrow> 'a option \<Rightarrow> 'a option" where
  "or_opt a b = (case a of None \<Rightarrow> b | Some x \<Rightarrow> Some x)"

definition parse_json_readme_body ::
  "(string \<Rightarrow> crates_io_readme_body option) \<Rightarrow> string \<Rightarrow> string option" where
  "parse_json_readme_body from_str body =
     (case from_str body of
        None \<Rightarrow> None
      | Some parsed \<Rightarrow> or_opt (or_opt (rb_content parsed) (rb_readme parsed)) (rb_message parsed))"

text \<open>A response as the client sees it: the status, the content type and the body or the error of reading it.\<close>

record http_response =
  hr_status :: nat
  hr_content_type :: string
  hr_body :: "string result"

definition fetch_readme ::
  "(string \<Rightarrow> crates_io_readme_body option) \<Rightarrow> http_response result \<Rightarrow> string \<Rightarrow> string \<Rightarrow> string option result" where
  "fetch_readme from_str sent crate_name version_num =
     (let at = crate_name @ ''@'' @ version_num
      in case sent of
           Inl e \<Rightarrow> Inl (''readme request failed for '' @ at @ '': '' @ e)
         | Inr response \<Rightarrow>
             if hr_status response = 404 \<or> hr_status response = 403 then Inr None
             else if \<not> (200 \<le> hr_status response \<and> hr_status response < 300)
             then Inl (''readme request failed for '' @ at @ '' with status '' @ show_nat (hr_status response) @ '': '' @
                       (case hr_body response of Inl _ \<Rightarrow> ''<body unavailable>'' | Inr body \<Rightarrow> body))
             else (case hr_body response of
                 Inl e \<Rightarrow> Inl (''failed to read readme body for '' @ at @ '': '' @ e)
               | Inr body \<Rightarrow>
                   if trim body = [] then Inr None
                   else Inr (normalize_readme
                     (if contains ''application/json'' (hr_content_type response)
                      then parse_json_readme_body from_str body else Some body))))"

section \<open>Upserts\<close>

text \<open>
  \<open>INSERT \<dots> ON CONFLICT (key) DO UPDATE \<dots> RETURNING id\<close>: the row of the key is updated when there is
  one; otherwise a row with the next id of the sequence is added.
\<close>

definition upsert_rows ::
  "('r \<Rightarrow> 'k) \<Rightarrow> ('r \<Rightarrow> nat) \<Rightarrow> 'k \<Rightarrow> (nat \<Rightarrow> 'r) \<Rightarrow> ('r \<Rightarrow> 'r) \<Rightarrow> nat \<Rightarrow> 'r list \<Rightarrow> nat \<times> 'r list" where
  "upsert_rows key ident k mk upd next_id rows =
     (case find (\<lambda>r. key r = k) rows of
        Some r \<Rightarrow> (ident r, map (\<lambda>x. if key x = k then upd x else x) rows)
      | None \<Rightarrow> (next_id, rows @ [mk next_id]))"

record sync_db =
  sd_store :: crate_store
  sd_features :: "feature_row list"
  sd_edges :: "dependency_edge_row list"
  sd_next_crate_id :: nat
  sd_next_version_id :: nat

definition unique_violation :: "string \<Rightarrow> string" where
  "unique_violation index = ''duplicate key value violates unique constraint '' @ [CHR 0x22] @ index @ [CHR 0x22]"

text \<open>
  The arbiter of the upsert is \<open>name\<close>; a row whose name differs in case only violates the unique index on
  \<open>name_lower\<close>.
\<close>

definition upsert_crate_row :: "string \<Rightarrow> (nat \<Rightarrow> crate_row) \<Rightarrow> (crate_row \<Rightarrow> crate_row) \<Rightarrow> sync_db \<Rightarrow> (nat \<times> sync_db) result" where
  "upsert_crate_row name mk upd db =
     (let st = sd_store db
      in if list_all (\<lambda>c. cc_name c \<noteq> name) (st_crates st) \<and>
            list_ex (\<lambda>c. name_lower c = to_ascii_lowercase name) (st_crates st)
         then Inl (unique_violation ''crates_name_lower_idx'')
         else (let (i, rows) = upsert_rows cc_name cc_id name mk upd (sd_next_crate_id db) (st_crates st)
               in Inr (i, db\<lparr>sd_store := st\<lparr>st_crates := rows\<rparr>, sd_next_crate_id := sd_next_crate_id db + 1\<rparr>)))"

definition crate_metadata ::
  "int \<Rightarrow> crates_io_crate_record \<Rightarrow> string list \<Rightarrow> string list \<Rightarrow> crate_row \<Rightarrow> crate_row" where
  "crate_metadata now k categories keywords c =
     c\<lparr>cc_description := ck_description k, cc_repository_url := ck_repository k, cc_docs_url := ck_documentation k,
       cc_homepage_url := ck_homepage k, cc_categories := categories, cc_keywords := keywords, cc_updated_at := now,
       cr_last_checked_at := Some now, cr_next_check_at := Some (now + DAY), cr_ttl_hint_seconds := 86400,
       cr_ttl_reason := Some ''sync_write'', cr_last_refresh_error := None\<rparr>"

definition stub_crate :: "int \<Rightarrow> string \<Rightarrow> nat \<Rightarrow> crate_row" where
  "stub_crate now name i =
     \<lparr>cc_id = i, cc_name = name, cc_description = None, cc_repository_url = None, cc_docs_url = None,
      cc_homepage_url = None, cc_categories = [], cc_keywords = [], cc_updated_at = now,
      cr_last_checked_at = None, cr_next_check_at = None, cr_ttl_hint_seconds = 86400, cr_ttl_reason = None,
      cr_last_refresh_error = None\<rparr>"

definition upsert_synced_crate ::
  "int \<Rightarrow> crates_io_crate_record \<Rightarrow> string list \<Rightarrow> string list \<Rightarrow> sync_db \<Rightarrow> (nat \<times> sync_db) result" where
  "upsert_synced_crate now k categories keywords =
     upsert_crate_row (ck_name k) (\<lambda>i. crate_metadata now k categories keywords (stub_crate now (ck_name k) i))
       (crate_metadata now k categories keywords)"

definition ensure_crate_stub_tx :: "int \<Rightarrow> string \<Rightarrow> sync_db \<Rightarrow> (nat \<times> sync_db) result" where
  "ensure_crate_stub_tx now crate_name =
     upsert_crate_row crate_name (stub_crate now crate_name) (\<lambda>c. c\<lparr>cc_updated_at := now\<rparr>)"

definition new_version :: "nat \<Rightarrow> int option \<Rightarrow> crates_io_version_record \<Rightarrow> nat \<Rightarrow> version_row" where
  "new_version crate_id published_at r i =
     \<lparr>cv_id = i, cv_version = vn_num r, cv_rust_version = vn_rust_version r, cv_published_at = published_at,
      cv_readme = None, vr_crate_id = crate_id, vr_yanked = vn_yanked r, vr_total_downloads = unwrap_or (vn_downloads r) 0,
      vr_locally_present = False, vr_source_origin = 0, vr_rustdoc_enriched_at = None, vr_rustdoc_last_attempt_at = None,
      vr_checksum = vn_checksum r, vr_license_expression = vn_license r, vr_dependencies_synced_at = None\<rparr>"

definition updated_version :: "int option \<Rightarrow> crates_io_version_record \<Rightarrow> version_row \<Rightarrow> version_row" where
  "updated_version published_at r v =
     v\<lparr>cv_published_at := or_opt published_at (cv_published_at v), vr_yanked := vn_yanked r,
       vr_total_downloads := unwrap_or (vn_downloads r) 0, cv_rust_version := or_opt (vn_rust_version r) (cv_rust_version v),
       vr_checksum := or_opt (vn_checksum r) (vr_checksum v),
       vr_license_expression := or_opt (vn_license r) (vr_license_expression v)\<rparr>"

definition version_key :: "version_row \<Rightarrow> nat \<times> string" where
  "version_key v = (vr_crate_id v, cv_version v)"

definition upsert_version :: "nat \<Rightarrow> int option \<Rightarrow> crates_io_version_record \<Rightarrow> sync_db \<Rightarrow> nat \<times> sync_db" where
  "upsert_version crate_id published_at r db =
     (let st = sd_store db;
          (i, rows) = upsert_rows version_key cv_id (crate_id, vn_num r) (new_version crate_id published_at r)
                        (updated_version published_at r) (sd_next_version_id db) (st_versions st)
      in (i, db\<lparr>sd_store := st\<lparr>st_versions := rows\<rparr>, sd_next_version_id := sd_next_version_id db + 1\<rparr>))"

section \<open>Features and dependency edges\<close>

definition feature_enables :: "string list \<Rightarrow> json" where
  "feature_enables enables = JArray (map JString (filter (\<lambda>t. t \<noteq> []) (map trim enables)))"

fun insert_features :: "nat \<Rightarrow> (string \<times> string list) list \<Rightarrow> feature_row list \<Rightarrow> feature_row list result" where
  "insert_features version_id [] rows = Inr rows"
| "insert_features version_id ((feature_name, enables) # fs) rows =
     (if trim feature_name = [] then insert_features version_id fs rows
      else if list_ex (\<lambda>f. fr_crate_version_id f = version_id \<and> fr_feature_name f = trim feature_name) rows
      then Inl (unique_violation ''crate_version_features_crate_version_id_feature_name_key'')
      else insert_features version_id fs
        (rows @ [\<lparr>fr_crate_version_id = version_id, fr_feature_name = trim feature_name, fr_enables = feature_enables enables\<rparr>]))"

definition sync_version ::
  "(string \<Rightarrow> int result) \<Rightarrow> nat \<Rightarrow> crates_io_version_record \<Rightarrow> sync_db \<Rightarrow> (nat \<times> sync_db) result" where
  "sync_version parse_time crate_id r db =
     (case (case or_opt (vn_created_at r) (vn_updated_at r) of
              None \<Rightarrow> Inr None
            | Some t \<Rightarrow> (case parse_time t of Inl e \<Rightarrow> Inl e | Inr p \<Rightarrow> Inr (Some p))) of
        Inl e \<Rightarrow> Inl e
      | Inr published_at \<Rightarrow>
          (let (version_id, db1) = upsert_version crate_id published_at r db
           in case insert_features version_id (vn_features r)
                     (filter (\<lambda>f. fr_crate_version_id f \<noteq> version_id) (sd_features db1)) of
                Inl e \<Rightarrow> Inl e
              | Inr fs \<Rightarrow> Inr (version_id, db1\<lparr>sd_features := fs\<rparr>)))"

fun sync_versions ::
  "(string \<Rightarrow> int result) \<Rightarrow> nat \<Rightarrow> crates_io_version_record list \<Rightarrow> (string \<times> nat) list \<Rightarrow> sync_db \<Rightarrow>
   ((string \<times> nat) list \<times> sync_db) result" where
  "sync_versions parse_time crate_id [] version_ids db = Inr (version_ids, db)"
| "sync_versions parse_time crate_id (r # rs) version_ids db =
     (case sync_version parse_time crate_id r db of
        Inl e \<Rightarrow> Inl e
      | Inr (version_id, db') \<Rightarrow> sync_versions parse_time crate_id rs ((vn_num r, version_id) # version_ids) db')"

fun insert_edges :: "int \<Rightarrow> nat \<Rightarrow> crates_io_dependency list \<Rightarrow> nat \<Rightarrow> sync_db \<Rightarrow> (nat \<times> sync_db) result" where
  "insert_edges now version_id [] written db = Inr (written, db)"
| "insert_edges now version_id (d # ds) written db =
     (let dependency_name = trim (xd_crate_id d)
      in if dependency_name = [] then insert_edges now version_id ds written db
         else (case ensure_crate_stub_tx now dependency_name db of
             Inl e \<Rightarrow> Inl e
           | Inr (to_crate_id, db') \<Rightarrow>
               insert_edges now version_id ds (written + 1)
                 (db'\<lparr>sd_edges := sd_edges db' @
                   [\<lparr>er_from_version_id = version_id, er_to_crate_id = to_crate_id, er_requirement = xd_req d,
                     er_dependency_kind = unwrap_or (xd_kind d) ''normal'', er_optional = xd_optional d,
                     er_features = JArray (map JString (xd_features d))\<rparr>]\<rparr>)))"

definition replace_dependency_edges_tx ::
  "int \<Rightarrow> nat \<Rightarrow> crates_io_dependency list \<Rightarrow> sync_db \<Rightarrow> (nat \<times> sync_db) result" where
  "replace_dependency_edges_tx now version_id dependencies db =
     (case insert_edges now version_id dependencies 0
             (db\<lparr>sd_edges := filter (\<lambda>e. er_from_version_id e \<noteq> version_id) (sd_edges db)\<rparr>) of
        Inl e \<Rightarrow> Inl e
      | Inr (written, db') \<Rightarrow>
          Inr (written, db'\<lparr>sd_store := update_version (\<lambda>v. cv_id v = version_id)
                 (\<lambda>v. v\<lparr>vr_dependencies_synced_at := Some now\<rparr>) (sd_store db')\<rparr>))"

section \<open>The transaction\<close>

definition transact :: "string option \<Rightarrow> (sync_db \<Rightarrow> ('a \<times> sync_db) result) \<Rightarrow> sync_db \<Rightarrow> 'a result \<times> sync_db" where
  "transact db_error body db =
     (case db_error of
        Some e \<Rightarrow> (Inl e, db)
      | None \<Rightarrow> (case body db of Inl e \<Rightarrow> (Inl e, db) | Inr (x, db') \<Rightarrow> (Inr x, db')))"

definition persist_version_dependencies ::
  "string option \<Rightarrow> int \<Rightarrow> nat \<Rightarrow> crates_io_dependency list \<Rightarrow> sync_db \<Rightarrow> nat result \<times> sync_db" where
  "persist_version_dependencies db_error now version_id dependencies =
     transact db_error (replace_dependency_edges_tx now version_id dependencies)"

record persist_crate_sync_outcome =
  po_versions_synced :: nat
  po_dependencies_synced :: nat

definition set_readme :: "string option \<Rightarrow> nat \<Rightarrow> sync_db \<Rightarrow> sync_db" where
  "set_readme readme version_id db =
     (case readme of
        None \<Rightarrow> db
      | Some readme_text \<Rightarrow>
          db\<lparr>sd_store := update_version (\<lambda>v. cv_id v = version_id) (\<lambda>v. v\<lparr>cv_readme := Some readme_text\<rparr>) (sd_store db)\<rparr>)"

definition write_selected ::
  "int \<Rightarrow> (string \<times> nat) list \<Rightarrow> string option \<Rightarrow> string option \<Rightarrow> crates_io_dependency list option \<Rightarrow> sync_db \<Rightarrow>
   (nat \<times> sync_db) result" where
  "write_selected now version_ids selected_version readme dependencies db =
     (case Option.bind selected_version (map_of version_ids) of
        None \<Rightarrow> Inr (0, db)
      | Some selected_version_id \<Rightarrow>
          (let db1 = set_readme readme selected_version_id db
           in case dependencies of
                None \<Rightarrow> Inr (0, db1)
              | Some ds \<Rightarrow> replace_dependency_edges_tx now selected_version_id ds db1))"

definition persist_body ::
  "(string \<Rightarrow> int result) \<Rightarrow> int \<Rightarrow> crates_io_crate_detail \<Rightarrow> string option \<Rightarrow> string option \<Rightarrow>
   crates_io_dependency list option \<Rightarrow> string list \<Rightarrow> string list \<Rightarrow> sync_db \<Rightarrow> (persist_crate_sync_outcome \<times> sync_db) result" where
  "persist_body parse_time now detail selected_version readme dependencies categories keywords db =
     (case upsert_synced_crate now (cd_krate detail) categories keywords db of
        Inl e \<Rightarrow> Inl e
      | Inr (crate_id, db1) \<Rightarrow>
     (case sync_versions parse_time crate_id (cd_versions detail) [] db1 of
        Inl e \<Rightarrow> Inl e
      | Inr (version_ids, db2) \<Rightarrow>
     (case write_selected now version_ids selected_version readme dependencies db2 of
        Inl e \<Rightarrow> Inl e
      | Inr (dependencies_synced, db3) \<Rightarrow>
          Inr (\<lparr>po_versions_synced = length (cd_versions detail), po_dependencies_synced = dependencies_synced\<rparr>, db3))))"

definition persist_crate_sync ::
  "(string \<Rightarrow> int result) \<Rightarrow> string option \<Rightarrow> int \<Rightarrow> crates_io_crate_detail \<Rightarrow> string option \<Rightarrow> string option \<Rightarrow>
   crates_io_dependency list option \<Rightarrow> string list \<Rightarrow> string list \<Rightarrow> sync_db \<Rightarrow> persist_crate_sync_outcome result \<times> sync_db" where
  "persist_crate_sync parse_time db_error now detail selected_version readme dependencies categories keywords =
     transact db_error (persist_body parse_time now detail selected_version readme dependencies categories keywords)"

section \<open>Synchronising one crate\<close>

definition pick_primary_version :: "crates_io_crate_detail \<Rightarrow> string option" where
  "pick_primary_version detail =
     (let fallback = (case find (\<lambda>v. \<not> vn_yanked v) (cd_versions detail) of
            Some v \<Rightarrow> Some (vn_num v)
          | None \<Rightarrow> map_option vn_num (case cd_versions detail of [] \<Rightarrow> None | v # _ \<Rightarrow> Some v))
      in case ck_max_version (cd_krate detail) of
           Some max_version \<Rightarrow> if list_ex (\<lambda>v. vn_num v = max_version) (cd_versions detail) then Some max_version else fallback
         | None \<Rightarrow> fallback)"

record crates_io_api =
  ca_detail :: "string \<Rightarrow> crates_io_crate_detail result"
  ca_readme :: "string \<Rightarrow> string \<Rightarrow> string option result"
  ca_dependencies :: "string \<Rightarrow> string \<Rightarrow> crates_io_dependency list result"
  ca_parse_time :: "string \<Rightarrow> int result"

record sync_crate_outcome =
  so_versions_synced :: nat
  so_dependencies_synced :: nat
  so_selected_version :: "string option"

definition category_names :: "crates_io_crate_detail \<Rightarrow> string list" where
  "category_names detail = dedupe_strings (map (\<lambda>c. unwrap_or (or_opt (ct_slug c) (ct_category c)) (ct_id c)) (cd_categories detail))"

definition keyword_names :: "crates_io_crate_detail \<Rightarrow> string list" where
  "keyword_names detail = dedupe_strings (map (\<lambda>k. unwrap_or (kw_keyword k) (kw_id k)) (cd_keywords detail))"

definition sync_single_crate ::
  "crates_io_api \<Rightarrow> string option \<Rightarrow> int \<Rightarrow> string \<Rightarrow> bool \<Rightarrow> sync_db \<Rightarrow> sync_crate_outcome result \<times> sync_db" where
  "sync_single_crate api db_error now crate_name include_dependencies db =
     (case res_bind (ca_detail api crate_name) (\<lambda>detail.
           res_bind (case pick_primary_version detail of
               None \<Rightarrow> Inr None | Some v \<Rightarrow> ca_readme api crate_name v) (\<lambda>readme.
           res_bind (case (include_dependencies, pick_primary_version detail) of
               (True, Some v) \<Rightarrow> res_bind (ca_dependencies api crate_name v) (\<lambda>ds. Inr (Some ds)) | _ \<Rightarrow> Inr None) (\<lambda>dependencies.
             Inr (detail, readme, dependencies)))) of
        Inl e \<Rightarrow> (Inl e, db)
      | Inr (detail, readme, dependencies) \<Rightarrow>
          (case persist_crate_sync (ca_parse_time api) db_error now detail (pick_primary_version detail) readme dependencies
                  (category_names detail) (keyword_names detail) db of
             (Inl e, db') \<Rightarrow> (Inl (''failed to persist sync for '' @ crate_name @ '': '' @ e), db')
           | (Inr persisted, db') \<Rightarrow>
               (Inr \<lparr>so_versions_synced = po_versions_synced persisted, so_dependencies_synced = po_dependencies_synced persisted,
                     so_selected_version = pick_primary_version detail\<rparr>, db')))"

section \<open>The contract of an upsert\<close>

locale upsert =
  fixes key :: "'r \<Rightarrow> 'k" and ident :: "'r \<Rightarrow> nat" and k :: 'k and mk :: "nat \<Rightarrow> 'r" and upd :: "'r \<Rightarrow> 'r"
  assumes key_mk: "key (mk i) = k" and ident_mk: "ident (mk i) = i"
    and key_upd: "key (upd r) = key r" and ident_upd: "ident (upd r) = ident r"
begin

lemma map_upd_keys: "map key (map (\<lambda>x. if key x = k then upd x else x) rows) = map key rows"
  by (simp add: key_upd)

lemma map_upd_ids: "map ident (map (\<lambda>x. if key x = k then upd x else x) rows) = map ident rows"
  by (simp add: ident_upd)

lemma rows_cases:
  assumes "upsert_rows key ident k mk upd n rows = (i, rows')"
  obtains (updated) r where "find (\<lambda>x. key x = k) rows = Some r" "i = ident r"
      "rows' = map (\<lambda>x. if key x = k then upd x else x) rows"
  | (inserted) "k \<notin> key ` set rows" "i = n" "rows' = rows @ [mk n]"
  using assms unfolding upsert_rows_def by (auto simp: find_None_iff split: option.splits)

lemma distinct_keys:
  assumes "upsert_rows key ident k mk upd n rows = (i, rows')" and "distinct (map key rows)"
  shows "distinct (map key rows')"
  using assms(1)
proof (cases rule: rows_cases)
  case updated
  then show ?thesis using assms(2) by (simp only: map_upd_keys)
next
  case inserted
  then show ?thesis using assms(2) by (auto simp: key_mk)
qed

lemma distinct_ids:
  assumes "upsert_rows key ident k mk upd n rows = (i, rows')" and "distinct (map ident rows)" "\<forall>r \<in> set rows. ident r < n"
  shows "distinct (map ident rows') \<and> (\<forall>r \<in> set rows'. ident r < n + 1)"
  using assms(1)
proof (cases rule: rows_cases)
  case updated
  have "\<forall>r \<in> set rows'. ident r < n + 1" using updated assms(3) by (auto simp: ident_upd intro: less_SucI)
  with updated assms(2) show ?thesis by (simp only: map_upd_ids)
next
  case inserted
  then show ?thesis using assms(2,3) by (auto simp: ident_mk intro: less_SucI)
qed

lemma ids_grow:
  assumes "upsert_rows key ident k mk upd n rows = (i, rows')"
  shows "ident ` set rows' = insert i (ident ` set rows)"
  using assms
proof (cases rule: rows_cases)
  case (updated r)
  have "ident ` set rows' = ident ` set rows"
    unfolding set_map [symmetric] updated(3) map_upd_ids ..
  with updated show ?thesis by (auto dest!: find_SomeD)
next
  case inserted
  then show ?thesis by (simp add: ident_mk)
qed

lemma other_keys:
  assumes "upsert_rows key ident k mk upd n rows = (i, rows')"
  shows "filter (\<lambda>x. key x \<noteq> k) rows' = filter (\<lambda>x. key x \<noteq> k) rows"
  using assms
proof (cases rule: rows_cases)
  case updated
  have "filter (\<lambda>x. key x \<noteq> k) (map (\<lambda>x. if key x = k then upd x else x) rows) = filter (\<lambda>x. key x \<noteq> k) rows"
    by (induction rows) (auto simp: key_upd)
  with updated show ?thesis by simp
next
  case inserted
  then show ?thesis by (simp add: key_mk)
qed

text \<open>The row of the key afterwards: the updated old row or the new one, under the returned id.\<close>

lemma the_row:
  assumes "upsert_rows key ident k mk upd n rows = (i, rows')"
  shows "\<exists>r. find (\<lambda>x. key x = k) rows' = Some r \<and> ident r = i \<and>
    (r = mk n \<or> (\<exists>r0 \<in> set rows. key r0 = k \<and> r = upd r0))"
  using assms
proof (cases rule: rows_cases)
  case (updated r0)
  have "find (\<lambda>x. key x = k) (map (\<lambda>x. if key x = k then upd x else x) rows) = map_option upd (find (\<lambda>x. key x = k) rows)"
    by (induction rows) (auto simp: key_upd)
  with updated show ?thesis by (auto simp: ident_upd dest!: find_SomeD)
next
  case inserted
  then have "find (\<lambda>x. key x = k) rows = None" by (auto simp: find_None_iff)
  moreover have "find P (xs @ ys) = (case find P xs of None \<Rightarrow> find P ys | Some x \<Rightarrow> Some x)" for P and xs ys :: "'r list"
    by (induction xs) auto
  ultimately show ?thesis using inserted by (simp add: key_mk ident_mk)
qed

end

interpretation synced_crate: upsert cc_name cc_id "ck_name k"
  "\<lambda>i. crate_metadata now k cats kws (stub_crate now (ck_name k) i)" "crate_metadata now k cats kws"
  for now k cats kws
  by unfold_locales (simp_all add: crate_metadata_def stub_crate_def)

interpretation crate_stub: upsert cc_name cc_id name "stub_crate now name" "\<lambda>c. c\<lparr>cc_updated_at := now\<rparr>"
  for now name
  by unfold_locales (simp_all add: stub_crate_def)

interpretation synced_version: upsert version_key cv_id "(crate_id, vn_num r)" "new_version crate_id p r" "updated_version p r"
  for crate_id p r
  by unfold_locales (simp_all add: version_key_def new_version_def updated_version_def)

section \<open>The tables stay consistent\<close>

definition crate_ids :: "sync_db \<Rightarrow> nat set" where
  "crate_ids db = cc_id ` set (st_crates (sd_store db))"

definition version_ids :: "sync_db \<Rightarrow> nat set" where
  "version_ids db = cv_id ` set (st_versions (sd_store db))"

definition feature_key :: "feature_row \<Rightarrow> nat \<times> string" where
  "feature_key f = (fr_crate_version_id f, fr_feature_name f)"

text \<open>The primary keys, unique indexes and foreign keys of the schema, and that the sequences are ahead of the ids.\<close>

definition crates_ok :: "sync_db \<Rightarrow> bool" where
  "crates_ok db \<longleftrightarrow> distinct (map cc_id (st_crates (sd_store db))) \<and> distinct (map name_lower (st_crates (sd_store db))) \<and>
     (\<forall>c \<in> set (st_crates (sd_store db)). cc_id c < sd_next_crate_id db)"

definition versions_ok :: "sync_db \<Rightarrow> bool" where
  "versions_ok db \<longleftrightarrow> distinct (map cv_id (st_versions (sd_store db))) \<and> distinct (map version_key (st_versions (sd_store db))) \<and>
     (\<forall>v \<in> set (st_versions (sd_store db)). cv_id v < sd_next_version_id db \<and> vr_crate_id v \<in> crate_ids db)"

definition children_ok :: "sync_db \<Rightarrow> bool" where
  "children_ok db \<longleftrightarrow> distinct (map feature_key (sd_features db)) \<and>
     (\<forall>f \<in> set (sd_features db). fr_crate_version_id f \<in> version_ids db) \<and>
     (\<forall>e \<in> set (sd_edges db). er_from_version_id e \<in> version_ids db \<and> er_to_crate_id e \<in> crate_ids db)"

definition tables_inv :: "sync_db \<Rightarrow> bool" where
  "tables_inv db \<longleftrightarrow> crates_ok db \<and> versions_ok db \<and> children_ok db"

lemma tables_inv_store: "tables_inv db \<Longrightarrow> store_inv (sd_store db)"
  by (simp add: tables_inv_def crates_ok_def versions_ok_def store_inv_def version_key_def [abs_def])

lemma name_lower_distinct:
  assumes "distinct (map name_lower (st :: crate_row list))" and "list_all (\<lambda>c. cc_name c \<noteq> n) st \<longrightarrow> \<not> list_ex (\<lambda>c. name_lower c = to_ascii_lowercase n) st"
    and "upsert_rows cc_name cc_id n mk upd i st = (j, st')" and "\<And>i. cc_name (mk i) = n" "\<And>c. cc_name (upd c) = cc_name c"
  shows "distinct (map name_lower st')"
proof (cases "find (\<lambda>c. cc_name c = n) st")
  case None
  then have "st' = st @ [mk i]" using assms(3) by (auto simp: upsert_rows_def)
  moreover have "\<forall>c \<in> set st. name_lower c \<noteq> to_ascii_lowercase n"
    using None assms(2) by (auto simp: find_None_iff list_all_iff list_ex_iff)
  moreover have "name_lower (mk i) = to_ascii_lowercase n" by (simp add: name_lower_def assms(4))
  ultimately show ?thesis using assms(1) by auto
next
  case (Some c)
  then have "st' = map (\<lambda>x. if cc_name x = n then upd x else x) st" using assms(3) by (simp add: upsert_rows_def)
  then have "map name_lower st' = map name_lower st" using assms(5) by (simp add: name_lower_def)
  then show ?thesis using assms(1) by simp
qed

definition crate_names :: "sync_db \<Rightarrow> (nat \<times> string) set" where
  "crate_names db = (\<lambda>c. (cc_id c, cc_name c)) ` set (st_crates (sd_store db))"

lemma crate_ids_names: "crate_ids db = fst ` crate_names db"
  by (simp add: crate_ids_def crate_names_def image_image)

lemma upsert_crate_names:
  assumes "upsert cc_name cc_id n mk upd" and "upsert_rows cc_name cc_id n mk upd m rows = (i, rows')"
  shows "(\<lambda>c. (cc_id c, cc_name c)) ` set rows' = insert (i, n) ((\<lambda>c. (cc_id c, cc_name c)) ` set rows)"
  using assms(2)
proof (cases rule: upsert.rows_cases [OF assms(1), consumes 1, case_names updated inserted])
  case (updated r)
  have "map (\<lambda>c. (cc_id c, cc_name c)) rows' = map (\<lambda>c. (cc_id c, cc_name c)) rows"
    by (simp add: updated(3) upsert.key_upd [OF assms(1)] upsert.ident_upd [OF assms(1)])
  then have "(\<lambda>c. (cc_id c, cc_name c)) ` set rows' = (\<lambda>c. (cc_id c, cc_name c)) ` set rows" by (metis set_map)
  moreover have "(i, n) \<in> (\<lambda>c. (cc_id c, cc_name c)) ` set rows" using updated by (force dest!: find_SomeD)
  ultimately show ?thesis by auto
next
  case inserted
  then show ?thesis by (simp add: upsert.key_mk [OF assms(1)] upsert.ident_mk [OF assms(1)])
qed

lemma upsert_crate_row_ok:
  assumes "upsert cc_name cc_id n mk upd" and "tables_inv db" and "upsert_crate_row n mk upd db = Inr (i, db')"
  shows "tables_inv db' \<and> crate_names db' = insert (i, n) (crate_names db) \<and> st_versions (sd_store db') = st_versions (sd_store db) \<and>
    sd_features db' = sd_features db \<and> sd_edges db' = sd_edges db \<and> sd_next_version_id db' = sd_next_version_id db"
proof -
  let ?st = "st_crates (sd_store db)"
  obtain rows where u: "upsert_rows cc_name cc_id n mk upd (sd_next_crate_id db) ?st = (i, rows)"
    and d: "db' = db\<lparr>sd_store := (sd_store db)\<lparr>st_crates := rows\<rparr>, sd_next_crate_id := sd_next_crate_id db + 1\<rparr>"
    and n: "list_all (\<lambda>c. cc_name c \<noteq> n) ?st \<longrightarrow> \<not> list_ex (\<lambda>c. name_lower c = to_ascii_lowercase n) ?st"
    using assms(3) by (auto simp: upsert_crate_row_def Let_def split: prod.splits if_splits)
  have ok: "crates_ok db" using assms(2) by (simp add: tables_inv_def)
  have ids: "cc_id ` set rows = insert i (cc_id ` set ?st)" by (rule upsert.ids_grow [OF assms(1) u])
  have "distinct (map cc_id rows) \<and> (\<forall>r \<in> set rows. cc_id r < sd_next_crate_id db + 1)"
    using ok by (intro upsert.distinct_ids [OF assms(1) u]) (simp_all add: crates_ok_def)
  moreover have "distinct (map name_lower rows)"
    using ok n by (intro name_lower_distinct [OF _ _ u]) (simp_all add: crates_ok_def upsert.key_mk [OF assms(1)] upsert.key_upd [OF assms(1)])
  ultimately have "crates_ok db'" by (simp add: crates_ok_def d)
  moreover have c: "crate_ids db' = insert i (crate_ids db)" by (simp add: crate_ids_def d ids)
  moreover have "crate_names db' = insert (i, n) (crate_names db)"
    using upsert_crate_names [OF assms(1) u] by (simp add: crate_names_def d)
  moreover have "versions_ok db'" "children_ok db'" using assms(2) c
    by (auto simp: tables_inv_def versions_ok_def children_ok_def version_ids_def d)
  ultimately show ?thesis by (simp add: tables_inv_def d)
qed

lemma upsert_version_ok:
  assumes "tables_inv db" and "crate_id \<in> crate_ids db" and "upsert_version crate_id p r db = (i, db')"
  shows "tables_inv db' \<and> st_crates (sd_store db') = st_crates (sd_store db) \<and> version_ids db' = insert i (version_ids db) \<and>
    sd_features db' = sd_features db \<and> sd_edges db' = sd_edges db"
proof -
  let ?st = "st_versions (sd_store db)"
  obtain rows where u: "upsert_rows version_key cv_id (crate_id, vn_num r) (new_version crate_id p r) (updated_version p r)
      (sd_next_version_id db) ?st = (i, rows)"
    and d: "db' = db\<lparr>sd_store := (sd_store db)\<lparr>st_versions := rows\<rparr>, sd_next_version_id := sd_next_version_id db + 1\<rparr>"
    using assms(3) by (auto simp: upsert_version_def Let_def split: prod.splits)
  have ok: "versions_ok db" using assms(1) by (simp add: tables_inv_def)
  have "distinct (map cv_id rows) \<and> (\<forall>v \<in> set rows. cv_id v < sd_next_version_id db + 1)"
    using ok by (intro synced_version.distinct_ids [OF u]) (simp_all add: versions_ok_def)
  moreover have "distinct (map version_key rows)"
    using ok by (intro synced_version.distinct_keys [OF u]) (simp add: versions_ok_def)
  moreover have "\<forall>v \<in> set rows. vr_crate_id v \<in> crate_ids db"
    using u
  proof (cases rule: synced_version.rows_cases)
    case updated
    then show ?thesis using ok by (auto simp: versions_ok_def updated_version_def)
  next
    case inserted
    then show ?thesis using ok assms(2) by (auto simp: versions_ok_def new_version_def)
  qed
  moreover have c: "crate_ids db' = crate_ids db" by (simp add: crate_ids_def d)
  ultimately have "versions_ok db'" by (simp add: versions_ok_def d crate_ids_def)
  moreover have ids: "version_ids db' = insert i (version_ids db)"
    using synced_version.ids_grow [OF u] by (simp add: version_ids_def d)
  moreover have "crates_ok db'" "children_ok db'"
    using assms(1) ids c by (auto simp: tables_inv_def crates_ok_def children_ok_def d)
  ultimately show ?thesis by (simp add: tables_inv_def d)
qed

lemma insert_features_keep:
  assumes "insert_features i fs rows = Inr rows'" and "distinct (map feature_key rows)"
  shows "distinct (map feature_key rows') \<and> filter (\<lambda>f. fr_crate_version_id f \<noteq> i) rows' = filter (\<lambda>f. fr_crate_version_id f \<noteq> i) rows"
  using assms
proof (induction i fs rows rule: insert_features.induct)
  case (2 i name enables fs rows)
  show ?case
  proof (cases "trim name = []")
    case True
    with 2 show ?thesis by simp
  next
    case False
    let ?row = "\<lparr>fr_crate_version_id = i, fr_feature_name = trim name, fr_enables = feature_enables enables\<rparr>"
    have "\<not> list_ex (\<lambda>f. fr_crate_version_id f = i \<and> fr_feature_name f = trim name) rows" using 2(3) False by (auto split: if_splits)
    then have "feature_key ?row \<notin> feature_key ` set rows" by (auto simp: list_ex_iff feature_key_def)
    with 2(4) have "distinct (map feature_key (rows @ [?row]))" by simp
    with 2 False show ?thesis by (auto split: if_splits)
  qed
qed simp

lemma insert_features_of: "insert_features i fs rows = Inr rows' \<Longrightarrow> f \<in> set rows' \<Longrightarrow> f \<in> set rows \<or> fr_crate_version_id f = i"
  by (induction i fs rows rule: insert_features.induct) (fastforce split: if_splits)+

lemma distinct_keys_filter: "distinct (map f xs) \<Longrightarrow> distinct (map f (filter P xs))"
  by (rule distinct_map_filter)

lemma sync_version_ok:
  assumes "tables_inv db" and "crate_id \<in> crate_ids db" and "sync_version pt crate_id r db = Inr (i, db')"
  shows "tables_inv db' \<and> st_crates (sd_store db') = st_crates (sd_store db) \<and> version_ids db' = insert i (version_ids db) \<and>
    sd_edges db' = sd_edges db"
proof -
  obtain p db1 fs where u: "upsert_version crate_id p r db = (i, db1)"
    and f: "insert_features i (vn_features r) (filter (\<lambda>f. fr_crate_version_id f \<noteq> i) (sd_features db1)) = Inr fs"
    and d: "db' = db1\<lparr>sd_features := fs\<rparr>"
    using assms(3) by (auto simp: sync_version_def Let_def split: sum.splits prod.splits)
  note ok = upsert_version_ok [OF assms(1,2) u]
  have ch: "children_ok db1" using ok by (simp add: tables_inv_def)
  have "distinct (map feature_key fs)"
    using insert_features_keep [OF f] ch by (simp add: children_ok_def distinct_map_filter)
  moreover have "\<forall>f \<in> set fs. fr_crate_version_id f \<in> version_ids db1"
    using insert_features_of [OF f] ch ok by (auto simp: children_ok_def)
  ultimately have "children_ok db'" using ch by (simp add: children_ok_def d version_ids_def crate_ids_def)
  moreover have "crates_ok db1" "versions_ok db1" using ok by (simp_all add: tables_inv_def)
  then have "crates_ok db'" "versions_ok db'" by (simp_all add: crates_ok_def versions_ok_def crate_ids_def d)
  ultimately show ?thesis using ok by (simp add: tables_inv_def d version_ids_def)
qed

lemma sync_versions_ok:
  assumes "tables_inv db" and "crate_id \<in> crate_ids db" and "sync_versions pt crate_id rs ids db = Inr (ids', db')"
    and "snd ` set ids \<subseteq> version_ids db"
  shows "tables_inv db' \<and> st_crates (sd_store db') = st_crates (sd_store db) \<and> version_ids db \<subseteq> version_ids db' \<and>
    sd_edges db' = sd_edges db \<and> snd ` set ids' \<subseteq> version_ids db'"
  using assms
proof (induction rs arbitrary: ids db)
  case (Cons r rs)
  then obtain i db1 where s: "sync_version pt crate_id r db = Inr (i, db1)"
    and rest: "sync_versions pt crate_id rs ((vn_num r, i) # ids) db1 = Inr (ids', db')"
    by (auto split: sum.splits)
  note ok = sync_version_ok [OF Cons.prems(1,2) s]
  have "crate_id \<in> crate_ids db1" using Cons.prems(2) ok by (simp add: crate_ids_def)
  moreover have "snd ` set ((vn_num r, i) # ids) \<subseteq> version_ids db1" using Cons.prems(4) ok by auto
  ultimately show ?case using Cons.IH [OF _ _ rest] ok by auto
qed simp

text \<open>The edge a dependency record is written as, to the crate of its name.\<close>

definition edge_for :: "(nat \<times> string) set \<Rightarrow> nat \<Rightarrow> crates_io_dependency \<Rightarrow> dependency_edge_row \<Rightarrow> bool" where
  "edge_for names i d e \<longleftrightarrow> er_from_version_id e = i \<and> (er_to_crate_id e, trim (xd_crate_id d)) \<in> names \<and>
     er_requirement e = xd_req d \<and> er_dependency_kind e = unwrap_or (xd_kind d) ''normal'' \<and>
     er_optional e = xd_optional d \<and> er_features e = JArray (map JString (xd_features d))"

lemma edge_for_mono: "edge_for N i d e \<Longrightarrow> N \<subseteq> M \<Longrightarrow> edge_for M i d e"
  by (auto simp: edge_for_def)

lemma tables_inv_add_edge:
  assumes "tables_inv db" and "er_from_version_id e \<in> version_ids db" and "er_to_crate_id e \<in> crate_ids db"
  shows "tables_inv (db\<lparr>sd_edges := sd_edges db @ [e]\<rparr>)"
  using assms by (auto simp: tables_inv_def crates_ok_def versions_ok_def children_ok_def version_ids_def crate_ids_def)

lemma insert_edges_ok:
  assumes "tables_inv db" and "i \<in> version_ids db" and "insert_edges now i ds w db = Inr (w', db')"
  shows "tables_inv db' \<and> crate_names db \<subseteq> crate_names db' \<and> st_versions (sd_store db') = st_versions (sd_store db) \<and>
    sd_features db' = sd_features db \<and>
    (\<exists>es. sd_edges db' = sd_edges db @ es \<and> w' = w + length es \<and>
       list_all2 (edge_for (crate_names db') i) (filter (\<lambda>d. trim (xd_crate_id d) \<noteq> []) ds) es)"
  using assms
proof (induction ds arbitrary: w db)
  case (Cons d ds)
  show ?case
  proof (cases "trim (xd_crate_id d) = []")
    case True
    with Cons.prems Cons.IH [of db w] show ?thesis by simp
  next
    case False
    let ?n = "trim (xd_crate_id d)"
    from Cons.prems(3) False obtain j db1 where s: "ensure_crate_stub_tx now ?n db = Inr (j, db1)"
      and rest: "insert_edges now i ds (w + 1) (db1\<lparr>sd_edges := sd_edges db1 @
                   [\<lparr>er_from_version_id = i, er_to_crate_id = j, er_requirement = xd_req d,
                     er_dependency_kind = unwrap_or (xd_kind d) ''normal'', er_optional = xd_optional d,
                     er_features = JArray (map JString (xd_features d))\<rparr>]\<rparr>) = Inr (w', db')"
      by (auto simp: Let_def split: sum.splits)
    define e where "e = \<lparr>er_from_version_id = i, er_to_crate_id = j, er_requirement = xd_req d,
                     er_dependency_kind = unwrap_or (xd_kind d) ''normal'', er_optional = xd_optional d,
                     er_features = JArray (map JString (xd_features d))\<rparr>"
    let ?db = "db1\<lparr>sd_edges := sd_edges db1 @ [e]\<rparr>"
    note ok = upsert_crate_row_ok [OF crate_stub.upsert_axioms Cons.prems(1) s [unfolded ensure_crate_stub_tx_def]]
    have "j \<in> crate_ids db1" using ok by (simp add: crate_ids_names)
    moreover have v: "i \<in> version_ids db1" using ok Cons.prems(2) by (simp add: version_ids_def)
    ultimately have "tables_inv ?db" using ok by (intro tables_inv_add_edge) (simp_all add: e_def)
    moreover have "i \<in> version_ids ?db" using v by (simp add: version_ids_def)
    ultimately have ih: "tables_inv db' \<and> crate_names ?db \<subseteq> crate_names db' \<and>
        st_versions (sd_store db') = st_versions (sd_store ?db) \<and> sd_features db' = sd_features ?db \<and>
        (\<exists>es. sd_edges db' = sd_edges ?db @ es \<and> w' = w + 1 + length es \<and>
           list_all2 (edge_for (crate_names db') i) (filter (\<lambda>d. trim (xd_crate_id d) \<noteq> []) ds) es)"
      using rest unfolding e_def [symmetric] by (rule Cons.IH)
    then obtain es where es: "sd_edges db' = sd_edges ?db @ es" "w' = w + 1 + length es"
      "list_all2 (edge_for (crate_names db') i) (filter (\<lambda>d. trim (xd_crate_id d) \<noteq> []) ds) es" by blast
    have names: "crate_names ?db = insert (j, ?n) (crate_names db)" using ok by (simp add: crate_names_def)
    then have "edge_for (crate_names db') i d e" using ih by (auto simp: edge_for_def e_def)
    moreover have "sd_edges db' = sd_edges db @ (e # es)" "w' = w + length (e # es)" using es ok by simp_all
    ultimately have "sd_edges db' = sd_edges db @ (e # es) \<and> w' = w + length (e # es) \<and>
        list_all2 (edge_for (crate_names db') i) (filter (\<lambda>d. trim (xd_crate_id d) \<noteq> []) (d # ds)) (e # es)"
      using es(3) False by simp
    moreover have "crate_names db \<subseteq> crate_names db'" using names ih by auto
    moreover have "tables_inv db'" "st_versions (sd_store db') = st_versions (sd_store db)" "sd_features db' = sd_features db"
      using ih ok by simp_all
    ultimately show ?thesis by blast
  qed
qed simp

lemma version_ids_update:
  assumes "\<And>v. cv_id (f v) = cv_id v"
  shows "version_ids (db\<lparr>sd_store := update_version P f (sd_store db)\<rparr>) = version_ids db"
proof -
  have "map cv_id (map (\<lambda>v. if P v then f v else v) (st_versions (sd_store db))) = map cv_id (st_versions (sd_store db))"
    using assms by simp
  then have "cv_id ` set (map (\<lambda>v. if P v then f v else v) (st_versions (sd_store db))) = cv_id ` set (st_versions (sd_store db))"
    by (metis set_map)
  moreover have "st_versions (sd_store (db\<lparr>sd_store := update_version P f (sd_store db)\<rparr>)) =
      map (\<lambda>v. if P v then f v else v) (st_versions (sd_store db))" by simp
  ultimately show ?thesis unfolding version_ids_def by presburger
qed

lemma update_version_ok:
  assumes "tables_inv db" and "\<And>v. cv_id (f v) = cv_id v" "\<And>v. version_key (f v) = version_key v"
  shows "tables_inv (db\<lparr>sd_store := update_version P f (sd_store db)\<rparr>)"
proof -
  let ?g = "\<lambda>v. if P v then f v else v" and ?db = "db\<lparr>sd_store := update_version P f (sd_store db)\<rparr>"
  have crate: "vr_crate_id (f v) = vr_crate_id v" for v using assms(3) [of v] by (simp add: version_key_def)
  have "cv_id \<circ> ?g = cv_id" "version_key \<circ> ?g = version_key"
    by (simp_all add: fun_eq_iff assms(2,3))
  moreover have "\<forall>v \<in> set (map ?g (st_versions (sd_store db))). cv_id v < sd_next_version_id db \<and> vr_crate_id v \<in> crate_ids db"
    using assms(1) by (auto simp: assms(2) crate tables_inv_def versions_ok_def)
  ultimately have "versions_ok ?db" using assms(1)
    unfolding tables_inv_def versions_ok_def crate_ids_def sync_db.simps update_version_versions by simp
  moreover have "version_ids ?db = version_ids db" by (rule version_ids_update [OF assms(2)])
  then have "children_ok ?db" "crates_ok ?db" using assms(1)
    by (simp_all add: tables_inv_def children_ok_def crates_ok_def crate_ids_def)
  ultimately show ?thesis by (simp add: tables_inv_def)
qed

lemma replace_dependency_edges_ok:
  assumes "tables_inv db" and "i \<in> version_ids db" and "replace_dependency_edges_tx now i ds db = Inr (w, db')"
  shows "tables_inv db' \<and> crate_names db \<subseteq> crate_names db' \<and> sd_features db' = sd_features db \<and>
    st_versions (sd_store db') = map (\<lambda>v. if cv_id v = i then v\<lparr>vr_dependencies_synced_at := Some now\<rparr> else v) (st_versions (sd_store db)) \<and>
    (\<exists>es. sd_edges db' = filter (\<lambda>e. er_from_version_id e \<noteq> i) (sd_edges db) @ es \<and> w = length es \<and>
       list_all2 (edge_for (crate_names db') i) (filter (\<lambda>d. trim (xd_crate_id d) \<noteq> []) ds) es)"
proof -
  let ?db = "db\<lparr>sd_edges := filter (\<lambda>e. er_from_version_id e \<noteq> i) (sd_edges db)\<rparr>"
  obtain db1 where e: "insert_edges now i ds 0 ?db = Inr (w, db1)"
    and d: "db' = db1\<lparr>sd_store := update_version (\<lambda>v. cv_id v = i) (\<lambda>v. v\<lparr>vr_dependencies_synced_at := Some now\<rparr>) (sd_store db1)\<rparr>"
    using assms(3) by (auto simp: replace_dependency_edges_tx_def split: sum.splits)
  have "tables_inv ?db" using assms(1)
    by (auto simp: tables_inv_def crates_ok_def versions_ok_def children_ok_def version_ids_def crate_ids_def)
  moreover have "i \<in> version_ids ?db" using assms(2) by (simp add: version_ids_def)
  ultimately have ok: "tables_inv db1 \<and> crate_names ?db \<subseteq> crate_names db1 \<and> st_versions (sd_store db1) = st_versions (sd_store ?db) \<and>
    sd_features db1 = sd_features ?db \<and>
    (\<exists>es. sd_edges db1 = sd_edges ?db @ es \<and> w = 0 + length es \<and>
       list_all2 (edge_for (crate_names db1) i) (filter (\<lambda>d. trim (xd_crate_id d) \<noteq> []) ds) es)"
    using e by (rule insert_edges_ok)
  have "tables_inv db'" unfolding d using ok by (intro update_version_ok) (simp_all add: version_key_def)
  moreover have "crate_names db' = crate_names db1" by (simp add: crate_names_def d)
  ultimately show ?thesis using ok by (simp add: d crate_names_def)
qed

section \<open>What a synchronisation writes\<close>

definition feature_rows :: "nat \<Rightarrow> (string \<times> string list) list \<Rightarrow> feature_row list" where
  "feature_rows i fs = map (\<lambda>(n, es). \<lparr>fr_crate_version_id = i, fr_feature_name = trim n, fr_enables = feature_enables es\<rparr>)
     (filter (\<lambda>(n, es). trim n \<noteq> []) fs)"

lemma insert_features_append: "insert_features i fs rows = Inr rows' \<Longrightarrow> rows' = rows @ feature_rows i fs"
  by (induction i fs rows rule: insert_features.induct) (auto simp: feature_rows_def split: if_splits)

definition features_of :: "sync_db \<Rightarrow> nat \<Rightarrow> feature_row list" where
  "features_of db i = filter (\<lambda>f. fr_crate_version_id f = i) (sd_features db)"

lemma feature_rows_of: "filter (\<lambda>f. fr_crate_version_id f = j) (feature_rows i fs) = (if i = j then feature_rows i fs else [])"
  by (induction fs) (auto simp: feature_rows_def)

text \<open>
  The columns of a version row that crates.io determines.  A missing rust version, checksum or licence keeps
  the stored value.
\<close>

definition reflects :: "crates_io_version_record \<Rightarrow> version_row \<Rightarrow> bool" where
  "reflects r v \<longleftrightarrow> cv_version v = vn_num r \<and> vr_yanked v = vn_yanked r \<and> vr_total_downloads v = unwrap_or (vn_downloads r) 0 \<and>
     (vn_rust_version r = None \<or> cv_rust_version v = vn_rust_version r) \<and>
     (vn_checksum r = None \<or> vr_checksum v = vn_checksum r) \<and>
     (vn_license r = None \<or> vr_license_expression v = vn_license r)"

lemma reflects_new: "reflects r (new_version c p r i)"
  by (simp add: reflects_def new_version_def)

lemma reflects_updated: "version_key v = (c, vn_num r) \<Longrightarrow> reflects r (updated_version p r v)"
  by (auto simp: reflects_def updated_version_def version_key_def or_opt_def split: option.splits)

lemma sync_version_writes:
  assumes "tables_inv db" and "crate_id \<in> crate_ids db" and "sync_version pt crate_id r db = Inr (i, db')"
  shows "\<exists>v \<in> set (st_versions (sd_store db')). cv_id v = i \<and> version_key v = (crate_id, vn_num r) \<and> reflects r v \<and>
      features_of db' i = feature_rows i (vn_features r)"
    and "filter (\<lambda>v. version_key v \<noteq> (crate_id, vn_num r)) (st_versions (sd_store db')) =
      filter (\<lambda>v. version_key v \<noteq> (crate_id, vn_num r)) (st_versions (sd_store db))"
    and "j \<noteq> i \<Longrightarrow> features_of db' j = features_of db j"
proof -
  let ?k = "(crate_id, vn_num r)"
  obtain p db1 fs where u: "upsert_version crate_id p r db = (i, db1)"
    and f: "insert_features i (vn_features r) (filter (\<lambda>f. fr_crate_version_id f \<noteq> i) (sd_features db1)) = Inr fs"
    and d: "db' = db1\<lparr>sd_features := fs\<rparr>"
    using assms(3) by (auto simp: sync_version_def Let_def split: sum.splits prod.splits)
  obtain rows where w: "upsert_rows version_key cv_id ?k (new_version crate_id p r) (updated_version p r)
      (sd_next_version_id db) (st_versions (sd_store db)) = (i, rows)"
    and d1: "db1 = db\<lparr>sd_store := (sd_store db)\<lparr>st_versions := rows\<rparr>, sd_next_version_id := sd_next_version_id db + 1\<rparr>"
    using u by (auto simp: upsert_version_def Let_def split: prod.splits)
  have fs: "sd_features db' = filter (\<lambda>f. fr_crate_version_id f \<noteq> i) (sd_features db) @ feature_rows i (vn_features r)"
    using insert_features_append [OF f] by (simp add: d d1)
  have "features_of db' i = feature_rows i (vn_features r)"
    by (simp add: features_of_def fs feature_rows_of)
  moreover obtain v where "find (\<lambda>x. version_key x = ?k) rows = Some v" "cv_id v = i"
      "v = new_version crate_id p r (sd_next_version_id db) \<or> (\<exists>v0 \<in> set (st_versions (sd_store db)). version_key v0 = ?k \<and> v = updated_version p r v0)"
    using synced_version.the_row [OF w] by blast
  moreover from this have "reflects r v" using reflects_new reflects_updated by blast
  ultimately show "\<exists>v \<in> set (st_versions (sd_store db')). cv_id v = i \<and> version_key v = ?k \<and> reflects r v \<and>
      features_of db' i = feature_rows i (vn_features r)"
    by (auto simp: d d1 dest!: find_SomeD)
  show "filter (\<lambda>v. version_key v \<noteq> ?k) (st_versions (sd_store db')) = filter (\<lambda>v. version_key v \<noteq> ?k) (st_versions (sd_store db))"
    using synced_version.other_keys [OF w] by (simp add: d d1)
  show "features_of db' j = features_of db j" if "j \<noteq> i"
    using that by (auto simp: features_of_def fs feature_rows_of intro!: filter_cong)
qed

definition synced_keys :: "nat \<Rightarrow> crates_io_version_record list \<Rightarrow> (nat \<times> string) set" where
  "synced_keys crate_id rs = (\<lambda>r. (crate_id, vn_num r)) ` set rs"

definition written :: "nat \<Rightarrow> crates_io_version_record \<Rightarrow> sync_db \<Rightarrow> version_row \<Rightarrow> bool" where
  "written crate_id r db v \<longleftrightarrow> v \<in> set (st_versions (sd_store db)) \<and> version_key v = (crate_id, vn_num r) \<and> reflects r v \<and>
     features_of db (cv_id v) = feature_rows (cv_id v) (vn_features r)"

lemma key_of_id:
  assumes "tables_inv db" and "v \<in> set (st_versions (sd_store db))" "w \<in> set (st_versions (sd_store db))" "cv_id v = cv_id w"
  shows "v = w"
proof -
  have "distinct (map cv_id (st_versions (sd_store db)))" using assms(1) by (simp add: tables_inv_def versions_ok_def)
  with assms(2-4) show ?thesis by (auto simp: distinct_map inj_on_def)
qed

lemma sync_versions_others:
  assumes "tables_inv db" and "crate_id \<in> crate_ids db" and "sync_versions pt crate_id rs ids db = Inr (ids', db')"
    and "version_key v \<notin> synced_keys crate_id rs"
  shows "(v \<in> set (st_versions (sd_store db')) \<longleftrightarrow> v \<in> set (st_versions (sd_store db))) \<and>
    (v \<in> set (st_versions (sd_store db)) \<longrightarrow> features_of db' (cv_id v) = features_of db (cv_id v))"
  using assms
proof (induction rs arbitrary: ids db)
  case (Cons r rs)
  then obtain i db1 where s: "sync_version pt crate_id r db = Inr (i, db1)"
    and rest: "sync_versions pt crate_id rs ((vn_num r, i) # ids) db1 = Inr (ids', db')"
    by (auto split: sum.splits)
  note ok = sync_version_ok [OF Cons.prems(1,2) s] and w = sync_version_writes [OF Cons.prems(1,2) s]
  have k: "version_key v \<noteq> (crate_id, vn_num r)" "version_key v \<notin> synced_keys crate_id rs"
    using Cons.prems(4) by (auto simp: synced_keys_def)
  have "crate_id \<in> crate_ids db1" using Cons.prems(2) ok by (simp add: crate_ids_def)
  then have ih: "(v \<in> set (st_versions (sd_store db')) \<longleftrightarrow> v \<in> set (st_versions (sd_store db1))) \<and>
    (v \<in> set (st_versions (sd_store db1)) \<longrightarrow> features_of db' (cv_id v) = features_of db1 (cv_id v))"
    using ok k by (intro Cons.IH [OF _ _ rest]) auto
  have same: "v \<in> set (st_versions (sd_store db1)) \<longleftrightarrow> v \<in> set (st_versions (sd_store db))"
    using arg_cong [OF w(2), of set] k(1) by auto
  have "cv_id v \<noteq> i" if "v \<in> set (st_versions (sd_store db1))"
    using w(1) k(1) that key_of_id [of db1 v] ok by auto
  then have "features_of db1 (cv_id v) = features_of db (cv_id v)" if "v \<in> set (st_versions (sd_store db1))"
    using that w(3) by blast
  with ih same show ?case by auto
qed simp

lemma sync_versions_ids:
  "sync_versions pt crate_id rs ids db = Inr (ids', db') \<Longrightarrow> n \<notin> vn_num ` set rs \<Longrightarrow> map_of ids' n = map_of ids n"
  by (induction rs arbitrary: ids db) (auto split: sum.splits)

lemma sync_versions_writes:
  assumes "tables_inv db" and "crate_id \<in> crate_ids db" and "sync_versions pt crate_id rs ids db = Inr (ids', db')"
    and "distinct (map vn_num rs)"
  shows "\<forall>r \<in> set rs. \<exists>v. written crate_id r db' v \<and> map_of ids' (vn_num r) = Some (cv_id v)"
  using assms
proof (induction rs arbitrary: ids db)
  case (Cons r rs)
  then obtain i db1 where s: "sync_version pt crate_id r db = Inr (i, db1)"
    and rest: "sync_versions pt crate_id rs ((vn_num r, i) # ids) db1 = Inr (ids', db')"
    by (auto split: sum.splits)
  note ok = sync_version_ok [OF Cons.prems(1,2) s] and w = sync_version_writes [OF Cons.prems(1,2) s]
  have c: "crate_id \<in> crate_ids db1" using Cons.prems(2) ok by (simp add: crate_ids_def)
  have ih: "\<forall>r \<in> set rs. \<exists>v. written crate_id r db' v \<and> map_of ids' (vn_num r) = Some (cv_id v)"
    using ok Cons.prems(4) by (intro Cons.IH [OF _ c rest]) auto
  obtain v where v: "v \<in> set (st_versions (sd_store db1))" "cv_id v = i" "version_key v = (crate_id, vn_num r)" "reflects r v"
    "features_of db1 i = feature_rows i (vn_features r)" using w(1) by blast
  have n: "vn_num r \<notin> vn_num ` set rs" using Cons.prems(4) by simp
  then have "version_key v \<notin> synced_keys crate_id rs" using v(3) by (auto simp: synced_keys_def)
  then have "v \<in> set (st_versions (sd_store db')) \<and> features_of db' i = features_of db1 i"
    using sync_versions_others [OF _ c rest] v(1,2) ok by auto
  then have "written crate_id r db' v" using v by (simp add: written_def)
  moreover have "map_of ids' (vn_num r) = Some (cv_id v)"
    using sync_versions_ids [OF rest n] v(2) by simp
  ultimately show ?case using ih by auto
qed simp

lemma update_version_keeps:
  assumes "\<And>v. cv_id (f v) = cv_id v" "\<And>v. version_key (f v) = version_key v" "\<And>v. reflects r (f v) = reflects r v"
    and "written c r db v"
  shows "\<exists>v'. written c r (db\<lparr>sd_store := update_version P f (sd_store db)\<rparr>) v' \<and> cv_id v' = cv_id v"
  using assms
  by (intro exI [of _ "if P v then f v else v"]) (auto simp: written_def features_of_def)

lemma set_readme_ok:
  assumes "tables_inv db"
  shows "tables_inv (set_readme readme i db) \<and> version_ids (set_readme readme i db) = version_ids db \<and>
    crate_names (set_readme readme i db) = crate_names db"
proof (cases readme)
  case (Some t)
  then show ?thesis using update_version_ok [OF assms, of "\<lambda>v. v\<lparr>cv_readme := Some t\<rparr>"]
    by (simp add: set_readme_def version_ids_update crate_names_def version_key_def)
qed (simp add: set_readme_def assms)

lemma write_selected_cases:
  assumes "tables_inv db" and "snd ` set ids \<subseteq> version_ids db"
    and "write_selected now ids sel readme deps db = Inr (n, db')"
  obtains (nothing) "Option.bind sel (map_of ids) = None" "db' = db"
  | (plain) i where "Option.bind sel (map_of ids) = Some i" "deps = None" "db' = set_readme readme i db"
  | (edges) i ds where "Option.bind sel (map_of ids) = Some i" "deps = Some ds"
      "tables_inv (set_readme readme i db)" "i \<in> version_ids (set_readme readme i db)"
      "replace_dependency_edges_tx now i ds (set_readme readme i db) = Inr (n, db')"
proof (cases "Option.bind sel (map_of ids)")
  case None
  then show ?thesis using assms(3) that(1) by (simp add: write_selected_def)
next
  case (Some i)
  have "i \<in> version_ids db" using Some assms(2) by (force simp: bind_eq_Some_conv dest!: map_of_SomeD)
  then show ?thesis using Some assms(3) that(2,3) set_readme_ok [OF assms(1)]
    by (cases deps) (auto simp: write_selected_def Let_def)
qed

lemma write_selected_ok:
  assumes "tables_inv db" and "snd ` set ids \<subseteq> version_ids db"
    and "write_selected now ids sel readme deps db = Inr (n, db')"
  shows "tables_inv db' \<and> crate_names db \<subseteq> crate_names db'"
  using assms
proof (cases rule: write_selected_cases)
  case (edges i ds)
  then show ?thesis using replace_dependency_edges_ok [OF edges(3-5)] set_readme_ok [OF assms(1), of readme i] by auto
qed (use assms(1) set_readme_ok [OF assms(1)] in auto)


text \<open>What the last step leaves of the versions and features, and the edges it writes.\<close>

lemma write_selected_keeps:
  assumes "tables_inv db" and "snd ` set ids \<subseteq> version_ids db"
    and "write_selected now ids sel readme deps db = Inr (n, db')" and "written c r db v"
  shows "\<exists>v'. written c r db' v' \<and> cv_id v' = cv_id v \<and>
    (sel = Some (vn_num r) \<and> map_of ids (vn_num r) = Some (cv_id v) \<longrightarrow>
      (readme \<noteq> None \<longrightarrow> cv_readme v' = readme) \<and>
      (deps \<noteq> None \<longrightarrow> (\<exists>es. filter (\<lambda>e. er_from_version_id e = cv_id v) (sd_edges db') = es \<and> n = length es \<and>
         list_all2 (edge_for (crate_names db') (cv_id v)) (filter (\<lambda>d. trim (xd_crate_id d) \<noteq> []) (the deps)) es)))"
proof -
  define v1 where "v1 i = (case readme of None \<Rightarrow> v | Some t \<Rightarrow> if cv_id v = i then v\<lparr>cv_readme := Some t\<rparr> else v)" for i
  have v1: "written c r (set_readme readme i db) (v1 i)" "cv_id (v1 i) = cv_id v"
    "cv_id v = i \<Longrightarrow> readme \<noteq> None \<Longrightarrow> cv_readme (v1 i) = readme" for i
    using assms(4) by (auto simp: set_readme_def v1_def written_def features_of_def version_key_def reflects_def split: option.splits)
  show ?thesis using assms(1-3)
  proof (cases rule: write_selected_cases)
    case nothing
    then show ?thesis using assms(4) by auto
  next
    case (plain i)
    then show ?thesis using v1 [of i] by auto
  next
    case (edges i ds)
    let ?db1 = "set_readme readme i db"
    from replace_dependency_edges_ok [OF edges(3-5)] obtain es where
      fs: "sd_features db' = sd_features ?db1" and
      vs: "st_versions (sd_store db') = map (\<lambda>v. if cv_id v = i then v\<lparr>vr_dependencies_synced_at := Some now\<rparr> else v) (st_versions (sd_store ?db1))" and
      es: "sd_edges db' = filter (\<lambda>e. er_from_version_id e \<noteq> i) (sd_edges ?db1) @ es" "n = length es"
        "list_all2 (edge_for (crate_names db') i) (filter (\<lambda>d. trim (xd_crate_id d) \<noteq> []) ds) es" by blast
    define v2 where "v2 = (if cv_id (v1 i) = i then (v1 i)\<lparr>vr_dependencies_synced_at := Some now\<rparr> else v1 i)"
    have "written c r db' v2" "cv_id v2 = cv_id v" "cv_readme v2 = cv_readme (v1 i)"
      using v1 [of i] vs fs by (auto simp: v2_def written_def features_of_def version_key_def reflects_def)
    moreover have "\<forall>e \<in> set es. er_from_version_id e = i"
      using es(3) by (auto simp: list_all2_conv_all_nth edge_for_def in_set_conv_nth)
    then have "filter (\<lambda>e. er_from_version_id e = i) (sd_edges db') = es" by (simp add: es(1))
    ultimately show ?thesis using es(2,3) edges(1,2) v1(3) [of i] by (intro exI [of _ v2]) auto
  qed
qed

lemma write_selected_others:
  assumes "tables_inv db" and "snd ` set ids \<subseteq> version_ids db"
    and "write_selected now ids sel readme deps db = Inr (n, db')"
    and "\<And>i w. Option.bind sel (map_of ids) = Some i \<Longrightarrow> w \<in> set (st_versions (sd_store db)) \<Longrightarrow> cv_id w = i \<Longrightarrow> version_key w \<in> K"
    and "version_key v \<notin> K"
  shows "v \<in> set (st_versions (sd_store db')) \<longleftrightarrow> v \<in> set (st_versions (sd_store db))"
proof -
  have map: "v \<in> set (map g (st_versions (sd_store db))) \<longleftrightarrow> v \<in> set (st_versions (sd_store db))"
    if "Option.bind sel (map_of ids) = Some i" and "\<And>w. version_key (g w) = version_key w" and "\<And>w. cv_id w \<noteq> i \<Longrightarrow> g w = w" for g i
  proof
    assume "v \<in> set (map g (st_versions (sd_store db)))"
    then obtain w where w: "w \<in> set (st_versions (sd_store db))" "v = g w" by auto
    then have "cv_id w \<noteq> i" using assms(4) [OF that(1)] that(2) [of w] assms(5) by auto
    then show "v \<in> set (st_versions (sd_store db))" using w that(3) by simp
  next
    assume v: "v \<in> set (st_versions (sd_store db))"
    then have "cv_id v \<noteq> i" using assms(4) [OF that(1)] assms(5) by auto
    then show "v \<in> set (map g (st_versions (sd_store db)))" using v that(3) [of v] by (metis image_eqI set_map)
  qed
  let ?r = "\<lambda>i w. case readme of None \<Rightarrow> w | Some t \<Rightarrow> if cv_id w = i then w\<lparr>cv_readme := Some t\<rparr> else w"
  have readme: "st_versions (sd_store (set_readme readme i db)) = map (?r i) (st_versions (sd_store db))" for i
    by (simp add: set_readme_def split: option.split)
  have r: "version_key (?r i w) = version_key w" "cv_id w \<noteq> i \<Longrightarrow> ?r i w = w" "cv_id (?r i w) = cv_id w" for i w
    by (simp_all add: version_key_def split: option.split)
  show ?thesis using assms(1-3)
  proof (cases rule: write_selected_cases)
    case (plain i)
    then show ?thesis using map [OF plain(1) r(1,2)] readme by simp
  next
    case (edges i ds)
    let ?g = "\<lambda>w. if cv_id w = i then w\<lparr>vr_dependencies_synced_at := Some now\<rparr> else w"
    have "st_versions (sd_store db') = map ?g (st_versions (sd_store (set_readme readme i db)))"
      using replace_dependency_edges_ok [OF edges(3-5)] by simp
    also have "\<dots> = map (?g \<circ> ?r i) (st_versions (sd_store db))" unfolding readme map_map ..
    finally show ?thesis using r map [OF edges(1), of "?g \<circ> ?r i"] by (simp add: version_key_def)
  qed simp
qed

text \<open>A crate row written in this transaction is not changed by the stubs of its dependencies.\<close>

lemma insert_edges_keeps_crate:
  assumes "insert_edges now i ds w db = Inr (w', db')" and "c \<in> set (st_crates (sd_store db))" and "cc_updated_at c = now"
  shows "c \<in> set (st_crates (sd_store db'))"
  using assms(1,2)
proof (induction ds arbitrary: w db)
  case (Cons d ds)
  show ?case
  proof (cases "trim (xd_crate_id d) = []")
    case True
    with Cons show ?thesis by simp
  next
    case False
    with Cons.prems(1) obtain j db1 e where s: "ensure_crate_stub_tx now (trim (xd_crate_id d)) db = Inr (j, db1)"
      and rest: "insert_edges now i ds (w + 1) (db1\<lparr>sd_edges := sd_edges db1 @ [e]\<rparr>) = Inr (w', db')"
      by (auto simp: Let_def split: sum.splits)
    have "c = (if cc_name c = trim (xd_crate_id d) then c\<lparr>cc_updated_at := now\<rparr> else c)" using assms(3) by simp
    then have "c \<in> set (st_crates (sd_store db1))" using s Cons.prems(2)
      by (auto simp: ensure_crate_stub_tx_def upsert_crate_row_def upsert_rows_def Let_def split: if_splits option.splits)
    then show ?thesis using Cons.IH [OF rest] by simp
  qed
qed simp

lemma write_selected_keeps_crate:
  assumes "write_selected now ids sel readme deps db = Inr (n, db')" and "c \<in> set (st_crates (sd_store db))" "cc_updated_at c = now"
  shows "c \<in> set (st_crates (sd_store db'))"
proof -
  have "st_crates (sd_store (set_readme readme i db)) = st_crates (sd_store db)" for i
    by (simp add: set_readme_def split: option.split)
  with assms show ?thesis
    by (auto simp: write_selected_def replace_dependency_edges_tx_def Let_def split: option.splits sum.splits
        dest!: insert_edges_keeps_crate)
qed

lemma pick_primary_member: "pick_primary_version detail = Some v \<Longrightarrow> v \<in> vn_num ` set (cd_versions detail)"
  unfolding pick_primary_version_def
  by (auto simp: Let_def list_ex_iff split: option.splits if_splits list.splits dest!: find_SomeD)

lemma upsert_synced_crate_row:
  assumes "upsert_synced_crate now k cats kws db = Inr (i, db')"
  shows "\<exists>c \<in> set (st_crates (sd_store db')). cc_id c = i \<and> cc_name c = ck_name k \<and> c = crate_metadata now k cats kws c"
proof -
  obtain rows where u: "upsert_rows cc_name cc_id (ck_name k) (\<lambda>i. crate_metadata now k cats kws (stub_crate now (ck_name k) i))
      (crate_metadata now k cats kws) (sd_next_crate_id db) (st_crates (sd_store db)) = (i, rows)" "st_crates (sd_store db') = rows"
    using assms by (auto simp: upsert_synced_crate_def upsert_crate_row_def Let_def split: if_splits prod.splits)
  have idem: "crate_metadata now k cats kws (crate_metadata now k cats kws c) = crate_metadata now k cats kws c" for c
    by (simp add: crate_metadata_def)
  from synced_crate.the_row [OF u(1)] u(2) idem show ?thesis by (auto dest!: find_SomeD)
qed

lemma sync_single_crate_cases:
  assumes "sync_single_crate api err now name incl db = (Inr out, db')" and "ca_detail api name = Inr detail"
  obtains readme deps c db1 ids db2 n where
    "upsert_synced_crate now (cd_krate detail) (category_names detail) (keyword_names detail) db = Inr (c, db1)"
    "sync_versions (ca_parse_time api) c (cd_versions detail) [] db1 = Inr (ids, db2)"
    "write_selected now ids (pick_primary_version detail) readme deps db2 = Inr (n, db')"
    "out = \<lparr>so_versions_synced = length (cd_versions detail), so_dependencies_synced = n, so_selected_version = pick_primary_version detail\<rparr>"
    "\<And>v. pick_primary_version detail = Some v \<Longrightarrow> ca_readme api name v = Inr readme"
    "\<And>v. incl \<Longrightarrow> pick_primary_version detail = Some v \<Longrightarrow> \<exists>ds. ca_dependencies api name v = Inr ds \<and> deps = Some ds"
  using assms
  by (auto simp: sync_single_crate_def persist_crate_sync_def transact_def persist_body_def res_bind_def
      split: sum.splits option.splits bool.splits)

text \<open>The version a synchronisation selects is one of the published ones.\<close>

lemma selected_version_key:
  assumes "tables_inv db" and "\<forall>r \<in> set (cd_versions detail). \<exists>v. written i r db v \<and> map_of ids (vn_num r) = Some (cv_id v)"
    and "Option.bind (pick_primary_version detail) (map_of ids) = Some j" and "w \<in> set (st_versions (sd_store db))" "cv_id w = j"
  shows "version_key w \<in> synced_keys i (cd_versions detail)"
proof -
  obtain num where num: "pick_primary_version detail = Some num" "map_of ids num = Some j"
    using assms(3) by (auto simp: bind_eq_Some_conv)
  with pick_primary_member obtain r where r: "r \<in> set (cd_versions detail)" "num = vn_num r" by fast
  with assms(2) num obtain v where v: "written i r db v" "cv_id v = j" by fastforce
  with assms(1,4,5) have "w = v" by (auto simp: written_def intro: key_of_id)
  with v r show ?thesis by (auto simp: written_def synced_keys_def)
qed

lemma selected_version_rows:
  assumes "tables_inv db" and "snd ` set ids \<subseteq> version_ids db"
    and "write_selected now ids sel readme deps db = Inr (n, db')"
    and "written i r db v0" "map_of ids (vn_num r) = Some (cv_id v0)"
  obtains v where "written i r db' v"
    "sel = Some (vn_num r) \<Longrightarrow> readme \<noteq> None \<Longrightarrow> cv_readme v = readme"
    "\<And>ds. sel = Some (vn_num r) \<Longrightarrow> deps = Some ds \<Longrightarrow> n = length (filter (\<lambda>d. trim (xd_crate_id d) \<noteq> []) ds) \<and>
      list_all2 (edge_for (crate_names db') (cv_id v)) (filter (\<lambda>d. trim (xd_crate_id d) \<noteq> []) ds)
        (filter (\<lambda>e. er_from_version_id e = cv_id v) (sd_edges db'))"
proof -
  from write_selected_keeps [OF assms(1-4)] obtain v where v: "written i r db' v" "cv_id v = cv_id v0"
    and sel: "sel = Some (vn_num r) \<longrightarrow> (readme \<noteq> None \<longrightarrow> cv_readme v = readme) \<and>
      (deps \<noteq> None \<longrightarrow> (\<exists>es. filter (\<lambda>e. er_from_version_id e = cv_id v0) (sd_edges db') = es \<and> n = length es \<and>
         list_all2 (edge_for (crate_names db') (cv_id v0)) (filter (\<lambda>d. trim (xd_crate_id d) \<noteq> []) (the deps)) es))"
    using assms(5) by blast
  show ?thesis
  proof (rule that [OF v(1)])
    show "sel = Some (vn_num r) \<Longrightarrow> readme \<noteq> None \<Longrightarrow> cv_readme v = readme" using sel by blast
    fix ds assume "sel = Some (vn_num r)" "deps = Some ds"
    then show "n = length (filter (\<lambda>d. trim (xd_crate_id d) \<noteq> []) ds) \<and>
      list_all2 (edge_for (crate_names db') (cv_id v)) (filter (\<lambda>d. trim (xd_crate_id d) \<noteq> []) ds)
        (filter (\<lambda>e. er_from_version_id e = cv_id v) (sd_edges db'))"
      using sel v(2) by (auto dest: list_all2_lengthD)
  qed
qed


section \<open>The freshness policy over the modelled synchronisation\<close>

text \<open>The inline synchronisation of an interaction, on the store of the server state and the other tables of \<open>db\<close>.\<close>

definition store_sync ::
  "crates_io_api \<Rightarrow> string option \<Rightarrow> int \<Rightarrow> sync_db \<Rightarrow> string \<Rightarrow> bool \<Rightarrow> crate_store \<Rightarrow> unit result \<times> crate_store" where
  "store_sync api err now db crate_name include_dependencies st =
     (case sync_single_crate api err now crate_name include_dependencies (db\<lparr>sd_store := st\<rparr>) of
        (Inl e, db') \<Rightarrow> (Inl e, sd_store db')
      | (Inr _, db') \<Rightarrow> (Inr (), sd_store db'))"

lemma sync_rows_written:
  assumes "tables_inv db" and "ca_detail api name = Inr detail" and "distinct (map vn_num (cd_versions detail))"
    and "sync_single_crate api err now name incl db = (Inr out, db')"
  shows "tables_inv db' \<and> (\<exists>i. (i, ck_name (cd_krate detail)) \<in> crate_names db' \<and>
    (\<forall>r \<in> set (cd_versions detail). \<exists>v. written i r db' v))"
  using assms(4,2)
proof (rule sync_single_crate_cases)
  fix readme deps i db1 ids db2 n
  assume s1: "upsert_synced_crate now (cd_krate detail) (category_names detail) (keyword_names detail) db = Inr (i, db1)"
    and s2: "sync_versions (ca_parse_time api) i (cd_versions detail) [] db1 = Inr (ids, db2)"
    and s3: "write_selected now ids (pick_primary_version detail) readme deps db2 = Inr (n, db')"
  note ok1 = upsert_crate_row_ok [OF synced_crate.upsert_axioms assms(1) s1 [unfolded upsert_synced_crate_def]]
  have i: "i \<in> crate_ids db1" using ok1 by (simp add: crate_ids_names)
  note ok2 = sync_versions_ok [OF conjunct1 [OF ok1] i s2]
  then have t2: "tables_inv db2" "snd ` set ids \<subseteq> version_ids db2" by simp_all
  have "crate_names db2 = crate_names db1" using ok2 by (simp add: crate_names_def)
  then have "(i, ck_name (cd_krate detail)) \<in> crate_names db'"
    using ok1 write_selected_ok [OF t2 s3] by auto
  moreover have "\<exists>v. written i r db' v" if "r \<in> set (cd_versions detail)" for r
    using sync_versions_writes [OF conjunct1 [OF ok1] i s2 assms(3)] that write_selected_keeps [OF t2 s3] by blast
  ultimately show ?thesis using write_selected_ok [OF t2 s3] by blast
qed

lemma freshness_checked_store:
  defines "mark \<equiv> mark_crate_freshness_checked"
  shows "store_inv (mark st now i ttl reason) = store_inv st"
    and "st_versions (mark st now i ttl reason) = st_versions st"
    and "c \<in> set (st_crates st) \<Longrightarrow> \<exists>c' \<in> set (st_crates (mark st now i ttl reason)). cc_id c' = cc_id c \<and> cc_name c' = cc_name c"
proof -
  define f where "f c = (if cc_id c = i then c\<lparr>cr_last_checked_at := Some now, cr_next_check_at := Some (now + ttl),
      cr_ttl_hint_seconds := ttl, cr_ttl_reason := Some reason, cr_last_refresh_error := None, cc_updated_at := now\<rparr> else c)" for c :: crate_row
  have f: "cc_id (f c) = cc_id c" "cc_name (f c) = cc_name c" for c by (simp_all add: f_def)
  have m: "mark st now i ttl reason = st\<lparr>st_crates := map f (st_crates st)\<rparr>"
    by (simp add: mark_def mark_crate_freshness_checked_def update_crate_def f_def [abs_def])
  have "cc_id \<circ> f = cc_id" "name_lower \<circ> f = name_lower" by (simp_all add: fun_eq_iff f name_lower_def)
  then show "store_inv (mark st now i ttl reason) = store_inv st" unfolding m store_inv_def by simp
  show "st_versions (mark st now i ttl reason) = st_versions st" by (simp add: m)
  show "\<exists>c' \<in> set (st_crates (mark st now i ttl reason)). cc_id c' = cc_id c \<and> cc_name c' = cc_name c" if "c \<in> set (st_crates st)"
    using that by (auto simp: m f)
qed

lemma changed_interaction_syncs:
  assumes "ensure_freshness_for_interaction env i n v sv = (Inr out, sv')" and "io_freshness_check_result out = ''changed''"
  shows "\<exists>st u ttl. fe_sync_single_crate env n False (sv_store sv) = (Inr u, st) \<and>
    sv_store sv' = mark_crate_freshness_checked st (fe_now env) i ttl ''changed_inline''"
proof -
  define ttl where "ttl = ttl_hint_seconds (days_since_latest_crate_release (sv_store sv) (fe_now env) i)
    (count_crate_releases_last_year (sv_store sv) (fe_now env) i)"
  have "probe_crate env i n v ttl sv = (Inr out, sv')"
    using assms unfolding ensure_freshness_for_interaction_def ttl_def
    by (auto simp: io_outcome_def split: option.splits bool.splits prod.splits)
  then have "refresh_changed env i n (fst ttl) sv = (Inr out, sv')"
    using assms(2) unfolding probe_crate_def Let_def
    by (auto simp: io_outcome_def split: sum.splits option.splits if_splits)
  then show ?thesis unfolding refresh_changed_def by (auto split: prod.splits sum.splits option.splits)
qed

text \<open>
  When an interaction finds that crates.io has a newer release, the modelled synchronisation has made
  every published version available before the tool answers: the store is still consistent, the crate has a
  row of the published name, and each published version is a row of that crate with the published columns.
\<close>

theorem changed_release_is_indexed:
  assumes "fe_sync_single_crate env = store_sync api err (fe_now env) db" and "tables_inv (db\<lparr>sd_store := sv_store sv\<rparr>)"
    and "ca_detail api n = Inr detail" and "distinct (map vn_num (cd_versions detail))"
    and "ensure_freshness_for_interaction env i n v sv = (Inr out, sv')" and "io_freshness_check_result out = ''changed''"
  shows "store_inv (sv_store sv') \<and>
    (\<exists>c \<in> set (st_crates (sv_store sv')). cc_name c = ck_name (cd_krate detail) \<and>
       (\<forall>r \<in> set (cd_versions detail). \<exists>w \<in> set (st_versions (sv_store sv')). vr_crate_id w = cc_id c \<and> reflects r w))"
proof -
  obtain st u ttl where s: "fe_sync_single_crate env n False (sv_store sv) = (Inr u, st)"
    and m: "sv_store sv' = mark_crate_freshness_checked st (fe_now env) i ttl ''changed_inline''"
    using changed_interaction_syncs [OF assms(5,6)] by blast
  obtain o1 db' where sy: "sync_single_crate api err (fe_now env) n False (db\<lparr>sd_store := sv_store sv\<rparr>) = (Inr o1, db')"
    and st: "st = sd_store db'"
    using s unfolding assms(1) store_sync_def by (auto split: prod.splits sum.splits)
  from sync_rows_written [OF assms(2,3,4) sy] obtain j where t: "tables_inv db'"
    and j: "(j, ck_name (cd_krate detail)) \<in> crate_names db'"
    and w: "\<forall>r \<in> set (cd_versions detail). \<exists>v. written j r db' v" by blast
  obtain c0 where c0: "c0 \<in> set (st_crates st)" "cc_id c0 = j" "cc_name c0 = ck_name (cd_krate detail)"
    using j by (auto simp: crate_names_def st)
  then obtain c where "c \<in> set (st_crates (sv_store sv'))" "cc_id c = j" "cc_name c = ck_name (cd_krate detail)"
    using freshness_checked_store(3) [OF c0(1)] unfolding m by metis
  moreover have "\<forall>r \<in> set (cd_versions detail). \<exists>w \<in> set (st_versions (sv_store sv')). vr_crate_id w = j \<and> reflects r w"
    using w unfolding m freshness_checked_store(2) st by (auto simp: written_def version_key_def)
  moreover have "store_inv (sv_store sv')" using tables_inv_store [OF t] unfolding m freshness_checked_store(1) st .
  ultimately show ?thesis by blast
qed

section \<open>A concrete synchronisation\<close>

definition sample_release :: "string \<Rightarrow> bool \<Rightarrow> crates_io_version_record" where
  "sample_release num yanked = \<lparr>vn_num = num, vn_created_at = Some ''2024-01-01'', vn_updated_at = None, vn_yanked = yanked,
     vn_downloads = Some 7, vn_checksum = None, vn_rust_version = Some ''1.60'', vn_license = Some ''MIT'',
     vn_features = [(''derive'', [''serde_derive''])]\<rparr>"

definition sample_detail :: crates_io_crate_detail where
  "sample_detail = \<lparr>cd_krate = \<lparr>ck_name = ''Serde'', ck_description = None, ck_repository = None, ck_documentation = None,
       ck_homepage = None, ck_max_version = Some ''2.0.0''\<rparr>,
     cd_versions = [sample_release ''2.0.0'' False, sample_release ''1.0.0'' True], cd_keywords = [], cd_categories = []\<rparr>"

definition sample_crates_io :: crates_io_api where
  "sample_crates_io = \<lparr>ca_detail = (\<lambda>_. Inr sample_detail), ca_readme = (\<lambda>_ _. Inr (Some ''read me'')),
     ca_dependencies = (\<lambda>_ _. Inr [\<lparr>xd_crate_id = ''serde_derive'', xd_req = ''^1'', xd_kind = None, xd_optional = True, xd_features = []\<rparr>]),
     ca_parse_time = (\<lambda>_. Inr 0)\<rparr>"

definition sample_db :: sync_db where
  "sample_db = \<lparr>sd_store = sv_store sample_server, sd_features = [], sd_edges = [], sd_next_crate_id = 2, sd_next_version_id = 11\<rparr>"

lemma sample_db_inv: "tables_inv sample_db"
  by (simp add: sample_db_def sample_server_def sample_crate_def sample_version_def tables_inv_def crates_ok_def versions_ok_def
      children_ok_def crate_ids_def)

lemma sample_detail_distinct: "distinct (map vn_num (cd_versions sample_detail))"
  by (simp add: sample_detail_def sample_release_def)

lemma sample_sync_ok:
  "case sync_single_crate sample_crates_io None 1000 ''Serde'' True sample_db of (Inr _, _) \<Rightarrow> True | _ \<Rightarrow> False"
  by code_simp



definition sample_sync_env :: fresh_env where
  "sample_sync_env = (sample_fresh_env ''2.0.0'' 1000)\<lparr>fe_sync_single_crate := store_sync sample_crates_io None 1000 sample_db\<rparr>"

lemma sample_changed:
  "case ensure_freshness_for_interaction sample_sync_env 1 ''Serde'' ''1.0.0'' sample_server of
     (Inr out, _) \<Rightarrow> io_freshness_check_result out = ''changed'' | _ \<Rightarrow> False"
  by code_simp

theorem changed_release_is_indexed_witness:
  "case ensure_freshness_for_interaction sample_sync_env 1 ''Serde'' ''1.0.0'' sample_server of
     (Inr out, sv') \<Rightarrow> \<exists>w \<in> set (st_versions (sv_store sv')). cv_version w = ''2.0.0''
   | _ \<Rightarrow> False"
proof -
  obtain out sv' where s: "ensure_freshness_for_interaction sample_sync_env 1 ''Serde'' ''1.0.0'' sample_server = (Inr out, sv')"
    and ch: "io_freshness_check_result out = ''changed''" using sample_changed by (auto split: prod.splits sum.splits)
  have e: "fe_sync_single_crate sample_sync_env = store_sync sample_crates_io None (fe_now sample_sync_env) sample_db"
    by (simp add: sample_sync_env_def sample_fresh_env_def)
  have i: "tables_inv (sample_db\<lparr>sd_store := sv_store sample_server\<rparr>)"
    using sample_db_inv by (simp add: sample_db_def)
  have d: "ca_detail sample_crates_io ''Serde'' = Inr sample_detail" by (simp add: sample_crates_io_def)
  from changed_release_is_indexed [OF e i d sample_detail_distinct s ch]
  have "\<exists>w \<in> set (st_versions (sv_store sv')). reflects (sample_release ''2.0.0'' False) w"
    by (auto simp: sample_detail_def)
  then show ?thesis unfolding s by (auto simp: reflects_def sample_release_def)
qed

end
