(* ===== verification/Dependency_Audit.thy ===== *)
theory Dependency_Audit
  imports Crate_Versions
begin

text \<open>
  The \<open>dependency_audit\<close> tool (\<open>mcp/tools/dependency/audit.rs\<close>): every dependency of a manifest is
  looked up in the index, the version its requirement selects is checked for yanks, advisories, newer
  releases and the minimum Rust version, and the findings are reported with a confidence.
\<close>

section \<open>Types\<close>

datatype audit_issue_category = Yanked | Advisory | Outdated | MsrvConflict | Unresolved

datatype audit_severity = SeverityLow | SeverityMedium | SeverityHigh

record dependency_audit_dependency =
  ad_dependency_name :: string
  ad_requirement :: "string option"
  ad_selected_version :: "string option"
  ad_latest_version :: "string option"
  ad_selected_rust_version :: "string option"
  ad_yanked :: bool
  ad_advisory_count :: nat
  ad_status_markers :: "string list"

record dependency_audit_issue =
  ai_dependency_name :: string
  ai_category :: audit_issue_category
  ai_severity :: audit_severity
  ai_message :: string
  ai_selected_version :: "string option"
  ai_latest_version :: "string option"

record dependency_audit_response =
  ar_package_name :: "string option"
  ar_package_rust_version :: "string option"
  ar_dependency_count :: nat
  ar_issue_count :: nat
  ar_dependencies :: "dependency_audit_dependency list"
  ar_issues :: "dependency_audit_issue list"
  ar_freshness :: "response_freshness_source list"
  ar_confidence :: string
  ar_confidence_assessment :: confidence_assessment
  ar_suggested_next_tools :: "string list"
  ar_provenance :: string

text \<open>The derived order of the categories, as the position of the constructor.\<close>

fun category_rank :: "audit_issue_category \<Rightarrow> nat" where
  "category_rank Yanked = 0"
| "category_rank Advisory = 1"
| "category_rank Outdated = 2"
| "category_rank MsrvConflict = 3"
| "category_rank Unresolved = 4"

section \<open>Rust versions and confidence\<close>

definition parse_rust_version_floor :: "('v, 'r) semver_api \<Rightarrow> string \<Rightarrow> 'v option" where
  "parse_rust_version_floor sv text =
     (let trimmed = trim text
      in if trimmed = [] then None
         else (case version_parse sv trimmed of
             Some parsed \<Rightarrow> Some parsed
           | None \<Rightarrow>
               (case split_on ''.'' (trim_start_v trimmed) of
                  [major] \<Rightarrow> version_parse sv (major @ ''.0.0'')
                | [major, minor] \<Rightarrow> version_parse sv (major @ ''.'' @ minor @ ''.0'')
                | [major, minor, patch] \<Rightarrow> version_parse sv (major @ ''.'' @ minor @ ''.'' @ patch)
                | _ \<Rightarrow> None)))"

definition audit_confidence :: "nat \<Rightarrow> nat \<Rightarrow> nat \<Rightarrow> nat \<Rightarrow> confidence_assessment" where
  "audit_confidence dependency_count unresolved_count no_requirement_count unknown_advisory_count =
     (if dependency_count = 0 then \<lparr>ca_level = Low, ca_reason = ''manifest has no dependencies to audit''\<rparr>
      else if unresolved_count > 0
      then \<lparr>ca_level = Medium, ca_reason = show_nat unresolved_count @ '' dependencies could not be resolved against indexed versions''\<rparr>
      else if unknown_advisory_count > 0
      then \<lparr>ca_level = Medium, ca_reason = show_nat unknown_advisory_count @ '' advisories have unknown applicability''\<rparr>
      else if no_requirement_count > 0
      then \<lparr>ca_level = Medium, ca_reason = show_nat no_requirement_count @ '' dependencies do not declare semver requirements''\<rparr>
      else \<lparr>ca_level = High, ca_reason = ''all dependencies resolved against indexed versions and advisories''\<rparr>)"

section \<open>One dependency\<close>

record audit_locals =
  al_dependencies :: "dependency_audit_dependency list"
  al_issues :: "dependency_audit_issue list"
  al_unresolved :: nat
  al_no_requirement :: nat
  al_unknown :: nat

datatype audit_query = AuditCrate string | AuditVersions string | AuditAdvisories string

definition audit_matching ::
  "('v, 'r) semver_api \<Rightarrow> 'r \<Rightarrow> dependency_version_row list \<Rightarrow> ('v \<times> dependency_version_row) list" where
  "audit_matching sv req versions =
     List.map_filter (\<lambda>row. case parse_semver_for_matching sv (dv_version row) of
        None \<Rightarrow> None
      | Some parsed \<Rightarrow> if req_matches sv req parsed then Some (parsed, row) else None) versions"

definition audit_selected ::
  "('v::linorder, 'r) semver_api \<Rightarrow> 'r option \<Rightarrow> dependency_version_row list \<Rightarrow> dependency_version_row option" where
  "audit_selected sv requirement_req versions =
     (case requirement_req of
        Some req \<Rightarrow> map_option snd (max_by_key (audit_matching sv req versions))
      | None \<Rightarrow> (case versions of [] \<Rightarrow> None | v # _ \<Rightarrow> Some v))"

text \<open>The pushes and increments of one iteration, and their effect on the locals.\<close>

definition add_audit :: "audit_locals \<Rightarrow> audit_locals \<Rightarrow> audit_locals" where
  "add_audit l m = \<lparr>al_dependencies = al_dependencies l @ al_dependencies m, al_issues = al_issues l @ al_issues m,
     al_unresolved = al_unresolved l + al_unresolved m, al_no_requirement = al_no_requirement l + al_no_requirement m,
     al_unknown = al_unknown l + al_unknown m\<rparr>"

definition not_indexed :: "parsed_dependency \<Rightarrow> audit_locals" where
  "not_indexed dep =
     \<lparr>al_dependencies =
         [\<lparr>ad_dependency_name = pd_name dep, ad_requirement = pd_requirement dep, ad_selected_version = None,
           ad_latest_version = None, ad_selected_rust_version = None, ad_yanked = False, ad_advisory_count = 0,
           ad_status_markers = [''not_indexed'']\<rparr>],
      al_issues =
         [\<lparr>ai_dependency_name = pd_name dep, ai_category = Unresolved, ai_severity = SeverityMedium,
           ai_message = ''dependency not found in local index; run index_crates or index_refresh'',
           ai_selected_version = None, ai_latest_version = None\<rparr>],
      al_unresolved = 1, al_no_requirement = 0, al_unknown = 0\<rparr>"

text \<open>The markers and issues of a selected version, in the order in which they are pushed.\<close>

definition selected_findings ::
  "('v::linorder, 'r) semver_api \<Rightarrow> parsed_manifest \<Rightarrow> parsed_dependency \<Rightarrow> advisory_counts \<Rightarrow> dependency_version_row option \<Rightarrow>
   dependency_version_row \<Rightarrow> (string \<times> dependency_audit_issue) list" where
  "selected_findings sv manifest dep counts latest row =
     (let issue = (\<lambda>category severity message latest_version.
            \<lparr>ai_dependency_name = pd_name dep, ai_category = category, ai_severity = severity, ai_message = message,
             ai_selected_version = Some (dv_version row), ai_latest_version = latest_version\<rparr>);
          latest_version = map_option dv_version latest
      in (if dv_yanked row
          then [(''yanked'', issue Yanked SeverityHigh ''selected dependency version is yanked'' latest_version)] else []) @
         (if ac_affected counts > 0
          then [(''has_advisory'', issue Advisory SeverityHigh
                  (show_nat (ac_affected counts) @ '' indexed advisories affect selected version'') latest_version)] else []) @
         (if ac_unknown counts > 0
          then [(''advisory_applicability_unknown'', issue Advisory SeverityLow
                  (show_nat (ac_unknown counts) @ '' indexed advisories could not be evaluated against selected version'')
                  latest_version)] else []) @
         (case latest of
            None \<Rightarrow> []
          | Some latest_row \<Rightarrow>
              if dv_version latest_row \<noteq> dv_version row
              then [(''outdated'', issue Outdated SeverityLow ''newer indexed version is available'' (Some (dv_version latest_row)))]
              else []) @
         (case (Option.bind (pm_package_rust_version manifest) (parse_rust_version_floor sv),
                Option.bind (dv_rust_version row) (parse_rust_version_floor sv)) of
            (Some package_msrv, Some dep_msrv) \<Rightarrow>
              if dep_msrv > package_msrv
              then [(''msrv_conflict'', issue MsrvConflict SeverityMedium
                      (''dependency MSRV '' @ unwrap_or (dv_rust_version row) ''unknown'' @ '' exceeds package rust-version '' @
                       unwrap_or (pm_package_rust_version manifest) ''unknown'') latest_version)]
              else []
          | _ \<Rightarrow> []))"

definition audit_indexed ::
  "('v::linorder, 'r) semver_api \<Rightarrow> crate_advisory_row list \<Rightarrow> parsed_manifest \<Rightarrow> parsed_dependency \<Rightarrow>
   dependency_version_row option \<Rightarrow> dependency_version_row option \<Rightarrow> audit_locals" where
  "audit_indexed sv advisory_rows manifest dep latest selected =
     (let unsatisfied = (if Option.bind (pd_requirement dep) (req_parse sv) \<noteq> None \<and> selected = None
            then [\<lparr>ai_dependency_name = pd_name dep, ai_category = Unresolved, ai_severity = SeverityMedium,
                   ai_message = ''no indexed versions satisfy declared semver requirement'',
                   ai_selected_version = None, ai_latest_version = map_option dv_version latest\<rparr>] else []);
          counts = (case selected of
            Some row \<Rightarrow> advisory_counts sv advisory_rows (int (dv_id row)) (dv_version row)
          | None \<Rightarrow> \<lparr>ac_affected = 0, ac_unknown = 0\<rparr>);
          findings = (case selected of None \<Rightarrow> [] | Some row \<Rightarrow> selected_findings sv manifest dep counts latest row);
          markers = (if pd_requirement dep = None then [''missing_requirement''] else []) @ map fst findings
      in \<lparr>al_dependencies =
            [\<lparr>ad_dependency_name = pd_name dep, ad_requirement = pd_requirement dep,
              ad_selected_version = map_option dv_version selected, ad_latest_version = map_option dv_version latest,
              ad_selected_rust_version = Option.bind selected dv_rust_version,
              ad_yanked = (case selected of None \<Rightarrow> False | Some row \<Rightarrow> dv_yanked row),
              ad_advisory_count = ac_affected counts,
              ad_status_markers = (if markers = [] then [''ok''] else markers)\<rparr>],
          al_issues = unsatisfied @ map snd findings,
          al_unresolved = 0, al_no_requirement = (if pd_requirement dep = None then 1 else 0), al_unknown = ac_unknown counts\<rparr>)"

definition audit_dependency ::
  "('v::linorder, 'r) semver_api \<Rightarrow> (audit_query \<Rightarrow> string option) \<Rightarrow> crate_store \<Rightarrow> crate_advisory_row list \<Rightarrow>
   parsed_manifest \<Rightarrow> parsed_dependency \<Rightarrow> audit_locals result" where
  "audit_dependency sv fails st table manifest dep =
     (case fails (AuditCrate (pd_name dep)) of
        Some e \<Rightarrow> Inl (''dependency lookup failed for '' @ pd_name dep @ '': '' @ e)
      | None \<Rightarrow>
     (case fetch_dependency_crate_by_name st (pd_name dep) of
        None \<Rightarrow> Inr (not_indexed dep)
      | Some (crate_id, crate_name) \<Rightarrow>
     (case fails (AuditVersions crate_name) of
        Some e \<Rightarrow> Inl (''version lookup failed for '' @ crate_name @ '': '' @ e)
      | None \<Rightarrow>
     (let versions = list_dependency_versions_by_crate st crate_id;
          latest = (case versions of [] \<Rightarrow> None | v # _ \<Rightarrow> Some v);
          selected = audit_selected sv (Option.bind (pd_requirement dep) (req_parse sv)) versions
      in case (if selected = None then None else fails (AuditAdvisories (pd_name dep))) of
           Some e \<Rightarrow> Inl (''advisory lookup failed for '' @ pd_name dep @ '': '' @ e)
         | None \<Rightarrow> Inr (audit_indexed sv (fetch_advisory_rows table [int crate_id]) manifest dep latest selected)))))"

fun audit_all ::
  "('v::linorder, 'r) semver_api \<Rightarrow> (audit_query \<Rightarrow> string option) \<Rightarrow> crate_store \<Rightarrow> crate_advisory_row list \<Rightarrow>
   parsed_manifest \<Rightarrow> parsed_dependency list \<Rightarrow> audit_locals \<Rightarrow> audit_locals result" where
  "audit_all sv fails st table manifest [] l = Inr l"
| "audit_all sv fails st table manifest (d # ds) l =
     (case audit_dependency sv fails st table manifest d of
        Inl e \<Rightarrow> Inl e | Inr m \<Rightarrow> audit_all sv fails st table manifest ds (add_audit l m))"

section \<open>The handler\<close>

definition audit_response :: "parsed_manifest \<Rightarrow> audit_locals \<Rightarrow> dependency_audit_response" where
  "audit_response manifest l =
     (let dependencies = sort_key ad_dependency_name (al_dependencies l);
          issues = sort_key (\<lambda>i. (ai_dependency_name i, category_rank (ai_category i))) (al_issues l);
          assessment = audit_confidence (length dependencies) (al_unresolved l) (al_no_requirement l) (al_unknown l)
      in \<lparr>ar_package_name = pm_package_name manifest, ar_package_rust_version = pm_package_rust_version manifest,
          ar_dependency_count = length dependencies, ar_issue_count = length issues,
          ar_dependencies = dependencies, ar_issues = issues,
          ar_freshness = [\<lparr>rf_source = ''local_postgres_index'', rf_status = ''queried'', rf_checked_at = None\<rparr>],
          ar_confidence = confidence_as_str (ca_level assessment), ar_confidence_assessment = assessment,
          ar_suggested_next_tools = [''crate_intel'', ''crate_versions'', ''index_refresh''],
          ar_provenance = ''inline_manifest+local_postgres_index''\<rparr>)"

definition handle_dependency_audit ::
  "('v::linorder, 'r) semver_api \<Rightarrow> 'd cargo_api \<Rightarrow> (audit_query \<Rightarrow> string option) \<Rightarrow> crate_store \<Rightarrow> crate_advisory_row list \<Rightarrow>
   string \<Rightarrow> dependency_audit_response result" where
  "handle_dependency_audit sv api fails st table cargo_toml =
     (let manifest_text = trim cargo_toml
      in if manifest_text = [] then Inl ''cargo_toml must not be empty''
         else res_bind (parse_manifest api manifest_text) (\<lambda>manifest.
              res_bind (audit_all sv fails st table manifest (pm_dependencies manifest)
                \<lparr>al_dependencies = [], al_issues = [], al_unresolved = 0, al_no_requirement = 0, al_unknown = 0\<rparr>) (\<lambda>l.
                Inr (audit_response manifest l))))"

section \<open>The loop, dependency by dependency\<close>

definition no_audit :: audit_locals where
  "no_audit = \<lparr>al_dependencies = [], al_issues = [], al_unresolved = 0, al_no_requirement = 0, al_unknown = 0\<rparr>"

lemma no_audit_select [simp]:
  "al_dependencies no_audit = []" "al_issues no_audit = []" "al_unresolved no_audit = 0" "al_no_requirement no_audit = 0"
  "al_unknown no_audit = 0"
  by (simp_all add: no_audit_def)

lemma audit_all_parts:
  assumes "audit_all sv fails st table p ds l = Inr l'"
  shows "\<exists>ms. list_all2 (\<lambda>d m. audit_dependency sv fails st table p d = Inr m) ds ms \<and>
    al_dependencies l' = al_dependencies l @ concat (map al_dependencies ms) \<and>
    al_issues l' = al_issues l @ concat (map al_issues ms) \<and>
    al_unresolved l' = al_unresolved l + sum_list (map al_unresolved ms) \<and>
    al_no_requirement l' = al_no_requirement l + sum_list (map al_no_requirement ms) \<and>
    al_unknown l' = al_unknown l + sum_list (map al_unknown ms)"
  using assms
proof (induction ds arbitrary: l)
  case (Cons d ds)
  then obtain l1 m where m: "audit_dependency sv fails st table p d = Inr m" "l1 = add_audit l m"
    and rest: "audit_all sv fails st table p ds l1 = Inr l'"
    by (auto split: sum.splits)
  from Cons.IH [OF rest] obtain ms where
    "list_all2 (\<lambda>d m. audit_dependency sv fails st table p d = Inr m) ds ms"
    "al_dependencies l' = al_dependencies l1 @ concat (map al_dependencies ms)"
    "al_issues l' = al_issues l1 @ concat (map al_issues ms)"
    "al_unresolved l' = al_unresolved l1 + sum_list (map al_unresolved ms)"
    "al_no_requirement l' = al_no_requirement l1 + sum_list (map al_no_requirement ms)"
    "al_unknown l' = al_unknown l1 + sum_list (map al_unknown ms)" by blast
  with m show ?case by (intro exI [of _ "m # ms"]) (simp add: add_audit_def)
qed simp

lemma handle_audit_parts:
  assumes "handle_dependency_audit sv api fails st table text = Inr r" and "parse_manifest api (trim text) = Inr p"
  obtains l where "audit_all sv fails st table p (pm_dependencies p) no_audit = Inr l" "r = audit_response p l"
  using assms by (auto simp: handle_dependency_audit_def Let_def no_audit_def res_bind_def split: if_splits sum.splits)

text \<open>The result of one dependency is part of the response.\<close>

lemma list_all2_member: "list_all2 P xs ys \<Longrightarrow> x \<in> set xs \<Longrightarrow> \<exists>y \<in> set ys. P x y"
  by (induction rule: list_all2_induct) auto

lemma audit_member:
  assumes "handle_dependency_audit sv api fails st table text = Inr r" and "parse_manifest api (trim text) = Inr p"
    and "d \<in> set (pm_dependencies p)"
  obtains m where "audit_dependency sv fails st table p d = Inr m"
    "set (al_dependencies m) \<subseteq> set (ar_dependencies r)" "set (al_issues m) \<subseteq> set (ar_issues r)"
proof -
  obtain l where l: "audit_all sv fails st table p (pm_dependencies p) no_audit = Inr l" "r = audit_response p l"
    using handle_audit_parts [OF assms(1,2)] .
  from audit_all_parts [OF l(1)] obtain ms where
    ms: "list_all2 (\<lambda>d m. audit_dependency sv fails st table p d = Inr m) (pm_dependencies p) ms"
    "al_dependencies l = concat (map al_dependencies ms)" "al_issues l = concat (map al_issues ms)" by auto
  from list_all2_member [OF ms(1) assms(3)] obtain m where "m \<in> set ms" "audit_dependency sv fails st table p d = Inr m" ..
  moreover from this have "set (al_dependencies m) \<subseteq> set (ar_dependencies r)" "set (al_issues m) \<subseteq> set (ar_issues r)"
    using ms(2,3) by (auto simp: l(2) audit_response_def Let_def)
  ultimately show ?thesis using that by blast
qed

section \<open>What an audit entry says\<close>

lemma finite_verdicts: "finite {k. spec_verdict sv vid v rows k = Some x}"
proof (rule finite_subset)
  show "{k. spec_verdict sv vid v rows k = Some x} \<subseteq> car_advisory_id ` set rows"
    by (auto simp: spec_verdict_def Let_def list_ex_iff split: if_splits)
qed simp

lemma audit_matching_member:
  "(u, x) \<in> set (audit_matching sv req rows) \<longleftrightarrow>
     x \<in> set rows \<and> parse_semver_for_matching sv (dv_version x) = Some u \<and> req_matches sv req u"
  unfolding audit_matching_def set_map_filter by (auto split: option.splits if_splits)

lemma fold_pick_some: "fold (pick le) xs (Some e) \<noteq> None"
  by (induction xs arbitrary: e) (auto split: if_splits)

lemma max_by_key_none: "max_by_key xs = None \<longleftrightarrow> xs = []"
  by (cases xs) (simp_all add: max_by_key_def fold_pick_some del: not_None_eq)

lemma audit_selected_best:
  assumes "audit_selected sv (Some req) rows = Some row"
  shows "row \<in> set rows \<and> (\<exists>w. parse_semver_for_matching sv (dv_version row) = Some w \<and> req_matches sv req w \<and>
    (\<forall>x \<in> set rows. \<forall>u. parse_semver_for_matching sv (dv_version x) = Some u \<and> req_matches sv req u \<longrightarrow> u \<le> w))"
proof -
  obtain w where m: "max_by_key (audit_matching sv req rows) = Some (w, row)"
    using assms by (auto simp: audit_selected_def)
  have "u \<le> w" if "x \<in> set rows" "parse_semver_for_matching sv (dv_version x) = Some u" "req_matches sv req u" for x u
    using bspec [OF conjunct2 [OF max_by_key_spec [OF m]], of "(u, x)"] that by (simp add: audit_matching_member)
  then show ?thesis using conjunct1 [OF max_by_key_spec [OF m]] audit_matching_member [of w row sv req rows] by blast
qed

definition msrv_exceeds :: "('v::linorder, 'r) semver_api \<Rightarrow> parsed_manifest \<Rightarrow> dependency_version_row \<Rightarrow> bool" where
  "msrv_exceeds sv p row \<longleftrightarrow>
     (\<exists>a b. Option.bind (pm_package_rust_version p) (parse_rust_version_floor sv) = Some a \<and>
            Option.bind (dv_rust_version row) (parse_rust_version_floor sv) = Some b \<and> a < b)"

lemma findings_empty:
  "selected_findings sv p d counts (Some newest) row = [] \<longleftrightarrow>
     \<not> dv_yanked row \<and> ac_affected counts = 0 \<and> ac_unknown counts = 0 \<and> dv_version newest = dv_version row \<and> \<not> msrv_exceeds sv p row"
  by (auto simp: selected_findings_def msrv_exceeds_def Let_def split: option.splits)

lemma findings_issues:
  "ac_affected counts > 0 \<Longrightarrow> \<exists>x \<in> snd ` set (selected_findings sv p d counts latest row).
     ai_dependency_name x = pd_name d \<and> ai_category x = Advisory \<and> ai_severity x = SeverityHigh"
  "dv_yanked row \<Longrightarrow> \<exists>x \<in> snd ` set (selected_findings sv p d counts latest row).
     ai_dependency_name x = pd_name d \<and> ai_category x = Yanked"
  "msrv_exceeds sv p row \<Longrightarrow> \<exists>x \<in> snd ` set (selected_findings sv p d counts latest row).
     ai_dependency_name x = pd_name d \<and> ai_category x = MsrvConflict"
  by (auto simp: selected_findings_def msrv_exceeds_def Let_def)

lemma findings_not_ok: "''ok'' \<notin> fst ` set (selected_findings sv p d counts latest row)"
  by (auto simp: selected_findings_def Let_def split: option.splits)

lemma audit_indexed_markers:
  assumes "pd_requirement d = Some q"
  shows "ad_status_markers (hd (al_dependencies (audit_indexed sv rows p d latest (Some row)))) = [''ok''] \<longleftrightarrow>
    selected_findings sv p d (advisory_counts sv rows (int (dv_id row)) (dv_version row)) latest row = []"
  using findings_not_ok [of sv p d "advisory_counts sv rows (int (dv_id row)) (dv_version row)" latest row] assms
  by (auto simp: audit_indexed_def Let_def)

lemma audit_selected_exists:
  assumes "x \<in> set rows" "parse_semver_for_matching sv (dv_version x) = Some u" "req_matches sv req u"
  shows "\<exists>row. audit_selected sv (Some req) rows = Some row"
proof -
  have "max_by_key (audit_matching sv req rows) \<noteq> None"
    using audit_matching_member [of u x sv req rows] assms by (auto simp: max_by_key_none)
  then show ?thesis by (auto simp: audit_selected_def)
qed

lemma audit_dependency_indexed:
  assumes "audit_dependency sv fails st table p d = Inr m" "fetch_dependency_crate_by_name st (pd_name d) = Some (i, n)"
    "list_dependency_versions_by_crate st i = newest # older"
  shows "m = audit_indexed sv (fetch_advisory_rows table [int i]) p d (Some newest)
    (audit_selected sv (Option.bind (pd_requirement d) (req_parse sv)) (newest # older))"
  using assms by (simp add: audit_dependency_def Let_def split: option.splits if_splits)



definition audit_cargo :: "string \<Rightarrow> string cargo_api" where
  "audit_cargo q =
     \<lparr>manifest_from_slice = (\<lambda>_. Inr \<lparr>ds_dependencies = [(''serde'', q)], ds_dev_dependencies = [],
         ds_build_dependencies = [], cm_package = Some (''demo'', Some (Set ''1.70'')), cm_target = []\<rparr>),
      try_req = (\<lambda>d. Some d)\<rparr>"

definition audit_manifest :: "string \<Rightarrow> parsed_manifest" where
  "audit_manifest q = \<lparr>pm_package_name = Some ''demo'', pm_package_rust_version = Some ''1.70'',
     pm_dependencies = [\<lparr>pd_name = ''serde'', pd_requirement = Some q\<rparr>]\<rparr>"

definition audit_demo :: "string \<Rightarrow> dependency_audit_response result" where
  "audit_demo q = handle_dependency_audit sample_semver (audit_cargo q) (\<lambda>_. None) demo_store
     [sample_row ''A'' ''ghsa'' ''< 2.0.0''] ''x''"

lemma audit_demo_runs:
  "case audit_demo ''< 2.0.0'' of Inl _ \<Rightarrow> False | Inr _ \<Rightarrow> True" "case audit_demo ''>= 3.0.0'' of Inl _ \<Rightarrow> False | Inr _ \<Rightarrow> True"
  by code_simp+

lemma audit_demo_parse: "parse_manifest (audit_cargo ''< 2.0.0'') (trim ''x'') = Inr (audit_manifest ''< 2.0.0'')"
  "parse_manifest (audit_cargo ''>= 3.0.0'') (trim ''x'') = Inr (audit_manifest ''>= 3.0.0'')"
  by code_simp+

lemma audit_demo_store: "fetch_dependency_crate_by_name demo_store ''serde'' = Some (1, ''serde'')"
  "list_dependency_versions_by_crate demo_store 1 =
     map (\<lambda>(i, v). \<lparr>dv_id = i, dv_version = v, dv_rust_version = None, dv_yanked = False\<rparr>)
       [(12, ''2.0.0''), (11, ''1.2.0''), (10, ''1.0.0'')]"
  by code_simp+


text \<open>
  An indexed dependency whose readable requirement no indexed version satisfies is reported
  as an unresolved issue, and yet its entry is marked \<open>ok\<close>, and when it is the only dependency
  of the manifest the confidence is \<open>high\<close>, with the reason that all dependencies were resolved.
\<close>

theorem unsatisfied_requirement_is_ok:
  assumes "handle_dependency_audit sv api fails st table text = Inr r" and "parse_manifest api (trim text) = Inr p"
    and "pm_dependencies p = [d]" and "fetch_dependency_crate_by_name st (pd_name d) = Some (i, n)"
    and "list_dependency_versions_by_crate st i = newest # older"
    and "pd_requirement d = Some q" and "req_parse sv q = Some req"
    and "\<And>x u. x \<in> set (newest # older) \<Longrightarrow> parse_semver_for_matching sv (dv_version x) = Some u \<Longrightarrow> \<not> req_matches sv req u"
  shows "(\<exists>issue. ar_issues r = [issue] \<and> ai_category issue = Unresolved) \<and>
    map ad_status_markers (ar_dependencies r) = [[''ok'']] \<and> map ad_selected_version (ar_dependencies r) = [None] \<and>
    ar_confidence_assessment r = \<lparr>ca_level = High, ca_reason = ''all dependencies resolved against indexed versions and advisories''\<rparr>"
proof -
  obtain l where l: "audit_all sv fails st table p [d] no_audit = Inr l" "r = audit_response p l"
    using handle_audit_parts [OF assms(1,2)] assms(3) by metis
  then obtain m where m: "audit_dependency sv fails st table p d = Inr m" "l = add_audit no_audit m"
    by (auto split: sum.splits)
  have "audit_matching sv req (newest # older) = []"
  proof (rule ccontr)
    assume "audit_matching sv req (newest # older) \<noteq> []"
    then obtain u x where "(u, x) \<in> set (audit_matching sv req (newest # older))"
      by (metis list.set_intros(1) neq_Nil_conv surj_pair)
    then show False using assms(8) unfolding audit_matching_member by blast
  qed
  then have "audit_selected sv (Some req) (newest # older) = None" by (simp add: audit_selected_def max_by_key_def)
  then have "m = audit_indexed sv (fetch_advisory_rows table [int i]) p d (Some newest) None"
    using audit_dependency_indexed [OF m(1) assms(4,5)] by (simp add: assms(6,7))
  then show ?thesis
    using m(2) l(2) by (simp add: audit_indexed_def add_audit_def audit_response_def audit_confidence_def Let_def assms(6,7))
qed

theorem unsatisfied_requirement_is_ok_witness:
  "case audit_demo ''>= 3.0.0'' of Inl _ \<Rightarrow> False
   | Inr r \<Rightarrow> map ad_status_markers (ar_dependencies r) = [[''ok'']] \<and> ca_level (ar_confidence_assessment r) = High"
proof -
  obtain r where r: "audit_demo ''>= 3.0.0'' = Inr r" using audit_demo_runs(2) by (cases "audit_demo ''>= 3.0.0''") auto
  let ?d = "\<lparr>pd_name = ''serde'', pd_requirement = Some ''>= 3.0.0''\<rparr>"
  let ?rows = "list_dependency_versions_by_crate demo_store 1"
  have rows: "?rows = hd ?rows # tl ?rows" unfolding audit_demo_store(2) by simp
  have req: "req_parse sample_semver ''>= 3.0.0'' = Some (True, 3, 0, 0)"
    "list_all (\<lambda>x. case parse_semver_for_matching sample_semver (dv_version x) of None \<Rightarrow> True
       | Some u \<Rightarrow> \<not> req_matches sample_semver (True, 3, 0, 0) u) ?rows" by code_simp+
  have none: "\<not> req_matches sample_semver (True, 3, 0, 0) u"
    if "x \<in> set (hd ?rows # tl ?rows)" "parse_semver_for_matching sample_semver (dv_version x) = Some u" for x u
    using req(2) that unfolding rows [symmetric] list_all_iff by fastforce
  have d: "pm_dependencies (audit_manifest ''>= 3.0.0'') = [?d]" by (simp add: audit_manifest_def)
  from unsatisfied_requirement_is_ok [OF r [unfolded audit_demo_def] audit_demo_parse(2) d _ rows _ req(1) none, of "''serde''"] r
  show ?thesis by (simp add: audit_demo_store(1))
qed

end
