(* ===== verification/Rustdoc_Types.thy ===== *)
theory Rustdoc_Types
  imports Collections Text_Utils
begin

text \<open>
  The rustdoc JSON document and the rendering of its types (\<open>mcp/indexing/rustdoc_json.rs\<close>, first
  half).  The document is the data of the \<open>rustdoc_types\<close> crate; the datatypes below have the
  constructors that the source matches on (its matches are exhaustive) and the fields it reads.  A
  \<open>HashMap\<close> is the association list of its entries in iteration order, with distinct keys; an item
  id is a \<open>u32\<close>.  The rendering functions of the source pass the document along without reading it,
  so that their models do not take it.
\<close>

section \<open>Types, paths and bounds\<close>

datatype trait_bound_modifier = NoModifier | Maybe | MaybeConst

datatype rustdoc_type =
    ResolvedPath rustdoc_path
  | Generic string
  | Primitive string
  | BorrowedRef "string option" bool rustdoc_type
  | Tuple "rustdoc_type list"
  | Slice rustdoc_type
  | Array rustdoc_type string
  | RawPointer bool rustdoc_type
  | ImplTrait "generic_bound list"
  | DynTrait "rustdoc_path list" "string option"
  | FunctionPointer function_signature
  | QualifiedPath string rustdoc_type "rustdoc_path option"
  | Infer
  | Pat rustdoc_type
and rustdoc_path = Path string "generic_args option"
and generic_args =
    AngleBracketed "generic_arg list" "string list"
  | Parenthesized "rustdoc_type list" "rustdoc_type option"
  | ReturnTypeNotation
and generic_arg = LifetimeArg string | TypeArg rustdoc_type | ConstArg string | InferArg
and generic_bound =
    TraitBound rustdoc_path trait_bound_modifier
  | Outlives string
  | UseBound
and function_signature = FunctionSignature "(string \<times> rustdoc_type) list" "rustdoc_type option"

primrec path_text :: "rustdoc_path \<Rightarrow> string" where
  "path_text (Path p args) = p"

datatype where_term = TypeTerm rustdoc_type | ConstantTerm string

datatype where_predicate =
    BoundPredicate rustdoc_type "generic_bound list"
  | LifetimePredicate string "string list"
  | EqPredicate rustdoc_type where_term

datatype generic_param_kind =
    LifetimeParam "string list"
  | TypeParam "generic_bound list" "rustdoc_type option" bool
  | ConstParam rustdoc_type "string option"

record generic_param_def =
  gp_name :: string
  gp_kind :: generic_param_kind

record generics =
  gn_params :: "generic_param_def list"
  gn_where_predicates :: "where_predicate list"

section \<open>Items\<close>

type_synonym item_id = u32

datatype rustdoc_visibility = Public | Default | CrateVisible | Restricted string

datatype repr_kind = ReprRust | ReprC | ReprTransparent | ReprSimd

datatype rustdoc_attribute =
    NonExhaustive
  | MustUse "string option"
  | MacroExport
  | ExportName string
  | LinkSection string
  | AutomaticallyDerived
  | Repr repr_kind "nat option" "nat option" "string option"
  | NoMangle
  | TargetFeature "string list"
  | OtherAttribute string

datatype struct_kind = PlainStruct "item_id list" | TupleStruct "item_id option list" | UnitStruct

datatype variant_kind = PlainVariant | TupleVariant "item_id option list" | StructVariant "item_id list"

record use_item =
  us_id :: "item_id option"
  us_is_glob :: bool

record function_item =
  fn_sig :: function_signature
  fn_generics :: generics
  fn_is_const :: bool
  fn_is_async :: bool
  fn_is_unsafe :: bool
  fn_has_body :: bool

record struct_item =
  st_kind :: struct_kind
  st_generics :: generics
  st_impls :: "item_id list"

record enum_item =
  en_variants :: "item_id list"
  en_generics :: generics
  en_impls :: "item_id list"

record union_item =
  un_fields :: "item_id list"
  un_generics :: generics
  un_impls :: "item_id list"

record variant_item =
  va_kind :: variant_kind
  va_discriminant :: "string option"

record trait_item =
  tr_items :: "item_id list"
  tr_generics :: generics
  tr_bounds :: "generic_bound list"
  tr_is_auto :: bool
  tr_is_unsafe :: bool
  tr_is_dyn_compatible :: bool

record impl_item =
  im_for :: rustdoc_type
  im_trait :: "rustdoc_path option"
  im_items :: "item_id list"
  im_generics :: generics
  im_is_synthetic :: bool
  im_is_negative :: bool
  im_blanket :: "rustdoc_type option"

datatype item_enum =
    Module "item_id list"
  | ExternCrate
  | Use use_item
  | Struct struct_item
  | StructField rustdoc_type
  | Enum enum_item
  | Variant variant_item
  | Union union_item
  | Function function_item
  | Trait trait_item
  | TraitAlias
  | Impl impl_item
  | TypeAlias generics rustdoc_type
  | Constant rustdoc_type
  | Static bool rustdoc_type
  | ExternType
  | Macro
  | ProcMacro
  | PrimitiveItem
  | AssocConst rustdoc_type "string option"
  | AssocType "generic_bound list" "rustdoc_type option"

record deprecation =
  dp_since :: "string option"
  dp_note :: "string option"

text \<open>A span is the pair of its first and last line; \<open>usize\<close> is 64 bits wide.\<close>

record item =
  it_name :: "string option"
  it_visibility :: rustdoc_visibility
  it_span :: "(64 word \<times> 64 word) option"
  it_docs :: "string option"
  it_attrs :: "rustdoc_attribute list"
  it_deprecation :: "deprecation option"
  it_inner :: item_enum

record rustdoc_crate =
  rc_root :: item_id
  rc_index :: "(item_id \<times> item) list"
  rc_paths :: "(item_id \<times> string list) list"

definition hash_get :: "('k \<times> 'v) list \<Rightarrow> 'k \<Rightarrow> 'v option" where
  "hash_get m k = map_of m k"

definition document_ok :: "rustdoc_crate \<Rightarrow> bool" where
  "document_ok krate \<longleftrightarrow> distinct (map fst (rc_index krate)) \<and> distinct (map fst (rc_paths krate))"

section \<open>Rendering\<close>

fun render_type :: "rustdoc_type \<Rightarrow> string"
and render_path :: "rustdoc_path \<Rightarrow> string"
and render_generic_args :: "generic_args \<Rightarrow> string"
and render_generic_arg :: "generic_arg \<Rightarrow> string"
and render_bound :: "generic_bound \<Rightarrow> string"
and render_fn_signature :: "function_signature \<Rightarrow> string"
where
  "render_type (ResolvedPath path) = render_path path"
| "render_type (Generic name) = name"
| "render_type (Primitive name) = name"
| "render_type (BorrowedRef lifetime is_mutable ty) =
     ''&'' @ (case lifetime of None \<Rightarrow> [] | Some lt \<Rightarrow> lt @ '' '') @ (if is_mutable then ''mut '' else []) @ render_type ty"
| "render_type (Tuple types) = ''('' @ join '', '' (map render_type types) @ '')''"
| "render_type (Slice ty) = ''['' @ render_type ty @ '']''"
| "render_type (Array ty len) = ''['' @ render_type ty @ ''; '' @ len @ '']''"
| "render_type (RawPointer is_mutable ty) = ''*'' @ (if is_mutable then ''mut'' else ''const'') @ '' '' @ render_type ty"
| "render_type (ImplTrait bounds) = ''impl '' @ join '' + '' (map render_bound bounds)"
| "render_type (DynTrait traits lifetime) =
     ''dyn '' @ join '' + '' (map render_path traits) @ (case lifetime of None \<Rightarrow> [] | Some lt \<Rightarrow> '' + '' @ lt)"
| "render_type (FunctionPointer sig) = ''fn'' @ render_fn_signature sig"
| "render_type (QualifiedPath name self_type trait) =
     (case trait of
        Some t \<Rightarrow> ''<'' @ render_type self_type @ '' as '' @ render_path t @ ''>::'' @ name
      | None \<Rightarrow> render_type self_type @ ''::'' @ name)"
| "render_type Infer = ''_''"
| "render_type (Pat ty) = render_type ty"
| "render_path (Path p args) = p @ (case args of None \<Rightarrow> [] | Some a \<Rightarrow> render_generic_args a)"
| "render_generic_args (AngleBracketed args constraints) =
     (let parts = map render_generic_arg args @ map (\<lambda>c. c @ '' = ...'') constraints
      in if parts = [] then [] else ''<'' @ join '', '' parts @ ''>'')"
| "render_generic_args (Parenthesized inputs output) =
     ''('' @ join '', '' (map render_type inputs) @ '')'' @
     (case output of None \<Rightarrow> [] | Some out \<Rightarrow> '' -> '' @ render_type out)"
| "render_generic_args ReturnTypeNotation = ''(..)''"
| "render_generic_arg (LifetimeArg lt) = lt"
| "render_generic_arg (TypeArg ty) = render_type ty"
| "render_generic_arg (ConstArg expr) = expr"
| "render_generic_arg InferArg = ''_''"
| "render_bound (TraitBound trait modifier) =
     (case modifier of Maybe \<Rightarrow> ''?'' | MaybeConst \<Rightarrow> ''~const '' | NoModifier \<Rightarrow> []) @ render_path trait"
| "render_bound (Outlives lt) = lt"
| "render_bound UseBound = ''use<...>''"
| "render_fn_signature (FunctionSignature inputs output) =
     ''('' @ join '', '' (map (\<lambda>(name, ty). name @ '': '' @ render_type ty) inputs) @ '')'' @
     (case output of None \<Rightarrow> [] | Some out \<Rightarrow> '' -> '' @ render_type out)"

primrec render_where_predicate :: "where_predicate \<Rightarrow> string" where
  "render_where_predicate (BoundPredicate ty bounds) = render_type ty @ '': '' @ join '' + '' (map render_bound bounds)"
| "render_where_predicate (LifetimePredicate lifetime outlives) =
     (if outlives = [] then lifetime else lifetime @ '': '' @ join '' + '' outlives)"
| "render_where_predicate (EqPredicate lhs rhs) =
     render_type lhs @ '' = '' @ (case rhs of TypeTerm ty \<Rightarrow> render_type ty | ConstantTerm expr \<Rightarrow> expr)"

text \<open>The text of a generic parameter, shared by the two functions that print parameters.\<close>

definition render_generic_param :: "generic_param_def \<Rightarrow> string" where
  "render_generic_param p =
     (case gp_kind p of
        LifetimeParam outlives \<Rightarrow> gp_name p @ (if outlives = [] then [] else '': '' @ join '' + '' outlives)
      | TypeParam bounds default_type is_synthetic \<Rightarrow>
          gp_name p @ (if bounds = [] then [] else '': '' @ join '' + '' (map render_bound bounds)) @
          (case default_type of None \<Rightarrow> [] | Some d \<Rightarrow> '' = '' @ render_type d)
      | ConstParam ty default_text \<Rightarrow>
          ''const '' @ gp_name p @ '': '' @ render_type ty @ (case default_text of None \<Rightarrow> [] | Some d \<Rightarrow> '' = '' @ d))"

definition displayed_param :: "generic_param_def \<Rightarrow> bool" where
  "displayed_param p \<longleftrightarrow> (case gp_kind p of TypeParam _ _ is_synthetic \<Rightarrow> \<not> is_synthetic | _ \<Rightarrow> True)"

definition render_generic_params_display :: "generic_param_def list \<Rightarrow> string" where
  "render_generic_params_display params =
     (let parts = map render_generic_param (filter displayed_param params)
      in if parts = [] then [] else ''<'' @ join '', '' parts @ ''>'')"

section \<open>Small projections\<close>

fun visibility_string :: "rustdoc_visibility \<Rightarrow> string option" where
  "visibility_string Public = Some ''public''"
| "visibility_string Default = Some ''private''"
| "visibility_string CrateVisible = Some ''pub''"
| "visibility_string (Restricted path) = Some (''pub(in '' @ path @ '')'')"

definition resolve_definition_path :: "rustdoc_crate \<Rightarrow> item_id \<Rightarrow> string option" where
  "resolve_definition_path krate i = map_option (join ''::'') (hash_get (rc_paths krate) i)"

text \<open>\<open>as i32\<close> keeps the low 32 bits.\<close>

definition as_i32 :: "'n::len word \<Rightarrow> int" where
  "as_i32 w = sint (ucast w :: 32 word)"

definition extract_span :: "(64 word \<times> 64 word) option \<Rightarrow> int \<times> int" where
  "extract_span span =
     (case span of
        Some (first, final) \<Rightarrow> (let start = as_i32 (max first 1) in (start, max (as_i32 final) start))
      | None \<Rightarrow> (1, 1))"

definition has_non_exhaustive :: "item \<Rightarrow> bool" where
  "has_non_exhaustive item = list_ex (\<lambda>a. a = NonExhaustive) (it_attrs item)"

definition json_obj :: "(string \<times> json) list \<Rightarrow> json" where
  "json_obj entries = JObject (fold (\<lambda>(k, v). bt_insert k v) entries [])"

definition json_opt :: "string option \<Rightarrow> json" where
  "json_opt v = (case v of None \<Rightarrow> JNull | Some s \<Rightarrow> JString s)"

definition json_strings :: "string list \<Rightarrow> json" where
  "json_strings xs = JArray (map JString xs)"

definition json_number_opt :: "nat option \<Rightarrow> json" where
  "json_number_opt v = (case v of None \<Rightarrow> JNull | Some n \<Rightarrow> JNumber (show_nat n))"

fun repr_kind_str :: "repr_kind \<Rightarrow> string" where
  "repr_kind_str ReprRust = ''Rust''"
| "repr_kind_str ReprC = ''C''"
| "repr_kind_str ReprTransparent = ''transparent''"
| "repr_kind_str ReprSimd = ''simd''"

fun serialize_attr :: "rustdoc_attribute \<Rightarrow> json" where
  "serialize_attr NonExhaustive = json_obj [(''kind'', JString ''non_exhaustive'')]"
| "serialize_attr (MustUse reason) = json_obj [(''kind'', JString ''must_use''), (''reason'', json_opt reason)]"
| "serialize_attr MacroExport = json_obj [(''kind'', JString ''macro_export'')]"
| "serialize_attr (ExportName name) = json_obj [(''kind'', JString ''export_name''), (''name'', JString name)]"
| "serialize_attr (LinkSection name) = json_obj [(''kind'', JString ''link_section''), (''name'', JString name)]"
| "serialize_attr AutomaticallyDerived = json_obj [(''kind'', JString ''automatically_derived'')]"
| "serialize_attr (Repr kind align packed int_type) =
     json_obj [(''kind'', JString ''repr''), (''repr_kind'', JString (repr_kind_str kind)),
       (''align'', json_number_opt align), (''packed'', json_number_opt packed), (''int'', json_opt int_type)]"
| "serialize_attr NoMangle = json_obj [(''kind'', JString ''no_mangle'')]"
| "serialize_attr (TargetFeature enable) = json_obj [(''kind'', JString ''target_feature''), (''enable'', json_strings enable)]"
| "serialize_attr (OtherAttribute raw) = json_obj [(''kind'', JString ''other''), (''raw'', JString raw)]"

definition serialize_attrs :: "rustdoc_attribute list \<Rightarrow> json option" where
  "serialize_attrs attrs = (if attrs = [] then None else Some (JArray (map serialize_attr attrs)))"

fun item_enum_to_kind :: "item_enum \<Rightarrow> string" where
  "item_enum_to_kind (Module _) = ''module''"
| "item_enum_to_kind ExternCrate = ''extern_crate''"
| "item_enum_to_kind (Use _) = ''use''"
| "item_enum_to_kind (Struct _) = ''struct''"
| "item_enum_to_kind (StructField _) = ''struct_field''"
| "item_enum_to_kind (Enum _) = ''enum''"
| "item_enum_to_kind (Variant _) = ''variant''"
| "item_enum_to_kind (Union _) = ''union''"
| "item_enum_to_kind (Function _) = ''function''"
| "item_enum_to_kind (Trait _) = ''trait''"
| "item_enum_to_kind TraitAlias = ''trait_alias''"
| "item_enum_to_kind (Impl _) = ''impl''"
| "item_enum_to_kind (TypeAlias _ _) = ''type_alias''"
| "item_enum_to_kind (Constant _) = ''constant''"
| "item_enum_to_kind (Static _ _) = ''static''"
| "item_enum_to_kind ExternType = ''extern_type''"
| "item_enum_to_kind Macro = ''macro''"
| "item_enum_to_kind ProcMacro = ''proc_macro''"
| "item_enum_to_kind PrimitiveItem = ''primitive''"
| "item_enum_to_kind (AssocConst _ _) = ''assoc_const''"
| "item_enum_to_kind (AssocType _ _) = ''assoc_type''"

text \<open>\<open>rsplit("::").next()\<close>: what follows the last separator.\<close>

definition terminal_segment :: "string \<Rightarrow> string" where
  "terminal_segment path = (case split_once ''::'' (rev path) of None \<Rightarrow> path | Some (tail, _) \<Rightarrow> rev tail)"

fun type_terminal_name :: "rustdoc_type \<Rightarrow> string" where
  "type_terminal_name (ResolvedPath path) = terminal_segment (path_text path)"
| "type_terminal_name (BorrowedRef lifetime is_mutable ty) = type_terminal_name ty"
| "type_terminal_name (Generic name) = name"
| "type_terminal_name (Primitive name) = name"
| "type_terminal_name (Tuple types) = ''(tuple)''"
| "type_terminal_name (Slice inner) = ''['' @ type_terminal_name inner @ '']''"
| "type_terminal_name ty = render_type ty"

definition build_signature :: "item \<Rightarrow> string option" where
  "build_signature item =
     (let name = unwrap_or (it_name item) ''_''
      in case it_inner item of
           Function f \<Rightarrow> Some (''fn '' @ name @ render_generic_params_display (gn_params (fn_generics f)) @ render_fn_signature (fn_sig f))
         | Struct s \<Rightarrow> Some (''struct '' @ name @ render_generic_params_display (gn_params (st_generics s)))
         | Enum e \<Rightarrow> Some (''enum '' @ name @ render_generic_params_display (gn_params (en_generics e)))
         | Union u \<Rightarrow> Some (''union '' @ name @ render_generic_params_display (gn_params (un_generics u)))
         | Trait t \<Rightarrow> Some (''trait '' @ name @ render_generic_params_display (gn_params (tr_generics t)))
         | TypeAlias g ty \<Rightarrow> Some (''type '' @ name @ render_generic_params_display (gn_params g) @ '' = '' @ render_type ty)
         | Constant ty \<Rightarrow> Some (''const '' @ name @ '': '' @ render_type ty)
         | Static is_mutable ty \<Rightarrow>
             Some (''static '' @ (if is_mutable then ''mut '' else []) @ name @ '': '' @ render_type ty)
         | _ \<Rightarrow> None)"

end
