(* ===== verification/Rustdoc_Files.thy ===== *)
theory Rustdoc_Files
  imports Semver Rustdoc_Types
begin

text \<open>
  Documents on disk and older formats (\<open>mcp/indexing/rustdoc_json.rs\<close>, \<open>integration/docs_rs/mod.rs\<close>):
  the search for local rustdoc files, the crate and version in a file name, decoding of payloads, and
  the patches for older format versions.  A path is the list of its components; a directory tree is
  given as a value, an unreadable directory carries its error.  The decompressors are arguments.
\<close>

section \<open>Local files\<close>

datatype fs_node = FsFile | FsOther | FsDir "(string \<times> fs_node) list" | FsUnreadable string

type_synonym path = "string list"

definition RUSTDOC_SOURCE_PATH_PREFIX :: string where
  "RUSTDOC_SOURCE_PATH_PREFIX = ''rustdoc-json/''"

definition file_name :: "path \<Rightarrow> string option" where
  "file_name p = (if p = [] \<or> last p = ''..'' then None else Some (last p))"

definition display_path :: "path \<Rightarrow> string" where
  "display_path p = join ''/'' p"

definition is_rustdoc_json_file :: "path \<Rightarrow> bool" where
  "is_rustdoc_json_file p =
     (case file_name p of
        None \<Rightarrow> False
      | Some n \<Rightarrow> (let name = to_ascii_lowercase n in ends_with ''.json'' name \<or> ends_with ''.json.zst'' name))"

text \<open>One directory: its subdirectories are pushed on the stack of pending directories, its files collected.\<close>

fun walk_entries :: "path \<Rightarrow> (string \<times> fs_node) list \<Rightarrow> (path \<times> fs_node) list \<Rightarrow> path list \<Rightarrow> (path \<times> fs_node) list \<times> path list" where
  "walk_entries dir [] pending files = (pending, files)"
| "walk_entries dir ((name, node) # entries) pending files =
     (case node of
        FsDir _ \<Rightarrow> walk_entries dir entries (pending @ [(dir @ [name], node)]) files
      | FsUnreadable _ \<Rightarrow> walk_entries dir entries (pending @ [(dir @ [name], node)]) files
      | FsFile \<Rightarrow> walk_entries dir entries pending (if is_rustdoc_json_file (dir @ [name]) then files @ [dir @ [name]] else files)
      | FsOther \<Rightarrow> walk_entries dir entries pending files)"

lemma walk_entries_size:
  "walk_entries dir entries pending files = (pending', files') \<Longrightarrow>
   (\<Sum>x\<leftarrow>pending'. size (snd x)) \<le> (\<Sum>x\<leftarrow>pending. size (snd x)) + size_list (\<lambda>x. size (snd x)) entries"
proof (induction dir entries pending files rule: walk_entries.induct)
  case (2 dir name node entries pending files)
  then show ?case by (cases node) (auto split: if_splits)
qed simp

lemma sum_butlast:
  fixes f :: "'a \<Rightarrow> nat"
  shows "xs \<noteq> [] \<Longrightarrow> sum_list (map f xs) = sum_list (map f (butlast xs)) + f (last xs)"
  by (induction xs rule: rev_induct) simp_all

lemma size_list_snd_le: "size_list (\<lambda>x. size (snd x)) es \<le> size_list (size_prod (\<lambda>_. 0) size) es"
  by (induction es) (auto simp: size_prod_simp split: prod.splits)

function walk_pending :: "(path \<times> fs_node) list \<Rightarrow> path list \<Rightarrow> path list result" where
  "walk_pending pending files =
     (if pending = [] then Inr files
      else (case snd (last pending) of
          FsDir entries \<Rightarrow>
            walk_pending (fst (walk_entries (fst (last pending)) entries (butlast pending) files))
              (snd (walk_entries (fst (last pending)) entries (butlast pending) files))
        | FsUnreadable e \<Rightarrow> Inl (''failed to read directory '' @ display_path (fst (last pending)) @ '': '' @ e)
        | _ \<Rightarrow> Inl (''failed to read directory '' @ display_path (fst (last pending)) @ '': not a directory'')))"
  by pat_completeness auto

termination
proof (relation "measure (\<lambda>(pending, files). \<Sum>x\<leftarrow>pending. size (snd x))")
  fix pending :: "(path \<times> fs_node) list" and files entries
  assume a: "pending \<noteq> []" "snd (last pending) = FsDir entries"
  let ?w = "walk_entries (fst (last pending)) entries (butlast pending) files"
  have "(\<Sum>x\<leftarrow>fst ?w. size (snd x)) \<le> (\<Sum>x\<leftarrow>butlast pending. size (snd x)) + size_list (\<lambda>x. size (snd x)) entries"
    by (rule walk_entries_size [of _ _ _ _ _ "snd ?w"]) simp
  also have "\<dots> < (\<Sum>x\<leftarrow>pending. size (snd x))"
    using a(2) size_list_snd_le [of entries] by (subst sum_butlast [OF a(1)]) simp
  finally show "((fst ?w, snd ?w), pending, files) \<in> measure (\<lambda>(pending, files). \<Sum>x\<leftarrow>pending. size (snd x))"
    by (simp add: case_prod_beta)
qed simp

declare walk_pending.simps [simp del]

definition walk_json_files :: "path \<Rightarrow> fs_node \<Rightarrow> path list result" where
  "walk_json_files root node =
     (case walk_pending [(root, node)] [] of Inl e \<Rightarrow> Inl e | Inr files \<Rightarrow> Inr (sort files))"

section \<open>The files found\<close>

fun json_files :: "path \<Rightarrow> fs_node \<Rightarrow> path set" where
  "json_files p FsFile = (if is_rustdoc_json_file p then {p} else {})"
| "json_files p FsOther = {}"
| "json_files p (FsDir entries) = (\<Union>x \<in> set entries. json_files (p @ [fst x]) (snd x))"
| "json_files p (FsUnreadable e) = {}"

fun readable :: "fs_node \<Rightarrow> bool" where
  "readable FsFile = True"
| "readable FsOther = True"
| "readable (FsDir entries) = (\<forall>x \<in> set entries. readable (snd x))"
| "readable (FsUnreadable e) = False"

fun is_dir :: "fs_node \<Rightarrow> bool" where
  "is_dir (FsDir entries) = True"
| "is_dir (FsUnreadable e) = True"
| "is_dir FsFile = False"
| "is_dir FsOther = False"

lemma walk_entries_files:
  "walk_entries dir entries pending files = (pending', files') \<Longrightarrow>
   set files' \<union> (\<Union>x \<in> set pending'. json_files (fst x) (snd x)) =
     set files \<union> (\<Union>x \<in> set pending. json_files (fst x) (snd x)) \<union> (\<Union>x \<in> set entries. json_files (dir @ [fst x]) (snd x))"
proof (induction dir entries pending files rule: walk_entries.induct)
  case (2 dir name node entries pending files)
  then show ?case
    by (cases node) (simp_all add: Un_assoc Un_left_commute insert_absorb split: if_splits)
qed simp

lemma walk_entries_readable:
  "walk_entries dir entries pending files = (pending', files') \<Longrightarrow>
   (\<forall>x \<in> set pending'. readable (snd x)) \<longleftrightarrow> (\<forall>x \<in> set pending. readable (snd x)) \<and> (\<forall>x \<in> set entries. readable (snd x))"
proof (induction dir entries pending files rule: walk_entries.induct)
  case (2 dir name node entries pending files)
  then show ?case by (cases node) (auto split: if_splits)
qed simp

lemma walk_entries_dirs:
  "walk_entries dir entries pending files = (pending', files') \<Longrightarrow>
   list_all (\<lambda>x. is_dir (snd x)) pending \<Longrightarrow> list_all (\<lambda>x. is_dir (snd x)) pending'"
proof (induction dir entries pending files rule: walk_entries.induct)
  case (2 dir name node entries pending files)
  then show ?case by (cases node) (simp_all split: if_splits)
qed simp

lemma set_last: "xs \<noteq> [] \<Longrightarrow> set xs = insert (last xs) (set (butlast xs))"
  by (induction xs rule: rev_induct) auto

lemma walk_pending_set:
  "list_all (\<lambda>x. is_dir (snd x)) pending \<Longrightarrow>
   (case walk_pending pending files of
      Inl _ \<Rightarrow> \<not> (\<forall>x \<in> set pending. readable (snd x))
    | Inr files' \<Rightarrow> (\<forall>x \<in> set pending. readable (snd x)) \<and> set files' = set files \<union> (\<Union>x \<in> set pending. json_files (fst x) (snd x)))"
proof (induction pending files rule: walk_pending.induct)
  case (1 pending files)
  show ?case
  proof (cases "pending = []")
    case True
    then show ?thesis by (simp add: walk_pending.simps)
  next
    case False
    obtain dir node where l: "last pending = (dir, node)" by (cases "last pending")
    have s: "set pending = insert (dir, node) (set (butlast pending))" using set_last [OF False] l by simp
    have dirs: "list_all (\<lambda>x. is_dir (snd x)) (butlast pending)" and "is_dir node" using 1(2) s by (auto simp: list_all_iff)
    then show ?thesis
    proof (cases node)
      case (FsDir entries)
      let ?w = "walk_entries dir entries (butlast pending) files"
      have w: "?w = (fst ?w, snd ?w)" by simp
      note ws = walk_entries_files [OF w] walk_entries_readable [OF w]
      have step: "walk_pending pending files = walk_pending (fst ?w) (snd ?w)"
        using False l FsDir by (subst walk_pending.simps) simp
      have "case walk_pending (fst ?w) (snd ?w) of
          Inl _ \<Rightarrow> \<not> (\<forall>x \<in> set (fst ?w). readable (snd x))
        | Inr files' \<Rightarrow> (\<forall>x \<in> set (fst ?w). readable (snd x)) \<and>
            set files' = set (snd ?w) \<union> (\<Union>x \<in> set (fst ?w). json_files (fst x) (snd x))"
        using "1.IH" [OF False, of entries] l FsDir walk_entries_dirs [OF w dirs] by (simp only: fst_conv snd_conv)
      moreover have "(\<forall>x \<in> set pending. readable (snd x)) \<longleftrightarrow> (\<forall>x \<in> set (fst ?w). readable (snd x))"
        unfolding ws(2) s FsDir by auto
      moreover have "set files \<union> (\<Union>x \<in> set pending. json_files (fst x) (snd x)) =
          set (snd ?w) \<union> (\<Union>x \<in> set (fst ?w). json_files (fst x) (snd x))"
        unfolding ws(1) s FsDir by auto
      ultimately show ?thesis unfolding step by (simp only: )
    next
      case (FsUnreadable e)
      then show ?thesis using False l s by (subst walk_pending.simps) simp
    qed simp_all
  qed
qed

text \<open>
  The search for local rustdoc files terminates; it fails exactly when some directory of the tree cannot
  be read, and otherwise returns the rustdoc JSON files of the tree, compressed or not, in ascending order of path.
\<close>

theorem walk_json_files_exact:
  "case walk_json_files root (FsDir entries) of
     Inl _ \<Rightarrow> \<not> readable (FsDir entries)
   | Inr files \<Rightarrow> readable (FsDir entries) \<and> sorted files \<and> set files = json_files root (FsDir entries)"
  using walk_pending_set [of "[(root, FsDir entries)]" "[]"]
  by (auto simp: walk_json_files_def split: sum.splits)

section \<open>The crate and version of a file name\<close>

text \<open>\<open>to_string_lossy\<close> keeps a valid name.\<close>

definition rustdoc_logical_stem :: "path \<Rightarrow> string option" where
  "rustdoc_logical_stem p =
     Option.bind (file_name p) (\<lambda>name.
       case strip_suffix ''.json.zst'' name of
         Some base \<Rightarrow> Some base
       | None \<Rightarrow> strip_suffix ''.json'' name)"

definition parses :: "('v, 'r) semver_api \<Rightarrow> string \<Rightarrow> bool" where
  "parses sv version_candidate \<longleftrightarrow> version_parse sv (dropWhile (\<lambda>c. c = CHR ''v'') version_candidate) \<noteq> None"

definition dash_split :: "('v, 'r) semver_api \<Rightarrow> string list \<Rightarrow> (string \<times> string) option" where
  "dash_split sv segments =
     find (\<lambda>(crate_name, version_candidate). parses sv version_candidate \<and> crate_name \<noteq> [])
       (map (\<lambda>i. (join ''-'' (take i segments), join ''-'' (drop i segments))) [1..<length segments])"

definition underscore_split :: "('v, 'r) semver_api \<Rightarrow> string list \<Rightarrow> (string \<times> string) option" where
  "underscore_split sv segments =
     find (\<lambda>(crate_name, version_candidate). parses sv version_candidate \<and> crate_name \<noteq> [])
       (map (\<lambda>i. (join ''_'' (take i segments), segments ! i)) [1..<length segments])"

definition crate_from_stem :: "('v, 'r) semver_api \<Rightarrow> string \<Rightarrow> string \<times> string option" where
  "crate_from_stem sv stem =
     (let normalized = trim stem
      in if normalized = [] then ([], None)
         else (case dash_split sv (split_on ''-'' normalized) of
             Some (crate_name, version_candidate) \<Rightarrow> (crate_name, Some version_candidate)
           | None \<Rightarrow>
               (case underscore_split sv (split_on ''_'' normalized) of
                  Some (crate_name, version_candidate) \<Rightarrow> (crate_name, Some version_candidate)
                | None \<Rightarrow> (normalized, None))))"

lemma join_append: "xs \<noteq> [] \<Longrightarrow> ys \<noteq> [] \<Longrightarrow> join s (xs @ ys) = join s xs @ s @ join s ys"
proof (induction s xs rule: join.induct)
  case (2 s x)
  then show ?case by (cases ys) auto
qed auto

lemma split_once_char_fresh: "split_once [c] s = Some (x, y) \<Longrightarrow> c \<notin> set x"
  by (induction s arbitrary: x) (auto split: if_splits)

lemma find_append: "find P (xs @ ys) = (case find P xs of None \<Rightarrow> find P ys | Some x \<Rightarrow> Some x)"
  by (induction xs) auto

lemma split_on_char_append: "split_on [c] (a @ c # b) = split_on [c] a @ split_on [c] b"
proof (induction "[c]" a rule: split_on.induct)
  case (1 a)
  show ?case
  proof (cases "split_once [c] a")
    case None
    then have "c \<notin> set a" using split_once_None_hd [of "[c]" a] by (auto simp: in_set_conv_decomp)
    then show ?thesis using split_on_first [of c a "[]" b] by simp
  next
    case (Some xy)
    obtain x y where xy: "xy = (x, y)" by (cases xy)
    have a: "a = x @ c # y" using split_once_Some [of "[c]" a x y] Some xy by simp
    have x: "c \<notin> set x" using Some xy split_once_char_fresh by simp
    have "split_on [c] (y @ c # b) = split_on [c] y @ split_on [c] b" using 1 Some xy by simp
    then show ?thesis using split_on_first [OF x, of "[]"] by (simp add: a)
  qed
qed

lemma find_upt_first:
  assumes "P (f n)" and "m \<le> n" "n < k" and "\<And>i. m \<le> i \<Longrightarrow> i < n \<Longrightarrow> \<not> P (f i)"
  shows "find P (map f [m..<k]) = Some (f n)"
proof -
  have "[m..<k] = [m..<n] @ n # [Suc n..<k]" using assms(2,3) by (metis le_add_diff_inverse upt_add_eq_append upt_conv_Cons less_imp_le)
  moreover have "find P (map f [m..<n]) = None" using assms(4) by (simp add: find_None_iff)
  ultimately show ?thesis using assms(1) by (simp add: find_append)
qed

text \<open>
  A file named \<open><crate>-<version>\<close> is attributed to that crate and version, with hyphens in either, whenever
  no longer tail of the name reads as a version.
\<close>

theorem crate_from_stem_roundtrip:
  assumes "trim (name @ ''-'' @ version) = name @ ''-'' @ version" and "name \<noteq> []" and "parses sv version"
    and "\<And>a b. name = a @ ''-'' @ b \<Longrightarrow> a \<noteq> [] \<Longrightarrow> \<not> parses sv (b @ ''-'' @ version)"
  shows "crate_from_stem sv (name @ ''-'' @ version) = (name, Some version)"
proof -
  let ?n = "split_on ''-'' name" and ?v = "split_on ''-'' version"
  have segs: "split_on ''-'' (name @ ''-'' @ version) = ?n @ ?v" using split_on_char_append [of "CHR ''-''" name version] by simp
  have ne: "?n \<noteq> []" "?v \<noteq> []" by simp_all
  let ?f = "\<lambda>i. (join ''-'' (take i (?n @ ?v)), join ''-'' (drop i (?n @ ?v)))"
  let ?P = "\<lambda>(c, w). parses sv w \<and> c \<noteq> []"
  have last: "?f (length ?n) = (name, version)" by (simp add: join_split_on)
  have early: "\<not> ?P (?f i)" if i: "1 \<le> i" "i < length ?n" for i
  proof -
    let ?a = "join ''-'' (take i ?n)" and ?b = "join ''-'' (drop i ?n)"
    have "take i ?n \<noteq> []" "drop i ?n \<noteq> []" using i by auto
    then have "name = ?a @ ''-'' @ ?b" using join_append [of "take i ?n" "drop i ?n" "''-''"] by (simp add: join_split_on)
    moreover have "?f i = (?a, ?b @ ''-'' @ version)"
      using i join_append [of "drop i ?n" ?v "''-''"] by (simp add: join_split_on)
    ultimately show ?thesis using assms(4) [of ?a ?b] by auto
  qed
  have "dash_split sv (?n @ ?v) = Some (name, version)"
    unfolding dash_split_def
    using find_upt_first [of ?P ?f "length ?n" 1 "length (?n @ ?v)"] last early assms(2,3) ne
    by (simp add: Suc_le_eq del: find.simps)
  then show ?thesis using assms(1,2) segs by (simp add: crate_from_stem_def Let_def)
qed

theorem crate_from_stem_roundtrip_witness:
  "crate_from_stem sample_semver ''my-crate-1.2.3'' = (''my-crate'', Some ''1.2.3'')"
proof -
  have "\<not> parses sample_semver (b @ ''-'' @ ''1.2.3'')" if e: "''my-crate'' = a @ ''-'' @ b" "a \<noteq> []" for a b
  proof -
    have "split_on ''-'' ''my-crate'' = split_on ''-'' a @ split_on ''-'' b"
      using e(1) split_on_char_append [of "CHR ''-''" a b] by simp
    moreover have "split_on ''-'' ''my-crate'' = [''my'', ''crate'']" by code_simp
    ultimately have "split_on ''-'' b = [''crate'']"
      by (cases "split_on ''-'' a") (auto simp: append_eq_Cons_conv Cons_eq_append_conv)
    then have b: "b = ''crate''" using join_split_on [of "''-''" b] by simp
    have "\<not> parses sample_semver (''crate'' @ ''-'' @ ''1.2.3'')" by code_simp
    then show ?thesis unfolding b .
  qed
  moreover have "trim (''my-crate'' @ ''-'' @ ''1.2.3'') = ''my-crate'' @ ''-'' @ ''1.2.3''" "parses sample_semver ''1.2.3''"
    by code_simp+
  ultimately show ?thesis
    using crate_from_stem_roundtrip [of "''my-crate''" "''1.2.3''" sample_semver] by simp
qed

section \<open>Payloads\<close>

text \<open>\<open>String::from_utf8\<close>: the well-formed byte sequences of UTF-8.\<close>

definition in_bytes :: "nat \<Rightarrow> nat \<Rightarrow> char \<Rightarrow> bool" where
  "in_bytes lo hi c \<longleftrightarrow> lo \<le> (of_char c :: nat) \<and> (of_char c :: nat) \<le> hi"

fun utf8_valid :: "string \<Rightarrow> bool" where
  "utf8_valid [] = True"
| "utf8_valid (a # s) =
     (if in_bytes 0 127 a then utf8_valid s
      else if in_bytes 194 223 a then (case s of b # t \<Rightarrow> in_bytes 128 191 b \<and> utf8_valid t | _ \<Rightarrow> False)
      else if in_bytes 224 239 a then
        (case s of b # c # t \<Rightarrow>
           (if of_char a = (224 :: nat) then in_bytes 160 191 b else if of_char a = (237 :: nat) then in_bytes 128 159 b
            else in_bytes 128 191 b) \<and> in_bytes 128 191 c \<and> utf8_valid t
         | _ \<Rightarrow> False)
      else if in_bytes 240 244 a then
        (case s of b # c # d # t \<Rightarrow>
           (if of_char a = (240 :: nat) then in_bytes 144 191 b else if of_char a = (244 :: nat) then in_bytes 128 143 b
            else in_bytes 128 191 b) \<and> in_bytes 128 191 c \<and> in_bytes 128 191 d \<and> utf8_valid t
         | _ \<Rightarrow> False)
      else False)"

record codec_api =
  cd_gunzip :: "string \<Rightarrow> string option"
  cd_zstd :: "string \<Rightarrow> string result"
  cd_utf8_error :: "string \<Rightarrow> string"
  cd_sha256_hex :: "string \<Rightarrow> string"

definition docs_rs_rustdoc_synthetic_path :: "string \<Rightarrow> string \<Rightarrow> string" where
  "docs_rs_rustdoc_synthetic_path crate_name version =
     RUSTDOC_SOURCE_PATH_PREFIX @ ''docs.rs/'' @ crate_name @ ''-'' @ version @ ''.json''"

definition decode_docs_rs_rustdoc_payload :: "codec_api \<Rightarrow> string \<Rightarrow> string result" where
  "decode_docs_rs_rustdoc_payload codec payload_bytes =
     (if utf8_valid payload_bytes then Inr payload_bytes
      else (case cd_gunzip codec payload_bytes of
          Some decoded_bytes \<Rightarrow>
            if utf8_valid decoded_bytes then Inr decoded_bytes
            else Inl (''decoded docs.rs rustdoc JSON payload was invalid UTF-8: '' @ cd_utf8_error codec decoded_bytes)
        | None \<Rightarrow> Inl ''docs.rs rustdoc JSON payload was not valid UTF-8 or gzip''))"

definition read_local_rustdoc_file :: "codec_api \<Rightarrow> (path \<Rightarrow> string result) \<Rightarrow> path \<Rightarrow> string result" where
  "read_local_rustdoc_file codec read p =
     (case read p of
        Inl e \<Rightarrow> Inl (''failed to read local rustdoc JSON file '' @ display_path p @ '': '' @ e)
      | Inr raw \<Rightarrow>
          (case (if (case file_name p of None \<Rightarrow> False | Some n \<Rightarrow> ends_with ''.zst'' n)
                 then (case cd_zstd codec raw of
                         Inl e \<Rightarrow> Inl (''failed to decompress zstd rustdoc file '' @ display_path p @ '': '' @ e)
                       | Inr bytes \<Rightarrow> Inr bytes)
                 else Inr raw) of
             Inl e \<Rightarrow> Inl e
           | Inr bytes \<Rightarrow>
               if utf8_valid bytes then Inr bytes
               else Inl (''invalid UTF-8 in rustdoc JSON file '' @ display_path p @ '' (local fallback): '' @ cd_utf8_error codec bytes)))"

definition slash :: "char \<Rightarrow> char" where
  "slash c = (if c = CHR 0x5C then CHR ''/'' else c)"

definition synthetic_rustdoc_path :: "path \<Rightarrow> path \<Rightarrow> string" where
  "synthetic_rustdoc_path root_dir file_path =
     RUSTDOC_SOURCE_PATH_PREFIX @
     (if take (length root_dir) file_path = root_dir then map slash (display_path (drop (length root_dir) file_path))
      else unwrap_or (file_name file_path) ''unknown.json'')"

section \<open>Older formats\<close>

fun json_get :: "string \<Rightarrow> json \<Rightarrow> json option" where
  "json_get k (JObject entries) = bt_get entries k"
| "json_get k _ = None"

definition digits_value :: "string \<Rightarrow> nat" where
  "digits_value s = foldl (\<lambda>n c. 10 * n + (of_char c - 48)) 0 s"

text \<open>A JSON number is kept as its text; \<open>as_u64\<close> accepts the integers below \<open>2 ^ 64\<close>.\<close>

fun as_u64 :: "json \<Rightarrow> nat option" where
  "as_u64 (JNumber s) =
     (if s \<noteq> [] \<and> list_all (in_bytes 48 57) s \<and> digits_value s < 2 ^ 64 then Some (digits_value s) else None)"
| "as_u64 _ = None"

fun json_update :: "string \<Rightarrow> (json \<Rightarrow> json) \<Rightarrow> json \<Rightarrow> json" where
  "json_update k f (JObject entries) = JObject (map (\<lambda>(l, v). (l, if l = k then f v else v)) entries)"
| "json_update k f j = j"

fun map_values :: "(json \<Rightarrow> json) \<Rightarrow> json \<Rightarrow> json" where
  "map_values f (JObject entries) = JObject (map (\<lambda>(k, v). (k, f v)) entries)"
| "map_values f j = j"

fun patch_external_crate :: "json \<Rightarrow> json" where
  "patch_external_crate (JObject entries) = JObject (or_insert ''path'' (JString []) entries)"
| "patch_external_crate j = j"

fun patch_stability :: "json \<Rightarrow> json" where
  "patch_stability (JObject entries) =
     (if Option.bind (bt_get entries ''level'') as_str = Some ''stable''
      then (let since = unwrap_or (bt_get entries ''since'') JNull
            in JObject (bt_insert ''level'' (json_obj [(''stable'', json_obj [(''since'', since)])])
                 (filter (\<lambda>(k, v). k \<noteq> ''since'') entries)))
      else JObject entries)"
| "patch_stability j = j"

definition patch_item :: "json \<Rightarrow> json" where
  "patch_item item = json_update ''const_stability'' patch_stability (json_update ''stability'' patch_stability item)"

definition patch_document :: "nat \<Rightarrow> json \<Rightarrow> json" where
  "patch_document fv doc =
     (let doc1 = (if fv < 57 then json_update ''external_crates'' (map_values patch_external_crate) doc else doc)
      in if 58 \<le> fv \<and> fv < 61 then json_update ''index'' (map_values patch_item) doc1 else doc1)"

record serde_api =
  sa_value :: "string \<Rightarrow> json option"
  sa_crate :: "string \<Rightarrow> rustdoc_crate result"
  sa_from_value :: "json \<Rightarrow> rustdoc_crate option"
  sa_format_version :: nat

definition extract_format_version :: "serde_api \<Rightarrow> string \<Rightarrow> nat option" where
  "extract_format_version api content =
     Option.bind (sa_value api content) (\<lambda>doc. Option.bind (json_get ''format_version'' doc) as_u64)"

definition try_compat_deserialize :: "serde_api \<Rightarrow> string \<Rightarrow> rustdoc_crate option" where
  "try_compat_deserialize api content =
     Option.bind (sa_value api content) (\<lambda>doc.
     Option.bind (Option.bind (json_get ''format_version'' doc) as_u64) (\<lambda>fv.
       if fv \<ge> sa_format_version api then None else sa_from_value api (patch_document fv doc)))"

text \<open>
  The stability patch nests the version under the level: of a stable entry the new level is
  \<open>{"stable": {"since": ..}}\<close> with the old \<open>since\<close> or null, \<open>since\<close> is gone and every other key is kept; any other
  value is left as it is; and patching twice is patching once.
\<close>

theorem patch_stability_correct:
  "(bt_get entries ''level'' = Some (JString ''stable'') \<longrightarrow>
      json_get ''level'' (patch_stability (JObject entries)) =
        Some (JObject [(''stable'', JObject [(''since'', unwrap_or (bt_get entries ''since'') JNull)])]) \<and>
      json_get ''since'' (patch_stability (JObject entries)) = None) \<and>
    (bt_get entries ''level'' \<noteq> Some (JString ''stable'') \<longrightarrow> patch_stability (JObject entries) = JObject entries) \<and>
    (\<forall>k. k \<noteq> ''level'' \<and> k \<noteq> ''since'' \<longrightarrow> json_get k (patch_stability (JObject entries)) = bt_get entries k) \<and>
    patch_stability (patch_stability j) = patch_stability j"
proof -
  let ?rest = "filter (\<lambda>(k, v). k \<noteq> ''since'') entries"
  have rest: "bt_get ?rest k = (if k = ''since'' then None else bt_get entries k)" for k
    by (induction entries) (auto simp: bt_get_def)
  have str: "Option.bind v as_str = Some s \<longleftrightarrow> v = Some (JString s)" for v s
    by (cases v; cases "the v") auto
  have twice: "patch_stability (patch_stability j) = patch_stability j"
    by (cases j) (auto simp: Let_def bt_get_insert json_obj_def)
  show ?thesis using twice by (simp add: str Let_def bt_get_insert rest json_obj_def del: not_None_eq)
qed

theorem patch_stability_correct_witness:
  "patch_stability (JObject [(''level'', JString ''stable''), (''since'', JString ''1.0'')]) =
     JObject [(''level'', JObject [(''stable'', JObject [(''since'', JString ''1.0'')])])] \<and>
   json_get ''since'' (patch_stability (JObject [(''level'', JString ''stable''), (''since'', JString ''1.0'')])) = None"
proof -
  let ?e = "[(''level'', JString ''stable''), (''since'', JString ''1.0'')]"
  have "patch_stability (JObject ?e) = JObject [(''level'', JObject [(''stable'', JObject [(''since'', JString ''1.0'')])])]" by code_simp
  moreover have "bt_get ?e ''level'' = Some (JString ''stable'')" by code_simp
  ultimately show ?thesis using patch_stability_correct [of ?e JNull] by blast
qed

end
