(* ===== verification/Docs_Pages.thy ===== *)
theory Docs_Pages
  imports Rustdoc_Files
begin

text \<open>
  The HTML and URL helpers of \<open>integration/docs_rs/mod.rs\<close>: title and text extraction, the scan for
  \<open>href\<close> attributes and the resolution of links to pages of the crate being crawled.  A slice
  \<open>s[a..b]\<close> whose ends are not character boundaries panics; functions that slice return an option,
  \<open>None\<close> being the panic.
\<close>

section \<open>Slices\<close>

definition is_char_boundary :: "string \<Rightarrow> nat \<Rightarrow> bool" where
  "is_char_boundary s i \<longleftrightarrow> i = 0 \<or> i = length s \<or> (i < length s \<and> \<not> continuation (s ! i))"

definition slice :: "string \<Rightarrow> nat \<Rightarrow> nat \<Rightarrow> string option" where
  "slice s a b =
     (if a \<le> b \<and> b \<le> length s \<and> is_char_boundary s a \<and> is_char_boundary s b then Some (take (b - a) (drop a s)) else None)"

definition find_str :: "string \<Rightarrow> string \<Rightarrow> nat option" where
  "find_str p s = map_option (length o fst) (split_once p s)"

definition str_replace :: "string \<Rightarrow> string \<Rightarrow> string \<Rightarrow> string" where
  "str_replace p r s = join r (split_on p s)"

function split_words :: "string \<Rightarrow> string \<Rightarrow> string list" where
  "split_words cur [] = (if cur = [] then [] else [rev cur])"
| "split_words cur (c # s) =
     (case front_match white_space (c # s) of
        Some w \<Rightarrow> (if cur = [] then [] else [rev cur]) @ split_words [] (drop (length w) (c # s))
      | None \<Rightarrow> split_words (c # cur) s)"
  by pat_completeness auto
termination
  by (relation "measure (length o snd)") (use front_match_shorter in \<open>fastforce simp del: length_drop\<close>)+

definition split_whitespace :: "string \<Rightarrow> string list" where
  "split_whitespace s = split_words [] s"

section \<open>Titles and text\<close>

definition MAX_EXTRACTED_DOCS_CONTENT_CHARS :: nat where
  "MAX_EXTRACTED_DOCS_CONTENT_CHARS = 1000000"

definition MAX_TITLE_CHARS :: nat where
  "MAX_TITLE_CHARS = 300"

definition extract_title :: "string \<Rightarrow> string option option" where
  "extract_title html =
     (let lower = to_ascii_lowercase html
      in case find_str ''<title>'' lower of
           None \<Rightarrow> Some None
         | Some i \<Rightarrow>
             (let start = i + length ''<title>''
              in case slice lower start (length lower) of
                   None \<Rightarrow> None
                 | Some rest \<Rightarrow>
                     (case find_str ''</title>'' rest of
                        None \<Rightarrow> Some None
                      | Some j \<Rightarrow>
                          (case slice html start (j + start) of
                             None \<Rightarrow> None
                           | Some text \<Rightarrow>
                               (let title = trim text
                                in Some (if title = [] then None else Some (fst (take_chars MAX_TITLE_CHARS title))))))))"

fun strip_tags :: "bool \<Rightarrow> string \<Rightarrow> string" where
  "strip_tags in_tag [] = []"
| "strip_tags in_tag (ch # s) =
     (if ch = CHR ''<'' then strip_tags True s
      else if ch = CHR ''>'' then strip_tags False s
      else if \<not> in_tag then ch # strip_tags in_tag s
      else strip_tags in_tag s)"

definition strip_html :: "string \<Rightarrow> string" where
  "strip_html html =
     fst (take_chars MAX_EXTRACTED_DOCS_CONTENT_CHARS
       (join '' '' (split_whitespace
         (str_replace ''&gt;'' ''>'' (str_replace ''&lt;'' ''<'' (str_replace ''&amp;'' ''&''
           (str_replace ''&nbsp;'' '' '' (strip_tags False html))))))))"

section \<open>Links\<close>

definition quote_char :: "char \<Rightarrow> bool" where
  "quote_char c \<longleftrightarrow> c = CHR 0x22 \<or> c = CHR 0x27"

definition href_value :: "string \<Rightarrow> string list" where
  "href_value value =
     (if utf8_valid value then (let trimmed = trim value in if trimmed = [] then [] else [trimmed]) else [])"

function href_loop :: "string \<Rightarrow> nat \<Rightarrow> string list \<Rightarrow> string list option" where
  "href_loop html i out =
     (if \<not> i + 6 < length html then Some out
      else (case slice (to_ascii_lowercase html) i (length html) of
              None \<Rightarrow> None
            | Some rest \<Rightarrow>
                (case find_str ''href='' rest of
                   None \<Rightarrow> Some out
                 | Some found \<Rightarrow>
                     (let j = i + found + 5
                      in if j \<ge> length html then Some out
                         else if \<not> quote_char (html ! j) then href_loop html (j + 1) out
                         else (let value = takeWhile (\<lambda>c. c \<noteq> html ! j) (drop (j + 1) html)
                               in href_loop html (j + 1 + length value + 1) (out @ href_value value))))))"
  by pat_completeness auto
termination
  by (relation "measure (\<lambda>(html, i, out). length html - i)") (auto simp: Let_def)

declare href_loop.simps [simp del]

definition extract_href_values :: "string \<Rightarrow> string list option" where
  "extract_href_values html = href_loop html 0 []"

definition push_segment :: "string \<Rightarrow> string list \<Rightarrow> string list" where
  "push_segment segment parts =
     (if segment = [] \<or> segment = ''.'' then parts
      else if segment = ''..'' then butlast parts
      else parts @ [segment])"

definition normalize_joined_path :: "string \<Rightarrow> string option" where
  "normalize_joined_path p =
     (let raw = trim (hd (split_on ''?'' (hd (split_on ''#'' p))))
      in if raw = [] then None
         else (let has_trailing_slash = ends_with ''/'' raw;
                   parts = fold push_segment (split_on ''/'' (strip_front [''/''] raw)) [];
                   normalized = join ''/'' parts
               in if normalized = [] then None
                  else Some (if has_trailing_slash then normalized @ ''/'' else normalized)))"

definition trim_end_slashes :: "string \<Rightarrow> string" where
  "trim_end_slashes s = rev (strip_front [''/''] (rev s))"

definition base_dir :: "string \<Rightarrow> string" where
  "base_dir current_path =
     (if ends_with ''/'' current_path then current_path
      else rev (dropWhile (\<lambda>c. c \<noteq> CHR ''/'') (rev current_path)))"

definition skipped_href :: "string \<Rightarrow> bool" where
  "skipped_href raw \<longleftrightarrow> raw = [] \<or> list_ex (\<lambda>p. starts_with p raw) [''#'', ''javascript:'', ''mailto:'', ''tel:'', ''//'']"

definition href_target :: "string \<Rightarrow> string \<Rightarrow> string \<Rightarrow> string option" where
  "href_target docs_base_url current_path raw =
     (if starts_with ''http://'' raw \<or> starts_with ''https://'' raw
      then map_option (strip_front [''/'']) (strip_prefix (trim_end_slashes docs_base_url) raw)
      else if starts_with ''/'' raw then Some (strip_front [''/''] raw)
      else Some (base_dir current_path @ raw))"

definition resolve_docs_href :: "string \<Rightarrow> string \<Rightarrow> string \<Rightarrow> string \<Rightarrow> string option" where
  "resolve_docs_href docs_base_url current_path href crate_prefix =
     (let raw = trim href
      in if skipped_href raw then None
         else (case href_target docs_base_url current_path raw of
                 None \<Rightarrow> None
               | Some candidate \<Rightarrow>
                   (case normalize_joined_path candidate of
                      None \<Rightarrow> None
                    | Some normalized \<Rightarrow>
                        if \<not> starts_with crate_prefix normalized then None
                        else if \<not> (ends_with ''/'' normalized \<or> ends_with ''.html'' normalized) then None
                        else Some normalized)))"

definition discover_docs_paths :: "string \<Rightarrow> string \<Rightarrow> string \<Rightarrow> string \<Rightarrow> string list option" where
  "discover_docs_paths docs_base_url current_path html crate_prefix =
     map_option (\<lambda>hrefs. sort_dedup (List.map_filter (\<lambda>href. resolve_docs_href docs_base_url current_path href crate_prefix) hrefs))
       (extract_href_values html)"

section \<open>Links stay inside the crate\<close>

definition plain_segment :: "string \<Rightarrow> bool" where
  "plain_segment s \<longleftrightarrow> s \<noteq> [] \<and> s \<noteq> ''.'' \<and> s \<noteq> ''..'' \<and> set s \<inter> {CHR ''/'', CHR ''?'', CHR ''#''} = {}"

lemma split_on_char_fresh:
  assumes "x \<in> set (split_on [c] s)"
  shows "c \<notin> set x \<and> set x \<subseteq> set s"
  using assms
proof (induction "[c]" s rule: split_on.induct)
  case (1 s)
  show ?case
  proof (cases "split_once [c] s")
    case None
    then have "x = s" using "1.prems" by (subst (asm) split_on.simps) simp
    moreover have "c \<notin> set s" using None split_once_None_hd [of "[c]" s] by (auto simp: in_set_conv_decomp)
    ultimately show ?thesis by simp
  next
    case (Some ab)
    obtain a b where ab: "ab = (a, b)" by (cases ab)
    have s: "s = a @ c # b" using split_once_Some [of "[c]" s a b] Some ab by simp
    have "x = a \<or> x \<in> set (split_on [c] b)" using "1.prems" Some ab by (subst (asm) split_on.simps) simp
    moreover have "c \<notin> set a" using Some ab split_once_char_fresh by simp
    moreover have "x \<in> set (split_on [c] b) \<Longrightarrow> c \<notin> set x \<and> set x \<subseteq> set b" using "1.hyps" Some ab by simp
    ultimately show ?thesis by (auto simp: s)
  qed
qed

lemma set_strip_front: "set (strip_front ws s) \<subseteq> set s"
  using strip_front_suffix [of s ws] by (metis Un_upper2 set_append)

lemma set_trim: "set (trim s) \<subseteq> set s"
proof -
  obtain a b where "s = a @ trim s @ b" using trim_substring by blast
  then show ?thesis by (metis Un_upper1 Un_upper2 set_append subset_trans)
qed

lemma push_segments_plain:
  assumes "list_all plain_segment parts" and "list_all (\<lambda>s. set s \<inter> {CHR ''/'', CHR ''?'', CHR ''#''} = {}) segs"
  shows "list_all plain_segment (fold push_segment segs parts)"
  using assms
proof (induction segs arbitrary: parts)
  case (Cons s segs)
  have "list_all plain_segment (push_segment s parts)"
    using Cons.prems by (auto simp: push_segment_def plain_segment_def list_all_iff dest: in_set_butlastD)
  then show ?case using Cons by simp
qed simp

lemma normalize_joined_path_plain:
  assumes "normalize_joined_path p = Some n"
  shows "\<exists>parts t. n = join ''/'' parts @ t \<and> parts \<noteq> [] \<and> list_all plain_segment parts \<and> t \<in> {[], ''/''}"
proof -
  let ?raw = "trim (hd (split_on ''?'' (hd (split_on ''#'' p))))"
  let ?segs = "split_on ''/'' (strip_front [''/''] ?raw)"
  have "hd (split_on ''#'' p) \<in> set (split_on ''#'' p)" by simp
  then have h: "CHR ''#'' \<notin> set (hd (split_on ''#'' p))" using split_on_char_fresh by blast
  have "hd (split_on ''?'' (hd (split_on ''#'' p))) \<in> set (split_on ''?'' (hd (split_on ''#'' p)))" by simp
  then have "{CHR ''#'', CHR ''?''} \<inter> set (hd (split_on ''?'' (hd (split_on ''#'' p)))) = {}"
    using split_on_char_fresh [of _ "CHR ''?''" "hd (split_on ''#'' p)"] h by blast
  moreover have "set (strip_front [''/''] ?raw) \<subseteq> set (hd (split_on ''?'' (hd (split_on ''#'' p))))"
    using set_strip_front set_trim by (rule subset_trans)
  ultimately have "list_all (\<lambda>s. set s \<inter> {CHR ''/'', CHR ''?'', CHR ''#''} = {}) ?segs"
    using split_on_char_fresh [of _ "CHR ''/''" "strip_front [''/''] ?raw"] by (fastforce simp: list_all_iff)
  then have "list_all plain_segment (fold push_segment ?segs [])" by (rule push_segments_plain [rotated]) simp
  moreover have "fold push_segment ?segs [] \<noteq> []"
    using assms by (auto simp: normalize_joined_path_def Let_def split: if_splits)
  ultimately show ?thesis
    using assms by (auto simp: normalize_joined_path_def Let_def split: if_splits)
qed

text \<open>
  (C15) A link followed by the documentation crawl stays inside the crate version: the resolved path starts
  with the crate prefix, names a directory or an HTML page, and consists of plain segments, so that
  no \<open>..\<close>, \<open>.\<close>, query string or fragment survives, whatever the page says.
\<close>

theorem resolve_docs_href_contained:
  assumes "resolve_docs_href docs_base_url current_path href crate_prefix = Some p"
  shows "starts_with crate_prefix p \<and> (ends_with ''/'' p \<or> ends_with ''.html'' p) \<and>
    (\<exists>parts t. p = join ''/'' parts @ t \<and> parts \<noteq> [] \<and> list_all plain_segment parts \<and> t \<in> {[], ''/''})"
proof -
  obtain candidate where "normalize_joined_path candidate = Some p" "starts_with crate_prefix p"
    "ends_with ''/'' p \<or> ends_with ''.html'' p"
    using assms by (auto simp: resolve_docs_href_def Let_def split: if_splits option.splits)
  then show ?thesis using normalize_joined_path_plain by blast
qed

theorem resolve_docs_href_contained_witness:
  "starts_with ''serde/1.0.0/'' ''serde/1.0.0/serde/de/index.html'' \<and>
   (\<exists>parts t. ''serde/1.0.0/serde/de/index.html'' = join ''/'' parts @ t \<and> parts \<noteq> [] \<and> list_all plain_segment parts)"
proof -
  have "resolve_docs_href ''https://docs.rs/'' ''serde/1.0.0/serde/ser/trait.S.html'' ''../../serde/./de/index.html?x#y'' ''serde/1.0.0/'' =
    Some ''serde/1.0.0/serde/de/index.html''" by code_simp
  from resolve_docs_href_contained [OF this] show ?thesis by blast
qed

lemma resolve_docs_href_prefix: "resolve_docs_href b c href prefix = Some p \<Longrightarrow> starts_with prefix p"
  by (auto simp: resolve_docs_href_def Let_def split: if_splits option.splits)

lemma discover_docs_paths_prefix:
  assumes "discover_docs_paths b c html prefix = Some ps"
  shows "list_all (starts_with prefix) ps" and "distinct ps"
  using assms
  by (auto simp: discover_docs_paths_def list_all_iff set_map_filter dest: resolve_docs_href_prefix)

section \<open>Panics of the scan\<close>

definition ascii :: "string \<Rightarrow> bool" where
  "ascii s \<longleftrightarrow> list_all (\<lambda>c. of_char c < (128 :: nat)) s"

lemma ascii_boundary: "ascii s \<Longrightarrow> i \<le> length s \<Longrightarrow> is_char_boundary s i"
  by (auto simp: ascii_def is_char_boundary_def continuation_def list_all_length not_le)

lemma ascii_lowercase: "ascii s \<Longrightarrow> ascii (to_ascii_lowercase s)"
  by (induction s) (auto simp: ascii_def to_ascii_lowercase_def ascii_lower_def)

lemma href_loop_ascii:
  assumes "ascii html"
  shows "href_loop html i out \<noteq> None"
  using assms
proof (induction html i out rule: href_loop.induct)
  case (1 html i out)
  show ?case
  proof (cases "i + 6 < length html")
    case True
    then have s: "slice (to_ascii_lowercase html) i (length html) = Some (drop i (to_ascii_lowercase html))"
      using ascii_boundary [OF ascii_lowercase [OF "1.prems"]] by (simp add: slice_def)
    show ?thesis
      using 1 True s by (subst href_loop.simps) (auto simp: Let_def split: option.split)
  qed (subst href_loop.simps, simp)
qed

lemma split_once_here: "\<not> contains p (a @ butlast p) \<Longrightarrow> p \<noteq> [] \<Longrightarrow> split_once p (a @ p @ b) = Some (a, b)"
proof (induction a)
  case Nil
  then show ?case by (cases p) auto
next
  case (Cons c a)
  have n: "\<not> starts_with p ((c # a) @ p @ b)"
  proof
    assume s: "starts_with p ((c # a) @ p @ b)"
    have "length p \<le> length ((c # a) @ butlast p)" by (simp add: Cons.prems(2))
    moreover have "(c # a) @ p @ b = ((c # a) @ butlast p) @ last p # b" using Cons.prems(2) by simp
    ultimately have "take (length p) ((c # a) @ p @ b) = take (length p) ((c # a) @ butlast p)" by (metis append_take_drop_id take_append length_append diff_is_0_eq take_0 append_Nil2)
    then have "starts_with p ((c # a) @ butlast p)" using s by (simp add: starts_with_def)
    then show False using Cons.prems(1) unfolding contains_iff starts_with_iff by (metis append_Nil)
  qed
  have "\<not> contains p (a @ butlast p)" using Cons.prems(1) unfolding contains_iff by (metis append_Cons)
  then show ?case using Cons.IH Cons.prems(2) n by simp
qed

text \<open>
  The link scan panics on a page in which an unquoted attribute value starts with a character outside ASCII:
  after \<open>href=\<close> the scan steps over one byte and slices the text inside that character.
\<close>

theorem unquoted_href_panics:
  assumes "\<not> contains ''href='' (to_ascii_lowercase pre @ ''href'')" and "\<not> quote_char lead" and "continuation next_byte"
    and "5 < length rest"
  shows "extract_href_values (pre @ ''href='' @ lead # next_byte # rest) = None"
proof -
  let ?html = "pre @ ''href='' @ lead # next_byte # rest" and ?j = "length pre + 5"
  have lower: "to_ascii_lowercase ?html = to_ascii_lowercase pre @ ''href='' @ to_ascii_lowercase (lead # next_byte # rest)"
    by (simp add: to_ascii_lowercase_def ascii_lower_def)
  have f: "find_str ''href='' (to_ascii_lowercase ?html) = Some (length pre)"
    using split_once_here [of "''href=''" "to_ascii_lowercase pre"] assms(1) unfolding lower by (simp add: find_str_def)
  have c: "continuation (ascii_lower next_byte)" using assms(3) by (simp add: continuation_def ascii_lower_def)
  have "to_ascii_lowercase ?html ! (?j + 1) = ascii_lower next_byte" by (simp add: to_ascii_lowercase_def nth_append)
  then have "slice (to_ascii_lowercase ?html) (?j + 1) (length ?html) = None"
    using c assms(4) by (simp add: slice_def is_char_boundary_def)
  then have second: "href_loop ?html (?j + 1) [] = None"
    using assms(4) by (subst href_loop.simps) simp
  have "slice (to_ascii_lowercase ?html) 0 (length ?html) = Some (to_ascii_lowercase ?html)"
    by (simp add: slice_def is_char_boundary_def)
  moreover have "?html ! ?j = lead" by (simp add: nth_append)
  ultimately show ?thesis
    using f second assms(2,4) unfolding extract_href_values_def by (subst href_loop.simps) (simp add: Let_def)
qed

theorem unquoted_href_panics_witness:
  "extract_href_values (''<a '' @ ''href='' @ CHR 0xC3 # CHR 0xA9 # ''t.html>'') = None"
proof (rule unquoted_href_panics)
  show "\<not> contains ''href='' (to_ascii_lowercase ''<a '' @ ''href'')" by code_simp
qed (simp_all add: quote_char_def continuation_def)

end
