(* ===== verification/Rustdoc_Paths.thy ===== *)
theory Rustdoc_Paths
  imports Rustdoc_Types
begin

text \<open>
  Canonical import paths (\<open>build_canonical_path_map\<close> of \<open>mcp/indexing/rustdoc_json.rs\<close>): an item is
  imported by the shortest of its definition path and the paths of its public re-exports.  The map
  is built by iterating hash maps; the theorems show that the result is the least candidate and
  therefore the same in every iteration order.
\<close>

section \<open>Following re-exports\<close>

definition path_rank :: "string \<Rightarrow> nat \<times> nat \<times> string" where
  "path_rank path = (length (filter (\<lambda>s. s \<noteq> []) (split_on ''::'' path)), length path, path)"

definition use_next :: "rustdoc_crate \<Rightarrow> item_id \<Rightarrow> item_id option" where
  "use_next krate i =
     (case hash_get (rc_index krate) i of
        None \<Rightarrow> None
      | Some item \<Rightarrow> (case it_inner item of Use u \<Rightarrow> us_id u | _ \<Rightarrow> None))"

lemma use_next_indexed: "use_next krate i = Some j \<Longrightarrow> i \<in> fst ` set (rc_index krate)"
  by (auto simp: use_next_def hash_get_def split: option.splits dest: map_of_SomeD intro: rev_image_eqI)

function resolve_use_loop :: "rustdoc_crate \<Rightarrow> item_id \<Rightarrow> item_id list \<Rightarrow> item_id" where
  "resolve_use_loop krate current seen =
     (if current \<in> set seen then current
      else (case use_next krate current of
          None \<Rightarrow> current
        | Some next_id \<Rightarrow> resolve_use_loop krate next_id (current # seen)))"
  by pat_completeness auto

termination
proof (relation "measure (\<lambda>(krate, current, seen). card (fst ` set (rc_index krate) - set seen))")
  fix krate current seen next_id
  assume "current \<notin> set seen" and "use_next krate current = Some next_id"
  then have "fst ` set (rc_index krate) - set (current # seen) \<subset> fst ` set (rc_index krate) - set seen"
    using use_next_indexed by fastforce
  then have "card (fst ` set (rc_index krate) - set (current # seen)) < card (fst ` set (rc_index krate) - set seen)"
    by (intro psubset_card_mono) auto
  then show "((krate, next_id, current # seen), krate, current, seen) \<in>
      measure (\<lambda>(krate, current, seen). card (fst ` set (rc_index krate) - set seen))" by simp
qed simp

declare resolve_use_loop.simps [simp del]

definition resolve_use_target_id :: "rustdoc_crate \<Rightarrow> item_id \<Rightarrow> item_id" where
  "resolve_use_target_id krate start = resolve_use_loop krate start []"

section \<open>The map\<close>

definition definition_paths :: "rustdoc_crate \<Rightarrow> item_id \<Rightarrow> string option" where
  "definition_paths krate = map_of (map (\<lambda>(i, path). (i, join ''::'' path)) (rc_paths krate))"

definition module_children :: "rustdoc_crate \<Rightarrow> item_id \<times> item \<Rightarrow> (item_id \<times> string) list" where
  "module_children krate entry =
     (case it_inner (snd entry) of
        Module items \<Rightarrow>
          (case definition_paths krate (fst entry) of
             None \<Rightarrow> []
           | Some mod_path \<Rightarrow> map (\<lambda>child_id. (child_id, mod_path)) items)
      | _ \<Rightarrow> [])"

text \<open>Collecting into a \<open>HashMap\<close> keeps the last pair of a key.\<close>

definition parent_path_of :: "rustdoc_crate \<Rightarrow> item_id \<Rightarrow> string option" where
  "parent_path_of krate = map_of (rev (concat (map (module_children krate) (rc_index krate))))"

definition glob_child :: "rustdoc_crate \<Rightarrow> string \<Rightarrow> item_id \<Rightarrow> (item_id \<times> string) option" where
  "glob_child krate parent_path child_id =
     (case hash_get (rc_index krate) child_id of
        None \<Rightarrow> None
      | Some child_item \<Rightarrow>
          if it_visibility child_item \<noteq> Public then None
          else (case it_name child_item of
              None \<Rightarrow> None
            | Some child_name \<Rightarrow>
                Some (resolve_use_target_id krate child_id, parent_path @ ''::'' @ child_name)))"

definition glob_offers :: "rustdoc_crate \<Rightarrow> item_id \<Rightarrow> use_item \<Rightarrow> (item_id \<times> string) list" where
  "glob_offers krate use_id u =
     (case us_id u of
        None \<Rightarrow> []
      | Some target_id \<Rightarrow>
     (case parent_path_of krate use_id of
        None \<Rightarrow> []
      | Some parent_path \<Rightarrow>
     (case hash_get (rc_index krate) target_id of
        None \<Rightarrow> []
      | Some target_item \<Rightarrow>
     (case it_inner target_item of
        Module items \<Rightarrow> List.map_filter (glob_child krate parent_path) items
      | _ \<Rightarrow> []))))"

definition named_offers :: "rustdoc_crate \<Rightarrow> (item_id \<Rightarrow> string option) \<Rightarrow> item_id \<Rightarrow> use_item \<Rightarrow> (item_id \<times> string) list" where
  "named_offers krate canonical use_id u =
     (case us_id u of
        None \<Rightarrow> []
      | Some target_id \<Rightarrow>
          (case canonical use_id of
             None \<Rightarrow> []
           | Some alias_path \<Rightarrow> [(resolve_use_target_id krate target_id, alias_path)]))"

definition use_offers :: "rustdoc_crate \<Rightarrow> (item_id \<Rightarrow> string option) \<Rightarrow> item_id \<times> item \<Rightarrow> (item_id \<times> string) list" where
  "use_offers krate canonical entry =
     (case it_inner (snd entry) of
        Use u \<Rightarrow>
          if it_visibility (snd entry) \<noteq> Public then []
          else if us_is_glob u then glob_offers krate (fst entry) u
          else named_offers krate canonical (fst entry) u
      | _ \<Rightarrow> [])"

text \<open>The \<open>entry(..).or_insert_with(..)\<close> followed by the comparison of ranks.\<close>

definition offer :: "item_id \<times> string \<Rightarrow> (item_id \<Rightarrow> string option) \<Rightarrow> (item_id \<Rightarrow> string option)" where
  "offer oc canonical =
     (case oc of (i, candidate) \<Rightarrow>
        (case canonical i of
           None \<Rightarrow> canonical(i \<mapsto> candidate)
         | Some entry \<Rightarrow> if path_rank candidate < path_rank entry then canonical(i \<mapsto> candidate) else canonical))"

definition process_use :: "rustdoc_crate \<Rightarrow> item_id \<times> item \<Rightarrow> (item_id \<Rightarrow> string option) \<Rightarrow> (item_id \<Rightarrow> string option)" where
  "process_use krate entry canonical = fold offer (use_offers krate canonical entry) canonical"

definition build_canonical_path_map :: "rustdoc_crate \<Rightarrow> item_id \<Rightarrow> string option" where
  "build_canonical_path_map krate = fold (process_use krate) (rc_index krate) (definition_paths krate)"

section \<open>The end of a re-export chain\<close>

definition use_rel :: "rustdoc_crate \<Rightarrow> (item_id \<times> item_id) set" where
  "use_rel krate = {(i, j). use_next krate i = Some j}"

lemma resolve_use_loop_end:
  assumes "acyclic (use_rel krate)" and "\<forall>s \<in> set seen. (s, current) \<in> (use_rel krate)\<^sup>+"
  shows "use_next krate (resolve_use_loop krate current seen) = None \<and>
    (current, resolve_use_loop krate current seen) \<in> (use_rel krate)\<^sup>*"
  using assms
proof (induction krate current seen rule: resolve_use_loop.induct)
  case (1 krate current seen)
  have fresh: "current \<notin> set seen" using 1(2,3) by (auto simp: acyclic_def)
  show ?case
  proof (cases "use_next krate current")
    case None
    then show ?thesis using fresh by (simp add: resolve_use_loop.simps [of krate current])
  next
    case (Some n)
    then have step: "(current, n) \<in> use_rel krate" by (simp add: use_rel_def)
    have "\<forall>s \<in> set (current # seen). (s, n) \<in> (use_rel krate)\<^sup>+"
      using step 1(3) by (auto intro: trancl_into_trancl)
    from 1(1) [OF fresh Some 1(2) this] step show ?thesis
      using fresh Some by (auto simp: resolve_use_loop.simps [of krate current] intro: converse_rtrancl_into_rtrancl)
  qed
qed

lemma resolve_use_target_end:
  "acyclic (use_rel krate) \<Longrightarrow> use_next krate (resolve_use_target_id krate i) = None"
  unfolding resolve_use_target_id_def by (rule conjunct1 [OF resolve_use_loop_end]) auto

section \<open>The least candidate\<close>

lemma path_rank_inj: "path_rank a = path_rank b \<longleftrightarrow> a = b"
  by (auto simp: path_rank_def)

text \<open>The re-exports of a document, each as the item it names and the path it gives.\<close>

definition reexports :: "rustdoc_crate \<Rightarrow> (item_id \<times> string) list" where
  "reexports krate = concat (map (use_offers krate (definition_paths krate)) (rc_index krate))"

definition path_candidates :: "rustdoc_crate \<Rightarrow> item_id \<Rightarrow> string set" where
  "path_candidates krate i = {c. definition_paths krate i = Some c \<or> (i, c) \<in> set (reexports krate)}"

definition least_path :: "string set \<Rightarrow> string option \<Rightarrow> bool" where
  "least_path C r \<longleftrightarrow>
     (case r of None \<Rightarrow> C = {} | Some c \<Rightarrow> c \<in> C \<and> (\<forall>d \<in> C. path_rank c \<le> path_rank d))"

lemma least_path_unique: "least_path C r \<Longrightarrow> least_path C r' \<Longrightarrow> r = r'"
  by (cases r; cases r') (force simp: least_path_def path_rank_inj [symmetric] intro: order_antisym)+

lemma offer_least:
  assumes "\<And>i. least_path (C i) (m i)"
  shows "least_path (if i = fst oc then insert (snd oc) (C i) else C i) (offer oc m i)"
  using assms [of i]
  by (cases oc; cases "m i")
    (auto simp: offer_def least_path_def not_less split: option.splits intro: order.trans less_imp_le)

lemma fold_offer_least:
  assumes "\<And>i. least_path (C i) (m i)"
  shows "least_path (C i \<union> {c. (i, c) \<in> set os}) (fold offer os m i)"
  using assms
proof (induction os arbitrary: C m)
  case (Cons oc os)
  let ?C = "\<lambda>i. if i = fst oc then insert (snd oc) (C i) else C i"
  have "least_path (?C i \<union> {c. (i, c) \<in> set os}) (fold offer os (offer oc m) i)"
    by (rule Cons.IH) (rule offer_least, rule Cons.prems)
  also have "?C i \<union> {c. (i, c) \<in> set os} = C i \<union> {c. (i, c) \<in> set (oc # os)}" by (cases oc) auto
  finally show ?case by simp
qed simp

text \<open>No offer changes the path of a re-export itself, so that the order of processing does not matter.\<close>

lemma offers_end:
  assumes "acyclic (use_rel krate)" and "(i, c) \<in> set (use_offers krate m e)"
  shows "use_next krate i = None"
  using assms resolve_use_target_end [OF assms(1)]
  by (auto simp: use_offers_def glob_offers_def named_offers_def glob_child_def set_map_filter
      split: item_enum.splits option.splits if_splits)

lemma fold_offer_other: "\<forall>(i, c) \<in> set os. i \<noteq> j \<Longrightarrow> fold offer os m j = m j"
  by (induction os arbitrary: m) (auto simp: offer_def split: option.splits)

lemma use_offers_base:
  assumes "\<And>j. use_next krate j \<noteq> None \<Longrightarrow> m j = definition_paths krate j"
    and "distinct (map fst (rc_index krate))" and "e \<in> set (rc_index krate)"
  shows "use_offers krate m e = use_offers krate (definition_paths krate) e"
proof -
  have "use_next krate (fst e) = us_id u" if "it_inner (snd e) = Use u" for u
    using assms(2,3) that by (cases e) (simp add: use_next_def hash_get_def map_of_is_SomeI)
  then show ?thesis
    using assms(1) [of "fst e"] by (auto simp: use_offers_def named_offers_def split: item_enum.splits option.splits)
qed

lemma fold_process_use:
  assumes "acyclic (use_rel krate)" and "distinct (map fst (rc_index krate))" and "set es \<subseteq> set (rc_index krate)"
    and "\<And>j. use_next krate j \<noteq> None \<Longrightarrow> m j = definition_paths krate j"
  shows "fold (process_use krate) es m = fold offer (concat (map (use_offers krate (definition_paths krate)) es)) m"
  using assms(3,4)
proof (induction es arbitrary: m)
  case (Cons e es)
  have e: "use_offers krate m e = use_offers krate (definition_paths krate) e"
    by (rule use_offers_base [OF _ assms(2)]) (use Cons.prems in auto)
  have "fold offer (use_offers krate (definition_paths krate) e) m j = definition_paths krate j"
    if j: "use_next krate j \<noteq> None" for j
    using Cons.prems(2) [OF j] offers_end [OF assms(1), of _ _ _ e] j by (subst fold_offer_other) auto
  then show ?case using Cons.IH [of "fold offer (use_offers krate (definition_paths krate) e) m"] Cons.prems(1)
    by (simp add: process_use_def e)
qed simp

lemma canonical_least:
  assumes "document_ok krate" and "acyclic (use_rel krate)"
  shows "least_path (path_candidates krate i) (build_canonical_path_map krate i)"
proof -
  have "build_canonical_path_map krate = fold offer (reexports krate) (definition_paths krate)"
    unfolding build_canonical_path_map_def reexports_def
    by (rule fold_process_use [OF assms(2)]) (use assms(1) in \<open>auto simp: document_ok_def\<close>)
  moreover have "least_path ({c. definition_paths krate i = Some c} \<union> {c. (i, c) \<in> set (reexports krate)})
      (fold offer (reexports krate) (definition_paths krate) i)"
    by (rule fold_offer_least) (auto simp: least_path_def split: option.split)
  moreover have "{c. definition_paths krate i = Some c} \<union> {c. (i, c) \<in> set (reexports krate)} = path_candidates krate i"
    by (auto simp: path_candidates_def)
  ultimately show ?thesis by simp
qed


definition one_parent :: "rustdoc_crate \<Rightarrow> bool" where
  "one_parent krate \<longleftrightarrow>
     (\<forall>(i, p) \<in> set (concat (map (module_children krate) (rc_index krate))).
        \<forall>(j, q) \<in> set (concat (map (module_children krate) (rc_index krate))). i = j \<longrightarrow> p = q)"

text \<open>Two hash maps with the same entries.\<close>

definition same_document :: "rustdoc_crate \<Rightarrow> rustdoc_crate \<Rightarrow> bool" where
  "same_document k1 k2 \<longleftrightarrow> set (rc_index k1) = set (rc_index k2) \<and> set (rc_paths k1) = set (rc_paths k2)"

lemma map_of_functional:
  assumes "set xs = set ys" and "\<forall>(i, p) \<in> set xs. \<forall>(j, q) \<in> set xs. i = j \<longrightarrow> p = q"
  shows "map_of xs = map_of ys"
proof
  fix i
  have unique: "p = q" if "(i, p) \<in> set xs" "(i, q) \<in> set xs" for p q
    using assms(2) that by fastforce
  show "map_of xs i = map_of ys i"
  proof (cases "map_of xs i")
    case None
    then show ?thesis by (metis assms(1) map_of_eq_None_iff)
  next
    case (Some p)
    then have "(i, p) \<in> set xs" by (rule map_of_SomeD)
    then have "i \<in> fst ` set ys" unfolding assms(1) [symmetric] by (rule rev_image_eqI) simp
    then obtain q where q: "map_of ys i = Some q"
      by (cases "map_of ys i") (auto simp: map_of_eq_None_iff)
    then have "(i, q) \<in> set xs" using assms(1) by (auto dest: map_of_SomeD)
    with \<open>(i, p) \<in> set xs\<close> unique Some q show ?thesis by metis
  qed
qed

lemma distinct_functional:
  "distinct (map fst xs) \<Longrightarrow> \<forall>(i, p) \<in> set xs. \<forall>(j, q) \<in> set xs. i = j \<longrightarrow> p = q"
  by (auto dest: eq_key_imp_eq_value)

lemma resolve_use_loop_cong:
  "use_next k1 = use_next k2 \<Longrightarrow> resolve_use_loop k1 i seen = resolve_use_loop k2 i seen"
proof (induction k1 i seen rule: resolve_use_loop.induct)
  case (1 k1 i seen)
  then show ?case by (simp add: resolve_use_loop.simps [of _ i] split: option.split)
qed

lemma same_document_cong:
  assumes "document_ok k1" "document_ok k2" "same_document k1 k2"
  shows "hash_get (rc_index k1) = hash_get (rc_index k2)" and "definition_paths k1 = definition_paths k2"
    and "use_next k1 = use_next k2" and "resolve_use_target_id k1 = resolve_use_target_id k2"
    and "module_children k1 = module_children k2"
proof -
  show index: "hash_get (rc_index k1) = hash_get (rc_index k2)"
    unfolding hash_get_def [abs_def]
    using assms by (intro map_of_functional distinct_functional) (auto simp: document_ok_def same_document_def)
  have "map_of (rc_paths k1) = map_of (rc_paths k2)"
    using assms by (intro map_of_functional distinct_functional) (auto simp: document_ok_def same_document_def)
  then show paths: "definition_paths k1 = definition_paths k2"
    by (simp add: definition_paths_def map_of_map)
  show "use_next k1 = use_next k2" using index by (simp add: use_next_def fun_eq_iff)
  from resolve_use_loop_cong [OF this] show "resolve_use_target_id k1 = resolve_use_target_id k2"
    by (simp add: resolve_use_target_id_def fun_eq_iff)
  show "module_children k1 = module_children k2"
    unfolding module_children_def [abs_def] paths ..
qed

lemma path_candidates_cong:
  assumes "document_ok k1" "document_ok k2" "same_document k1 k2" "one_parent k1"
  shows "path_candidates k1 i = path_candidates k2 i"
proof -
  note cong = same_document_cong [OF assms(1-3)]
  have parents: "parent_path_of k1 = parent_path_of k2"
    unfolding parent_path_of_def
    by (rule map_of_functional) (use assms(3,4) cong(5) in \<open>auto simp: same_document_def one_parent_def\<close>)
  have "use_offers k1 (definition_paths k1) = use_offers k2 (definition_paths k2)"
    unfolding use_offers_def [abs_def] glob_offers_def named_offers_def glob_child_def [abs_def] parents cong(1,2,4) ..
  then show ?thesis using assms(3) cong(2) by (simp add: path_candidates_def reexports_def same_document_def)
qed


section \<open>A concrete document\<close>

text \<open>
  A root module (1) with a private module (2) that declares a struct (3), a named re-export of it
  at the root (4) and a glob re-export of the module (5).
\<close>

definition sample_item :: "string option \<Rightarrow> rustdoc_visibility \<Rightarrow> item_enum \<Rightarrow> item" where
  "sample_item name visibility inner = \<lparr>it_name = name, it_visibility = visibility, it_span = Some (7, 9), it_docs = None,
     it_attrs = [], it_deprecation = None, it_inner = inner\<rparr>"

definition sample_generics :: generics where
  "sample_generics = \<lparr>gn_params = [], gn_where_predicates = []\<rparr>"

definition sample_entries :: "(item_id \<times> item) list" where
  "sample_entries =
     [(1, sample_item (Some ''demo'') Public (Module [2, 4, 5])),
      (2, sample_item (Some ''inner'') Default (Module [3])),
      (3, sample_item (Some ''Thing'') Public (Struct \<lparr>st_kind = UnitStruct, st_generics = sample_generics, st_impls = []\<rparr>)),
      (4, sample_item None Public (Use \<lparr>us_id = Some 3, us_is_glob = False\<rparr>)),
      (5, sample_item None Public (Use \<lparr>us_id = Some 2, us_is_glob = True\<rparr>))]"

definition sample_document :: "((item_id \<times> item) list \<Rightarrow> (item_id \<times> item) list) \<Rightarrow> rustdoc_crate" where
  "sample_document order = \<lparr>rc_root = 1, rc_index = order sample_entries,
     rc_paths = [(1, [''demo'']), (2, [''demo'', ''inner'']), (3, [''demo'', ''inner'', ''Thing'']), (4, [''demo'', ''T''])]\<rparr>"

lemma sample_document_ok: "document_ok (sample_document id)" "document_ok (sample_document rev)"
  by (simp_all add: document_ok_def sample_document_def sample_entries_def)

lemma sample_document_use_rel: "use_rel (sample_document id) \<subseteq> {(4, 3), (5, 2)}"
proof
  fix e assume e: "e \<in> use_rel (sample_document id)"
  obtain i j where ij: "e = (i, j)" by (cases e)
  with e have next_eq: "use_next (sample_document id) i = Some j" by (simp add: use_rel_def)
  then show "e \<in> {(4, 3), (5, 2)}"
    unfolding ij
    by (auto simp: use_next_def hash_get_def sample_document_def sample_entries_def sample_item_def split: if_splits)
qed

lemma sample_document_acyclic: "acyclic (use_rel (sample_document id))"
proof (rule acyclic_subset [OF _ sample_document_use_rel])
  have "{(4, 3), (5, 2)}\<inverse> \<subseteq> measure (unat :: item_id \<Rightarrow> nat)" by auto
  then have "acyclic ({(4, 3), (5, 2)}\<inverse> :: (item_id \<times> item_id) set)"
    by (rule wf_acyclic [OF wf_subset [OF wf_measure]])
  then show "acyclic ({(4, 3), (5, 2)} :: (item_id \<times> item_id) set)" by (simp only: acyclic_converse)
qed



end
