(* ===== verification/Index_Rows.thy ===== *)
theory Index_Rows
  imports Text_Utils
begin

text \<open>
  The symbol index (\<open>db/indexing.rs\<close>, \<open>db/models.rs\<close>): the tables \<open>source_files\<close>, \<open>symbols\<close>,
  \<open>crate_types\<close>, \<open>crate_impls\<close> and \<open>crate_traits\<close>, and the transactions that replace the rows of a
  source file or of a crate version.  The unique indexes of the migrations are part of the model: an
  insert that violates one fails and the transaction is rolled back.  Row ids of the four index
  tables and the \<open>indexed_at\<close> stamps are not modelled.
\<close>

section \<open>Rows\<close>

record indexed_symbol_insert =
  sy_name :: string
  sy_kind :: string
  sy_visibility :: "string option"
  sy_signature :: "string option"
  sy_start_line :: int
  sy_end_line :: int
  sy_rustdoc_item_id :: "int option"
  sy_canonical_path :: "string option"
  sy_definition_path :: "string option"
  sy_deprecated_since :: "string option"
  sy_deprecated_note :: "string option"
  sy_docs :: "string option"
  sy_attrs :: "json option"

record indexed_type_insert =
  ty_type_name :: string
  ty_kind :: string
  ty_visibility :: "string option"
  ty_generic_params :: json
  ty_fields :: json
  ty_variants :: json
  ty_start_line :: int
  ty_end_line :: int
  ty_rustdoc_item_id :: "int option"
  ty_canonical_path :: "string option"
  ty_definition_path :: "string option"
  ty_deprecated_since :: "string option"
  ty_deprecated_note :: "string option"
  ty_is_non_exhaustive :: bool
  ty_auto_traits :: json
  ty_where_clauses :: json
  ty_docs :: "string option"
  ty_attrs :: "json option"

record indexed_impl_insert =
  ii_type_name :: string
  ii_type_name_display :: "string option"
  ii_trait_name :: "string option"
  ii_trait_name_display :: "string option"
  ii_impl_kind :: string
  ii_methods :: json
  ii_start_line :: int
  ii_end_line :: int
  ii_rustdoc_item_id :: "int option"
  ii_is_blanket :: bool
  ii_is_synthetic :: bool
  ii_is_negative :: bool
  ii_blanket_type :: "string option"
  ii_generics :: json
  ii_where_clauses :: json
  ii_docs :: "string option"

record indexed_trait_insert =
  ti_trait_name :: string
  ti_is_auto :: bool
  ti_is_unsafe :: bool
  ti_is_dyn_compatible :: bool
  ti_supertraits :: json
  ti_required_methods :: json
  ti_provided_methods :: json
  ti_associated_types :: json
  ti_generics :: json
  ti_rustdoc_item_id :: "int option"
  ti_docs :: "string option"

record indexed_extraction_batch =
  eb_symbols :: "indexed_symbol_insert list"
  eb_types :: "indexed_type_insert list"
  eb_impls :: "indexed_impl_insert list"
  eb_traits :: "indexed_trait_insert list"

record indexed_write_counts =
  wc_symbols :: nat
  wc_types :: nat
  wc_impls :: nat
  wc_traits :: nat

text \<open>A stored row is the inserted value with the crate version, the source file and the index source.\<close>

record 'a index_row =
  ir_crate_version_id :: nat
  ir_source_file_id :: nat
  ir_index_source :: string
  ir_value :: 'a

record source_file_row =
  sf_id :: nat
  sf_crate_version_id :: nat
  sf_path :: string
  sf_sha256 :: string
  sf_file_size :: nat
  sf_language :: "string option"

record index_tables =
  ix_files :: "source_file_row list"
  ix_next_file_id :: nat
  ix_symbols :: "indexed_symbol_insert index_row list"
  ix_types :: "indexed_type_insert index_row list"
  ix_impls :: "indexed_impl_insert index_row list"
  ix_traits :: "indexed_trait_insert index_row list"

section \<open>Source files\<close>

definition upsert_source_file_unconditional ::
  "nat \<Rightarrow> string \<Rightarrow> string \<Rightarrow> nat \<Rightarrow> string option \<Rightarrow> index_tables \<Rightarrow> nat \<times> index_tables" where
  "upsert_source_file_unconditional crate_version_id path sha256 file_size language db =
     (case find (\<lambda>f. sf_crate_version_id f = crate_version_id \<and> sf_path f = path) (ix_files db) of
        Some f \<Rightarrow>
          (sf_id f, db\<lparr>ix_files := map (\<lambda>g. if sf_crate_version_id g = crate_version_id \<and> sf_path g = path
                           then g\<lparr>sf_sha256 := sha256, sf_file_size := file_size, sf_language := language\<rparr> else g) (ix_files db),
                       ix_next_file_id := ix_next_file_id db + 1\<rparr>)
      | None \<Rightarrow>
          (ix_next_file_id db,
           db\<lparr>ix_files := ix_files db @ [\<lparr>sf_id = ix_next_file_id db, sf_crate_version_id = crate_version_id, sf_path = path,
                 sf_sha256 = sha256, sf_file_size = file_size, sf_language = language\<rparr>],
              ix_next_file_id := ix_next_file_id db + 1\<rparr>))"

definition fetch_source_file_id_optional :: "index_tables \<Rightarrow> nat \<Rightarrow> string \<Rightarrow> nat option" where
  "fetch_source_file_id_optional db crate_version_id path =
     map_option sf_id (find (\<lambda>f. sf_crate_version_id f = crate_version_id \<and> sf_path f = path) (ix_files db))"

definition count_source_file_index_rows :: "index_tables \<Rightarrow> nat \<Rightarrow> nat" where
  "count_source_file_index_rows db source_file_id =
     length (filter (\<lambda>r. ir_source_file_id r = source_file_id) (ix_symbols db)) +
     length (filter (\<lambda>r. ir_source_file_id r = source_file_id) (ix_types db)) +
     length (filter (\<lambda>r. ir_source_file_id r = source_file_id) (ix_impls db))"

section \<open>Clearing and inserting\<close>

definition clear_source_file_index_rows :: "nat \<Rightarrow> index_tables \<Rightarrow> index_tables" where
  "clear_source_file_index_rows source_file_id db =
     db\<lparr>ix_symbols := filter (\<lambda>r. ir_source_file_id r \<noteq> source_file_id) (ix_symbols db),
        ix_types := filter (\<lambda>r. ir_source_file_id r \<noteq> source_file_id) (ix_types db),
        ix_impls := filter (\<lambda>r. ir_source_file_id r \<noteq> source_file_id) (ix_impls db)\<rparr>"

definition indexed_from :: "nat \<Rightarrow> string \<Rightarrow> 'a index_row \<Rightarrow> bool" where
  "indexed_from crate_version_id index_source r \<longleftrightarrow>
     ir_crate_version_id r = crate_version_id \<and> ir_index_source r = index_source"

definition clear_crate_version_index_rows :: "nat \<Rightarrow> string \<Rightarrow> index_tables \<Rightarrow> index_tables" where
  "clear_crate_version_index_rows crate_version_id index_source db =
     db\<lparr>ix_symbols := filter (\<lambda>r. \<not> indexed_from crate_version_id index_source r) (ix_symbols db),
        ix_types := filter (\<lambda>r. \<not> indexed_from crate_version_id index_source r) (ix_types db),
        ix_impls := filter (\<lambda>r. \<not> indexed_from crate_version_id index_source r) (ix_impls db),
        ix_traits := filter (\<lambda>r. \<not> indexed_from crate_version_id index_source r) (ix_traits db)\<rparr>"

definition index_row :: "nat \<Rightarrow> nat \<Rightarrow> string \<Rightarrow> 'a \<Rightarrow> 'a index_row" where
  "index_row crate_version_id source_file_id index_source x =
     \<lparr>ir_crate_version_id = crate_version_id, ir_source_file_id = source_file_id, ir_index_source = index_source, ir_value = x\<rparr>"

text \<open>
  The partial unique indexes on \<open>(crate_version_id, rustdoc_item_id)\<close>, which constrain the rows
  with \<open>index_source = 'rustdoc_json'\<close> and an item id.
\<close>

definition rustdoc_key :: "('a \<Rightarrow> int option) \<Rightarrow> 'a index_row \<Rightarrow> (nat \<times> int) option" where
  "rustdoc_key item_id_of r =
     (if ir_index_source r = ''rustdoc_json'' then map_option (Pair (ir_crate_version_id r)) (item_id_of (ir_value r)) else None)"

definition clashes :: "('r \<Rightarrow> 'k option) \<Rightarrow> 'r \<Rightarrow> 'r list \<Rightarrow> bool" where
  "clashes key r rows \<longleftrightarrow> key r \<noteq> None \<and> list_ex (\<lambda>s. key s = key r) rows"

definition unique_violation :: string where
  "unique_violation = ''duplicate key value violates unique constraint''"

fun insert_unique :: "('r \<Rightarrow> 'k option) \<Rightarrow> 'r list \<Rightarrow> 'r list \<Rightarrow> 'r list result" where
  "insert_unique key [] rows = Inr rows"
| "insert_unique key (r # rs) rows =
     (if clashes key r rows then Inl unique_violation else insert_unique key rs (rows @ [r]))"

text \<open>
  \<open>crate_types\<close> also has the partial unique index \<open>crate_types_syn_uniq\<close> on the rows of other
  sources, on which the insert does nothing.
\<close>

definition syn_key :: "indexed_type_insert index_row \<Rightarrow> (nat \<times> nat \<times> string \<times> string) option" where
  "syn_key r = (if ir_index_source r \<noteq> ''rustdoc_json''
     then Some (ir_crate_version_id r, ir_source_file_id r, ty_type_name (ir_value r), ty_kind (ir_value r)) else None)"

fun insert_types :: "indexed_type_insert index_row list \<Rightarrow> indexed_type_insert index_row list \<Rightarrow> indexed_type_insert index_row list result" where
  "insert_types [] rows = Inr rows"
| "insert_types (r # rs) rows =
     (if clashes syn_key r rows then insert_types rs rows
      else if clashes (rustdoc_key ty_rustdoc_item_id) r rows then Inl unique_violation
      else insert_types rs (rows @ [r]))"

text \<open>\<open>crate_traits\<close> has a further constraint on \<open>(crate_version_id, rustdoc_item_id, index_source)\<close>.\<close>

definition trait_key :: "indexed_trait_insert index_row \<Rightarrow> (nat \<times> int \<times> string) option" where
  "trait_key r = map_option (\<lambda>i. (ir_crate_version_id r, i, ir_index_source r)) (ti_rustdoc_item_id (ir_value r))"

definition insert_indexed_extraction_batch ::
  "nat \<Rightarrow> nat \<Rightarrow> string \<Rightarrow> indexed_extraction_batch \<Rightarrow> index_tables \<Rightarrow> (indexed_write_counts \<times> index_tables) result" where
  "insert_indexed_extraction_batch crate_version_id source_file_id index_source extraction db =
     res_bind (insert_unique (rustdoc_key sy_rustdoc_item_id)
                 (map (index_row crate_version_id source_file_id index_source) (eb_symbols extraction)) (ix_symbols db)) (\<lambda>symbols.
     res_bind (insert_types
                 (map (index_row crate_version_id source_file_id index_source) (eb_types extraction)) (ix_types db)) (\<lambda>types.
     res_bind (insert_unique (rustdoc_key ii_rustdoc_item_id)
                 (map (index_row crate_version_id source_file_id index_source) (eb_impls extraction)) (ix_impls db)) (\<lambda>impls.
     res_bind (insert_unique trait_key
                 (map (index_row crate_version_id source_file_id index_source) (eb_traits extraction)) (ix_traits db)) (\<lambda>traits.
       Inr (\<lparr>wc_symbols = length (eb_symbols extraction), wc_types = length (eb_types extraction),
             wc_impls = length (eb_impls extraction), wc_traits = length (eb_traits extraction)\<rparr>,
            db\<lparr>ix_symbols := symbols, ix_types := types, ix_impls := impls, ix_traits := traits\<rparr>)))))"

definition replace_source_file_index_rows ::
  "nat \<Rightarrow> nat \<Rightarrow> string \<Rightarrow> indexed_extraction_batch \<Rightarrow> index_tables \<Rightarrow> indexed_write_counts result \<times> index_tables" where
  "replace_source_file_index_rows crate_version_id source_file_id index_source extraction db =
     (case insert_indexed_extraction_batch crate_version_id source_file_id index_source extraction
             (clear_source_file_index_rows source_file_id db) of
        Inl e \<Rightarrow> (Inl e, db)
      | Inr (counts, db') \<Rightarrow> (Inr counts, db'))"

definition replace_crate_version_index_rows ::
  "nat \<Rightarrow> nat \<Rightarrow> string \<Rightarrow> indexed_extraction_batch \<Rightarrow> index_tables \<Rightarrow> indexed_write_counts result \<times> index_tables" where
  "replace_crate_version_index_rows crate_version_id source_file_id index_source extraction db =
     (case insert_indexed_extraction_batch crate_version_id source_file_id index_source extraction
             (clear_crate_version_index_rows crate_version_id index_source db) of
        Inl e \<Rightarrow> (Inl e, db)
      | Inr (counts, db') \<Rightarrow> (Inr counts, db'))"

section \<open>Tables under a partial unique index\<close>

definition unique_rows :: "('r \<Rightarrow> 'k option) \<Rightarrow> 'r list \<Rightarrow> bool" where
  "unique_rows key rows \<longleftrightarrow> distinct (List.map_filter key rows)"

text \<open>
  What an insert into a table with a unique index promises: it fails exactly when a key would
  occur twice, and otherwise appends the rows.
\<close>

locale unique_insert =
  fixes key :: "'r \<Rightarrow> 'k option" and insert_all :: "'r list \<Rightarrow> 'r list \<Rightarrow> 'r list result"
  assumes insert_Nil: "insert_all [] rows = Inr rows"
    and insert_Cons: "insert_all (r # rs) rows =
      (if key r \<noteq> None \<and> key r \<in> key ` set rows then Inl unique_violation else insert_all rs (rows @ [r]))"
begin

lemma insert_ok: "unique_rows key (rows @ rs) \<Longrightarrow> insert_all rs rows = Inr (rows @ rs)"
proof (induction rs arbitrary: rows)
  case Nil
  then show ?case by (simp add: insert_Nil)
next
  case (Cons r rs)
  have "key r = None \<or> key r \<notin> key ` set rows"
    using Cons.prems by (cases "key r") (force simp: unique_rows_def map_filter_def image_iff)+
  then show ?case using Cons.IH [of "rows @ [r]"] Cons.prems by (auto simp: insert_Cons)
qed

lemma insert_unique_rows:
  "insert_all rs rows = Inr rows' \<Longrightarrow> unique_rows key rows \<Longrightarrow> unique_rows key rows' \<and> rows' = rows @ rs"
proof (induction rs arbitrary: rows)
  case Nil
  then show ?case by (simp add: insert_Nil)
next
  case (Cons r rs)
  then have fresh: "key r = None \<or> key r \<notin> key ` set rows" and rest: "insert_all rs (rows @ [r]) = Inr rows'"
    by (auto simp: insert_Cons split: if_splits)
  have "unique_rows key (rows @ [r])"
    using fresh Cons.prems(2) by (cases "key r") (force simp: unique_rows_def map_filter_def image_iff)+
  from Cons.IH [OF rest this] show ?case by auto
qed

end

lemma clashes_iff: "clashes key r rows \<longleftrightarrow> key r \<noteq> None \<and> key r \<in> key ` set rows"
  unfolding clashes_def list_ex_iff image_iff by metis

interpretation symbols_table: unique_insert "rustdoc_key sy_rustdoc_item_id" "insert_unique (rustdoc_key sy_rustdoc_item_id)"
  by unfold_locales (simp_all add: clashes_iff)

interpretation impls_table: unique_insert "rustdoc_key ii_rustdoc_item_id" "insert_unique (rustdoc_key ii_rustdoc_item_id)"
  by unfold_locales (simp_all add: clashes_iff)

interpretation traits_table: unique_insert trait_key "insert_unique trait_key"
  by unfold_locales (simp_all add: clashes_iff)

section \<open>The invariant of the tables\<close>

definition file_key :: "source_file_row \<Rightarrow> nat \<times> string" where
  "file_key f = (sf_crate_version_id f, sf_path f)"

definition index_inv :: "index_tables \<Rightarrow> bool" where
  "index_inv db \<longleftrightarrow>
     unique_rows (rustdoc_key sy_rustdoc_item_id) (ix_symbols db) \<and>
     unique_rows (rustdoc_key ty_rustdoc_item_id) (ix_types db) \<and> unique_rows syn_key (ix_types db) \<and>
     unique_rows (rustdoc_key ii_rustdoc_item_id) (ix_impls db) \<and> unique_rows trait_key (ix_traits db) \<and>
     distinct (map file_key (ix_files db)) \<and> distinct (map sf_id (ix_files db)) \<and>
     list_all (\<lambda>f. sf_id f < ix_next_file_id db) (ix_files db)"

lemma unique_rows_filter: "unique_rows key rows \<Longrightarrow> unique_rows key (filter P rows)"
  by (induction rows) (auto simp: unique_rows_def map_filter_def split: option.splits if_splits)

lemma unique_rows_append:
  "unique_rows key (xs @ ys) \<longleftrightarrow> unique_rows key xs \<and> unique_rows key ys \<and>
     set (List.map_filter key xs) \<inter> set (List.map_filter key ys) = {}"
  by (simp add: unique_rows_def map_filter_def)

lemma unique_rows_snoc:
  "unique_rows key (rows @ [r]) \<longleftrightarrow> unique_rows key rows \<and> \<not> clashes key r rows"
proof (cases "key r")
  case None
  then show ?thesis by (simp add: unique_rows_append clashes_def) (simp add: unique_rows_def map_filter_def)
next
  case (Some k)
  have "k \<in> set (List.map_filter key rows) \<longleftrightarrow> clashes key r rows"
    using Some by (auto simp: clashes_def list_ex_iff set_map_filter)
  moreover have "List.map_filter key [r] = [k]" using Some by (simp add: map_filter_def)
  ultimately show ?thesis by (simp add: unique_rows_append) (simp add: unique_rows_def)
qed

lemma insert_types_unique:
  "insert_types rs rows = Inr rows' \<Longrightarrow> unique_rows (rustdoc_key ty_rustdoc_item_id) rows \<and> unique_rows syn_key rows \<Longrightarrow>
   unique_rows (rustdoc_key ty_rustdoc_item_id) rows' \<and> unique_rows syn_key rows'"
proof (induction rs rows rule: insert_types.induct)
  case (2 r rs rows)
  then show ?case by (simp add: unique_rows_snoc split: if_splits)
qed simp

lemma insert_batch_inv:
  assumes "insert_indexed_extraction_batch v f s batch db = Inr (counts, db')" and "index_inv db"
  shows "index_inv db'"
proof -
  obtain symbols types impls traits where rows:
    "insert_unique (rustdoc_key sy_rustdoc_item_id) (map (index_row v f s) (eb_symbols batch)) (ix_symbols db) = Inr symbols"
    "insert_types (map (index_row v f s) (eb_types batch)) (ix_types db) = Inr types"
    "insert_unique (rustdoc_key ii_rustdoc_item_id) (map (index_row v f s) (eb_impls batch)) (ix_impls db) = Inr impls"
    "insert_unique trait_key (map (index_row v f s) (eb_traits batch)) (ix_traits db) = Inr traits"
    "db' = db\<lparr>ix_symbols := symbols, ix_types := types, ix_impls := impls, ix_traits := traits\<rparr>"
    using assms(1) by (auto simp: insert_indexed_extraction_batch_def res_bind_Inr_iff)
  from assms(2) symbols_table.insert_unique_rows [OF rows(1)] insert_types_unique [OF rows(2)]
    impls_table.insert_unique_rows [OF rows(3)] traits_table.insert_unique_rows [OF rows(4)]
  show ?thesis by (auto simp: index_inv_def rows(5))
qed

lemma clear_inv:
  "index_inv db \<Longrightarrow> index_inv (clear_source_file_index_rows i db)"
  "index_inv db \<Longrightarrow> index_inv (clear_crate_version_index_rows v s db)"
  by (simp_all add: index_inv_def clear_source_file_index_rows_def clear_crate_version_index_rows_def unique_rows_filter)

lemma upsert_file_inv:
  assumes "index_inv db"
  shows "index_inv (snd (upsert_source_file_unconditional v path sha file_size lang db))"
proof (cases "find (\<lambda>f. sf_crate_version_id f = v \<and> sf_path f = path) (ix_files db)")
  case None
  then have "(v, path) \<notin> file_key ` set (ix_files db)"
    by (auto simp: find_None_iff file_key_def)
  then have "distinct (map file_key (ix_files db) @ [(v, path)])"
    using assms by (simp add: index_inv_def)
  then show ?thesis using assms None
    by (auto simp: upsert_source_file_unconditional_def index_inv_def file_key_def list_all_iff)
next
  case (Some f)
  have same: "map file_key (map (\<lambda>g. if P g then g\<lparr>sf_sha256 := a, sf_file_size := b, sf_language := c\<rparr> else g) fs) = map file_key fs"
    "map sf_id (map (\<lambda>g. if P g then g\<lparr>sf_sha256 := a, sf_file_size := b, sf_language := c\<rparr> else g) fs) = map sf_id fs" for P a b c fs
    by (auto simp: file_key_def)
  show ?thesis using assms Some
    by (simp add: upsert_source_file_unconditional_def index_inv_def same list_all_iff del: map_map)
      (auto simp: less_Suc_eq)
qed


definition empty_index :: index_tables where
  "empty_index = \<lparr>ix_files = [], ix_next_file_id = 1, ix_symbols = [], ix_types = [], ix_impls = [], ix_traits = []\<rparr>"

lemma empty_index_inv: "index_inv empty_index"
  by (simp add: empty_index_def index_inv_def unique_rows_def map_filter_def)


section \<open>Replacing the rows of a crate version\<close>

lemma insert_types_rustdoc:
  "\<forall>r \<in> set rs. ir_index_source r = ''rustdoc_json'' \<Longrightarrow>
   insert_types rs rows = insert_unique (rustdoc_key ty_rustdoc_item_id) rs rows"
  by (induction rs arbitrary: rows) (auto simp: clashes_def syn_key_def)

interpretation types_table: unique_insert "rustdoc_key ty_rustdoc_item_id" "insert_unique (rustdoc_key ty_rustdoc_item_id)"
  by unfold_locales (simp_all add: clashes_iff)

text \<open>Rows with distinct item ids do not clash with the rows that the clearing left.\<close>

lemma unique_after_clear:
  assumes "unique_rows key rows" and "distinct (List.map_filter item_id_of xs)"
    and "\<And>x. key (mk x) = map_option g (item_id_of x)" and "inj g"
    and "\<And>r x. P r \<Longrightarrow> key r \<noteq> None \<Longrightarrow> key (mk x) \<noteq> key r"
  shows "unique_rows key (filter P rows @ map mk xs)"
proof -
  have new: "List.map_filter key (map mk xs) = map g (List.map_filter item_id_of xs)"
    by (induction xs) (auto simp: map_filter_def assms(3))
  have "set (List.map_filter key (filter P rows)) \<inter> set (List.map_filter key (map mk xs)) = {}"
    using assms(5) by (force simp: set_map_filter)
  moreover have "distinct (map g (List.map_filter item_id_of xs))"
    using assms(2,4) by (simp add: distinct_map inj_on_def)
  ultimately show ?thesis
    using unique_rows_filter [OF assms(1), of P] new by (simp add: unique_rows_append) (simp add: unique_rows_def)
qed

definition batch_ids_distinct :: "indexed_extraction_batch \<Rightarrow> bool" where
  "batch_ids_distinct batch \<longleftrightarrow>
     distinct (List.map_filter sy_rustdoc_item_id (eb_symbols batch)) \<and> distinct (List.map_filter ty_rustdoc_item_id (eb_types batch)) \<and>
     distinct (List.map_filter ii_rustdoc_item_id (eb_impls batch)) \<and> distinct (List.map_filter ti_rustdoc_item_id (eb_traits batch))"

definition replaced :: "nat \<Rightarrow> nat \<Rightarrow> string \<Rightarrow> 'a list \<Rightarrow> 'a index_row list \<Rightarrow> 'a index_row list" where
  "replaced v f s xs rows = filter (\<lambda>r. \<not> indexed_from v s r) rows @ map (index_row v f s) xs"

lemma unique_replaced:
  assumes "unique_rows (rustdoc_key item_id_of) rows" and "distinct (List.map_filter item_id_of xs)"
  shows "unique_rows (rustdoc_key item_id_of) (replaced v f ''rustdoc_json'' xs rows)"
  unfolding replaced_def
  by (rule unique_after_clear [OF assms, where g = "Pair v"])
    (auto simp: rustdoc_key_def index_row_def indexed_from_def inj_def split: if_splits)

lemma unique_replaced_traits:
  assumes "unique_rows trait_key rows" and "distinct (List.map_filter ti_rustdoc_item_id xs)"
  shows "unique_rows trait_key (replaced v f s xs rows)"
  unfolding replaced_def
  by (rule unique_after_clear [OF assms, where g = "\<lambda>i. (v, i, s)"])
    (auto simp: trait_key_def index_row_def indexed_from_def inj_def)

lemma replace_crate_version_exact:
  assumes "index_inv db" and "batch_ids_distinct batch"
  shows "replace_crate_version_index_rows v f ''rustdoc_json'' batch db =
    (Inr \<lparr>wc_symbols = length (eb_symbols batch), wc_types = length (eb_types batch),
          wc_impls = length (eb_impls batch), wc_traits = length (eb_traits batch)\<rparr>,
     db\<lparr>ix_symbols := replaced v f ''rustdoc_json'' (eb_symbols batch) (ix_symbols db),
        ix_types := replaced v f ''rustdoc_json'' (eb_types batch) (ix_types db),
        ix_impls := replaced v f ''rustdoc_json'' (eb_impls batch) (ix_impls db),
        ix_traits := replaced v f ''rustdoc_json'' (eb_traits batch) (ix_traits db)\<rparr>)"
proof -
  let ?row = "index_row v f ''rustdoc_json''" and ?old = "\<lambda>rows. filter (\<lambda>r. \<not> indexed_from v ''rustdoc_json'' r) rows"
  have u: "unique_rows (rustdoc_key sy_rustdoc_item_id) (?old (ix_symbols db) @ map ?row (eb_symbols batch))"
    "unique_rows (rustdoc_key ty_rustdoc_item_id) (?old (ix_types db) @ map ?row (eb_types batch))"
    "unique_rows (rustdoc_key ii_rustdoc_item_id) (?old (ix_impls db) @ map ?row (eb_impls batch))"
    "unique_rows trait_key (?old (ix_traits db) @ map ?row (eb_traits batch))"
    using assms
    by (auto intro!: unique_replaced [unfolded replaced_def] unique_replaced_traits [unfolded replaced_def]
        simp: index_inv_def batch_ids_distinct_def)
  have types: "insert_types (map ?row (eb_types batch)) (?old (ix_types db)) = Inr (?old (ix_types db) @ map ?row (eb_types batch))"
    by (subst insert_types_rustdoc) (simp add: index_row_def, rule types_table.insert_ok [OF u(2)])
  show ?thesis
    using symbols_table.insert_ok [OF u(1)] types impls_table.insert_ok [OF u(3)] traits_table.insert_ok [OF u(4)]
    by (simp add: replace_crate_version_index_rows_def insert_indexed_extraction_batch_def clear_crate_version_index_rows_def
        replaced_def)
qed

end
