(* ===== verification/Rustdoc_Extract.thy ===== *)
theory Rustdoc_Extract
  imports Rustdoc_Paths Index_Rows
begin

text \<open>
  Extraction of index rows from a rustdoc JSON document (\<open>mcp/indexing/rustdoc_json.rs\<close>): symbols,
  types, impls and traits, with their JSON columns.  A small schema language for JSON values states
  what the columns contain.
\<close>

section \<open>JSON columns\<close>

definition generic_param_kind_str :: "generic_param_kind \<Rightarrow> string" where
  "generic_param_kind_str kind =
     (case kind of LifetimeParam _ \<Rightarrow> ''lifetime'' | TypeParam _ _ _ \<Rightarrow> ''type'' | ConstParam _ _ \<Rightarrow> ''const'')"

definition serialize_generic_params :: "generic_param_def list \<Rightarrow> json" where
  "serialize_generic_params params =
     JArray (map (\<lambda>p. json_obj [(''name'', JString (gp_name p)), (''kind'', JString (generic_param_kind_str (gp_kind p))),
       (''rendered'', JString (render_generic_param p))]) params)"

definition serialize_where_predicates :: "where_predicate list \<Rightarrow> json" where
  "serialize_where_predicates preds = json_strings (map render_where_predicate preds)"

definition field_json :: "json \<Rightarrow> item \<Rightarrow> json option" where
  "field_json name field_item =
     (case it_inner field_item of
        StructField ty \<Rightarrow>
          Some (json_obj [(''name'', name), (''type'', JString (render_type ty)),
                          (''visibility'', json_opt (visibility_string (it_visibility field_item)))])
      | _ \<Rightarrow> None)"

definition resolve_field :: "rustdoc_crate \<Rightarrow> item_id \<Rightarrow> json option" where
  "resolve_field krate field_id =
     Option.bind (hash_get (rc_index krate) field_id) (\<lambda>field_item. field_json (json_opt (it_name field_item)) field_item)"

definition resolve_fields :: "rustdoc_crate \<Rightarrow> item_id list \<Rightarrow> json" where
  "resolve_fields krate field_ids = JArray (List.map_filter (resolve_field krate) field_ids)"

definition resolve_tuple_field :: "rustdoc_crate \<Rightarrow> nat \<times> item_id option \<Rightarrow> json option" where
  "resolve_tuple_field krate entry =
     Option.bind (snd entry) (\<lambda>field_id.
     Option.bind (hash_get (rc_index krate) field_id) (\<lambda>field_item.
       field_json (JString (show_nat (fst entry))) field_item))"

definition resolve_tuple_fields :: "rustdoc_crate \<Rightarrow> item_id option list \<Rightarrow> json" where
  "resolve_tuple_fields krate field_ids =
     JArray (List.map_filter (resolve_tuple_field krate) (enumerate 0 field_ids))"

fun variant_kind_str :: "variant_kind \<Rightarrow> string" where
  "variant_kind_str PlainVariant = ''plain''"
| "variant_kind_str (TupleVariant _) = ''tuple''"
| "variant_kind_str (StructVariant _) = ''struct''"

definition auto_trait :: "rustdoc_crate \<Rightarrow> item_id \<Rightarrow> string option" where
  "auto_trait krate impl_id =
     Option.bind (hash_get (rc_index krate) impl_id) (\<lambda>impl_item.
       case it_inner impl_item of
         Impl imp \<Rightarrow> if im_is_synthetic imp then map_option (terminal_segment \<circ> path_text) (im_trait imp) else None
       | _ \<Rightarrow> None)"

definition collect_auto_traits :: "rustdoc_crate \<Rightarrow> item_id list \<Rightarrow> json" where
  "collect_auto_traits krate impl_ids = json_strings (sort_dedup (List.map_filter (auto_trait krate) impl_ids))"

section \<open>Symbols\<close>

definition canonical_or_definition :: "rustdoc_crate \<Rightarrow> (item_id \<Rightarrow> string option) \<Rightarrow> item_id \<Rightarrow> string option" where
  "canonical_or_definition krate canonical_paths i =
     (case canonical_paths i of Some p \<Rightarrow> Some p | None \<Rightarrow> resolve_definition_path krate i)"

definition symbol_of ::
  "rustdoc_crate \<Rightarrow> (item_id \<Rightarrow> string option) \<Rightarrow> item_id \<times> item \<Rightarrow> indexed_symbol_insert option" where
  "symbol_of krate canonical_paths entry =
     (let (i, item) = entry
      in case it_name item of
           None \<Rightarrow> None
         | Some name \<Rightarrow>
             (let trimmed = trim name; kind = item_enum_to_kind (it_inner item)
              in if trimmed = [] \<or> kind \<in> {''module'', ''use'', ''extern_crate''} then None
                 else Some \<lparr>sy_name = trimmed, sy_kind = kind, sy_visibility = visibility_string (it_visibility item),
                   sy_signature = build_signature item, sy_start_line = fst (extract_span (it_span item)),
                   sy_end_line = snd (extract_span (it_span item)), sy_rustdoc_item_id = Some (as_i32 i),
                   sy_canonical_path = canonical_or_definition krate canonical_paths i,
                   sy_definition_path = resolve_definition_path krate i,
                   sy_deprecated_since = Option.bind (it_deprecation item) dp_since,
                   sy_deprecated_note = Option.bind (it_deprecation item) dp_note,
                   sy_docs = it_docs item, sy_attrs = serialize_attrs (it_attrs item)\<rparr>))"

definition extract_symbols :: "rustdoc_crate \<Rightarrow> (item_id \<Rightarrow> string option) \<Rightarrow> indexed_symbol_insert list" where
  "extract_symbols krate canonical_paths = List.map_filter (symbol_of krate canonical_paths) (rc_index krate)"

section \<open>Types\<close>

text \<open>The columns that the four kinds of types share.\<close>

definition type_row ::
  "rustdoc_crate \<Rightarrow> (item_id \<Rightarrow> string option) \<Rightarrow> item_id \<Rightarrow> item \<Rightarrow> string \<Rightarrow> generics \<Rightarrow> json \<Rightarrow> json \<Rightarrow> bool \<Rightarrow> json \<Rightarrow>
   indexed_type_insert" where
  "type_row krate canonical_paths i item kind g field_list variants non_exhaustive auto_traits =
     \<lparr>ty_type_name = unwrap_or (it_name item) [], ty_kind = kind, ty_visibility = visibility_string (it_visibility item),
      ty_generic_params = serialize_generic_params (gn_params g), ty_fields = field_list, ty_variants = variants,
      ty_start_line = fst (extract_span (it_span item)), ty_end_line = snd (extract_span (it_span item)),
      ty_rustdoc_item_id = Some (as_i32 i), ty_canonical_path = canonical_or_definition krate canonical_paths i,
      ty_definition_path = resolve_definition_path krate i, ty_deprecated_since = Option.bind (it_deprecation item) dp_since,
      ty_deprecated_note = Option.bind (it_deprecation item) dp_note, ty_is_non_exhaustive = non_exhaustive,
      ty_auto_traits = auto_traits, ty_where_clauses = serialize_where_predicates (gn_where_predicates g),
      ty_docs = it_docs item, ty_attrs = serialize_attrs (it_attrs item)\<rparr>"

definition extract_struct ::
  "rustdoc_crate \<Rightarrow> (item_id \<Rightarrow> string option) \<Rightarrow> item_id \<Rightarrow> item \<Rightarrow> struct_item \<Rightarrow> indexed_type_insert" where
  "extract_struct krate canonical_paths i item s =
     type_row krate canonical_paths i item ''struct'' (st_generics s)
       (case st_kind s of
          PlainStruct field_list \<Rightarrow> resolve_fields krate field_list
        | TupleStruct field_ids \<Rightarrow> resolve_tuple_fields krate field_ids
        | UnitStruct \<Rightarrow> JArray [])
       (JArray []) (has_non_exhaustive item) (collect_auto_traits krate (st_impls s))"

definition variant_json :: "rustdoc_crate \<Rightarrow> item_id \<Rightarrow> json option" where
  "variant_json krate variant_id =
     Option.bind (hash_get (rc_index krate) variant_id) (\<lambda>variant_item.
     Option.bind (it_name variant_item) (\<lambda>variant_name.
       case it_inner variant_item of
         Variant v \<Rightarrow>
           Some (json_obj [(''name'', JString variant_name), (''kind'', JString (variant_kind_str (va_kind v))),
             (''fields'', (case va_kind v of
                PlainVariant \<Rightarrow> JArray []
              | TupleVariant field_ids \<Rightarrow> resolve_tuple_fields krate field_ids
              | StructVariant field_list \<Rightarrow> resolve_fields krate field_list)),
             (''discriminant'', json_opt (va_discriminant v))])
       | _ \<Rightarrow> None))"

definition extract_enum ::
  "rustdoc_crate \<Rightarrow> (item_id \<Rightarrow> string option) \<Rightarrow> item_id \<Rightarrow> item \<Rightarrow> enum_item \<Rightarrow> indexed_type_insert" where
  "extract_enum krate canonical_paths i item e =
     type_row krate canonical_paths i item ''enum'' (en_generics e) (JArray [])
       (JArray (List.map_filter (variant_json krate) (en_variants e)))
       (has_non_exhaustive item) (collect_auto_traits krate (en_impls e))"

definition extract_union ::
  "rustdoc_crate \<Rightarrow> (item_id \<Rightarrow> string option) \<Rightarrow> item_id \<Rightarrow> item \<Rightarrow> union_item \<Rightarrow> indexed_type_insert" where
  "extract_union krate canonical_paths i item u =
     type_row krate canonical_paths i item ''union'' (un_generics u) (resolve_fields krate (un_fields u)) (JArray [])
       (has_non_exhaustive item) (collect_auto_traits krate (un_impls u))"

definition extract_type_alias ::
  "rustdoc_crate \<Rightarrow> (item_id \<Rightarrow> string option) \<Rightarrow> item_id \<Rightarrow> item \<Rightarrow> generics \<Rightarrow> indexed_type_insert" where
  "extract_type_alias krate canonical_paths i item g =
     type_row krate canonical_paths i item ''type_alias'' g (JArray []) (JArray []) False (JArray [])"

definition type_of ::
  "rustdoc_crate \<Rightarrow> (item_id \<Rightarrow> string option) \<Rightarrow> item_id \<times> item \<Rightarrow> indexed_type_insert option" where
  "type_of krate canonical_paths entry =
     (let (i, item) = entry
      in case it_inner item of
           Struct s \<Rightarrow> Some (extract_struct krate canonical_paths i item s)
         | Enum e \<Rightarrow> Some (extract_enum krate canonical_paths i item e)
         | Union u \<Rightarrow> Some (extract_union krate canonical_paths i item u)
         | TypeAlias g ty \<Rightarrow> Some (extract_type_alias krate canonical_paths i item g)
         | _ \<Rightarrow> None)"

definition extract_types :: "rustdoc_crate \<Rightarrow> (item_id \<Rightarrow> string option) \<Rightarrow> indexed_type_insert list" where
  "extract_types krate canonical_paths = List.map_filter (type_of krate canonical_paths) (rc_index krate)"

section \<open>Impls\<close>

definition classify_impl_kind :: "impl_item \<Rightarrow> item \<Rightarrow> string" where
  "classify_impl_kind imp item =
     (if im_trait imp = None then ''inherent''
      else if im_is_synthetic imp then ''synthetic''
      else if im_blanket imp \<noteq> None then ''blanket''
      else if list_ex (\<lambda>a. a = AutomaticallyDerived) (it_attrs item) then ''derive''
      else ''trait'')"

fun sig_inputs :: "function_signature \<Rightarrow> (string \<times> rustdoc_type) list" where
  "sig_inputs (FunctionSignature inputs output) = inputs"

fun sig_output :: "function_signature \<Rightarrow> rustdoc_type option" where
  "sig_output (FunctionSignature inputs output) = output"

definition has_self :: "function_signature \<Rightarrow> bool" where
  "has_self sig = (case sig_inputs sig of [] \<Rightarrow> False | (name, _) # _ \<Rightarrow> name = ''self'')"

definition impl_method :: "rustdoc_crate \<Rightarrow> item_id \<Rightarrow> json option" where
  "impl_method krate method_id =
     Option.bind (hash_get (rc_index krate) method_id) (\<lambda>method_item.
       case it_inner method_item of
         Function func \<Rightarrow>
           map_option (\<lambda>method_name.
             json_obj [(''name'', JString method_name),
               (''signature'', JString (''fn '' @ method_name @ render_fn_signature (fn_sig func))),
               (''has_self'', JBool (has_self (fn_sig func))),
               (''is_const'', JBool (fn_is_const func)), (''is_async'', JBool (fn_is_async func)),
               (''is_unsafe'', JBool (fn_is_unsafe func)),
               (''params'', JArray (map (\<lambda>(name, ty). json_obj [(''name'', JString name), (''type'', JString (render_type ty))])
                  (sig_inputs (fn_sig func)))),
               (''return_type'', json_opt (map_option render_type (sig_output (fn_sig func)))),
               (''visibility'', json_opt (visibility_string (it_visibility method_item)))]) (it_name method_item)
       | _ \<Rightarrow> None)"

definition extract_impl_methods :: "rustdoc_crate \<Rightarrow> item_id list \<Rightarrow> json" where
  "extract_impl_methods krate item_ids = JArray (List.map_filter (impl_method krate) item_ids)"

definition impl_of :: "rustdoc_crate \<Rightarrow> item_id \<times> item \<Rightarrow> indexed_impl_insert option" where
  "impl_of krate entry =
     (let (i, item) = entry
      in case it_inner item of
           Impl imp \<Rightarrow>
             Some \<lparr>ii_type_name = type_terminal_name (im_for imp), ii_type_name_display = Some (render_type (im_for imp)),
               ii_trait_name = map_option (terminal_segment \<circ> path_text) (im_trait imp),
               ii_trait_name_display = map_option render_path (im_trait imp),
               ii_impl_kind = classify_impl_kind imp item, ii_methods = extract_impl_methods krate (im_items imp),
               ii_start_line = fst (extract_span (it_span item)), ii_end_line = snd (extract_span (it_span item)),
               ii_rustdoc_item_id = Some (as_i32 i), ii_is_blanket = (im_blanket imp \<noteq> None),
               ii_is_synthetic = im_is_synthetic imp, ii_is_negative = im_is_negative imp,
               ii_blanket_type = map_option render_type (im_blanket imp),
               ii_generics = serialize_generic_params (gn_params (im_generics imp)),
               ii_where_clauses = serialize_where_predicates (gn_where_predicates (im_generics imp)),
               ii_docs = it_docs item\<rparr>
         | _ \<Rightarrow> None)"

definition extract_impls :: "rustdoc_crate \<Rightarrow> indexed_impl_insert list" where
  "extract_impls krate = List.map_filter (impl_of krate) (rc_index krate)"

section \<open>Traits\<close>

text \<open>The three vectors that \<open>partition_trait_items\<close> fills: required, provided, associated types.\<close>

definition trait_member ::
  "rustdoc_crate \<Rightarrow> item_id \<Rightarrow> json list \<times> json list \<times> json list \<Rightarrow> json list \<times> json list \<times> json list" where
  "trait_member krate member_id acc =
     (let (required, provided, assoc_types) = acc
      in case hash_get (rc_index krate) member_id of
           None \<Rightarrow> acc
         | Some item \<Rightarrow>
             (case it_name item of
                None \<Rightarrow> acc
              | Some name \<Rightarrow>
                  (case it_inner item of
                     Function func \<Rightarrow>
                       (let method_json = json_obj [(''name'', JString name),
                              (''signature'', JString (''fn '' @ name @ render_fn_signature (fn_sig func))),
                              (''is_unsafe'', JBool (fn_is_unsafe func)), (''is_const'', JBool (fn_is_const func)),
                              (''is_async'', JBool (fn_is_async func))]
                        in if fn_has_body func then (required, provided @ [method_json], assoc_types)
                           else (required @ [method_json], provided, assoc_types))
                   | AssocType bounds ty \<Rightarrow>
                       (required, provided, assoc_types @ [json_obj [(''name'', JString name),
                          (''bounds'', json_strings (map render_bound bounds)),
                          (''default'', json_opt (map_option render_type ty))]])
                   | AssocConst ty val \<Rightarrow>
                       (required @ [json_obj [(''name'', JString name),
                          (''signature'', JString (''const '' @ name @ '': '' @ render_type ty)),
                          (''kind'', JString ''assoc_const''), (''value'', json_opt val)]], provided, assoc_types)
                   | _ \<Rightarrow> acc)))"

definition partition_trait_items :: "rustdoc_crate \<Rightarrow> item_id list \<Rightarrow> json list \<times> json list \<times> json list" where
  "partition_trait_items krate item_ids = fold (trait_member krate) item_ids ([], [], [])"

definition trait_of :: "rustdoc_crate \<Rightarrow> item_id \<times> item \<Rightarrow> indexed_trait_insert option" where
  "trait_of krate entry =
     (let (i, item) = entry
      in case it_inner item of
           Trait t \<Rightarrow>
             map_option (\<lambda>name.
               let (required, provided, assoc_types) = partition_trait_items krate (tr_items t)
               in \<lparr>ti_trait_name = name, ti_is_auto = tr_is_auto t, ti_is_unsafe = tr_is_unsafe t,
                   ti_is_dyn_compatible = tr_is_dyn_compatible t, ti_supertraits = json_strings (map render_bound (tr_bounds t)),
                   ti_required_methods = JArray required, ti_provided_methods = JArray provided,
                   ti_associated_types = JArray assoc_types, ti_generics = serialize_generic_params (gn_params (tr_generics t)),
                   ti_rustdoc_item_id = Some (as_i32 i), ti_docs = it_docs item\<rparr>) (it_name item)
         | _ \<Rightarrow> None)"

definition extract_traits :: "rustdoc_crate \<Rightarrow> indexed_trait_insert list" where
  "extract_traits krate = List.map_filter (trait_of krate) (rc_index krate)"

definition extract_all :: "rustdoc_crate \<Rightarrow> indexed_extraction_batch" where
  "extract_all krate =
     (let canonical_paths = build_canonical_path_map krate
      in \<lparr>eb_symbols = extract_symbols krate canonical_paths, eb_types = extract_types krate canonical_paths,
          eb_impls = extract_impls krate, eb_traits = extract_traits krate\<rparr>)"

section \<open>Item ids are distinct\<close>

lemma as_i32_inj: "as_i32 (i :: item_id) = as_i32 j \<longleftrightarrow> i = j"
  by (auto simp: as_i32_def intro: signed_word_eqI)

text \<open>A row that carries the id of its item inherits the distinctness of the index.\<close>

lemma map_filter_ids_distinct:
  assumes "distinct (map fst xs)" and "\<And>e r. e \<in> set xs \<Longrightarrow> f e = Some r \<Longrightarrow> item_id_of r = Some (as_i32 (fst e :: item_id))"
  shows "distinct (List.map_filter item_id_of (List.map_filter f xs))"
  using assms
proof (induction xs)
  case (Cons e xs)
  show ?case
  proof (cases "f e")
    case None
    then show ?thesis using Cons by (simp add: map_filter_simps)
  next
    case (Some r)
    have "as_i32 (fst e) \<notin> set (List.map_filter item_id_of (List.map_filter f xs))"
    proof
      assume "as_i32 (fst e) \<in> set (List.map_filter item_id_of (List.map_filter f xs))"
      then obtain e' r' where e': "e' \<in> set xs" "f e' = Some r'" "item_id_of r' = Some (as_i32 (fst e))"
        by (auto simp: set_map_filter)
      then have "fst e' = fst e" using Cons.prems(2) [of e' r'] by (simp add: as_i32_inj)
      with e'(1) Cons.prems(1) show False by (auto intro: rev_image_eqI)
    qed
    moreover have "distinct (List.map_filter item_id_of (List.map_filter f xs))" using Cons.IH Cons.prems by simp
    moreover have "item_id_of r = Some (as_i32 (fst e))" using Cons.prems(2) [of e r] Some by simp
    ultimately show ?thesis using Some by (simp add: map_filter_simps)
  qed
qed (simp add: map_filter_simps)

lemma extract_all_ids_distinct:
  assumes "document_ok krate"
  shows "batch_ids_distinct (extract_all krate)"
proof -
  have d: "distinct (map fst (rc_index krate))" using assms by (simp add: document_ok_def)
  have "sy_rustdoc_item_id r = Some (as_i32 (fst e))" if "symbol_of krate canon e = Some r" for canon e r
    using that by (auto simp: symbol_of_def Let_def split: prod.splits option.splits if_splits)
  moreover have "ty_rustdoc_item_id r = Some (as_i32 (fst e))" if "type_of krate canon e = Some r" for canon e r
    using that by (auto simp: type_of_def Let_def extract_struct_def extract_enum_def extract_union_def extract_type_alias_def
        type_row_def split: prod.splits item_enum.splits)
  moreover have "ii_rustdoc_item_id r = Some (as_i32 (fst e))" if "impl_of krate e = Some r" for e r
    using that by (auto simp: impl_of_def Let_def split: prod.splits item_enum.splits)
  moreover have "ti_rustdoc_item_id r = Some (as_i32 (fst e))" if "trait_of krate e = Some r" for e r
    using that by (auto simp: trait_of_def Let_def case_prod_beta split: item_enum.splits)
  ultimately show ?thesis
    unfolding batch_ids_distinct_def extract_all_def Let_def extract_symbols_def extract_types_def extract_impls_def extract_traits_def
    by (simp add: map_filter_ids_distinct [OF d])
qed

section \<open>Schemas of the JSON columns\<close>

datatype schema =
    SString
  | SOptional schema
  | SBool
  | SEnum "string list"
  | SArray schema
  | SObject "(string \<times> schema) list"
  | SOneOf "schema list"

fun conforms :: "schema \<Rightarrow> json \<Rightarrow> bool" where
  "conforms SString j = (case j of JString _ \<Rightarrow> True | _ \<Rightarrow> False)"
| "conforms (SOptional s) j = (j = JNull \<or> conforms s j)"
| "conforms SBool j = (case j of JBool _ \<Rightarrow> True | _ \<Rightarrow> False)"
| "conforms (SEnum xs) j = (case j of JString s \<Rightarrow> s \<in> set xs | _ \<Rightarrow> False)"
| "conforms (SArray s) j = (case j of JArray js \<Rightarrow> list_all (conforms s) js | _ \<Rightarrow> False)"
| "conforms (SObject ms) j =
     (case j of
        JObject entries \<Rightarrow> map fst entries = map fst ms \<and> list_all (\<lambda>(k, s). case bt_get entries k of None \<Rightarrow> False | Some v \<Rightarrow> conforms s v) ms
      | _ \<Rightarrow> False)"
| "conforms (SOneOf ss) j = list_ex (\<lambda>s. conforms s j) ss"

text \<open>An object built by the \<open>json!\<close> macro has its keys in ascending order.\<close>

definition generic_param_schema :: schema where
  "generic_param_schema = SObject [(''kind'', SEnum [''lifetime'', ''type'', ''const'']), (''name'', SString), (''rendered'', SString)]"

definition field_schema :: schema where
  "field_schema = SObject [(''name'', SOptional SString), (''type'', SString), (''visibility'', SOptional SString)]"

definition variant_schema :: schema where
  "variant_schema = SObject [(''discriminant'', SOptional SString), (''fields'', SArray field_schema),
     (''kind'', SEnum [''plain'', ''tuple'', ''struct'']), (''name'', SString)]"

definition method_schema :: schema where
  "method_schema = SObject [(''has_self'', SBool), (''is_async'', SBool), (''is_const'', SBool), (''is_unsafe'', SBool),
     (''name'', SString), (''params'', SArray (SObject [(''name'', SString), (''type'', SString)])),
     (''return_type'', SOptional SString), (''signature'', SString), (''visibility'', SOptional SString)]"

definition trait_method_schema :: schema where
  "trait_method_schema = SObject [(''is_async'', SBool), (''is_const'', SBool), (''is_unsafe'', SBool),
     (''name'', SString), (''signature'', SString)]"

definition assoc_const_schema :: schema where
  "assoc_const_schema = SObject [(''kind'', SEnum [''assoc_const'']), (''name'', SString), (''signature'', SString),
     (''value'', SOptional SString)]"

definition assoc_type_schema :: schema where
  "assoc_type_schema = SObject [(''bounds'', SArray SString), (''default'', SOptional SString), (''name'', SString)]"

lemma conforms_simps [simp]:
  "conforms SString (JString x)" "conforms SBool (JBool b)" "conforms (SEnum xs) (JString x) \<longleftrightarrow> x \<in> set xs"
  "conforms (SOptional SString) (JString x)" "conforms (SArray s) (JArray js) \<longleftrightarrow> list_all (conforms s) js"
  "conforms (SObject ms) (JObject entries) \<longleftrightarrow> map fst entries = map fst ms \<and>
     list_all (\<lambda>(k, s). case bt_get entries k of None \<Rightarrow> False | Some v \<Rightarrow> conforms s v) ms"
  by simp_all

declare conforms.simps [simp del]

lemma conforms_opt [simp]: "conforms (SOptional SString) (json_opt v)"
  by (cases v) (simp_all add: json_opt_def conforms.simps(2))

lemma conforms_strings [simp]: "conforms (SArray SString) (json_strings xs)"
  by (simp add: json_strings_def list_all_iff)

lemma conforms_map_filter:
  "(\<And>x j. f x = Some j \<Longrightarrow> conforms s j) \<Longrightarrow> conforms (SArray s) (JArray (List.map_filter f xs))"
  by (auto simp: list_all_iff set_map_filter)

lemma conforms_generic_params: "conforms (SArray generic_param_schema) (serialize_generic_params ps)"
  by (auto simp: serialize_generic_params_def generic_param_schema_def generic_param_kind_str_def json_obj_def list_all_iff
      bt_get_def split: generic_param_kind.split)

lemma conforms_where: "conforms (SArray SString) (serialize_where_predicates ps)"
  by (simp add: serialize_where_predicates_def)

lemma conforms_field:
  "field_json name it = Some j \<Longrightarrow> conforms (SOptional SString) name \<Longrightarrow> conforms field_schema j"
  by (auto simp: field_json_def field_schema_def json_obj_def bt_get_def split: item_enum.splits)

lemma conforms_fields:
  "conforms (SArray field_schema) (resolve_fields krate ids)" "conforms (SArray field_schema) (resolve_tuple_fields krate tids)"
  unfolding resolve_fields_def resolve_tuple_fields_def
  by (rule conforms_map_filter; auto simp: resolve_field_def resolve_tuple_field_def bind_eq_Some_conv intro: conforms_field)+

lemma conforms_auto_traits: "conforms (SArray SString) (collect_auto_traits krate ids)"
  by (simp add: collect_auto_traits_def)

lemma conforms_variant:
  assumes "variant_json krate i = Some j"
  shows "conforms variant_schema j"
proof -
  obtain it name where it: "it_name it = Some name" "hash_get (rc_index krate) i = Some it"
    using assms by (auto simp: variant_json_def bind_eq_Some_conv)
  then obtain v where v: "it_inner it = Variant v"
    using assms by (cases "it_inner it") (simp_all add: variant_json_def)
  show ?thesis
    using assms it v
    by (cases "va_kind v") (auto simp: variant_json_def variant_schema_def json_obj_def bt_get_def conforms_fields)
qed

lemma conforms_method:
  assumes "impl_method krate i = Some j"
  shows "conforms method_schema j"
proof -
  obtain it where it: "hash_get (rc_index krate) i = Some it"
    using assms by (auto simp: impl_method_def bind_eq_Some_conv)
  then obtain f where f: "it_inner it = Function f"
    using assms by (cases "it_inner it") (simp_all add: impl_method_def)
  obtain name where "it_name it = Some name"
    using assms it f by (auto simp: impl_method_def)
  then show ?thesis using assms it f
    by (auto simp: impl_method_def method_schema_def json_obj_def bt_get_def list_all_iff)
qed

lemma conforms_trait_member:
  assumes "trait_member krate i (req, prov, assoc) = (req', prov', assoc')"
    and "conforms (SArray (SOneOf [trait_method_schema, assoc_const_schema])) (JArray req)"
    and "conforms (SArray trait_method_schema) (JArray prov)" and "conforms (SArray assoc_type_schema) (JArray assoc)"
  shows "conforms (SArray (SOneOf [trait_method_schema, assoc_const_schema])) (JArray req') \<and>
    conforms (SArray trait_method_schema) (JArray prov') \<and> conforms (SArray assoc_type_schema) (JArray assoc')"
proof (cases "hash_get (rc_index krate) i")
  case None
  then show ?thesis using assms by (simp add: trait_member_def)
next
  case (Some it)
  note schemas = trait_method_schema_def assoc_const_schema_def assoc_type_schema_def conforms.simps(7)
  show ?thesis
  proof (cases "it_name it")
    case None
    then show ?thesis using assms Some by (simp add: trait_member_def)
  next
    case (Some name)
    then show ?thesis using assms \<open>hash_get (rc_index krate) i = Some it\<close>
      by (cases "it_inner it") (auto simp: trait_member_def Let_def schemas json_obj_def bt_get_def split: if_splits)
  qed
qed

lemma conforms_trait_members:
  assumes "fold (trait_member krate) ids (req, prov, assoc) = (req', prov', assoc')"
    and "conforms (SArray (SOneOf [trait_method_schema, assoc_const_schema])) (JArray req)"
    and "conforms (SArray trait_method_schema) (JArray prov)" and "conforms (SArray assoc_type_schema) (JArray assoc)"
  shows "conforms (SArray (SOneOf [trait_method_schema, assoc_const_schema])) (JArray req') \<and>
    conforms (SArray trait_method_schema) (JArray prov') \<and> conforms (SArray assoc_type_schema) (JArray assoc')"
  using assms
proof (induction ids arbitrary: req prov assoc)
  case (Cons i ids)
  obtain r p a where step: "trait_member krate i (req, prov, assoc) = (r, p, a)" by (metis prod_cases3)
  note inv = conforms_trait_member [OF step Cons.prems(2-4)]
  show ?case
    by (rule Cons.IH [of r p a]) (use Cons.prems(1) step inv in auto)
qed auto

definition well_typed_type :: "indexed_type_insert \<Rightarrow> bool" where
  "well_typed_type r \<longleftrightarrow>
     ty_kind r \<in> {''struct'', ''enum'', ''union'', ''type_alias''} \<and>
     conforms (SArray generic_param_schema) (ty_generic_params r) \<and> conforms (SArray field_schema) (ty_fields r) \<and>
     conforms (SArray variant_schema) (ty_variants r) \<and> conforms (SArray SString) (ty_auto_traits r) \<and>
     conforms (SArray SString) (ty_where_clauses r)"

definition well_typed_impl :: "indexed_impl_insert \<Rightarrow> bool" where
  "well_typed_impl r \<longleftrightarrow>
     ii_impl_kind r \<in> {''inherent'', ''synthetic'', ''blanket'', ''derive'', ''trait''} \<and>
     (ii_impl_kind r = ''inherent'' \<longleftrightarrow> ii_trait_name r = None) \<and> (ii_is_blanket r \<longleftrightarrow> ii_blanket_type r \<noteq> None) \<and>
     conforms (SArray method_schema) (ii_methods r) \<and> conforms (SArray generic_param_schema) (ii_generics r) \<and>
     conforms (SArray SString) (ii_where_clauses r)"

definition well_typed_trait :: "indexed_trait_insert \<Rightarrow> bool" where
  "well_typed_trait r \<longleftrightarrow>
     conforms (SArray SString) (ti_supertraits r) \<and>
     conforms (SArray (SOneOf [trait_method_schema, assoc_const_schema])) (ti_required_methods r) \<and>
     conforms (SArray trait_method_schema) (ti_provided_methods r) \<and>
     conforms (SArray assoc_type_schema) (ti_associated_types r) \<and> conforms (SArray generic_param_schema) (ti_generics r)"

lemma type_of_well_typed:
  assumes "type_of krate canon e = Some r"
  shows "well_typed_type r"
proof -
  have nil: "conforms (SArray s) (JArray [])" for s by simp
  have row: "well_typed_type (type_row krate canon (fst e) (snd e) kind g fs vs b auto)"
    if "kind \<in> {''struct'', ''enum'', ''union'', ''type_alias''}" "conforms (SArray field_schema) fs"
      "conforms (SArray variant_schema) vs" "conforms (SArray SString) auto" for kind g fs vs b auto
    using that by (simp add: well_typed_type_def type_row_def conforms_generic_params conforms_where)
  have "conforms (SArray field_schema) (case k of PlainStruct fs \<Rightarrow> resolve_fields krate fs
      | TupleStruct ids \<Rightarrow> resolve_tuple_fields krate ids | UnitStruct \<Rightarrow> JArray [])" for k
    by (cases k) (simp_all add: conforms_fields)
  moreover have "conforms (SArray variant_schema) (JArray (List.map_filter (variant_json krate) ids))" for ids
    by (rule conforms_map_filter) (rule conforms_variant)
  ultimately show ?thesis
    using assms
    by (cases "it_inner (snd e)")
      (auto simp: type_of_def extract_struct_def extract_enum_def extract_union_def extract_type_alias_def case_prod_beta
        simp del: conforms_simps intro!: row conforms_fields conforms_auto_traits nil)
qed

lemma classify_impl_kind_values:
  "classify_impl_kind imp it = ''inherent'' \<or> classify_impl_kind imp it = ''synthetic'' \<or> classify_impl_kind imp it = ''blanket'' \<or>
   classify_impl_kind imp it = ''derive'' \<or> classify_impl_kind imp it = ''trait''"
  "classify_impl_kind imp it = ''inherent'' \<longleftrightarrow> im_trait imp = None"
  by (simp_all add: classify_impl_kind_def)

lemma impl_of_well_typed:
  assumes "impl_of krate e = Some r"
  shows "well_typed_impl r"
proof -
  have "conforms (SArray method_schema) (extract_impl_methods krate ids)" for ids
    unfolding extract_impl_methods_def by (rule conforms_map_filter) (rule conforms_method)
  moreover obtain imp where "it_inner (snd e) = Impl imp"
    using assms by (cases "it_inner (snd e)") (simp_all add: impl_of_def case_prod_beta)
  ultimately show ?thesis using assms classify_impl_kind_values [of imp "snd e"]
    by (auto simp: impl_of_def well_typed_impl_def conforms_generic_params conforms_where case_prod_beta
        simp del: conforms_simps)
qed

lemma trait_of_well_typed:
  assumes "trait_of krate e = Some r"
  shows "well_typed_trait r"
proof -
  obtain t where t: "it_inner (snd e) = Trait t"
    using assms by (cases "it_inner (snd e)") (simp_all add: trait_of_def case_prod_beta)
  obtain req prov assoc where parts: "partition_trait_items krate (tr_items t) = (req, prov, assoc)" by (metis prod_cases3)
  have "conforms (SArray (SOneOf [trait_method_schema, assoc_const_schema])) (JArray req) \<and>
    conforms (SArray trait_method_schema) (JArray prov) \<and> conforms (SArray assoc_type_schema) (JArray assoc)"
    by (rule conforms_trait_members [OF parts [unfolded partition_trait_items_def]]) simp_all
  then show ?thesis using assms t parts
    by (auto simp: trait_of_def case_prod_beta well_typed_trait_def conforms_generic_params simp del: conforms_simps)
qed


section \<open>Lines\<close>

lemma as_i32_small:
  assumes "unat (w :: 64 word) < 2 ^ 31"
  shows "as_i32 w = int (unat w)"
proof -
  have "unat (ucast w :: 32 word) = unat w" using assms by (simp add: unsigned_ucast_eq take_bit_nat_eq_self)
  then have "int (unat (ucast w :: 32 word)) = int (unat w)" by (rule arg_cong)
  then have "uint (ucast w :: 32 word) = int (unat w)" by simp
  moreover have "signed_take_bit 31 (int (unat w)) = int (unat w)"
  proof (rule signed_take_bit_int_eq_self)
    have "int (unat w) < int (2 ^ 31)" unfolding of_nat_less_iff by (rule assms)
    then show "int (unat w) < 2 ^ 31" by simp
    show "- (2 ^ 31) \<le> int (unat w)" by (rule order.trans [of _ 0]) simp_all
  qed
  ultimately show ?thesis by (simp add: as_i32_def sint_uint)
qed

text \<open>
  The line numbers of extracted rows: whatever the document says, the end is not before the start; and
  when its lines fit 31 bits the start is the first line, at least 1, and the end the last line or
  the start.  A line of \<open>2 ^ 31\<close> becomes negative.
\<close>

theorem extract_span_lines:
  "fst (extract_span span) \<le> snd (extract_span span) \<and>
   (\<forall>a b. span = Some (a, b) \<and> unat a < 2 ^ 31 \<and> unat b < 2 ^ 31 \<longrightarrow>
      extract_span span = (int (max (unat a) 1), int (max (unat b) (max (unat a) 1)))) \<and>
   extract_span (Some (2147483648, 0)) = (-2147483648, 0)"
proof (intro conjI allI impI)
  show "fst (extract_span span) \<le> snd (extract_span span)"
    by (auto simp: extract_span_def Let_def split: option.split prod.split)
next
  fix a b :: "64 word" assume span: "span = Some (a, b) \<and> unat a < 2 ^ 31 \<and> unat b < 2 ^ 31"
  have m: "unat (max a 1) = max (unat a) 1"
    by (auto simp: max_def word_le_nat_alt)
  then have "as_i32 (max a 1) = int (max (unat a) 1)" using span by (subst as_i32_small) auto
  moreover have "as_i32 b = int (unat b)" using span by (simp add: as_i32_small)
  ultimately show "extract_span span = (int (max (unat a) 1), int (max (unat b) (max (unat a) 1)))"
    using span by (simp add: extract_span_def Let_def of_nat_max)
next
  show "extract_span (Some (2147483648, 0)) = (-2147483648, 0)" by code_simp
qed

theorem extract_span_lines_witness: "extract_span (Some (7, 9)) = (7, 9)"
  using extract_span_lines [of "Some (7, 9)"] by simp

end
