(* ===== verification/Rustdoc_Sync.thy ===== *)
theory Rustdoc_Sync
  imports Crate_Store Limits Rustdoc_Extract Rustdoc_Files
begin

text \<open>
  The rustdoc synchronisation (\<open>sync_rustdoc_json_cache\<close> and \<open>ingest_rustdoc_json_document\<close> of
  \<open>mcp/indexing/rustdoc_json.rs\<close>): for every candidate version the document is fetched from docs.rs
  or read from the local directory, checked against the crate, and its rows replace the rustdoc rows of
  the version.  docs.rs, the file system, serde and the decompressors are arguments, as are the
  failures of the two writing statements.
\<close>

section \<open>Candidates and outcome\<close>

record rustdoc_sync_candidate =
  rs_crate_version_id :: nat
  rs_crate_name :: string
  rs_version :: string

record rustdoc_json_refresh_outcome =
  ro_scanned_files :: nat
  ro_synced_versions :: nat
  ro_symbols_written :: nat
  ro_types_written :: nat
  ro_impls_written :: nat
  ro_traits_written :: nat
  ro_touched_versions :: "string list"
  ro_errors :: "string list"

definition default_outcome :: rustdoc_json_refresh_outcome where
  "default_outcome = \<lparr>ro_scanned_files = 0, ro_synced_versions = 0, ro_symbols_written = 0, ro_types_written = 0,
     ro_impls_written = 0, ro_traits_written = 0, ro_touched_versions = [], ro_errors = []\<rparr>"

record local_rustdoc_file =
  lf_path :: path
  lf_crate_name :: string
  lf_crate_version :: "string option"

record rustdoc_env =
  re_now :: int
  re_serde :: serde_api
  re_codec :: codec_api
  re_fetch :: "string \<Rightarrow> string \<Rightarrow> string result"
  re_dir :: "(path \<times> fs_node option) option"
  re_read :: "path \<Rightarrow> string result"
  re_upsert_fails :: "nat \<Rightarrow> string option"
  re_replace_fails :: "nat \<Rightarrow> string option"

record rustdoc_state =
  rt_index :: index_tables
  rt_store :: crate_store

section \<open>Messages\<close>

definition format_rustdoc_parse_error :: "serde_api \<Rightarrow> rustdoc_sync_candidate \<Rightarrow> string \<Rightarrow> string \<Rightarrow> string \<Rightarrow> string" where
  "format_rustdoc_parse_error api candidate source_path content parse_error =
     (case extract_format_version api content of
        Some v \<Rightarrow> ''failed to parse rustdoc JSON payload for '' @ rs_crate_name candidate @ ''@'' @ rs_version candidate @ '' from '' @
          source_path @ '': '' @ parse_error @ '' (payload format_version='' @ show_nat v @ '', expected='' @
          show_nat (sa_format_version api) @ ''; verify rustdoc-types compatibility)''
      | None \<Rightarrow> ''failed to parse rustdoc JSON payload for '' @ rs_crate_name candidate @ ''@'' @ rs_version candidate @ '' from '' @
          source_path @ '': '' @ parse_error @ '' (payload is missing format_version; ensure this is rustdoc JSON output)'')"

definition diagnostic_hint_for_sync_error :: "string \<Rightarrow> string option" where
  "diagnostic_hint_for_sync_error error =
     (if contains ''RUSTDOC_JSON_DIR is not configured'' error then Some ''set RUSTDOC_JSON_DIR to enable local rustdoc fallback''
      else if contains ''rustdoc JSON directory not found'' error then Some ''verify RUSTDOC_JSON_DIR points to an existing directory''
      else if contains ''payload format_version='' error then Some ''re-generate rustdoc JSON with a compatible nightly / rustdoc-types format''
      else if contains ''crate mismatch'' error then Some ''ensure rustdoc file name and payload crate match the indexed crate version''
      else if contains ''could not be decoded'' error then Some ''confirm docs.rs payload is gzip/zstd-compressed rustdoc JSON''
      else if contains ''invalid UTF-8'' error then Some ''ensure local fallback files are UTF-8 JSON documents''
      else if contains ''no local rustdoc JSON file found'' error then Some ''add a matching <crate>-<version>.json file in RUSTDOC_JSON_DIR''
      else None)"

definition format_candidate_sync_failure :: "string \<Rightarrow> string \<Rightarrow> string list \<Rightarrow> string" where
  "format_candidate_sync_failure crate_name version source_errors =
     ''rustdoc JSON sync failed for '' @ crate_name @ ''@'' @ version @
     concat (map (\<lambda>(index, error). '' | attempt #'' @ show_nat (index + 1) @ '': '' @ error @
        (case diagnostic_hint_for_sync_error error of None \<Rightarrow> [] | Some hint \<Rightarrow> '' (hint: '' @ hint @ '')''))
       (enumerate 0 source_errors))"

section \<open>One document\<close>

definition parse_document :: "serde_api \<Rightarrow> string \<Rightarrow> rustdoc_crate result" where
  "parse_document api content =
     (case sa_crate api content of
        Inr krate \<Rightarrow> Inr krate
      | Inl error \<Rightarrow> (case try_compat_deserialize api content of Some patched \<Rightarrow> Inr patched | None \<Rightarrow> Inl error))"

definition underscore_to_dash :: "string \<Rightarrow> string" where
  "underscore_to_dash s = map (\<lambda>c. if c = CHR ''_'' then CHR ''-'' else c) s"

definition resolved_crate_name :: "rustdoc_crate \<Rightarrow> string \<Rightarrow> string" where
  "resolved_crate_name krate candidate_name =
     unwrap_or (Option.bind (hash_get (rc_index krate) (rc_root krate)) (\<lambda>item.
        Option.bind (it_name item) (\<lambda>n. if trim n = [] then None else Some (underscore_to_dash (trim n))))) candidate_name"

definition ingest_rustdoc_json_document ::
  "rustdoc_env \<Rightarrow> rustdoc_sync_candidate \<Rightarrow> string \<Rightarrow> string \<Rightarrow> rustdoc_json_refresh_outcome \<times> index_tables \<Rightarrow>
   unit result \<times> rustdoc_json_refresh_outcome \<times> index_tables" where
  "ingest_rustdoc_json_document env candidate source_path content s =
     (let (outcome, db) = s
      in case parse_document (re_serde env) content of
           Inl error \<Rightarrow> (Inl (format_rustdoc_parse_error (re_serde env) candidate source_path content error), outcome, db)
         | Inr krate \<Rightarrow>
     (let resolved = resolved_crate_name krate (rs_crate_name candidate)
      in if resolved \<noteq> rs_crate_name candidate
         then (Inl (''rustdoc JSON crate mismatch for '' @ rs_crate_name candidate @ ''@'' @ rs_version candidate @ '' from '' @
                 source_path @ '': payload resolved to crate '' @ [CHR 0x27] @ resolved @ [CHR 0x27]), outcome, db)
         else (case re_upsert_fails env (rs_crate_version_id candidate) of
             Some e \<Rightarrow> (Inl (''failed to upsert rustdoc source file '' @ source_path @ '' for '' @ rs_crate_name candidate @ ''@'' @
                            rs_version candidate @ '': '' @ e), outcome, db)
           | None \<Rightarrow>
               (let (source_file_id, db1) = upsert_source_file_unconditional (rs_crate_version_id candidate) source_path
                      (cd_sha256_hex (re_codec env) content) (length content) (Some ''rustdoc_json'') db;
                    (written, db2) = (case re_replace_fails env (rs_crate_version_id candidate) of
                        Some e \<Rightarrow> (Inl e, db1)
                      | None \<Rightarrow> replace_crate_version_index_rows (rs_crate_version_id candidate) source_file_id ''rustdoc_json''
                                  (extract_all krate) db1)
                in case written of
                     Inl e \<Rightarrow> (Inl (''failed to replace rustdoc extraction rows for '' @ rs_crate_name candidate @ ''@'' @
                                   rs_version candidate @ '': '' @ e), outcome, db2)
                   | Inr counts \<Rightarrow>
                       (Inr (),
                        outcome\<lparr>ro_symbols_written := ro_symbols_written outcome + wc_symbols counts,
                                ro_types_written := ro_types_written outcome + wc_types counts,
                                ro_impls_written := ro_impls_written outcome + wc_impls counts,
                                ro_traits_written := ro_traits_written outcome + wc_traits counts,
                                ro_synced_versions := ro_synced_versions outcome + 1,
                                ro_touched_versions := ro_touched_versions outcome @
                                  [rs_crate_name candidate @ ''@'' @ rs_version candidate]\<rparr>,
                        db2)))))"

section \<open>The local directory\<close>

definition local_file :: "('v, 'r) semver_api \<Rightarrow> string option \<Rightarrow> path \<Rightarrow> local_rustdoc_file option" where
  "local_file sv crate_filter p =
     Option.bind (rustdoc_logical_stem p) (\<lambda>stem.
       let (candidate_crate, candidate_version) = crate_from_stem sv stem
       in if candidate_crate = [] \<or> (case crate_filter of None \<Rightarrow> False | Some n \<Rightarrow> candidate_crate \<noteq> n) then None
          else Some \<lparr>lf_path = p, lf_crate_name = candidate_crate, lf_crate_version = candidate_version\<rparr>)"

definition local_fallback ::
  "('v, 'r) semver_api \<Rightarrow> rustdoc_env \<Rightarrow> string option \<Rightarrow> (path \<times> local_rustdoc_file list) result" where
  "local_fallback sv env crate_filter =
     (case re_dir env of
        None \<Rightarrow> Inl ''local rustdoc fallback unavailable: RUSTDOC_JSON_DIR is not configured''
      | Some (root_dir, None) \<Rightarrow>
          Inl (''local rustdoc fallback unavailable: rustdoc JSON directory not found: '' @ display_path root_dir)
      | Some (root_dir, Some node) \<Rightarrow>
          (case walk_json_files root_dir node of
             Inl e \<Rightarrow> Inl (''local rustdoc fallback unavailable: '' @ e)
           | Inr files \<Rightarrow> Inr (root_dir, sort_key lf_path (List.map_filter (local_file sv crate_filter) files))))"

definition find_local :: "rustdoc_sync_candidate \<Rightarrow> local_rustdoc_file list \<Rightarrow> local_rustdoc_file option" where
  "find_local candidate files =
     (case find (\<lambda>f. lf_crate_name f = rs_crate_name candidate \<and> lf_crate_version f = Some (rs_version candidate)) files of
        Some f \<Rightarrow> Some f
      | None \<Rightarrow> find (\<lambda>f. lf_crate_name f = rs_crate_name candidate \<and> lf_crate_version f = None) files)"

section \<open>One candidate\<close>

definition try_docs_rs ::
  "rustdoc_env \<Rightarrow> rustdoc_sync_candidate \<Rightarrow> rustdoc_json_refresh_outcome \<times> index_tables \<Rightarrow>
   unit result \<times> rustdoc_json_refresh_outcome \<times> index_tables" where
  "try_docs_rs env candidate s =
     (case re_fetch env (rs_crate_name candidate) (rs_version candidate) of
        Inl error \<Rightarrow> (Inl error, s)
      | Inr payload_bytes \<Rightarrow>
          (case decode_docs_rs_rustdoc_payload (re_codec env) payload_bytes of
             Inl error \<Rightarrow> (Inl (''docs.rs rustdoc JSON payload for '' @ rs_crate_name candidate @ ''@'' @ rs_version candidate @
                             '' could not be decoded: '' @ error), s)
           | Inr payload \<Rightarrow>
               ingest_rustdoc_json_document env candidate
                 (docs_rs_rustdoc_synthetic_path (rs_crate_name candidate) (rs_version candidate)) payload s))"

definition try_local ::
  "rustdoc_env \<Rightarrow> (path \<times> local_rustdoc_file list) result \<Rightarrow> rustdoc_sync_candidate \<Rightarrow> rustdoc_json_refresh_outcome \<times> index_tables \<Rightarrow>
   unit result \<times> rustdoc_json_refresh_outcome \<times> index_tables" where
  "try_local env fallback candidate s =
     (case fallback of
        Inl reason \<Rightarrow> (Inl reason, s)
      | Inr (root_dir, files) \<Rightarrow>
          (case find_local candidate files of
             None \<Rightarrow> (Inl (''no local rustdoc JSON file found for '' @ rs_crate_name candidate @ ''@'' @ rs_version candidate), s)
           | Some f \<Rightarrow>
               (case read_local_rustdoc_file (re_codec env) (re_read env) (lf_path f) of
                  Inl error \<Rightarrow> (Inl error, s)
                | Inr payload \<Rightarrow>
                    ingest_rustdoc_json_document env candidate (synthetic_rustdoc_path root_dir (lf_path f)) payload s)))"

definition sync_candidate ::
  "rustdoc_env \<Rightarrow> (path \<times> local_rustdoc_file list) result \<Rightarrow> rustdoc_sync_candidate \<Rightarrow>
   rustdoc_json_refresh_outcome \<times> rustdoc_state \<Rightarrow> rustdoc_json_refresh_outcome \<times> rustdoc_state" where
  "sync_candidate env fallback candidate s =
     (let (outcome, st) = s;
          outcome0 = outcome\<lparr>ro_scanned_files := ro_scanned_files outcome + 1\<rparr>;
          enriched = (\<lambda>db. st\<lparr>rt_index := db,
             rt_store := mark_version_rustdoc_enriched (rt_store st) (re_now env) (rs_crate_version_id candidate)\<rparr>)
      in case try_docs_rs env candidate (outcome0, rt_index st) of
           (Inr _, outcome1, db1) \<Rightarrow> (outcome1, enriched db1)
         | (Inl error1, outcome1, db1) \<Rightarrow>
             (case try_local env fallback candidate (outcome1, db1) of
                (Inr _, outcome2, db2) \<Rightarrow> (outcome2, enriched db2)
              | (Inl error2, outcome2, db2) \<Rightarrow>
                  (outcome2\<lparr>ro_errors := ro_errors outcome2 @
                      [format_candidate_sync_failure (rs_crate_name candidate) (rs_version candidate) [error1, error2]]\<rparr>,
                   st\<lparr>rt_index := db2,
                      rt_store := mark_version_rustdoc_attempted (rt_store st) (re_now env) (rs_crate_version_id candidate)\<rparr>)))"

section \<open>The synchronisation\<close>

definition candidate_row :: "crate_store \<Rightarrow> version_row \<Rightarrow> rustdoc_sync_candidate" where
  "candidate_row st v = \<lparr>rs_crate_version_id = cv_id v,
     rs_crate_name = (case crate_of st v of None \<Rightarrow> [] | Some c \<Rightarrow> cc_name c), rs_version = cv_version v\<rparr>"

text \<open>
  The comparison of the stable sort puts candidates whose version cannot be parsed first, by crate name,
  and the others after them, by descending version.
\<close>

definition order_candidates :: "('v::linorder, 'r) semver_api \<Rightarrow> rustdoc_sync_candidate list \<Rightarrow> rustdoc_sync_candidate list" where
  "order_candidates sv cs =
     sort_key rs_crate_name (filter (\<lambda>c. version_parse sv (rs_version c) = None) cs) @
     rev (sort_key (\<lambda>c. the (version_parse sv (rs_version c))) (rev (filter (\<lambda>c. version_parse sv (rs_version c) \<noteq> None) cs)))"

definition saturating_mul :: "'n::len word \<Rightarrow> 'n word \<Rightarrow> 'n word" where
  "saturating_mul a b = (if unat a * unat b < 2 ^ LENGTH('n) then a * b else - 1)"

definition sync_rustdoc_json_cache ::
  "('v::linorder, 'r) semver_api \<Rightarrow> rustdoc_env \<Rightarrow> rustdoc_candidate_filter \<Rightarrow> u32 option \<Rightarrow> u32 option \<Rightarrow> string option \<Rightarrow>
   rustdoc_state \<Rightarrow> rustdoc_json_refresh_outcome result \<times> rustdoc_state" where
  "sync_rustdoc_json_cache sv env candidate_filter page per_page fetch_fails st =
     (case (case rf_crate_name candidate_filter of
              None \<Rightarrow> Inr None
            | Some n \<Rightarrow> (case normalize_required n ''crate_name'' of Inl e \<Rightarrow> Inl e | Inr m \<Rightarrow> Inr (Some m))) of
        Inl e \<Rightarrow> (Inl e, st)
      | Inr crate_filter \<Rightarrow>
     (case fetch_fails of
        Some e \<Rightarrow> (Inl (''rustdoc JSON sync failed to load crate versions: '' @ e), st)
      | None \<Rightarrow>
          (let limit = sync_per_page per_page;
               offset = saturating_mul (saturating_sub (sync_page page) 1) limit;
               candidates = order_candidates sv (map (candidate_row (rt_store st))
                 (fetch_rustdoc_sync_candidates (rt_store st) (re_now env) (candidate_filter\<lparr>rf_crate_name := crate_filter\<rparr>)
                    (unat limit) (unat offset)));
               (outcome, st') = fold (sync_candidate env (local_fallback sv env crate_filter)) candidates (default_outcome, st)
           in (Inr (outcome\<lparr>ro_touched_versions := sort_dedup (ro_touched_versions outcome)\<rparr>), st'))))"

section \<open>What an accepted document leaves behind\<close>

text \<open>The keys of a deserialised \<open>HashMap\<close> are distinct.\<close>

definition documents_ok :: "serde_api \<Rightarrow> bool" where
  "documents_ok api \<longleftrightarrow>
     (\<forall>content krate. sa_crate api content = Inr krate \<longrightarrow> document_ok krate) \<and>
     (\<forall>j krate. sa_from_value api j = Some krate \<longrightarrow> document_ok krate)"

definition holds_document :: "index_tables \<Rightarrow> nat \<Rightarrow> rustdoc_crate \<Rightarrow> bool" where
  "holds_document db v krate \<longleftrightarrow>
     (\<exists>f. filter (indexed_from v ''rustdoc_json'') (ix_symbols db) = map (index_row v f ''rustdoc_json'') (eb_symbols (extract_all krate)) \<and>
          filter (indexed_from v ''rustdoc_json'') (ix_types db) = map (index_row v f ''rustdoc_json'') (eb_types (extract_all krate)) \<and>
          filter (indexed_from v ''rustdoc_json'') (ix_impls db) = map (index_row v f ''rustdoc_json'') (eb_impls (extract_all krate)) \<and>
          filter (indexed_from v ''rustdoc_json'') (ix_traits db) = map (index_row v f ''rustdoc_json'') (eb_traits (extract_all krate)))"

text \<open>The index rows outside the rustdoc rows of a version.\<close>

definition other_rows :: "nat \<Rightarrow> index_tables \<Rightarrow> indexed_symbol_insert index_row list \<times> indexed_type_insert index_row list \<times>
    indexed_impl_insert index_row list \<times> indexed_trait_insert index_row list" where
  "other_rows v db =
     (filter (\<lambda>r. \<not> indexed_from v ''rustdoc_json'' r) (ix_symbols db), filter (\<lambda>r. \<not> indexed_from v ''rustdoc_json'' r) (ix_types db),
      filter (\<lambda>r. \<not> indexed_from v ''rustdoc_json'' r) (ix_impls db), filter (\<lambda>r. \<not> indexed_from v ''rustdoc_json'' r) (ix_traits db))"

definition same_rows :: "index_tables \<Rightarrow> index_tables \<Rightarrow> bool" where
  "same_rows db db' \<longleftrightarrow> ix_symbols db' = ix_symbols db \<and> ix_types db' = ix_types db \<and> ix_impls db' = ix_impls db \<and>
     ix_traits db' = ix_traits db"

lemma filter_replaced:
  "filter (indexed_from v s) (replaced v f s xs rows) = map (index_row v f s) xs"
  "filter (\<lambda>r. \<not> indexed_from v s r) (replaced v f s xs rows) = filter (\<lambda>r. \<not> indexed_from v s r) rows"
  by (simp_all add: replaced_def filter_empty_conv o_def) (simp_all add: indexed_from_def index_row_def)

lemma upsert_file_rows: "same_rows db (snd (upsert_source_file_unconditional v path sha n lang db))"
  by (simp add: upsert_source_file_unconditional_def same_rows_def split: option.split)

lemma parse_document_ok:
  "documents_ok api \<Longrightarrow> parse_document api content = Inr krate \<Longrightarrow> document_ok krate"
  by (auto simp: documents_ok_def parse_document_def try_compat_deserialize_def bind_eq_Some_conv
      split: sum.splits option.splits if_splits)

definition accepted :: "rustdoc_env \<Rightarrow> rustdoc_sync_candidate \<Rightarrow> rustdoc_crate \<Rightarrow> bool" where
  "accepted env candidate krate \<longleftrightarrow>
     (\<exists>content. parse_document (re_serde env) content = Inr krate) \<and>
     resolved_crate_name krate (rs_crate_name candidate) = rs_crate_name candidate"

definition ingest_result ::
  "rustdoc_env \<Rightarrow> rustdoc_sync_candidate \<Rightarrow> rustdoc_json_refresh_outcome \<times> index_tables \<Rightarrow>
   unit result \<times> rustdoc_json_refresh_outcome \<times> index_tables \<Rightarrow> bool" where
  "ingest_result env candidate s r \<longleftrightarrow>
     (case (s, r) of
        ((outcome, db), (Inl _, outcome', db')) \<Rightarrow> outcome' = outcome \<and> index_inv db' \<and> same_rows db db'
      | ((outcome, db), (Inr _, outcome', db')) \<Rightarrow>
          index_inv db' \<and> other_rows (rs_crate_version_id candidate) db' = other_rows (rs_crate_version_id candidate) db \<and>
          (\<exists>krate. accepted env candidate krate \<and> holds_document db' (rs_crate_version_id candidate) krate) \<and>
          ro_scanned_files outcome' = ro_scanned_files outcome \<and> ro_errors outcome' = ro_errors outcome \<and>
          ro_synced_versions outcome' = ro_synced_versions outcome + 1)"

lemma replace_document:
  assumes "index_inv db" and "document_ok krate"
    and "replace_crate_version_index_rows v f ''rustdoc_json'' (extract_all krate) db = (r, db')"
  shows "(\<exists>counts. r = Inr counts) \<and> index_inv db' \<and> other_rows v db' = other_rows v db \<and> holds_document db' v krate"
proof -
  note exact = replace_crate_version_exact [OF assms(1) extract_all_ids_distinct [OF assms(2)], of v f]
  have "index_inv db'"
    using insert_batch_inv [OF _ clear_inv(2) [OF assms(1)]] assms(1,3)
    by (auto simp: replace_crate_version_index_rows_def split: sum.splits prod.splits)
  with exact assms(3) show ?thesis
    by (auto simp: other_rows_def filter_replaced holds_document_def)
qed

lemma ingest_spec:
  assumes "documents_ok (re_serde env)" and "index_inv db"
  shows "ingest_result env candidate (outcome, db) (ingest_rustdoc_json_document env candidate path content (outcome, db))"
proof (cases "parse_document (re_serde env) content")
  case (Inl e)
  then show ?thesis using assms(2) by (simp add: ingest_rustdoc_json_document_def ingest_result_def same_rows_def)
next
  case (Inr krate)
  let ?v = "rs_crate_version_id candidate"
  show ?thesis
  proof (cases "resolved_crate_name krate (rs_crate_name candidate) = rs_crate_name candidate \<and> re_upsert_fails env ?v = None")
    case False
    then show ?thesis using Inr assms(2)
      by (auto simp: ingest_rustdoc_json_document_def ingest_result_def same_rows_def Let_def split: option.splits if_splits)
  next
    case True
    let ?u = "upsert_source_file_unconditional ?v path (cd_sha256_hex (re_codec env) content) (length content) (Some ''rustdoc_json'') db"
    have inv: "index_inv (snd ?u)" by (rule upsert_file_inv [OF assms(2)])
    have rows: "same_rows db (snd ?u)" by (rule upsert_file_rows)
    show ?thesis
    proof (cases "re_replace_fails env ?v")
      case (Some e)
      then show ?thesis using Inr True inv rows
        by (simp add: ingest_rustdoc_json_document_def ingest_result_def case_prod_beta)
    next
      case None
      obtain r db' where rep: "replace_crate_version_index_rows ?v (fst ?u) ''rustdoc_json'' (extract_all krate) (snd ?u) = (r, db')"
        by (cases "replace_crate_version_index_rows ?v (fst ?u) ''rustdoc_json'' (extract_all krate) (snd ?u)")
      from replace_document [OF inv parse_document_ok [OF assms(1) Inr] rep] obtain counts where
        d: "r = Inr counts" "index_inv db'" "other_rows ?v db' = other_rows ?v (snd ?u)" "holds_document db' ?v krate" by blast
      have "other_rows ?v (snd ?u) = other_rows ?v db" using rows by (simp add: other_rows_def same_rows_def)
      moreover have "accepted env candidate krate" using Inr True by (auto simp: accepted_def)
      ultimately show ?thesis using Inr True None rep d
        by (auto simp: ingest_rustdoc_json_document_def ingest_result_def case_prod_beta)
    qed
  qed
qed

lemma ingest_result_rejected: "index_inv db \<Longrightarrow> ingest_result env candidate (outcome, db) (Inl e, outcome, db)"
  by (simp add: ingest_result_def same_rows_def)

lemma try_docs_rs_spec:
  assumes "documents_ok (re_serde env)" and "index_inv db"
  shows "ingest_result env candidate (outcome, db) (try_docs_rs env candidate (outcome, db))"
  using ingest_spec [OF assms] ingest_result_rejected [OF assms(2)]
  by (simp add: try_docs_rs_def split: sum.split)

lemma try_local_spec:
  assumes "documents_ok (re_serde env)" and "index_inv db"
  shows "ingest_result env candidate (outcome, db) (try_local env fallback candidate (outcome, db))"
  using ingest_spec [OF assms] ingest_result_rejected [OF assms(2)]
  by (simp add: try_local_def split: sum.split option.split prod.split)

text \<open>One candidate is stamped as enriched with the rows of an accepted document, or as attempted with one error.\<close>

definition candidate_result ::
  "rustdoc_env \<Rightarrow> rustdoc_sync_candidate \<Rightarrow> rustdoc_json_refresh_outcome \<times> rustdoc_state \<Rightarrow>
   rustdoc_json_refresh_outcome \<times> rustdoc_state \<Rightarrow> bool" where
  "candidate_result env candidate s s' \<longleftrightarrow>
     (let v = rs_crate_version_id candidate
      in index_inv (rt_index (snd s')) \<and> ro_scanned_files (fst s') = ro_scanned_files (fst s) + 1 \<and>
         ro_synced_versions (fst s') + length (ro_errors (fst s')) = ro_synced_versions (fst s) + length (ro_errors (fst s)) + 1 \<and>
         other_rows v (rt_index (snd s')) = other_rows v (rt_index (snd s)) \<and>
         (rt_store (snd s') = mark_version_rustdoc_attempted (rt_store (snd s)) (re_now env) v \<or>
          rt_store (snd s') = mark_version_rustdoc_enriched (rt_store (snd s)) (re_now env) v \<and>
          (\<exists>krate. accepted env candidate krate \<and> holds_document (rt_index (snd s')) v krate)))"

lemma same_rows_other: "same_rows db db' \<Longrightarrow> other_rows v db' = other_rows v db"
  by (simp add: same_rows_def other_rows_def)

lemma sync_candidate_spec:
  assumes "documents_ok (re_serde env)" and "index_inv (rt_index st)"
  shows "candidate_result env candidate (outcome, st) (sync_candidate env fallback candidate (outcome, st))"
proof -
  let ?o = "outcome\<lparr>ro_scanned_files := ro_scanned_files outcome + 1\<rparr>"
  obtain r1 o1 db1 where d: "try_docs_rs env candidate (?o, rt_index st) = (r1, o1, db1)" by (metis prod_cases3)
  note d_spec = try_docs_rs_spec [OF assms, of candidate ?o, unfolded d]
  show ?thesis
  proof (cases r1)
    case (Inr u)
    then show ?thesis using d d_spec
      by (auto simp: sync_candidate_def candidate_result_def ingest_result_def Let_def)
  next
    case (Inl e1)
    then have o1: "o1 = ?o" "index_inv db1" "same_rows (rt_index st) db1" using d_spec by (auto simp: ingest_result_def)
    obtain r2 o2 db2 where l: "try_local env fallback candidate (o1, db1) = (r2, o2, db2)" by (metis prod_cases3)
    note l_spec = try_local_spec [OF assms(1) o1(2), of candidate o1 fallback, unfolded l]
    show ?thesis
    proof (cases r2)
      case (Inr u)
      then show ?thesis using d l l_spec Inl o1 same_rows_other [OF o1(3)]
        by (auto simp: sync_candidate_def candidate_result_def ingest_result_def Let_def)
    next
      case (Inl e2)
      then show ?thesis using d l l_spec \<open>r1 = Inl e1\<close> o1 same_rows_other
        by (auto simp: sync_candidate_def candidate_result_def ingest_result_def Let_def)
    qed
  qed
qed

lemma filter_indexed_other:
  assumes "v \<noteq> w"
  shows "filter (indexed_from v s) (filter (\<lambda>r. \<not> indexed_from w t r) rows) = filter (indexed_from v s) rows"
  using assms by (simp add: filter_filter) (rule filter_cong, auto simp: indexed_from_def)

lemma holds_document_other:
  assumes "other_rows w db' = other_rows w db" and "v \<noteq> w"
  shows "holds_document db' v krate \<longleftrightarrow> holds_document db v krate"
proof -
  have "filter (indexed_from v ''rustdoc_json'') (ix_symbols db') = filter (indexed_from v ''rustdoc_json'') (ix_symbols db)"
    "filter (indexed_from v ''rustdoc_json'') (ix_types db') = filter (indexed_from v ''rustdoc_json'') (ix_types db)"
    "filter (indexed_from v ''rustdoc_json'') (ix_impls db') = filter (indexed_from v ''rustdoc_json'') (ix_impls db)"
    "filter (indexed_from v ''rustdoc_json'') (ix_traits db') = filter (indexed_from v ''rustdoc_json'') (ix_traits db)"
    using assms(1) filter_indexed_other [OF assms(2), of "''rustdoc_json''" "''rustdoc_json''"]
    unfolding other_rows_def prod.inject by metis+
  then show ?thesis by (simp only: holds_document_def)
qed

section \<open>The whole synchronisation\<close>

definition enriched_by :: "rustdoc_env \<Rightarrow> rustdoc_sync_candidate list \<Rightarrow> index_tables \<Rightarrow> nat \<Rightarrow> bool" where
  "enriched_by env cs db v \<longleftrightarrow>
     (\<exists>c krate. c \<in> set cs \<and> rs_crate_version_id c = v \<and> accepted env c krate \<and> holds_document db v krate)"

definition stamped :: "rustdoc_env \<Rightarrow> rustdoc_sync_candidate list \<Rightarrow> index_tables \<Rightarrow> version_row \<Rightarrow> version_row \<Rightarrow> bool" where
  "stamped env cs db v v' \<longleftrightarrow> cv_id v' = cv_id v \<and>
     (if cv_id v \<in> rs_crate_version_id ` set cs
      then vr_rustdoc_last_attempt_at v' = Some (re_now env) \<and>
           (vr_rustdoc_enriched_at v' = vr_rustdoc_enriched_at v \<or>
            vr_rustdoc_enriched_at v' = Some (re_now env) \<and> enriched_by env cs db (cv_id v))
      else v' = v)"

lemma candidate_stamps:
  assumes "candidate_result env c s s'"
  shows "list_all2 (stamped env [c] (rt_index (snd s'))) (st_versions (rt_store (snd s))) (st_versions (rt_store (snd s')))"
  using assms
  by (auto simp: candidate_result_def Let_def mark_version_rustdoc_attempted_def mark_version_rustdoc_enriched_def update_version_def
      list.rel_map stamped_def enriched_by_def intro!: list.rel_refl)

lemma sync_candidates_spec:
  assumes "documents_ok (re_serde env)" and "index_inv (rt_index (snd s))" and "distinct (map rs_crate_version_id cs)"
  shows "let s' = fold (sync_candidate env fallback) cs s in
    index_inv (rt_index (snd s')) \<and> ro_scanned_files (fst s') = ro_scanned_files (fst s) + length cs \<and>
    ro_synced_versions (fst s') + length (ro_errors (fst s')) = ro_synced_versions (fst s) + length (ro_errors (fst s)) + length cs \<and>
    (\<forall>v krate. v \<notin> rs_crate_version_id ` set cs \<longrightarrow> holds_document (rt_index (snd s')) v krate = holds_document (rt_index (snd s)) v krate) \<and>
    list_all2 (stamped env cs (rt_index (snd s'))) (st_versions (rt_store (snd s))) (st_versions (rt_store (snd s')))"
  using assms(2,3)
proof (induction cs arbitrary: s)
  case Nil
  then show ?case by (auto simp: stamped_def intro!: list.rel_refl)
next
  case (Cons c cs)
  let ?s1 = "sync_candidate env fallback c s" and ?s2 = "fold (sync_candidate env fallback) cs (sync_candidate env fallback c s)"
  have c: "candidate_result env c s ?s1"
    using sync_candidate_spec [OF assms(1), of "snd s" c "fst s" fallback] Cons.prems(1) by simp
  then have inv1: "index_inv (rt_index (snd ?s1))" and other: "other_rows (rs_crate_version_id c) (rt_index (snd ?s1)) =
      other_rows (rs_crate_version_id c) (rt_index (snd s))" by (simp_all add: candidate_result_def Let_def)
  have fresh: "rs_crate_version_id c \<notin> rs_crate_version_id ` set cs" "distinct (map rs_crate_version_id cs)"
    using Cons.prems(2) by auto
  note ih = Cons.IH [OF inv1 fresh(2), unfolded Let_def]
  have keep: "holds_document (rt_index (snd ?s2)) v krate = holds_document (rt_index (snd s)) v krate"
    if "v \<notin> rs_crate_version_id ` set (c # cs)" for v krate
    using ih that holds_document_other [OF other] by auto
  have "stamped env (c # cs) (rt_index (snd ?s2)) v v2"
    if a: "stamped env [c] (rt_index (snd ?s1)) v v1" "stamped env cs (rt_index (snd ?s2)) v1 v2" for v v1 v2
  proof (cases "cv_id v = rs_crate_version_id c")
    case True
    then have "v2 = v1" using a fresh(1) by (auto simp: stamped_def)
    moreover have "enriched_by env [c] (rt_index (snd ?s1)) (cv_id v) \<Longrightarrow> enriched_by env (c # cs) (rt_index (snd ?s2)) (cv_id v)"
      using ih fresh(1) True by (auto simp: enriched_by_def)
    ultimately show ?thesis using a True by (auto simp: stamped_def)
  next
    case False
    then have "v1 = v" using a by (auto simp: stamped_def)
    moreover have "enriched_by env cs db w \<Longrightarrow> enriched_by env (c # cs) db w" for db w by (auto simp: enriched_by_def)
    ultimately show ?thesis using a False by (auto simp: stamped_def)
  qed
  then have stamps: "list_all2 (stamped env (c # cs) (rt_index (snd ?s2))) (st_versions (rt_store (snd s))) (st_versions (rt_store (snd ?s2)))"
    using list_all2_trans [OF _ candidate_stamps [OF c]] ih by blast
  show ?case using c ih keep stamps by (simp add: candidate_result_def Let_def)
qed

lemma mset_order_candidates: "mset (order_candidates sv cs) = mset cs"
  by (simp add: order_candidates_def)

lemma candidate_ids_distinct:
  assumes "store_inv st"
  shows "distinct (map rs_crate_version_id (order_candidates sv (map (candidate_row st) (fetch_rustdoc_sync_candidates st now f l k))))"
proof -
  have "distinct (map cv_id (sort_key newest_key (filter (rustdoc_candidate st now f) (st_versions st))))"
    using assms by (simp add: distinct_map_sort_key store_inv_def distinct_map_filter)
  then have "distinct (map cv_id (fetch_rustdoc_sync_candidates st now f l k))"
    by (simp add: fetch_rustdoc_sync_candidates_def flip: take_map drop_map)
  moreover have "mset (map rs_crate_version_id (order_candidates sv (map (candidate_row st) rows))) = mset (map cv_id rows)" for rows
    by (simp only: mset_map mset_order_candidates) (simp add: candidate_row_def multiset.map_comp o_def)
  ultimately show ?thesis by (metis mset_eq_imp_distinct_iff)
qed


text \<open>
  The document of a crate whose name contains an underscore is never accepted: the name of its root module is
  compared after replacing underscores by hyphens, so that every document with a named root is
  rejected as a mismatch and nothing is written.
\<close>

theorem underscore_crate_rejected:
  assumes "parse_document (re_serde env) content = Inr krate" and "hash_get (rc_index krate) (rc_root krate) = Some item"
    and "it_name item = Some n" and "trim n \<noteq> []" and "CHR ''_'' \<in> set (rs_crate_name candidate)"
  shows "\<exists>e. ingest_rustdoc_json_document env candidate path content s = (Inl e, s) \<and> contains ''crate mismatch'' e"
proof -
  have r: "resolved_crate_name krate (rs_crate_name candidate) = underscore_to_dash (trim n)"
    using assms(2-4) by (simp add: resolved_crate_name_def unwrap_or_def)
  have "CHR ''_'' \<notin> set (underscore_to_dash (trim n))" by (auto simp: underscore_to_dash_def)
  then have neq: "resolved_crate_name krate (rs_crate_name candidate) \<noteq> rs_crate_name candidate" using assms(5) unfolding r by metis
  have "contains ''crate mismatch'' (''rustdoc JSON crate mismatch'' @ x)" for x
  proof -
    have "''rustdoc JSON crate mismatch'' @ x = ''rustdoc JSON '' @ ''crate mismatch'' @ x" by simp
    then show ?thesis unfolding contains_iff by blast
  qed
  from this [of "'' for '' @ rs_crate_name candidate @ ''@'' @ rs_version candidate @ '' from '' @ path @
      '': payload resolved to crate '' @ [CHR 0x27] @ resolved_crate_name krate (rs_crate_name candidate) @ [CHR 0x27]"] neq
  show ?thesis using assms(1) by (cases s) (simp add: ingest_rustdoc_json_document_def Let_def)
qed

section \<open>A concrete synchronisation\<close>

definition sample_serde :: serde_api where
  "sample_serde = \<lparr>sa_value = (\<lambda>_. None), sa_crate = (\<lambda>_. Inr (sample_document id)), sa_from_value = (\<lambda>_. None), sa_format_version = 61\<rparr>"

definition sample_rustdoc_env :: rustdoc_env where
  "sample_rustdoc_env = \<lparr>re_now = 1000, re_serde = sample_serde,
     re_codec = \<lparr>cd_gunzip = (\<lambda>_. None), cd_zstd = Inr, cd_utf8_error = (\<lambda>_. []), cd_sha256_hex = id\<rparr>,
     re_fetch = (\<lambda>_ _. Inr ''{}''), re_dir = None, re_read = (\<lambda>_. Inl ''missing''), re_upsert_fails = (\<lambda>_. None),
     re_replace_fails = (\<lambda>_. None)\<rparr>"

definition sample_rustdoc_store :: crate_store where
  "sample_rustdoc_store = \<lparr>st_crates = [\<lparr>cc_id = 1, cc_name = ''demo'', cc_description = None, cc_repository_url = None,
       cc_docs_url = None, cc_homepage_url = None, cc_categories = [], cc_keywords = [], cc_updated_at = 0,
       cr_last_checked_at = None, cr_next_check_at = None, cr_ttl_hint_seconds = 86400, cr_ttl_reason = None,
       cr_last_refresh_error = None\<rparr>],
     st_versions = [\<lparr>cv_id = 10, cv_version = ''1.0.0'', cv_rust_version = None, cv_published_at = None,
       cv_readme = None, vr_crate_id = 1, vr_yanked = False, vr_total_downloads = 0,
       vr_locally_present = True, vr_source_origin = 1, vr_rustdoc_enriched_at = None,
       vr_rustdoc_last_attempt_at = None, vr_checksum = None, vr_license_expression = None, vr_dependencies_synced_at = None\<rparr>]\<rparr>"

definition sample_rustdoc_state :: rustdoc_state where
  "sample_rustdoc_state = \<lparr>rt_index = empty_index, rt_store = sample_rustdoc_store\<rparr>"

lemma sync_returns:
  assumes "rf_crate_name f = None"
  shows "\<exists>outcome st'. sync_rustdoc_json_cache sv env f page per_page None st = (Inr outcome, st')"
  unfolding sync_rustdoc_json_cache_def assms by (simp add: Let_def case_prod_beta)


theorem underscore_crate_rejected_witness:
  "\<exists>e. ingest_rustdoc_json_document sample_rustdoc_env \<lparr>rs_crate_version_id = 10, rs_crate_name = ''serde_json'', rs_version = ''1.0.0''\<rparr>
     ''p'' ''{}'' (default_outcome, empty_index) = (Inl e, default_outcome, empty_index) \<and> contains ''crate mismatch'' e"
proof (rule underscore_crate_rejected)
  show "parse_document (re_serde sample_rustdoc_env) ''{}'' = Inr (sample_document id)"
    by (simp add: parse_document_def sample_rustdoc_env_def sample_serde_def)
  show "hash_get (rc_index (sample_document id)) (rc_root (sample_document id)) =
      Some (sample_item (Some ''demo'') Public (Module [2, 4, 5]))"
    by (simp add: hash_get_def sample_document_def sample_entries_def)
  show "it_name (sample_item (Some ''demo'') Public (Module [2, 4, 5])) = Some ''demo''" by (simp add: sample_item_def)
  show "trim ''demo'' \<noteq> []" by code_simp
qed simp

end
