(* ===== verification/Docs_Sync.thy ===== *)
theory Docs_Sync
  imports Docs_Pages Rustdoc_Sync Query_Cache Pagination
begin

text \<open>
  The documentation crawl \<open>sync_docs_pages\<close> and the \<open>docs_search\<close> tool (\<open>mcp/tools/docs.rs\<close>) over the
  \<open>docs_pages\<close> table (\<open>db/tools.rs\<close>).  The HTTP client is an argument (\<open>de_http\<close>), as are the failures
  of database statements.  A result \<open>None\<close> is a panic.
\<close>

section \<open>The docs.rs client\<close>

record http_reply =
  hr_status :: nat
  hr_text :: "string result"

record docs_env =
  de_now :: int
  de_base_url :: string
  de_http :: "string \<Rightarrow> http_reply result"
  de_show_status :: "nat \<Rightarrow> string"
  de_upsert_fails :: "string \<Rightarrow> string option"

definition docs_base_url :: "docs_env \<Rightarrow> string" where
  "docs_base_url env = trim_end_slashes (de_base_url env)"

definition docs_url :: "docs_env \<Rightarrow> string \<Rightarrow> string" where
  "docs_url env p = docs_base_url env @ ''/'' @ strip_front [''/''] p"

definition is_success :: "nat \<Rightarrow> bool" where
  "is_success status \<longleftrightarrow> 200 \<le> status \<and> status < 300"

definition fetch_page_html :: "docs_env \<Rightarrow> string \<Rightarrow> string result" where
  "fetch_page_html env p =
     (let url = docs_url env p
      in case de_http env url of
           Inl e \<Rightarrow> Inl (''docs fetch failed '' @ url @ '': '' @ e)
         | Inr response \<Rightarrow>
             if \<not> is_success (hr_status response)
             then Inl (''docs fetch failed '' @ url @ '': status '' @ de_show_status env (hr_status response))
             else (case hr_text response of
                     Inl e \<Rightarrow> Inl (''docs body read failed '' @ url @ '': '' @ e)
                   | Inr body \<Rightarrow> Inr body))"

section \<open>The table\<close>

record docs_page_row =
  dp_crate_version_id :: nat
  dp_path :: string
  dp_title :: "string option"
  dp_content :: string
  dp_source_url :: "string option"
  dp_indexed_at :: int

definition page_key :: "docs_page_row \<Rightarrow> nat \<times> string" where
  "page_key r = (dp_crate_version_id r, dp_path r)"

definition docs_page :: "docs_page_row list \<Rightarrow> nat \<times> string \<Rightarrow> docs_page_row option" where
  "docs_page db k = find (\<lambda>r. page_key r = k) db"

definition upsert_docs_page_if_changed ::
  "int \<Rightarrow> nat \<Rightarrow> string \<Rightarrow> string option \<Rightarrow> string \<Rightarrow> string option \<Rightarrow> docs_page_row list \<Rightarrow> nat \<times> docs_page_row list" where
  "upsert_docs_page_if_changed now crate_version_id p title content source_url db =
     (let new = \<lparr>dp_crate_version_id = crate_version_id, dp_path = p, dp_title = title, dp_content = content,
                 dp_source_url = source_url, dp_indexed_at = now\<rparr>
      in case docs_page db (crate_version_id, p) of
           None \<Rightarrow> (1, db @ [new])
         | Some r \<Rightarrow>
             if dp_title r \<noteq> title \<or> dp_content r \<noteq> content \<or> dp_source_url r \<noteq> source_url
             then (1, map (\<lambda>r. if page_key r = (crate_version_id, p) then new else r) db)
             else (0, db))"

section \<open>The crawl\<close>

record docs_refresh_outcome =
  do_versions_processed :: nat
  do_pages_written :: nat
  do_touched_versions :: "string list"
  do_errors :: "string list"

definition DOCS_DISCOVERY_MAX_PAGES :: nat where
  "DOCS_DISCOVERY_MAX_PAGES = 64"

record crawl =
  cw_queue :: "string list"
  cw_pending :: "string list"
  cw_seen :: "string list"
  cw_written_any :: bool
  cw_outcome :: docs_refresh_outcome
  cw_pages :: "docs_page_row list"

definition budget_used :: "crawl \<Rightarrow> nat" where
  "budget_used c = length (cw_seen c) + length (cw_pending c)"

fun enqueue_discovered :: "string list \<Rightarrow> crawl \<Rightarrow> crawl" where
  "enqueue_discovered [] c = c"
| "enqueue_discovered (d # ds) c =
     (if d \<in> set (cw_seen c) \<or> d \<in> set (cw_pending c) then enqueue_discovered ds c
      else if budget_used c \<ge> DOCS_DISCOVERY_MAX_PAGES then c
      else enqueue_discovered ds (c\<lparr>cw_pending := cw_pending c @ [d], cw_queue := cw_queue c @ [d]\<rparr>))"

definition crate_prefix :: "rustdoc_sync_candidate \<Rightarrow> string" where
  "crate_prefix candidate = rs_crate_name candidate @ ''/'' @ rs_version candidate @ ''/''"

definition store_page :: "docs_env \<Rightarrow> rustdoc_sync_candidate \<Rightarrow> string \<Rightarrow> string option \<Rightarrow> string \<Rightarrow> crawl \<Rightarrow> crawl" where
  "store_page env candidate p title html c =
     (let (rows_affected, pages) = upsert_docs_page_if_changed (de_now env) (rs_crate_version_id candidate) p title
            (strip_html html) (Some (docs_url env p)) (cw_pages c);
          c' = c\<lparr>cw_pages := pages\<rparr>
      in if rows_affected > 0
         then c'\<lparr>cw_written_any := True,
                 cw_outcome := (cw_outcome c)\<lparr>do_pages_written := do_pages_written (cw_outcome c) + rows_affected\<rparr>\<rparr>
         else c')"

definition crawl_page :: "docs_env \<Rightarrow> rustdoc_sync_candidate \<Rightarrow> string \<Rightarrow> crawl \<Rightarrow> crawl result option" where
  "crawl_page env candidate p c =
     (case fetch_page_html env p of
        Inl error \<Rightarrow> Some (Inr (c\<lparr>cw_outcome := (cw_outcome c)\<lparr>do_errors := do_errors (cw_outcome c) @ [error]\<rparr>\<rparr>))
      | Inr html \<Rightarrow>
          (case extract_title html of
             None \<Rightarrow> None
           | Some title \<Rightarrow>
               (case de_upsert_fails env p of
                  Some e \<Rightarrow> Some (Inl (''failed to upsert docs page '' @ p @ '' for '' @ rs_crate_name candidate @ ''@'' @
                    rs_version candidate @ '': '' @ e))
                | None \<Rightarrow>
                    (let c' = store_page env candidate p title html c
                     in if budget_used c' \<ge> DOCS_DISCOVERY_MAX_PAGES then Some (Inr c')
                        else (case discover_docs_paths (docs_base_url env) p html (crate_prefix candidate) of
                                None \<Rightarrow> None
                              | Some discovered \<Rightarrow> Some (Inr (enqueue_discovered discovered c')))))))"

definition crawl_step :: "docs_env \<Rightarrow> rustdoc_sync_candidate \<Rightarrow> string \<Rightarrow> string list \<Rightarrow> crawl \<Rightarrow> crawl result option" where
  "crawl_step env candidate p rest c =
     (let c' = c\<lparr>cw_queue := rest, cw_pending := removeAll p (cw_pending c)\<rparr>
      in if p \<in> set (cw_seen c) then Some (Inr c')
         else crawl_page env candidate p (c'\<lparr>cw_seen := cw_seen c @ [p]\<rparr>))"

lemma enqueue_seen [simp]: "cw_seen (enqueue_discovered ds c) = cw_seen c"
  by (induction ds c rule: enqueue_discovered.induct) auto

lemma store_page_fields [simp]:
  "cw_seen (store_page env candidate p title html c) = cw_seen c"
  "cw_queue (store_page env candidate p title html c) = cw_queue c"
  "cw_pending (store_page env candidate p title html c) = cw_pending c"
  by (simp_all add: store_page_def Let_def case_prod_beta)

lemma crawl_step_progress:
  assumes "crawl_step env candidate p rest c = Some (Inr c')"
  shows "cw_seen c' = cw_seen c \<and> cw_queue c' = rest \<or>
    length (cw_seen c') = Suc (length (cw_seen c)) \<and>
    (DOCS_DISCOVERY_MAX_PAGES \<le> length (cw_seen c') \<longrightarrow> cw_queue c' = rest)"
  using assms
  by (auto simp: crawl_step_def crawl_page_def Let_def budget_used_def split: if_splits sum.splits option.splits)

function crawl_loop :: "docs_env \<Rightarrow> rustdoc_sync_candidate \<Rightarrow> crawl \<Rightarrow> crawl result option" where
  "crawl_loop env candidate c =
     (case cw_queue c of
        [] \<Rightarrow> Some (Inr c)
      | p # rest \<Rightarrow>
          (case crawl_step env candidate p rest c of
             None \<Rightarrow> None
           | Some (Inl e) \<Rightarrow> Some (Inl e)
           | Some (Inr c') \<Rightarrow> crawl_loop env candidate c'))"
  by pat_completeness auto
termination
  by (relation "measures [\<lambda>(env, candidate, c). DOCS_DISCOVERY_MAX_PAGES - length (cw_seen c), \<lambda>(env, candidate, c). length (cw_queue c)]")
    (auto dest!: crawl_step_progress)

declare crawl_loop.simps [simp del]

definition module_root :: "rustdoc_sync_candidate \<Rightarrow> string" where
  "module_root candidate = crate_prefix candidate @ rs_crate_name candidate @ ''/''"

definition crawl_roots :: "rustdoc_sync_candidate \<Rightarrow> string list" where
  "crawl_roots candidate = [module_root candidate, module_root candidate @ ''index.html'']"

definition crawl_start :: "rustdoc_sync_candidate \<Rightarrow> docs_refresh_outcome \<Rightarrow> docs_page_row list \<Rightarrow> crawl" where
  "crawl_start candidate outcome pages =
     \<lparr>cw_queue = crawl_roots candidate, cw_pending = crawl_roots candidate, cw_seen = [], cw_written_any = False,
      cw_outcome = outcome, cw_pages = pages\<rparr>"

definition finish_version :: "rustdoc_sync_candidate \<Rightarrow> crawl \<Rightarrow> docs_refresh_outcome \<times> docs_page_row list" where
  "finish_version candidate c =
     (let outcome = (cw_outcome c)\<lparr>do_versions_processed := do_versions_processed (cw_outcome c) + 1\<rparr>
      in (if cw_written_any c
          then outcome\<lparr>do_touched_versions := do_touched_versions outcome @ [rs_crate_name candidate @ ''@'' @ rs_version candidate]\<rparr>
          else outcome, cw_pages c))"

text \<open>
  Pages already written stay written when a later statement fails: there is no transaction around the crawl.
  For an error the model keeps the error text only.
\<close>

fun crawl_versions ::
  "docs_env \<Rightarrow> rustdoc_sync_candidate list \<Rightarrow> docs_refresh_outcome \<times> docs_page_row list \<Rightarrow>
   (docs_refresh_outcome \<times> docs_page_row list) result option" where
  "crawl_versions env [] s = Some (Inr s)"
| "crawl_versions env (candidate # cs) (outcome, pages) =
     (case crawl_loop env candidate (crawl_start candidate outcome pages) of
        None \<Rightarrow> None
      | Some (Inl e) \<Rightarrow> Some (Inl e)
      | Some (Inr c) \<Rightarrow> crawl_versions env cs (finish_version candidate c))"

text \<open>The offset is \<open>u32\<close> arithmetic and wraps in a release build.\<close>

definition sync_docs_pages ::
  "docs_env \<Rightarrow> string option \<Rightarrow> crate_store \<Rightarrow> string option \<Rightarrow> u32 option \<Rightarrow> u32 option \<Rightarrow> docs_page_row list \<Rightarrow>
   (docs_refresh_outcome \<times> docs_page_row list) result option" where
  "sync_docs_pages env fetch_fails st crate_name page per_page pages =
     (case (case crate_name of None \<Rightarrow> Inr None
            | Some n \<Rightarrow> (case normalize_required n ''crate_name'' of Inl e \<Rightarrow> Inl e | Inr m \<Rightarrow> Inr (Some m))) of
        Inl e \<Rightarrow> Some (Inl e)
      | Inr crate_filter \<Rightarrow>
          (case fetch_fails of
             Some e \<Rightarrow> Some (Inl (''docs sync failed to load crate versions: '' @ e))
           | None \<Rightarrow>
               (let offset = saturating_sub (sync_page page) 1 * sync_per_page per_page
                in crawl_versions env
                     (map (candidate_row st) (fetch_rustdoc_sync_candidates st (de_now env)
                        (rustdoc_filter_default\<lparr>rf_crate_name := crate_filter\<rparr>) (unat (sync_per_page per_page)) (unat offset)))
                     (\<lparr>do_versions_processed = 0, do_pages_written = 0, do_touched_versions = [], do_errors = []\<rparr>, pages))))"

section \<open>The pages a crawl reaches\<close>

definition linked :: "docs_env \<Rightarrow> rustdoc_sync_candidate \<Rightarrow> string \<Rightarrow> string \<Rightarrow> bool" where
  "linked env candidate p q \<longleftrightarrow>
     (\<exists>html ds. fetch_page_html env p = Inr html \<and>
        discover_docs_paths (docs_base_url env) p html (crate_prefix candidate) = Some ds \<and> q \<in> set ds)"

definition reachable_pages :: "docs_env \<Rightarrow> rustdoc_sync_candidate \<Rightarrow> string set" where
  "reachable_pages env candidate = {q. \<exists>r \<in> set (crawl_roots candidate). (linked env candidate)\<^sup>*\<^sup>* r q}"

definition page_stored :: "docs_env \<Rightarrow> rustdoc_sync_candidate \<Rightarrow> docs_page_row list \<Rightarrow> string \<Rightarrow> bool" where
  "page_stored env candidate pages p \<longleftrightarrow>
     (\<forall>html. fetch_page_html env p = Inr html \<longrightarrow>
        (\<exists>r. docs_page pages (rs_crate_version_id candidate, p) = Some r \<and> extract_title html = Some (dp_title r) \<and>
             dp_content r = strip_html html \<and> dp_source_url r = Some (docs_url env p)))"

definition fetch_error :: "docs_env \<Rightarrow> string \<Rightarrow> string option" where
  "fetch_error env p = (case fetch_page_html env p of Inl e \<Rightarrow> Some e | Inr _ \<Rightarrow> None)"

definition frontier_inv :: "docs_env \<Rightarrow> rustdoc_sync_candidate \<Rightarrow> crawl \<Rightarrow> bool" where
  "frontier_inv env candidate c \<longleftrightarrow>
     cw_pending c = cw_queue c \<and> distinct (cw_seen c @ cw_queue c) \<and>
     length (cw_seen c @ cw_queue c) \<le> DOCS_DISCOVERY_MAX_PAGES \<and>
     set (cw_seen c @ cw_queue c) \<subseteq> reachable_pages env candidate \<and> set (crawl_roots candidate) \<subseteq> set (cw_seen c @ cw_queue c) \<and>
     (length (cw_seen c @ cw_queue c) = DOCS_DISCOVERY_MAX_PAGES \<or>
      (\<forall>p q. p \<in> set (cw_seen c) \<longrightarrow> linked env candidate p q \<longrightarrow> q \<in> set (cw_seen c @ cw_queue c)))"

definition pages_inv :: "docs_env \<Rightarrow> rustdoc_sync_candidate \<Rightarrow> docs_refresh_outcome \<Rightarrow> docs_page_row list \<Rightarrow> crawl \<Rightarrow> bool" where
  "pages_inv env candidate outcome pages c \<longleftrightarrow>
     distinct (map page_key (cw_pages c)) \<and> list_all (page_stored env candidate (cw_pages c)) (cw_seen c) \<and>
     (\<forall>k. k \<notin> Pair (rs_crate_version_id candidate) ` set (cw_seen c) \<longrightarrow> docs_page (cw_pages c) k = docs_page pages k) \<and>
     do_errors (cw_outcome c) = do_errors outcome @ List.map_filter (fetch_error env) (cw_seen c) \<and>
     do_pages_written (cw_outcome c) \<le> do_pages_written outcome + length (cw_seen c) \<and>
     do_versions_processed (cw_outcome c) = do_versions_processed outcome"

lemma enqueue_frontier:
  assumes "cw_pending c = cw_queue c" and "distinct (cw_seen c @ cw_queue c)"
    and "length (cw_seen c @ cw_queue c) \<le> DOCS_DISCOVERY_MAX_PAGES" and "enqueue_discovered ds c = c'"
  shows "cw_pending c' = cw_queue c' \<and> distinct (cw_seen c @ cw_queue c') \<and>
    length (cw_seen c @ cw_queue c') \<le> DOCS_DISCOVERY_MAX_PAGES \<and>
    set (cw_queue c) \<subseteq> set (cw_queue c') \<and> set (cw_queue c') \<subseteq> set (cw_queue c) \<union> set ds \<and>
    (length (cw_seen c @ cw_queue c') = DOCS_DISCOVERY_MAX_PAGES \<or> set ds \<subseteq> set (cw_seen c @ cw_queue c'))"
  using assms
proof (induction ds c rule: enqueue_discovered.induct)
  case (2 d ds c)
  consider (known) "d \<in> set (cw_seen c) \<or> d \<in> set (cw_queue c)"
    | (full) "\<not> (d \<in> set (cw_seen c) \<or> d \<in> set (cw_queue c))" "budget_used c \<ge> DOCS_DISCOVERY_MAX_PAGES"
    | (push) "\<not> (d \<in> set (cw_seen c) \<or> d \<in> set (cw_queue c))" "\<not> budget_used c \<ge> DOCS_DISCOVERY_MAX_PAGES" by blast
  then show ?case
  proof cases
    case known
    then show ?thesis using "2.IH"(1) "2.prems" by auto
  next
    case full
    then show ?thesis using "2.prems" by (auto simp: budget_used_def)
  next
    case push
    let ?c = "c\<lparr>cw_pending := cw_pending c @ [d], cw_queue := cw_queue c @ [d]\<rparr>"
    have e: "enqueue_discovered ds ?c = c'" using "2.prems"(1,4) push by simp
    have "cw_pending c' = cw_queue c' \<and> distinct (cw_seen ?c @ cw_queue c') \<and>
        length (cw_seen ?c @ cw_queue c') \<le> DOCS_DISCOVERY_MAX_PAGES \<and>
        set (cw_queue ?c) \<subseteq> set (cw_queue c') \<and> set (cw_queue c') \<subseteq> set (cw_queue ?c) \<union> set ds \<and>
        (length (cw_seen ?c @ cw_queue c') = DOCS_DISCOVERY_MAX_PAGES \<or> set ds \<subseteq> set (cw_seen ?c @ cw_queue c'))"
      using "2.IH"(2) [OF _ _ _ _ _ e] "2.prems"(1-3) push by (simp add: budget_used_def)
    then show ?thesis by auto
  qed
qed auto

lemma enqueue_pages [simp]:
  "cw_pages (enqueue_discovered ds c) = cw_pages c" "cw_outcome (enqueue_discovered ds c) = cw_outcome c"
  by (induction ds c rule: enqueue_discovered.induct) auto

lemma find_map_key:
  assumes "\<And>r. key (f r) = key r"
  shows "find (\<lambda>r. key r = k) (map f rows) = map_option f (find (\<lambda>r. key r = k) rows)"
  by (induction rows) (auto simp: assms)

lemma find_append_single: "find P (xs @ [x]) = (case find P xs of None \<Rightarrow> if P x then Some x else None | Some y \<Rightarrow> Some y)"
  by (induction xs) auto

lemma upsert_docs_page_spec:
  assumes "distinct (map page_key db)" and "upsert_docs_page_if_changed now v p title content url db = (n, db')"
  shows "distinct (map page_key db') \<and> n \<le> 1 \<and> (\<forall>k. k \<noteq> (v, p) \<longrightarrow> docs_page db' k = docs_page db k) \<and>
    (\<exists>r. docs_page db' (v, p) = Some r \<and> dp_title r = title \<and> dp_content r = content \<and> dp_source_url r = url)"
proof -
  let ?new = "\<lparr>dp_crate_version_id = v, dp_path = p, dp_title = title, dp_content = content, dp_source_url = url, dp_indexed_at = now\<rparr>"
  let ?f = "\<lambda>r. if page_key r = (v, p) then ?new else r"
  have new: "page_key ?new = (v, p)" by (simp add: page_key_def)
  have keep: "page_key (?f r) = page_key r" for r using new by simp
  show ?thesis
  proof (cases "docs_page db (v, p)")
    case None
    then have r: "n = 1" "db' = db @ [?new]" using assms(2) by (simp_all add: upsert_docs_page_if_changed_def Let_def)
    have "(v, p) \<notin> page_key ` set db" using None by (auto simp: docs_page_def find_None_iff)
    then show ?thesis using assms(1) None new unfolding r by (auto simp: docs_page_def find_append_single split: option.split)
  next
    case (Some r)
    then have k: "page_key r = (v, p)" unfolding docs_page_def using find_SomeD by fastforce
    show ?thesis
    proof (cases "dp_title r \<noteq> title \<or> dp_content r \<noteq> content \<or> dp_source_url r \<noteq> url")
      case True
      then have d: "n = 1" "db' = map ?f db" using assms(2) Some by (simp_all add: upsert_docs_page_if_changed_def Let_def)
      have keys: "map page_key db' = map page_key db" unfolding d using keep by simp
      have l: "docs_page db' k' = map_option ?f (docs_page db k')" for k'
        unfolding d docs_page_def by (rule find_map_key) (rule keep)
      have "docs_page db' k' = docs_page db k'" if "k' \<noteq> (v, p)" for k'
      proof (cases "docs_page db k'")
        case (Some x)
        then have "page_key x = k'" unfolding docs_page_def using find_SomeD by fastforce
        then show ?thesis using Some that unfolding l by simp
      qed (simp add: l)
      moreover have "docs_page db' (v, p) = Some ?new" unfolding l using Some k by simp
      ultimately show ?thesis using assms(1) keys d(1) by simp
    next
      case False
      then show ?thesis using assms Some by (auto simp: upsert_docs_page_if_changed_def Let_def)
    qed
  qed
qed

text \<open>One page: what is stored, and which pages are queued.\<close>

lemma crawl_step_cases:
  assumes "frontier_inv env candidate c" and "cw_queue c = p # rest" and "crawl_step env candidate p rest c = Some (Inr c')"
  obtains (failed) e where "fetch_page_html env p = Inl e"
      "c' = c\<lparr>cw_queue := rest, cw_pending := rest, cw_seen := cw_seen c @ [p],
              cw_outcome := (cw_outcome c)\<lparr>do_errors := do_errors (cw_outcome c) @ [e]\<rparr>\<rparr>"
    | (full) html title where "fetch_page_html env p = Inr html" "extract_title html = Some title"
      "length (cw_seen c @ cw_queue c) = DOCS_DISCOVERY_MAX_PAGES"
      "c' = store_page env candidate p title html (c\<lparr>cw_queue := rest, cw_pending := rest, cw_seen := cw_seen c @ [p]\<rparr>)"
    | (followed) html title ds where "fetch_page_html env p = Inr html" "extract_title html = Some title"
      "discover_docs_paths (docs_base_url env) p html (crate_prefix candidate) = Some ds"
      "c' = enqueue_discovered ds
         (store_page env candidate p title html (c\<lparr>cw_queue := rest, cw_pending := rest, cw_seen := cw_seen c @ [p]\<rparr>))"
proof -
  have "p \<notin> set (cw_seen c)" "p \<notin> set rest" "cw_pending c = p # rest" "length (cw_seen c) + length rest < DOCS_DISCOVERY_MAX_PAGES"
    using assms(1,2) by (auto simp: frontier_inv_def)
  then show ?thesis
    using assms(2,3) that
    by (auto simp: crawl_step_def crawl_page_def Let_def budget_used_def split: if_splits sum.splits option.splits)
qed

lemma crawl_step_frontier:
  assumes "frontier_inv env candidate c" and "cw_queue c = p # rest" and "crawl_step env candidate p rest c = Some (Inr c')"
  shows "frontier_inv env candidate c' \<and> cw_seen c' = cw_seen c @ [p]"
  using assms
proof (cases rule: crawl_step_cases)
  case (failed e)
  then have "\<not> linked env candidate p q" for q by (simp add: linked_def)
  then show ?thesis using assms(1,2) failed by (auto simp: frontier_inv_def)
next
  case (full html title)
  then show ?thesis using assms(1,2) by (auto simp: frontier_inv_def)
next
  case (followed html title ds)
  let ?c = "store_page env candidate p title html (c\<lparr>cw_queue := rest, cw_pending := rest, cw_seen := cw_seen c @ [p]\<rparr>)"
  have l: "linked env candidate p q \<longleftrightarrow> q \<in> set ds" for q using followed(1,3) by (auto simp: linked_def)
  have e: "cw_pending c' = cw_queue c' \<and> distinct (cw_seen ?c @ cw_queue c') \<and>
      length (cw_seen ?c @ cw_queue c') \<le> DOCS_DISCOVERY_MAX_PAGES \<and>
      set (cw_queue ?c) \<subseteq> set (cw_queue c') \<and> set (cw_queue c') \<subseteq> set (cw_queue ?c) \<union> set ds \<and>
      (length (cw_seen ?c @ cw_queue c') = DOCS_DISCOVERY_MAX_PAGES \<or> set ds \<subseteq> set (cw_seen ?c @ cw_queue c'))"
    by (rule enqueue_frontier) (use assms(1,2) followed(4) in \<open>auto simp: frontier_inv_def\<close>)
  have seen: "cw_seen c' = cw_seen c @ [p]" using followed(4) by simp
  have "p \<in> reachable_pages env candidate" using assms(1,2) by (simp add: frontier_inv_def)
  then have "set ds \<subseteq> reachable_pages env candidate"
    using l unfolding reachable_pages_def by (auto intro: rtranclp.rtrancl_into_rtrancl)
  moreover have "set (cw_seen c @ cw_queue c) \<subseteq> reachable_pages env candidate" using assms(1) unfolding frontier_inv_def by blast
  moreover have "set (cw_seen c' @ cw_queue c') \<subseteq> set (cw_seen c @ cw_queue c) \<union> set ds" using e assms(2) seen by auto
  ultimately have reach: "set (cw_seen c' @ cw_queue c') \<subseteq> reachable_pages env candidate" by blast
  have grow: "set (cw_seen c @ cw_queue c) \<subseteq> set (cw_seen c' @ cw_queue c')" using e assms(2) seen by auto
  then have roots: "set (crawl_roots candidate) \<subseteq> set (cw_seen c' @ cw_queue c')" using assms(1) unfolding frontier_inv_def by blast
  have full: "length (cw_seen c @ cw_queue c) = DOCS_DISCOVERY_MAX_PAGES \<Longrightarrow> length (cw_seen c' @ cw_queue c') = DOCS_DISCOVERY_MAX_PAGES"
  proof -
    assume f: "length (cw_seen c @ cw_queue c) = DOCS_DISCOVERY_MAX_PAGES"
    have "card (set rest) \<le> card (set (cw_queue c'))" using e by (intro card_mono) auto
    moreover have "distinct rest" "distinct (cw_queue c')" using assms(1,2) e by (auto simp: frontier_inv_def)
    ultimately show ?thesis using f e assms(2) seen by (simp add: distinct_card)
  qed
  have "q \<in> set (cw_seen c' @ cw_queue c')"
    if "x \<in> set (cw_seen c')" "linked env candidate x q" "length (cw_seen c' @ cw_queue c') \<noteq> DOCS_DISCOVERY_MAX_PAGES"
      "length (cw_seen c @ cw_queue c) \<noteq> DOCS_DISCOVERY_MAX_PAGES" for x q
  proof (cases "x = p")
    case True
    then show ?thesis using that e l seen by auto
  next
    case False
    then have "q \<in> set (cw_seen c @ cw_queue c)" using that assms(1) seen by (auto simp: frontier_inv_def)
    then show ?thesis using grow by blast
  qed
  then have "length (cw_seen c' @ cw_queue c') = DOCS_DISCOVERY_MAX_PAGES \<or>
      (\<forall>x q. x \<in> set (cw_seen c') \<longrightarrow> linked env candidate x q \<longrightarrow> q \<in> set (cw_seen c' @ cw_queue c'))" using full by blast
  then show ?thesis using e seen reach roots unfolding frontier_inv_def by simp
qed

lemma store_page_spec:
  assumes "distinct (map page_key (cw_pages c))" and "fetch_page_html env p = Inr html" "extract_title html = Some title"
  shows "let c' = store_page env candidate p title html c in distinct (map page_key (cw_pages c')) \<and>
    page_stored env candidate (cw_pages c') p \<and>
    (\<forall>k. k \<noteq> (rs_crate_version_id candidate, p) \<longrightarrow> docs_page (cw_pages c') k = docs_page (cw_pages c) k) \<and>
    do_errors (cw_outcome c') = do_errors (cw_outcome c) \<and>
    do_versions_processed (cw_outcome c') = do_versions_processed (cw_outcome c) \<and>
    do_pages_written (cw_outcome c') \<le> do_pages_written (cw_outcome c) + 1"
proof -
  obtain n db where u: "upsert_docs_page_if_changed (de_now env) (rs_crate_version_id candidate) p title (strip_html html)
      (Some (docs_url env p)) (cw_pages c) = (n, db)" by (cases "upsert_docs_page_if_changed (de_now env) (rs_crate_version_id candidate) p title
      (strip_html html) (Some (docs_url env p)) (cw_pages c)")
  then show ?thesis
    using upsert_docs_page_spec [OF assms(1) u] assms(2,3) by (auto simp: store_page_def Let_def page_stored_def)
qed

lemma map_filter_append [simp]: "List.map_filter f (xs @ ys) = List.map_filter f xs @ List.map_filter f ys"
  by (simp add: List.map_filter_def)

lemma page_stored_cong:
  "docs_page db (rs_crate_version_id candidate, p) = docs_page db' (rs_crate_version_id candidate, p) \<Longrightarrow>
   page_stored env candidate db p = page_stored env candidate db' p"
  by (simp add: page_stored_def)

lemma crawl_step_pages:
  assumes "frontier_inv env candidate c" and "cw_queue c = p # rest" and "crawl_step env candidate p rest c = Some (Inr c')"
    and "pages_inv env candidate outcome pages c"
  shows "pages_inv env candidate outcome pages c'"
proof -
  let ?c = "c\<lparr>cw_queue := rest, cw_pending := rest, cw_seen := cw_seen c @ [p]\<rparr>"
  have keep: "list_all (page_stored env candidate db) (cw_seen c)"
    if "\<forall>k. k \<noteq> (rs_crate_version_id candidate, p) \<longrightarrow> docs_page db k = docs_page (cw_pages c) k" for db
  proof -
    have "p \<notin> set (cw_seen c)" using assms(1,2) by (auto simp: frontier_inv_def)
    then have "page_stored env candidate db x = page_stored env candidate (cw_pages c) x" if "x \<in> set (cw_seen c)" for x
      using that \<open>\<forall>k. _ k\<close> by (intro page_stored_cong) auto
    then show ?thesis using assms(4) by (simp add: pages_inv_def list_all_iff)
  qed
  have stored: "pages_inv env candidate outcome pages (store_page env candidate p title html ?c)"
    if h: "fetch_page_html env p = Inr html" "extract_title html = Some title" for html title
  proof -
    have "distinct (map page_key (cw_pages ?c))" using assms(4) by (simp add: pages_inv_def)
    note s = store_page_spec [OF this h, of candidate, unfolded Let_def]
    have "list_all (page_stored env candidate (cw_pages (store_page env candidate p title html ?c))) (cw_seen c)"
      using s by (intro keep) simp
    then show ?thesis using s assms(4) h unfolding pages_inv_def
      by (simp add: map_filter_simps fetch_error_def)
  qed
  show ?thesis
    using assms(1-3)
  proof (cases rule: crawl_step_cases)
    case (failed e)
    then show ?thesis using assms(4) by (simp add: pages_inv_def page_stored_def map_filter_simps fetch_error_def)
  next
    case (full html title)
    then show ?thesis using stored by simp
  next
    case (followed html title ds)
    then show ?thesis using stored [of html title] unfolding pages_inv_def by simp
  qed
qed

lemma crawl_loop_inv:
  assumes "crawl_loop env candidate c = Some (Inr c')" and "frontier_inv env candidate c" and "pages_inv env candidate outcome pages c"
  shows "frontier_inv env candidate c' \<and> pages_inv env candidate outcome pages c' \<and> cw_queue c' = []"
  using assms
proof (induction env candidate c rule: crawl_loop.induct)
  case (1 env candidate c)
  show ?case
  proof (cases "cw_queue c")
    case Nil
    then show ?thesis using "1.prems" by (subst (asm) crawl_loop.simps) simp
  next
    case (Cons p rest)
    then obtain c1 where s: "crawl_step env candidate p rest c = Some (Inr c1)" "crawl_loop env candidate c1 = Some (Inr c')"
      using "1.prems"(1) by (subst (asm) crawl_loop.simps) (auto split: option.splits sum.splits)
    then show ?thesis
      using "1.IH" [OF Cons s(1) refl s(2)] crawl_step_frontier [OF "1.prems"(2) Cons s(1)]
        crawl_step_pages [OF "1.prems"(2) Cons s(1) "1.prems"(3)] by simp
  qed
qed

lemma crawl_start_inv:
  assumes "distinct (map page_key pages)"
  shows "frontier_inv env candidate (crawl_start candidate outcome pages)"
    and "pages_inv env candidate outcome pages (crawl_start candidate outcome pages)"
  using assms
  by (auto simp: frontier_inv_def pages_inv_def crawl_start_def crawl_roots_def DOCS_DISCOVERY_MAX_PAGES_def reachable_pages_def
      map_filter_simps)

lemma reachable_closed:
  assumes "set (crawl_roots candidate) \<subseteq> S" and "\<And>p q. p \<in> S \<Longrightarrow> linked env candidate p q \<Longrightarrow> q \<in> S"
  shows "reachable_pages env candidate \<subseteq> S"
proof
  fix q
  assume "q \<in> reachable_pages env candidate"
  then obtain r where "r \<in> S" "(linked env candidate)\<^sup>*\<^sup>* r q" using assms(1) by (auto simp: reachable_pages_def)
  from this(2,1) show "q \<in> S" by (induction rule: rtranclp_induct) (use assms(2) in auto)
qed

lemma linked_prefix: "linked env candidate p q \<Longrightarrow> starts_with (crate_prefix candidate) q"
  using discover_docs_paths_prefix(1) by (fastforce simp: linked_def list_all_iff)

lemma reachable_prefix: "reachable_pages env candidate \<subseteq> {p. starts_with (crate_prefix candidate) p}"
  by (rule reachable_closed) (auto simp: crawl_roots_def module_root_def dest: linked_prefix)

text \<open>
  (C14) The documentation crawl of a crate version terminates, fetches no page twice and at most 64 pages, all below the
  prefix of the version and reachable from its module root through the links of the fetched pages;
  if it stops below that limit it has fetched every reachable page.  Each page that could be fetched
  is then stored with its title, text and address, the errors are those of the pages that could not,
  and the stored pages of every other version are unchanged.
\<close>

theorem docs_crawl_exact:
  assumes "distinct (map page_key pages)" and "crawl_loop env candidate (crawl_start candidate outcome pages) = Some (Inr c)"
  shows "distinct (cw_seen c) \<and> length (cw_seen c) \<le> 64 \<and> set (cw_seen c) \<subseteq> reachable_pages env candidate \<and>
    (length (cw_seen c) < 64 \<longrightarrow> set (cw_seen c) = reachable_pages env candidate) \<and>
    list_all (starts_with (crate_prefix candidate)) (cw_seen c) \<and>
    list_all (page_stored env candidate (cw_pages c)) (cw_seen c) \<and> distinct (map page_key (cw_pages c)) \<and>
    (\<forall>v p. v \<noteq> rs_crate_version_id candidate \<longrightarrow> docs_page (cw_pages c) (v, p) = docs_page pages (v, p)) \<and>
    do_errors (cw_outcome c) = do_errors outcome @ List.map_filter (fetch_error env) (cw_seen c)"
proof -
  from crawl_loop_inv [OF assms(2) crawl_start_inv [OF assms(1)]]
  have f: "frontier_inv env candidate c" and p: "pages_inv env candidate outcome pages c" and q: "cw_queue c = []" by auto
  have sub: "set (cw_seen c) \<subseteq> reachable_pages env candidate" using f q by (simp add: frontier_inv_def)
  have "reachable_pages env candidate \<subseteq> set (cw_seen c)" if "length (cw_seen c) < 64"
    by (rule reachable_closed) (use f q that in \<open>auto simp: frontier_inv_def DOCS_DISCOVERY_MAX_PAGES_def\<close>)
  moreover have "list_all (starts_with (crate_prefix candidate)) (cw_seen c)"
    using sub reachable_prefix [of env candidate] by (auto simp: list_all_iff)
  ultimately show ?thesis
    using f p q sub by (auto simp: frontier_inv_def pages_inv_def DOCS_DISCOVERY_MAX_PAGES_def)
qed

text \<open>The crawl returns when the pages are ASCII and the statements succeed.\<close>

lemma find_str_bound: "find_str p s = Some i \<Longrightarrow> i + length p \<le> length s"
  by (auto simp: find_str_def dest!: split_once_Some)

lemma extract_title_ascii:
  assumes "ascii html"
  shows "extract_title html \<noteq> None"
proof -
  let ?l = "to_ascii_lowercase html"
  have s: "slice x a b = Some (take (b - a) (drop a x))" if "a \<le> b" "b \<le> length x" "ascii x" for x a b
    using that ascii_boundary by (auto simp: slice_def)
  have len: "length ''<title>'' = 7" by simp
  show ?thesis
  proof (cases "find_str ''<title>'' ?l")
    case (Some i)
    then have i: "i + 7 \<le> length html" using find_str_bound by fastforce
    have r: "slice ?l (i + 7) (length ?l) = Some (drop (i + 7) ?l)" using s [OF _ _ ascii_lowercase [OF assms]] i by simp
    show ?thesis
    proof (cases "find_str ''</title>'' (drop (i + 7) ?l)")
      case (Some j)
      then have "j + (i + 7) \<le> length html" using find_str_bound [OF Some] i by simp
      then have "slice html (i + 7) (j + (i + 7)) = Some (take j (drop (i + 7) html))" using s [OF _ _ assms, of "i + 7" "j + (i + 7)"] by simp
      then show ?thesis using Some r \<open>find_str ''<title>'' ?l = Some i\<close> unfolding extract_title_def Let_def len by simp
    next
      case None
      then show ?thesis using r Some unfolding extract_title_def Let_def len by simp
    qed
  qed (simp add: extract_title_def Let_def)
qed

definition benign :: "docs_env \<Rightarrow> bool" where
  "benign env \<longleftrightarrow> (\<forall>p. de_upsert_fails env p = None) \<and> (\<forall>p html. fetch_page_html env p = Inr html \<longrightarrow> ascii html)"

lemma crawl_returns:
  assumes "benign env"
  shows "\<exists>c'. crawl_loop env candidate c = Some (Inr c')"
  using assms
proof (induction env candidate c rule: crawl_loop.induct)
  case (1 env candidate c)
  show ?case
  proof (cases "cw_queue c")
    case (Cons p rest)
    have "\<exists>c'. crawl_page env candidate p d = Some (Inr c')" for d
    proof (cases "fetch_page_html env p")
      case (Inr html)
      then have a: "ascii html" using "1.prems" by (auto simp: benign_def)
      obtain title where "extract_title html = Some title" using extract_title_ascii [OF a] by auto
      moreover obtain ds where "discover_docs_paths (docs_base_url env) p html (crate_prefix candidate) = Some ds"
        using href_loop_ascii [OF a, of 0 "[]"] by (cases "href_loop html 0 []") (auto simp: discover_docs_paths_def extract_href_values_def)
      ultimately show ?thesis using Inr "1.prems" by (simp add: crawl_page_def Let_def benign_def)
    qed (simp add: crawl_page_def)
    then obtain c' where "crawl_step env candidate p rest c = Some (Inr c')"
      by (cases "p \<in> set (cw_seen c)") (auto simp: crawl_step_def Let_def)
    then show ?thesis using "1.IH" [OF Cons _ refl] "1.prems" Cons by (subst crawl_loop.simps) simp
  qed (subst crawl_loop.simps, simp)
qed

definition sample_docs_env :: docs_env where
  "sample_docs_env = \<lparr>de_now = 5, de_base_url = ''https://docs.rs/'',
     de_http = (\<lambda>url. Inr \<lparr>hr_status = (if ends_with ''/'' url then 200 else 404),
                          hr_text = Inr (''<a href='' @ CHR 0x22 # ''de/'' @ CHR 0x22 # ''>x</a>'')\<rparr>),
     de_show_status = show_nat, de_upsert_fails = (\<lambda>_. None)\<rparr>"

definition sample_docs_candidate :: rustdoc_sync_candidate where
  "sample_docs_candidate = \<lparr>rs_crate_version_id = 10, rs_crate_name = ''demo'', rs_version = ''1.0.0''\<rparr>"

lemma sample_docs_benign: "benign sample_docs_env"
  by (auto simp: benign_def fetch_page_html_def sample_docs_env_def Let_def ascii_def split: if_splits)

definition no_docs_outcome :: docs_refresh_outcome where
  "no_docs_outcome = \<lparr>do_versions_processed = 0, do_pages_written = 0, do_touched_versions = [], do_errors = []\<rparr>"

theorem docs_crawl_exact_witness:
  "\<exists>c. crawl_loop sample_docs_env sample_docs_candidate (crawl_start sample_docs_candidate no_docs_outcome []) = Some (Inr c) \<and>
     distinct (cw_seen c) \<and> length (cw_seen c) \<le> 64 \<and> set (cw_seen c) \<subseteq> reachable_pages sample_docs_env sample_docs_candidate \<and>
     list_all (page_stored sample_docs_env sample_docs_candidate (cw_pages c)) (cw_seen c)"
proof -
  obtain c where run: "crawl_loop sample_docs_env sample_docs_candidate (crawl_start sample_docs_candidate no_docs_outcome []) = Some (Inr c)"
    using crawl_returns [OF sample_docs_benign] by blast
  moreover have "distinct (map page_key [])" by simp
  ultimately show ?thesis using docs_crawl_exact [OF _ run] by blast
qed

section \<open>The whole synchronisation\<close>

lemma crawl_versions_spec:
  assumes "crawl_versions env cs (outcome, pages) = Some (Inr (outcome', pages'))" and "distinct (map page_key pages)"
  shows "distinct (map page_key pages') \<and> do_versions_processed outcome' = do_versions_processed outcome + length cs \<and>
    do_pages_written outcome' \<le> do_pages_written outcome + 64 * length cs \<and>
    (\<forall>v p. v \<notin> rs_crate_version_id ` set cs \<longrightarrow> docs_page pages' (v, p) = docs_page pages (v, p))"
  using assms
proof (induction cs arbitrary: outcome pages)
  case (Cons candidate cs)
  obtain c where c: "crawl_loop env candidate (crawl_start candidate outcome pages) = Some (Inr c)"
    "crawl_versions env cs (finish_version candidate c) = Some (Inr (outcome', pages'))"
    using Cons.prems(1) by (auto split: option.splits sum.splits)
  obtain o1 p1 where f: "finish_version candidate c = (o1, p1)" by (cases "finish_version candidate c")
  have "frontier_inv env candidate c" and p: "pages_inv env candidate outcome pages c" and "cw_queue c = []"
    using crawl_loop_inv [OF c(1) crawl_start_inv [OF Cons.prems(2)]] by auto
  then have "length (cw_seen c) \<le> 64" by (simp add: frontier_inv_def DOCS_DISCOVERY_MAX_PAGES_def)
  moreover have o: "do_versions_processed o1 = do_versions_processed outcome + 1" "p1 = cw_pages c"
    "do_pages_written o1 \<le> do_pages_written outcome + length (cw_seen c)"
    using f p by (auto simp: finish_version_def Let_def pages_inv_def split: if_splits)
  moreover have "distinct (map page_key p1)" using p o(2) by (simp add: pages_inv_def)
  moreover note ih = Cons.IH [OF c(2) [unfolded f] this]
  moreover have "docs_page p1 (v, q) = docs_page pages (v, q)" if "v \<noteq> rs_crate_version_id candidate" for v q
    using p that unfolding o(2) pages_inv_def by blast
  ultimately show ?case by auto
qed auto

text \<open>
  A documentation synchronisation that returns has processed every selected version, has written at most 64 pages
  for each, keeps one row per version and path, and leaves the pages of all other versions as they
  were.
\<close>

theorem docs_sync_bounded:
  assumes "sync_docs_pages env None st crate_name page per_page pages = Some (Inr (outcome, pages'))" and "distinct (map page_key pages)"
  shows "\<exists>cs :: rustdoc_sync_candidate list. length cs \<le> 100 \<and> do_versions_processed outcome = length cs \<and> do_pages_written outcome \<le> 64 * length cs \<and>
    distinct (map page_key pages') \<and>
    (\<forall>v p. v \<notin> rs_crate_version_id ` set cs \<longrightarrow> docs_page pages' (v, p) = docs_page pages (v, p))"
proof -
  obtain f where run: "crawl_versions env (map (candidate_row st) (fetch_rustdoc_sync_candidates st (de_now env) f
      (unat (sync_per_page per_page)) (unat (saturating_sub (sync_page page) 1 * sync_per_page per_page))))
      (no_docs_outcome, pages) = Some (Inr (outcome, pages'))"
    using assms(1) unfolding sync_docs_pages_def no_docs_outcome_def by (auto simp: Let_def split: option.splits sum.splits)
  let ?cs = "map (candidate_row st) (fetch_rustdoc_sync_candidates st (de_now env) f
      (unat (sync_per_page per_page)) (unat (saturating_sub (sync_page page) 1 * sync_per_page per_page)))"
  have "unat (sync_per_page per_page) \<le> 100" using sync_per_page.bounds [of per_page] by (simp add: word_le_nat_alt)
  then have "length ?cs \<le> 100" by (simp add: fetch_rustdoc_sync_candidates_def)
  with crawl_versions_spec [OF run assms(2)] show ?thesis by (intro exI [of _ ?cs]) (simp add: no_docs_outcome_def)
qed

lemma crawl_versions_returns:
  assumes "benign env"
  shows "\<exists>s'. crawl_versions env cs s = Some (Inr s')"
proof (induction cs arbitrary: s)
  case (Cons candidate cs)
  obtain outcome pages where s: "s = (outcome, pages)" by (cases s)
  obtain c where "crawl_loop env candidate (crawl_start candidate outcome pages) = Some (Inr c)"
    using crawl_returns [OF assms] by blast
  then show ?case using Cons unfolding s by simp
qed simp

theorem docs_sync_bounded_witness:
  "\<exists>outcome pages'. sync_docs_pages sample_docs_env None sample_rustdoc_store None None None [] = Some (Inr (outcome, pages')) \<and>
     do_pages_written outcome \<le> 6400 \<and> distinct (map page_key pages')"
proof -
  obtain outcome pages' where run: "sync_docs_pages sample_docs_env None sample_rustdoc_store None None None [] = Some (Inr (outcome, pages'))"
    using crawl_versions_returns [OF sample_docs_benign]
    unfolding sync_docs_pages_def Let_def option.case sum.case by (metis surj_pair)
  have "distinct (map page_key [])" by simp
  from docs_sync_bounded [OF run this] obtain cs :: "rustdoc_sync_candidate list" where "length cs \<le> 100"
    "do_pages_written outcome \<le> 64 * length cs" "distinct (map page_key pages')" by blast
  then show ?thesis using run by (intro exI [of _ outcome] exI [of _ pages']) simp
qed

end
