(* ===== verification/Docs_Search.thy ===== *)
theory Docs_Search
  imports Docs_Sync Crate_Versions
begin

text \<open>
  The \<open>docs_search\<close> tool (\<open>mcp/tools/docs.rs\<close>): a paginated text search over the indexed documentation
  pages, answered from the query cache for five minutes.  The cursor codec, the JSON form of keys and
  responses, PostgreSQL's \<open>ILIKE\<close> and its rendering of timestamps are arguments of the model.
\<close>

section \<open>Snippets\<close>

definition docs_snippet :: "string \<Rightarrow> string \<Rightarrow> string option" where
  "docs_snippet content query =
     (if content = [] then Some []
      else (case find_str (to_ascii_lowercase query) (to_ascii_lowercase content) of
              Some i \<Rightarrow> map_option trim (slice content (i - 80) (min (i + length query + 140) (length content)))
            | None \<Rightarrow> Some (fst (take_chars 220 content))))"

text \<open>The slice around a match panics when a multi-byte character lies across its first byte.\<close>

lemma docs_snippet_panics: "docs_snippet (CHR 0xC3 # CHR 0xA9 # replicate 79 CHR ''a'' @ ''q'') ''q'' = None"
  by code_simp

section \<open>The query\<close>

record docs_search_params =
  sp_crate_name :: "string option"
  sp_version :: "string option"
  sp_path_prefix :: "string option"
  sp_query :: string
  sp_limit :: int
  sp_offset :: int

record docs_search_row =
  sr_crate_name :: string
  sr_version :: string
  sr_path :: string
  sr_title :: "string option"
  sr_source_url :: "string option"
  sr_indexed_at :: string
  sr_content :: string

definition joined_pages :: "crate_store \<Rightarrow> docs_page_row list \<Rightarrow> (crate_row \<times> version_row \<times> docs_page_row) list" where
  "joined_pages st pages =
     List.map_filter (\<lambda>dp.
       case find (\<lambda>v. cv_id v = dp_crate_version_id dp) (st_versions st) of
         None \<Rightarrow> None
       | Some v \<Rightarrow> (case crate_of st v of None \<Rightarrow> None | Some c \<Rightarrow> Some (c, v, dp))) pages"

definition page_matches ::
  "(string \<Rightarrow> string \<Rightarrow> bool) \<Rightarrow> docs_search_params \<Rightarrow> crate_row \<times> version_row \<times> docs_page_row \<Rightarrow> bool" where
  "page_matches ilike params x \<longleftrightarrow>
     (case x of (c, v, dp) \<Rightarrow>
        (case sp_crate_name params of None \<Rightarrow> True | Some n \<Rightarrow> name_lower c = to_ascii_lowercase n) \<and>
        (case sp_version params of None \<Rightarrow> True | Some w \<Rightarrow> cv_version v = w) \<and>
        (case sp_path_prefix params of None \<Rightarrow> True | Some p \<Rightarrow> ilike (p @ ''%'') (dp_path dp)) \<and>
        (let pattern = ''%'' @ sp_query params @ ''%''
         in ilike pattern (dp_content dp) \<or> ilike pattern (unwrap_or (dp_title dp) []) \<or> ilike pattern (dp_path dp)))"

definition page_order :: "crate_row \<times> version_row \<times> docs_page_row \<Rightarrow> int \<times> string \<times> string" where
  "page_order x = (case x of (c, v, dp) \<Rightarrow> (- dp_indexed_at dp, cc_name c, dp_path dp))"

definition search_row :: "(int \<Rightarrow> string) \<Rightarrow> crate_row \<times> version_row \<times> docs_page_row \<Rightarrow> docs_search_row" where
  "search_row show_time x =
     (case x of (c, v, dp) \<Rightarrow>
        \<lparr>sr_crate_name = cc_name c, sr_version = cv_version v, sr_path = dp_path dp, sr_title = dp_title dp,
         sr_source_url = dp_source_url dp, sr_indexed_at = show_time (dp_indexed_at dp), sr_content = dp_content dp\<rparr>)"

definition matching_pages ::
  "(string \<Rightarrow> string \<Rightarrow> bool) \<Rightarrow> (int \<Rightarrow> string) \<Rightarrow> crate_store \<Rightarrow> docs_page_row list \<Rightarrow> docs_search_params \<Rightarrow> docs_search_row list" where
  "matching_pages ilike show_time st pages params =
     map (search_row show_time) (sort_key page_order (filter (page_matches ilike params) (joined_pages st pages)))"

definition search_docs_pages ::
  "(string \<Rightarrow> string \<Rightarrow> bool) \<Rightarrow> (int \<Rightarrow> string) \<Rightarrow> crate_store \<Rightarrow> docs_page_row list \<Rightarrow> docs_search_params \<Rightarrow> docs_search_row list" where
  "search_docs_pages ilike show_time st pages params =
     take (nat (max (sp_limit params) 1)) (drop (nat (max (sp_offset params) 0)) (matching_pages ilike show_time st pages params))"

section \<open>Requests and responses\<close>

record docs_cursor_token =
  dt_v :: "8 word"
  dt_offset :: u32
  dt_limit :: u32
  dt_query :: string
  dt_crate_name :: "string option"
  dt_version :: "string option"
  dt_path_prefix :: "string option"

definition docs_cursor_ops :: "docs_cursor_token cursor_ops" where
  "docs_cursor_ops = \<lparr>version = dt_v, limit = dt_limit, offset = dt_offset\<rparr>"

record docs_search_request =
  dq_query :: string
  dq_crate_name :: "string option"
  dq_version :: "string option"
  dq_path_prefix :: "string option"
  dq_cursor :: "string option"
  dq_page :: "u32 option"
  dq_limit :: "u32 option"

record docs_search_cache_key =
  dk_query :: string
  dk_crate_name :: "string option"
  dk_version :: "string option"
  dk_path_prefix :: "string option"
  dk_cursor :: "string option"
  dk_page :: u32
  dk_limit :: u32

record docs_search_hit =
  dh_crate_name :: string
  dh_version :: string
  dh_path :: string
  dh_title :: "string option"
  dh_source_url :: "string option"
  dh_indexed_at :: string
  dh_snippet :: string

record docs_search_response =
  dr_query :: string
  dr_crate_name :: "string option"
  dr_version :: "string option"
  dr_path_prefix :: "string option"
  dr_cursor :: "string option"
  dr_next_cursor :: "string option"
  dr_page :: u32
  dr_limit :: u32
  dr_has_more :: bool
  dr_truncated :: bool
  dr_count :: nat
  dr_confidence :: string
  dr_confidence_assessment :: confidence_assessment
  dr_suggested_next_tools :: "string list"
  dr_provenance :: string
  dr_hits :: "docs_search_hit list"

record docs_search_env =
  qe_now :: int
  qe_codec :: "docs_cursor_token codec"
  qe_key :: "docs_search_cache_key \<Rightarrow> string result"
  qe_to_value :: "docs_search_response \<Rightarrow> json result"
  qe_from_value :: "json \<Rightarrow> docs_search_response result"
  qe_ilike :: "string \<Rightarrow> string \<Rightarrow> bool"
  qe_show_time :: "int \<Rightarrow> string"
  qe_read_error :: "string option"
  qe_event_failed :: bool
  qe_query_error :: "string option"
  qe_write_error :: "string option"
  qe_store :: crate_store
  qe_pages :: "docs_page_row list"

definition next_docs_token :: "docs_search_params \<Rightarrow> u32 \<Rightarrow> u32 \<Rightarrow> docs_cursor_token" where
  "next_docs_token f lim next_offset =
     \<lparr>dt_v = 1, dt_offset = next_offset, dt_limit = lim, dt_query = sp_query f, dt_crate_name = sp_crate_name f,
      dt_version = sp_version f, dt_path_prefix = sp_path_prefix f\<rparr>"

interpretation docs_cursor: cursor_token docs_cursor_ops "next_docs_token f"
  by unfold_locales (simp_all add: docs_cursor_ops_def next_docs_token_def)

section \<open>The handler\<close>

text \<open>The normalised filters, the cursor, the requested page and the resolved pagination.\<close>

definition docs_filters :: "docs_search_env \<Rightarrow> docs_search_request \<Rightarrow> (docs_search_params \<times> string option \<times> u32 \<times> pagination_params) result" where
  "docs_filters env request =
     (case normalize_required (dq_query request) ''query'' of
        Inl e \<Rightarrow> Inl e
      | Inr query \<Rightarrow>
          (let f = \<lparr>sp_crate_name = normalize_optional (dq_crate_name request), sp_version = normalize_optional (dq_version request),
                    sp_path_prefix = normalize_optional (dq_path_prefix request), sp_query = query, sp_limit = 0, sp_offset = 0\<rparr>;
               cursor = normalize_optional (dq_cursor request); page = sync_page (dq_page request)
           in case (case cursor of None \<Rightarrow> Inr None
                    | Some c \<Rightarrow> (case decode_cursor (qe_codec env) docs_cursor_ops c of Inl e \<Rightarrow> Inl e | Inr t \<Rightarrow> Inr (Some t))) of
                Inl e \<Rightarrow> Inl e
              | Inr decoded \<Rightarrow>
                  if (case decoded of None \<Rightarrow> False
                      | Some t \<Rightarrow> dt_query t \<noteq> query \<or> dt_crate_name t \<noteq> sp_crate_name f \<or> dt_version t \<noteq> sp_version f \<or>
                                 dt_path_prefix t \<noteq> sp_path_prefix f)
                  then Inl ''cursor does not match current docs_search filters''
                  else (case resolve_pagination docs_cursor_ops decoded (dq_limit request \<noteq> None)
                               (docs_search_limit (dq_limit request)) page of
                          Inl e \<Rightarrow> Inl e
                        | Inr pag \<Rightarrow> Inr (f, cursor, page, pag))))"

definition docs_cache_key :: "docs_search_params \<Rightarrow> string option \<Rightarrow> u32 \<Rightarrow> pagination_params \<Rightarrow> docs_search_cache_key" where
  "docs_cache_key f cursor page pag =
     \<lparr>dk_query = sp_query f, dk_crate_name = sp_crate_name f, dk_version = sp_version f, dk_path_prefix = sp_path_prefix f,
      dk_cursor = cursor, dk_page = page, dk_limit = pp_limit pag\<rparr>"

definition docs_hit :: "string \<Rightarrow> docs_search_row \<Rightarrow> docs_search_hit option" where
  "docs_hit query row =
     map_option (\<lambda>snippet. \<lparr>dh_crate_name = sr_crate_name row, dh_version = sr_version row, dh_path = sr_path row,
        dh_title = sr_title row, dh_source_url = sr_source_url row, dh_indexed_at = sr_indexed_at row, dh_snippet = snippet\<rparr>)
       (docs_snippet (sr_content row) query)"

fun docs_hits :: "string \<Rightarrow> docs_search_row list \<Rightarrow> docs_search_hit list option" where
  "docs_hits query [] = Some []"
| "docs_hits query (row # rows) =
     (case docs_hit query row of None \<Rightarrow> None
      | Some h \<Rightarrow> map_option (\<lambda>hs. h # hs) (docs_hits query rows))"

definition docs_confidence :: "docs_search_hit list \<Rightarrow> confidence_assessment" where
  "docs_confidence hits =
     (if hits = [] then \<lparr>ca_level = Low, ca_reason = ''no indexed docs pages matched the query/filter set''\<rparr>
      else \<lparr>ca_level = Medium, ca_reason = ''docs hits are text-ranked snippets from indexed docs.rs pages''\<rparr>)"

definition docs_response ::
  "docs_search_params \<Rightarrow> string option \<Rightarrow> pagination_params \<Rightarrow> docs_search_hit paginated_result \<Rightarrow> docs_search_response" where
  "docs_response f cursor pag r =
     (let assessment = docs_confidence (items r)
      in \<lparr>dr_query = sp_query f, dr_crate_name = sp_crate_name f, dr_version = sp_version f, dr_path_prefix = sp_path_prefix f,
          dr_cursor = cursor, dr_next_cursor = next_cursor r, dr_page = pp_effective_page pag, dr_limit = pp_limit pag,
          dr_has_more = has_more r, dr_truncated = has_more r, dr_count = length (items r),
          dr_confidence = confidence_as_str (ca_level assessment), dr_confidence_assessment = assessment,
          dr_suggested_next_tools = (if items r = [] then [''index_crates'', ''index_refresh'', ''crate_intel'']
            else [''source_read'', ''crate_intel'']),
          dr_provenance = ''local_postgres_index'', dr_hits = items r\<rparr>)"

text \<open>The rows are queried, rendered, cut to the page, and the response is stored in the cache.\<close>

definition docs_search_uncached ::
  "docs_search_env \<Rightarrow> docs_search_params \<Rightarrow> string option \<Rightarrow> pagination_params \<Rightarrow> string \<Rightarrow> query_cache \<Rightarrow>
   docs_search_response result option \<times> query_cache" where
  "docs_search_uncached env f cursor pag key cache =
     (case qe_query_error env of
        Some e \<Rightarrow> (Some (Inl (''docs_search query failed: '' @ e)), cache)
      | None \<Rightarrow>
          (case docs_hits (sp_query f) (search_docs_pages (qe_ilike env) (qe_show_time env) (qe_store env) (qe_pages env)
                  (f\<lparr>sp_limit := uint (saturating_add (pp_limit pag) 1), sp_offset := uint (pp_offset pag)\<rparr>)) of
             None \<Rightarrow> (None, cache)
           | Some hits \<Rightarrow>
               (case apply_pagination_limit (qe_codec env) hits (pp_limit pag) (pp_offset pag) (next_docs_token f (pp_limit pag)) of
                  Inl e \<Rightarrow> (Some (Inl e), cache)
                | Inr r \<Rightarrow>
                    (let response = docs_response f cursor pag r
                     in case qe_to_value env response of
                          Inl e \<Rightarrow> (Some (Inl (''failed to encode docs_search cache value: '' @ e)), cache)
                        | Inr v \<Rightarrow>
                            (case query_cache_put (qe_write_error env) cache (qe_now env) ''docs_search'' key v 300 of
                               (Inl e, cache') \<Rightarrow> (Some (Inl e), cache')
                             | (Inr _, cache') \<Rightarrow> (Some (Inr response), cache'))))))"

definition handle_docs_search ::
  "docs_search_env \<Rightarrow> docs_search_request \<Rightarrow> query_cache \<Rightarrow> docs_search_response result option \<times> query_cache" where
  "handle_docs_search env request cache =
     (case docs_filters env request of
        Inl e \<Rightarrow> (Some (Inl e), cache)
      | Inr (f, cursor, page, pag) \<Rightarrow>
          (case qe_key env (docs_cache_key f cursor page pag) of
             Inl e \<Rightarrow> (Some (Inl (''failed to build docs_search cache key: '' @ e)), cache)
           | Inr key \<Rightarrow>
               (case query_cache_get (qe_read_error env) (qe_event_failed env) cache (qe_now env) ''docs_search'' key of
                  (Inl e, cache') \<Rightarrow> (Some (Inl e), cache')
                | (Inr (Some cached), cache') \<Rightarrow>
                    (case qe_from_value env cached of
                       Inl e \<Rightarrow> (Some (Inl (''failed to decode docs_search cache entry: '' @ e)), cache')
                     | Inr response \<Rightarrow> (Some (Inr response), cache'))
                | (Inr None, cache') \<Rightarrow> docs_search_uncached env f cursor pag key cache')))"

section \<open>What an answer contains\<close>

lemma docs_filters_codec: "qe_codec env' = qe_codec env \<Longrightarrow> docs_filters env' request = docs_filters env request"
  by (simp only: docs_filters_def)

lemma docs_hits_Some: "docs_hits query rows = Some hs \<Longrightarrow> map Some hs = map (docs_hit query) rows"
  by (induction rows arbitrary: hs) (auto split: option.splits)

lemma matching_pages_window [simp]:
  "matching_pages ilike show_time st pages (f\<lparr>sp_limit := l, sp_offset := k\<rparr>) = matching_pages ilike show_time st pages f"
  by (simp add: matching_pages_def page_matches_def [abs_def])

lemma docs_search_fresh:
  assumes "handle_docs_search env request cache = (Some (Inr resp), cache')"
    and "docs_filters env request = Inr (f, cursor, page, pag)" and "qe_key env (docs_cache_key f cursor page pag) = Inr key"
    and "fetch_query_cache_value cache (qe_now env) key ''docs_search'' = None"
  obtains cache1 hits r v where
    "cache1 = (if qe_event_failed env then cache else insert_query_cache_event cache (qe_now env) ''docs_search'' False)"
    "docs_hits (sp_query f) (search_docs_pages (qe_ilike env) (qe_show_time env) (qe_store env) (qe_pages env)
       (f\<lparr>sp_limit := uint (saturating_add (pp_limit pag) 1), sp_offset := uint (pp_offset pag)\<rparr>)) = Some hits"
    "apply_pagination_limit (qe_codec env) hits (pp_limit pag) (pp_offset pag) (next_docs_token f (pp_limit pag)) = Inr r"
    "resp = docs_response f cursor pag r" "qe_to_value env resp = Inr v"
    "query_cache_put None cache1 (qe_now env) ''docs_search'' key v 300 = (Inr (), cache')"
proof -
  have no_read: "qe_read_error env = None"
    using assms(1-3) by (cases "qe_read_error env") (simp_all add: handle_docs_search_def query_cache_get_def)
  define cache1 where "cache1 = (if qe_event_failed env then cache else insert_query_cache_event cache (qe_now env) ''docs_search'' False)"
  have "docs_search_uncached env f cursor pag key cache1 = (Some (Inr resp), cache')"
    using assms no_read by (simp add: handle_docs_search_def query_cache_get_def Let_def cache1_def split: if_splits)
  then show ?thesis
    using that [OF cache1_def]
    by (auto simp: docs_search_uncached_def Let_def query_cache_put_def split: option.splits sum.splits)
qed

text \<open>
  A fresh answer of \<open>docs_search\<close> is the requested page of the matching documentation pages, newest first: the
  hits are those rows rendered in order, \<open>has_more\<close> holds exactly when rows remain behind them, and
  only then there is a next cursor.
\<close>

theorem docs_search_page:
  assumes "handle_docs_search env request cache = (Some (Inr resp), cache')"
    and "docs_filters env request = Inr (f, cursor, page, pag)" and "qe_key env (docs_cache_key f cursor page pag) = Inr key"
    and "fetch_query_cache_value cache (qe_now env) key ''docs_search'' = None" and "unat (pp_limit pag) < 2 ^ 32 - 1"
  shows "let rows = matching_pages (qe_ilike env) (qe_show_time env) (qe_store env) (qe_pages env) f;
             off = unat (pp_offset pag); lim = unat (pp_limit pag)
         in map Some (dr_hits resp) = map (docs_hit (sp_query f)) (take lim (drop off rows)) \<and>
            dr_count resp = length (dr_hits resp) \<and> (dr_has_more resp \<longleftrightarrow> off + lim < length rows) \<and>
            (dr_next_cursor resp \<noteq> None \<longleftrightarrow> dr_has_more resp)"
proof -
  obtain hits r where h: "docs_hits (sp_query f) (search_docs_pages (qe_ilike env) (qe_show_time env) (qe_store env) (qe_pages env)
       (f\<lparr>sp_limit := uint (saturating_add (pp_limit pag) 1), sp_offset := uint (pp_offset pag)\<rparr>)) = Some hits"
    and a: "apply_pagination_limit (qe_codec env) hits (pp_limit pag) (pp_offset pag) (next_docs_token f (pp_limit pag)) = Inr r"
    and resp: "resp = docs_response f cursor pag r"
    using docs_search_fresh [OF assms(1-4)] by metis
  let ?rows = "matching_pages (qe_ilike env) (qe_show_time env) (qe_store env) (qe_pages env) f"
  let ?w = "take (Suc (unat (pp_limit pag))) (drop (unat (pp_offset pag)) ?rows)"
  have "unat (saturating_add (pp_limit pag) 1) = Suc (unat (pp_limit pag))" using assms(5) by (simp add: unat_saturating_add)
  then have "uint (saturating_add (pp_limit pag) 1) = int (Suc (unat (pp_limit pag)))" by (metis uint_nat)
  then have "search_docs_pages (qe_ilike env) (qe_show_time env) (qe_store env) (qe_pages env)
       (f\<lparr>sp_limit := uint (saturating_add (pp_limit pag) 1), sp_offset := uint (pp_offset pag)\<rparr>) = ?w"
    by (simp add: search_docs_pages_def nat_add_distrib flip: unat_eq_nat_uint)
  then have m: "map Some hits = map (docs_hit (sp_query f)) ?w" using docs_hits_Some [OF h] by simp
  then have len: "length hits = length ?w" by (metis length_map)
  have "map Some (take n hits) = map (docs_hit (sp_query f)) (take n ?w)" for n using m by (metis take_map)
  moreover have "take (unat (pp_limit pag)) ?w = take (unat (pp_limit pag)) (drop (unat (pp_offset pag)) ?rows)" by (simp add: min_def)
  ultimately show ?thesis
    using apply_pagination_limit_Inr [OF a] len unfolding resp docs_response_def Let_def
    by (auto simp: less_diff_conv add.commute)
qed

text \<open>
  The same request within five minutes of a fresh answer returns that answer, whatever happened to the indexed pages
  in between.
\<close>

theorem docs_search_cached:
  assumes "handle_docs_search env request cache = (Some (Inr resp), cache')" and "cache_inv cache"
    and "docs_filters env request = Inr (f, cursor, page, pag)" and "qe_key env (docs_cache_key f cursor page pag) = Inr key"
    and "fetch_query_cache_value cache (qe_now env) key ''docs_search'' = None"
    and "\<And>r v. qe_to_value env r = Inr v \<Longrightarrow> qe_from_value env v = Inr r"
    and "later < qe_now env + 300"
  shows "fst (handle_docs_search (env\<lparr>qe_now := later, qe_pages := pages, qe_store := st, qe_read_error := None\<rparr>) request cache') =
    Some (Inr resp)"
proof -
  let ?env = "env\<lparr>qe_now := later, qe_pages := pages, qe_store := st, qe_read_error := None\<rparr>"
  obtain cache1 v where c1: "cache1 = (if qe_event_failed env then cache else insert_query_cache_event cache (qe_now env) ''docs_search'' False)"
    and v: "qe_to_value env resp = Inr v" and put: "query_cache_put None cache1 (qe_now env) ''docs_search'' key v 300 = (Inr (), cache')"
    using docs_search_fresh [OF assms(1,3-5)] by metis
  have inv: "cache_inv cache1" using assms(2) c1 by (simp add: cache_inv_def insert_query_cache_event_def)
  have "cache' = upsert_query_cache_value cache1 (qe_now env) key ''docs_search'' v 300" using put by (simp add: query_cache_put_def)
  then have "fetch_query_cache_value cache' later key ''docs_search'' = Some v"
    using fetch_iff [OF upsert_inv [OF inv]] upsert_entries [OF inv] assms(7) by simp
  moreover have "docs_filters ?env request = Inr (f, cursor, page, pag)" using assms(3) docs_filters_codec [of ?env env request] by simp
  ultimately show ?thesis using assms(4) assms(6) [OF v] by (simp add: handle_docs_search_def query_cache_get_def Let_def)
qed

section \<open>A concrete search\<close>

definition docs_plain_codec :: "docs_cursor_token codec" where
  "docs_plain_codec = \<lparr>to_vec = (\<lambda>_. Inl ''unused''), from_slice = (\<lambda>_. Inl ''unused''), b64_encode = id, b64_decode = Inr\<rparr>"

definition sample_search_response :: docs_search_response where
  "sample_search_response =
     \<lparr>dr_query = ''text'', dr_crate_name = None, dr_version = None, dr_path_prefix = None, dr_cursor = None, dr_next_cursor = None,
      dr_page = 1, dr_limit = 25, dr_has_more = False, dr_truncated = False, dr_count = 1, dr_confidence = ''medium'',
      dr_confidence_assessment = \<lparr>ca_level = Medium, ca_reason = ''docs hits are text-ranked snippets from indexed docs.rs pages''\<rparr>,
      dr_suggested_next_tools = [''source_read'', ''crate_intel''], dr_provenance = ''local_postgres_index'',
      dr_hits = [\<lparr>dh_crate_name = ''demo'', dh_version = ''1.0.0'', dh_path = ''demo/1.0.0/demo/'', dh_title = None,
                  dh_source_url = None, dh_indexed_at = ''t'', dh_snippet = ''some text''\<rparr>]\<rparr>"

definition sample_search_env :: docs_search_env where
  "sample_search_env = \<lparr>qe_now = 7, qe_codec = docs_plain_codec, qe_key = (\<lambda>k. Inr (dk_query k)),
     qe_to_value = (\<lambda>r. if r = sample_search_response then Inr JNull else Inl ''other''),
     qe_from_value = (\<lambda>_. Inr sample_search_response),
     qe_ilike = like_match, qe_show_time = (\<lambda>_. ''t''), qe_read_error = None, qe_event_failed = False, qe_query_error = None,
     qe_write_error = None, qe_store = sample_rustdoc_store,
     qe_pages = [\<lparr>dp_crate_version_id = 10, dp_path = ''demo/1.0.0/demo/'', dp_title = None, dp_content = ''some text'',
                  dp_source_url = None, dp_indexed_at = 3\<rparr>]\<rparr>"

definition sample_search_request :: docs_search_request where
  "sample_search_request = \<lparr>dq_query = '' text'', dq_crate_name = None, dq_version = None, dq_path_prefix = None,
     dq_cursor = None, dq_page = None, dq_limit = None\<rparr>"

definition sample_search_params :: docs_search_params where
  "sample_search_params = \<lparr>sp_crate_name = None, sp_version = None, sp_path_prefix = None, sp_query = ''text'', sp_limit = 0, sp_offset = 0\<rparr>"

definition sample_search_page :: pagination_params where
  "sample_search_page = \<lparr>pp_offset = 0, pp_limit = 25, pp_effective_page = 1\<rparr>"

definition empty_cache :: query_cache where
  "empty_cache = \<lparr>qc_entries = [], qc_events = []\<rparr>"

lemma sample_search_filters: "docs_filters sample_search_env sample_search_request = Inr (sample_search_params, None, 1, sample_search_page)"
proof -
  have "normalize_required '' text'' ''query'' = Inr ''text''" by code_simp
  then show ?thesis
    by (simp add: docs_filters_def sample_search_request_def sample_search_params_def sample_search_page_def normalize_optional_def
        resolve_pagination_def sync_page_def docs_search_limit_def clamp_def Let_def)
qed

lemma sample_search_rows:
  "matching_pages like_match (\<lambda>_. ''t'') sample_rustdoc_store (qe_pages sample_search_env) sample_search_params =
     [\<lparr>sr_crate_name = ''demo'', sr_version = ''1.0.0'', sr_path = ''demo/1.0.0/demo/'', sr_title = None, sr_source_url = None,
       sr_indexed_at = ''t'', sr_content = ''some text''\<rparr>]"
  by code_simp

lemma sample_search_hits: "docs_hits ''text'' [\<lparr>sr_crate_name = ''demo'', sr_version = ''1.0.0'', sr_path = ''demo/1.0.0/demo/'',
    sr_title = None, sr_source_url = None, sr_indexed_at = ''t'', sr_content = ''some text''\<rparr>] = Some (dr_hits sample_search_response)"
  by code_simp

lemma sample_search_run:
  "\<exists>cache'. handle_docs_search sample_search_env sample_search_request empty_cache = (Some (Inr sample_search_response), cache')"
proof -
  let ?f = "sample_search_params\<lparr>sp_limit := uint (saturating_add (pp_limit sample_search_page) 1), sp_offset := uint (pp_offset sample_search_page)\<rparr>"
  have l: "uint (saturating_add (pp_limit sample_search_page) 1) = 26" "uint (pp_offset sample_search_page) = 0"
    "unat (pp_limit sample_search_page) = 25"
    by (simp_all add: sample_search_page_def saturating_add_def)
  have "search_docs_pages like_match (\<lambda>_. ''t'') sample_rustdoc_store (qe_pages sample_search_env) ?f =
    [\<lparr>sr_crate_name = ''demo'', sr_version = ''1.0.0'', sr_path = ''demo/1.0.0/demo/'', sr_title = None, sr_source_url = None,
       sr_indexed_at = ''t'', sr_content = ''some text''\<rparr>]"
    unfolding search_docs_pages_def matching_pages_window sample_search_rows using l by simp
  then have "docs_hits (sp_query sample_search_params) (search_docs_pages (qe_ilike sample_search_env) (qe_show_time sample_search_env)
      (qe_store sample_search_env) (qe_pages sample_search_env) ?f) = Some (dr_hits sample_search_response)"
    using sample_search_hits by (simp add: sample_search_env_def sample_search_params_def)
  moreover have "apply_pagination_limit docs_plain_codec (dr_hits sample_search_response) (pp_limit sample_search_page) off mk =
      Inr \<lparr>items = dr_hits sample_search_response, has_more = False, next_cursor = None\<rparr>" for off mk
    unfolding apply_pagination_limit_def Let_def l by (simp add: sample_search_response_def)
  moreover have "docs_response sample_search_params None sample_search_page
      \<lparr>items = dr_hits sample_search_response, has_more = False, next_cursor = None\<rparr> = sample_search_response"
    by (simp add: docs_response_def Let_def sample_search_response_def sample_search_params_def sample_search_page_def docs_confidence_def)
  moreover have "qe_codec sample_search_env = docs_plain_codec" "qe_query_error sample_search_env = None" "qe_write_error sample_search_env = None"
    "qe_read_error sample_search_env = None" "qe_to_value sample_search_env sample_search_response = Inr JNull"
    "qe_key sample_search_env (docs_cache_key sample_search_params None 1 sample_search_page) = Inr ''text''"
    by (simp_all add: sample_search_env_def docs_cache_key_def sample_search_params_def)
  ultimately show ?thesis
    by (simp add: handle_docs_search_def sample_search_filters query_cache_get_def fetch_query_cache_value_def empty_cache_def
        docs_search_uncached_def query_cache_put_def Let_def)
qed

theorem docs_search_page_witness:
  "\<exists>resp cache'. handle_docs_search sample_search_env sample_search_request empty_cache = (Some (Inr resp), cache') \<and>
     (dr_has_more resp \<longleftrightarrow> 25 < length (matching_pages like_match (\<lambda>_. ''t'') sample_rustdoc_store (qe_pages sample_search_env) sample_search_params))"
proof -
  obtain cache' where run: "handle_docs_search sample_search_env sample_search_request empty_cache = (Some (Inr sample_search_response), cache')"
    using sample_search_run by blast
  have k: "qe_key sample_search_env (docs_cache_key sample_search_params None 1 sample_search_page) = Inr ''text''"
    by (simp add: sample_search_env_def docs_cache_key_def sample_search_params_def)
  have e: "fetch_query_cache_value empty_cache (qe_now sample_search_env) ''text'' ''docs_search'' = None"
    by (simp add: empty_cache_def fetch_query_cache_value_def)
  have l: "unat (pp_limit sample_search_page) < 2 ^ 32 - 1" by (simp add: sample_search_page_def)
  have "qe_ilike sample_search_env = like_match" "qe_show_time sample_search_env = (\<lambda>_. ''t'')" "qe_store sample_search_env = sample_rustdoc_store"
    "unat (pp_limit sample_search_page) = 25" "unat (pp_offset sample_search_page) = 0"
    by (simp_all add: sample_search_env_def sample_search_page_def)
  with docs_search_page [OF run sample_search_filters k e l] run show ?thesis unfolding Let_def by (metis add_0)
qed

theorem docs_search_cached_witness:
  "\<exists>resp cache'. handle_docs_search sample_search_env sample_search_request empty_cache = (Some (Inr resp), cache') \<and>
     fst (handle_docs_search (sample_search_env\<lparr>qe_now := 300, qe_pages := [], qe_store := sample_rustdoc_store, qe_read_error := None\<rparr>)
       sample_search_request cache') = Some (Inr resp)"
proof -
  obtain cache' where run: "handle_docs_search sample_search_env sample_search_request empty_cache = (Some (Inr sample_search_response), cache')"
    using sample_search_run by blast
  have "fst (handle_docs_search (sample_search_env\<lparr>qe_now := 300, qe_pages := [], qe_store := sample_rustdoc_store, qe_read_error := None\<rparr>)
       sample_search_request cache') = Some (Inr sample_search_response)"
  proof (rule docs_search_cached [OF run])
    show "cache_inv empty_cache" by (simp add: empty_cache_def cache_inv_def)
    show "docs_filters sample_search_env sample_search_request = Inr (sample_search_params, None, 1, sample_search_page)"
      by (rule sample_search_filters)
    show "qe_key sample_search_env (docs_cache_key sample_search_params None 1 sample_search_page) = Inr ''text''"
      by (simp add: sample_search_env_def docs_cache_key_def sample_search_params_def)
    show "fetch_query_cache_value empty_cache (qe_now sample_search_env) ''text'' ''docs_search'' = None"
      by (simp add: empty_cache_def fetch_query_cache_value_def)
    show "qe_from_value sample_search_env v = Inr r" if "qe_to_value sample_search_env r = Inr v" for r v
      using that by (simp add: sample_search_env_def split: if_splits)
    show "300 < qe_now sample_search_env + 300" by (simp add: sample_search_env_def)
  qed
  with run show ?thesis by blast
qed

end
