(* ===== verification/Feature_Impact.thy ===== *)
theory Feature_Impact
  imports Crate_Versions
begin

text \<open>
  The \<open>dependency_feature_impact\<close> tool (\<open>mcp/tools/dependency/feature_impact.rs\<close>): which optional
  dependencies a feature enables, through the features it enables in turn.  A \<open>HashMap\<close> built by
  inserting rows is looked up in the reversed list of rows, so that a later row replaces an earlier one.
\<close>

section \<open>Splitting and expanding feature targets\<close>

fun split_step :: "string \<Rightarrow> string list \<times> string list \<Rightarrow> string list \<times> string list" where
  "split_step value (features, deps) =
     (let trimmed = trim value
      in if trimmed = [] then (features, deps)
         else (case strip_prefix ''dep:'' trimmed of
             Some dep \<Rightarrow> (features, if trim dep = [] then deps else deps @ [trim dep])
           | None \<Rightarrow> (features @ [trimmed], deps)))"

definition split_feature_targets :: "string list \<Rightarrow> string list \<times> string list" where
  "split_feature_targets values =
     (let (features, deps) = fold split_step values ([], []) in (sort_dedup features, sort_dedup deps))"

type_synonym feature_map = "(string \<times> string list) list"

definition targets :: "feature_map \<Rightarrow> string \<Rightarrow> string list" where
  "targets m f = unwrap_or (map_of m f) []"

lemma unvisited_keys_decrease:
  assumes "f \<in> fst ` set m" "f \<notin> set visited"
  shows "card (fst ` set m - set (f # visited)) < card (fst ` set m - set visited)"
  using assms by (intro psubset_card_mono) auto

function expand_loop :: "feature_map \<Rightarrow> feature_map \<Rightarrow> string list \<Rightarrow> string list \<Rightarrow> string list \<Rightarrow> string list" where
  "expand_loop f2f f2d [] visited deps = deps"
| "expand_loop f2f f2d (feature # queue) visited deps =
     (if feature \<in> set visited then expand_loop f2f f2d queue visited deps
      else (let visited' = feature # visited
            in expand_loop f2f f2d (queue @ filter (\<lambda>c. c \<notin> set visited') (targets f2f feature)) visited'
                 (sort_dedup (deps @ targets f2d feature))))"
  by pat_completeness auto

termination
proof (relation "measures [\<lambda>(f2f, f2d, q, visited, deps). card (fst ` set f2f - set visited),
    \<lambda>(f2f, f2d, q, visited, deps). length q]")
  fix f2f f2d :: feature_map and feature :: string and queue visited deps visited' :: "string list"
  assume a: "feature \<notin> set visited" "visited' = feature # visited"
  show "((f2f, f2d, queue @ filter (\<lambda>c. c \<notin> set visited') (targets f2f feature), visited',
          sort_dedup (deps @ targets f2d feature)), f2f, f2d, feature # queue, visited, deps)
        \<in> measures [\<lambda>(f2f, f2d, q, visited, deps). card (fst ` set f2f - set visited),
            \<lambda>(f2f, f2d, q, visited, deps). length q]"
  proof (cases "feature \<in> fst ` set f2f")
    case True
    with a unvisited_keys_decrease [OF True a(1)] show ?thesis by simp
  next
    case False
    then have "map_of f2f feature = None" by (simp add: map_of_eq_None_iff)
    moreover have "fst ` set f2f - set visited' = fst ` set f2f - set visited" using False a(2) by auto
    ultimately show ?thesis by (simp add: targets_def unwrap_or_def)
  qed
qed auto

definition expand_feature_dependencies :: "string list \<Rightarrow> feature_map \<Rightarrow> feature_map \<Rightarrow> string list" where
  "expand_feature_dependencies roots f2f f2d = expand_loop f2f f2d roots [] []"

section \<open>The expansion is the reachable closure\<close>

definition enables :: "feature_map \<Rightarrow> (string \<times> string) set" where
  "enables m = {(a, b). b \<in> set (targets m a)}"

lemma closed_reach:
  assumes "(x, y) \<in> (enables m)\<^sup>*" "x \<in> V"
    and "\<And>v c. v \<in> V \<Longrightarrow> c \<in> set (targets m v) \<Longrightarrow> c \<in> V \<union> Q"
  shows "y \<in> V \<union> (enables m)\<^sup>* `` Q"
  using assms(1,2)
proof (induction rule: rtrancl_induct)
  case (step y z)
  then have yz: "z \<in> set (targets m y)" "y \<in> V \<union> (enables m)\<^sup>* `` Q" by (auto simp: enables_def)
  show ?case
  proof (cases "y \<in> V")
    case True
    with assms(3) yz(1) show ?thesis by blast
  next
    case False
    with yz(2) obtain q where "q \<in> Q" "(q, y) \<in> (enables m)\<^sup>*" by blast
    with step.hyps(2) show ?thesis by (auto intro: rtrancl_into_rtrancl)
  qed
qed simp

lemma expand_loop_set:
  assumes "\<And>v c. v \<in> set visited \<Longrightarrow> c \<in> set (targets f2f v) \<Longrightarrow> c \<in> set visited \<union> set queue"
  shows "set (expand_loop f2f f2d queue visited deps) =
    set deps \<union> (\<Union>f \<in> (enables f2f)\<^sup>* `` set queue - set visited. set (targets f2d f))"
  using assms
proof (induction f2f f2d queue visited deps rule: expand_loop.induct)
  case (2 f2f f2d feature queue visited deps)
  let ?R = "\<lambda>Q. (enables f2f)\<^sup>* `` Q"
  show ?case
  proof (cases "feature \<in> set visited")
    case True
    have cl: "c \<in> set visited \<union> set queue" if "v \<in> set visited" "c \<in> set (targets f2f v)" for v c
      using "2.prems" [OF that] True by auto
    have "y \<in> set visited \<union> ?R (set queue)" if "(feature, y) \<in> (enables f2f)\<^sup>*" for y
      by (rule closed_reach [OF that True]) (rule cl)
    then have "?R (set (feature # queue)) - set visited = ?R (set queue) - set visited" by auto
    with True "2.IH"(1) [OF True cl] show ?thesis by simp
  next
    case False
    let ?v = "feature # visited"
    let ?q = "queue @ filter (\<lambda>c. c \<notin> set ?v) (targets f2f feature)"
    have cl: "c \<in> set ?v \<union> set ?q" if "v \<in> set ?v" "c \<in> set (targets f2f v)" for v c
      using "2.prems" [of v c] that by auto
    have child: "(feature, c) \<in> enables f2f" if "c \<in> set (targets f2f feature)" for c using that by (simp add: enables_def)
    have "?R (set ?q) \<subseteq> ?R (set (feature # queue))"
      by (auto dest: child intro: converse_rtrancl_into_rtrancl)
    moreover have "?R (set (feature # queue)) \<subseteq> set ?v \<union> ?R (set ?q)"
    proof
      fix y assume "y \<in> ?R (set (feature # queue))"
      then consider "(feature, y) \<in> (enables f2f)\<^sup>*" | "y \<in> ?R (set queue)" by auto
      then show "y \<in> set ?v \<union> ?R (set ?q)"
      proof cases
        case 1
        then show ?thesis by (rule closed_reach) (use cl in auto)
      qed auto
    qed
    ultimately have R: "?R (set (feature # queue)) - set visited = insert feature (?R (set ?q) - set ?v)"
      using False by auto
    have "set (expand_loop f2f f2d (feature # queue) visited deps) =
        set (sort_dedup (deps @ targets f2d feature)) \<union> (\<Union>f \<in> ?R (set ?q) - set ?v. set (targets f2d f))"
      using "2.IH"(2) [OF False refl cl] False by (simp add: Let_def)
    then show ?thesis unfolding R by auto
  qed
qed simp

lemma expand_loop_sorted: "sorted_wrt (<) deps \<Longrightarrow> sorted_wrt (<) (expand_loop f2f f2d queue visited deps)"
  by (induction f2f f2d queue visited deps rule: expand_loop.induct) (simp_all add: Let_def)

lemma expand_set:
  "set (expand_feature_dependencies roots f2f f2d) = (\<Union>f \<in> (enables f2f)\<^sup>* `` set roots. set (targets f2d f))"
  unfolding expand_feature_dependencies_def by (subst expand_loop_set) auto

text \<open>
  The expansion terminates for every feature graph, cyclic ones included, and yields exactly the
  dependencies of the features reachable from the roots, in ascending order without duplicates.
\<close>

theorem expand_feature_dependencies_closure:
  "set (expand_feature_dependencies roots f2f f2d) = (\<Union>f \<in> (enables f2f)\<^sup>* `` set roots. set (targets f2d f)) \<and>
   sorted_wrt (<) (expand_feature_dependencies roots f2f f2d)"
proof
  show "set (expand_feature_dependencies roots f2f f2d) = (\<Union>f \<in> (enables f2f)\<^sup>* `` set roots. set (targets f2d f))"
    by (rule expand_set)
  show "sorted_wrt (<) (expand_feature_dependencies roots f2f f2d)"
    unfolding expand_feature_dependencies_def by (rule expand_loop_sorted) simp
qed

section \<open>The handler\<close>

record feature_impact_request =
  fq_crate_name :: string
  fq_version :: "string option"
  fq_features :: "string list"
  fq_heavy_threshold :: "u32 option"

record feature_impact_entry =
  fi_feature :: string
  fi_additional_dependency_count :: nat
  fi_additional_dependencies :: "string list"

record feature_impact_response =
  fp_crate_name :: string
  fp_selected_version :: string
  fp_latest_version :: string
  fp_features :: "string list"
  fp_heavy_threshold :: u32
  fp_baseline_dependency_count :: nat
  fp_combined_dependency_count :: nat
  fp_per_feature :: "feature_impact_entry list"
  fp_heavy_features :: "string list"
  fp_freshness_check_performed :: bool
  fp_freshness_check_result :: string
  fp_refresh_enqueued :: bool
  fp_refresh_job_id :: "string option"
  fp_freshness :: "response_freshness_source list"
  fp_confidence :: string
  fp_confidence_assessment :: confidence_assessment
  fp_suggested_next_tools :: "string list"
  fp_provenance :: string

definition list_crate_features_for_version :: "feature_row list \<Rightarrow> nat \<Rightarrow> feature_row list" where
  "list_crate_features_for_version table i = sort_key fr_feature_name (filter (\<lambda>r. fr_crate_version_id r = i) table)"

definition list_feature_impact_dependencies_for_version :: "dependency_edge list \<Rightarrow> nat \<Rightarrow> (string \<times> bool) list" where
  "list_feature_impact_dependencies_for_version edges i =
     map (\<lambda>e. (de_to_crate_name e, de_optional e)) (filter (\<lambda>e. de_from_version_id e = i) edges)"

definition feature_maps :: "feature_row list \<Rightarrow> feature_map \<times> feature_map" where
  "feature_maps rows =
     (rev (map (\<lambda>r. (fr_feature_name r, fst (split_feature_targets (value_to_string_vec (fr_enables r))))) rows),
      rev (map (\<lambda>r. (fr_feature_name r, snd (split_feature_targets (value_to_string_vec (fr_enables r))))) rows))"

definition feature_entry :: "feature_map \<times> feature_map \<Rightarrow> (string \<times> bool) list \<Rightarrow> string \<Rightarrow> feature_impact_entry" where
  "feature_entry maps deps feature =
     (let all_dependencies = sort_dedup (map fst deps);
          baseline_dependencies = sort_dedup (map fst (filter (\<lambda>d. \<not> snd d) deps));
          additional = filter (\<lambda>d. d \<in> set all_dependencies \<and> d \<notin> set baseline_dependencies)
            (expand_feature_dependencies [feature] (fst maps) (snd maps))
      in \<lparr>fi_feature = feature, fi_additional_dependency_count = length additional,
          fi_additional_dependencies = additional\<rparr>)"

definition normalize_features :: "string list \<Rightarrow> string list" where
  "normalize_features fs = sort_dedup (filter (\<lambda>f. f \<noteq> []) (map trim fs))"

definition impact_confidence :: "feature_impact_entry list \<Rightarrow> confidence_assessment" where
  "impact_confidence entries =
     (if list_all (\<lambda>e. fi_additional_dependency_count e = 0) entries
      then \<lparr>ca_level = Medium, ca_reason = ''feature enables were resolved but no additional indexed dependencies were detected''\<rparr>
      else \<lparr>ca_level = High, ca_reason = ''feature impact computed from indexed feature metadata and dependency edges''\<rparr>)"

definition impact_response ::
  "(int \<Rightarrow> string) \<Rightarrow> crate_context \<Rightarrow> version_resolution \<Rightarrow> string list \<Rightarrow> u32 \<Rightarrow> feature_row list \<Rightarrow> (string \<times> bool) list \<Rightarrow>
   feature_impact_response" where
  "impact_response show_time ctx res features heavy_threshold rows deps =
     (let entries = map (feature_entry (feature_maps rows) deps) features;
          baseline = sort_dedup (map fst (filter (\<lambda>d. \<not> snd d) deps));
          extras = sort_dedup (concat (map fi_additional_dependencies entries));
          fresh = cx_freshness_outcome ctx; assessment = impact_confidence entries
      in \<lparr>fp_crate_name = cc_name (cx_crate_row ctx), fp_selected_version = cv_version (vs_selected_version res),
          fp_latest_version = cv_version (cx_latest_version ctx), fp_features = features,
          fp_heavy_threshold = heavy_threshold, fp_baseline_dependency_count = length baseline,
          fp_combined_dependency_count = length baseline + length extras, fp_per_feature = entries,
          fp_heavy_features = map fi_feature (filter (\<lambda>e. heavy_threshold \<le> word_of_nat (fi_additional_dependency_count e)) entries),
          fp_freshness_check_performed = io_freshness_check_performed fresh,
          fp_freshness_check_result = io_freshness_check_result fresh,
          fp_refresh_enqueued = vs_refresh_enqueued res, fp_refresh_job_id = vs_refresh_job_id res,
          fp_freshness = [\<lparr>rf_source = ''local_postgres_index'', rf_status = ''fresh'',
                           rf_checked_at = Some (show_time (cc_updated_at (cx_crate_row ctx)))\<rparr>,
                          \<lparr>rf_source = ''crates.io'', rf_status = io_freshness_check_result fresh, rf_checked_at = None\<rparr>],
          fp_confidence = confidence_as_str (ca_level assessment), fp_confidence_assessment = assessment,
          fp_suggested_next_tools = [''crate_features'', ''crate_graph'', ''dependency_resolve''],
          fp_provenance = ''local_postgres_index(crate_version_features, dependency_edges)''\<rparr>)"

definition handle_dependency_feature_impact ::
  "(int \<Rightarrow> string) \<Rightarrow> fresh_env \<Rightarrow> string option \<Rightarrow> string option \<Rightarrow> feature_row list \<Rightarrow> dependency_edge list \<Rightarrow>
   feature_impact_request \<Rightarrow> server_state \<Rightarrow> feature_impact_response result \<times> server_state" where
  "handle_dependency_feature_impact show_time env feature_error dependency_error table edges request srv =
     (case normalize_required (fq_crate_name request) ''crate_name'' of
        Inl e \<Rightarrow> (Inl e, srv)
      | Inr crate_name \<Rightarrow>
     (let features = normalize_features (fq_features request)
      in if features = [] then (Inl ''features must include at least one non-empty feature name'', srv)
         else (case fetch_crate_context env crate_name srv of
             (Inl e, srv1) \<Rightarrow> (Inl e, srv1)
           | (Inr ctx, srv1) \<Rightarrow>
         (case resolve_version_or_latest env ctx (normalize_optional (fq_version request)) srv1 of
             (Inl e, srv2) \<Rightarrow> (Inl e, srv2)
           | (Inr res, srv2) \<Rightarrow>
         (case (feature_error, dependency_error) of
             (Some e, _) \<Rightarrow> (Inl (''dependency_feature_impact feature query failed: '' @ e), srv2)
           | (None, Some e) \<Rightarrow> (Inl (''dependency_feature_impact dependency query failed: '' @ e), srv2)
           | (None, None) \<Rightarrow>
               (Inr (impact_response show_time ctx res features (feature_impact_heavy_threshold (fq_heavy_threshold request))
                  (list_crate_features_for_version table (cv_id (vs_selected_version res)))
                  (list_feature_impact_dependencies_for_version edges (cv_id (vs_selected_version res)))), srv2))))))"

section \<open>What the numbers mean\<close>

lemma card_sort_dedup: "length (sort_dedup xs) = card (set xs)"
  using distinct_card [OF distinct_sort_dedup, of xs] by simp

lemma feature_entry_set:
  "set (fi_additional_dependencies (feature_entry maps deps f)) =
     {d. (d, True) \<in> set deps \<and> (d, False) \<notin> set deps \<and> d \<in> (\<Union>g \<in> (enables (fst maps))\<^sup>* `` {f}. set (targets (snd maps) g))}"
proof -
  have "d \<in> fst ` set deps \<and> d \<notin> fst ` {x \<in> set deps. \<not> snd x} \<longleftrightarrow> (d, True) \<in> set deps \<and> (d, False) \<notin> set deps" for d
    by force
  then show ?thesis
    by (auto simp: feature_entry_def Let_def expand_set)
qed

text \<open>
  (C37) The reported impact is exact with respect to the indexed rows: a feature's additional
  dependencies are the edges that are only optional and reachable through the features it enables;
  the combined count is the number of distinct dependencies among the always-present ones and all
  additional ones.
\<close>

theorem feature_impact_exact:
  "let r = impact_response show_time ctx res features thr rows deps; maps = feature_maps rows;
       extra = (\<lambda>f. {d. (d, True) \<in> set deps \<and> (d, False) \<notin> set deps \<and>
         d \<in> (\<Union>g \<in> (enables (fst maps))\<^sup>* `` {f}. set (targets (snd maps) g))});
       base = {d. (d, False) \<in> set deps}
   in map fi_feature (fp_per_feature r) = features \<and>
      map (\<lambda>e. set (fi_additional_dependencies e)) (fp_per_feature r) = map extra features \<and>
      map fi_additional_dependency_count (fp_per_feature r) = map (\<lambda>f. card (extra f)) features \<and>
      fp_baseline_dependency_count r = card base \<and>
      fp_combined_dependency_count r = card (base \<union> (\<Union>f \<in> set features. extra f))"
proof -
  let ?r = "impact_response show_time ctx res features thr rows deps"
  define maps where "maps = feature_maps rows"
  define extra where "extra f = {d. (d, True) \<in> set deps \<and> (d, False) \<notin> set deps \<and>
         d \<in> (\<Union>g \<in> (enables (fst maps))\<^sup>* `` {f}. set (targets (snd maps) g))}" for f
  define base where "base = {d. (d, False) \<in> set deps}"
  have e: "set (fi_additional_dependencies (feature_entry maps deps f)) = extra f" for f
    unfolding feature_entry_set extra_def ..
  have "sorted_wrt (<) (expand_feature_dependencies [f] (fst maps) (snd maps))" for f
    unfolding expand_feature_dependencies_def by (rule expand_loop_sorted) simp
  then have "distinct (fi_additional_dependencies (feature_entry maps deps f))" for f
    by (auto simp: feature_entry_def Let_def strict_sorted_iff)
  then have "card (extra f) = length (fi_additional_dependencies (feature_entry maps deps f))" for f
    unfolding e [symmetric] by (rule distinct_card)
  then have n: "fi_additional_dependency_count (feature_entry maps deps f) = card (extra f)" for f
    by (simp add: feature_entry_def Let_def)
  have b: "set (map fst (filter (\<lambda>d. \<not> snd d) deps)) = base" by (force simp: base_def)
  have x: "set (concat (map fi_additional_dependencies (map (feature_entry maps deps) features))) = (\<Union>f \<in> set features. extra f)"
    using e by auto
  have "finite base" unfolding b [symmetric] by simp
  moreover have "finite (\<Union>f \<in> set features. extra f)" unfolding x [symmetric] by simp
  moreover have "base \<inter> (\<Union>f \<in> set features. extra f) = {}" by (auto simp: base_def extra_def)
  ultimately have "card base + card (\<Union>f \<in> set features. extra f) = card (base \<union> (\<Union>f \<in> set features. extra f))"
    by (simp add: card_Un_disjoint)
  then have comb: "fp_combined_dependency_count ?r = card (base \<union> (\<Union>f \<in> set features. extra f))"
    unfolding impact_response_def Let_def maps_def [symmetric] feature_impact_response.select_convs card_sort_dedup b x .
  have pf: "fp_per_feature ?r = map (feature_entry maps deps) features"
    by (simp add: impact_response_def Let_def maps_def)
  have base: "fp_baseline_dependency_count ?r = card base"
    unfolding impact_response_def Let_def feature_impact_response.select_convs card_sort_dedup b ..
  have "fi_feature (feature_entry maps deps f) = f" for f by (simp add: feature_entry_def Let_def)
  with comb base e n show ?thesis
    unfolding Let_def maps_def [symmetric] extra_def [symmetric] base_def [symmetric] pf by (simp add: comp_def)
qed

text \<open>
  A target of the form \<open>crate/feature\<close> enables the optional dependency in Cargo; the expansion
  treats it as the name of a feature, so the dependency is not counted.
\<close>

theorem slash_target_not_counted:
  "fi_additional_dependencies (feature_entry
     (feature_maps [\<lparr>fr_crate_version_id = 1, fr_feature_name = ''full'', fr_enables = JArray [JString ''serde/derive'']\<rparr>])
     [(''serde'', True)] ''full'') = [] \<and>
   fi_additional_dependencies (feature_entry
     (feature_maps [\<lparr>fr_crate_version_id = 1, fr_feature_name = ''full'', fr_enables = JArray [JString ''dep:serde'']\<rparr>])
     [(''serde'', True)] ''full'') = [''serde'']"
  by code_simp

end
