(* ===== verification/License.thy ===== *)
theory License
  imports Crate_Versions
begin

text \<open>
  The \<open>crate_license_check\<close> tool (\<open>mcp/tools/krate/license.rs\<close>): the identifiers of a licence
  expression, the evaluation of allow and deny lists, and the handler.  The failures of the three
  licence queries are arguments.
\<close>

section \<open>Policy lists and expressions\<close>

definition ascii_upper :: "char \<Rightarrow> char" where
  "ascii_upper c = (if 97 \<le> (of_char c :: nat) \<and> (of_char c :: nat) \<le> 122 then char_of ((of_char c :: nat) - 32) else c)"

definition to_ascii_uppercase :: "string \<Rightarrow> string" where
  "to_ascii_uppercase s = map ascii_upper s"

text \<open>A \<open>BTreeSet\<close> of strings is the ascending list of its elements.\<close>

definition btree_set :: "string list \<Rightarrow> string list" where
  "btree_set xs = remdups_adj (sort xs)"

lemma set_btree_set [simp]: "set (btree_set xs) = set xs"
  by (simp add: btree_set_def)

definition normalize_policy_list :: "string list option \<Rightarrow> string list" where
  "normalize_policy_list values =
     remdups_adj (sort (filter (\<lambda>v. v \<noteq> []) (map (\<lambda>v. to_ascii_uppercase (trim v)) (unwrap_or values []))))"

definition license_char :: "char \<Rightarrow> bool" where
  "license_char c \<longleftrightarrow>
     (48 \<le> (of_char c :: nat) \<and> (of_char c :: nat) \<le> 57) \<or> (65 \<le> (of_char c :: nat) \<and> (of_char c :: nat) \<le> 90) \<or>
     (97 \<le> (of_char c :: nat) \<and> (of_char c :: nat) \<le> 122) \<or> c \<in> {CHR ''-'', CHR ''.'', CHR ''+'', CHR '':''}"

definition push_identifier :: "string \<Rightarrow> string list \<Rightarrow> string list" where
  "push_identifier token identifiers =
     (let upper = to_ascii_uppercase token
      in if token = [] \<or> upper = ''AND'' \<or> upper = ''OR'' \<or> upper = ''WITH'' then identifiers else identifiers @ [token])"

fun scan_identifiers :: "string \<Rightarrow> string \<Rightarrow> string list \<Rightarrow> string list" where
  "scan_identifiers [] token identifiers = push_identifier token identifiers"
| "scan_identifiers (ch # expression) token identifiers =
     (if license_char ch then scan_identifiers expression (token @ [ch]) identifiers
      else scan_identifiers expression [] (push_identifier token identifiers))"

definition extract_license_identifiers :: "string \<Rightarrow> string list" where
  "extract_license_identifiers expression = btree_set (scan_identifiers expression [] [])"

datatype license_policy_result = LicenseAllowed | LicenseDenied | LicenseUnknown

definition evaluate_policy ::
  "string list \<Rightarrow> string list \<Rightarrow> string list \<Rightarrow> bool \<Rightarrow> license_policy_result \<times> string list" where
  "evaluate_policy matched_licenses allow_licenses deny_licenses has_expression =
     (if \<not> has_expression then (LicenseUnknown, [''license expression is missing for selected version''])
      else
        (let matched_upper = map to_ascii_uppercase matched_licenses;
             denied_matches = filter (\<lambda>d. to_ascii_uppercase d \<in> set matched_upper) deny_licenses
         in if denied_matches \<noteq> [] then (LicenseDenied, [''matched denied licenses: '' @ join '', '' denied_matches])
            else if allow_licenses \<noteq> []
            then (let allowed_matches = filter (\<lambda>a. to_ascii_uppercase a \<in> set matched_upper) allow_licenses
                  in if allowed_matches = [] then (LicenseDenied, [''no matched license is present in allow_licenses''])
                     else (LicenseAllowed, [''matched allowed licenses: '' @ join '', '' allowed_matches]))
            else (LicenseAllowed, [''policy lists not provided; license metadata is informational''])))"

section \<open>Queries\<close>

record crate_version_license_row =
  lr_version :: string
  lr_license_expression :: "string option"

definition license_row :: "version_row \<Rightarrow> crate_version_license_row" where
  "license_row v = \<lparr>lr_version = cv_version v, lr_license_expression = vr_license_expression v\<rparr>"

definition fetch_latest_crate_license_for_crate :: "crate_store \<Rightarrow> nat \<Rightarrow> crate_version_license_row option" where
  "fetch_latest_crate_license_for_crate st crate_id =
     (case sort_key newest_key (filter (\<lambda>v. vr_crate_id v = crate_id) (st_versions st)) of
        [] \<Rightarrow> None | v # _ \<Rightarrow> Some (license_row v))"

definition fetch_crate_license_for_version :: "crate_store \<Rightarrow> nat \<Rightarrow> string \<Rightarrow> crate_version_license_row option" where
  "fetch_crate_license_for_version st crate_id ver =
     map_option license_row (find (\<lambda>v. vr_crate_id v = crate_id \<and> cv_version v = ver) (st_versions st))"

section \<open>The handler\<close>

record crate_license_check_request =
  lq_crate_name :: string
  lq_version :: "string option"
  lq_allow_licenses :: "string list option"
  lq_deny_licenses :: "string list option"

record crate_license_check_response =
  lp_crate_name :: string
  lp_selected_version :: string
  lp_latest_version :: string
  lp_license_expression :: "string option"
  lp_matched_licenses :: "string list"
  lp_allow_licenses :: "string list"
  lp_deny_licenses :: "string list"
  lp_policy_result :: license_policy_result
  lp_policy_reasons :: "string list"
  lp_freshness_check_performed :: bool
  lp_freshness_check_result :: string
  lp_refresh_enqueued :: bool
  lp_refresh_job_id :: "string option"
  lp_freshness :: "response_freshness_source list"
  lp_confidence :: string
  lp_confidence_assessment :: confidence_assessment
  lp_suggested_next_tools :: "string list"
  lp_provenance :: string

record license_faults =
  lf_latest :: "string option"
  lf_selected :: "string option"
  lf_after_backfill :: "string option"

definition license_confidence :: "string option \<Rightarrow> string list \<Rightarrow> confidence_assessment" where
  "license_confidence expression matched =
     (if expression = None then \<lparr>ca_level = Low, ca_reason = ''no license metadata available for selected crate version''\<rparr>
      else if matched = [] then \<lparr>ca_level = Medium, ca_reason = ''license expression was present but no SPDX-like identifiers were parsed''\<rparr>
      else \<lparr>ca_level = High, ca_reason = ''license expression and SPDX-like identifiers were parsed''\<rparr>)"

definition latest_license :: "license_faults \<Rightarrow> string \<Rightarrow> crate_context \<Rightarrow> crate_store \<Rightarrow> crate_version_license_row result" where
  "latest_license faults crate_name ctx st =
     (case lf_latest faults of
        Some e \<Rightarrow> Inl (''latest license version lookup failed for '' @ crate_name @ '': '' @ e)
      | None \<Rightarrow>
          (case fetch_latest_crate_license_for_crate st (cc_id (cx_crate_row ctx)) of
             None \<Rightarrow> Inl (no_versions_message (cc_name (cx_crate_row ctx)))
           | Some row \<Rightarrow> Inr row))"

text \<open>The selected row, with the refresh that looking it up may have caused.\<close>

definition selected_license ::
  "license_faults \<Rightarrow> fresh_env \<Rightarrow> crate_context \<Rightarrow> crate_version_license_row \<Rightarrow> string option \<Rightarrow> server_state \<Rightarrow>
   (crate_version_license_row \<times> bool \<times> string option) result \<times> server_state" where
  "selected_license faults env ctx latest_row requested_version srv =
     (let name = cc_name (cx_crate_row ctx); i = cc_id (cx_crate_row ctx);
          enqueued = io_refresh_enqueued (cx_freshness_outcome ctx); job = io_refresh_job_id (cx_freshness_outcome ctx)
      in case requested_version of
           None \<Rightarrow> (Inr (latest_row, enqueued, job), srv)
         | Some ver \<Rightarrow>
     (case lf_selected faults of
        Some e \<Rightarrow> (Inl (''selected version lookup failed for '' @ at_name name ver @ '': '' @ e), srv)
      | None \<Rightarrow>
     (case fetch_crate_license_for_version (sv_store srv) i ver of
        Some row \<Rightarrow> (Inr (row, enqueued, job), srv)
      | None \<Rightarrow>
     (case backfill_missing_requested_version env name srv of
        (Inl e, srv') \<Rightarrow> (Inl e, srv')
      | (Inr queued, srv') \<Rightarrow>
     (case lf_after_backfill faults of
        Some e \<Rightarrow> (Inl (''selected version lookup failed after backfill for '' @ at_name name ver @ '': '' @ e), srv')
      | None \<Rightarrow>
     (case fetch_crate_license_for_version (sv_store srv') i ver of
        Some row \<Rightarrow> (Inr (row, if queued \<noteq> None then (True, queued) else (enqueued, job)), srv')
      | None \<Rightarrow> (Inl (''version '' @ [CHR 0x27] @ ver @ [CHR 0x27] @ '' for crate '' @ [CHR 0x27] @ name @ [CHR 0x27] @
           '' is not indexed locally (refresh attempted)''), srv')))))))"

definition license_response ::
  "(int \<Rightarrow> string) \<Rightarrow> crate_context \<Rightarrow> crate_version_license_row \<Rightarrow> crate_version_license_row \<Rightarrow> bool \<Rightarrow> string option \<Rightarrow>
   string list \<Rightarrow> string list \<Rightarrow> crate_license_check_response" where
  "license_response show_time ctx latest_row row enqueued job allow_licenses deny_licenses =
     (let matched = (case lr_license_expression row of None \<Rightarrow> [] | Some e \<Rightarrow> extract_license_identifiers e);
          policy = evaluate_policy matched allow_licenses deny_licenses (lr_license_expression row \<noteq> None);
          assessment = license_confidence (lr_license_expression row) matched;
          fresh = cx_freshness_outcome ctx
      in \<lparr>lp_crate_name = cc_name (cx_crate_row ctx), lp_selected_version = lr_version row, lp_latest_version = lr_version latest_row,
          lp_license_expression = lr_license_expression row, lp_matched_licenses = matched,
          lp_allow_licenses = allow_licenses, lp_deny_licenses = deny_licenses,
          lp_policy_result = fst policy, lp_policy_reasons = snd policy,
          lp_freshness_check_performed = io_freshness_check_performed fresh,
          lp_freshness_check_result = io_freshness_check_result fresh,
          lp_refresh_enqueued = enqueued, lp_refresh_job_id = job,
          lp_freshness = build_crate_freshness_sources (Some (show_time (cc_updated_at (cx_crate_row ctx)))) (io_freshness_check_result fresh),
          lp_confidence = confidence_as_str (ca_level assessment), lp_confidence_assessment = assessment,
          lp_suggested_next_tools = [''crate_intel'', ''crate_versions'', ''index_refresh''], lp_provenance = ''local_postgres_index''\<rparr>)"

definition handle_crate_license_check ::
  "(int \<Rightarrow> string) \<Rightarrow> fresh_env \<Rightarrow> license_faults \<Rightarrow> crate_license_check_request \<Rightarrow> server_state \<Rightarrow>
   crate_license_check_response result \<times> server_state" where
  "handle_crate_license_check show_time env faults request srv =
     (case normalize_required (lq_crate_name request) ''crate_name'' of
        Inl e \<Rightarrow> (Inl e, srv)
      | Inr crate_name \<Rightarrow>
     (case fetch_crate_context env crate_name srv of
        (Inl e, srv1) \<Rightarrow> (Inl e, srv1)
      | (Inr ctx, srv1) \<Rightarrow>
     (case latest_license faults crate_name ctx (sv_store srv1) of
        Inl e \<Rightarrow> (Inl e, srv1)
      | Inr latest_row \<Rightarrow>
     (case selected_license faults env ctx latest_row (normalize_optional (lq_version request)) srv1 of
        (Inl e, srv2) \<Rightarrow> (Inl e, srv2)
      | (Inr (row, enqueued, job), srv2) \<Rightarrow>
          (Inr (license_response show_time ctx latest_row row enqueued job (normalize_policy_list (lq_allow_licenses request))
                  (normalize_policy_list (lq_deny_licenses request))), srv2)))))"

section \<open>The identifiers of an expression\<close>

text \<open>An identifier of an expression: a maximal run of licence characters that is not an operator.\<close>

definition license_run :: "string \<Rightarrow> string \<Rightarrow> bool" where
  "license_run expression t \<longleftrightarrow>
     t \<noteq> [] \<and> (\<exists>a b. expression = a @ t @ b \<and> list_all license_char t \<and>
       (a = [] \<or> \<not> license_char (last a)) \<and> (b = [] \<or> \<not> license_char (hd b)))"

definition license_operator :: "string \<Rightarrow> bool" where
  "license_operator t \<longleftrightarrow> to_ascii_uppercase t \<in> {''AND'', ''OR'', ''WITH''}"

lemma license_run_all: "list_all license_char w \<Longrightarrow> license_run w t \<longleftrightarrow> t = w \<and> w \<noteq> []"
proof
  assume all: "list_all license_char w" and "license_run w t"
  then obtain a b where w: "w = a @ t @ b" "t \<noteq> []" "a = [] \<or> \<not> license_char (last a)" "b = [] \<or> \<not> license_char (hd b)"
    by (auto simp: license_run_def)
  have "a = []" using all w(1,3) by (auto simp: list_all_iff)
  moreover have "b = []" using all w(1,4) by (cases b) (auto simp: list_all_iff)
  ultimately show "t = w \<and> w \<noteq> []" using w by simp
next
  assume "list_all license_char w" and "t = w \<and> w \<noteq> []"
  then show "license_run w t" unfolding license_run_def by (auto intro!: exI [of _ "[]"])
qed

lemma license_run_sep:
  assumes all: "list_all license_char w" and sep: "\<not> license_char c"
  shows "license_run (w @ c # e) t \<longleftrightarrow> (t = w \<and> w \<noteq> []) \<or> license_run e t"
proof
  assume "license_run (w @ c # e) t"
  then obtain a b where eq: "w @ c # e = a @ t @ b" and t: "t \<noteq> []" "list_all license_char t"
    and a: "a = [] \<or> \<not> license_char (last a)" and b: "b = [] \<or> \<not> license_char (hd b)"
    by (auto simp: license_run_def)
  from eq consider us where "w = a @ us" "us @ c # e = t @ b" | us where "w @ us = a" "c # e = us @ t @ b"
    by (auto simp: append_eq_append_conv2)
  then show "(t = w \<and> w \<noteq> []) \<or> license_run e t"
  proof cases
    case 1
    then have "a = []" using all a by (auto simp: list_all_iff)
    moreover have "t = us"
      using 1(2) unfolding append_eq_append_conv2
    proof (elim exE disjE conjE)
      fix vs assume "us @ vs = t" "c # e = vs @ b"
      then show "t = us" using t(2) sep by (cases vs) auto
    next
      fix vs assume v: "us = t @ vs" "vs @ c # e = b"
      then show "t = us" using b all 1(1) by (cases vs) (auto simp: list_all_iff)
    qed
    ultimately show ?thesis using 1(1) t(1) by simp
  next
    case 2
    then obtain a' where us: "us = c # a'" using t sep by (cases us) (auto, cases t, auto)
    then have "e = a' @ t @ b" using 2(2) by simp
    moreover have "a' = [] \<or> \<not> license_char (last a')" using a 2(1) us by auto
    ultimately show ?thesis using t b by (auto simp: license_run_def)
  qed
next
  assume "(t = w \<and> w \<noteq> []) \<or> license_run e t"
  then show "license_run (w @ c # e) t"
  proof
    assume "t = w \<and> w \<noteq> []"
    then have "w @ c # e = [] @ t @ (c # e)" and "t \<noteq> []" and "list_all license_char t" and "\<not> license_char (hd (c # e))"
      using all sep by auto
    then show ?thesis unfolding license_run_def by blast
  next
    assume "license_run e t"
    then obtain a b where r: "e = a @ t @ b" "t \<noteq> []" "list_all license_char t" "a = [] \<or> \<not> license_char (last a)"
      "b = [] \<or> \<not> license_char (hd b)" by (auto simp: license_run_def)
    have "w @ c # e = (w @ c # a) @ t @ b" and "\<not> license_char (last (w @ c # a))" using r(1,4) sep by auto
    then show ?thesis using r unfolding license_run_def by blast
  qed
qed

lemma push_identifier_set:
  "set (push_identifier t ids) = set ids \<union> {u. u = t \<and> t \<noteq> [] \<and> \<not> license_operator t}"
  by (auto simp: push_identifier_def license_operator_def Let_def)

lemma scan_identifiers_set:
  "list_all license_char token \<Longrightarrow>
   set (scan_identifiers e token ids) = set ids \<union> {t. license_run (token @ e) t \<and> \<not> license_operator t}"
proof (induction e token ids rule: scan_identifiers.induct)
  case (1 token ids)
  then show ?case by (auto simp: push_identifier_set license_run_all)
next
  case (2 ch e token ids)
  have "license_run [] t = False" for t by (simp add: license_run_def)
  with 2 show ?case by (auto simp: push_identifier_set license_run_sep)
qed

lemma distinct_remdups_adj_sorted: "sorted xs \<Longrightarrow> distinct (remdups_adj xs)"
proof (induction xs rule: remdups_adj.induct)
  case (3 x y xs)
  then show ?case by (cases "x = y") (auto simp: less_le_not_le)
qed simp_all

text \<open>The identifiers of an expression are its maximal runs other than the operators, in ascending order, each once.\<close>

theorem extract_license_identifiers_exact:
  "set (extract_license_identifiers e) = {t. license_run e t \<and> \<not> license_operator t} \<and>
   sorted (extract_license_identifiers e) \<and> distinct (extract_license_identifiers e)"
proof -
  have "distinct (remdups_adj (sort xs))" for xs :: "string list"
    by (rule distinct_remdups_adj_sorted) simp
  then show ?thesis
    using scan_identifiers_set [of "[]" e "[]"] by (simp add: extract_license_identifiers_def btree_set_def sorted_remdups_adj)
qed

section \<open>The verdict\<close>

text \<open>An entry of a policy list names a licence of the expression without regard to case.\<close>

definition names_license :: "string \<Rightarrow> string \<Rightarrow> bool" where
  "names_license e l \<longleftrightarrow> (\<exists>t. license_run e t \<and> \<not> license_operator t \<and> to_ascii_uppercase t = to_ascii_uppercase l)"

definition policy_spec :: "string option \<Rightarrow> string list \<Rightarrow> string list \<Rightarrow> license_policy_result" where
  "policy_spec expression allow deny =
     (case expression of
        None \<Rightarrow> LicenseUnknown
      | Some e \<Rightarrow>
          if (\<exists>l \<in> set deny. names_license e l) \<or> (allow \<noteq> [] \<and> \<not> (\<exists>l \<in> set allow. names_license e l))
          then LicenseDenied else LicenseAllowed)"

lemma matched_names: "to_ascii_uppercase l \<in> set (map to_ascii_uppercase (extract_license_identifiers e)) \<longleftrightarrow> names_license e l"
  using extract_license_identifiers_exact [of e] by (auto simp: names_license_def image_iff)

lemma evaluate_policy_spec:
  "fst (evaluate_policy (case x of None \<Rightarrow> [] | Some e \<Rightarrow> extract_license_identifiers e) allow deny (x \<noteq> None)) = policy_spec x allow deny"
proof (cases x)
  case (Some e)
  show ?thesis
    unfolding Some policy_spec_def evaluate_policy_def option.case Let_def matched_names
    by (auto simp: filter_empty_conv)
qed (simp add: evaluate_policy_def policy_spec_def)

lemma latest_license_row:
  assumes "fetch_latest_crate_license_for_crate st i = Some row"
  shows "\<exists>v \<in> set (st_versions st). vr_crate_id v = i \<and> row = license_row v \<and>
    (\<forall>w \<in> set (st_versions st). vr_crate_id w = i \<longrightarrow> newest_key v \<le> newest_key w)"
proof -
  obtain v vs where v: "sort_key newest_key (filter (\<lambda>v. vr_crate_id v = i) (st_versions st)) = v # vs" "row = license_row v"
    using assms by (auto simp: fetch_latest_crate_license_for_crate_def split: list.splits)
  from sort_key_hd [OF v(1)] v(2) show ?thesis by auto
qed

lemma version_license_row:
  "fetch_crate_license_for_version st i ver = Some row \<Longrightarrow>
   \<exists>v \<in> set (st_versions st). vr_crate_id v = i \<and> cv_version v = ver \<and> row = license_row v"
  by (auto simp: fetch_crate_license_for_version_def find_Some_iff)

text \<open>
  (C36) A licence check answers for a version of the crate in the index: the requested one, or a newest one when none
  is requested.  Its expression is the stored one, and the verdict is unknown exactly when there is no
  expression; otherwise denied exactly when a deny entry names a licence of the expression, or there
  is an allow list and none of its entries does.
\<close>

theorem license_check_correct:
  assumes "handle_crate_license_check show_time env faults request srv = (Inr resp, srv')"
  shows "\<exists>ctx srv1. fetch_crate_context env (trim (lq_crate_name request)) srv = (Inr ctx, srv1) \<and> lp_crate_name resp = cc_name (cx_crate_row ctx) \<and>
    (\<exists>v \<in> set (st_versions (sv_store srv')). vr_crate_id v = cc_id (cx_crate_row ctx) \<and> cv_version v = lp_selected_version resp \<and>
       (case normalize_optional (lq_version request) of
          Some ver \<Rightarrow> cv_version v = ver
        | None \<Rightarrow> \<forall>w \<in> set (st_versions (sv_store srv')). vr_crate_id w = vr_crate_id v \<longrightarrow> newest_key v \<le> newest_key w) \<and>
       lp_license_expression resp = vr_license_expression v \<and>
       lp_policy_result resp = policy_spec (vr_license_expression v)
         (normalize_policy_list (lq_allow_licenses request)) (normalize_policy_list (lq_deny_licenses request)))"
proof -
  obtain name ctx srv1 latest_row row enqueued job where
    n: "normalize_required (lq_crate_name request) ''crate_name'' = Inr name" and
    c: "fetch_crate_context env name srv = (Inr ctx, srv1)" and
    l: "latest_license faults name ctx (sv_store srv1) = Inr latest_row" and
    s: "selected_license faults env ctx latest_row (normalize_optional (lq_version request)) srv1 = (Inr (row, enqueued, job), srv')" and
    r: "resp = license_response show_time ctx latest_row row enqueued job (normalize_policy_list (lq_allow_licenses request))
                  (normalize_policy_list (lq_deny_licenses request))"
    using assms unfolding handle_crate_license_check_def by (auto split: sum.splits prod.splits)
  have name: "name = trim (lq_crate_name request)" using n by (auto simp: normalize_required_def Let_def split: if_splits)
  have "\<exists>v \<in> set (st_versions (sv_store srv')). vr_crate_id v = cc_id (cx_crate_row ctx) \<and> row = license_row v \<and>
       (case normalize_optional (lq_version request) of
          Some ver \<Rightarrow> cv_version v = ver
        | None \<Rightarrow> \<forall>w \<in> set (st_versions (sv_store srv')). vr_crate_id w = vr_crate_id v \<longrightarrow> newest_key v \<le> newest_key w)"
  proof (cases "normalize_optional (lq_version request)")
    case None
    then have "row = latest_row" "srv' = srv1" using s by (auto simp: selected_license_def Let_def)
    moreover have "fetch_latest_crate_license_for_crate (sv_store srv1) (cc_id (cx_crate_row ctx)) = Some latest_row"
      using l by (auto simp: latest_license_def split: option.splits)
    ultimately show ?thesis using latest_license_row None by fastforce
  next
    case (Some ver)
    then have "fetch_crate_license_for_version (sv_store srv') (cc_id (cx_crate_row ctx)) ver = Some row"
      using s by (auto simp: selected_license_def Let_def split: option.splits prod.splits sum.splits if_splits)
    from version_license_row [OF this] Some show ?thesis by auto
  qed
  then obtain v where v: "v \<in> set (st_versions (sv_store srv'))" "vr_crate_id v = cc_id (cx_crate_row ctx)" "row = license_row v"
    "case normalize_optional (lq_version request) of
          Some ver \<Rightarrow> cv_version v = ver
        | None \<Rightarrow> \<forall>w \<in> set (st_versions (sv_store srv')). vr_crate_id w = vr_crate_id v \<longrightarrow> newest_key v \<le> newest_key w"
    by blast
  have resp: "lp_crate_name resp = cc_name (cx_crate_row ctx)" "lp_selected_version resp = cv_version v"
    "lp_license_expression resp = vr_license_expression v"
    "lp_policy_result resp = policy_spec (vr_license_expression v)
         (normalize_policy_list (lq_allow_licenses request)) (normalize_policy_list (lq_deny_licenses request))"
    using evaluate_policy_spec [of "vr_license_expression v"] by (simp_all add: r v(3) license_response_def license_row_def Let_def)
  show ?thesis
    by (rule exI [of _ ctx], rule exI [of _ srv1], intro conjI bexI [OF _ v(1)])
      (use c name resp v in simp_all)
qed

text \<open>
  An expression that requires two licences is allowed as soon as the allow list has one of them.
\<close>

theorem conjunctive_license_allowed:
  "evaluate_policy (extract_license_identifiers ''MIT AND GPL-3.0'') (normalize_policy_list (Some [''mit''])) [] True =
     (LicenseAllowed, [''matched allowed licenses: MIT''])"
  by code_simp

definition sample_license_call :: "crate_license_check_response result \<times> server_state" where
  "sample_license_call = handle_crate_license_check (\<lambda>_. []) (sample_fresh_env ''1.0.0'' 1000)
     \<lparr>lf_latest = None, lf_selected = None, lf_after_backfill = None\<rparr>
     \<lparr>lq_crate_name = '' Serde'', lq_version = None, lq_allow_licenses = Some [''mit''], lq_deny_licenses = None\<rparr> sample_server"

lemma sample_license_ok: "case sample_license_call of (Inr _, _) \<Rightarrow> True | _ \<Rightarrow> False"
  by code_simp

theorem license_check_correct_witness:
  "case sample_license_call of
     (Inr resp, srv') \<Rightarrow> \<exists>v \<in> set (st_versions (sv_store srv')).
       lp_policy_result resp = policy_spec (vr_license_expression v) (normalize_policy_list (Some [''mit''])) (normalize_policy_list None)
   | _ \<Rightarrow> False"
proof -
  obtain resp srv' where r: "sample_license_call = (Inr resp, srv')" using sample_license_ok by (auto split: prod.splits sum.splits)
  show ?thesis using license_check_correct [OF r [unfolded sample_license_call_def]] unfolding r by fastforce
qed

end
