(* ===== verification/Syn_Extract.thy ===== *)
theory Syn_Extract
  imports Index_Rows Rustdoc_Types
begin

text \<open>
  Extraction of index rows from Rust source (\<open>extract_rust_symbols\<close> of \<open>mcp/indexing/local_cache.rs\<close>).
  The parser is the \<open>syn\<close> crate: its syntax tree is a datatype with the parts that the code reads, and
  the text that \<open>quote\<close> prints for a subtree is carried by the subtree.
\<close>

section \<open>Syntax trees\<close>

record syn_path =
  sp_segments :: "string list"
  sp_tokens :: string

datatype syn_type_shape =
    SynPath "string list"
  | SynReference syn_type_shape
  | SynParen syn_type_shape
  | SynGroup syn_type_shape
  | SynOtherType

record syn_type =
  st_shape :: syn_type_shape
  st_tokens :: string

record syn_field =
  fd_ident :: "string option"
  fd_ty :: syn_type

record syn_variant =
  va_ident :: string
  va_fields :: "syn_field list"
  va_discriminant :: "string option"

text \<open>An attribute: whether its path is \<open>derive\<close>, and its arguments when they parse as paths.\<close>

record syn_attribute =
  ar_is_derive :: bool
  ar_paths :: "syn_path list option"

datatype syn_visibility = VisPublic | VisOther

text \<open>What every named item has: its identifier, visibility, generic parameters (printed) and attributes.\<close>

record syn_head =
  sh_ident :: string
  sh_vis :: syn_visibility
  sh_generics :: "string list"
  sh_attrs :: "syn_attribute list"

datatype syn_impl_item = ImplFn string string | ImplOther

record syn_impl =
  si_self_ty :: syn_type
  si_trait :: "syn_path option"
  si_items :: "syn_impl_item list"

datatype syn_item =
    SynFn syn_head
  | SynStruct syn_head "syn_field list"
  | SynEnum syn_head "syn_variant list"
  | SynUnion syn_head "syn_field list"
  | SynTrait syn_head
  | SynTypeAlias syn_head
  | SynConst syn_head
  | SynStatic syn_head
  | SynMod syn_head
  | SynImpl syn_impl
  | SynOtherItem

section \<open>Helpers\<close>

definition normalize_symbol_signature :: "string \<Rightarrow> string option" where
  "normalize_symbol_signature line =
     (let trimmed = trim line in if trimmed = [] then None else Some (fst (take_chars 240 trimmed)))"

definition extract_generic_params :: "syn_head \<Rightarrow> json" where
  "extract_generic_params h = json_strings (sh_generics h)"

fun extract_type_terminal_name :: "syn_type_shape \<Rightarrow> string option" where
  "extract_type_terminal_name (SynPath segments) = (if segments = [] then None else Some (last segments))"
| "extract_type_terminal_name (SynReference elem) = extract_type_terminal_name elem"
| "extract_type_terminal_name (SynParen elem) = extract_type_terminal_name elem"
| "extract_type_terminal_name (SynGroup elem) = extract_type_terminal_name elem"
| "extract_type_terminal_name SynOtherType = None"

definition derive_traits :: "syn_attribute list \<Rightarrow> (string \<times> string) list" where
  "derive_traits attrs =
     concat (map (\<lambda>attr.
       if \<not> ar_is_derive attr then []
       else (case ar_paths attr of
           None \<Rightarrow> []
         | Some paths \<Rightarrow>
             List.map_filter (\<lambda>p. if sp_segments p = [] then None else Some (last (sp_segments p), sp_tokens p)) paths)) attrs)"

definition line_for_symbol_name :: "string \<Rightarrow> string \<Rightarrow> int" where
  "line_for_symbol_name content name =
     (case find (\<lambda>(idx, line). contains name line) (enumerate 0 (str_lines content)) of
        Some (idx, line) \<Rightarrow> as_i32 (of_nat (idx + 1) :: 64 word)
      | None \<Rightarrow> 1)"

definition line_for_method_name :: "string \<Rightarrow> string \<Rightarrow> int" where
  "line_for_method_name content method_name = line_for_symbol_name content (''fn '' @ method_name)"

text \<open>
  \<open>content.lines().nth((line.saturating_sub(1)) as usize)\<close>: a negative number becomes an index
  beyond the end.
\<close>

definition nth_line :: "string \<Rightarrow> int \<Rightarrow> string option" where
  "nth_line content line =
     (let i = line - 1; ls = str_lines content
      in if i < 0 \<or> int (length ls) \<le> i then None else Some (ls ! nat i))"

definition line_signature :: "string \<Rightarrow> int \<Rightarrow> string option" where
  "line_signature content line = Option.bind (nth_line content line) normalize_symbol_signature"

fun vis_string :: "syn_visibility \<Rightarrow> string option" where
  "vis_string VisPublic = Some ''public''"
| "vis_string VisOther = Some ''private''"

section \<open>Rows\<close>

definition syn_symbol :: "string \<Rightarrow> string \<Rightarrow> syn_head \<Rightarrow> indexed_symbol_insert" where
  "syn_symbol content kind h =
     (let start_line = line_for_symbol_name content (sh_ident h)
      in \<lparr>sy_name = sh_ident h, sy_kind = kind, sy_visibility = vis_string (sh_vis h),
          sy_signature = line_signature content start_line,
          sy_start_line = start_line, sy_end_line = start_line, sy_rustdoc_item_id = None, sy_canonical_path = None,
          sy_definition_path = None, sy_deprecated_since = None, sy_deprecated_note = None, sy_docs = None, sy_attrs = None\<rparr>)"

definition syn_field_json :: "syn_field \<Rightarrow> json" where
  "syn_field_json f = json_obj [(''name'', json_opt (fd_ident f)), (''type'', JString (st_tokens (fd_ty f)))]"

definition syn_variant_json :: "syn_variant \<Rightarrow> json" where
  "syn_variant_json v =
     json_obj [(''name'', JString (va_ident v)), (''fields'', JArray (map syn_field_json (va_fields v))),
               (''discriminant'', json_opt (va_discriminant v))]"

definition syn_type_row :: "string \<Rightarrow> string \<Rightarrow> syn_head \<Rightarrow> json \<Rightarrow> json \<Rightarrow> indexed_type_insert" where
  "syn_type_row content kind h type_fields variants =
     (let start_line = line_for_symbol_name content (sh_ident h)
      in \<lparr>ty_type_name = sh_ident h, ty_kind = kind, ty_visibility = vis_string (sh_vis h),
          ty_generic_params = extract_generic_params h, ty_fields = type_fields, ty_variants = variants,
          ty_start_line = start_line, ty_end_line = start_line, ty_rustdoc_item_id = None, ty_canonical_path = None,
          ty_definition_path = None, ty_deprecated_since = None, ty_deprecated_note = None, ty_is_non_exhaustive = False,
          ty_auto_traits = JArray [], ty_where_clauses = JArray [], ty_docs = None, ty_attrs = None\<rparr>)"

definition impl_row ::
  "string \<Rightarrow> string option \<Rightarrow> string option \<Rightarrow> string option \<Rightarrow> string \<Rightarrow> json \<Rightarrow> int \<Rightarrow> indexed_impl_insert" where
  "impl_row type_name type_name_display trait_name trait_name_display impl_kind methods start_line =
     \<lparr>ii_type_name = type_name, ii_type_name_display = type_name_display, ii_trait_name = trait_name,
      ii_trait_name_display = trait_name_display, ii_impl_kind = impl_kind, ii_methods = methods,
      ii_start_line = start_line, ii_end_line = start_line, ii_rustdoc_item_id = None, ii_is_blanket = False,
      ii_is_synthetic = False, ii_is_negative = False, ii_blanket_type = None, ii_generics = JArray [],
      ii_where_clauses = JArray [], ii_docs = None\<rparr>"

definition derive_rows :: "string \<Rightarrow> syn_head \<Rightarrow> indexed_impl_insert list" where
  "derive_rows content h =
     map (\<lambda>(trait_name, trait_name_display).
       impl_row (sh_ident h) (Some (sh_ident h)) (Some trait_name) (Some trait_name_display) ''derive'' (JArray [])
         (line_for_symbol_name content (sh_ident h))) (derive_traits (sh_attrs h))"

fun method_name :: "syn_impl_item \<Rightarrow> string option" where
  "method_name (ImplFn name tokens) = Some name"
| "method_name ImplOther = None"

fun method_entry :: "string \<Rightarrow> syn_impl_item \<Rightarrow> json option" where
  "method_entry content (ImplFn name tokens) =
     Some (json_obj [(''name'', JString name),
       (''signature'', json_opt (case line_signature content (line_for_method_name content name) of
          Some s \<Rightarrow> Some s | None \<Rightarrow> Some tokens))])"
| "method_entry content ImplOther = None"

definition impl_start_line :: "string \<Rightarrow> string \<Rightarrow> syn_impl_item list \<Rightarrow> int" where
  "impl_start_line content type_name items =
     (case map (line_for_method_name content) (List.map_filter method_name items) of
        [] \<Rightarrow> line_for_symbol_name content type_name
      | l # ls \<Rightarrow> fold min ls l)"

definition syn_impl_rows :: "string \<Rightarrow> syn_impl \<Rightarrow> indexed_impl_insert list" where
  "syn_impl_rows content i =
     (case extract_type_terminal_name (st_shape (si_self_ty i)) of
        None \<Rightarrow> []
      | Some type_name \<Rightarrow>
          (let (trait_name, trait_name_display, impl_kind) =
                 (case si_trait i of
                    Some p \<Rightarrow> (if sp_segments p = [] then None else Some (last (sp_segments p)), Some (sp_tokens p), ''trait'')
                  | None \<Rightarrow> (None, None, ''inherent''))
           in [impl_row type_name (Some (st_tokens (si_self_ty i))) trait_name trait_name_display impl_kind
                 (JArray (List.map_filter (method_entry content) (si_items i))) (impl_start_line content type_name (si_items i))]))"

text \<open>The three vectors that one item is pushed to.\<close>

type_synonym item_batch = "indexed_symbol_insert list \<times> indexed_type_insert list \<times> indexed_impl_insert list"

definition symbol_rows :: "string \<Rightarrow> string \<Rightarrow> syn_head \<Rightarrow> item_batch" where
  "symbol_rows content kind h = ([syn_symbol content kind h], [], [])"

definition struct_rows :: "string \<Rightarrow> syn_head \<Rightarrow> syn_field list \<Rightarrow> item_batch" where
  "struct_rows content h fs =
     ([syn_symbol content ''struct'' h], [syn_type_row content ''struct'' h (JArray (map syn_field_json fs)) (JArray [])], derive_rows content h)"

definition enum_rows :: "string \<Rightarrow> syn_head \<Rightarrow> syn_variant list \<Rightarrow> item_batch" where
  "enum_rows content h vs =
     ([syn_symbol content ''enum'' h], [syn_type_row content ''enum'' h (JArray []) (JArray (map syn_variant_json vs))], derive_rows content h)"

definition union_rows :: "string \<Rightarrow> syn_head \<Rightarrow> syn_field list \<Rightarrow> item_batch" where
  "union_rows content h fs =
     ([syn_symbol content ''union'' h], [syn_type_row content ''union'' h (JArray (map syn_field_json fs)) (JArray [])], derive_rows content h)"

fun item_rows :: "string \<Rightarrow> syn_item \<Rightarrow> item_batch" where
  "item_rows content (SynFn h) = symbol_rows content ''function'' h"
| "item_rows content (SynStruct h fs) = struct_rows content h fs"
| "item_rows content (SynEnum h vs) = enum_rows content h vs"
| "item_rows content (SynUnion h fs) = union_rows content h fs"
| "item_rows content (SynTrait h) = symbol_rows content ''trait'' h"
| "item_rows content (SynTypeAlias h) = symbol_rows content ''type_alias'' h"
| "item_rows content (SynConst h) = symbol_rows content ''const'' h"
| "item_rows content (SynStatic h) = symbol_rows content ''static'' h"
| "item_rows content (SynMod h) = symbol_rows content ''module'' h"
| "item_rows content (SynImpl i) = ([], [], syn_impl_rows content i)"
| "item_rows content SynOtherItem = ([], [], [])"

lemmas item_rows_defs = symbol_rows_def struct_rows_def enum_rows_def union_rows_def

definition extract_rust_symbols :: "(string \<Rightarrow> syn_item list result) \<Rightarrow> string \<Rightarrow> indexed_extraction_batch result" where
  "extract_rust_symbols parse_file content =
     (case parse_file content of
        Inl e \<Rightarrow> Inl (''rust parser error: '' @ e)
      | Inr items \<Rightarrow>
          (let rows = map (item_rows content) items
           in Inr \<lparr>eb_symbols = concat (map fst rows), eb_types = concat (map (fst \<circ> snd) rows),
                   eb_impls = concat (map (snd \<circ> snd) rows), eb_traits = []\<rparr>))"

section \<open>Line numbers\<close>

lemma length_split_on: "p \<noteq> [] \<Longrightarrow> length (split_on p s) \<le> length s + 1"
proof (induction p s rule: split_on.induct)
  case (1 p s)
  show ?case
  proof (cases "split_once p s")
    case None
    then show ?thesis by (subst split_on.simps) simp
  next
    case (Some ab)
    obtain a b where ab: "ab = (a, b)" by (cases ab)
    then have "length b < length s" using Some "1.prems" split_once_shorter by blast
    moreover have "length (split_on p b) \<le> length b + 1" using "1.IH" [of "(a, b)" a b] "1.prems" Some ab by simp
    ultimately show ?thesis using Some ab "1.prems" by (subst split_on.simps) simp
  qed
qed

lemma length_str_lines: "length (str_lines s) \<le> length s + 1"
  using length_split_on [of "[CHR 0x0A]" s] by (auto simp: str_lines_def Let_def)

lemma as_i32_of_nat: "n < 2 ^ 31 \<Longrightarrow> as_i32 (of_nat n :: 64 word) = int n"
proof -
  assume n: "n < 2 ^ 31"
  have "(ucast (of_nat n :: 64 word) :: 32 word) = of_nat n"
    by transfer (simp add: take_bit_nat_eq_self_iff)
  moreover have "sint (of_nat n :: 32 word) = int n"
    using n by (simp add: signed_of_nat signed_take_bit_int_eq_self)
  ultimately show ?thesis by (simp add: as_i32_def)
qed

lemma find_enumerate:
  "find (\<lambda>(i, x). P x) (enumerate n xs) = Some (j, y) \<Longrightarrow> n \<le> j \<and> j < n + length xs \<and> xs ! (j - n) = y \<and> P y"
proof (induction xs arbitrary: n)
  case (Cons x xs)
  show ?case
  proof (cases "P x")
    case False
    then have rest: "find (\<lambda>(i, x). P x) (enumerate (Suc n) xs) = Some (j, y)" using Cons.prems by simp
    from Cons.IH [OF this] have "Suc n \<le> j \<and> j < Suc n + length xs \<and> xs ! (j - Suc n) = y \<and> P y" .
    moreover from this have "j - n = Suc (j - Suc n)" by linarith
    ultimately show ?thesis by simp
  qed (use Cons.prems in auto)
qed simp

lemma line_for_symbol_name_bounds:
  assumes "length content < 2 ^ 31 - 1"
  shows "1 \<le> line_for_symbol_name content name" and "line_for_symbol_name content name \<le> max 1 (int (length (str_lines content)))"
    and "line_for_symbol_name content name = 1 \<or> contains name (str_lines content ! nat (line_for_symbol_name content name - 1))"
proof -
  let ?ls = "str_lines content" and ?f = "find (\<lambda>(idx, line). contains name line) (enumerate 0 (str_lines content))"
  have "1 \<le> line_for_symbol_name content name \<and> line_for_symbol_name content name \<le> max 1 (int (length ?ls)) \<and>
    (line_for_symbol_name content name = 1 \<or> contains name (?ls ! nat (line_for_symbol_name content name - 1)))"
  proof (cases ?f)
    case None
    then show ?thesis by (simp add: line_for_symbol_name_def)
  next
    case (Some il)
    obtain i l where il: "il = (i, l)" by (cases il)
    then have i: "i < length ?ls" "?ls ! i = l" "contains name l" using find_enumerate [of "contains name" 0 ?ls i l] Some by auto
    then have "i + 1 < 2 ^ 31" using length_str_lines [of content] assms by linarith
    then have "line_for_symbol_name content name = int i + 1"
      using Some il as_i32_of_nat [of "i + 1"] by (simp add: line_for_symbol_name_def)
    then show ?thesis using i by simp
  qed
  then show "1 \<le> line_for_symbol_name content name" and "line_for_symbol_name content name \<le> max 1 (int (length ?ls))"
    and "line_for_symbol_name content name = 1 \<or> contains name (?ls ! nat (line_for_symbol_name content name - 1))"
    by blast+
qed

lemma item_symbol:
  "r \<in> set (fst (item_rows content item)) \<Longrightarrow> \<exists>kind h. r = syn_symbol content kind h"
  by (cases item) (auto simp: item_rows_defs)

lemma take_chars_le: "char_count (fst (take_chars n s)) \<le> n"
proof (induction n s rule: take_chars.induct)
  case (3 n c s)
  let ?t = "takeWhile continuation s @ fst (take_chars n (dropWhile continuation s))"
  have "char_count (c # ?t) \<le> Suc (char_count ?t)" by (simp add: char_count_def)
  also have "\<dots> \<le> Suc n" using 3 by simp
  finally show ?case by (simp add: case_prod_beta)
qed (simp_all add: char_count_def)

lemma signature_short: "line_signature content n = Some sig \<Longrightarrow> char_count sig \<le> 240"
proof -
  assume "line_signature content n = Some sig"
  then obtain line where "sig = fst (take_chars 240 (trim line))" "trim line \<noteq> []"
    by (auto simp: line_signature_def normalize_symbol_signature_def Let_def bind_eq_Some_conv split: if_splits)
  then show ?thesis using take_chars_le by simp
qed



end
