(* ===== verification/Local_Cache.thy ===== *)
theory Local_Cache
  imports Semver Limits Worker Rustdoc_Files Syn_Extract
begin

text \<open>
  The local source cache (\<open>mcp/indexing/local_cache.rs\<close>): the walk over an unpacked crate, the files
  that are indexed, the versions found on disk and their order, and \<open>sync_local_source_cache\<close>, which
  brings the source file rows and the \<open>syn\<close> index rows of a version in line with the disk.
  Directory trees are values in which every failure of the file system is a node or an entry of its
  own; \<open>stat\<close>, \<open>read\<close>, SHA-256, the parser and the failures of the statements are arguments.  Path
  components are valid UTF-8, so \<open>to_string_lossy\<close> keeps them.
\<close>

section \<open>Files\<close>

text \<open>
  A directory entry is an error of the iterator or a name with what \<open>file_type\<close> finds: a file,
  a directory with its listing or the error of \<open>read_dir\<close>, another kind of file, or an error.
\<close>

datatype disk_node =
    DkFile
  | DkOther
  | DkDir "disk_entry list"
  | DkUnreadable string
  | DkUntyped string
and disk_entry = EntryError string | Entry string disk_node

record indexed_source_file =
  xf_relative_path :: string
  xf_sha256 :: string
  xf_file_size :: nat
  xf_language :: "string option"
  xf_content :: string

text \<open>\<open>Path::extension\<close>: what follows the last dot of the file name, unless that dot is its first character.\<close>

definition extension :: "path \<Rightarrow> string option" where
  "extension p =
     Option.bind (file_name p) (\<lambda>name.
       let parts = split_on ''.'' name
       in if length parts < 2 \<or> join ''.'' (butlast parts) = [] then None else Some (last parts))"

definition extension_language :: "path \<Rightarrow> string option" where
  "extension_language p =
     (case extension p of
        None \<Rightarrow> None
      | Some e \<Rightarrow>
          if e = ''rs'' then Some ''rust'' else if e = ''toml'' then Some ''toml'' else if e = ''md'' then Some ''markdown''
          else if e = ''json'' then Some ''json'' else if e = ''yaml'' \<or> e = ''yml'' then Some ''yaml''
          else if e = ''txt'' then Some ''text'' else None)"

definition is_text_file :: "path \<Rightarrow> bool" where
  "is_text_file p =
     (case extension p of
        None \<Rightarrow> False
      | Some e \<Rightarrow> e \<in> {''rs'', ''toml'', ''md'', ''json'', ''yaml'', ''yml'', ''txt''})"

definition hex_digit :: "nat \<Rightarrow> char" where
  "hex_digit n = char_of (if n < 10 then 48 + n else 87 + n)"

definition file_sha256_hex :: "(string \<Rightarrow> string) \<Rightarrow> string \<Rightarrow> string" where
  "file_sha256_hex sha256 content =
     concat (map (\<lambda>byte. [hex_digit (of_char byte div 16), hex_digit (of_char byte mod 16)]) (sha256 content))"

section \<open>The walk\<close>

text \<open>The stack of pending directories has its top first.\<close>

fun walk_dir :: "path \<Rightarrow> disk_entry list \<Rightarrow> (path \<times> disk_node) list \<Rightarrow> path list \<Rightarrow> ((path \<times> disk_node) list \<times> path list) result" where
  "walk_dir dir [] pending out = Inr (pending, out)"
| "walk_dir dir (EntryError e # entries) pending out =
     Inl (''failed to read directory entry under '' @ display_path dir @ '': '' @ e)"
| "walk_dir dir (Entry name node # entries) pending out =
     (let p = dir @ [name]
      in case node of
           DkUntyped e \<Rightarrow> Inl (''failed to inspect '' @ display_path p @ '': '' @ e)
         | DkDir _ \<Rightarrow> walk_dir dir entries ((p, node) # pending) out
         | DkUnreadable _ \<Rightarrow> walk_dir dir entries ((p, node) # pending) out
         | DkFile \<Rightarrow> walk_dir dir entries pending (if is_text_file p then out @ [p] else out)
         | DkOther \<Rightarrow> walk_dir dir entries pending out)"

lemma walk_dir_size:
  "walk_dir dir entries pending out = Inr (pending', out') \<Longrightarrow>
   (\<Sum>x\<leftarrow>pending'. size (snd x)) \<le> (\<Sum>x\<leftarrow>pending. size (snd x)) + size_list size entries"
proof (induction dir entries pending out rule: walk_dir.induct)
  case (3 dir name node entries pending out)
  then show ?case by (cases node) (fastforce simp: Let_def split: if_splits)+
qed auto

function walk_all :: "(path \<times> disk_node) list \<Rightarrow> path list \<Rightarrow> path list result" where
  "walk_all [] out = Inr out"
| "walk_all ((dir, node) # pending) out =
     (case node of
        DkDir entries \<Rightarrow>
          (case walk_dir dir entries pending out of Inl e \<Rightarrow> Inl e | Inr (pending', out') \<Rightarrow> walk_all pending' out')
      | DkUnreadable e \<Rightarrow> Inl (''failed to read directory '' @ display_path dir @ '': '' @ e)
      | _ \<Rightarrow> Inl (''failed to read directory '' @ display_path dir @ '': Not a directory (os error 20)''))"
  by pat_completeness auto
termination
  by (relation "measure (\<lambda>(pending, out). \<Sum>x\<leftarrow>pending. size (snd x))") (auto dest!: walk_dir_size)

definition walk_text_files :: "path \<Rightarrow> disk_node \<Rightarrow> path list result" where
  "walk_text_files root node = res_bind (walk_all [(root, node)] []) (\<lambda>out. Inr (sort out))"

section \<open>The environment\<close>

record version_dir =
  vd_path :: path
  vd_is_dir :: bool
  vd_utf8 :: bool
  vd_node :: disk_node

record registry_dir =
  rg_is_dir :: bool
  rg_versions :: "version_dir result list result"

record cache_env =
  ce_stat :: "path \<Rightarrow> nat result"
  ce_read :: "path \<Rightarrow> string result"
  ce_sha256 :: "string \<Rightarrow> string"
  ce_parse_file :: "string \<Rightarrow> syn_item list result"
  ce_registries :: "registry_dir result list result"
  ce_cache_is_dir :: bool
  ce_cache_entries :: "version_dir result list result"
  ce_load_fails :: "string option"
  ce_upsert_fails :: "nat \<Rightarrow> string \<Rightarrow> string option"
  ce_lookup_fails :: "nat \<Rightarrow> string \<Rightarrow> string option"
  ce_count_fails :: "nat \<Rightarrow> string \<Rightarrow> string option"
  ce_replace_fails :: "nat \<Rightarrow> string \<Rightarrow> string option"
  ce_prune_fails :: "nat \<Rightarrow> string option"

section \<open>The files of a version\<close>

definition MAX_TEXT_FILE_BYTES :: nat where
  "MAX_TEXT_FILE_BYTES = 512 * 1024"

definition relative_path :: "path \<Rightarrow> path \<Rightarrow> string result" where
  "relative_path root p =
     (if take (length root) p = root then Inr (map slash (display_path (drop (length root) p)))
      else Inl (''failed to build relative path for '' @ display_path p @ '': prefix not found''))"

definition scan_file :: "cache_env \<Rightarrow> path \<Rightarrow> string option \<Rightarrow> path \<Rightarrow> indexed_source_file option result" where
  "scan_file env root path_contains p =
     res_bind (relative_path root p) (\<lambda>relative.
       if (case path_contains of Some f \<Rightarrow> \<not> contains f (to_ascii_lowercase relative) | None \<Rightarrow> False) then Inr None
       else (case ce_stat env p of
           Inl e \<Rightarrow> Inl (''failed to stat '' @ display_path p @ '': '' @ e)
         | Inr len \<Rightarrow>
             if len > MAX_TEXT_FILE_BYTES then Inr None
             else (case ce_read env p of
                 Inl e \<Rightarrow> Inl (''failed to read '' @ display_path p @ '': '' @ e)
               | Inr bytes \<Rightarrow>
                   if CHR 0x00 \<in> set bytes \<or> \<not> utf8_valid bytes then Inr None
                   else Inr (Some \<lparr>xf_relative_path = relative, xf_sha256 = file_sha256_hex (ce_sha256 env) bytes,
                          xf_file_size = len, xf_language = extension_language p, xf_content = bytes\<rparr>))))"

fun scan_files :: "cache_env \<Rightarrow> path \<Rightarrow> string option \<Rightarrow> path list \<Rightarrow> indexed_source_file list result" where
  "scan_files env root path_contains [] = Inr []"
| "scan_files env root path_contains (p # ps) =
     res_bind (scan_file env root path_contains p) (\<lambda>f.
     res_bind (scan_files env root path_contains ps) (\<lambda>fs.
       Inr (case f of None \<Rightarrow> fs | Some x \<Rightarrow> x # fs)))"

definition scan_cache_version_dir :: "cache_env \<Rightarrow> path \<Rightarrow> disk_node \<Rightarrow> string option \<Rightarrow> indexed_source_file list result" where
  "scan_cache_version_dir env root node path_contains =
     res_bind (walk_text_files root node) (scan_files env root path_contains)"

section \<open>Statements\<close>

text \<open>\<open>INSERT ... ON CONFLICT DO UPDATE ... WHERE sha256 IS DISTINCT FROM\<close>; the id sequence advances on a conflict too.\<close>

definition upsert_source_file_if_sha_changed ::
  "nat \<Rightarrow> string \<Rightarrow> string \<Rightarrow> nat \<Rightarrow> string option \<Rightarrow> index_tables \<Rightarrow> nat option \<times> index_tables" where
  "upsert_source_file_if_sha_changed crate_version_id path sha256 file_size language db =
     (case find (\<lambda>f. sf_crate_version_id f = crate_version_id \<and> sf_path f = path) (ix_files db) of
        Some f \<Rightarrow>
          if sf_sha256 f = sha256 then (None, db\<lparr>ix_next_file_id := ix_next_file_id db + 1\<rparr>)
          else map_prod Some (\<lambda>d. d) (upsert_source_file_unconditional crate_version_id path sha256 file_size language db)
      | None \<Rightarrow> map_prod Some (\<lambda>d. d) (upsert_source_file_unconditional crate_version_id path sha256 file_size language db))"

text \<open>The rows that a pruning statement selects; the pattern of its \<open>LIKE\<close> is the rustdoc prefix followed by a per cent sign.\<close>

definition stale_file :: "nat \<Rightarrow> string list \<Rightarrow> source_file_row \<Rightarrow> bool" where
  "stale_file crate_version_id seen_paths f \<longleftrightarrow>
     sf_crate_version_id f = crate_version_id \<and> sf_path f \<notin> set seen_paths \<and>
     \<not> like_match (RUSTDOC_SOURCE_PATH_PREFIX @ ''%'') (sf_path f)"

definition prune_stale_source_file_index_rows :: "nat \<Rightarrow> string list \<Rightarrow> index_tables \<Rightarrow> index_tables" where
  "prune_stale_source_file_index_rows crate_version_id seen_paths db =
     (let stale = map sf_id (filter (stale_file crate_version_id seen_paths) (ix_files db))
      in db\<lparr>ix_symbols := filter (\<lambda>r. \<not> (ir_crate_version_id r = crate_version_id \<and> ir_source_file_id r \<in> set stale)) (ix_symbols db),
            ix_types := filter (\<lambda>r. \<not> (ir_crate_version_id r = crate_version_id \<and> ir_source_file_id r \<in> set stale)) (ix_types db),
            ix_impls := filter (\<lambda>r. \<not> (ir_crate_version_id r = crate_version_id \<and> ir_source_file_id r \<in> set stale)) (ix_impls db)\<rparr>)"

text \<open>Deleting a source file also deletes the rows that refer to it (\<open>ON DELETE CASCADE\<close>).\<close>

definition prune_source_files_for_crate_version :: "nat \<Rightarrow> string list \<Rightarrow> index_tables \<Rightarrow> nat \<times> index_tables" where
  "prune_source_files_for_crate_version crate_version_id seen_paths db =
     (let stale = filter (stale_file crate_version_id seen_paths) (ix_files db)
      in (length stale,
          db\<lparr>ix_files := filter (\<lambda>f. \<not> stale_file crate_version_id seen_paths f) (ix_files db),
             ix_symbols := filter (\<lambda>r. ir_source_file_id r \<notin> set (map sf_id stale)) (ix_symbols db),
             ix_types := filter (\<lambda>r. ir_source_file_id r \<notin> set (map sf_id stale)) (ix_types db),
             ix_impls := filter (\<lambda>r. ir_source_file_id r \<notin> set (map sf_id stale)) (ix_impls db)\<rparr>))"

definition prune_source_file_index_and_files :: "nat \<Rightarrow> string list \<Rightarrow> index_tables \<Rightarrow> nat \<times> index_tables" where
  "prune_source_file_index_and_files crate_version_id seen_paths db =
     prune_source_files_for_crate_version crate_version_id seen_paths
       (prune_stale_source_file_index_rows crate_version_id seen_paths db)"

section \<open>Versions on disk\<close>

record cache_key =
  ck_crate_name :: string
  ck_version :: string
  ck_crate_version_id :: nat

record cache_candidate =
  ca_dir_name :: string
  ca_version :: string
  ca_path :: path
  ca_node :: disk_node
  ca_crate_version_id :: nat

text \<open>The map from directory names to versions; of two rows with the same name the later one stays.\<close>

definition version_map :: "(string \<times> string \<times> string \<times> nat) list \<Rightarrow> string \<Rightarrow> cache_key option" where
  "version_map rows dir_name =
     map_option (\<lambda>(_, crate_name, ver, vid). \<lparr>ck_crate_name = crate_name, ck_version = ver, ck_crate_version_id = vid\<rparr>)
       (find (\<lambda>r. fst r = dir_name) (rev rows))"

definition dir_candidate :: "(string \<Rightarrow> cache_key option) \<Rightarrow> version_dir result \<Rightarrow> cache_candidate option" where
  "dir_candidate vmap entry =
     (case entry of
        Inl _ \<Rightarrow> None
      | Inr d \<Rightarrow>
          if \<not> vd_is_dir d \<or> \<not> vd_utf8 d then None
          else Option.bind (file_name (vd_path d)) (\<lambda>dir_name.
                 map_option (\<lambda>k. \<lparr>ca_dir_name = dir_name, ca_version = ck_version k, ca_path = vd_path d, ca_node = vd_node d,
                                  ca_crate_version_id = ck_crate_version_id k\<rparr>) (vmap dir_name)))"

definition registry_candidates :: "(string \<Rightarrow> cache_key option) \<Rightarrow> registry_dir result list result \<Rightarrow> cache_candidate list" where
  "registry_candidates vmap registries =
     (case registries of
        Inl _ \<Rightarrow> []
      | Inr rs \<Rightarrow>
          concat (map (\<lambda>r. case r of
              Inl _ \<Rightarrow> []
            | Inr registry \<Rightarrow>
                if \<not> rg_is_dir registry then []
                else (case rg_versions registry of Inl _ \<Rightarrow> [] | Inr ds \<Rightarrow> List.map_filter (dir_candidate vmap) ds)) rs))"

fun add_downloads :: "(string \<Rightarrow> cache_key option) \<Rightarrow> version_dir result list \<Rightarrow> cache_candidate list \<Rightarrow> cache_candidate list" where
  "add_downloads vmap [] candidates = candidates"
| "add_downloads vmap (entry # entries) candidates =
     (case dir_candidate vmap entry of
        None \<Rightarrow> add_downloads vmap entries candidates
      | Some c \<Rightarrow>
          add_downloads vmap entries
            (if list_ex (\<lambda>d. ca_dir_name d = ca_dir_name c) candidates then candidates else candidates @ [c]))"

definition find_candidates :: "cache_env \<Rightarrow> (string \<Rightarrow> cache_key option) \<Rightarrow> cache_candidate list" where
  "find_candidates env vmap =
     (let candidates = registry_candidates vmap (ce_registries env)
      in if ce_cache_is_dir env
         then (case ce_cache_entries env of Inl _ \<Rightarrow> candidates | Inr entries \<Rightarrow> add_downloads vmap entries candidates)
         else candidates)"

text \<open>
  \<open>sort_by\<close> is stable; \<open>candidate_le left right\<close> says that the comparison of the two is not \<open>Greater\<close>.
\<close>

primrec insort_by :: "('a \<Rightarrow> 'a \<Rightarrow> bool) \<Rightarrow> 'a \<Rightarrow> 'a list \<Rightarrow> 'a list" where
  "insort_by le x [] = [x]"
| "insort_by le x (y # ys) = (if le x y then x # y # ys else y # insort_by le x ys)"

definition sort_by :: "('a \<Rightarrow> 'a \<Rightarrow> bool) \<Rightarrow> 'a list \<Rightarrow> 'a list" where
  "sort_by le xs = foldr (insort_by le) xs []"

definition candidate_le :: "('v::linorder, 'r) semver_api \<Rightarrow> cache_candidate \<Rightarrow> cache_candidate \<Rightarrow> bool" where
  "candidate_le sv left right =
     (case (version_parse sv (ca_version right), version_parse sv (ca_version left)) of
        (Some r, Some l) \<Rightarrow> r \<le> l
      | (Some _, None) \<Rightarrow> True
      | (None, Some _) \<Rightarrow> False
      | (None, None) \<Rightarrow> ca_dir_name left \<le> ca_dir_name right)"

section \<open>One file\<close>

type_synonym cache_state = "local_cache_refresh_outcome \<times> index_tables"

definition in_version :: "string \<Rightarrow> cache_key \<Rightarrow> string" where
  "in_version path k = path @ '' in '' @ ck_crate_name k @ ''@'' @ ck_version k"

definition for_version :: "string \<Rightarrow> cache_key \<Rightarrow> string" where
  "for_version path k = path @ '' for '' @ ck_crate_name k @ ''@'' @ ck_version k"

text \<open>Whether the index rows of a file are extracted again, and what happens then.\<close>

definition reindex_file ::
  "cache_env \<Rightarrow> cache_key \<Rightarrow> nat \<Rightarrow> indexed_source_file \<Rightarrow> nat option \<Rightarrow> nat \<Rightarrow> cache_state \<Rightarrow> unit result \<times> cache_state" where
  "reindex_file env k vid file upserted_id source_file_id s =
     (let (outcome, db) = s;
          counted = (if upserted_id \<noteq> None then outcome\<lparr>lo_upserted_files := lo_upserted_files outcome + 1\<rparr> else outcome)
      in case ce_count_fails env vid (xf_relative_path file) of
           Some e \<Rightarrow> (Inl (''failed to count symbols for '' @ in_version (xf_relative_path file) k @ '': '' @ e), outcome, db)
         | None \<Rightarrow>
             if upserted_id \<noteq> None \<or> count_source_file_index_rows db source_file_id = 0
             then (case extract_rust_symbols (ce_parse_file env) (xf_content file) of
                 Inl e \<Rightarrow>
                   (Inr (), outcome\<lparr>lo_errors := lo_errors outcome @
                      [''skipped unparseable file '' @ in_version (xf_relative_path file) k @ '': '' @ e]\<rparr>, db)
               | Inr extracted \<Rightarrow>
                   (let (written, db') = (case ce_replace_fails env vid (xf_relative_path file) of
                          Some e \<Rightarrow> (Inl e, db)
                        | None \<Rightarrow> replace_source_file_index_rows vid source_file_id ''syn'' extracted db)
                    in case written of
                         Inl e \<Rightarrow> (Inl (''failed to replace indexed rows for '' @ in_version (xf_relative_path file) k @ '': '' @ e), outcome, db')
                       | Inr _ \<Rightarrow> (Inr (), counted, db')))
             else (Inr (), counted, db))"

definition sync_file ::
  "cache_env \<Rightarrow> cache_key \<Rightarrow> nat \<Rightarrow> indexed_source_file \<Rightarrow> cache_state \<Rightarrow> unit result \<times> cache_state" where
  "sync_file env k vid file s =
     (let outcome = (fst s)\<lparr>lo_scanned_files := lo_scanned_files (fst s) + 1\<rparr>
      in case ce_upsert_fails env vid (xf_relative_path file) of
           Some e \<Rightarrow> (Inl (''failed to upsert source file '' @ for_version (xf_relative_path file) k @ '': '' @ e), outcome, snd s)
         | None \<Rightarrow>
     (let (upserted_id, db) = upsert_source_file_if_sha_changed vid (xf_relative_path file) (xf_sha256 file)
            (xf_file_size file) (xf_language file) (snd s);
          looked_up = (case upserted_id of
              Some i \<Rightarrow> Inr (Some i)
            | None \<Rightarrow> (case ce_lookup_fails env vid (xf_relative_path file) of
                  Some e \<Rightarrow> Inl e
                | None \<Rightarrow> Inr (fetch_source_file_id_optional db vid (xf_relative_path file))));
          counted = (if upserted_id \<noteq> None then outcome\<lparr>lo_upserted_files := lo_upserted_files outcome + 1\<rparr> else outcome)
      in case looked_up of
           Inl e \<Rightarrow> (Inl (''failed to lookup source file id '' @ for_version (xf_relative_path file) k @ '': '' @ e), outcome, db)
         | Inr source_file_id \<Rightarrow>
             if xf_language file = Some ''rust''
             then (case source_file_id of
                 None \<Rightarrow> (Inr (), outcome, db)
               | Some i \<Rightarrow> reindex_file env k vid file upserted_id i (outcome, db))
             else (Inr (), counted, db)))"

fun sync_files ::
  "cache_env \<Rightarrow> cache_key \<Rightarrow> nat \<Rightarrow> indexed_source_file list \<Rightarrow> cache_state \<Rightarrow> unit result \<times> cache_state" where
  "sync_files env k vid [] s = (Inr (), s)"
| "sync_files env k vid (file # files) s =
     (case sync_file env k vid file s of
        (Inl e, s') \<Rightarrow> (Inl e, s')
      | (Inr _, s') \<Rightarrow> sync_files env k vid files s')"

section \<open>One version\<close>

definition refresh_version ::
  "cache_env \<Rightarrow> (string \<Rightarrow> cache_key option) \<Rightarrow> string option \<Rightarrow> cache_candidate \<Rightarrow> cache_state \<Rightarrow> unit result \<times> cache_state" where
  "refresh_version env vmap path_contains c s =
     (case vmap (ca_dir_name c) of
        None \<Rightarrow> (Inr (), s)
      | Some k \<Rightarrow>
     (case scan_cache_version_dir env (ca_path c) (ca_node c) path_contains of
        Inl error \<Rightarrow> (Inr (), (fst s)\<lparr>lo_errors := lo_errors (fst s) @ [error]\<rparr>, snd s)
      | Inr files \<Rightarrow>
     (case sync_files env k (ca_crate_version_id c) files s of
        (Inl e, s') \<Rightarrow> (Inl e, s')
      | (Inr _, outcome, db) \<Rightarrow>
     (case ce_prune_fails env (ca_crate_version_id c) of
        Some e \<Rightarrow> (Inl (''failed to prune stale source/index rows for '' @ ck_crate_name k @ ''@'' @ ck_version k @ '': '' @ e), outcome, db)
      | None \<Rightarrow>
          (let (deleted, db') = prune_source_file_index_and_files (ca_crate_version_id c) (map xf_relative_path files) db
           in (Inr (), outcome\<lparr>lo_deleted_files := lo_deleted_files outcome + deleted,
                  lo_scanned_versions := lo_scanned_versions outcome + 1,
                  lo_touched_versions := lo_touched_versions outcome @ [ck_crate_name k @ ''@'' @ ck_version k]\<rparr>, db'))))))"

fun refresh_versions ::
  "cache_env \<Rightarrow> (string \<Rightarrow> cache_key option) \<Rightarrow> string option \<Rightarrow> cache_candidate list \<Rightarrow> cache_state \<Rightarrow> unit result \<times> cache_state" where
  "refresh_versions env vmap path_contains [] s = (Inr (), s)"
| "refresh_versions env vmap path_contains (c # cs) s =
     (case refresh_version env vmap path_contains c s of
        (Inl e, s') \<Rightarrow> (Inl e, s')
      | (Inr _, s') \<Rightarrow> refresh_versions env vmap path_contains cs s')"

definition cache_outcome_default :: local_cache_refresh_outcome where
  "cache_outcome_default = \<lparr>lo_scanned_versions = 0, lo_scanned_files = 0, lo_upserted_files = 0, lo_deleted_files = 0,
     lo_touched_versions = [], lo_errors = []\<rparr>"

definition selected_candidates ::
  "('v::linorder, 'r) semver_api \<Rightarrow> cache_env \<Rightarrow> (string \<Rightarrow> cache_key option) \<Rightarrow> u32 option \<Rightarrow> u32 option \<Rightarrow> cache_candidate list" where
  "selected_candidates sv env vmap page per_page =
     (let n = unat (sync_per_page per_page)
      in take n (drop (unat (sync_page page - 1) * n) (sort_by (candidate_le sv) (find_candidates env vmap))))"

definition sync_local_source_cache ::
  "('v::linorder, 'r) semver_api \<Rightarrow> cache_env \<Rightarrow> crate_store \<Rightarrow> string option \<Rightarrow> string option \<Rightarrow> string option \<Rightarrow>
   u32 option \<Rightarrow> u32 option \<Rightarrow> bool \<Rightarrow> index_tables \<Rightarrow> local_cache_refresh_outcome result \<times> index_tables" where
  "sync_local_source_cache sv env st crate_name ver query page per_page locally_present_only db =
     (case (case crate_name of None \<Rightarrow> Inr None
            | Some n \<Rightarrow> res_bind (normalize_required n ''crate_name'') (\<lambda>x. Inr (Some x))) of
        Inl e \<Rightarrow> (Inl e, db)
      | Inr requested_crate_name \<Rightarrow>
     (case ce_load_fails env of
        Some e \<Rightarrow> (Inl (''local cache refresh failed to load crate versions: '' @ e), db)
      | None \<Rightarrow>
          (let vmap = version_map (fetch_local_cache_version_keys st requested_crate_name ver locally_present_only);
               path_contains = map_option to_ascii_lowercase (normalize_optional query)
           in case refresh_versions env vmap path_contains (selected_candidates sv env vmap page per_page) (cache_outcome_default, db) of
                (Inl e, _, db') \<Rightarrow> (Inl e, db')
              | (Inr _, outcome, db') \<Rightarrow> (Inr outcome, db'))))"

section \<open>The files found\<close>

fun text_files :: "path \<Rightarrow> disk_node \<Rightarrow> path set" and entry_files :: "path \<Rightarrow> disk_entry \<Rightarrow> path set" where
  "text_files p DkFile = (if is_text_file p then {p} else {})"
| "text_files p DkOther = {}"
| "text_files p (DkDir entries) = (\<Union>x \<in> set entries. entry_files p x)"
| "text_files p (DkUnreadable e) = {}"
| "text_files p (DkUntyped e) = {}"
| "entry_files p (EntryError e) = {}"
| "entry_files p (Entry name node) = text_files (p @ [name]) node"

fun clean_node :: "disk_node \<Rightarrow> bool" and clean_entry :: "disk_entry \<Rightarrow> bool" where
  "clean_node DkFile = True"
| "clean_node DkOther = True"
| "clean_node (DkDir entries) = (\<forall>x \<in> set entries. clean_entry x)"
| "clean_node (DkUnreadable e) = False"
| "clean_node (DkUntyped e) = False"
| "clean_entry (EntryError e) = False"
| "clean_entry (Entry name node) = clean_node node"

fun dir_node :: "disk_node \<Rightarrow> bool" where
  "dir_node (DkDir entries) = True"
| "dir_node (DkUnreadable e) = True"
| "dir_node _ = False"

definition walk_post ::
  "path \<Rightarrow> disk_entry list \<Rightarrow> (path \<times> disk_node) list \<Rightarrow> path list \<Rightarrow> ((path \<times> disk_node) list \<times> path list) result \<Rightarrow> bool" where
  "walk_post dir entries pending out r \<longleftrightarrow>
     (case r of
        Inl _ \<Rightarrow> \<exists>x \<in> set entries. \<not> clean_entry x
      | Inr (pending', out') \<Rightarrow>
          (\<forall>x \<in> set pending'. dir_node (snd x)) \<and>
          ((\<forall>x \<in> set pending'. clean_node (snd x)) \<longleftrightarrow> (\<forall>x \<in> set pending. clean_node (snd x)) \<and> (\<forall>x \<in> set entries. clean_entry x)) \<and>
          set out' \<union> (\<Union>x \<in> set pending'. text_files (fst x) (snd x)) =
            set out \<union> (\<Union>x \<in> set pending. text_files (fst x) (snd x)) \<union> (\<Union>x \<in> set entries. entry_files dir x))"

lemma walk_post_file:
  assumes "walk_post dir entries pending out' r" and "set out' = set out \<union> text_files (dir @ [name]) node" and "clean_node node"
  shows "walk_post dir (Entry name node # entries) pending out r"
  using assms by (cases r) (auto simp: walk_post_def Un_ac)

lemma walk_post_dir:
  assumes "walk_post dir entries ((dir @ [name], node) # pending) out r"
  shows "walk_post dir (Entry name node # entries) pending out r"
  using assms by (cases r) (auto simp: walk_post_def Un_ac)

lemma walk_dir_exact:
  "\<forall>x \<in> set pending. dir_node (snd x) \<Longrightarrow> walk_post dir entries pending out (walk_dir dir entries pending out)"
proof (induction dir entries pending out rule: walk_dir.induct)
  case (3 dir name node entries pending out)
  show ?case
  proof (cases node)
    case DkFile
    have "walk_post dir entries pending (if is_text_file (dir @ [name]) then out @ [dir @ [name]] else out)
        (walk_dir dir entries pending (if is_text_file (dir @ [name]) then out @ [dir @ [name]] else out))"
      using 3 DkFile by simp
    from walk_post_file [OF this, of out name node] show ?thesis by (simp add: DkFile Let_def split: if_splits)
  next
    case DkOther
    have "walk_post dir entries pending out (walk_dir dir entries pending out)" using 3 DkOther by simp
    from walk_post_file [OF this, of out name node] show ?thesis by (simp add: DkOther)
  next
    case (DkDir es)
    have "walk_post dir entries ((dir @ [name], node) # pending) out (walk_dir dir entries ((dir @ [name], node) # pending) out)"
      using 3 DkDir by simp
    from walk_post_dir [OF this] show ?thesis by (simp add: DkDir)
  next
    case (DkUnreadable e)
    have "walk_post dir entries ((dir @ [name], node) # pending) out (walk_dir dir entries ((dir @ [name], node) # pending) out)"
      using 3 DkUnreadable by simp
    from walk_post_dir [OF this] show ?thesis by (simp add: DkUnreadable)
  next
    case (DkUntyped e)
    then show ?thesis by (simp add: walk_post_def)
  qed
qed (simp_all add: walk_post_def)

lemma walk_all_exact:
  "\<forall>x \<in> set pending. dir_node (snd x) \<Longrightarrow>
   (case walk_all pending out of
      Inl _ \<Rightarrow> \<exists>x \<in> set pending. \<not> clean_node (snd x)
    | Inr out' \<Rightarrow> (\<forall>x \<in> set pending. clean_node (snd x)) \<and>
        set out' = set out \<union> (\<Union>x \<in> set pending. text_files (fst x) (snd x)))"
proof (induction pending out rule: walk_all.induct)
  case (2 dir node pending out)
  show ?case
  proof (cases node)
    case (DkDir entries)
    have d: "walk_post dir entries pending out (walk_dir dir entries pending out)" by (rule walk_dir_exact) (use 2(2) in simp)
    show ?thesis
    proof (cases "walk_dir dir entries pending out")
      case (Inl e)
      then show ?thesis using d DkDir by (auto simp: walk_post_def)
    next
      case (Inr r)
      obtain pending' out' where r: "r = (pending', out')" by (cases r)
      note d' = d [unfolded Inr r walk_post_def sum.case prod.case]
      have ih: "case walk_all pending' out' of
          Inl _ \<Rightarrow> \<exists>x \<in> set pending'. \<not> clean_node (snd x)
        | Inr out'' \<Rightarrow> (\<forall>x \<in> set pending'. clean_node (snd x)) \<and>
            set out'' = set out' \<union> (\<Union>x \<in> set pending'. text_files (fst x) (snd x))"
        by (rule 2(1) [OF DkDir Inr r [symmetric]]) (use d' in blast)
      have step: "walk_all ((dir, node) # pending) out = walk_all pending' out'" by (simp add: DkDir Inr r)
      show ?thesis
      proof (cases "walk_all pending' out'")
        case (Inl e)
        then show ?thesis using ih d' DkDir unfolding step by auto
      next
        case (Inr out'')
        have "set out'' = set out \<union> (\<Union>x \<in> set pending. text_files (fst x) (snd x)) \<union> (\<Union>x \<in> set entries. entry_files dir x)"
          using ih d' Inr by simp
        then show ?thesis using ih d' DkDir Inr unfolding step by (simp add: Un_ac)
      qed
    qed
  qed (use 2 in auto)
qed simp

text \<open>
  The walk terminates; it fails exactly when a directory of the tree, an entry or the type of an
  entry cannot be read, and otherwise returns the text files of the tree in ascending order of path.
\<close>

theorem walk_text_files_exact:
  "case walk_text_files root (DkDir entries) of
     Inl _ \<Rightarrow> \<not> clean_node (DkDir entries)
   | Inr files \<Rightarrow> clean_node (DkDir entries) \<and> sorted files \<and> set files = text_files root (DkDir entries)"
  using walk_all_exact [of "[(root, DkDir entries)]" "[]"]
  by (auto simp: walk_text_files_def res_bind_def split: sum.splits simp del: walk_all.simps)

section \<open>Source file rows by key\<close>

definition file_at :: "index_tables \<Rightarrow> nat \<Rightarrow> string \<Rightarrow> source_file_row option" where
  "file_at db v p = find (\<lambda>f. sf_crate_version_id f = v \<and> sf_path f = p) (ix_files db)"

definition sha_of :: "index_tables \<Rightarrow> nat \<Rightarrow> string \<Rightarrow> string option" where
  "sha_of db v p = map_option sf_sha256 (file_at db v p)"

lemma find_map_same:
  "(\<And>x. P (g x) = P x) \<Longrightarrow> find P (map g xs) = map_option g (find P xs)"
  by (induction xs) auto

lemma find_filter:
  "(\<And>x y. P x \<Longrightarrow> P y \<Longrightarrow> Q x = Q y) \<Longrightarrow>
   find P (filter Q xs) = (case find P xs of None \<Rightarrow> None | Some x \<Rightarrow> if Q x then Some x else None)"
proof (induction xs)
  case (Cons x xs)
  have none: "find P (filter Q xs) = None" if "P x" "\<not> Q x"
  proof -
    have "\<not> Q y" if "P y" for y
      using Cons.prems [OF \<open>P x\<close> that] \<open>\<not> Q x\<close> by blast
    then show ?thesis by (auto simp: find_None_iff)
  qed
  have "find P (filter Q xs) = (case find P xs of None \<Rightarrow> None | Some x \<Rightarrow> if Q x then Some x else None)"
    by (rule Cons.IH) (rule Cons.prems)
  with none show ?case by simp
qed simp

lemma file_at_Some: "file_at db w q = Some f \<Longrightarrow> sf_crate_version_id f = w \<and> sf_path f = q \<and> f \<in> set (ix_files db)"
  by (auto simp: file_at_def find_Some_iff)

lemma file_at_upsert:
  "file_at (snd (upsert_source_file_unconditional v p sha n lang db)) w q =
     (if w = v \<and> q = p
      then Some (case file_at db v p of
          Some f \<Rightarrow> f\<lparr>sf_sha256 := sha, sf_file_size := n, sf_language := lang\<rparr>
        | None \<Rightarrow> \<lparr>sf_id = ix_next_file_id db, sf_crate_version_id = v, sf_path = p, sf_sha256 = sha, sf_file_size = n, sf_language = lang\<rparr>)
      else file_at db w q)"
proof (cases "file_at db v p")
  case None
  then show ?thesis by (auto simp: file_at_def upsert_source_file_unconditional_def find_append split: option.split)
next
  case (Some f)
  let ?g = "\<lambda>g. if sf_crate_version_id g = v \<and> sf_path g = p then g\<lparr>sf_sha256 := sha, sf_file_size := n, sf_language := lang\<rparr> else g"
  have fk: "sf_crate_version_id f = v" "sf_path f = p"
    using file_at_Some [OF Some] by auto
  have mapped: "find (\<lambda>f. sf_crate_version_id f = w \<and> sf_path f = q) (map ?g (ix_files db)) = map_option ?g (file_at db w q)"
    unfolding file_at_def by (rule find_map_same) auto
  have kept: "map_option ?g (file_at db w q) = file_at db w q" if "\<not> (w = v \<and> q = p)"
    using that by (cases "file_at db w q") (auto dest: file_at_Some)
  have "file_at (snd (upsert_source_file_unconditional v p sha n lang db)) w q = map_option ?g (file_at db w q)"
    using Some mapped by (simp add: upsert_source_file_unconditional_def file_at_def)
  then show ?thesis using Some fk kept by (cases "w = v \<and> q = p") auto
qed

lemma upsert_id: "fst (upsert_source_file_unconditional v p sha n lang db) = (case file_at db v p of Some f \<Rightarrow> sf_id f | None \<Rightarrow> ix_next_file_id db)"
  by (auto simp: upsert_source_file_unconditional_def file_at_def split: option.split)

lemma upsert_rows [simp]:
  "ix_symbols (snd (upsert_source_file_unconditional v p sha n lang db)) = ix_symbols db"
  "ix_types (snd (upsert_source_file_unconditional v p sha n lang db)) = ix_types db"
  "ix_impls (snd (upsert_source_file_unconditional v p sha n lang db)) = ix_impls db"
  by (auto simp: upsert_source_file_unconditional_def split: option.split)

lemma upsert_if_cases:
  "upsert_source_file_if_sha_changed v p sha n lang db =
     (if sha_of db v p = Some sha then (None, db\<lparr>ix_next_file_id := ix_next_file_id db + 1\<rparr>)
      else map_prod Some (\<lambda>d. d) (upsert_source_file_unconditional v p sha n lang db))"
  by (auto simp: upsert_source_file_if_sha_changed_def sha_of_def file_at_def split: option.split)

lemma file_at_next [simp]: "file_at (db\<lparr>ix_next_file_id := i\<rparr>) v p = file_at db v p"
  by (simp add: file_at_def)

lemma sha_of_upsert_if:
  "sha_of (snd (upsert_source_file_if_sha_changed v p sha n lang db)) w q =
     (if w = v \<and> q = p then Some sha else sha_of db w q)"
  by (auto simp: upsert_if_cases sha_of_def file_at_upsert split: option.split)

lemma like_prefix: "like_match (p @ ''%'') s \<longleftrightarrow> starts_with p s" if "set p \<inter> {CHR ''%'', CHR ''_'', CHR 0x5C} = {}"
  using that
proof (induction p arbitrary: s)
  case Nil
  have "like_match ''%'' s" by (induction s) auto
  then show ?case by simp
next
  case (Cons a p)
  then show ?case by (cases s) auto
qed

lemma stale_file_iff:
  "stale_file v seen f \<longleftrightarrow> sf_crate_version_id f = v \<and> sf_path f \<notin> set seen \<and> \<not> starts_with RUSTDOC_SOURCE_PATH_PREFIX (sf_path f)"
  unfolding stale_file_def by (subst like_prefix) (simp_all add: RUSTDOC_SOURCE_PATH_PREFIX_def)

lemma file_at_prune:
  "file_at (snd (prune_source_file_index_and_files v seen db)) w q =
     (if w = v \<and> q \<notin> set seen \<and> \<not> starts_with RUSTDOC_SOURCE_PATH_PREFIX q then None else file_at db w q)"
proof -
  have "file_at (snd (prune_source_file_index_and_files v seen db)) w q =
      (case file_at db w q of None \<Rightarrow> None | Some f \<Rightarrow> if \<not> stale_file v seen f then Some f else None)"
    unfolding file_at_def
    by (simp add: prune_source_file_index_and_files_def prune_source_files_for_crate_version_def
        prune_stale_source_file_index_rows_def Let_def)
      (rule find_filter, auto simp: stale_file_def)
  then show ?thesis by (auto simp: stale_file_iff dest: file_at_Some split: option.splits)
qed

section \<open>Rows of a source file\<close>

text \<open>Extracted rows carry no item id, so the statements that insert them cannot fail.\<close>

lemma insert_unique_keyless:
  "\<forall>r \<in> set rs. key r = None \<Longrightarrow> insert_unique key rs rows = Inr (rows @ rs)"
  by (induction rs arbitrary: rows) (auto simp: clashes_def)

fun insert_new_types :: "indexed_type_insert index_row list \<Rightarrow> indexed_type_insert index_row list \<Rightarrow> indexed_type_insert index_row list" where
  "insert_new_types [] rows = rows"
| "insert_new_types (r # rs) rows = insert_new_types rs (if clashes syn_key r rows then rows else rows @ [r])"

lemma insert_types_keyless:
  "\<forall>r \<in> set rs. rustdoc_key ty_rustdoc_item_id r = None \<Longrightarrow> insert_types rs rows = Inr (insert_new_types rs rows)"
  by (induction rs arbitrary: rows) (auto simp: clashes_def)

lemma extract_no_traits: "extract_rust_symbols parse content = Inr batch \<Longrightarrow> eb_traits batch = []"
  by (auto simp: extract_rust_symbols_def Let_def split: sum.splits)

lemma rustdoc_key_syn: "rustdoc_key g (index_row v i ''syn'' x) = None"
  by (simp add: rustdoc_key_def index_row_def)

lemma replace_syn_rows:
  assumes "eb_traits batch = []"
  shows "replace_source_file_index_rows v i ''syn'' batch db =
    (Inr \<lparr>wc_symbols = length (eb_symbols batch), wc_types = length (eb_types batch), wc_impls = length (eb_impls batch), wc_traits = 0\<rparr>,
     db\<lparr>ix_symbols := filter (\<lambda>r. ir_source_file_id r \<noteq> i) (ix_symbols db) @ map (index_row v i ''syn'') (eb_symbols batch),
        ix_types := insert_new_types (map (index_row v i ''syn'') (eb_types batch)) (filter (\<lambda>r. ir_source_file_id r \<noteq> i) (ix_types db)),
        ix_impls := filter (\<lambda>r. ir_source_file_id r \<noteq> i) (ix_impls db) @ map (index_row v i ''syn'') (eb_impls batch),
        ix_traits := ix_traits db\<rparr>)"
  using assms
  by (simp add: replace_source_file_index_rows_def insert_indexed_extraction_batch_def clear_source_file_index_rows_def
      insert_unique_keyless insert_types_keyless rustdoc_key_syn)

definition rows_at ::
  "index_tables \<Rightarrow> nat \<Rightarrow> indexed_symbol_insert index_row list \<times> indexed_type_insert index_row list \<times> indexed_impl_insert index_row list" where
  "rows_at db i =
     (filter (\<lambda>r. ir_source_file_id r = i) (ix_symbols db), filter (\<lambda>r. ir_source_file_id r = i) (ix_types db),
      filter (\<lambda>r. ir_source_file_id r = i) (ix_impls db))"

definition extracted_rows ::
  "nat \<Rightarrow> nat \<Rightarrow> indexed_extraction_batch \<Rightarrow>
   indexed_symbol_insert index_row list \<times> indexed_type_insert index_row list \<times> indexed_impl_insert index_row list" where
  "extracted_rows v i batch =
     (map (index_row v i ''syn'') (eb_symbols batch), insert_new_types (map (index_row v i ''syn'') (eb_types batch)) [],
      map (index_row v i ''syn'') (eb_impls batch))"

lemma count_rows_at:
  "count_source_file_index_rows db i =
     length (fst (rows_at db i)) + length (fst (snd (rows_at db i))) + length (snd (snd (rows_at db i)))"
  by (simp add: count_source_file_index_rows_def rows_at_def)

lemma clashes_same_file:
  "ir_source_file_id r = i \<Longrightarrow> clashes syn_key r (filter (\<lambda>r. ir_source_file_id r = i) rows) = clashes syn_key r rows"
  by (auto simp: clashes_def list_ex_iff syn_key_def split: if_splits)

lemma insert_new_types_rows:
  "\<forall>r \<in> set rs. ir_source_file_id r = i \<Longrightarrow>
   filter (\<lambda>r. ir_source_file_id r = j) (insert_new_types rs rows) =
     (if j = i then insert_new_types rs (filter (\<lambda>r. ir_source_file_id r = i) rows) else filter (\<lambda>r. ir_source_file_id r = j) rows)"
  by (induction rs arbitrary: rows) (auto simp: clashes_same_file)

lemma rows_at_replace:
  assumes "eb_traits batch = []"
  shows "rows_at (snd (replace_source_file_index_rows v i ''syn'' batch db)) j =
    (if j = i then extracted_rows v i batch else rows_at db j)"
proof -
  have new: "filter (\<lambda>r. ir_source_file_id r = j) (map (index_row v i ''syn'') xs) = (if j = i then map (index_row v i ''syn'') xs else [])"
    for xs :: "'b list" by (induction xs) (auto simp: index_row_def)
  have old: "filter (\<lambda>r. ir_source_file_id r = j) (filter (\<lambda>r. ir_source_file_id r \<noteq> i) rows) =
      (if j = i then [] else filter (\<lambda>r. ir_source_file_id r = j) rows)" for rows :: "'b index_row list"
    by (induction rows) auto
  have "filter (\<lambda>r. ir_source_file_id r = j) (insert_new_types (map (index_row v i ''syn'') (eb_types batch))
        (filter (\<lambda>r. ir_source_file_id r \<noteq> i) (ix_types db))) =
      (if j = i then insert_new_types (map (index_row v i ''syn'') (eb_types batch)) [] else filter (\<lambda>r. ir_source_file_id r = j) (ix_types db))"
    by (subst insert_new_types_rows [where i = i]) (auto simp: index_row_def old simp del: filter_filter)
  then show ?thesis
    by (simp add: replace_syn_rows [OF assms] rows_at_def extracted_rows_def new old del: filter_filter)
qed

lemma files_replace [simp]:
  "eb_traits batch = [] \<Longrightarrow> ix_files (snd (replace_source_file_index_rows v i ''syn'' batch db)) = ix_files db"
  by (simp add: replace_syn_rows)

section \<open>One file, without failures\<close>

definition statements_ok :: "cache_env \<Rightarrow> nat \<Rightarrow> bool" where
  "statements_ok env v \<longleftrightarrow>
     (\<forall>p. ce_upsert_fails env v p = None \<and> ce_lookup_fails env v p = None \<and> ce_count_fails env v p = None \<and>
          ce_replace_fails env v p = None) \<and> ce_prune_fails env v = None"

definition upserted :: "nat \<Rightarrow> indexed_source_file \<Rightarrow> index_tables \<Rightarrow> nat option \<times> index_tables" where
  "upserted v f db =
     upsert_source_file_if_sha_changed v (xf_relative_path f) (xf_sha256 f) (xf_file_size f) (xf_language f) db"

lemma upserted_row:
  "\<exists>row. file_at (snd (upserted v f db)) v (xf_relative_path f) = Some row \<and> sf_sha256 row = xf_sha256 f \<and>
     (case fst (upserted v f db) of
        Some i \<Rightarrow> i = sf_id row \<and> sha_of db v (xf_relative_path f) \<noteq> Some (xf_sha256 f)
      | None \<Rightarrow> file_at db v (xf_relative_path f) = Some row)"
proof (cases "sha_of db v (xf_relative_path f) = Some (xf_sha256 f)")
  case True
  then show ?thesis by (auto simp: upserted_def upsert_if_cases sha_of_def)
next
  case False
  then show ?thesis
    by (auto simp: upserted_def upsert_if_cases file_at_upsert upsert_id split: option.split)
qed

definition reindexed :: "cache_env \<Rightarrow> nat \<Rightarrow> indexed_source_file \<Rightarrow> nat \<Rightarrow> index_tables \<Rightarrow> index_tables" where
  "reindexed env v f i db =
     (case extract_rust_symbols (ce_parse_file env) (xf_content f) of
        Inl _ \<Rightarrow> db | Inr batch \<Rightarrow> snd (replace_source_file_index_rows v i ''syn'' batch db))"

lemma sync_file_result:
  assumes "statements_ok env v" and "file_at (snd (upserted v f db)) v (xf_relative_path f) = Some row"
  shows "fst (sync_file env k v f (out, db)) = Inr ()"
    and "snd (snd (sync_file env k v f (out, db))) =
      (if xf_language f = Some ''rust'' \<and>
          (fst (upserted v f db) \<noteq> None \<or> count_source_file_index_rows (snd (upserted v f db)) (sf_id row) = 0)
       then reindexed env v f (sf_id row) (snd (upserted v f db)) else snd (upserted v f db))"
proof -
  obtain u db1 where u: "upserted v f db = (u, db1)" by (cases "upserted v f db")
  have id: "u = Some i \<Longrightarrow> i = sf_id row" for i
    using upserted_row [of v f db] assms(2) u by auto
  have fetch: "fetch_source_file_id_optional db1 v (xf_relative_path f) = Some (sf_id row)"
    using assms(2) u by (simp add: fetch_source_file_id_optional_def file_at_def)
  have ok: "fst (reindex_file env k v f u i (out', db1)) = Inr () \<and>
      snd (snd (reindex_file env k v f u i (out', db1))) =
        (if u \<noteq> None \<or> count_source_file_index_rows db1 i = 0 then reindexed env v f i db1 else db1)" for i out'
    using assms(1)
    by (auto simp: reindex_file_def reindexed_def statements_ok_def replace_syn_rows extract_no_traits split: sum.split)
  show "fst (sync_file env k v f (out, db)) = Inr ()"
    using assms(1) ok fetch u
    by (auto simp: sync_file_def statements_ok_def upserted_def [symmetric] Let_def split: option.split)
  show "snd (snd (sync_file env k v f (out, db))) =
      (if xf_language f = Some ''rust'' \<and>
          (fst (upserted v f db) \<noteq> None \<or> count_source_file_index_rows (snd (upserted v f db)) (sf_id row) = 0)
       then reindexed env v f (sf_id row) (snd (upserted v f db)) else snd (upserted v f db))"
    using assms(1) ok fetch u id
    by (cases u) (auto simp: sync_file_def statements_ok_def upserted_def [symmetric] Let_def)
qed

lemma reindexed_files [simp]: "ix_files (reindexed env v f i db) = ix_files db"
  by (auto simp: reindexed_def extract_no_traits split: sum.split)

lemma file_at_reindexed [simp]: "file_at (reindexed env v f i db) w q = file_at db w q"
  by (simp add: file_at_def)

lemma rows_at_reindexed:
  "rows_at (reindexed env v f i db) j =
     (case extract_rust_symbols (ce_parse_file env) (xf_content f) of
        Inl _ \<Rightarrow> rows_at db j | Inr batch \<Rightarrow> if j = i then extracted_rows v i batch else rows_at db j)"
  by (auto simp: reindexed_def rows_at_replace extract_no_traits split: sum.split)

lemma upserted_rows [simp]: "rows_at (snd (upserted v f db)) i = rows_at db i"
  by (simp add: upserted_def upsert_if_cases rows_at_def)

lemma upserted_other: "w \<noteq> v \<or> q \<noteq> xf_relative_path f \<Longrightarrow> file_at (snd (upserted v f db)) w q = file_at db w q"
  by (auto simp: upserted_def upsert_if_cases file_at_upsert)

lemma upserted_inv: "index_inv db \<Longrightarrow> index_inv (snd (upserted v f db))"
proof -
  assume "index_inv db"
  moreover from this have "index_inv (db\<lparr>ix_next_file_id := ix_next_file_id db + 1\<rparr>)"
    by (auto simp: index_inv_def list_all_iff)
  ultimately show ?thesis by (simp add: upserted_def upsert_if_cases upsert_file_inv)
qed

lemma reindexed_inv: "index_inv db \<Longrightarrow> index_inv (reindexed env v f i db)"
  using clear_inv(1) insert_batch_inv
  by (fastforce simp: reindexed_def replace_source_file_index_rows_def split: sum.splits prod.splits)

lemma file_ids_distinct:
  assumes "index_inv db" and "file_at db v p = Some a" and "file_at db w q = Some b" and "sf_id a = sf_id b"
  shows "v = w \<and> p = q"
proof -
  have "inj_on sf_id (set (ix_files db))" using assms(1) by (simp add: index_inv_def distinct_map)
  then have "a = b" using assms(4) file_at_Some [OF assms(2)] file_at_Some [OF assms(3)] by (auto dest: inj_onD)
  then show ?thesis using file_at_Some [OF assms(2)] file_at_Some [OF assms(3)] by auto
qed

abbreviation file_synced :: "cache_env \<Rightarrow> cache_key \<Rightarrow> nat \<Rightarrow> indexed_source_file \<Rightarrow> cache_state \<Rightarrow> index_tables" where
  "file_synced env k v f s \<equiv> snd (snd (sync_file env k v f s))"

lemma sync_file_inv: "statements_ok env v \<Longrightarrow> index_inv (snd s) \<Longrightarrow> index_inv (file_synced env k v f s)"
  using upserted_row [of v f "snd s"] sync_file_result(2) [of env v f "snd s" _ k "fst s"] upserted_inv [of "snd s" v f] reindexed_inv
  by (cases s) (auto split: if_splits)

lemma sync_file_own:
  assumes "statements_ok env v"
  obtains row where "file_at (file_synced env k v f s) v (xf_relative_path f) = Some row" and "sf_sha256 row = xf_sha256 f"
    and "sha_of (snd s) v (xf_relative_path f) = Some (xf_sha256 f) \<Longrightarrow> file_at (snd s) v (xf_relative_path f) = Some row"
    and "rows_at (file_synced env k v f s) (sf_id row) =
      (case extract_rust_symbols (ce_parse_file env) (xf_content f) of
         Inl _ \<Rightarrow> rows_at (snd s) (sf_id row)
       | Inr batch \<Rightarrow>
           if xf_language f = Some ''rust'' \<and> (sha_of (snd s) v (xf_relative_path f) \<noteq> Some (xf_sha256 f) \<or>
                count_source_file_index_rows (snd s) (sf_id row) = 0)
           then extracted_rows v (sf_id row) batch else rows_at (snd s) (sf_id row))"
proof -
  let ?u = "upserted v f (snd s)"
  obtain row where row: "file_at (snd ?u) v (xf_relative_path f) = Some row" "sf_sha256 row = xf_sha256 f"
    "case fst ?u of Some i \<Rightarrow> i = sf_id row \<and> sha_of (snd s) v (xf_relative_path f) \<noteq> Some (xf_sha256 f)
       | None \<Rightarrow> file_at (snd s) v (xf_relative_path f) = Some row"
    using upserted_row by blast
  have changed: "fst ?u \<noteq> None \<longleftrightarrow> sha_of (snd s) v (xf_relative_path f) \<noteq> Some (xf_sha256 f)"
    by (simp add: upserted_def upsert_if_cases)
  have db: "file_synced env k v f s =
      (if xf_language f = Some ''rust'' \<and> (fst ?u \<noteq> None \<or> count_source_file_index_rows (snd ?u) (sf_id row) = 0)
       then reindexed env v f (sf_id row) (snd ?u) else snd ?u)"
    using sync_file_result(2) [OF assms row(1), of k "fst s"] by simp
  show ?thesis
  proof (rule that [of row])
    show "file_at (file_synced env k v f s) v (xf_relative_path f) = Some row" using row(1) by (simp add: db)
    show "sf_sha256 row = xf_sha256 f" by (rule row(2))
    show "file_at (snd s) v (xf_relative_path f) = Some row" if "sha_of (snd s) v (xf_relative_path f) = Some (xf_sha256 f)"
      using that row(3) changed by (auto split: option.splits)
    show "rows_at (file_synced env k v f s) (sf_id row) =
      (case extract_rust_symbols (ce_parse_file env) (xf_content f) of
         Inl _ \<Rightarrow> rows_at (snd s) (sf_id row)
       | Inr batch \<Rightarrow>
           if xf_language f = Some ''rust'' \<and> (sha_of (snd s) v (xf_relative_path f) \<noteq> Some (xf_sha256 f) \<or>
                count_source_file_index_rows (snd s) (sf_id row) = 0)
           then extracted_rows v (sf_id row) batch else rows_at (snd s) (sf_id row))"
      unfolding db changed count_rows_at upserted_rows by (auto simp: rows_at_reindexed split: sum.split)
  qed
qed

lemma sync_file_other:
  assumes "statements_ok env v" and "w \<noteq> v \<or> q \<noteq> xf_relative_path f"
  shows "file_at (file_synced env k v f s) w q = file_at (snd s) w q"
    and "index_inv (snd s) \<Longrightarrow> file_at (snd s) w q = Some row \<Longrightarrow> rows_at (file_synced env k v f s) (sf_id row) = rows_at (snd s) (sf_id row)"
proof -
  let ?u = "upserted v f (snd s)"
  obtain own where own: "file_at (snd ?u) v (xf_relative_path f) = Some own" using upserted_row by blast
  have db: "file_synced env k v f s =
      (if xf_language f = Some ''rust'' \<and> (fst ?u \<noteq> None \<or> count_source_file_index_rows (snd ?u) (sf_id own) = 0)
       then reindexed env v f (sf_id own) (snd ?u) else snd ?u)"
    using sync_file_result(2) [OF assms(1) own, of k "fst s"] by simp
  show "file_at (file_synced env k v f s) w q = file_at (snd s) w q"
    using upserted_other [OF assms(2)] by (simp add: db)
  assume inv: "index_inv (snd s)" and row: "file_at (snd s) w q = Some row"
  have "sf_id row \<noteq> sf_id own"
    using file_ids_distinct [OF upserted_inv [OF inv], of v f w q row v "xf_relative_path f" own]
      upserted_other [OF assms(2)] own row assms(2) by auto
  then show "rows_at (file_synced env k v f s) (sf_id row) = rows_at (snd s) (sf_id row)"
    by (auto simp: db rows_at_reindexed split: sum.split)
qed

section \<open>Freshness of the rows of a file\<close>

text \<open>
  A file is fresh when its row has the hash of its content and its index rows are those extracted
  from it; it is due when a refresh has to make it fresh: its hash changed, it has no rows, or it
  is fresh already.
\<close>

definition fresh :: "index_tables \<Rightarrow> nat \<Rightarrow> indexed_source_file \<Rightarrow> indexed_extraction_batch \<Rightarrow> bool" where
  "fresh db v f batch \<longleftrightarrow>
     (case file_at db v (xf_relative_path f) of
        None \<Rightarrow> False
      | Some row \<Rightarrow> sf_sha256 row = xf_sha256 f \<and> rows_at db (sf_id row) = extracted_rows v (sf_id row) batch)"

definition due :: "index_tables \<Rightarrow> nat \<Rightarrow> indexed_source_file \<Rightarrow> indexed_extraction_batch \<Rightarrow> bool" where
  "due db v f batch \<longleftrightarrow>
     sha_of db v (xf_relative_path f) \<noteq> Some (xf_sha256 f) \<or>
     (case file_at db v (xf_relative_path f) of None \<Rightarrow> False | Some row \<Rightarrow> count_source_file_index_rows db (sf_id row) = 0) \<or>
     fresh db v f batch"

definition same_file :: "index_tables \<Rightarrow> index_tables \<Rightarrow> nat \<Rightarrow> string \<Rightarrow> bool" where
  "same_file db db' v p \<longleftrightarrow>
     file_at db' v p = file_at db v p \<and>
     (case file_at db v p of None \<Rightarrow> True | Some row \<Rightarrow> rows_at db' (sf_id row) = rows_at db (sf_id row))"

lemma same_file_fresh: "same_file db db' v (xf_relative_path f) \<Longrightarrow> fresh db' v f batch \<longleftrightarrow> fresh db v f batch"
  by (auto simp: same_file_def fresh_def split: option.splits)

lemma same_file_due: "same_file db db' v (xf_relative_path f) \<Longrightarrow> due db' v f batch \<longleftrightarrow> due db v f batch"
  using same_file_fresh [of db db' v f batch]
  by (auto simp: same_file_def due_def sha_of_def count_rows_at split: option.splits)

lemma same_file_trans: "same_file a b v p \<Longrightarrow> same_file b c v p \<Longrightarrow> same_file a c v p"
  by (auto simp: same_file_def split: option.splits)

lemma sync_file_same:
  "statements_ok env v \<Longrightarrow> index_inv (snd s) \<Longrightarrow> w \<noteq> v \<or> q \<noteq> xf_relative_path f \<Longrightarrow>
   same_file (snd s) (file_synced env k v f s) w q"
  using sync_file_other [of env v w q f] by (auto simp: same_file_def split: option.splits)

lemma sync_file_fresh:
  assumes "statements_ok env v" and "xf_language f = Some ''rust''"
    and "extract_rust_symbols (ce_parse_file env) (xf_content f) = Inr batch" and "due (snd s) v f batch"
  shows "fresh (file_synced env k v f s) v f batch"
proof -
  obtain row where row: "file_at (file_synced env k v f s) v (xf_relative_path f) = Some row" "sf_sha256 row = xf_sha256 f"
    and old: "sha_of (snd s) v (xf_relative_path f) = Some (xf_sha256 f) \<Longrightarrow> file_at (snd s) v (xf_relative_path f) = Some row"
    and rows: "rows_at (file_synced env k v f s) (sf_id row) =
      (if sha_of (snd s) v (xf_relative_path f) \<noteq> Some (xf_sha256 f) \<or> count_source_file_index_rows (snd s) (sf_id row) = 0
       then extracted_rows v (sf_id row) batch else rows_at (snd s) (sf_id row))"
    by (rule sync_file_own [OF assms(1), of k f s]) (simp add: assms(2,3))
  have "rows_at (file_synced env k v f s) (sf_id row) = extracted_rows v (sf_id row) batch"
    using assms(4) old unfolding rows due_def fresh_def by (auto split: option.splits)
  then show ?thesis using row by (simp add: fresh_def)
qed

section \<open>The files of a version, in order\<close>

abbreviation files_synced :: "cache_env \<Rightarrow> cache_key \<Rightarrow> nat \<Rightarrow> indexed_source_file list \<Rightarrow> cache_state \<Rightarrow> index_tables" where
  "files_synced env k v fs s \<equiv> snd (snd (sync_files env k v fs s))"

lemma sync_file_returns: "statements_ok env v \<Longrightarrow> \<exists>s'. sync_file env k v f s = (Inr (), s')"
  using upserted_row [of v f "snd s"] sync_file_result(1) [of env v f "snd s" _ k "fst s"]
  by (cases "sync_file env k v f s") auto

lemma sync_files_Cons:
  "statements_ok env v \<Longrightarrow> sync_files env k v (f # fs) s = sync_files env k v fs (snd (sync_file env k v f s))"
  using sync_file_returns [of env v k f s] by auto

lemma sync_files_returns: "statements_ok env v \<Longrightarrow> fst (sync_files env k v fs s) = Inr ()"
proof (induction fs arbitrary: s)
  case (Cons f fs)
  then show ?case by (subst sync_files_Cons) auto
qed simp

lemma sync_files_same:
  assumes "statements_ok env v" and "index_inv (snd s)" and "w \<noteq> v \<or> q \<notin> xf_relative_path ` set fs"
  shows "index_inv (files_synced env k v fs s) \<and> same_file (snd s) (files_synced env k v fs s) w q"
  using assms(2,3)
proof (induction fs arbitrary: s)
  case Nil
  then show ?case by (simp add: same_file_def split: option.split)
next
  case (Cons f fs)
  have "same_file (snd s) (file_synced env k v f s) w q"
    by (rule sync_file_same [OF assms(1) Cons.prems(1)]) (use Cons.prems(2) in auto)
  moreover have "index_inv (files_synced env k v fs (snd (sync_file env k v f s))) \<and>
      same_file (file_synced env k v f s) (files_synced env k v fs (snd (sync_file env k v f s))) w q"
    by (rule Cons.IH) (use sync_file_inv [OF assms(1) Cons.prems(1)] Cons.prems(2) in auto)
  ultimately show ?case using same_file_trans by (auto simp: sync_files_Cons [OF assms(1)] simp del: sync_files.simps)
qed

lemma sync_files_own:
  assumes "statements_ok env v" and "index_inv (snd s)" and "distinct (map xf_relative_path fs)" and "f \<in> set fs"
  shows "sha_of (files_synced env k v fs s) v (xf_relative_path f) = Some (xf_sha256 f)"
    and "xf_language f = Some ''rust'' \<Longrightarrow> extract_rust_symbols (ce_parse_file env) (xf_content f) = Inr batch \<Longrightarrow>
      due (snd s) v f batch \<Longrightarrow> fresh (files_synced env k v fs s) v f batch"
proof -
  have "sha_of (files_synced env k v fs s) v (xf_relative_path f) = Some (xf_sha256 f) \<and>
    (xf_language f = Some ''rust'' \<and> extract_rust_symbols (ce_parse_file env) (xf_content f) = Inr batch \<and>
      due (snd s) v f batch \<longrightarrow> fresh (files_synced env k v fs s) v f batch)"
    using assms(2-4)
  proof (induction fs arbitrary: s)
    case (Cons g fs)
    let ?s = "snd (sync_file env k v g s)"
    have inv: "index_inv (snd ?s)" by (rule sync_file_inv [OF assms(1) Cons.prems(1)])
    note step = sync_files_Cons [OF assms(1), of k g fs s]
    show ?case
    proof (cases "f = g")
      case True
      then have out: "v \<noteq> v \<or> xf_relative_path f \<notin> xf_relative_path ` set fs" using Cons.prems(2) by auto
      have rest: "same_file (snd ?s) (files_synced env k v fs ?s) v (xf_relative_path f)"
        using sync_files_same [OF assms(1) inv out] by blast
      obtain row where "file_at (snd ?s) v (xf_relative_path f) = Some row" "sf_sha256 row = xf_sha256 f"
        by (rule sync_file_own [OF assms(1), of k g s]) (simp add: True)
      then have "sha_of (files_synced env k v fs ?s) v (xf_relative_path f) = Some (xf_sha256 f)"
        using rest by (simp add: sha_of_def same_file_def)
      then show ?thesis
        using sync_file_fresh [OF assms(1), of g batch s k] same_file_fresh [OF rest] True by (simp add: step del: sync_files.simps)
    next
      case False
      then have "f \<in> set fs" using Cons.prems(3) by simp
      then have in_fs: "xf_relative_path f \<in> xf_relative_path ` set fs" by (rule imageI)
      have "xf_relative_path g \<notin> xf_relative_path ` set fs" using Cons.prems(2) by simp
      with in_fs have other: "xf_relative_path f \<noteq> xf_relative_path g" by metis
      have "same_file (snd s) (snd ?s) v (xf_relative_path f)"
        by (rule sync_file_same [OF assms(1) Cons.prems(1)]) (simp add: other)
      then show ?thesis
        using Cons.IH [OF inv _ \<open>f \<in> set fs\<close>] Cons.prems(2) same_file_due by (simp add: step del: sync_files.simps)
    qed
  qed simp
  then show "sha_of (files_synced env k v fs s) v (xf_relative_path f) = Some (xf_sha256 f)"
    and "xf_language f = Some ''rust'' \<Longrightarrow> extract_rust_symbols (ce_parse_file env) (xf_content f) = Inr batch \<Longrightarrow>
      due (snd s) v f batch \<Longrightarrow> fresh (files_synced env k v fs s) v f batch"
    by blast+
qed

section \<open>Pruning\<close>

lemma prune_files:
  "ix_files (snd (prune_source_file_index_and_files v seen db)) = filter (\<lambda>f. \<not> stale_file v seen f) (ix_files db)"
  by (simp add: prune_source_file_index_and_files_def prune_source_files_for_crate_version_def
      prune_stale_source_file_index_rows_def Let_def)

lemma prune_rows:
  "rows_at (snd (prune_source_file_index_and_files v seen db)) i =
     (if i \<in> sf_id ` set (filter (stale_file v seen) (ix_files db)) then ([], [], []) else rows_at db i)"
  by (auto simp: rows_at_def prune_source_file_index_and_files_def prune_source_files_for_crate_version_def
      prune_stale_source_file_index_rows_def Let_def filter_empty_conv intro!: filter_cong)

lemma distinct_map_sub: "distinct (map f xs) \<Longrightarrow> distinct (map f (filter P xs))"
  by (induction xs) auto

lemma prune_inv: "index_inv db \<Longrightarrow> index_inv (snd (prune_source_file_index_and_files v seen db))"
  by (simp add: index_inv_def prune_source_file_index_and_files_def prune_source_files_for_crate_version_def
      prune_stale_source_file_index_rows_def Let_def unique_rows_filter distinct_map_sub list_all_iff del: filter_filter)

lemma prune_same:
  assumes "index_inv db" and "w \<noteq> v \<or> q \<in> set seen \<or> starts_with RUSTDOC_SOURCE_PATH_PREFIX q"
  shows "same_file db (snd (prune_source_file_index_and_files v seen db)) w q"
proof (cases "file_at db w q")
  case None
  then show ?thesis by (simp add: same_file_def file_at_prune)
next
  case (Some row)
  note r = file_at_Some [OF Some]
  have "inj_on sf_id (set (ix_files db))" using assms(1) by (simp add: index_inv_def distinct_map)
  moreover have "\<not> stale_file v seen row" using assms(2) r by (auto simp: stale_file_iff)
  ultimately have "sf_id row \<notin> sf_id ` set (filter (stale_file v seen) (ix_files db))"
    using r by (auto dest: inj_onD)
  then show ?thesis using Some assms(2) by (auto simp: same_file_def file_at_prune prune_rows)
qed

section \<open>One version, without failures\<close>

lemma refresh_version_db:
  assumes "statements_ok env (ca_crate_version_id c)" and "vmap (ca_dir_name c) = Some k"
    and "scan_cache_version_dir env (ca_path c) (ca_node c) path_contains = Inr files"
  shows "fst (refresh_version env vmap path_contains c s) = Inr () \<and>
    snd (snd (refresh_version env vmap path_contains c s)) =
      snd (prune_source_file_index_and_files (ca_crate_version_id c) (map xf_relative_path files)
        (files_synced env k (ca_crate_version_id c) files s))"
proof -
  obtain out db where r: "sync_files env k (ca_crate_version_id c) files s = (Inr (), out, db)"
    using sync_files_returns [OF assms(1), of k files s] by (cases "sync_files env k (ca_crate_version_id c) files s") auto
  show ?thesis using assms(1) by (simp add: refresh_version_def assms(2,3) r statements_ok_def case_prod_beta)
qed

lemma refresh_version_sha:
  assumes "statements_ok env (ca_crate_version_id c)" and "vmap (ca_dir_name c) = Some k"
    and "scan_cache_version_dir env (ca_path c) (ca_node c) path_contains = Inr files"
    and "distinct (map xf_relative_path files)" and "index_inv (snd s)"
  shows "sha_of (snd (snd (refresh_version env vmap path_contains c s))) w q =
    (if w = ca_crate_version_id c
     then (case map_of (map (\<lambda>f. (xf_relative_path f, xf_sha256 f)) files) q of
         Some sha \<Rightarrow> Some sha
       | None \<Rightarrow> if starts_with RUSTDOC_SOURCE_PATH_PREFIX q then sha_of (snd s) w q else None)
     else sha_of (snd s) w q)"
proof -
  let ?v = "ca_crate_version_id c" and ?F = "files_synced env k (ca_crate_version_id c) files s"
  have pruned: "sha_of (snd (snd (refresh_version env vmap path_contains c s))) w q =
      (if w = ?v \<and> q \<notin> xf_relative_path ` set files \<and> \<not> starts_with RUSTDOC_SOURCE_PATH_PREFIX q then None else sha_of ?F w q)"
    using refresh_version_db [where vmap = vmap and s = s and path_contains = path_contains and files = files, OF assms(1,2,3)] by (simp add: sha_of_def file_at_prune)
  show ?thesis
  proof (cases "w = ?v \<and> q \<in> xf_relative_path ` set files")
    case True
    then obtain f where f: "f \<in> set files" "q = xf_relative_path f" by blast
    have "map_of (map (\<lambda>f. (xf_relative_path f, xf_sha256 f)) files) q = Some (xf_sha256 f)"
      by (rule map_of_is_SomeI) (use assms(4) f in \<open>auto simp: comp_def\<close>)
    moreover have "sha_of ?F ?v q = Some (xf_sha256 f)"
      using sync_files_own(1) [OF assms(1,5,4) f(1)] f(2) by simp
    ultimately show ?thesis using True pruned by simp
  next
    case False
    then have "same_file (snd s) ?F w q" using sync_files_same [OF assms(1,5)] by blast
    then have "sha_of ?F w q = sha_of (snd s) w q" by (simp add: same_file_def sha_of_def)
    moreover have "map_of (map (\<lambda>f. (xf_relative_path f, xf_sha256 f)) files) q = None" if "w = ?v"
      using that False by (auto simp: map_of_eq_None_iff image_image)
    ultimately show ?thesis using False pruned by auto
  qed
qed

lemma refresh_version_fresh:
  assumes "statements_ok env (ca_crate_version_id c)" and "vmap (ca_dir_name c) = Some k"
    and "scan_cache_version_dir env (ca_path c) (ca_node c) path_contains = Inr files"
    and "distinct (map xf_relative_path files)" and "index_inv (snd s)" and "f \<in> set files"
    and "xf_language f = Some ''rust''" and "extract_rust_symbols (ce_parse_file env) (xf_content f) = Inr batch"
    and "due (snd s) (ca_crate_version_id c) f batch"
  shows "fresh (snd (snd (refresh_version env vmap path_contains c s))) (ca_crate_version_id c) f batch"
proof -
  let ?v = "ca_crate_version_id c" and ?F = "files_synced env k (ca_crate_version_id c) files s"
  have "index_inv ?F" using sync_files_same [OF assms(1,5), of "Suc ?v"] by simp
  then have "same_file ?F (snd (prune_source_file_index_and_files ?v (map xf_relative_path files) ?F)) ?v (xf_relative_path f)"
    by (rule prune_same) (use assms(6) in simp)
  then show ?thesis
    using refresh_version_db [where vmap = vmap and s = s and path_contains = path_contains and files = files, OF assms(1,2,3)] sync_files_own(2) [OF assms(1,5,4,6,7,8,9), of k]
    by (simp add: same_file_fresh)
qed

text \<open>
  (C11) The refresh of a version mirrors the disk.  When the directory can be read and the statements succeed, the
  refresh returns, keeps the index tables consistent, and leaves exactly the scanned files of the version with
  their hashes, the rustdoc documents and the files of other versions as they were; every parseable
  Rust file that changed, had no rows or was already fresh has exactly the rows extracted from its
  content.
\<close>

theorem local_cache_mirrors_disk:
  assumes "statements_ok env (ca_crate_version_id c)" and "vmap (ca_dir_name c) = Some k"
    and "scan_cache_version_dir env (ca_path c) (ca_node c) path_contains = Inr files"
    and "distinct (map xf_relative_path files)" and "index_inv db"
    and "refresh_version env vmap path_contains c (out, db) = (r, out', db')"
  shows "r = Inr () \<and> index_inv db' \<and>
    (\<forall>w q. sha_of db' w q =
      (if w = ca_crate_version_id c
       then (case map_of (map (\<lambda>f. (xf_relative_path f, xf_sha256 f)) files) q of
           Some sha \<Rightarrow> Some sha
         | None \<Rightarrow> if starts_with RUSTDOC_SOURCE_PATH_PREFIX q then sha_of db w q else None)
       else sha_of db w q)) \<and>
    (\<forall>f \<in> set files. \<forall>batch. xf_language f = Some ''rust'' \<and>
       extract_rust_symbols (ce_parse_file env) (xf_content f) = Inr batch \<and> due db (ca_crate_version_id c) f batch \<longrightarrow>
       fresh db' (ca_crate_version_id c) f batch)"
proof (intro conjI allI ballI impI)
  note db = refresh_version_db [where vmap = vmap and s = "(out, db)", OF assms(1,2,3)]
  show "r = Inr ()" using db assms(6) by simp
  have "index_inv (files_synced env k (ca_crate_version_id c) files (out, db))"
    using sync_files_same [OF assms(1), of "(out, db)" "Suc (ca_crate_version_id c)"] assms(5) by simp
  then show "index_inv db'" using db assms(6) prune_inv by simp
next
  fix w q
  show "sha_of db' w q =
      (if w = ca_crate_version_id c
       then (case map_of (map (\<lambda>f. (xf_relative_path f, xf_sha256 f)) files) q of
           Some sha \<Rightarrow> Some sha
         | None \<Rightarrow> if starts_with RUSTDOC_SOURCE_PATH_PREFIX q then sha_of db w q else None)
       else sha_of db w q)"
    by (rule refresh_version_sha [where vmap = vmap and s = "(out, db)" and w = w and q = q, OF assms(1-4), unfolded snd_conv assms(6), OF assms(5)])
next
  fix f batch
  assume "f \<in> set files" and "xf_language f = Some ''rust'' \<and>
       extract_rust_symbols (ce_parse_file env) (xf_content f) = Inr batch \<and> due db (ca_crate_version_id c) f batch"
  then show "fresh db' (ca_crate_version_id c) f batch"
    using refresh_version_fresh [where vmap = vmap and s = "(out, db)", OF assms(1-4)] assms(5,6) by simp
qed

definition sample_cache_env :: cache_env where
  "sample_cache_env =
     \<lparr>ce_stat = (\<lambda>_. Inr 9), ce_read = (\<lambda>_. Inr ''fn f() {}''), ce_sha256 = take 2,
      ce_parse_file = (\<lambda>_. Inr [SynFn \<lparr>sh_ident = ''f'', sh_vis = VisOther, sh_generics = [], sh_attrs = []\<rparr>]),
      ce_registries = Inr [], ce_cache_is_dir = False, ce_cache_entries = Inr [], ce_load_fails = None,
      ce_upsert_fails = (\<lambda>_ _. None), ce_lookup_fails = (\<lambda>_ _. None), ce_count_fails = (\<lambda>_ _. None),
      ce_replace_fails = (\<lambda>_ _. None), ce_prune_fails = (\<lambda>_. None)\<rparr>"

definition sample_cache_candidate :: cache_candidate where
  "sample_cache_candidate =
     \<lparr>ca_dir_name = ''demo-1.0.0'', ca_version = ''1.0.0'', ca_path = [''src'', ''demo-1.0.0''],
      ca_node = DkDir [Entry ''lib.rs'' DkFile, Entry ''logo.png'' DkFile], ca_crate_version_id = 1\<rparr>"

definition sample_cache_map :: "string \<Rightarrow> cache_key option" where
  "sample_cache_map = version_map [(''demo-1.0.0'', ''demo'', ''1.0.0'', 1)]"

definition sample_cache_file :: indexed_source_file where
  "sample_cache_file = \<lparr>xf_relative_path = ''lib.rs'', xf_sha256 = ''666e'', xf_file_size = 9, xf_language = Some ''rust'',
     xf_content = ''fn f() {}''\<rparr>"

lemma sample_scan:
  "scan_cache_version_dir sample_cache_env (ca_path sample_cache_candidate) (ca_node sample_cache_candidate) None = Inr [sample_cache_file]"
proof -
  let ?p = "[''src'', ''demo-1.0.0'', ''lib.rs'']"
  have walk: "walk_text_files (ca_path sample_cache_candidate) (ca_node sample_cache_candidate) = Inr [?p]" by code_simp
  have rel: "relative_path (ca_path sample_cache_candidate) ?p = Inr ''lib.rs''" by code_simp
  have "extension_language ?p = Some ''rust''" "utf8_valid ''fn f() {}''" "CHR 0x00 \<notin> set ''fn f() {}''"
    "file_sha256_hex (take 2) ''fn f() {}'' = ''666e''"
    by code_simp+
  then show ?thesis
    by (simp add: scan_cache_version_dir_def walk scan_file_def rel sample_cache_file_def) (simp add: sample_cache_env_def MAX_TEXT_FILE_BYTES_def)
qed

lemma sample_env_ok: "statements_ok sample_cache_env v"
  by (simp add: statements_ok_def sample_cache_env_def)

lemma sample_key: "sample_cache_map (ca_dir_name sample_cache_candidate) = Some \<lparr>ck_crate_name = ''demo'', ck_version = ''1.0.0'', ck_crate_version_id = 1\<rparr>"
  by code_simp

theorem local_cache_mirrors_disk_witness:
  "case refresh_version sample_cache_env sample_cache_map None sample_cache_candidate (cache_outcome_default, empty_index) of
     (r, out', db') \<Rightarrow> r = Inr () \<and> index_inv db' \<and> sha_of db' 1 ''lib.rs'' = Some ''666e''"
proof -
  obtain r out' db' where s: "refresh_version sample_cache_env sample_cache_map None sample_cache_candidate (cache_outcome_default, empty_index) = (r, out', db')"
    by (rule prod_cases3)
  have d: "distinct (map xf_relative_path [sample_cache_file])" by simp
  have "ca_crate_version_id sample_cache_candidate = 1" by (simp add: sample_cache_candidate_def)
  then show ?thesis
    using local_cache_mirrors_disk [where vmap = sample_cache_map, OF sample_env_ok sample_key sample_scan d empty_index_inv s]
    by (simp add: s) (simp add: sample_cache_file_def)
qed

section \<open>Where the index stays behind the disk\<close>

lemma scan_files_filtered:
  "scan_files env root (Some pat) ps = Inr files \<Longrightarrow> \<forall>f \<in> set files. contains pat (to_ascii_lowercase (xf_relative_path f))"
proof (induction ps arbitrary: files)
  case (Cons p ps)
  then show ?case
    by (fastforce simp: res_bind_Inr_iff scan_file_def split: if_splits sum.splits option.splits)
qed simp

text \<open>
  A refresh with a query deletes what the query does not select: after it the version has no file whose
  path does not contain the query, rustdoc documents apart, although these files are still on disk.
\<close>

theorem filtered_refresh_prunes:
  assumes "statements_ok env (ca_crate_version_id c)" and "vmap (ca_dir_name c) = Some k"
    and "scan_cache_version_dir env (ca_path c) (ca_node c) (Some pat) = Inr files"
    and "\<not> contains pat (to_ascii_lowercase p)" and "\<not> starts_with RUSTDOC_SOURCE_PATH_PREFIX p"
  shows "file_at (snd (snd (refresh_version env vmap (Some pat) c (out, db)))) (ca_crate_version_id c) p = None"
proof -
  have "p \<notin> xf_relative_path ` set files"
    using assms(3,4) scan_files_filtered by (fastforce simp: scan_cache_version_dir_def res_bind_Inr_iff)
  then show ?thesis
    using refresh_version_db [where vmap = vmap and s = "(out, db)", OF assms(1-3)] assms(5) by (simp add: file_at_prune)
qed

theorem filtered_refresh_prunes_witness:
  "file_at (snd (snd (refresh_version sample_cache_env sample_cache_map (Some ''bin'') sample_cache_candidate (cache_outcome_default,
     snd (upsert_source_file_unconditional 1 ''lib.rs'' ''666e'' 9 (Some ''rust'') empty_index))))) 1 ''lib.rs'' = None"
proof -
  have scan: "scan_cache_version_dir sample_cache_env (ca_path sample_cache_candidate) (ca_node sample_cache_candidate) (Some ''bin'') = Inr []"
    by code_simp
  have "\<not> contains ''bin'' (to_ascii_lowercase ''lib.rs'')" "\<not> starts_with RUSTDOC_SOURCE_PATH_PREFIX ''lib.rs''"
    by code_simp+
  from filtered_refresh_prunes [where vmap = sample_cache_map, OF sample_env_ok sample_key scan this]
  show ?thesis by (simp add: sample_cache_candidate_def)
qed

text \<open>When replacing the rows of a changed file fails, its new hash is stored already.\<close>

lemma failed_replace_db:
  assumes "ce_upsert_fails env v (xf_relative_path f) = None" and "ce_count_fails env v (xf_relative_path f) = None"
    and "ce_replace_fails env v (xf_relative_path f) = Some e" and "xf_language f = Some ''rust''"
    and "extract_rust_symbols (ce_parse_file env) (xf_content f) = Inr batch"
    and "sha_of db v (xf_relative_path f) \<noteq> Some (xf_sha256 f)"
  shows "\<exists>msg out'. sync_file env k v f (out, db) = (Inl msg, out', snd (upserted v f db))"
proof -
  have "fst (upserted v f db) \<noteq> None" using assms(6) by (simp add: upserted_def upsert_if_cases)
  then obtain i db1 where i: "upserted v f db = (Some i, db1)" by (cases "upserted v f db") auto
  have "upsert_source_file_if_sha_changed v (xf_relative_path f) (xf_sha256 f) (xf_file_size f) (Some ''rust'') db = (Some i, db1)"
    using i assms(4) by (simp add: upserted_def)
  then show ?thesis
    using assms(1-5) by (simp add: sync_file_def i Let_def reindex_file_def)
qed

text \<open>
  (C12) A failed replacement is not made up for: the hash of a changed file is stored before its rows are
  replaced, so when the replacement fails the next refresh, with every statement succeeding, takes the
  file for unchanged and leaves the rows of the old content under the new hash.
\<close>

theorem failed_replace_not_retried:
  assumes "ce_upsert_fails env1 v (xf_relative_path f) = None" and "ce_count_fails env1 v (xf_relative_path f) = None"
    and "ce_replace_fails env1 v (xf_relative_path f) = Some e" and "xf_language f = Some ''rust''"
    and "extract_rust_symbols (ce_parse_file env1) (xf_content f) = Inr batch"
    and "file_at db v (xf_relative_path f) = Some row" and "sf_sha256 row \<noteq> xf_sha256 f"
    and "count_source_file_index_rows db (sf_id row) \<noteq> 0" and "statements_ok env2 v"
    and "sync_file env1 k v f (out, db) = (r1, s1)" and "sync_file env2 k v f s1 = (r2, out2, db2)"
  shows "(\<exists>msg. r1 = Inl msg) \<and> r2 = Inr () \<and> sha_of db2 v (xf_relative_path f) = Some (xf_sha256 f) \<and>
    rows_at db2 (sf_id row) = rows_at db (sf_id row)"
proof -
  have changed: "sha_of db v (xf_relative_path f) \<noteq> Some (xf_sha256 f)" using assms(6,7) by (simp add: sha_of_def)
  obtain msg out' where r1: "r1 = Inl msg" and s1: "s1 = (out', snd (upserted v f db))"
    using failed_replace_db [OF assms(1-5) changed, of k out] assms(10) by auto
  have row1: "file_at (snd s1) v (xf_relative_path f) =
      Some (row\<lparr>sf_sha256 := xf_sha256 f, sf_file_size := xf_file_size f, sf_language := xf_language f\<rparr>)"
    using changed assms(6) by (simp add: s1 upserted_def upsert_if_cases file_at_upsert)
  then have same: "sha_of (snd s1) v (xf_relative_path f) = Some (xf_sha256 f)" by (simp add: sha_of_def)
  have db2: "file_synced env2 k v f s1 = db2" using assms(11) by simp
  obtain row2 where row2: "file_at db2 v (xf_relative_path f) = Some row2" "sf_sha256 row2 = xf_sha256 f"
    and old: "sha_of (snd s1) v (xf_relative_path f) = Some (xf_sha256 f) \<Longrightarrow> file_at (snd s1) v (xf_relative_path f) = Some row2"
    and rows: "rows_at db2 (sf_id row2) =
      (case extract_rust_symbols (ce_parse_file env2) (xf_content f) of
         Inl _ \<Rightarrow> rows_at (snd s1) (sf_id row2)
       | Inr batch \<Rightarrow>
           if xf_language f = Some ''rust'' \<and> (sha_of (snd s1) v (xf_relative_path f) \<noteq> Some (xf_sha256 f) \<or>
                count_source_file_index_rows (snd s1) (sf_id row2) = 0)
           then extracted_rows v (sf_id row2) batch else rows_at (snd s1) (sf_id row2))"
    by (rule sync_file_own [OF assms(9), of k f s1, unfolded db2]) (rule that)
  have "sf_id row2 = sf_id row" using old [OF same] row1 by auto
  then have "count_source_file_index_rows (snd s1) (sf_id row2) \<noteq> 0" using assms(8) by (simp add: s1 count_rows_at)
  then have "rows_at db2 (sf_id row2) = rows_at (snd s1) (sf_id row2)"
    using rows same by (auto split: sum.splits)
  then have "rows_at db2 (sf_id row) = rows_at (snd s1) (sf_id row)" using \<open>sf_id row2 = sf_id row\<close> by simp
  moreover have "r2 = Inr ()" using sync_file_returns [OF assms(9), of k f s1] assms(11) by simp
  ultimately show ?thesis using r1 row2 by (simp add: sha_of_def s1)
qed

definition sample_cache_key :: cache_key where
  "sample_cache_key = \<lparr>ck_crate_name = ''demo'', ck_version = ''1.0.0'', ck_crate_version_id = 1\<rparr>"

definition sample_stale_index :: index_tables where
  "sample_stale_index = empty_index\<lparr>
     ix_files := [\<lparr>sf_id = 1, sf_crate_version_id = 1, sf_path = ''lib.rs'', sf_sha256 = ''0000'', sf_file_size = 3, sf_language = Some ''rust''\<rparr>],
     ix_symbols := [index_row 1 1 ''syn'' (syn_symbol ''fn g() {}'' ''function'' \<lparr>sh_ident = ''g'', sh_vis = VisOther, sh_generics = [], sh_attrs = []\<rparr>)],
     ix_next_file_id := 2\<rparr>"

theorem failed_replace_not_retried_witness:
  "case sync_file (sample_cache_env\<lparr>ce_replace_fails := \<lambda>_ _. Some ''connection closed''\<rparr>) sample_cache_key 1 sample_cache_file (cache_outcome_default, sample_stale_index) of
     (r1, s1) \<Rightarrow> (case sync_file sample_cache_env sample_cache_key 1 sample_cache_file s1 of
       (r2, out2, db2) \<Rightarrow> r2 = Inr () \<and> sha_of db2 1 ''lib.rs'' = Some ''666e'' \<and> rows_at db2 1 = rows_at sample_stale_index 1)"
proof -
  let ?env = "sample_cache_env\<lparr>ce_replace_fails := \<lambda>_ _. Some ''connection closed''\<rparr>" and ?f = sample_cache_file
  obtain r1 s1 where a: "sync_file ?env sample_cache_key 1 ?f (cache_outcome_default, sample_stale_index) = (r1, s1)" by (rule prod.exhaust)
  obtain r2 out2 db2 where b: "sync_file sample_cache_env sample_cache_key 1 ?f s1 = (r2, out2, db2)" by (rule prod_cases3)
  obtain batch where e: "extract_rust_symbols (ce_parse_file ?env) (xf_content ?f) = Inr batch"
    by (simp add: extract_rust_symbols_def sample_cache_env_def Let_def)
  have row: "file_at sample_stale_index 1 (xf_relative_path ?f) = Some (hd (ix_files sample_stale_index))"
    by (simp add: file_at_def sample_stale_index_def sample_cache_file_def)
  have fails: "ce_upsert_fails ?env 1 p = None" "ce_count_fails ?env 1 p = None" "ce_replace_fails ?env 1 p = Some ''connection closed''" for p
    by (simp_all add: sample_cache_env_def)
  have stale: "sf_sha256 (hd (ix_files sample_stale_index)) \<noteq> xf_sha256 ?f" "xf_language ?f = Some ''rust''"
    "count_source_file_index_rows sample_stale_index (sf_id (hd (ix_files sample_stale_index))) \<noteq> 0"
    by (simp_all add: sample_stale_index_def sample_cache_file_def count_source_file_index_rows_def index_row_def)
  have "sf_id (hd (ix_files sample_stale_index)) = 1" "xf_relative_path ?f = ''lib.rs''" "xf_sha256 ?f = ''666e''"
    by (simp_all add: sample_stale_index_def sample_cache_file_def)
  with failed_replace_not_retried [OF fails stale(2) e row stale(1,3) sample_env_ok a b] show ?thesis unfolding a b prod.case by simp
qed

section \<open>The order of the versions\<close>

lemma mset_sort_by: "mset (sort_by le xs) = mset xs"
proof -
  have "mset (insort_by le x ys) = add_mset x (mset ys)" for x ys by (induction ys) auto
  then show ?thesis by (induction xs) (simp_all add: sort_by_def)
qed

lemma sorted_sort_by:
  assumes total: "\<And>x y. le x y \<or> le y x" and trans: "\<And>x y z. le x y \<Longrightarrow> le y z \<Longrightarrow> le x z"
  shows "sorted_wrt le (sort_by le xs)"
proof -
  have elems: "set (insort_by le x ys) = insert x (set ys)" for x ys by (induction ys) auto
  have "sorted_wrt le ys \<Longrightarrow> sorted_wrt le (insort_by le x ys)" for x ys
  proof (induction ys)
    case (Cons y ys)
    then show ?case using total [of x y] by (auto simp: elems intro: trans)
  qed simp
  then show ?thesis by (induction xs) (simp_all add: sort_by_def)
qed

lemma candidate_le_total: "candidate_le sv x y \<or> candidate_le sv y x"
  by (auto simp: candidate_le_def split: option.split)

lemma candidate_le_trans: "candidate_le sv x y \<Longrightarrow> candidate_le sv y z \<Longrightarrow> candidate_le sv x z"
  by (auto simp: candidate_le_def split: option.splits)

text \<open>
  Versions are taken newest first, but those that do not parse come before all others, where the
  comment announces them last.
\<close>

theorem candidates_newest_first:
  "mset (sort_by (candidate_le sv) cs) = mset cs \<and>
   sorted_wrt (\<lambda>a b. case (version_parse sv (ca_version a), version_parse sv (ca_version b)) of
       (None, _) \<Rightarrow> True | (Some _, None) \<Rightarrow> False | (Some x, Some y) \<Rightarrow> y \<le> x) (sort_by (candidate_le sv) cs)"
proof
  show "sorted_wrt (\<lambda>a b. case (version_parse sv (ca_version a), version_parse sv (ca_version b)) of
       (None, _) \<Rightarrow> True | (Some _, None) \<Rightarrow> False | (Some x, Some y) \<Rightarrow> y \<le> x) (sort_by (candidate_le sv) cs)"
    by (rule sorted_wrt_mono_rel [OF _ sorted_sort_by [OF candidate_le_total candidate_le_trans]])
      (auto simp: candidate_le_def split: option.splits)
qed (rule mset_sort_by)

end
