(* ===== verification/Maintenance.thy ===== *)
theory Maintenance
  imports Freshness
begin

text \<open>
  The enrichment maintenance scan (\<open>mcp/indexing/maintenance.rs\<close>): it lists the crates that have
  locally present versions without rustdoc data and enqueues a \<open>rustdoc_json\<close> job for each.  The
  scan's own query and an individual enqueue may fail; the failures are arguments.
\<close>

record enrichment_maintenance_outcome =
  mo_scanned :: nat
  mo_enqueued :: nat
  mo_already_queued :: nat

definition maintenance_payload :: json where
  "maintenance_payload =
     JObject [(''trigger'', JString ''enrichment_maintenance''), (''locally_present_only'', JBool True)]"

definition maintenance_request :: "int \<Rightarrow> string \<Rightarrow> enqueue_request" where
  "maintenance_request now crate_name =
     (now, crate_name, ''rustdoc_json'', PRIORITY_PROACTIVE_ENRICH, False, maintenance_payload)"

fun scan_enqueue ::
  "(string \<Rightarrow> bool) \<Rightarrow> int \<Rightarrow> string list \<Rightarrow> enrichment_maintenance_outcome \<Rightarrow> refresh_queue \<Rightarrow>
   enrichment_maintenance_outcome \<times> refresh_queue" where
  "scan_enqueue fails now [] out q = (out, q)"
| "scan_enqueue fails now (crate_name # rest) out q =
     (if fails crate_name then scan_enqueue fails now rest out q
      else (let (e, q') = enqueue_request q (maintenance_request now crate_name)
            in scan_enqueue fails now rest
                 (if eo_is_new e then out\<lparr>mo_enqueued := mo_enqueued out + 1\<rparr>
                  else out\<lparr>mo_already_queued := mo_already_queued out + 1\<rparr>) q'))"

definition run_enrichment_maintenance_scan ::
  "bool \<Rightarrow> (string \<Rightarrow> bool) \<Rightarrow> int \<Rightarrow> int \<Rightarrow> server_state \<Rightarrow> enrichment_maintenance_outcome \<times> server_state" where
  "run_enrichment_maintenance_scan fetch_fails enqueue_fails now cooldown sv =
     (let outcome = \<lparr>mo_scanned = 0, mo_enqueued = 0, mo_already_queued = 0\<rparr>
      in if fetch_fails then (outcome, sv)
         else (let crate_names = fetch_unenriched_crate_names (sv_store sv) now cooldown;
                   (out, q) = scan_enqueue enqueue_fails now crate_names
                                (outcome\<lparr>mo_scanned := length crate_names\<rparr>) (sv_queue sv)
               in (out, sv\<lparr>sv_queue := q,
                           sv_co := (if mo_enqueued out > 0 then notify_worker (sv_co sv) else sv_co sv)\<rparr>)))"

section \<open>The scan as a batch of enqueues\<close>

lemma scan_enqueue_batch:
  "scan_enqueue (\<lambda>_. False) now ns out q =
     (let (outs, q') = enqueue_all enqueue_request q (map (maintenance_request now) ns)
      in (out\<lparr>mo_enqueued := mo_enqueued out + length (filter eo_is_new outs),
             mo_already_queued := mo_already_queued out + length (filter (\<lambda>e. \<not> eo_is_new e) outs)\<rparr>, q'))"
  by (induction ns arbitrary: out q) (auto simp: Let_def split: prod.splits)

lemma enqueue_all_length: "enqueue_all enq q rs = (outs, q') \<Longrightarrow> length outs = length rs"
  by (induction rs arbitrary: q outs) (auto split: prod.splits)

lemma enqueue_all_reachable:
  assumes "queue_reachable q" "enqueue_all enqueue_request q rs = (outs, q')"
  shows "queue_reachable q'"
  using assms
proof (induction rs arbitrary: q outs)
  case (Cons r rs)
  obtain out q1 where e: "enqueue_request q r = (out, q1)" by fastforce
  have "queue_reachable q1"
    using e Cons.prems(1) by (auto simp: enqueue_request_def split: prod.splits
        intro: queue_reachable.step queue_step.enqueue)
  with Cons e show ?case by (auto split: prod.splits)
qed simp

text \<open>
  A scan accounts for every crate it found (each is counted as newly enqueued or as already
  queued) and leaves each of them with an active \<open>rustdoc_json\<close> job; it wakes the worker when it
  created one; and scanning again right away creates no job.
\<close>

theorem maintenance_scan_idempotent:
  assumes "queue_inv (sv_queue sv)"
    and "run_enrichment_maintenance_scan False (\<lambda>_. False) now cooldown sv = (out, sv')"
  shows "mo_enqueued out + mo_already_queued out = mo_scanned out \<and>
    mo_scanned out = length (fetch_unenriched_crate_names (sv_store sv) now cooldown) \<and>
    list_all (\<lambda>n. \<exists>i. job_active (sv_queue sv') i (to_ascii_lowercase n, ''rustdoc_json''))
      (fetch_unenriched_crate_names (sv_store sv) now cooldown) \<and>
    (co_permit (sv_co sv') \<longleftrightarrow> mo_enqueued out > 0 \<or> co_permit (sv_co sv)) \<and>
    run_enrichment_maintenance_scan False (\<lambda>_. False) now cooldown sv' =
      (\<lparr>mo_scanned = mo_scanned out, mo_enqueued = 0, mo_already_queued = mo_scanned out\<rparr>, sv')"
proof -
  define ns where "ns = fetch_unenriched_crate_names (sv_store sv) now cooldown"
  obtain outs q' where b: "enqueue_all enqueue_request (sv_queue sv) (map (maintenance_request now) ns) = (outs, q')"
    by fastforce
  have len: "length outs = length ns" using enqueue_all_length [OF b] by simp
  have out: "out = \<lparr>mo_scanned = length ns, mo_enqueued = length (filter eo_is_new outs),
      mo_already_queued = length (filter (\<lambda>e. \<not> eo_is_new e) outs)\<rparr>"
    and sv': "sv' = sv\<lparr>sv_queue := q', sv_co := (if mo_enqueued out > 0 then notify_worker (sv_co sv) else sv_co sv)\<rparr>"
    using assms(2) b by (auto simp: run_enrichment_maintenance_scan_def ns_def [symmetric] scan_enqueue_batch Let_def)
  have active: "\<exists>i. job_active q' i (to_ascii_lowercase n, ''rustdoc_json'')" if n: "n \<in> set ns" for n
  proof -
    obtain k where "k < length ns" "ns ! k = n" using n by (auto simp: in_set_conv_nth)
    then show ?thesis
      using jobs.all_active [OF assms(1) b] by (force simp: request_key_def maintenance_request_def)
  qed
  have again: "enqueue_all enqueue_request q' (map (maintenance_request now) ns) =
      (map (\<lambda>e. \<lparr>eo_job_id = eo_job_id e, eo_is_new = False\<rparr>) outs, q')"
    by (rule jobs.all_again [OF assms(1) b])
  have ns': "fetch_unenriched_crate_names (sv_store sv') now cooldown = ns" by (simp add: ns_def sv')
  have q': "sv_queue sv' = q'" by (simp add: sv')
  then have same: "sv'\<lparr>sv_queue := q', sv_co := sv_co sv'\<rparr> = sv'" by (cases sv') simp
  have "run_enrichment_maintenance_scan False (\<lambda>_. False) now cooldown sv' =
      (\<lparr>mo_scanned = length ns, mo_enqueued = 0, mo_already_queued = length ns\<rparr>, sv')"
    using len same by (simp add: run_enrichment_maintenance_scan_def ns' q' scan_enqueue_batch again Let_def
        comp_def filter_map)
  moreover have "length (filter eo_is_new outs) + length (filter (\<lambda>e. \<not> eo_is_new e) outs) = length ns"
    using sum_length_filter_compl [of eo_is_new outs] len by simp
  ultimately show ?thesis
    using active unfolding ns_def [symmetric] by (simp add: out sv' list_all_iff notify_worker_def)
qed

theorem maintenance_scan_idempotent_witness:
  "fst (run_enrichment_maintenance_scan False (\<lambda>_. False) 0 60
     (snd (run_enrichment_maintenance_scan False (\<lambda>_. False) 0 60 sample_server))) =
   \<lparr>mo_scanned = 1, mo_enqueued = 0, mo_already_queued = 1\<rparr>"
proof -
  have inv: "queue_inv (sv_queue sample_server)" by (simp add: sample_server_def queue_inv_empty)
  have one: "length (fetch_unenriched_crate_names (sv_store sample_server) 0 60) = 1" by code_simp
  show ?thesis
    using maintenance_scan_idempotent [OF inv prod.collapse [symmetric], of 0 60] one by simp
qed

section \<open>The scan and the worker agree\<close>

lemma optional_job_crate_name_cases:
  "trim n = n \<Longrightarrow> optional_job_crate_name n None = None \<or> optional_job_crate_name n None = Some n"
  by (auto simp: optional_job_crate_name_def job_crate_filter_def Let_def)

lemma crate_of_name: "crate_of st v = Some c \<Longrightarrow> of_crate st (cc_name c) v"
  by (simp add: of_crate_def name_lower_def)

lemma unenriched_iff:
  "n \<in> set (fetch_unenriched_crate_names st now cd) \<longleftrightarrow>
   (\<exists>v \<in> set (st_versions st). vr_locally_present v \<and> needs_enrichment now (Some cd) v \<and>
      (\<exists>c. crate_of st v = Some c \<and> cc_name c = n))"
  by (force simp: fetch_unenriched_crate_names_def List.map_filter_def)

lemma candidates_nonempty:
  "0 < limit \<Longrightarrow> v \<in> set (st_versions st) \<Longrightarrow> rustdoc_candidate st now f v \<Longrightarrow>
   fetch_rustdoc_sync_candidates st now f limit 0 \<noteq> []"
  by (auto simp: fetch_rustdoc_sync_candidates_def sort_key_Nil_iff filter_empty_conv)

text \<open>
  The maintenance scan and the worker agree: every crate name the scan enqueues gives the
  worker's \<open>rustdoc_json\<close> job at least one candidate version, and when the scan finds nothing no
  such job has a locally present candidate.
\<close>

theorem maintenance_scan_matches_worker:
  assumes "trim n = n" and "0 < limit"
  shows "(n \<in> set (fetch_unenriched_crate_names st now cd) \<longrightarrow>
      fetch_rustdoc_sync_candidates st now (rustdoc_job_filter cd (optional_job_crate_name n None) True) limit 0 \<noteq> []) \<and>
    (fetch_unenriched_crate_names st now cd = [] \<longrightarrow>
      fetch_rustdoc_sync_candidates st now (rustdoc_job_filter cd (optional_job_crate_name n None) True) limit 0 = [])"
proof (intro conjI impI)
  assume "n \<in> set (fetch_unenriched_crate_names st now cd)"
  then obtain v c where v: "v \<in> set (st_versions st)" "vr_locally_present v" "needs_enrichment now (Some cd) v"
    "crate_of st v = Some c" "cc_name c = n" by (auto simp: unenriched_iff)
  have "rustdoc_candidate st now (rustdoc_job_filter cd (optional_job_crate_name n None) True) v"
    using optional_job_crate_name_cases [OF assms(1)] v crate_of_name [OF v(4)]
    by (auto simp: rustdoc_candidate_def rustdoc_job_filter_def rustdoc_filter_default_def)
  then show "fetch_rustdoc_sync_candidates st now (rustdoc_job_filter cd (optional_job_crate_name n None) True) limit 0 \<noteq> []"
    by (rule candidates_nonempty [OF assms(2) v(1)])
next
  assume none: "fetch_unenriched_crate_names st now cd = []"
  have "\<not> rustdoc_candidate st now (rustdoc_job_filter cd m True) v" if "v \<in> set (st_versions st)" for v m
  proof
    assume "rustdoc_candidate st now (rustdoc_job_filter cd m True) v"
    then have "\<exists>c. crate_of st v = Some c" "vr_locally_present v" "needs_enrichment now (Some cd) v"
      by (auto simp: rustdoc_candidate_def rustdoc_job_filter_def rustdoc_filter_default_def)
    with that have "\<exists>k. k \<in> set (fetch_unenriched_crate_names st now cd)" by (auto simp: unenriched_iff)
    with none show False by simp
  qed
  then show "fetch_rustdoc_sync_candidates st now (rustdoc_job_filter cd (optional_job_crate_name n None) True) limit 0 = []"
    by (simp add: fetch_rustdoc_sync_candidates_def sort_key_Nil_iff filter_empty_conv)
qed

theorem maintenance_scan_matches_worker_witness:
  "fetch_rustdoc_sync_candidates (sv_store sample_server) 0
     (rustdoc_job_filter 60 (optional_job_crate_name ''Serde'' None) True) 25 0 \<noteq> []"
proof -
  have "trim ''Serde'' = ''Serde''" by code_simp
  moreover have "list_ex (\<lambda>n. n = ''Serde'') (fetch_unenriched_crate_names (sv_store sample_server) 0 60)" by code_simp
  ultimately show ?thesis
    using maintenance_scan_matches_worker [of "''Serde''" 25 "sv_store sample_server" 0 60] by (auto simp: list_ex_iff)
qed

end
