(* ===== verification/Api_Diff.thy ===== *)
theory Api_Diff
  imports Crate_Versions
begin

text \<open>
  The \<open>crate_api_diff\<close> tool (\<open>mcp/tools/krate/api_diff.rs\<close>): the public symbols of two indexed versions
  are reduced to one fingerprint per name and kind and compared.  The tables the handler reads are
  parameters: the rows of \<open>symbols\<close> and \<open>github_releases\<close> at the time its queries run.
\<close>

section \<open>Rows and fingerprints\<close>

record api_diff_symbol_row =
  as_name :: string
  as_kind :: string
  as_signature :: "string option"
  as_visibility :: "string option"
  as_index_source :: string

record symbol_row = api_diff_symbol_row +
  sy_id :: nat
  sy_crate_version_id :: nat
  sy_start_line :: int
  sy_end_line :: int

record symbol_fingerprint =
  fp_signature :: "string option"
  fp_visibility :: "string option"

definition normalize_signature :: "string option \<Rightarrow> string option" where
  "normalize_signature value =
     (case map_option trim value of None \<Rightarrow> None | Some v \<Rightarrow> if v \<noteq> [] then Some v else None)"

definition normalize_visibility :: "string option \<Rightarrow> string option" where
  "normalize_visibility value =
     (case map_option (\<lambda>v. to_ascii_lowercase (trim v)) value of
        None \<Rightarrow> None | Some v \<Rightarrow> if v \<noteq> [] then Some v else None)"

definition row_key :: "'a api_diff_symbol_row_scheme \<Rightarrow> string \<times> string" where
  "row_key row = (as_name row, as_kind row)"

definition symbol_row_priority :: "api_diff_symbol_row \<Rightarrow> 8 word" where
  "symbol_row_priority row =
     (let score = 0;
          score = (if as_index_source row = ''rustdoc_json'' then saturating_add score 4 else score);
          score = (if normalize_signature (as_signature row) \<noteq> None then saturating_add score 2 else score)
      in if normalize_visibility (as_visibility row) \<noteq> None then saturating_add score 1 else score)"

definition prioritize_step ::
  "api_diff_symbol_row \<Rightarrow> (string \<times> string, 8 word \<times> api_diff_symbol_row) btree \<Rightarrow>
   (string \<times> string, 8 word \<times> api_diff_symbol_row) btree" where
  "prioritize_step row best_by_key =
     (let key = row_key row; priority = symbol_row_priority row
      in case bt_get best_by_key key of
           Some (existing_priority, _) \<Rightarrow>
             if existing_priority \<ge> priority then best_by_key else bt_insert key (priority, row) best_by_key
         | None \<Rightarrow> bt_insert key (priority, row) best_by_key)"

definition prioritize_symbol_rows :: "api_diff_symbol_row list \<Rightarrow> api_diff_symbol_row list" where
  "prioritize_symbol_rows rows = map snd (bt_values (fold prioritize_step rows []))"

definition fingerprint :: "api_diff_symbol_row \<Rightarrow> symbol_fingerprint" where
  "fingerprint row = \<lparr>fp_signature = normalize_signature (as_signature row),
                       fp_visibility = normalize_visibility (as_visibility row)\<rparr>"

definition map_symbols :: "api_diff_symbol_row list \<Rightarrow> (string \<times> string, symbol_fingerprint) btree" where
  "map_symbols rows = fold (\<lambda>row. or_insert (row_key row) (fingerprint row)) (prioritize_symbol_rows rows) []"

section \<open>Changes\<close>

datatype crate_api_diff_change_type = Added | Removed | SignatureChanged | VisibilityChanged

record crate_api_diff_change =
  ch_name :: string
  ch_kind :: string
  ch_change_type :: crate_api_diff_change_type
  ch_from_signature :: "string option"
  ch_to_signature :: "string option"
  ch_from_visibility :: "string option"
  ch_to_visibility :: "string option"
  ch_breaking_change :: bool

fun change_sort_rank :: "crate_api_diff_change_type \<Rightarrow> 8 word" where
  "change_sort_rank Removed = 0"
| "change_sort_rank VisibilityChanged = 1"
| "change_sort_rank SignatureChanged = 2"
| "change_sort_rank Added = 3"

record api_diff_summary =
  ds_added_count :: nat
  ds_removed_count :: nat
  ds_changed_count :: nat
  ds_breaking_changes_detected :: bool
  ds_changes :: "crate_api_diff_change list"
  ds_confidence_assessment :: confidence_assessment

text \<open>The mutable locals of \<open>build_diff_summary\<close>.\<close>

record diff_locals =
  dl_added :: nat
  dl_removed :: nat
  dl_changed :: nat
  dl_breaking :: bool
  dl_missing :: nat
  dl_changes :: "crate_api_diff_change list"

definition diff_from_symbol ::
  "(string \<times> string, symbol_fingerprint) btree \<Rightarrow> (string \<times> string) \<times> symbol_fingerprint \<Rightarrow> diff_locals \<Rightarrow> diff_locals" where
  "diff_from_symbol to_map entry l =
     (case entry of ((name, kind), from_symbol) \<Rightarrow>
        (case bt_get to_map (name, kind) of
           None \<Rightarrow>
             l\<lparr>dl_removed := dl_removed l + 1, dl_breaking := True,
               dl_changes := dl_changes l @
                 [\<lparr>ch_name = name, ch_kind = kind, ch_change_type = Removed,
                   ch_from_signature = fp_signature from_symbol, ch_to_signature = None,
                   ch_from_visibility = fp_visibility from_symbol, ch_to_visibility = None,
                   ch_breaking_change = True\<rparr>]\<rparr>
         | Some to_symbol \<Rightarrow>
             (let visibility_changed = (fp_visibility from_symbol \<noteq> fp_visibility to_symbol);
                  signature_changed = (fp_signature from_symbol \<noteq> fp_signature to_symbol)
              in if \<not> (visibility_changed \<or> signature_changed) then l
                 else (let downgraded_visibility =
                             (fp_visibility from_symbol = Some ''public'' \<and> fp_visibility to_symbol = Some ''private'');
                           missing_signature_context =
                             (fp_signature from_symbol = None \<or> fp_signature to_symbol = None);
                           breaking_change = (downgraded_visibility \<or> signature_changed)
                       in l\<lparr>dl_changed := dl_changed l + 1,
                            dl_missing := (if missing_signature_context then dl_missing l + 1 else dl_missing l),
                            dl_breaking := (if breaking_change then True else dl_breaking l),
                            dl_changes := dl_changes l @
                              [\<lparr>ch_name = name, ch_kind = kind,
                                ch_change_type = (if visibility_changed then VisibilityChanged else SignatureChanged),
                                ch_from_signature = fp_signature from_symbol, ch_to_signature = fp_signature to_symbol,
                                ch_from_visibility = fp_visibility from_symbol, ch_to_visibility = fp_visibility to_symbol,
                                ch_breaking_change = breaking_change\<rparr>]\<rparr>))))"

definition diff_to_symbol ::
  "(string \<times> string, symbol_fingerprint) btree \<Rightarrow> (string \<times> string) \<times> symbol_fingerprint \<Rightarrow> diff_locals \<Rightarrow> diff_locals" where
  "diff_to_symbol from_map entry l =
     (case entry of ((name, kind), to_symbol) \<Rightarrow>
        if bt_get from_map (name, kind) \<noteq> None then l
        else l\<lparr>dl_added := dl_added l + 1,
               dl_changes := dl_changes l @
                 [\<lparr>ch_name = name, ch_kind = kind, ch_change_type = Added,
                   ch_from_signature = None, ch_to_signature = fp_signature to_symbol,
                   ch_from_visibility = None, ch_to_visibility = fp_visibility to_symbol,
                   ch_breaking_change = False\<rparr>]\<rparr>)"

definition change_sort_key :: "crate_api_diff_change \<Rightarrow> 8 word \<times> string \<times> string" where
  "change_sort_key c = (change_sort_rank (ch_change_type c), ch_name c, ch_kind c)"

definition diff_confidence :: "bool \<Rightarrow> nat \<Rightarrow> confidence_assessment" where
  "diff_confidence some_empty missing =
     (if some_empty
      then \<lparr>ca_level = Low, ca_reason = ''one or both versions have no indexed public symbols''\<rparr>
      else if missing > 0
      then \<lparr>ca_level = Medium, ca_reason = show_nat missing @ '' changed symbols lack complete signatures''\<rparr>
      else \<lparr>ca_level = High, ca_reason = ''public symbol snapshots available for both versions''\<rparr>)"

definition no_diff :: diff_locals where
  "no_diff = \<lparr>dl_added = 0, dl_removed = 0, dl_changed = 0, dl_breaking = False, dl_missing = 0, dl_changes = []\<rparr>"

definition build_diff_summary :: "api_diff_symbol_row list \<Rightarrow> api_diff_symbol_row list \<Rightarrow> api_diff_summary" where
  "build_diff_summary from_rows to_rows =
     (let from_map = map_symbols from_rows; to_map = map_symbols to_rows;
          l = fold (diff_to_symbol from_map) to_map (fold (diff_from_symbol to_map) from_map no_diff)
      in \<lparr>ds_added_count = dl_added l, ds_removed_count = dl_removed l, ds_changed_count = dl_changed l,
          ds_breaking_changes_detected = dl_breaking l, ds_changes = sort_key change_sort_key (dl_changes l),
          ds_confidence_assessment = diff_confidence (from_map = [] \<or> to_map = []) (dl_missing l)\<rparr>)"

section \<open>Queries\<close>

text \<open>
  \<open>list_api_diff_symbols_for_version\<close>: \<open>SELECT DISTINCT ON (name, kind)\<close> keeps the first row of each group
  in the given order.  Names are compared by their bytes here; a database with another collation
  lists the groups in another order, which the ordered map the rows go into forgets.
\<close>

definition symbol_order ::
  "symbol_row \<Rightarrow> (string \<times> string) \<times> nat \<times> nat \<times> int \<times> int \<times> nat" where
  "symbol_order s = (row_key s, if as_index_source s = ''rustdoc_json'' then 0 else 1,
     if as_signature s = None then 1 else 0, sy_start_line s, sy_end_line s, sy_id s)"

definition list_api_diff_symbols_for_version :: "symbol_row list \<Rightarrow> nat \<Rightarrow> api_diff_symbol_row list" where
  "list_api_diff_symbols_for_version table crate_version_id =
     map api_diff_symbol_row.truncate
       (distinct_on row_key (sort_key symbol_order
          (filter (\<lambda>s. sy_crate_version_id s = crate_version_id \<and>
                       (as_visibility s = Some ''public'' \<or> as_visibility s = None)) table)))"

record github_release_row =
  gl_crate_id :: nat
  gl_tag_name :: string
  gl_release_name :: "string option"
  gl_body :: "string option"
  gl_published_at :: "int option"
  gl_prerelease :: bool

record github_release_note =
  gn_tag :: string
  gn_name :: "string option"
  gn_body :: "string option"
  gn_published_at :: "string option"

definition fetch_github_releases :: "github_release_row list \<Rightarrow> nat \<Rightarrow> nat \<Rightarrow> github_release_row list" where
  "fetch_github_releases table crate_id lim =
     take lim (sort_key (\<lambda>r. case gl_published_at r of None \<Rightarrow> (True, 0) | Some p \<Rightarrow> (False, - p))
       (filter (\<lambda>r. gl_crate_id r = crate_id) table))"

definition release_note :: "(int \<Rightarrow> string) \<Rightarrow> github_release_row \<Rightarrow> github_release_note" where
  "release_note show_time r = \<lparr>gn_tag = gl_tag_name r, gn_name = gl_release_name r, gn_body = gl_body r,
     gn_published_at = map_option show_time (gl_published_at r)\<rparr>"

section \<open>The handler\<close>

record crate_api_diff_request =
  dq_crate_name :: string
  dq_from_version :: string
  dq_to_version :: string
  dq_limit :: "u32 option"

record crate_api_diff_response =
  dr_crate_name :: string
  dr_from_version :: string
  dr_to_version :: string
  dr_added_count :: nat
  dr_removed_count :: nat
  dr_changed_count :: nat
  dr_breaking_changes_detected :: bool
  dr_changes :: "crate_api_diff_change list"
  dr_truncated :: bool
  dr_release_notes :: "github_release_note list"
  dr_freshness_check_performed :: bool
  dr_freshness_check_result :: string
  dr_refresh_enqueued :: bool
  dr_refresh_job_id :: "string option"
  dr_freshness :: "response_freshness_source list"
  dr_confidence :: string
  dr_confidence_assessment :: confidence_assessment
  dr_suggested_next_tools :: "string list"
  dr_provenance :: string

text \<open>The database statements of the handler that fail, and the environment of its two on-demand waits.\<close>

record diff_faults =
  df_from_lookup :: "string option"
  df_to_lookup :: "string option"
  df_from_symbols :: "string option"
  df_to_symbols :: "string option"
  df_releases :: "string option"

definition diff_version ::
  "string option \<Rightarrow> string \<Rightarrow> crate_store \<Rightarrow> crate_context \<Rightarrow> string \<Rightarrow> crate_version_selection_row result" where
  "diff_version db_error what st ctx ver =
     (let name = cc_name (cx_crate_row ctx)
      in case db_error of
           Some e \<Rightarrow> Inl (what @ '' version lookup failed for '' @ at_name name ver @ '': '' @ e)
         | None \<Rightarrow>
             (case fetch_crate_version_by_name st (cc_id (cx_crate_row ctx)) ver of
                Some v \<Rightarrow> Inr v
              | None \<Rightarrow> Inl (''version '' @ [CHR 0x27] @ ver @ [CHR 0x27] @ '' for crate '' @ [CHR 0x27] @
                          name @ [CHR 0x27] @ '' is not indexed locally'')))"

definition diff_symbols ::
  "string option \<Rightarrow> symbol_row list \<Rightarrow> crate_context \<Rightarrow> crate_version_selection_row \<Rightarrow> api_diff_symbol_row list result" where
  "diff_symbols db_error table ctx v =
     (case db_error of
        Some e \<Rightarrow> Inl (''public symbol lookup failed for '' @ at_name (cc_name (cx_crate_row ctx)) (cv_version v) @ '': '' @ e)
      | None \<Rightarrow> Inr (list_api_diff_symbols_for_version table (cv_id v)))"

definition api_diff_response ::
  "(int \<Rightarrow> string) \<Rightarrow> crate_context \<Rightarrow> crate_version_selection_row \<Rightarrow> crate_version_selection_row \<Rightarrow> nat \<Rightarrow>
   api_diff_summary \<Rightarrow> github_release_row list result \<Rightarrow> crate_api_diff_response" where
  "api_diff_response show_time ctx from_row to_row lim summary releases =
     (let truncated = (length (ds_changes summary) > lim); fresh = cx_freshness_outcome ctx;
          assessment = ds_confidence_assessment summary
      in \<lparr>dr_crate_name = cc_name (cx_crate_row ctx), dr_from_version = cv_version from_row,
          dr_to_version = cv_version to_row, dr_added_count = ds_added_count summary,
          dr_removed_count = ds_removed_count summary, dr_changed_count = ds_changed_count summary,
          dr_breaking_changes_detected = ds_breaking_changes_detected summary,
          dr_changes = (if truncated then take lim (ds_changes summary) else ds_changes summary),
          dr_truncated = truncated,
          dr_release_notes = (case releases of Inl _ \<Rightarrow> [] | Inr rs \<Rightarrow> map (release_note show_time) rs),
          dr_freshness_check_performed = io_freshness_check_performed fresh,
          dr_freshness_check_result = io_freshness_check_result fresh,
          dr_refresh_enqueued = io_refresh_enqueued fresh, dr_refresh_job_id = io_refresh_job_id fresh,
          dr_freshness = build_crate_freshness_sources (Some (show_time (cc_updated_at (cx_crate_row ctx))))
            (io_freshness_check_result fresh),
          dr_confidence = confidence_as_str (ca_level assessment), dr_confidence_assessment = assessment,
          dr_suggested_next_tools = [''symbol_search'', ''source_read'', ''crate_features''],
          dr_provenance = ''local_postgres_index''\<rparr>)"

definition handle_crate_api_diff ::
  "(int \<Rightarrow> string) \<Rightarrow> fresh_env \<Rightarrow> fresh_env \<Rightarrow> fresh_env \<Rightarrow> diff_faults \<Rightarrow> symbol_row list \<Rightarrow> github_release_row list \<Rightarrow>
   crate_api_diff_request \<Rightarrow> server_state \<Rightarrow> crate_api_diff_response result \<times> server_state" where
  "handle_crate_api_diff show_time env env_from env_to faults symbols releases request srv =
     (case res_bind (normalize_required (dq_crate_name request) ''crate_name'') (\<lambda>crate_name.
           res_bind (normalize_required (dq_from_version request) ''from_version'') (\<lambda>from_version.
           res_bind (normalize_required (dq_to_version request) ''to_version'') (\<lambda>to_version.
             Inr (crate_name, from_version, to_version)))) of
        Inl e \<Rightarrow> (Inl e, srv)
      | Inr (crate_name, from_version, to_version) \<Rightarrow>
     (let lim = unat (api_diff_limit (dq_limit request))
      in case fetch_crate_context env crate_name srv of
           (Inl e, srv1) \<Rightarrow> (Inl e, srv1)
         | (Inr ctx, srv1) \<Rightarrow>
     (case res_bind (diff_version (df_from_lookup faults) ''source'' (sv_store srv1) ctx from_version) (\<lambda>from_row.
           res_bind (diff_version (df_to_lookup faults) ''target'' (sv_store srv1) ctx to_version) (\<lambda>to_row.
             Inr (from_row, to_row))) of
        Inl e \<Rightarrow> (Inl e, srv1)
      | Inr (from_row, to_row) \<Rightarrow>
     (case ensure_rustdoc_indexed env_from crate_name (cv_id from_row) srv1 of
        (Inl e, srv2) \<Rightarrow> (Inl e, srv2)
      | (Inr _, srv2) \<Rightarrow>
     (case ensure_rustdoc_indexed env_to crate_name (cv_id to_row) srv2 of
        (Inl e, srv3) \<Rightarrow> (Inl e, srv3)
      | (Inr _, srv3) \<Rightarrow>
          (res_bind (diff_symbols (df_from_symbols faults) symbols ctx from_row) (\<lambda>from_symbols.
           res_bind (diff_symbols (df_to_symbols faults) symbols ctx to_row) (\<lambda>to_symbols.
             Inr (api_diff_response show_time ctx from_row to_row lim (build_diff_summary from_symbols to_symbols)
               (case df_releases faults of
                  Some e \<Rightarrow> Inl e
                | None \<Rightarrow> Inr (fetch_github_releases releases (cc_id (cx_crate_row ctx)) 20))))), srv3))))))"

section \<open>The kept fingerprint of a symbol\<close>

text \<open>Reference: the first of the rows of a key that no row of the key outranks.\<close>

definition best_row :: "api_diff_symbol_row list \<Rightarrow> string \<times> string \<Rightarrow> api_diff_symbol_row option" where
  "best_row rows k =
     (let rs = filter (\<lambda>r. row_key r = k) rows
      in find (\<lambda>r. list_all (\<lambda>x. symbol_row_priority x \<le> symbol_row_priority r) rs) rs)"

definition best_symbol :: "api_diff_symbol_row list \<Rightarrow> string \<times> string \<Rightarrow> symbol_fingerprint option" where
  "best_symbol rows k = map_option fingerprint (best_row rows k)"

definition ranked_insert ::
  "8 word \<times> api_diff_symbol_row \<Rightarrow> (string \<times> string, 8 word \<times> api_diff_symbol_row) btree \<Rightarrow>
   (string \<times> string, 8 word \<times> api_diff_symbol_row) btree" where
  "ranked_insert p m =
     (case bt_get m (row_key (snd p)) of
        None \<Rightarrow> bt_insert (row_key (snd p)) p m
      | Some e \<Rightarrow> if fst e < fst p then bt_insert (row_key (snd p)) p m else m)"

interpretation best: ranked_merge "[]" bt_get bt_insert bt_invar "\<lambda>p. row_key (snd p)" "\<lambda>e p. fst e < fst p"
  ranked_insert "\<lambda>p. unat (fst p)"
  by unfold_locales (auto simp: ranked_insert_def word_less_nat_alt split: option.split)

lemma prioritize_step_ranked: "prioritize_step row = ranked_insert (symbol_row_priority row, row)"
  by (rule ext) (auto simp: prioritize_step_def ranked_insert_def Let_def split: option.split)

definition ranked_rows :: "api_diff_symbol_row list \<Rightarrow> (8 word \<times> api_diff_symbol_row) list" where
  "ranked_rows rows = map (\<lambda>r. (symbol_row_priority r, r)) rows"

lemma map_snd_ranked_rows [simp]: "map snd (ranked_rows rows) = rows"
  by (simp add: ranked_rows_def comp_def)

lemma prioritize_fold: "fold prioritize_step rows m = fold ranked_insert (ranked_rows rows) m"
  by (induction rows arbitrary: m) (simp_all add: ranked_rows_def prioritize_step_ranked)

lemma prioritize_invar: "bt_invar (fold prioritize_step rows [])"
  unfolding prioritize_fold by (rule best.merge_invar) simp

lemma prioritize_get:
  "map_option snd (bt_get (fold prioritize_step rows []) k) = best_row rows k"
proof (cases "bt_get (fold prioritize_step rows []) k")
  case None
  then have "k \<notin> (\<lambda>p. row_key (snd p)) ` set (ranked_rows rows)"
    using best.merge_dom [of "ranked_rows rows" k] by (simp add: prioritize_fold)
  then have "filter (\<lambda>r. row_key r = k) rows = []" by (force simp: ranked_rows_def filter_empty_conv)
  then show ?thesis using None by (simp add: best_row_def)
next
  case (Some e)
  let ?f = "filter (\<lambda>r. row_key r = k) rows"
  have e: "bt_get (fold ranked_insert (ranked_rows rows) []) k = Some e" using Some by (simp add: prioritize_fold)
  from best.merge_first [OF e] obtain pre post where
    split: "filter (\<lambda>p. row_key (snd p) = k) (ranked_rows rows) = pre @ e # post"
    and less: "\<forall>x \<in> set pre. unat (fst x) < unat (fst e)" by blast
  have "filter (\<lambda>p. row_key (snd p) = k) (ranked_rows rows) = ranked_rows ?f"
    by (induction rows) (simp_all add: ranked_rows_def)
  with split have m: "ranked_rows ?f = pre @ e # post" by simp
  then have "map snd (ranked_rows ?f) = map snd (pre @ e # post)" by simp
  then have rs: "?f = map snd pre @ snd e # map snd post" by simp
  have pr: "fst x = symbol_row_priority (snd x)" if "x \<in> set (pre @ e # post)" for x
    using that unfolding m [symmetric] by (auto simp: ranked_rows_def)
  have ge: "\<forall>x \<in> set ?f. symbol_row_priority x \<le> symbol_row_priority (snd e)"
    using best.merge_best [OF e] pr [of e] by (force simp: ranked_rows_def word_le_nat_alt)
  have "find (\<lambda>r. list_all (\<lambda>x. symbol_row_priority x \<le> symbol_row_priority r) ?f) ?f = Some (snd e)"
  proof (rule find_first [OF rs])
    show "list_all (\<lambda>x. symbol_row_priority x \<le> symbol_row_priority (snd e)) ?f"
      using ge by (simp add: list_all_iff)
    show "\<forall>x \<in> set (map snd pre). \<not> list_all (\<lambda>y. symbol_row_priority y \<le> symbol_row_priority x) ?f"
    proof
      fix x assume "x \<in> set (map snd pre)"
      then obtain z where z: "z \<in> set pre" "x = snd z" by auto
      then have "symbol_row_priority x < symbol_row_priority (snd e)"
        using less pr [of z] pr [of e] by (metis Un_iff set_append list.set_intros(1) word_less_nat_alt)
      moreover have "snd e \<in> set ?f" unfolding rs by simp
      ultimately show "\<not> list_all (\<lambda>y. symbol_row_priority y \<le> symbol_row_priority x) ?f"
        by (force simp: list_all_iff)
    qed
  qed
  then show ?thesis using Some by (simp add: best_row_def)
qed

lemma prioritize_key: "(k, p) \<in> set (fold prioritize_step rows []) \<Longrightarrow> row_key (snd p) = k"
  using best.merge_member [of "ranked_rows rows" k p] prioritize_invar [of rows]
  by (simp add: bt_get_iff [symmetric] prioritize_fold)

lemma find_values:
  assumes "\<forall>x \<in> set m. row_key (snd (snd x)) = fst x"
  shows "find (\<lambda>r. row_key r = k) (map snd (bt_values m)) = map_option snd (bt_get m k)"
  using assms by (induction m) (auto simp: bt_values_def bt_get_Cons)

lemma map_symbols_get: "bt_get (map_symbols rows) k = best_symbol rows k"
proof -
  have "find (\<lambda>r. row_key r = k) (prioritize_symbol_rows rows) = best_row rows k"
    unfolding prioritize_symbol_rows_def prioritize_get [symmetric]
    by (rule find_values) (auto dest: prioritize_key)
  then show ?thesis by (simp add: map_symbols_def fold_or_insert_get best_symbol_def)
qed

lemma map_symbols_invar: "bt_invar (map_symbols rows)"
  by (simp add: map_symbols_def fold_or_insert_invar)

section \<open>The diff is exact\<close>

text \<open>Reference: the change a symbol undergoes, from its fingerprint in either version.\<close>

definition breaks :: "symbol_fingerprint option \<Rightarrow> symbol_fingerprint option \<Rightarrow> bool" where
  "breaks f t \<longleftrightarrow> (case f of None \<Rightarrow> False | Some a \<Rightarrow>
     (case t of None \<Rightarrow> True
      | Some b \<Rightarrow> fp_signature a \<noteq> fp_signature b \<or> fp_visibility a = Some ''public'' \<and> fp_visibility b = Some ''private''))"

definition change_kind :: "symbol_fingerprint option \<Rightarrow> symbol_fingerprint option \<Rightarrow> crate_api_diff_change_type option" where
  "change_kind f t =
     (case (f, t) of
        (None, None) \<Rightarrow> None
      | (Some _, None) \<Rightarrow> Some Removed
      | (None, Some _) \<Rightarrow> Some Added
      | (Some a, Some b) \<Rightarrow>
          if fp_visibility a \<noteq> fp_visibility b then Some VisibilityChanged
          else if fp_signature a \<noteq> fp_signature b then Some SignatureChanged else None)"

definition symbol_change ::
  "string \<times> string \<Rightarrow> symbol_fingerprint option \<Rightarrow> symbol_fingerprint option \<Rightarrow> crate_api_diff_change option" where
  "symbol_change k f t =
     map_option (\<lambda>ct. \<lparr>ch_name = fst k, ch_kind = snd k, ch_change_type = ct,
         ch_from_signature = Option.bind f fp_signature, ch_to_signature = Option.bind t fp_signature,
         ch_from_visibility = Option.bind f fp_visibility, ch_to_visibility = Option.bind t fp_visibility,
         ch_breaking_change = breaks f t\<rparr>) (change_kind f t)"

lemma symbol_fingerprint_eqI:
  "fp_signature a = fp_signature b \<Longrightarrow> fp_visibility a = fp_visibility b \<Longrightarrow> a = (b :: symbol_fingerprint)"
  by (cases a; cases b) simp

lemma change_kind_None: "change_kind f t = None \<longleftrightarrow> f = t"
  by (auto simp: change_kind_def intro: symbol_fingerprint_eqI split: option.splits if_splits)

lemma change_kind_Removed: "change_kind f t = Some Removed \<longleftrightarrow> f \<noteq> None \<and> t = None"
  by (auto simp: change_kind_def split: option.splits if_splits)

lemma change_kind_Added: "change_kind f t = Some Added \<longleftrightarrow> f = None \<and> t \<noteq> None"
  by (auto simp: change_kind_def split: option.splits if_splits)

lemma symbol_change_SomeD:
  "symbol_change k f t = Some c \<Longrightarrow>
     (ch_name c, ch_kind c) = k \<and> change_kind f t = Some (ch_change_type c) \<and> ch_breaking_change c = breaks f t"
  by (auto simp: symbol_change_def)

definition is_change :: "crate_api_diff_change \<Rightarrow> bool" where
  "is_change c \<longleftrightarrow> ch_change_type c = VisibilityChanged \<or> ch_change_type c = SignatureChanged"

definition count_of :: "('a \<Rightarrow> bool) \<Rightarrow> 'a list \<Rightarrow> nat" where
  "count_of P xs = length (filter P xs)"

lemma count_of_simps [simp]: "count_of P [] = 0" "count_of P (x # xs) = (if P x then 1 else 0) + count_of P xs"
  by (simp_all add: count_of_def)

definition extend_diff :: "diff_locals \<Rightarrow> nat \<Rightarrow> crate_api_diff_change list \<Rightarrow> diff_locals" where
  "extend_diff l missing cs =
     l\<lparr>dl_added := dl_added l + count_of (\<lambda>c. ch_change_type c = Added) cs,
       dl_removed := dl_removed l + count_of (\<lambda>c. ch_change_type c = Removed) cs,
       dl_changed := dl_changed l + count_of is_change cs,
       dl_breaking := (dl_breaking l \<or> list_ex ch_breaking_change cs),
       dl_missing := dl_missing l + missing, dl_changes := dl_changes l @ cs\<rparr>"

lemma extend_diff_Nil [simp]: "extend_diff l 0 [] = l"
  by (simp add: extend_diff_def)

lemma extend_diff_append [simp]: "extend_diff (extend_diff l m cs) n ds = extend_diff l (m + n) (cs @ ds)"
  by (simp add: extend_diff_def count_of_def)

definition from_changes ::
  "(string \<times> string, symbol_fingerprint) btree \<Rightarrow> ((string \<times> string) \<times> symbol_fingerprint) list \<Rightarrow> crate_api_diff_change list" where
  "from_changes T = List.map_filter (\<lambda>(k, a). symbol_change k (Some a) (bt_get T k))"

definition to_changes ::
  "(string \<times> string, symbol_fingerprint) btree \<Rightarrow> ((string \<times> string) \<times> symbol_fingerprint) list \<Rightarrow> crate_api_diff_change list" where
  "to_changes F = List.map_filter (\<lambda>(k, b). if bt_get F k = None then symbol_change k None (Some b) else None)"

lemma diff_from_symbol_extend:
  "\<exists>m. diff_from_symbol T ((n, k), a) l = extend_diff l m (from_changes T [((n, k), a)])"
proof (cases "bt_get T (n, k)")
  case None
  then have "diff_from_symbol T ((n, k), a) l = extend_diff l 0 (from_changes T [((n, k), a)])"
    by (simp add: diff_from_symbol_def from_changes_def map_filter_simps extend_diff_def symbol_change_def
        change_kind_def breaks_def is_change_def)
  then show ?thesis ..
next
  case (Some b)
  have "diff_from_symbol T ((n, k), a) l = extend_diff l
      (if a \<noteq> b \<and> (fp_signature a = None \<or> fp_signature b = None) then 1 else 0) (from_changes T [((n, k), a)])"
    using Some symbol_fingerprint_eqI [of a b]
    by (auto simp: diff_from_symbol_def from_changes_def map_filter_simps extend_diff_def symbol_change_def
        change_kind_def breaks_def is_change_def Let_def)
  then show ?thesis ..
qed

lemma fold_diff_from:
  "\<exists>m. fold (diff_from_symbol T) xs l = extend_diff l m (from_changes T xs)"
proof (induction xs arbitrary: l)
  case Nil
  have "fold (diff_from_symbol T) [] l = extend_diff l 0 (from_changes T [])"
    by (simp add: from_changes_def map_filter_simps)
  then show ?case ..
next
  case (Cons x xs)
  obtain n k a where x: "x = ((n, k), a)" by (metis prod.exhaust)
  from diff_from_symbol_extend [of T n k a l] obtain m where
    m: "diff_from_symbol T x l = extend_diff l m (from_changes T [x])" unfolding x by blast
  from Cons.IH [of "diff_from_symbol T x l"] obtain m' where
    "fold (diff_from_symbol T) xs (diff_from_symbol T x l) = extend_diff (diff_from_symbol T x l) m' (from_changes T xs)" by blast
  moreover have "from_changes T [x] @ from_changes T xs = from_changes T (x # xs)"
    by (simp add: from_changes_def map_filter_simps split: option.split)
  ultimately have "fold (diff_from_symbol T) (x # xs) l = extend_diff l (m + m') (from_changes T (x # xs))"
    by (simp add: m)
  then show ?case ..
qed

lemma fold_diff_to: "fold (diff_to_symbol F) xs l = extend_diff l 0 (to_changes F xs)"
proof (induction xs arbitrary: l)
  case (Cons x xs)
  obtain n k a where x: "x = ((n, k), a)" by (metis prod.exhaust)
  have "diff_to_symbol F x l = extend_diff l 0 (to_changes F [x])"
    by (simp add: x diff_to_symbol_def to_changes_def map_filter_simps extend_diff_def symbol_change_def
        change_kind_def breaks_def is_change_def)
  moreover have "to_changes F [x] @ to_changes F xs = to_changes F (x # xs)"
    by (simp add: to_changes_def map_filter_simps split: option.split)
  ultimately show ?case using Cons.IH [of "diff_to_symbol F x l"] by simp
qed (simp add: to_changes_def map_filter_simps)

abbreviation change_key :: "crate_api_diff_change \<Rightarrow> string \<times> string" where
  "change_key c \<equiv> (ch_name c, ch_kind c)"

definition raw_changes ::
  "(string \<times> string, symbol_fingerprint) btree \<Rightarrow> (string \<times> string, symbol_fingerprint) btree \<Rightarrow> crate_api_diff_change list" where
  "raw_changes F T = from_changes T F @ to_changes F T"

lemma raw_changes_set:
  assumes "bt_invar F" "bt_invar T"
  shows "c \<in> set (raw_changes F T) \<longleftrightarrow> (\<exists>k. symbol_change k (bt_get F k) (bt_get T k) = Some c)"
proof -
  have "c \<in> set (from_changes T F) \<longleftrightarrow> (\<exists>k a. bt_get F k = Some a \<and> symbol_change k (Some a) (bt_get T k) = Some c)"
    unfolding from_changes_def set_map_filter_pair bt_get_iff [OF assms(1)] by simp
  moreover have "c \<in> set (to_changes F T) \<longleftrightarrow>
      (\<exists>k b. bt_get T k = Some b \<and> bt_get F k = None \<and> symbol_change k None (Some b) = Some c)"
    unfolding to_changes_def set_map_filter_pair bt_get_iff [OF assms(2)] by (auto split: if_splits)
  moreover have "symbol_change k None None = None" for k by (simp add: symbol_change_def change_kind_def)
  ultimately show ?thesis unfolding raw_changes_def set_append Un_iff by (metis not_Some_eq)
qed

lemma raw_changes_distinct:
  assumes "bt_invar F" "bt_invar T"
  shows "distinct (map change_key (raw_changes F T))"
proof -
  have f: "distinct (map change_key (from_changes T F)) \<and> change_key ` set (from_changes T F) \<subseteq> fst ` set F"
    unfolding from_changes_def
    by (rule map_filter_keys_distinct) (auto simp: bt_invar_distinct [OF assms(1)] dest: symbol_change_SomeD)
  have t: "distinct (map change_key (to_changes F T))"
    unfolding to_changes_def
    by (rule conjunct1, rule map_filter_keys_distinct)
      (auto simp: bt_invar_distinct [OF assms(2)] dest: symbol_change_SomeD split: if_splits)
  have n: "change_key c \<notin> fst ` set F" if c: "c \<in> set (to_changes F T)" for c
  proof -
    obtain k b where "bt_get F k = None" "symbol_change k None (Some b) = Some c"
      using c unfolding to_changes_def set_map_filter_pair by (auto split: if_splits)
    with symbol_change_SomeD show ?thesis by (metis bt_get_None_iff)
  qed
  have "fst ` set F \<inter> change_key ` set (to_changes F T) = {}" using n by (fastforce simp del: prod.inject)
  with f have "change_key ` set (from_changes T F) \<inter> change_key ` set (to_changes F T) = {}"
    by (meson disjoint_iff subsetD)
  with f t show ?thesis unfolding raw_changes_def map_append distinct_append set_map by blast
qed

lemma raw_changes_count:
  assumes "bt_invar F" "bt_invar T"
  shows "count_of (\<lambda>c. P (ch_change_type c)) (raw_changes F T) =
    card {k. \<exists>ct. change_kind (bt_get F k) (bt_get T k) = Some ct \<and> P ct}"
proof -
  let ?xs = "filter (\<lambda>c. P (ch_change_type c)) (raw_changes F T)"
  have "distinct (map change_key ?xs)"
    using raw_changes_distinct [OF assms] by (rule distinct_map_filter)
  then have "length ?xs = card (change_key ` set ?xs)"
    by (metis distinct_card length_map set_map)
  moreover have "change_key ` set ?xs = {k. \<exists>ct. change_kind (bt_get F k) (bt_get T k) = Some ct \<and> P ct}"
  proof (intro set_eqI iffI)
    fix k assume "k \<in> change_key ` set ?xs"
    then show "k \<in> {k. \<exists>ct. change_kind (bt_get F k) (bt_get T k) = Some ct \<and> P ct}"
      by (auto simp: raw_changes_set [OF assms] dest!: symbol_change_SomeD)
  next
    fix k assume "k \<in> {k. \<exists>ct. change_kind (bt_get F k) (bt_get T k) = Some ct \<and> P ct}"
    then obtain c where c: "symbol_change k (bt_get F k) (bt_get T k) = Some c" "P (ch_change_type c)"
      by (auto simp: symbol_change_def)
    then have "c \<in> set (raw_changes F T)" unfolding raw_changes_set [OF assms] by blast
    with c(2) have "change_key c \<in> change_key ` set ?xs" by (intro imageI) simp
    then show "k \<in> change_key ` set ?xs" using symbol_change_SomeD [OF c(1)] by simp
  qed
  ultimately show ?thesis by (simp add: count_of_def)
qed

lemma raw_changes_breaking:
  assumes "bt_invar F" "bt_invar T"
  shows "list_ex ch_breaking_change (raw_changes F T) \<longleftrightarrow> (\<exists>k. breaks (bt_get F k) (bt_get T k))"
proof -
  have "f \<noteq> t" if "breaks f t" for f t using that by (auto simp: breaks_def split: option.splits)
  then have ex: "\<exists>c. symbol_change k f t = Some c \<and> ch_breaking_change c" if "breaks f t" for k f t
    using that change_kind_None [of f t] by (auto simp: symbol_change_def)
  show ?thesis unfolding list_ex_iff
  proof (intro iffI; elim bexE exE)
    fix c assume "c \<in> set (raw_changes F T)" "ch_breaking_change c"
    then show "\<exists>k. breaks (bt_get F k) (bt_get T k)"
      unfolding raw_changes_set [OF assms] by (auto dest!: symbol_change_SomeD)
  next
    fix k assume "breaks (bt_get F k) (bt_get T k)"
    from ex [OF this, of k] obtain c where "symbol_change k (bt_get F k) (bt_get T k) = Some c" "ch_breaking_change c"
      by blast
    then show "\<exists>c \<in> set (raw_changes F T). ch_breaking_change c"
      using raw_changes_set [OF assms] by blast
  qed
qed

lemma build_diff_summary_raw:
  "\<exists>m. let F = map_symbols from_rows; T = map_symbols to_rows; l = extend_diff no_diff m (raw_changes F T)
    in build_diff_summary from_rows to_rows =
      \<lparr>ds_added_count = dl_added l, ds_removed_count = dl_removed l, ds_changed_count = dl_changed l,
       ds_breaking_changes_detected = dl_breaking l, ds_changes = sort_key change_sort_key (raw_changes F T),
       ds_confidence_assessment = diff_confidence (F = [] \<or> T = []) m\<rparr>"
proof -
  let ?F = "map_symbols from_rows" and ?T = "map_symbols to_rows"
  from fold_diff_from [of ?T ?F no_diff] obtain m where
    m: "fold (diff_from_symbol ?T) ?F no_diff = extend_diff no_diff m (from_changes ?T ?F)" by blast
  have "dl_changes (extend_diff no_diff m (raw_changes ?F ?T)) = raw_changes ?F ?T"
    and "dl_missing (extend_diff no_diff m (raw_changes ?F ?T)) = m"
    by (simp_all add: extend_diff_def no_diff_def)
  then show ?thesis
    by (intro exI [of _ m]) (simp add: build_diff_summary_def Let_def m fold_diff_to raw_changes_def)
qed

text \<open>The summary in terms of the raw changes.\<close>

lemma diff_summary_raw:
  fixes from_rows to_rows
  defines "s \<equiv> build_diff_summary from_rows to_rows"
    and "R \<equiv> raw_changes (map_symbols from_rows) (map_symbols to_rows)"
  shows "ds_changes s = sort_key change_sort_key R"
    and "ds_added_count s = count_of (\<lambda>c. ch_change_type c = Added) R"
    and "ds_removed_count s = count_of (\<lambda>c. ch_change_type c = Removed) R"
    and "ds_changed_count s = count_of is_change R"
    and "ds_breaking_changes_detected s = list_ex ch_breaking_change R"
  using build_diff_summary_raw [of from_rows to_rows]
  by (auto simp: s_def R_def Let_def extend_diff_def no_diff_def)

lemma diff_changes_set:
  "set (ds_changes (build_diff_summary from_rows to_rows)) =
     {c. \<exists>k. symbol_change k (best_symbol from_rows k) (best_symbol to_rows k) = Some c}"
  using raw_changes_set [OF map_symbols_invar [of from_rows] map_symbols_invar [of to_rows]]
  by (auto simp: diff_summary_raw(1) map_symbols_get)

lemma diff_changes_distinct: "distinct (map change_key (ds_changes (build_diff_summary from_rows to_rows)))"
  using raw_changes_distinct [OF map_symbols_invar map_symbols_invar]
  by (simp add: diff_summary_raw(1) distinct_map_sort_key)

lemma diff_breaking_iff:
  "ds_breaking_changes_detected (build_diff_summary from_rows to_rows) \<longleftrightarrow>
     (\<exists>k. breaks (best_symbol from_rows k) (best_symbol to_rows k))"
  using raw_changes_breaking [OF map_symbols_invar [of from_rows] map_symbols_invar [of to_rows]]
  by (simp add: diff_summary_raw(5) map_symbols_get)

lemma count_by_type:
  "length xs = count_of (\<lambda>c. ch_change_type c = Removed) xs + count_of (\<lambda>c. ch_change_type c = Added) xs +
     count_of is_change xs"
proof (induction xs)
  case (Cons x xs)
  then show ?case by (cases "ch_change_type x") (simp_all add: is_change_def)
qed simp

lemma diff_changes_length:
  fixes from_rows to_rows
  defines "s \<equiv> build_diff_summary from_rows to_rows"
  shows "length (ds_changes s) = ds_removed_count s + ds_added_count s + ds_changed_count s"
  unfolding s_def diff_summary_raw length_sort by (rule count_by_type)

text \<open>
  (C29) \<open>crate_api_diff\<close> is exact on the symbol rows it is given.  With the fingerprint of a symbol in
  either version (that of its first row no other row outranks), the reported changes are exactly
  the changes those fingerprints undergo, each symbol once, in strictly ascending order of
  severity, name and kind; the three counts are the numbers of symbols removed, added and changed;
  and a breaking change is flagged exactly when some symbol disappears, changes its signature or
  goes from public to private.
\<close>

theorem api_diff_exact:
  "let s = build_diff_summary from_rows to_rows; F = best_symbol from_rows; T = best_symbol to_rows
   in set (ds_changes s) = {c. \<exists>k. symbol_change k (F k) (T k) = Some c} \<and>
      sorted_wrt (<) (map change_sort_key (ds_changes s)) \<and>
      ds_removed_count s = card {k. F k \<noteq> None \<and> T k = None} \<and>
      ds_added_count s = card {k. F k = None \<and> T k \<noteq> None} \<and>
      ds_changed_count s = card {k. F k \<noteq> None \<and> T k \<noteq> None \<and> F k \<noteq> T k} \<and>
      length (ds_changes s) = ds_removed_count s + ds_added_count s + ds_changed_count s \<and>
      (ds_breaking_changes_detected s \<longleftrightarrow> (\<exists>k. breaks (F k) (T k)))"
proof -
  let ?s = "build_diff_summary from_rows to_rows"
  let ?f = "best_symbol from_rows" and ?t = "best_symbol to_rows"
  note count = raw_changes_count [OF map_symbols_invar map_symbols_invar, of _ from_rows to_rows, unfolded map_symbols_get]
  have "distinct (map change_sort_key (ds_changes ?s))"
    using diff_changes_distinct [of from_rows to_rows] unfolding distinct_map
    by (auto simp: change_sort_key_def inj_on_def)
  then have ord: "sorted_wrt (<) (map change_sort_key (ds_changes ?s))"
    by (simp add: strict_sorted_iff diff_summary_raw(1))
  have rem: "ds_removed_count ?s = card {k. ?f k \<noteq> None \<and> ?t k = None}"
    using count [of "\<lambda>ct. ct = Removed"] by (simp add: change_kind_Removed diff_summary_raw(3))
  have add: "ds_added_count ?s = card {k. ?f k = None \<and> ?t k \<noteq> None}"
    using count [of "\<lambda>ct. ct = Added"] by (simp add: change_kind_Added diff_summary_raw(2))
  have chk: "(\<exists>ct. change_kind f t = Some ct \<and> (ct = VisibilityChanged \<or> ct = SignatureChanged)) \<longleftrightarrow>
      f \<noteq> None \<and> t \<noteq> None \<and> f \<noteq> t" for f t
    by (cases f; cases t) (auto simp: change_kind_def intro: symbol_fingerprint_eqI)
  have chg: "ds_changed_count ?s = card {k. ?f k \<noteq> None \<and> ?t k \<noteq> None \<and> ?f k \<noteq> ?t k}"
    using count [of "\<lambda>ct. ct = VisibilityChanged \<or> ct = SignatureChanged"]
    unfolding chk diff_summary_raw(4) is_change_def [abs_def] .
  show ?thesis unfolding Let_def
    by (intro conjI diff_changes_set ord rem add chg diff_changes_length diff_breaking_iff)
qed

section \<open>The query and the handler\<close>

definition visible_symbol :: "nat \<Rightarrow> symbol_row \<Rightarrow> bool" where
  "visible_symbol v s \<longleftrightarrow> sy_crate_version_id s = v \<and> (as_visibility s = Some ''public'' \<or> as_visibility s = None)"

lemma row_key_truncate [simp]: "row_key (api_diff_symbol_row.truncate s) = row_key s"
  by (simp add: row_key_def api_diff_symbol_row.truncate_def)

lemma query_keys:
  "row_key ` set (list_api_diff_symbols_for_version table v) = row_key ` {s \<in> set table. visible_symbol v s}"
proof -
  let ?xs = "sort_key symbol_order (filter (visible_symbol v) table)"
  have "row_key ` set (list_api_diff_symbols_for_version table v) = row_key ` set (distinct_on row_key ?xs)"
    unfolding list_api_diff_symbols_for_version_def visible_symbol_def [symmetric] by (simp add: image_image)
  also have "\<dots> = row_key ` set ?xs" by (rule distinct_on_keys)
  finally show ?thesis by simp
qed

lemma query_visibility:
  assumes "r \<in> set (list_api_diff_symbols_for_version table v)"
  shows "as_visibility r = Some ''public'' \<or> as_visibility r = None"
  using assms distinct_on_subset [of row_key]
  by (force simp: list_api_diff_symbols_for_version_def api_diff_symbol_row.truncate_def dest!: subsetD)

lemma best_row_member: "best_row rows k = Some r \<Longrightarrow> r \<in> set rows \<and> row_key r = k"
  by (auto simp: best_row_def Let_def dest!: find_SomeD)

lemma best_row_None: "best_row rows k = None \<longleftrightarrow> k \<notin> row_key ` set rows"
proof -
  have "best_row rows k = None \<longleftrightarrow> bt_get (fold ranked_insert (ranked_rows rows) []) k = None"
    by (simp add: prioritize_get [symmetric] prioritize_fold)
  also have "\<dots> \<longleftrightarrow> k \<notin> (\<lambda>p. row_key (snd p)) ` set (ranked_rows rows)"
    using best.merge_dom [of "ranked_rows rows" k] by blast
  finally show ?thesis by (simp add: ranked_rows_def image_image)
qed

lemma public_trim [simp]: "to_ascii_lowercase (trim ''public'') = ''public''"
  by code_simp

lemma query_fingerprint:
  assumes "best_symbol (list_api_diff_symbols_for_version table v) k = Some a"
  shows "fp_visibility a = Some ''public'' \<or> fp_visibility a = None"
proof -
  from assms obtain r where "best_row (list_api_diff_symbols_for_version table v) k = Some r" "a = fingerprint r"
    by (auto simp: best_symbol_def)
  with best_row_member query_visibility show ?thesis
    by (fastforce simp: fingerprint_def normalize_visibility_def)
qed

text \<open>
  A symbol that is public in the old version and private in the new one is reported as removed:
  the query returns only public symbols and symbols without a visibility, so that no reported change
  has a private side and the classification of a visibility downgrade is never reached.
\<close>

theorem downgrade_is_reported_as_removal:
  assumes "s \<in> set table" and "sy_crate_version_id s = v" and "as_visibility s = Some ''public''"
    and "\<forall>x \<in> set table. sy_crate_version_id x = w \<and> row_key x = row_key s \<longrightarrow> as_visibility x = Some ''private''"
  shows "let changes = set (ds_changes (build_diff_summary (list_api_diff_symbols_for_version table v)
             (list_api_diff_symbols_for_version table w)))
    in (\<exists>c \<in> changes. ch_name c = as_name s \<and> ch_kind c = as_kind s \<and> ch_change_type c = Removed \<and> ch_breaking_change c) \<and>
       (\<forall>c \<in> changes. ch_to_visibility c \<noteq> Some ''private'')"
proof -
  let ?F = "best_symbol (list_api_diff_symbols_for_version table v)"
  let ?T = "best_symbol (list_api_diff_symbols_for_version table w)"
  have "row_key s \<in> row_key ` {x \<in> set table. visible_symbol v x}"
    using assms(1-3) by (auto simp: visible_symbol_def)
  then obtain a where a: "?F (row_key s) = Some a"
    using best_row_None [of "list_api_diff_symbols_for_version table v" "row_key s"]
    by (auto simp: query_keys best_symbol_def)
  have "row_key s \<notin> row_key ` {x \<in> set table. visible_symbol w x}"
    using assms(4) by (auto simp: visible_symbol_def)
  then have "?T (row_key s) = None"
    using best_row_None [of "list_api_diff_symbols_for_version table w" "row_key s"]
    by (simp add: query_keys best_symbol_def)
  with a obtain c where "symbol_change (row_key s) (?F (row_key s)) (?T (row_key s)) = Some c"
      "ch_name c = as_name s" "ch_kind c = as_kind s" "ch_change_type c = Removed" "ch_breaking_change c"
    by (simp add: symbol_change_def change_kind_def breaks_def row_key_def)
  moreover have "ch_to_visibility c \<noteq> Some ''private''" if "symbol_change k (?F k) (?T k) = Some c" for k c
    using that query_fingerprint [of table w k] by (cases "?T k") (auto simp: symbol_change_def)
  ultimately show ?thesis unfolding Let_def diff_changes_set by blast
qed

definition sample_symbol :: "nat \<Rightarrow> nat \<Rightarrow> string \<Rightarrow> string \<Rightarrow> symbol_row" where
  "sample_symbol i v name visibility = \<lparr>as_name = name, as_kind = ''function'', as_signature = Some (''fn '' @ name @ ''()''),
     as_visibility = Some visibility, as_index_source = ''rustdoc_json'', sy_id = i, sy_crate_version_id = v,
     sy_start_line = 1, sy_end_line = 2\<rparr>"

definition sample_symbols :: "symbol_row list" where
  "sample_symbols = [sample_symbol 1 10 ''parse'' ''public'', sample_symbol 2 11 ''parse'' ''private'',
     sample_symbol 3 10 ''keep'' ''public'', sample_symbol 4 11 ''keep'' ''public'',
     sample_symbol 5 11 ''parse_all'' ''public'']"

theorem downgrade_is_reported_as_removal_witness:
  "\<exists>c \<in> set (ds_changes (build_diff_summary (list_api_diff_symbols_for_version sample_symbols 10)
        (list_api_diff_symbols_for_version sample_symbols 11))). ch_name c = ''parse'' \<and> ch_change_type c = Removed"
  using downgrade_is_reported_as_removal [of "sample_symbol 1 10 ''parse'' ''public''" sample_symbols 10 11]
  by (auto simp: sample_symbols_def sample_symbol_def row_key_def Let_def)

text \<open>What a successful call has read.\<close>

lemma handle_crate_api_diff_Inr:
  assumes "handle_crate_api_diff show_time env env_from env_to faults symbols releases request srv = (Inr r, srv')"
  obtains crate_name ctx srv1 from_row to_row rel where
    "normalize_required (dq_crate_name request) ''crate_name'' = Inr crate_name"
    "fetch_crate_context env crate_name srv = (Inr ctx, srv1)"
    "fetch_crate_version_by_name (sv_store srv1) (cc_id (cx_crate_row ctx)) (trim (dq_from_version request)) = Some from_row"
    "fetch_crate_version_by_name (sv_store srv1) (cc_id (cx_crate_row ctx)) (trim (dq_to_version request)) = Some to_row"
    "r = api_diff_response show_time ctx from_row to_row (unat (api_diff_limit (dq_limit request)))
       (build_diff_summary (list_api_diff_symbols_for_version symbols (cv_id from_row))
          (list_api_diff_symbols_for_version symbols (cv_id to_row))) rel"
  using assms unfolding handle_crate_api_diff_def
  by (auto simp: Let_def res_bind_def diff_version_def diff_symbols_def normalize_required_Inr
      split: sum.splits prod.splits option.splits)

end
