(* ===== verification/Migration_Path.thy ===== *)
theory Migration_Path
  imports Api_Diff
begin

text \<open>
  The \<open>crate_migration_path\<close> tool (\<open>mcp/tools/krate/migration_path.rs\<close>): migration actions for the
  breaking changes of an API diff, with a likely replacement for a removed symbol.  Scores are sums
  of non-negative terms and are natural numbers here.
\<close>

section \<open>Symbol names\<close>

definition is_ascii_uppercase :: "char \<Rightarrow> bool" where
  "is_ascii_uppercase c \<longleftrightarrow> 65 \<le> (of_char c :: nat) \<and> (of_char c :: nat) \<le> 90"

definition is_ascii_lowercase :: "char \<Rightarrow> bool" where
  "is_ascii_lowercase c \<longleftrightarrow> 97 \<le> (of_char c :: nat) \<and> (of_char c :: nat) \<le> 122"

definition is_ascii_alphanumeric :: "char \<Rightarrow> bool" where
  "is_ascii_alphanumeric c \<longleftrightarrow> is_ascii_uppercase c \<or> is_ascii_lowercase c \<or>
     48 \<le> (of_char c :: nat) \<and> (of_char c :: nat) \<le> 57"

definition normalized_symbol_key :: "string \<Rightarrow> string" where
  "normalized_symbol_key name = map ascii_lower (filter is_ascii_alphanumeric name)"

text \<open>The loop of \<open>split_symbol_tokens\<close>, with its locals \<open>tokens\<close>, \<open>current\<close> and \<open>previous_was_lower\<close>.\<close>

definition flush_token :: "string list \<Rightarrow> string \<Rightarrow> string list" where
  "flush_token tokens current = (if current \<noteq> [] then tokens @ [to_ascii_lowercase current] else tokens)"

fun split_tokens :: "string \<Rightarrow> string list \<Rightarrow> string \<Rightarrow> bool \<Rightarrow> string list" where
  "split_tokens [] tokens current previous_was_lower = flush_token tokens current"
| "split_tokens (ch # name) tokens current previous_was_lower =
     (if \<not> is_ascii_alphanumeric ch then split_tokens name (flush_token tokens current) [] False
      else if is_ascii_uppercase ch \<and> previous_was_lower \<and> current \<noteq> []
      then split_tokens name (tokens @ [to_ascii_lowercase current]) [ch] (is_ascii_lowercase ch)
      else split_tokens name tokens (current @ [ch]) (is_ascii_lowercase ch))"

definition split_symbol_tokens :: "string \<Rightarrow> string list" where
  "split_symbol_tokens name = split_tokens name [] [] False"

text \<open>
  \<open>((overlap as f32 / total as f32) * 4.0).round()\<close>, half away from zero.  For fewer than a million
  tokens both counts are exact in \<open>f32\<close> and no quotient strictly between two multiples of an eighth
  rounds to one of them, so that the result is the rounding of the exact quotient.
\<close>

definition round_quarters :: "nat \<Rightarrow> nat \<Rightarrow> nat" where
  "round_quarters overlap tot = (8 * overlap + tot) div (2 * tot)"

definition token_overlap_score :: "string \<Rightarrow> string \<Rightarrow> nat" where
  "token_overlap_score left right =
     (let left_tokens = split_symbol_tokens left; right_tokens = split_symbol_tokens right
      in if left_tokens = [] \<or> right_tokens = [] then 0
         else (let overlap = length (filter (\<lambda>token. token \<in> set right_tokens) left_tokens)
               in if overlap = 0 then 0
                  else (let tot = length left_tokens + length right_tokens - overlap
                        in round_quarters overlap tot)))"

definition abs_diff :: "nat \<Rightarrow> nat \<Rightarrow> nat" where
  "abs_diff a b = (if a \<le> b then b - a else a - b)"

definition maybe_renamed :: "string \<Rightarrow> string \<Rightarrow> bool" where
  "maybe_renamed from_name to_name =
     (let from_key = normalized_symbol_key from_name; to_key = normalized_symbol_key to_name
      in if from_key = [] \<or> to_key = [] then False
         else if from_key = to_key then True
         else (contains to_key from_key \<or> contains from_key to_key) \<and> abs_diff (length from_key) (length to_key) \<le> 6)"

section \<open>Signatures\<close>

definition signature_shape :: "string \<Rightarrow> (nat \<times> bool) option" where
  "signature_shape signature =
     (case split_once ''('' signature of
        None \<Rightarrow> None
      | Some (_, after_open) \<Rightarrow>
          (case split_once '')'' after_open of
             None \<Rightarrow> None
           | Some (args, after_close) \<Rightarrow>
               (let args_text = trim args
                in Some (if args_text = [] then 0 else length (split_on '','' args_text), contains ''->'' after_close))))"

text \<open>\<open>split_whitespace().collect::<String>()\<close>: the text without its white space.\<close>

fun strip_whitespace :: "nat \<Rightarrow> string \<Rightarrow> string" where
  "strip_whitespace skip [] = []"
| "strip_whitespace skip (c # s) =
     (if skip > 0 then strip_whitespace (skip - 1) s
      else (case front_match white_space (c # s) of
              Some w \<Rightarrow> strip_whitespace (length w - 1) s
            | None \<Rightarrow> c # strip_whitespace 0 s))"

definition normalized_signature_key :: "string \<Rightarrow> string" where
  "normalized_signature_key signature =
     (let condensed = strip_whitespace 0 signature
      in case split_once ''fn'' condensed of
           None \<Rightarrow> condensed
         | Some (_, after_fn) \<Rightarrow>
             (case split_once ''('' after_fn of
                None \<Rightarrow> condensed
              | Some (_, after_open) \<Rightarrow> ''fn'' @ ''('' @ after_open))"

definition signature_compatibility_score :: "string option \<Rightarrow> string option \<Rightarrow> nat" where
  "signature_compatibility_score removed_signature added_signature =
     (case (removed_signature, added_signature) of
        (Some left, Some right) \<Rightarrow>
          if normalized_signature_key left = normalized_signature_key right then 5
          else (case (signature_shape left, signature_shape right) of
              (Some (left_args, left_ret), Some (right_args, right_ret)) \<Rightarrow>
                (if left_args = right_args then 2 else 0) + (if left_ret = right_ret then 1 else 0)
            | _ \<Rightarrow> 0)
      | _ \<Rightarrow> 0)"

section \<open>Replacements\<close>

definition candidate_score :: "crate_api_diff_change \<Rightarrow> crate_api_diff_change \<Rightarrow> nat" where
  "candidate_score removed_change candidate =
     (if maybe_renamed (ch_name removed_change) (ch_name candidate) then 5 else 0) +
     token_overlap_score (ch_name removed_change) (ch_name candidate) +
     signature_compatibility_score (ch_from_signature removed_change) (ch_to_signature candidate)"

definition candidate_step ::
  "crate_api_diff_change \<Rightarrow> crate_api_diff_change \<Rightarrow> (crate_api_diff_change \<times> nat) option \<Rightarrow>
   (crate_api_diff_change \<times> nat) option" where
  "candidate_step removed_change candidate best_match =
     (if ch_change_type candidate \<noteq> Added \<or> ch_kind candidate \<noteq> ch_kind removed_change then best_match
      else (let score = candidate_score removed_change candidate
            in if score < 5 then best_match
               else (case best_match of
                   Some (b, best_score) \<Rightarrow> if best_score \<ge> score then Some (b, best_score) else Some (candidate, score)
                 | None \<Rightarrow> Some (candidate, score))))"

definition replacement_candidate ::
  "crate_api_diff_change \<Rightarrow> crate_api_diff_change list \<Rightarrow> crate_api_diff_change option" where
  "replacement_candidate removed_change changes =
     map_option fst (fold (candidate_step removed_change) changes None)"

section \<open>Actions\<close>

definition action_for_change :: "crate_api_diff_change \<Rightarrow> string \<times> string" where
  "action_for_change change =
     (case ch_change_type change of
        Removed \<Rightarrow> (''replace removed API usage'', ''symbol was removed between selected versions'')
      | SignatureChanged \<Rightarrow>
          (''update call or type signature'', ''symbol signature changed and callsites likely need edits'')
      | VisibilityChanged \<Rightarrow>
          (''adjust import path or usage scope'', ''symbol visibility changed and may no longer be publicly reachable'')
      | Added \<Rightarrow>
          (''consider adopting new API'', ''symbol was added and may provide replacement or improved usage''))"

definition quoted :: "string \<Rightarrow> string" where
  "quoted s = ''`'' @ s @ ''`''"

definition action_rationale :: "crate_api_diff_change \<Rightarrow> crate_api_diff_change list \<Rightarrow> string" where
  "action_rationale change all_changes =
     (let rationale = snd (action_for_change change)
      in case ch_change_type change of
           Removed \<Rightarrow>
             (case replacement_candidate change all_changes of
                Some candidate \<Rightarrow>
                  ''symbol was removed between selected versions; likely replacement is '' @ [CHR 0x27] @
                  ch_name candidate @ [CHR 0x27]
              | None \<Rightarrow> rationale)
         | SignatureChanged \<Rightarrow>
             (case (ch_from_signature change, ch_to_signature change) of
                (Some from_sig, Some to_sig) \<Rightarrow>
                  ''symbol signature changed; update callsites from '' @ quoted from_sig @ '' to '' @ quoted to_sig
              | _ \<Rightarrow> rationale)
         | VisibilityChanged \<Rightarrow>
             (case (ch_from_visibility change, ch_to_visibility change) of
                (Some from_vis, Some to_vis) \<Rightarrow>
                  ''symbol visibility changed from '' @ quoted from_vis @ '' to '' @ quoted to_vis @
                  '' and may require import/API usage adjustments''
              | _ \<Rightarrow> rationale)
         | Added \<Rightarrow> rationale)"

record crate_migration_action =
  ma_action :: string
  ma_rationale :: string
  ma_affected_symbol :: string
  ma_kind :: string
  ma_from_signature :: "string option"
  ma_to_signature :: "string option"

definition migration_action :: "crate_api_diff_change list \<Rightarrow> crate_api_diff_change \<Rightarrow> crate_migration_action" where
  "migration_action all_changes change =
     \<lparr>ma_action = fst (action_for_change change), ma_rationale = action_rationale change all_changes,
      ma_affected_symbol = ch_name change, ma_kind = ch_kind change,
      ma_from_signature = ch_from_signature change, ma_to_signature = ch_to_signature change\<rparr>"

definition migration_actions :: "crate_api_diff_change list \<Rightarrow> crate_migration_action list" where
  "migration_actions all_changes =
     map (migration_action all_changes)
       (filter (\<lambda>change. ch_breaking_change change \<or> ch_change_type change = Removed) all_changes)"

record crate_migration_path_response =
  mr_crate_name :: string
  mr_from_version :: string
  mr_to_version :: string
  mr_breaking_changes_detected :: bool
  mr_added_count :: nat
  mr_removed_count :: nat
  mr_changed_count :: nat
  mr_migration_actions :: "crate_migration_action list"
  mr_release_notes :: "github_release_note list"
  mr_confidence :: string
  mr_confidence_assessment :: confidence_assessment
  mr_suggested_next_tools :: "string list"
  mr_provenance :: string

definition migration_confidence :: "bool \<Rightarrow> crate_migration_action list \<Rightarrow> confidence_assessment" where
  "migration_confidence truncated actions =
     (if truncated
      then \<lparr>ca_level = Medium, ca_reason = ''migration actions are partial because api diff results were truncated''\<rparr>
      else if actions = []
      then \<lparr>ca_level = High, ca_reason = ''no breaking API differences were detected in indexed symbols''\<rparr>
      else \<lparr>ca_level = High, ca_reason = ''migration actions are derived from indexed API diff breaking changes''\<rparr>)"

definition migration_response ::
  "string \<Rightarrow> string \<Rightarrow> string \<Rightarrow> crate_api_diff_response \<Rightarrow> crate_migration_path_response" where
  "migration_response crate_name from_version to_version diff =
     (let actions = migration_actions (dr_changes diff); assessment = migration_confidence (dr_truncated diff) actions
      in \<lparr>mr_crate_name = crate_name, mr_from_version = from_version, mr_to_version = to_version,
          mr_breaking_changes_detected = dr_breaking_changes_detected diff, mr_added_count = dr_added_count diff,
          mr_removed_count = dr_removed_count diff, mr_changed_count = dr_changed_count diff,
          mr_migration_actions = actions, mr_release_notes = dr_release_notes diff,
          mr_confidence = confidence_as_str (ca_level assessment), mr_confidence_assessment = assessment,
          mr_suggested_next_tools = [''crate_api_diff'', ''source_search'', ''source_read''],
          mr_provenance = ''crate_api_diff wrapper over indexed symbols''\<rparr>)"

text \<open>\<open>CrateMigrationPathRequest\<close> has the fields of \<open>CrateApiDiffRequest\<close>.\<close>

definition handle_crate_migration_path ::
  "(int \<Rightarrow> string) \<Rightarrow> fresh_env \<Rightarrow> fresh_env \<Rightarrow> fresh_env \<Rightarrow> diff_faults \<Rightarrow> symbol_row list \<Rightarrow> github_release_row list \<Rightarrow>
   crate_api_diff_request \<Rightarrow> server_state \<Rightarrow> crate_migration_path_response result \<times> server_state" where
  "handle_crate_migration_path show_time env env_from env_to faults symbols releases request srv =
     (case res_bind (normalize_required (dq_crate_name request) ''crate_name'') (\<lambda>crate_name.
           res_bind (normalize_required (dq_from_version request) ''from_version'') (\<lambda>from_version.
           res_bind (normalize_required (dq_to_version request) ''to_version'') (\<lambda>to_version.
             Inr (crate_name, from_version, to_version)))) of
        Inl e \<Rightarrow> (Inl e, srv)
      | Inr (crate_name, from_version, to_version) \<Rightarrow>
          (case handle_crate_api_diff show_time env env_from env_to faults symbols releases
                  \<lparr>dq_crate_name = crate_name, dq_from_version = from_version, dq_to_version = to_version,
                   dq_limit = Some (api_diff_limit (dq_limit request))\<rparr> srv of
             (Inl e, srv') \<Rightarrow> (Inl e, srv')
           | (Inr diff, srv') \<Rightarrow> (Inr (migration_response crate_name from_version to_version diff), srv')))"

section \<open>The replacement is the best-scored candidate\<close>

definition eligible :: "crate_api_diff_change \<Rightarrow> crate_api_diff_change \<Rightarrow> bool" where
  "eligible removed c \<longleftrightarrow> ch_change_type c = Added \<and> ch_kind c = ch_kind removed \<and> 5 \<le> candidate_score removed c"

interpretation candidates: ranked "\<lambda>a b. candidate_score removed a < candidate_score removed b" "candidate_score removed"
  for removed
  by unfold_locales simp

lemma fold_candidate_step:
  "fold (candidate_step r) cs (map_option (\<lambda>c. (c, candidate_score r c)) b) =
     map_option (\<lambda>c. (c, candidate_score r c))
       (fold (pick (\<lambda>x y. candidate_score r x < candidate_score r y)) (filter (eligible r) cs) b)"
proof (induction cs arbitrary: b)
  case (Cons c cs)
  have "candidate_step r c (map_option (\<lambda>c. (c, candidate_score r c)) b) = map_option (\<lambda>c. (c, candidate_score r c))
      (if eligible r c then pick (\<lambda>x y. candidate_score r x < candidate_score r y) c b else b)"
    by (cases b) (auto simp: candidate_step_def eligible_def Let_def)
  then show ?case using Cons.IH by simp
qed simp

text \<open>
  The suggested replacement of a removed symbol is the first of the added symbols of the same kind
  whose score is at least five and not exceeded by any other; there is none exactly when no
  added symbol of that kind reaches the threshold.
\<close>

theorem replacement_candidate_is_best:
  "replacement_candidate r cs =
     (let es = filter (\<lambda>c. ch_change_type c = Added \<and> ch_kind c = ch_kind r \<and> 5 \<le> candidate_score r c) cs
      in find (\<lambda>c. list_all (\<lambda>x. candidate_score r x \<le> candidate_score r c) es) es)"
proof -
  let ?es = "filter (eligible r) cs" and ?sc = "candidate_score r"
  let ?best = "fold (pick (\<lambda>x y. ?sc x < ?sc y)) ?es None"
  have fold: "replacement_candidate r cs = ?best"
    using fold_candidate_step [of r cs None]
    by (simp add: replacement_candidate_def option.map_comp comp_def option.map_ident)
  have "?best = find (\<lambda>c. list_all (\<lambda>x. ?sc x \<le> ?sc c) ?es) ?es"
  proof (cases ?best)
    case None
    then have "?es = []" using fold_pick_Some [of "\<lambda>x y. ?sc x < ?sc y" "tl ?es" "hd ?es"] by (cases ?es) auto
    with None show ?thesis by simp
  next
    case (Some c)
    from candidates.fold_pick_first [OF Some] obtain pre post where
      s: "?es = pre @ c # post" and less: "\<forall>x \<in> set pre. ?sc x < ?sc c" by auto
    have "list_all (\<lambda>x. ?sc x \<le> ?sc c) ?es"
      using candidates.fold_pick_rank [OF Some] by (simp add: list_all_iff)
    moreover have "\<forall>x \<in> set pre. \<not> list_all (\<lambda>y. ?sc y \<le> ?sc x) ?es"
      unfolding s using less by force
    ultimately show ?thesis using Some find_first [OF s] by simp
  qed
  then show ?thesis unfolding fold Let_def eligible_def [abs_def] .
qed

section \<open>The overlap score\<close>

lemma round_quarters_le: "0 < t \<Longrightarrow> x \<le> t \<Longrightarrow> round_quarters x t \<le> 4"
  unfolding round_quarters_def by (rule less_Suc_eq_le [THEN iffD1]) (simp add: div_less_iff_less_mult)

lemma overlap_le:
  assumes "distinct xs"
  shows "length (filter (\<lambda>x. x \<in> set ys) xs) \<le> length ys"
proof -
  have "length (filter (\<lambda>x. x \<in> set ys) xs) = card (set xs \<inter> set ys)"
    using assms by (metis distinct_card distinct_filter set_filter Int_def mem_Collect_eq)
  also have "\<dots> \<le> card (set ys)" by (intro card_mono) auto
  also have "\<dots> \<le> length ys" by (rule card_length)
  finally show ?thesis .
qed

text \<open>
  The token overlap score is a similarity between 0 and 4 when no token of the removed name
  repeats.  The overlap counts the occurrences of every common token on the left, so that a name
  with repeated tokens can score above that: \<open>a_a_a_a\<close> against \<open>a\<close> scores 16, while \<open>a\<close>
  against \<open>a_a_a_a\<close> scores 1.
\<close>

theorem token_overlap_bounds:
  "(distinct (split_symbol_tokens left) \<longrightarrow> token_overlap_score left right \<le> 4) \<and>
   token_overlap_score ''a_a_a_a'' ''a'' = 16 \<and> token_overlap_score ''a'' ''a_a_a_a'' = 1"
proof (intro conjI impI)
  assume d: "distinct (split_symbol_tokens left)"
  let ?l = "split_symbol_tokens left" and ?r = "split_symbol_tokens right"
  let ?o = "length (filter (\<lambda>t. t \<in> set ?r) ?l)"
  have "?o \<le> length ?r" by (rule overlap_le [OF d])
  moreover have "?o \<le> length ?l" by simp
  ultimately have "round_quarters ?o (length ?l + length ?r - ?o) \<le> 4" if "?o \<noteq> 0"
    using that by (intro round_quarters_le) linarith+
  then show "token_overlap_score left right \<le> 4" by (simp add: token_overlap_score_def Let_def)
qed code_simp+

theorem token_overlap_bounds_witness:
  "distinct (split_symbol_tokens ''parseValue'') \<and> token_overlap_score ''parseValue'' ''parse_value_all'' \<le> 4"
proof -
  have "split_symbol_tokens ''parseValue'' = [''parse'', ''value'']" by code_simp
  then have "distinct (split_symbol_tokens ''parseValue'')" by simp
  with token_overlap_bounds [of "''parseValue''" "''parse_value_all''"] show ?thesis by simp
qed

section \<open>The actions\<close>

lemma migration_actions_symbols:
  assumes "\<forall>c \<in> set cs. ch_change_type c = Removed \<longrightarrow> ch_breaking_change c"
  shows "map (\<lambda>a. (ma_affected_symbol a, ma_kind a)) (migration_actions cs) = map change_key (filter ch_breaking_change cs)"
proof -
  have "filter (\<lambda>c. ch_breaking_change c \<or> ch_change_type c = Removed) cs = filter ch_breaking_change cs"
    using assms by (intro filter_cong) auto
  then show ?thesis by (simp add: migration_actions_def migration_action_def)
qed

lemma diff_removed_breaking:
  assumes "c \<in> set (ds_changes (build_diff_summary from_rows to_rows))" and "ch_change_type c = Removed"
  shows "ch_breaking_change c"
  using assms unfolding diff_changes_set
  by (auto simp: change_kind_Removed breaks_def dest!: symbol_change_SomeD)

lemma breaking_change_keys:
  "change_key ` {c \<in> set (ds_changes (build_diff_summary from_rows to_rows)). ch_breaking_change c} =
     {k. breaks (best_symbol from_rows k) (best_symbol to_rows k)}" (is "?L = ?R")
proof (intro set_eqI iffI)
  fix k assume "k \<in> ?L"
  then show "k \<in> ?R" unfolding diff_changes_set by (auto dest!: symbol_change_SomeD)
next
  fix k assume b: "k \<in> ?R"
  let ?f = "best_symbol from_rows k" and ?t = "best_symbol to_rows k"
  have "?f \<noteq> ?t" using b by (auto simp: breaks_def split: option.splits)
  then obtain c where c: "symbol_change k ?f ?t = Some c" using change_kind_None [of ?f ?t] by (auto simp: symbol_change_def)
  then have "change_key c = k" "ch_breaking_change c" using b symbol_change_SomeD [OF c] by auto
  moreover have "c \<in> set (ds_changes (build_diff_summary from_rows to_rows))" unfolding diff_changes_set using c by blast
  ultimately show "k \<in> ?L" by (metis (mono_tags, lifting) image_eqI mem_Collect_eq)
qed

text \<open>
  A successful \<open>crate_migration_path\<close> answer covers the breaking changes between the two requested
  versions.  The versions are the indexed ones of those names; the breaking flag says whether some
  symbol breaks; every action is for a symbol that breaks, and no symbol has two actions; when the
  number of changes is within the limit, every breaking symbol has its action and the confidence is
  high; otherwise the confidence is medium.
\<close>

theorem migration_path_actions_exact:
  assumes "handle_crate_migration_path show_time env env_from env_to faults symbols releases request srv = (Inr m, srv')"
  shows "\<exists>ctx srv1 from_row to_row.
    fetch_crate_context env (trim (dq_crate_name request)) srv = (Inr ctx, srv1) \<and>
    fetch_crate_version_by_name (sv_store srv1) (cc_id (cx_crate_row ctx)) (trim (dq_from_version request)) = Some from_row \<and>
    fetch_crate_version_by_name (sv_store srv1) (cc_id (cx_crate_row ctx)) (trim (dq_to_version request)) = Some to_row \<and>
    (let F = best_symbol (list_api_diff_symbols_for_version symbols (cv_id from_row));
         T = best_symbol (list_api_diff_symbols_for_version symbols (cv_id to_row));
         affected = map (\<lambda>a. (ma_affected_symbol a, ma_kind a)) (mr_migration_actions m)
     in mr_breaking_changes_detected m = (\<exists>k. breaks (F k) (T k)) \<and> distinct affected \<and>
        (if mr_removed_count m + mr_added_count m + mr_changed_count m \<le> unat (api_diff_limit (dq_limit request))
         then set affected = {k. breaks (F k) (T k)} \<and> mr_confidence m = ''high''
         else set affected \<subseteq> {k. breaks (F k) (T k)} \<and> mr_confidence m = ''medium''))"
proof -
  let ?rq = "\<lparr>dq_crate_name = trim (dq_crate_name request), dq_from_version = trim (dq_from_version request),
      dq_to_version = trim (dq_to_version request), dq_limit = Some (api_diff_limit (dq_limit request))\<rparr>"
  obtain diff where h: "handle_crate_api_diff show_time env env_from env_to faults symbols releases ?rq srv = (Inr diff, srv')"
    and m: "m = migration_response (trim (dq_crate_name request)) (trim (dq_from_version request)) (trim (dq_to_version request)) diff"
    using assms unfolding handle_crate_migration_path_def
    by (auto simp: res_bind_def normalize_required_Inr split: sum.splits prod.splits)
  from h obtain ctx srv1 from_row to_row rel where
    c: "fetch_crate_context env (trim (dq_crate_name request)) srv = (Inr ctx, srv1)" and
    f: "fetch_crate_version_by_name (sv_store srv1) (cc_id (cx_crate_row ctx)) (trim (dq_from_version request)) = Some from_row" and
    t: "fetch_crate_version_by_name (sv_store srv1) (cc_id (cx_crate_row ctx)) (trim (dq_to_version request)) = Some to_row" and
    d: "diff = api_diff_response show_time ctx from_row to_row (unat (api_diff_limit (dq_limit ?rq)))
       (build_diff_summary (list_api_diff_symbols_for_version symbols (cv_id from_row))
          (list_api_diff_symbols_for_version symbols (cv_id to_row))) rel"
    by (rule handle_crate_api_diff_Inr) (auto simp: normalize_required_Inr)
  define fr where "fr = list_api_diff_symbols_for_version symbols (cv_id from_row)"
  define tr where "tr = list_api_diff_symbols_for_version symbols (cv_id to_row)"
  define s where "s = build_diff_summary fr tr"
  define lim where "lim = unat (api_diff_limit (dq_limit request))"
  have lim: "unat (api_diff_limit (dq_limit ?rq)) = lim"
    by (simp add: lim_def api_diff_limit.stable)
  have ch: "dr_changes diff = take lim (ds_changes s)" "dr_truncated diff = (length (ds_changes s) > lim)"
    "mr_migration_actions m = migration_actions (dr_changes diff)"
    "mr_confidence_assessment m = migration_confidence (dr_truncated diff) (mr_migration_actions m)"
    "mr_confidence m = confidence_as_str (ca_level (mr_confidence_assessment m))"
    using lim by (auto simp: m d api_diff_response_def migration_response_def Let_def s_def fr_def tr_def)
  have aff: "map (\<lambda>a. (ma_affected_symbol a, ma_kind a)) (mr_migration_actions m) =
      map change_key (filter ch_breaking_change (take lim (ds_changes s)))"
    unfolding ch by (rule migration_actions_symbols) (auto simp: s_def dest!: in_set_takeD intro: diff_removed_breaking)
  have "distinct (map change_key (take lim (ds_changes s)))"
    using diff_changes_distinct [of fr tr] by (simp add: s_def take_map [symmetric])
  then have dist: "distinct (map (\<lambda>a. (ma_affected_symbol a, ma_kind a)) (mr_migration_actions m))"
    unfolding aff by (rule distinct_map_filter)
  have keys: "change_key ` {c \<in> set (ds_changes s). ch_breaking_change c} = {k. breaks (best_symbol fr k) (best_symbol tr k)}"
    unfolding s_def by (rule breaking_change_keys)
  have len: "mr_removed_count m + mr_added_count m + mr_changed_count m = length (ds_changes s)"
    by (simp add: m d migration_response_def api_diff_response_def Let_def s_def fr_def tr_def diff_changes_length)
  have brk: "mr_breaking_changes_detected m = (\<exists>k. breaks (best_symbol fr k) (best_symbol tr k))"
    by (simp add: m d migration_response_def api_diff_response_def Let_def fr_def tr_def diff_breaking_iff)
  have sub: "set (map (\<lambda>a. (ma_affected_symbol a, ma_kind a)) (mr_migration_actions m)) \<subseteq>
      {k. breaks (best_symbol fr k) (best_symbol tr k)}"
    unfolding aff keys [symmetric] by (auto dest: in_set_takeD)
  have all: "set (map (\<lambda>a. (ma_affected_symbol a, ma_kind a)) (mr_migration_actions m)) =
      {k. breaks (best_symbol fr k) (best_symbol tr k)}" if "length (ds_changes s) \<le> lim"
    unfolding aff keys [symmetric] using that by simp
  have conf: "mr_confidence m = (if length (ds_changes s) \<le> lim then ''high'' else ''medium'')"
    unfolding ch(5,4,2) migration_confidence_def by simp
  show ?thesis
    unfolding lim_def [symmetric] len
    using c f t brk dist sub all conf by (auto simp: Let_def fr_def tr_def)
qed

definition sample_upgrade_server :: server_state where
  "sample_upgrade_server = sample_server\<lparr>sv_store := \<lparr>st_crates = [sample_crate],
     st_versions = [sample_version, sample_version\<lparr>cv_id := 11, cv_version := ''2.0.0''\<rparr>]\<rparr>\<rparr>"

definition sample_upgrade_env :: fresh_env where
  "sample_upgrade_env = (sample_fresh_env ''2.0.0'' 1000)\<lparr>fe_has_rustdoc_symbols := (\<lambda>_. True)\<rparr>"

definition sample_migration :: "crate_migration_path_response result \<times> server_state" where
  "sample_migration = handle_crate_migration_path (\<lambda>_. []) sample_upgrade_env sample_upgrade_env sample_upgrade_env
     \<lparr>df_from_lookup = None, df_to_lookup = None, df_from_symbols = None, df_to_symbols = None, df_releases = None\<rparr>
     sample_symbols [] \<lparr>dq_crate_name = ''Serde'', dq_from_version = ''1.0.0'', dq_to_version = ''2.0.0'', dq_limit = None\<rparr>
     sample_upgrade_server"

lemma sample_upgrade_context:
  "case fetch_crate_context sample_upgrade_env ''Serde'' sample_upgrade_server of
     (Inr ctx, srv1) \<Rightarrow>
       fetch_crate_version_by_name (sv_store srv1) (cc_id (cx_crate_row ctx)) ''1.0.0'' \<noteq> None \<and>
       fetch_crate_version_by_name (sv_store srv1) (cc_id (cx_crate_row ctx)) ''2.0.0'' \<noteq> None
   | _ \<Rightarrow> False"
  by code_simp

lemma sample_upgrade_trims:
  "normalize_required ''Serde'' f = Inr ''Serde''" "normalize_required ''1.0.0'' f = Inr ''1.0.0''"
  "normalize_required ''2.0.0'' f = Inr ''2.0.0''"
  unfolding normalize_required_def by code_simp+

lemma sample_upgrade_rustdoc: "ensure_rustdoc_indexed sample_upgrade_env n i srv = (Inr (), srv)"
  by (simp add: ensure_rustdoc_indexed_def sample_upgrade_env_def sample_fresh_env_def)

lemma sample_migration_ok: "\<exists>m srv'. sample_migration = (Inr m, srv')"
proof -
  obtain ctx srv1 f t where c: "fetch_crate_context sample_upgrade_env ''Serde'' sample_upgrade_server = (Inr ctx, srv1)"
    and "fetch_crate_version_by_name (sv_store srv1) (cc_id (cx_crate_row ctx)) ''1.0.0'' = Some f"
    and "fetch_crate_version_by_name (sv_store srv1) (cc_id (cx_crate_row ctx)) ''2.0.0'' = Some t"
    using sample_upgrade_context by (auto split: prod.splits sum.splits)
  then show ?thesis
    unfolding sample_migration_def handle_crate_migration_path_def handle_crate_api_diff_def
    by (simp add: sample_upgrade_trims sample_upgrade_rustdoc res_bind_def diff_version_def diff_symbols_def Let_def)
qed

theorem migration_path_actions_exact_witness:
  "case sample_migration of
     (Inr m, _) \<Rightarrow> distinct (map (\<lambda>a. (ma_affected_symbol a, ma_kind a)) (mr_migration_actions m)) \<and>
       (mr_removed_count m + mr_added_count m + mr_changed_count m \<le> 500 \<longrightarrow> mr_confidence m = ''high'')
   | _ \<Rightarrow> False"
proof -
  obtain m srv' where m: "sample_migration = (Inr m, srv')" using sample_migration_ok by blast
  have "unat (api_diff_limit None) = 500" by (simp add: api_diff_limit.default)
  with migration_path_actions_exact [OF m [unfolded sample_migration_def]] show ?thesis
    unfolding m by (auto simp: Let_def split: if_splits)
qed

end
