(* ===== verification/Rate_Limiter.thy ===== *)
theory Rate_Limiter
  imports Prelude
begin

text \<open>
  The outbound rate limiter of \<open>state.rs\<close>: a burst gate that is slept through with its lock held, and a
  rolling window whose lock is released while a task waits for the oldest request to expire.  Any number
  of tasks call \<open>acquire\<close>; a step is the code of one task between two points where another task can
  run, labelled with the first clock reading it makes.  Instants and durations are integers
  (nanoseconds); \<open>lc_epoch\<close> is the smallest representable instant.  \<open>rl_passes\<close> and \<open>rl_requests\<close> record when
  tasks left the burst gate and when \<open>acquire\<close> returned.
\<close>

section \<open>Configuration\<close>

record limiter_config =
  lc_burst_interval :: int
  lc_window_max :: u32
  lc_window_duration :: int
  lc_epoch :: int

datatype outbound_source = CratesIo | DocsRs | Osv | GitHub

record source_limits =
  sl_min_interval_ms :: nat
  sl_window_max_requests :: u32
  sl_window_duration_secs :: nat

record limits_config =
  cf_crates_io :: source_limits
  cf_docs_rs :: source_limits
  cf_osv :: source_limits
  cf_github :: source_limits

definition from_millis :: "nat \<Rightarrow> int" where
  "from_millis ms = int ms * 1000000"

definition from_secs :: "nat \<Rightarrow> int" where
  "from_secs s = int s * 1000000000"

definition limiter_of :: "int \<Rightarrow> source_limits \<Rightarrow> limiter_config" where
  "limiter_of epoch sl =
     \<lparr>lc_burst_interval = from_millis (sl_min_interval_ms sl), lc_window_max = sl_window_max_requests sl,
      lc_window_duration = from_secs (sl_window_duration_secs sl), lc_epoch = epoch\<rparr>"

fun outbound_rate_limiters :: "int \<Rightarrow> limits_config \<Rightarrow> outbound_source \<Rightarrow> limiter_config" where
  "outbound_rate_limiters epoch config CratesIo = limiter_of epoch (cf_crates_io config)"
| "outbound_rate_limiters epoch config DocsRs = limiter_of epoch (cf_docs_rs config)"
| "outbound_rate_limiters epoch config Osv = limiter_of epoch (cf_osv config)"
| "outbound_rate_limiters epoch config GitHub = limiter_of epoch (cf_github config)"

section \<open>The gates\<close>

definition checked_sub :: "limiter_config \<Rightarrow> int \<Rightarrow> int \<Rightarrow> int option" where
  "checked_sub cfg t d = (if lc_epoch cfg \<le> t - d then Some (t - d) else None)"

definition cutoff :: "limiter_config \<Rightarrow> int \<Rightarrow> int" where
  "cutoff cfg t = unwrap_or (checked_sub cfg t (lc_window_duration cfg)) t"

definition evict :: "int \<Rightarrow> int list \<Rightarrow> int list" where
  "evict c timestamps = dropWhile (\<lambda>ts. ts < c) timestamps"

definition window_wait :: "limiter_config \<Rightarrow> int list \<Rightarrow> int \<Rightarrow> int option" where
  "window_wait cfg timestamps t =
     (if unat (lc_window_max cfg) \<le> length timestamps
      then (case timestamps of
              [] \<Rightarrow> None
            | oldest # _ \<Rightarrow>
                (let wait_until = oldest + lc_window_duration cfg in if wait_until > t then Some wait_until else None))
      else None)"

definition burst_wake :: "int \<Rightarrow> int \<Rightarrow> int" where
  "burst_wake next_allowed t = (if next_allowed > t then next_allowed else t)"

section \<open>Tasks\<close>

datatype task = Outside | InBurst int | AtWindow | InWindow int

record limiter =
  rl_now :: int
  rl_next_allowed_at :: int
  rl_timestamps :: "int list"
  rl_task :: "nat \<Rightarrow> task"
  rl_passes :: "int list"
  rl_requests :: "int list"

definition new_limiter :: "int \<Rightarrow> limiter" where
  "new_limiter t = \<lparr>rl_now = t, rl_next_allowed_at = t, rl_timestamps = [], rl_task = (\<lambda>_. Outside), rl_passes = [], rl_requests = []\<rparr>"

fun holds_burst :: "task \<Rightarrow> bool" where
  "holds_burst (InBurst _) = True"
| "holds_burst _ = False"

inductive acquire_step :: "limiter_config \<Rightarrow> nat \<Rightarrow> int \<Rightarrow> limiter \<Rightarrow> limiter \<Rightarrow> bool" for cfg :: limiter_config where
  burst_lock:
    "rl_task s i = Outside \<Longrightarrow> \<forall>j. \<not> holds_burst (rl_task s j) \<Longrightarrow> rl_now s \<le> t \<Longrightarrow>
     acquire_step cfg i t s (s\<lparr>rl_now := t, rl_task := (rl_task s)(i := InBurst (burst_wake (rl_next_allowed_at s) t))\<rparr>)"
| burst_pass:
    "rl_task s i = InBurst w \<Longrightarrow> rl_now s \<le> t \<Longrightarrow> w \<le> t \<Longrightarrow> 0 < lc_window_max cfg \<Longrightarrow>
     acquire_step cfg i t s (s\<lparr>rl_now := t, rl_next_allowed_at := t + lc_burst_interval cfg, rl_passes := rl_passes s @ [t],
       rl_task := (rl_task s)(i := AtWindow)\<rparr>)"
| burst_only:
    "rl_task s i = InBurst w \<Longrightarrow> rl_now s \<le> t \<Longrightarrow> w \<le> t \<Longrightarrow> lc_window_max cfg = 0 \<Longrightarrow>
     acquire_step cfg i t s (s\<lparr>rl_now := t, rl_next_allowed_at := t + lc_burst_interval cfg, rl_passes := rl_passes s @ [t],
       rl_requests := rl_requests s @ [t], rl_task := (rl_task s)(i := Outside)\<rparr>)"
| window_full:
    "rl_task s i = AtWindow \<Longrightarrow> rl_now s \<le> t \<Longrightarrow> t \<le> t2 \<Longrightarrow>
     window_wait cfg (evict (cutoff cfg t) (rl_timestamps s)) t2 = Some w \<Longrightarrow>
     acquire_step cfg i t s (s\<lparr>rl_now := t2, rl_timestamps := evict (cutoff cfg t) (rl_timestamps s),
       rl_task := (rl_task s)(i := InWindow w)\<rparr>)"
| window_pass:
    "rl_task s i = AtWindow \<Longrightarrow> rl_now s \<le> t \<Longrightarrow> t \<le> t2 \<Longrightarrow> t2 \<le> t3 \<Longrightarrow>
     window_wait cfg (evict (cutoff cfg t) (rl_timestamps s)) t2 = None \<Longrightarrow>
     acquire_step cfg i t s (s\<lparr>rl_now := t3, rl_timestamps := evict (cutoff cfg t) (rl_timestamps s) @ [t3],
       rl_requests := rl_requests s @ [t3], rl_task := (rl_task s)(i := Outside)\<rparr>)"
| window_wake:
    "rl_task s i = InWindow w \<Longrightarrow> rl_now s \<le> t \<Longrightarrow> w \<le> t \<Longrightarrow> t \<le> t2 \<Longrightarrow>
     acquire_step cfg i t s (s\<lparr>rl_now := t2, rl_timestamps := evict (cutoff cfg t) (rl_timestamps s) @ [t2],
       rl_requests := rl_requests s @ [t2], rl_task := (rl_task s)(i := Outside)\<rparr>)"

inductive_cases acquire_stepE: "acquire_step cfg i t s s'"

text \<open>All interleavings, and the runs in which one task at a time is inside \<open>acquire\<close> and the clock advances between steps.\<close>

inductive limiter_run :: "limiter_config \<Rightarrow> int \<Rightarrow> limiter \<Rightarrow> bool" for cfg t0 where
  start: "limiter_run cfg t0 (new_limiter t0)"
| step: "limiter_run cfg t0 s \<Longrightarrow> acquire_step cfg i t s s' \<Longrightarrow> limiter_run cfg t0 s'"

inductive sequential_run :: "limiter_config \<Rightarrow> int \<Rightarrow> limiter \<Rightarrow> bool" for cfg t0 where
  seq_start: "sequential_run cfg t0 (new_limiter t0)"
| seq_step: "sequential_run cfg t0 s \<Longrightarrow> \<forall>j. j \<noteq> i \<longrightarrow> rl_task s j = Outside \<Longrightarrow> rl_now s < t \<Longrightarrow> acquire_step cfg i t s s' \<Longrightarrow>
    sequential_run cfg t0 s'"

section \<open>The burst gate\<close>

definition spaced :: "int \<Rightarrow> int list \<Rightarrow> bool" where
  "spaced d ts \<longleftrightarrow> sorted_wrt (\<lambda>a b. a + d \<le> b) ts"

definition burst_inv :: "limiter_config \<Rightarrow> limiter \<Rightarrow> bool" where
  "burst_inv cfg s \<longleftrightarrow> spaced (lc_burst_interval cfg) (rl_passes s) \<and>
     list_all (\<lambda>p. p + lc_burst_interval cfg \<le> rl_next_allowed_at s) (rl_passes s) \<and>
     (\<forall>i w. rl_task s i = InBurst w \<longrightarrow> rl_next_allowed_at s \<le> w) \<and>
     (\<forall>i j. holds_burst (rl_task s i) \<longrightarrow> holds_burst (rl_task s j) \<longrightarrow> i = j)"

lemma burst_passed:
  assumes "burst_inv cfg s" and "rl_task s i = InBurst w" and "w \<le> t" and "0 \<le> lc_burst_interval cfg" and "\<not> holds_burst k"
  shows "burst_inv cfg (s\<lparr>rl_now := t, rl_next_allowed_at := t + lc_burst_interval cfg, rl_passes := rl_passes s @ [t],
     rl_task := (rl_task s)(i := k)\<rparr>)"
proof -
  have n: "rl_next_allowed_at s \<le> t" using assms(1-3) by (force simp: burst_inv_def)
  have free: "\<not> holds_burst (rl_task s j)" if "j \<noteq> i" for j
    using assms(1,2) that unfolding burst_inv_def by (metis holds_burst.simps(1))
  then have "\<forall>w. rl_task s j \<noteq> InBurst w" if "j \<noteq> i" for j using that by (metis holds_burst.simps(1))
  moreover have "list_all (\<lambda>p. p + lc_burst_interval cfg \<le> t) (rl_passes s)"
    using assms(1) n unfolding burst_inv_def list_all_iff by fastforce
  moreover have "\<forall>w. k \<noteq> InBurst w" using assms(5) by auto
  ultimately show ?thesis
    using assms(1,4,5) free unfolding burst_inv_def spaced_def sorted_wrt_append list_all_iff by (auto simp: sorted_wrt_append)
qed

lemma burst_inv_cong:
  assumes "burst_inv cfg s" and "rl_task s' = rl_task s" "rl_passes s' = rl_passes s" "rl_next_allowed_at s' = rl_next_allowed_at s"
  shows "burst_inv cfg s'"
  using assms(1) unfolding burst_inv_def assms(2-4) .

lemma burst_inv_task:
  assumes "burst_inv cfg s" and "\<not> holds_burst k" and "rl_task s' = (rl_task s)(i := k)"
    and "rl_passes s' = rl_passes s" "rl_next_allowed_at s' = rl_next_allowed_at s"
  shows "burst_inv cfg s'"
proof -
  have "\<forall>w. k \<noteq> InBurst w" using assms(2) by auto
  then show ?thesis using assms(1,2) unfolding burst_inv_def assms(3-5) by (simp split: if_split)
qed

lemma burst_inv_step:
  assumes "burst_inv cfg s" and "0 \<le> lc_burst_interval cfg" and "acquire_step cfg i t s s'"
  shows "burst_inv cfg s'"
  using assms(3)
proof (cases rule: acquire_step.cases)
  case burst_lock
  have "rl_task s j \<noteq> InBurst w" for j w using burst_lock(3) by (metis holds_burst.simps(1))
  moreover have "rl_next_allowed_at s \<le> burst_wake (rl_next_allowed_at s) t" by (simp add: burst_wake_def)
  ultimately show ?thesis using assms(1) burst_lock(3) unfolding burst_lock(1) burst_inv_def by simp
next
  case (burst_pass w)
  then show ?thesis using burst_passed [OF assms(1) _ _ assms(2)] by simp
next
  case (burst_only w)
  have "burst_inv cfg (s\<lparr>rl_now := t, rl_next_allowed_at := t + lc_burst_interval cfg, rl_passes := rl_passes s @ [t],
     rl_task := (rl_task s)(i := Outside)\<rparr>)" using burst_passed [OF assms(1) burst_only(2,4) assms(2)] by simp
  then show ?thesis unfolding burst_only(1) by (rule burst_inv_cong) simp_all
next
  case (window_full t2 w)
  show ?thesis by (rule burst_inv_task [OF assms(1), of "InWindow w" _ i]) (simp_all add: window_full(1))
next
  case (window_pass t2 t3)
  show ?thesis by (rule burst_inv_task [OF assms(1), of Outside _ i]) (simp_all add: window_pass(1))
next
  case (window_wake w t2)
  show ?thesis by (rule burst_inv_task [OF assms(1), of Outside _ i]) (simp_all add: window_wake(1))
qed

text \<open>
  However tasks interleave, any two of them leave the burst gate at least the configured interval apart.
\<close>

theorem burst_gate_spacing:
  assumes "limiter_run cfg t0 s" and "0 \<le> lc_burst_interval cfg"
  shows "spaced (lc_burst_interval cfg) (rl_passes s)"
proof -
  have "burst_inv cfg s" using assms(1)
  proof (induction rule: limiter_run.induct)
    case start
    then show ?case by (simp add: burst_inv_def new_limiter_def spaced_def)
  next
    case (step s i t s')
    then show ?case using burst_inv_step assms(2) by blast
  qed
  then show ?thesis by (simp add: burst_inv_def)
qed

section \<open>The window, one task at a time\<close>

definition window_ok :: "limiter_config \<Rightarrow> int list \<Rightarrow> bool" where
  "window_ok cfg ts \<longleftrightarrow>
     (\<forall>a t b. ts = a @ t # b \<longrightarrow> length (filter (\<lambda>x. t - lc_window_duration cfg < x) a) < unat (lc_window_max cfg))"

lemma window_ok_snoc:
  assumes "window_ok cfg ts" and "length (filter (\<lambda>x. t - lc_window_duration cfg < x) ts) < unat (lc_window_max cfg)"
  shows "window_ok cfg (ts @ [t])"
  unfolding window_ok_def
proof (intro allI impI)
  fix a u b
  assume e: "ts @ [t] = a @ u # b"
  show "length (filter (\<lambda>x. u - lc_window_duration cfg < x) a) < unat (lc_window_max cfg)"
  proof (cases b rule: rev_cases)
    case Nil
    then show ?thesis using e assms(2) by simp
  next
    case (snoc b' y)
    then have "ts = a @ u # b'" using e by simp
    then show ?thesis using assms(1) by (simp add: window_ok_def)
  qed
qed

definition window_inv :: "limiter_config \<Rightarrow> limiter \<Rightarrow> bool" where
  "window_inv cfg s \<longleftrightarrow>
     sorted (rl_timestamps s) \<and> list_all (\<lambda>t. t \<le> rl_now s) (rl_timestamps s) \<and>
     (\<exists>old. rl_requests s = old @ rl_timestamps s \<and> list_all (\<lambda>t. t < rl_now s - lc_window_duration cfg) old) \<and>
     window_ok cfg (rl_requests s) \<and>
     (length (rl_timestamps s) \<le> unat (lc_window_max cfg) \<or>
      length (rl_timestamps s) = Suc (unat (lc_window_max cfg)) \<and> hd (rl_timestamps s) + lc_window_duration cfg \<le> rl_now s) \<and>
     (\<forall>i w. rl_task s i = InWindow w \<longrightarrow>
        length (rl_timestamps s) = unat (lc_window_max cfg) \<and> w = hd (rl_timestamps s) + lc_window_duration cfg)"

lemma evict_split: "\<exists>dropped. q = dropped @ evict c q \<and> list_all (\<lambda>t. t < c) dropped"
  unfolding evict_def by (intro exI [of _ "takeWhile (\<lambda>t. t < c) q"]) (auto simp: list_all_iff dest: set_takeWhileD)

lemma evict_first:
  assumes "q \<noteq> []" and "hd q < c"
  shows "length (evict c q) < length q"
  using assms by (cases q) (auto simp: evict_def intro: le_imp_less_Suc length_dropWhile_le)

lemma sorted_evict: "sorted q \<Longrightarrow> sorted (evict c q)"
  unfolding evict_def by (metis dropWhile_eq_drop sorted_wrt_drop)

text \<open>The entries that count against a request at \<open>t\<close>: none but those after the oldest, once that has expired.\<close>

lemma window_count:
  assumes "requests = old @ q" and "list_all (\<lambda>x. x \<le> (t :: int) - d) old" and "length q \<le> m" and "0 < m"
    and "length q = m \<Longrightarrow> hd q + d \<le> t"
  shows "length (filter (\<lambda>x. t - d < x) requests) < m"
proof -
  have o: "filter (\<lambda>x. t - d < x) old = []" using assms(2) by (induction old) auto
  show ?thesis
  proof (cases "length q = m")
    case True
    then obtain y ys where q: "q = y # ys" using assms(4) by (cases q) auto
    then have "\<not> t - d < y" using assms(5) [OF True] by simp
    then have "length (filter (\<lambda>x. t - d < x) q) \<le> length ys" using q by simp
    then show ?thesis using True q o assms(1) by simp
  next
    case False
    have "length (filter (\<lambda>x. t - d < x) q) < m" using length_filter_le [of "\<lambda>x. t - d < x" q] False assms(3) by linarith
    then show ?thesis using assms(1) o by simp
  qed
qed

lemma window_push:
  assumes "sorted q" and "list_all (\<lambda>x. x \<le> t) q" and "rl_requests s = old @ q"
    and "list_all (\<lambda>x. x < t - lc_window_duration cfg) old" and "window_ok cfg (rl_requests s)"
    and "length q \<le> unat (lc_window_max cfg)" and "0 < lc_window_max cfg"
    and "length q = unat (lc_window_max cfg) \<Longrightarrow> hd q + lc_window_duration cfg \<le> t"
    and "\<forall>j. j \<noteq> i \<longrightarrow> rl_task s j = Outside"
  shows "window_inv cfg (s\<lparr>rl_now := t, rl_timestamps := q @ [t], rl_requests := rl_requests s @ [t], rl_task := (rl_task s)(i := Outside)\<rparr>)"
proof -
  have "0 < unat (lc_window_max cfg)" using assms(7) by (simp add: unat_gt_0 word_gt_0)
  moreover have "list_all (\<lambda>x. x \<le> t - lc_window_duration cfg) old" using assms(4) by (auto simp: list_all_iff)
  ultimately have "length (filter (\<lambda>x. t - lc_window_duration cfg < x) (rl_requests s)) < unat (lc_window_max cfg)"
    using window_count [OF assms(3)] assms(6,8) by blast
  then have "window_ok cfg (rl_requests s @ [t])" by (rule window_ok_snoc [OF assms(5)])
  moreover have "sorted (q @ [t])" using assms(1,2) by (auto simp: sorted_append list_all_iff)
  moreover have "hd (q @ [t]) + lc_window_duration cfg \<le> t" if "length q = unat (lc_window_max cfg)"
    using that assms(8) \<open>0 < unat _\<close> by (cases q) auto
  ultimately show ?thesis
    using assms(2,3,4,6,9) unfolding window_inv_def by (auto simp: list_all_iff intro!: exI [of _ old])
qed

lemma cutoff_recent: "lc_epoch cfg \<le> t - lc_window_duration cfg \<Longrightarrow> cutoff cfg t = t - lc_window_duration cfg"
  by (simp add: cutoff_def checked_sub_def)

text \<open>What evicting at a later reading leaves of the recorded requests.\<close>

lemma evict_inv:
  assumes "window_inv cfg s" and "rl_now s \<le> t" and "lc_epoch cfg \<le> t - lc_window_duration cfg"
  obtains old where "rl_requests s = old @ evict (cutoff cfg t) (rl_timestamps s)"
    "list_all (\<lambda>x. x < t - lc_window_duration cfg) old" "sorted (evict (cutoff cfg t) (rl_timestamps s))"
    "list_all (\<lambda>x. x \<le> t) (evict (cutoff cfg t) (rl_timestamps s))"
proof -
  let ?q = "evict (cutoff cfg t) (rl_timestamps s)"
  obtain old where o: "rl_requests s = old @ rl_timestamps s" "list_all (\<lambda>x. x < rl_now s - lc_window_duration cfg) old"
    using assms(1) by (auto simp: window_inv_def)
  obtain d where d: "rl_timestamps s = d @ ?q" "list_all (\<lambda>x. x < cutoff cfg t) d" using evict_split by blast
  have "list_all (\<lambda>x. x < t - lc_window_duration cfg) (old @ d)"
    using o(2) d(2) assms(2) cutoff_recent [OF assms(3)] by (auto simp: list_all_iff)
  moreover have "rl_requests s = (old @ d) @ ?q" using o(1) d(1) by simp
  moreover have "sorted ?q" using assms(1) sorted_evict by (simp add: window_inv_def)
  moreover have "list_all (\<lambda>x. x \<le> rl_now s) ?q" using assms(1) d(1) unfolding window_inv_def by (metis list_all_append)
  then have "list_all (\<lambda>x. x \<le> t) ?q" using assms(2) by (auto simp: list_all_iff)
  ultimately show ?thesis using that by blast
qed

lemma evict_fits:
  assumes "window_inv cfg s" and "rl_now s < t" and "lc_epoch cfg \<le> t - lc_window_duration cfg"
  shows "length (evict (cutoff cfg t) (rl_timestamps s)) \<le> unat (lc_window_max cfg)"
proof (cases "length (rl_timestamps s) \<le> unat (lc_window_max cfg)")
  case True
  then show ?thesis unfolding evict_def using length_dropWhile_le le_trans by blast
next
  case False
  then have f: "length (rl_timestamps s) = Suc (unat (lc_window_max cfg))" "hd (rl_timestamps s) + lc_window_duration cfg \<le> rl_now s"
    using assms(1) by (auto simp: window_inv_def)
  then have "length (evict (cutoff cfg t) (rl_timestamps s)) < length (rl_timestamps s)"
    by (intro evict_first) (use assms(2) cutoff_recent [OF assms(3)] in auto)
  then show ?thesis using f(1) by simp
qed

lemma window_inv_later:
  assumes "window_inv cfg s" and "rl_now s \<le> rl_now s'" and "rl_timestamps s' = rl_timestamps s" "rl_requests s' = rl_requests s"
    and "\<And>j w. rl_task s' j = InWindow w \<Longrightarrow> rl_task s j = InWindow w"
  shows "window_inv cfg s'"
  using assms unfolding window_inv_def by (fastforce simp: list_all_iff)

lemma window_inv_step:
  assumes "window_inv cfg s" and "rl_now s < t" and "lc_epoch cfg \<le> rl_now s - lc_window_duration cfg" and "0 < lc_window_max cfg"
    and "\<forall>j. j \<noteq> i \<longrightarrow> rl_task s j = Outside" and "acquire_step cfg i t s s'"
  shows "window_inv cfg s'"
proof -
  have epoch: "lc_epoch cfg \<le> t - lc_window_duration cfg" using assms(2,3) by simp
  let ?q = "evict (cutoff cfg t) (rl_timestamps s)"
  have le: "rl_now s \<le> t" using assms(2) by simp
  from evict_inv [OF assms(1) le epoch] obtain old where
    q: "rl_requests s = old @ ?q" "list_all (\<lambda>x. x < t - lc_window_duration cfg) old" "sorted ?q" "list_all (\<lambda>x. x \<le> t) ?q" .
  note fits = evict_fits [OF assms(1,2) epoch]
  have ok: "window_ok cfg (rl_requests s)" using assms(1) by (simp add: window_inv_def)
  have m: "0 < unat (lc_window_max cfg)" using assms(4) by (simp add: unat_gt_0 word_gt_0)
  have later: "list_all (\<lambda>x. x \<le> u) ?q" "list_all (\<lambda>x. x < u - lc_window_duration cfg) old" if "t \<le> u" for u
    using q(2,4) that by (auto simp: list_all_iff)
  show ?thesis using assms(6)
  proof (cases rule: acquire_step.cases)
    case burst_lock
    show ?thesis by (rule window_inv_later [OF assms(1)]) (use burst_lock le in \<open>auto split: if_splits\<close>)
  next
    case (burst_pass w)
    show ?thesis by (rule window_inv_later [OF assms(1)]) (use burst_pass le in \<open>auto split: if_splits\<close>)
  next
    case (burst_only w)
    then show ?thesis using assms(4) by simp
  next
    case (window_full t2 w)
    then have w: "length ?q = unat (lc_window_max cfg)" "w = hd ?q + lc_window_duration cfg"
      using fits by (auto simp: window_wait_def Let_def split: if_splits list.splits)
    show ?thesis using q later [OF window_full(4)] ok w assms(5) fits unfolding window_full(1) window_inv_def
      by (auto intro!: exI [of _ old])
  next
    case (window_pass t2 t3)
    have t3: "t \<le> t3" using window_pass(4,5) by simp
    have "hd ?q + lc_window_duration cfg \<le> t3" if "length ?q = unat (lc_window_max cfg)"
      using window_pass(5,6) that m by (cases ?q) (auto simp: window_wait_def Let_def split: if_splits)
    then show ?thesis unfolding window_pass(1)
      using window_push [OF q(3) later(1) [OF t3] q(1) later(2) [OF t3] ok fits assms(4) _ assms(5)] by blast
  next
    case (window_wake w t2)
    have w: "length (rl_timestamps s) = unat (lc_window_max cfg)" "w = hd (rl_timestamps s) + lc_window_duration cfg"
      using assms(1) window_wake(2) by (auto simp: window_inv_def)
    have "hd ?q + lc_window_duration cfg \<le> t2" if "length ?q = unat (lc_window_max cfg)"
    proof -
      have "?q = rl_timestamps s" using evict_split [of "rl_timestamps s" "cutoff cfg t"] that w(1)
        by (metis append_Nil append_eq_append_conv)
      then show ?thesis using w(2) window_wake(4,5) by simp
    qed
    then show ?thesis unfolding window_wake(1)
      using window_push [OF q(3) later(1) [OF window_wake(5)] q(1) later(2) [OF window_wake(5)] ok fits assms(4) _ assms(5)] by blast
  qed
qed


section \<open>The window, several tasks\<close>

definition sample_limiter :: limiter_config where
  "sample_limiter = \<lparr>lc_burst_interval = 1, lc_window_max = 1, lc_window_duration = 10, lc_epoch = - 100\<rparr>"

text \<open>The state after one request, made by task 0 at time 1.\<close>

definition one_request :: "limiter \<Rightarrow> bool" where
  "one_request s \<longleftrightarrow> rl_now s = 1 \<and> rl_next_allowed_at s \<le> 2 \<and> rl_timestamps s = [1] \<and> rl_task s = (\<lambda>_. Outside) \<and> rl_requests s = [1]"

lemma first_request: "\<exists>s. sequential_run sample_limiter (- 2) s \<and> limiter_run sample_limiter (- 2) s \<and> one_request s"
proof -
  define s0 where "s0 = new_limiter (- 2)"
  define s1 where "s1 = s0\<lparr>rl_now := - 1, rl_task := (rl_task s0)(0 := InBurst (burst_wake (rl_next_allowed_at s0) (- 1)))\<rparr>"
  define s2 where "s2 = s1\<lparr>rl_now := 0, rl_next_allowed_at := 0 + lc_burst_interval sample_limiter, rl_passes := rl_passes s1 @ [0],
    rl_task := (rl_task s1)(0 := AtWindow)\<rparr>"
  define s3 where "s3 = s2\<lparr>rl_now := 1, rl_timestamps := evict (cutoff sample_limiter 1) (rl_timestamps s2) @ [1],
    rl_requests := rl_requests s2 @ [1], rl_task := (rl_task s2)(0 := Outside)\<rparr>"
  note defs = s0_def s1_def s2_def s3_def new_limiter_def sample_limiter_def burst_wake_def
  have 1: "acquire_step sample_limiter 0 (- 1) s0 s1" unfolding s1_def by (rule burst_lock) (simp_all add: s0_def new_limiter_def)
  have 2: "acquire_step sample_limiter 0 0 s1 s2" unfolding s2_def
    by (rule burst_pass [of s1 0 "- 1"]) (simp_all add: s0_def s1_def new_limiter_def burst_wake_def sample_limiter_def)
  have 3: "acquire_step sample_limiter 0 1 s2 s3" unfolding s3_def
    by (rule window_pass [of s2 0 1 1 1]) (simp_all add: s0_def s1_def s2_def new_limiter_def window_wait_def evict_def sample_limiter_def)
  have solo: "\<forall>j. j \<noteq> 0 \<longrightarrow> rl_task s0 j = Outside" "\<forall>j. j \<noteq> 0 \<longrightarrow> rl_task s1 j = Outside" "\<forall>j. j \<noteq> 0 \<longrightarrow> rl_task s2 j = Outside"
    by (simp_all add: s0_def s1_def s2_def new_limiter_def)
  have "limiter_run sample_limiter (- 2) s3"
    using limiter_run.step [OF limiter_run.step [OF limiter_run.step [OF limiter_run.start 1 [unfolded s0_def]] 2] 3] .
  moreover have "sequential_run sample_limiter (- 2) s3"
    by (rule seq_step [OF seq_step [OF seq_step [OF seq_start solo(1) [unfolded s0_def] _ 1 [unfolded s0_def]] solo(2) _ 2] solo(3) _ 3])
      (simp_all add: s0_def s1_def s2_def new_limiter_def)
  moreover have "one_request s3" by (simp add: one_request_def defs evict_def fun_upd_def fun_eq_iff)
  ultimately show ?thesis by blast
qed

theorem burst_gate_spacing_witness:
  "\<exists>s. limiter_run sample_limiter (- 2) s \<and> one_request s \<and> spaced 1 (rl_passes s)"
proof -
  obtain s where s: "limiter_run sample_limiter (- 2) s" "one_request s" using first_request by blast
  have "0 \<le> lc_burst_interval sample_limiter" by (simp add: sample_limiter_def)
  from burst_gate_spacing [OF s(1) this] s show ?thesis by (auto simp: sample_limiter_def)
qed


text \<open>A further task passes the burst gate at \<open>u\<close>, finds the window full and goes to sleep until 11.\<close>

lemma blocked_task:
  assumes "limiter_run sample_limiter t0 s" and "rl_task s i = Outside" and "\<forall>j. \<not> holds_burst (rl_task s j)"
    and "rl_now s \<le> u" "rl_next_allowed_at s \<le> u" "u < 11" "rl_timestamps s = [1]"
  shows "\<exists>s'. limiter_run sample_limiter t0 s' \<and> rl_task s' = (rl_task s)(i := InWindow 11) \<and> rl_now s' = u \<and>
    rl_next_allowed_at s' = u + 1 \<and> rl_timestamps s' = [1] \<and> rl_requests s' = rl_requests s"
proof -
  define s1 where "s1 = s\<lparr>rl_now := u, rl_task := (rl_task s)(i := InBurst (burst_wake (rl_next_allowed_at s) u))\<rparr>"
  define s2 where "s2 = s1\<lparr>rl_now := u, rl_next_allowed_at := u + lc_burst_interval sample_limiter, rl_passes := rl_passes s1 @ [u],
    rl_task := (rl_task s1)(i := AtWindow)\<rparr>"
  define s3 where "s3 = s2\<lparr>rl_now := u, rl_timestamps := evict (cutoff sample_limiter u) (rl_timestamps s2),
    rl_task := (rl_task s2)(i := InWindow 11)\<rparr>"
  have e: "evict (cutoff sample_limiter u) [1] = [1]"
    using assms(6) by (auto simp: evict_def cutoff_def checked_sub_def sample_limiter_def unwrap_or_def)
  have 1: "acquire_step sample_limiter i u s s1" unfolding s1_def by (rule burst_lock) (use assms in auto)
  have 2: "acquire_step sample_limiter i u s1 s2" unfolding s2_def
    by (rule burst_pass [of s1 i u]) (use assms(5) in \<open>simp_all add: s1_def burst_wake_def sample_limiter_def\<close>)
  have 3: "acquire_step sample_limiter i u s2 s3" unfolding s3_def
    by (rule acquire_step.window_full [of s2 i u u sample_limiter 11])
      (use assms(6,7) e in \<open>simp_all add: s1_def s2_def window_wait_def, simp add: sample_limiter_def\<close>)
  have "limiter_run sample_limiter t0 s3" using limiter_run.step [OF limiter_run.step [OF limiter_run.step [OF assms(1) 1] 2] 3] .
  then show ?thesis using e assms(7) by (intro exI [of _ s3]) (simp add: s3_def s2_def s1_def sample_limiter_def)
qed

lemma woken_task:
  assumes "limiter_run cfg t0 s" and "rl_task s i = InWindow w" and "rl_now s \<le> t" "w \<le> t"
  shows "\<exists>s'. limiter_run cfg t0 s' \<and> rl_task s' = (rl_task s)(i := Outside) \<and> rl_now s' = t \<and> rl_requests s' = rl_requests s @ [t]"
  using limiter_run.step [OF assms(1) window_wake [OF assms(2-4) order_refl]] by (intro exI conjI) (assumption, simp_all)

text \<open>
  (C16) With several tasks neither limit holds for the requests themselves: two tasks that find the window full
  sleep without the lock until the same instant and then both return without checking again, although
  at most one request is allowed in the window and requests are to be one unit apart.
\<close>

theorem window_limit_violated:
  "\<exists>s. limiter_run sample_limiter (- 2) s \<and> rl_requests s = [1, 12, 12] \<and>
     \<not> window_ok sample_limiter (rl_requests s) \<and> \<not> spaced (lc_burst_interval sample_limiter) (rl_requests s)"
proof -
  obtain s where s: "limiter_run sample_limiter (- 2) s" "rl_now s = 1" "rl_next_allowed_at s \<le> 2" "rl_timestamps s = [1]"
    "rl_task s = (\<lambda>_. Outside)" "rl_requests s = [1]" using first_request by (auto simp: one_request_def)
  obtain s1 where s1: "limiter_run sample_limiter (- 2) s1" "rl_task s1 = (rl_task s)(1 := InWindow 11)" "rl_now s1 = 2"
    "rl_next_allowed_at s1 = 3" "rl_timestamps s1 = [1]" "rl_requests s1 = [1]"
    using blocked_task [OF s(1), of 1 2] s by auto
  have free: "\<forall>j. \<not> holds_burst (rl_task s1 j)" unfolding s1(2) s(5) by (simp add: fun_upd_def)
  obtain s2 where s2: "limiter_run sample_limiter (- 2) s2" "rl_task s2 = (rl_task s1)(2 := InWindow 11)" "rl_now s2 = 3" "rl_requests s2 = [1]"
    using blocked_task [OF s1(1) _ free, of 2 3] s1 s(5) by auto
  obtain s3 where s3: "limiter_run sample_limiter (- 2) s3" "rl_task s3 = (rl_task s2)(1 := Outside)" "rl_now s3 = 12" "rl_requests s3 = [1, 12]"
    using woken_task [OF s2(1), of 1 11 12] s2 s1(2) by auto
  obtain s4 where s4: "limiter_run sample_limiter (- 2) s4" "rl_requests s4 = [1, 12, 12]"
    using woken_task [OF s3(1), of 2 11 12] s3 s2(2) by auto
  have "\<not> window_ok sample_limiter [1, 12, 12]"
    unfolding window_ok_def by (simp, intro exI [of _ "[1, 12]"] exI [of _ 12] exI [of _ "[]"]) (simp add: sample_limiter_def)
  moreover have "\<not> spaced (lc_burst_interval sample_limiter) [1, 12, 12]" by (simp add: spaced_def sample_limiter_def)
  ultimately show ?thesis using s4 by (intro exI [of _ s4]) simp
qed

end
