(* ===== verification/Security_Sync.thy ===== *)
theory Security_Sync
  imports Worker Advisories
begin

text \<open>
  The advisory synchronisation: \<open>mcp/indexing/security.rs\<close> and \<open>mcp/indexing/security_sync.rs\<close> with the
  \<open>advisory_matches\<close> statements of \<open>db/indexing.rs\<close>.  The OSV and GitHub responses, the advisory-db
  files, the TOML parser and the outcome of every SQL statement are fields of the environment.
\<close>

section \<open>Upstream documents\<close>

record osv_range_event =
  oe_introduced :: "string option"
  oe_fixed :: "string option"
  oe_last_affected :: "string option"
  oe_limit :: "string option"

record osv_source_range =
  or_range_type :: string
  or_events :: "osv_range_event list"

record osv_affected =
  oa_package :: "(string \<times> string) option"
  oa_versions :: "string list"
  oa_ranges :: "osv_source_range list"
  oa_functions :: "string list option"

record osv_severity =
  ov_severity_type :: "string option"
  ov_score :: "string option"

record osv_database_specific =
  od_severity :: "string option"
  od_cwe_ids :: "string list"

record osv_vulnerability =
  vu_id :: string
  vu_withdrawn :: "string option"
  vu_summary :: "string option"
  vu_details :: "string option"
  vu_aliases :: "string list"
  vu_affected :: "osv_affected list"
  vu_references :: "string list"
  vu_severity :: "osv_severity list"
  vu_database_specific :: "osv_database_specific option"

record github_advisory_vulnerability =
  gv_package :: "(string option \<times> string option) option"
  gv_vulnerable_version_range :: "string option"
  gv_first_patched_version :: "string option option"

record github_advisory =
  gh_ghsa_id :: string
  gh_withdrawn_at :: "string option"
  gh_summary :: "string option"
  gh_description :: "string option"
  gh_severity :: "string option"
  gh_html_url :: "string option"
  gh_vulnerabilities :: "github_advisory_vulnerability list"
  gh_cwes :: "string option list"

record rustsec_frontmatter =
  rs_id :: "string option"
  rs_package :: "string option"
  rs_title :: "string option"
  rs_description :: "string option"
  rs_url :: "string option"
  rs_cvss :: "string option"
  rs_withdrawn :: "string option"
  rs_aliases :: "string list"
  rs_categories :: "string list"
  rs_patched :: "string list"
  rs_unaffected :: "string list"
  rs_functions :: "(string \<times> string list) list"

section \<open>Rendering\<close>

definition event_values :: "osv_range_event \<Rightarrow> string option list" where
  "event_values e = [oe_introduced e, oe_fixed e, oe_last_affected e, oe_limit e]"

definition event_texts :: "osv_range_event \<Rightarrow> string list" where
  "event_texts e =
     (case oe_introduced e of None \<Rightarrow> [] | Some v \<Rightarrow> [''introduced='' @ v]) @
     (case oe_fixed e of None \<Rightarrow> [] | Some v \<Rightarrow> [''fixed='' @ v]) @
     (case oe_last_affected e of None \<Rightarrow> [] | Some v \<Rightarrow> [''last_affected='' @ v]) @
     (case oe_limit e of None \<Rightarrow> [] | Some v \<Rightarrow> [''limit='' @ v])"

fun range_parts :: "osv_range_event list \<Rightarrow> string list \<Rightarrow> string list \<times> string list" where
  "range_parts [] parts = ([], parts)"
| "range_parts (e # es) parts =
     (if length (filter (\<lambda>x. x \<noteq> None) (event_values e)) \<noteq> 1 then ([''osv_invalid_event''], [])
      else range_parts es (parts @ event_texts e))"

definition range_texts :: "osv_source_range \<Rightarrow> string list" where
  "range_texts r =
     (let (invalid, parts) = range_parts (or_events r) []
      in invalid @ [if parts = [] then or_range_type r else or_range_type r @ ''('' @ join '','' parts @ '')''])"

definition affected_range_text :: "osv_affected list \<Rightarrow> string" where
  "affected_range_text affected =
     (let ranges = concat (map (\<lambda>item. concat (map range_texts (oa_ranges item))) affected)
      in if ranges = [] then ''osv_affected_unknown'' else join ''; '' ranges)"

definition fixed_versions :: "osv_affected list \<Rightarrow> json" where
  "fixed_versions affected =
     JArray (map JString (sort_dedup (List.map_filter oe_fixed
       (concat (map (\<lambda>item. concat (map or_events (oa_ranges item))) affected)))))"

definition first_rustsec_alias :: "string list \<Rightarrow> string option" where
  "first_rustsec_alias aliases = find (starts_with ''RUSTSEC-'') aliases"

definition advisory_identity :: "osv_vulnerability \<Rightarrow> string \<times> string" where
  "advisory_identity vuln =
     (if starts_with ''RUSTSEC-'' (vu_id vuln) then (vu_id vuln, ''rustsec_osv'')
      else (case (vu_withdrawn vuln, first_rustsec_alias (vu_aliases vuln)) of
              (None, Some rustsec_id) \<Rightarrow> (rustsec_id, ''rustsec_osv'')
            | _ \<Rightarrow> (vu_id vuln, ''osv'')))"

text \<open>
  \<open>extract_first_float\<close>: the first run of digits and dots, parsed as \<open>f64\<close>.  The value is kept as the
  decimal \<open>m / 10 ^ k\<close>; the comparisons below are those of the nearest \<open>f64\<close> (a decimal within half a
  unit in the last place below the bound rounds up to it, a positive one not above \<open>2 ^ - 1075\<close> to 0).
\<close>

definition is_ascii_digit :: "char \<Rightarrow> bool" where
  "is_ascii_digit c \<longleftrightarrow> 48 \<le> (of_char c :: nat) \<and> (of_char c :: nat) \<le> 57"

definition float_token :: "string \<Rightarrow> string" where
  "float_token text =
     takeWhile (\<lambda>c. is_ascii_digit c \<or> c = CHR ''.'') (dropWhile (\<lambda>c. \<not> (is_ascii_digit c \<or> c = CHR ''.'')) text)"

definition digits_value :: "string \<Rightarrow> nat" where
  "digits_value s = fold (\<lambda>c n. 10 * n + (of_char c - 48)) s 0"

definition parse_f64 :: "string \<Rightarrow> (nat \<times> nat) option" where
  "parse_f64 token =
     (case split_on ''.'' token of
        [w] \<Rightarrow> if w = [] then None else Some (digits_value w, 0)
      | [w, f] \<Rightarrow> if w = [] \<and> f = [] then None else Some (digits_value (w @ f), length f)
      | _ \<Rightarrow> None)"

definition extract_first_float :: "string \<Rightarrow> (nat \<times> nat) option" where
  "extract_first_float text = (let token = float_token text in if token = [] then None else parse_f64 token)"

definition severity_of_score :: "nat \<times> nat \<Rightarrow> string" where
  "severity_of_score score =
     (let (m, k) = score
      in if m * 2 ^ 50 \<ge> (9 * 2 ^ 50 - 1) * 10 ^ k then ''critical''
         else if m * 2 ^ 51 \<ge> (7 * 2 ^ 51 - 1) * 10 ^ k then ''high''
         else if m * 2 ^ 52 \<ge> (4 * 2 ^ 52 - 1) * 10 ^ k then ''medium''
         else if m * 2 ^ 1075 > 10 ^ k then ''low''
         else ''unknown'')"

fun severity_loop :: "osv_severity list \<Rightarrow> string option" where
  "severity_loop [] = None"
| "severity_loop (item # rest) =
     (case Option.bind (ov_score item) extract_first_float of
        Some score \<Rightarrow> Some (severity_of_score score)
      | None \<Rightarrow>
          (case map_option to_ascii_lowercase (ov_severity_type item) of
             None \<Rightarrow> severity_loop rest
           | Some kind \<Rightarrow>
               if list_ex (\<lambda>w. contains w kind) [''critical'', ''high'', ''medium'', ''low'']
               then Some kind else severity_loop rest))"

definition normalize_severity_label :: "osv_severity list \<Rightarrow> osv_database_specific option \<Rightarrow> string option" where
  "normalize_severity_label severity database_specific =
     (case map_option to_ascii_lowercase (Option.bind database_specific od_severity) of
        Some lower \<Rightarrow>
          if lower \<in> set [''critical'', ''high'', ''medium'', ''low'', ''unknown''] then Some lower
          else severity_loop severity
      | None \<Rightarrow> severity_loop severity)"

definition collect_affected_functions :: "osv_affected list \<Rightarrow> string list" where
  "collect_affected_functions affected =
     sort (fold (\<lambda>f fs. if f \<in> set fs then fs else fs @ [f])
       (concat (map (\<lambda>item. unwrap_or (oa_functions item) []) affected)) [])"

definition split_toml_frontmatter :: "string \<Rightarrow> (string \<times> string) option" where
  "split_toml_frontmatter markdown =
     (if markdown = [] then None
      else let first = trim (takeWhile (\<lambda>c. c \<noteq> CHR 0x0A) markdown)
           in if first \<noteq> ''+++'' \<and> first \<noteq> ''---'' then None
              else (case split_once [CHR 0x0A] markdown of
                      None \<Rightarrow> None
                    | Some (_, tail) \<Rightarrow> split_once ([CHR 0x0A] @ first @ [CHR 0x0A]) tail))"

definition heading_title :: "string \<Rightarrow> string option" where
  "heading_title line =
     (if starts_with ''#'' line
      then (let title = trim (dropWhile (\<lambda>c. c = CHR ''#'') line) in if title = [] then None else Some title)
      else None)"

fun find_map :: "('a \<Rightarrow> 'b option) \<Rightarrow> 'a list \<Rightarrow> 'b option" where
  "find_map f [] = None"
| "find_map f (x # xs) = (case f x of Some y \<Rightarrow> Some y | None \<Rightarrow> find_map f xs)"

definition rustsec_title_from_body :: "string \<Rightarrow> string option" where
  "rustsec_title_from_body body = find_map (\<lambda>l. heading_title (trim l)) (split_on [CHR 0x0A] body)"

section \<open>The \<open>advisory_matches\<close> statements\<close>

record advisory_insert =
  ai_advisory_id :: string
  ai_severity :: "string option"
  ai_title :: string
  ai_url :: "string option"
  ai_affected_range :: string
  ai_fixed_versions :: json
  ai_source :: string
  ai_details :: "string option"
  ai_affected_functions :: "string list"
  ai_cwe_ids :: "string list"

definition advisory_row :: "nat \<Rightarrow> nat option \<Rightarrow> advisory_insert \<Rightarrow> crate_advisory_row" where
  "advisory_row crate_id version_id a =
     \<lparr>car_crate_id = int crate_id, car_requires_resync = False, car_version_id = map_option int version_id,
      car_advisory_id = ai_advisory_id a, car_title = ai_title a, car_severity = ai_severity a, car_url = ai_url a,
      car_affected_range = ai_affected_range a, car_fixed_versions = ai_fixed_versions a, car_source = ai_source a,
      car_details = ai_details a, car_affected_functions = ai_affected_functions a, car_cwe_ids = ai_cwe_ids a\<rparr>"

text \<open>The unique key \<open>advisory_matches_source_key\<close> (\<open>NULLS NOT DISTINCT\<close>).\<close>

definition source_key :: "crate_advisory_row \<Rightarrow> int \<times> int option \<times> string \<times> string" where
  "source_key r = (car_crate_id r, car_version_id r, car_advisory_id r, car_source r)"

definition upsert_row :: "crate_advisory_row \<Rightarrow> crate_advisory_row list \<Rightarrow> crate_advisory_row list" where
  "upsert_row r rows =
     (if source_key r \<in> source_key ` set rows then map (\<lambda>r'. if source_key r' = source_key r then r else r') rows
      else rows @ [r])"

definition upsert_version_advisory_match ::
  "nat \<Rightarrow> nat \<Rightarrow> advisory_insert \<Rightarrow> crate_advisory_row list \<Rightarrow> crate_advisory_row list" where
  "upsert_version_advisory_match crate_id version_id a = upsert_row (advisory_row crate_id (Some version_id) a)"

definition insert_crate_level_advisory_match ::
  "nat \<Rightarrow> advisory_insert \<Rightarrow> crate_advisory_row list \<Rightarrow> crate_advisory_row list" where
  "insert_crate_level_advisory_match crate_id a = upsert_row (advisory_row crate_id None a)"

definition delete_sources :: "string list \<Rightarrow> nat \<Rightarrow> crate_advisory_row list \<Rightarrow> crate_advisory_row list" where
  "delete_sources sources crate_id rows =
     filter (\<lambda>r. \<not> (car_crate_id r = int crate_id \<and> car_source r \<in> set sources)) rows"

definition clear_osv_advisory_matches :: "nat \<Rightarrow> crate_advisory_row list \<Rightarrow> crate_advisory_row list" where
  "clear_osv_advisory_matches = delete_sources [''osv'', ''rustsec_osv'']"

definition clear_rustsec_db_advisory_matches :: "nat \<Rightarrow> crate_advisory_row list \<Rightarrow> crate_advisory_row list" where
  "clear_rustsec_db_advisory_matches = delete_sources [''rustsec_db'']"

definition clear_ghsa_advisory_matches :: "nat \<Rightarrow> crate_advisory_row list \<Rightarrow> crate_advisory_row list" where
  "clear_ghsa_advisory_matches = delete_sources [''ghsa'']"

definition fetch_security_versions_for_crate :: "crate_store \<Rightarrow> nat \<Rightarrow> (nat \<times> string) list" where
  "fetch_security_versions_for_crate st crate_id =
     map (\<lambda>v. (cv_id v, cv_version v)) (filter (\<lambda>v. vr_crate_id v = crate_id) (st_versions st))"

section \<open>Evidence from the three sources\<close>

record security_crate_row =
  sc_id :: nat
  sc_name :: string

text \<open>A row to be written: the text that names the advisory in error messages, the version or none, the values.\<close>

record advisory_write =
  aw_label :: string
  aw_version :: "(nat \<times> string) option"
  aw_insert :: advisory_insert

definition writes_for :: "string \<Rightarrow> advisory_insert \<Rightarrow> (nat \<times> string) list \<Rightarrow> advisory_write list" where
  "writes_for label a matched =
     (if matched = [] then [\<lparr>aw_label = label, aw_version = None, aw_insert = a\<rparr>]
      else map (\<lambda>v. \<lparr>aw_label = label, aw_version = Some v, aw_insert = a\<rparr>) matched)"

definition osv_package_matches :: "string \<Rightarrow> osv_affected \<Rightarrow> bool" where
  "osv_package_matches crate_name a =
     (case oa_package a of
        None \<Rightarrow> False
      | Some (ecosystem, name) \<Rightarrow> ecosystem = ''crates.io'' \<and> (name = crate_name \<or> name = ''*''))"

definition osv_insert :: "osv_vulnerability \<Rightarrow> osv_affected list \<Rightarrow> advisory_insert" where
  "osv_insert vuln affected =
     (let (advisory_id, advisory_source) = advisory_identity vuln
      in \<lparr>ai_advisory_id = advisory_id,
          ai_severity = normalize_severity_label (vu_severity vuln) (vu_database_specific vuln),
          ai_title = (case vu_summary vuln of
                        Some s \<Rightarrow> s
                      | None \<Rightarrow> (case vu_aliases vuln of a # _ \<Rightarrow> a | [] \<Rightarrow> vu_id vuln)),
          ai_url = (case vu_references vuln of [] \<Rightarrow> None | u # _ \<Rightarrow> Some u),
          ai_affected_range = (case vu_withdrawn vuln of
                                 Some date \<Rightarrow> ''withdrawn='' @ date
                               | None \<Rightarrow> affected_range_text affected),
          ai_fixed_versions = fixed_versions affected, ai_source = advisory_source,
          ai_details = vu_details vuln, ai_affected_functions = collect_affected_functions affected,
          ai_cwe_ids = (case vu_database_specific vuln of None \<Rightarrow> [] | Some db \<Rightarrow> od_cwe_ids db)\<rparr>)"

definition osv_writes :: "string \<Rightarrow> (nat \<times> string) list \<Rightarrow> osv_vulnerability \<Rightarrow> advisory_write list" where
  "osv_writes crate_name version_rows vuln =
     (let scoped = filter (osv_package_matches crate_name) (vu_affected vuln);
          affected = (if vu_withdrawn vuln \<noteq> None then [] else scoped);
          version_map = map (\<lambda>(i, v). (v, i)) (rev version_rows)
      in if vu_withdrawn vuln = None \<and> affected = [] then []
         else writes_for (''advisory '' @ vu_id vuln) (osv_insert vuln affected)
                (List.map_filter (\<lambda>v. map_option (\<lambda>i. (i, v)) (map_of version_map v)) (concat (map oa_versions affected))))"

definition rustsec_range :: "rustsec_frontmatter \<Rightarrow> string" where
  "rustsec_range p =
     join ''; '' (filter (\<lambda>s. s \<noteq> [])
       [if rs_patched p = [] then [] else ''patched='' @ join '' | '' (rs_patched p),
        if rs_unaffected p = [] then [] else ''unaffected='' @ join '' | '' (rs_unaffected p),
        (case rs_withdrawn p of None \<Rightarrow> [] | Some x \<Rightarrow> ''withdrawn='' @ x),
        if rs_categories p = [] then [] else ''categories='' @ join ''|'' (rs_categories p)])"

definition rustsec_insert :: "string \<Rightarrow> string \<Rightarrow> rustsec_frontmatter \<Rightarrow> advisory_insert" where
  "rustsec_insert advisory_id body p =
     \<lparr>ai_advisory_id = advisory_id,
      ai_severity = map_option severity_of_score (Option.bind (rs_cvss p) extract_first_float),
      ai_title = (case rs_title p of
                    Some s \<Rightarrow> s
                  | None \<Rightarrow> (case rustsec_title_from_body body of
                               Some s \<Rightarrow> s | None \<Rightarrow> unwrap_or (rs_description p) advisory_id)),
      ai_url = (case rs_url p of Some u \<Rightarrow> Some u | None \<Rightarrow> find (starts_with ''https://'') (rs_aliases p)),
      ai_affected_range = rustsec_range p, ai_fixed_versions = JArray (map JString (rs_patched p)),
      ai_source = ''rustsec_db'', ai_details = (if trim body = [] then rs_description p else Some (trim body)),
      ai_affected_functions = sort (map fst (rs_functions p)), ai_cwe_ids = []\<rparr>"

definition rustsec_writes ::
  "('v::linorder, 'r) semver_api \<Rightarrow> string \<Rightarrow> (nat \<times> string) list \<Rightarrow> string \<Rightarrow> string \<Rightarrow> rustsec_frontmatter \<Rightarrow> advisory_write list" where
  "rustsec_writes sv crate_name version_rows advisory_id body p =
     (if rs_package p \<noteq> None \<and> rs_package p \<noteq> Some crate_name then []
      else writes_for (''RustSec advisory '' @ advisory_id) (rustsec_insert advisory_id body p)
             (filter (\<lambda>(i, v). range_applicability sv ''rustsec_db'' (rustsec_range p) v = Affected) version_rows))"

record advisory_file =
  af_display :: string
  af_stem :: "string option"
  af_content :: "string result"

definition rustsec_file ::
  "('v::linorder, 'r) semver_api \<Rightarrow> (string \<Rightarrow> rustsec_frontmatter result) \<Rightarrow> string \<Rightarrow> (nat \<times> string) list \<Rightarrow> advisory_file \<Rightarrow>
   advisory_write list result" where
  "rustsec_file sv toml crate_name version_rows file =
     (case af_content file of
        Inl e \<Rightarrow> Inl (''failed reading advisory file '' @ af_display file @ '': '' @ e)
      | Inr raw \<Rightarrow>
          (case split_toml_frontmatter raw of
             None \<Rightarrow> Inl (''missing TOML frontmatter in '' @ af_display file)
           | Some (frontmatter, body) \<Rightarrow>
               (case toml frontmatter of
                  Inl e \<Rightarrow> Inl (''failed parsing TOML frontmatter in '' @ af_display file @ '': '' @ e)
                | Inr p \<Rightarrow>
                    (let advisory_id = (case rs_id p of
                           Some i \<Rightarrow> i | None \<Rightarrow> unwrap_or (af_stem file) ''RUSTSEC-UNKNOWN'')
                     in Inr (rustsec_writes sv crate_name version_rows advisory_id body p)))))"

definition ghsa_scoped :: "string \<Rightarrow> github_advisory \<Rightarrow> github_advisory_vulnerability list" where
  "ghsa_scoped crate_name a =
     filter (\<lambda>v. gv_package v = Some (Some ''rust'', Some crate_name)) (gh_vulnerabilities a)"

definition ghsa_range_text :: "string \<Rightarrow> github_advisory \<Rightarrow> string" where
  "ghsa_range_text crate_name a =
     (case gh_withdrawn_at a of
        Some date \<Rightarrow> ''withdrawn='' @ date
      | None \<Rightarrow> join '' || '' (map (\<lambda>v. unwrap_or (gv_vulnerable_version_range v) ''unknown'') (ghsa_scoped crate_name a)))"

definition ghsa_writes ::
  "('v::linorder, 'r) semver_api \<Rightarrow> string \<Rightarrow> (nat \<times> string) list \<Rightarrow> github_advisory \<Rightarrow> advisory_write list" where
  "ghsa_writes sv crate_name version_rows a =
     (let crate_vulns = ghsa_scoped crate_name a; affected_range = ghsa_range_text crate_name a
      in if crate_vulns = [] \<and> gh_withdrawn_at a = None then []
         else writes_for (''GHSA '' @ gh_ghsa_id a)
                \<lparr>ai_advisory_id = gh_ghsa_id a, ai_severity = map_option to_ascii_lowercase (gh_severity a),
                 ai_title = unwrap_or (gh_summary a) (gh_ghsa_id a), ai_url = gh_html_url a,
                 ai_affected_range = affected_range,
                 ai_fixed_versions = JArray (map JString (List.map_filter (\<lambda>v. Option.bind (gv_first_patched_version v) id) crate_vulns)),
                 ai_source = ''ghsa'', ai_details = gh_description a, ai_affected_functions = [],
                 ai_cwe_ids = List.map_filter id (gh_cwes a)\<rparr>
                (filter (\<lambda>(i, v). ghsa_version_in_range sv v affected_range) version_rows))"

section \<open>Synchronising one crate\<close>

datatype security_statement =
    LoadVersions | BeginTx | ClearMatches | WriteMatch advisory_write | CommitTx | InvalidateCache

record security_state =
  ss_rows :: "crate_advisory_row list"
  ss_cache :: query_cache

record security_env =
  se_store :: crate_store
  se_query_crate :: "string \<Rightarrow> osv_vulnerability list result"
  se_fetch_advisories :: "string \<Rightarrow> github_advisory list result"
  se_rustsec_db_dir :: bool
  se_rustsec_crates_dir :: bool
  se_advisory_markdown_files :: "string \<Rightarrow> advisory_file list"
  se_toml :: "string \<Rightarrow> rustsec_frontmatter result"
  se_db_error :: "string \<Rightarrow> string \<Rightarrow> security_statement \<Rightarrow> string option"

definition write_error :: "string \<Rightarrow> advisory_write \<Rightarrow> string \<Rightarrow> string" where
  "write_error crate_name w e =
     (case aw_version w of
        Some (_, v) \<Rightarrow> ''failed to upsert '' @ aw_label w @ '' for '' @ crate_name @ ''@'' @ v @ '': '' @ e
      | None \<Rightarrow> ''failed to insert crate-level '' @ aw_label w @ '' for '' @ crate_name @ '': '' @ e)"

definition apply_write :: "nat \<Rightarrow> advisory_write \<Rightarrow> crate_advisory_row list \<Rightarrow> crate_advisory_row list" where
  "apply_write crate_id w =
     (case aw_version w of
        Some (version_id, _) \<Rightarrow> upsert_version_advisory_match crate_id version_id (aw_insert w)
      | None \<Rightarrow> insert_crate_level_advisory_match crate_id (aw_insert w))"

fun write_all ::
  "(advisory_write \<Rightarrow> string option) \<Rightarrow> security_crate_row \<Rightarrow> advisory_write list \<Rightarrow> crate_advisory_row list \<Rightarrow>
   crate_advisory_row list result" where
  "write_all fails krate [] rows = Inr rows"
| "write_all fails krate (w # ws) rows =
     (case fails w of
        Some e \<Rightarrow> Inl (write_error (sc_name krate) w e)
      | None \<Rightarrow> write_all fails krate ws (apply_write (sc_id krate) w rows))"

text \<open>Begin, clear, write: the part of the transaction before its commit.\<close>

definition in_transaction ::
  "(security_statement \<Rightarrow> string option) \<Rightarrow> string \<Rightarrow> (nat \<Rightarrow> crate_advisory_row list \<Rightarrow> crate_advisory_row list) \<Rightarrow>
   security_crate_row \<Rightarrow> advisory_write list \<Rightarrow> crate_advisory_row list \<Rightarrow> crate_advisory_row list result" where
  "in_transaction err label clear krate writes rows =
     (case err BeginTx of
        Some e \<Rightarrow> Inl e
      | None \<Rightarrow>
          (case err ClearMatches of
             Some e \<Rightarrow> Inl (''failed to clear '' @ label @ '' advisories for '' @ sc_name krate @ '': '' @ e)
           | None \<Rightarrow> write_all (\<lambda>w. err (WriteMatch w)) krate writes (clear (sc_id krate) rows)))"

definition commit_crate ::
  "(security_statement \<Rightarrow> string option) \<Rightarrow> security_crate_row \<Rightarrow> crate_advisory_row list \<Rightarrow> nat \<Rightarrow>
   security_sync_outcome \<Rightarrow> security_state \<Rightarrow> security_sync_outcome result \<times> security_state" where
  "commit_crate err krate rows written out st =
     (case err CommitTx of
        Some e \<Rightarrow> (Inl e, st)
      | None \<Rightarrow>
          (case query_cache_invalidate_crate (err InvalidateCache) (ss_cache st) (sc_name krate) of
             (Inl e, c) \<Rightarrow> (Inl e, st\<lparr>ss_rows := rows, ss_cache := c\<rparr>)
           | (Inr _, c) \<Rightarrow>
               (Inr (out\<lparr>so_advisories_written := so_advisories_written out + written,
                         so_checked_crate_ids := so_checked_crate_ids out @ [sc_id krate]\<rparr>),
                st\<lparr>ss_rows := rows, ss_cache := c\<rparr>)))"

definition processed :: "security_crate_row \<Rightarrow> security_sync_outcome \<Rightarrow> security_sync_outcome" where
  "processed krate out =
     out\<lparr>so_crates_processed := Suc (so_crates_processed out), so_touched_crates := so_touched_crates out @ [sc_name krate]\<rparr>"

definition push_error :: "string \<Rightarrow> security_sync_outcome \<Rightarrow> security_sync_outcome" where
  "push_error e out = out\<lparr>so_errors := so_errors out @ [e]\<rparr>"

definition load_versions_error :: "security_crate_row \<Rightarrow> string \<Rightarrow> string" where
  "load_versions_error krate e = ''failed to load versions for '' @ sc_name krate @ '': '' @ e"

definition sync_osv_crate ::
  "security_env \<Rightarrow> security_crate_row \<Rightarrow> security_sync_outcome \<Rightarrow> security_state \<Rightarrow> security_sync_outcome result \<times> security_state" where
  "sync_osv_crate env krate out st =
     (let err = se_db_error env ''osv'' (sc_name krate); version_rows = fetch_security_versions_for_crate (se_store env) (sc_id krate)
      in case err LoadVersions of
           Some e \<Rightarrow> (Inl (load_versions_error krate e), st)
         | None \<Rightarrow>
             (case se_query_crate env (sc_name krate) of
                Inl e \<Rightarrow> (Inr (push_error e out), st)
              | Inr vulns \<Rightarrow>
                  (let writes = concat (map (osv_writes (sc_name krate) version_rows) vulns)
                   in case in_transaction err ''OSV'' clear_osv_advisory_matches krate writes (ss_rows st) of
                        Inl e \<Rightarrow> (Inl e, st)
                      | Inr rows \<Rightarrow> commit_crate err krate rows (length writes) (processed krate out) st)))"

definition sync_ghsa_crate ::
  "('v::linorder, 'r) semver_api \<Rightarrow> security_env \<Rightarrow> security_crate_row \<Rightarrow> security_sync_outcome \<Rightarrow> security_state \<Rightarrow>
   security_sync_outcome result \<times> security_state" where
  "sync_ghsa_crate sv env krate out st =
     (let err = se_db_error env ''ghsa'' (sc_name krate); version_rows = fetch_security_versions_for_crate (se_store env) (sc_id krate)
      in case se_fetch_advisories env (sc_name krate) of
           Inl e \<Rightarrow> (Inr (push_error e out), st)
         | Inr advisories \<Rightarrow>
             (case err LoadVersions of
                Some e \<Rightarrow> (Inl (load_versions_error krate e), st)
              | None \<Rightarrow>
                  (let writes = concat (map (ghsa_writes sv (sc_name krate) version_rows) advisories)
                   in case in_transaction err ''GHSA'' clear_ghsa_advisory_matches krate writes (ss_rows st) of
                        Inl e \<Rightarrow> (Inl e, st)
                      | Inr rows \<Rightarrow> commit_crate err krate rows (length writes) (processed krate out) st)))"

definition file_errors :: "advisory_write list result list \<Rightarrow> string list" where
  "file_errors results = List.map_filter (\<lambda>r. case r of Inl e \<Rightarrow> Some e | Inr _ \<Rightarrow> None) results"

definition file_writes :: "advisory_write list result list \<Rightarrow> advisory_write list" where
  "file_writes results = concat (map (\<lambda>r. case r of Inl _ \<Rightarrow> [] | Inr ws \<Rightarrow> ws) results)"

definition sync_rustsec_crate ::
  "('v::linorder, 'r) semver_api \<Rightarrow> security_env \<Rightarrow> security_crate_row \<Rightarrow> security_sync_outcome \<Rightarrow> security_state \<Rightarrow>
   security_sync_outcome result \<times> security_state" where
  "sync_rustsec_crate sv env krate out st =
     (let err = se_db_error env ''rustsec_db'' (sc_name krate); version_rows = fetch_security_versions_for_crate (se_store env) (sc_id krate)
      in case err LoadVersions of
           Some e \<Rightarrow> (Inl (load_versions_error krate e), st)
         | None \<Rightarrow>
             (let results = map (rustsec_file sv (se_toml env) (sc_name krate) version_rows)
                              (se_advisory_markdown_files env (sc_name krate));
                  writes = file_writes results; errors = file_errors results
              in case in_transaction err ''RustSec'' clear_rustsec_db_advisory_matches krate writes (ss_rows st) of
                   Inl e \<Rightarrow> (Inl e, st)
                 | Inr rows \<Rightarrow>
                     if errors \<noteq> []
                     then (Inr ((processed krate out)\<lparr>so_errors := so_errors out @ errors\<rparr>), st)
                     else commit_crate err krate rows (length writes) (processed krate out) st))"

section \<open>Synchronising a batch\<close>

fun sync_loop ::
  "(security_crate_row \<Rightarrow> security_sync_outcome \<Rightarrow> security_state \<Rightarrow> security_sync_outcome result \<times> security_state) \<Rightarrow>
   security_crate_row list \<Rightarrow> security_sync_outcome \<Rightarrow> security_state \<Rightarrow> security_sync_outcome result \<times> security_state" where
  "sync_loop step [] out st = (Inr out, st)"
| "sync_loop step (krate # crates) out st =
     (case step krate out st of
        (Inl e, st') \<Rightarrow> (Inl e, st')
      | (Inr out', st') \<Rightarrow> sync_loop step crates out' st')"

definition empty_outcome :: security_sync_outcome where
  "empty_outcome = \<lparr>so_crates_processed = 0, so_advisories_written = 0, so_errors = [], so_touched_crates = [],
     so_checked_crate_ids = []\<rparr>"

definition sync_osv_security ::
  "security_env \<Rightarrow> security_crate_row list \<Rightarrow> security_state \<Rightarrow> security_sync_outcome result \<times> security_state" where
  "sync_osv_security env crates st = sync_loop (sync_osv_crate env) crates empty_outcome st"

definition sync_ghsa_security ::
  "('v::linorder, 'r) semver_api \<Rightarrow> security_env \<Rightarrow> security_crate_row list \<Rightarrow> security_state \<Rightarrow>
   security_sync_outcome result \<times> security_state" where
  "sync_ghsa_security sv env crates st = sync_loop (sync_ghsa_crate sv env) crates empty_outcome st"

definition sync_rustsec_db_security ::
  "('v::linorder, 'r) semver_api \<Rightarrow> security_env \<Rightarrow> security_crate_row list \<Rightarrow> security_state \<Rightarrow>
   security_sync_outcome result \<times> security_state" where
  "sync_rustsec_db_security sv env crates st =
     (if \<not> se_rustsec_db_dir env then (Inr empty_outcome, st)
      else if \<not> se_rustsec_crates_dir env then (Inl ''RustSec database is unavailable: missing crates directory'', st)
      else (case sync_loop (sync_rustsec_crate sv env) crates empty_outcome st of
              (Inl e, st') \<Rightarrow> (Inl e, st')
            | (Inr out, st') \<Rightarrow> (Inr (out\<lparr>so_touched_crates := sort_dedup (so_touched_crates out)\<rparr>), st')))"

definition merge_outcome :: "security_sync_outcome \<Rightarrow> security_sync_outcome \<Rightarrow> security_sync_outcome" where
  "merge_outcome self other =
     \<lparr>so_crates_processed = so_crates_processed self + so_crates_processed other,
      so_advisories_written = so_advisories_written self + so_advisories_written other,
      so_errors = so_errors self @ so_errors other,
      so_touched_crates = sort_dedup (so_touched_crates self @ so_touched_crates other),
      so_checked_crate_ids = sort_dedup (so_checked_crate_ids self @ so_checked_crate_ids other)\<rparr>"

fun merge_result ::
  "security_sync_outcome result \<Rightarrow> nat list \<times> security_sync_outcome \<Rightarrow> nat list \<times> security_sync_outcome" where
  "merge_result (Inr source) (checked, outcome) =
     (filter (\<lambda>i. i \<in> set (so_checked_crate_ids source)) checked, merge_outcome outcome source)"
| "merge_result (Inl e) (checked, outcome) = ([], push_error e outcome)"

definition sync_security_crates ::
  "('v::linorder, 'r) semver_api \<Rightarrow> security_env \<Rightarrow> security_crate_row list \<Rightarrow> security_state \<Rightarrow>
   security_sync_outcome \<times> security_state" where
  "sync_security_crates sv env crates st =
     (let (osv, st1) = sync_osv_security env crates st;
          (ghsa, st2) = sync_ghsa_security sv env crates st1;
          (rustsec, st3) = (if se_rustsec_db_dir env
                            then (let (r, s) = sync_rustsec_db_security sv env crates st2 in ([r], s)) else ([], st2));
          (checked, outcome) = fold merge_result ([osv, ghsa] @ rustsec) (sort_dedup (map sc_id crates), empty_outcome)
      in (outcome\<lparr>so_checked_crate_ids := sort checked, so_crates_processed := length crates\<rparr>, st3))"

section \<open>The periodic scan\<close>

record security_crate = security_crate_row +
  sc_security_checked_at :: "int option"

definition checked_key :: "security_crate \<Rightarrow> bool \<times> int \<times> int" where
  "checked_key c = (case sc_security_checked_at c of None \<Rightarrow> (False, 0, - int (sc_id c)) | Some t \<Rightarrow> (True, t, - int (sc_id c)))"

definition security_due :: "crate_advisory_row list \<Rightarrow> int \<Rightarrow> int option \<Rightarrow> security_crate \<Rightarrow> bool" where
  "security_due rows now max_age_secs c =
     (case max_age_secs of
        None \<Rightarrow> True
      | Some age \<Rightarrow>
          (case sc_security_checked_at c of
             None \<Rightarrow> True
           | Some t \<Rightarrow> list_ex (\<lambda>r. car_crate_id r = int (sc_id c) \<and> car_requires_resync r) rows \<or> t < now - age))"

definition fetch_security_crates_page ::
  "security_crate list \<Rightarrow> crate_advisory_row list \<Rightarrow> int \<Rightarrow> nat \<Rightarrow> nat \<Rightarrow> int option \<Rightarrow> security_crate_row list" where
  "fetch_security_crates_page crates rows now limit offset max_age_secs =
     map security_crate_row.truncate
       (take limit (drop offset (sort_key checked_key (filter (security_due rows now max_age_secs) crates))))"

definition stamp_security_checked_at :: "int \<Rightarrow> nat \<Rightarrow> security_crate list \<Rightarrow> security_crate list" where
  "stamp_security_checked_at now crate_id crates =
     map (\<lambda>c. if sc_id c = crate_id then c\<lparr>sc_security_checked_at := Some now\<rparr> else c) crates"

record security_sync_run_outcome =
  ro_crates_processed :: nat
  ro_advisories_written :: nat
  ro_errors :: nat
  ro_pages :: nat

definition accumulate :: "security_sync_outcome \<Rightarrow> security_sync_run_outcome \<Rightarrow> security_sync_run_outcome" where
  "accumulate page r =
     \<lparr>ro_crates_processed = ro_crates_processed r + so_crates_processed page,
      ro_advisories_written = ro_advisories_written r + so_advisories_written page,
      ro_errors = ro_errors r + length (so_errors page), ro_pages = Suc (ro_pages r)\<rparr>"

function chunks :: "nat \<Rightarrow> 'a list \<Rightarrow> 'a list list" where
  "chunks n xs = (if xs = [] \<or> n = 0 then [] else take n xs # chunks n (drop n xs))"
  by pat_completeness auto

termination
  by (relation "measure (length \<circ> snd)") auto

declare chunks.simps [simp del]

definition scan_chunk ::
  "('v::linorder, 'r) semver_api \<Rightarrow> security_env \<Rightarrow> int \<Rightarrow> (nat \<Rightarrow> bool) \<Rightarrow> security_crate_row list \<Rightarrow>
   security_sync_run_outcome \<times> security_crate list \<times> security_state \<Rightarrow>
   security_sync_run_outcome \<times> security_crate list \<times> security_state" where
  "scan_chunk sv env now stamp_fails chunk s =
     (let (run, crates, st) = s; (page, st') = sync_security_crates sv env chunk st
      in (accumulate page run,
          fold (\<lambda>i cs. if stamp_fails i then cs else stamp_security_checked_at now i cs) (so_checked_crate_ids page) crates,
          st'))"

definition run_security_sync_scan ::
  "('v::linorder, 'r) semver_api \<Rightarrow> security_env \<Rightarrow> int \<Rightarrow> (nat \<Rightarrow> bool) \<Rightarrow> string option \<Rightarrow> nat \<Rightarrow> int option \<Rightarrow>
   security_crate list \<times> security_state \<Rightarrow> security_sync_run_outcome \<times> security_crate list \<times> security_state" where
  "run_security_sync_scan sv env now stamp_fails select_error batch_size max_age_secs s =
     (let (crates, st) = s;
          run = \<lparr>ro_crates_processed = 0, ro_advisories_written = 0, ro_errors = 0, ro_pages = 0\<rparr>
      in case select_error of
           Some _ \<Rightarrow> (run\<lparr>ro_errors := 1\<rparr>, crates, st)
         | None \<Rightarrow>
             fold (scan_chunk sv env now stamp_fails)
               (chunks (max batch_size 1) (fetch_security_crates_page crates (ss_rows st) now (length crates) 0 max_age_secs))
               (run, crates, st))"

definition staleness_threshold :: "nat \<Rightarrow> int option" where
  "staleness_threshold interval_secs = (if interval_secs = 0 then None else Some (int interval_secs))"

end
