(* ===== verification/Security_Props.thy ===== *)
theory Security_Props
  imports Security_Sync Crate_Versions
begin

text \<open>
  What a synchronisation leaves in the \<open>advisory_matches\<close> table: each source replaces its own evidence
  for a crate atomically and touches nothing else, a crate counts as checked only when every
  configured source succeeded, and the stored evidence yields the verdicts the sources published.
\<close>

section \<open>Rows of one crate and source\<close>

definition of_source :: "string list \<Rightarrow> nat \<Rightarrow> crate_advisory_row \<Rightarrow> bool" where
  "of_source S i r \<longleftrightarrow> car_crate_id r = int i \<and> car_source r \<in> set S"

lemma of_source_key: "source_key r = source_key r' \<Longrightarrow> of_source S i r = of_source S i r'"
  by (simp add: of_source_def source_key_def)

lemma upsert_row_other:
  assumes "\<And>r'. source_key r' = source_key r \<Longrightarrow> \<not> P r'"
  shows "filter P (upsert_row r rows) = filter P rows"
proof (cases "source_key r \<in> source_key ` set rows")
  case True
  have "filter P (map (\<lambda>r'. if source_key r' = source_key r then r else r') rows) = filter P rows"
    using assms by (induction rows) auto
  with True show ?thesis by (simp add: upsert_row_def)
qed (simp add: upsert_row_def assms)

lemma upsert_row_own:
  assumes "\<And>r'. source_key r' = source_key r \<Longrightarrow> P r'"
  shows "filter P (upsert_row r rows) = upsert_row r (filter P rows)"
proof -
  have k: "source_key r \<in> source_key ` set (filter P rows) \<longleftrightarrow> source_key r \<in> source_key ` set rows"
  proof
    assume "source_key r \<in> source_key ` set rows"
    then obtain r' where "r' \<in> set rows" "source_key r' = source_key r" by (auto simp: image_iff)
    with assms show "source_key r \<in> source_key ` set (filter P rows)" by (metis (mono_tags) filter_set image_eqI mem_Collect_eq set_filter)
  qed auto
  have "filter P (map (\<lambda>r'. if source_key r' = source_key r then r else r') rows) =
      map (\<lambda>r'. if source_key r' = source_key r then r else r') (filter P rows)"
    using assms by (induction rows) auto
  with k assms show ?thesis by (simp add: upsert_row_def)
qed

lemma apply_write_row:
  "apply_write i w = upsert_row (advisory_row i (map_option fst (aw_version w)) (aw_insert w))"
  by (auto simp: apply_write_def upsert_version_advisory_match_def insert_crate_level_advisory_match_def
      fun_eq_iff split: option.split)

definition writes_to :: "string list \<Rightarrow> advisory_write list \<Rightarrow> bool" where
  "writes_to S ws \<longleftrightarrow> list_all (\<lambda>w. ai_source (aw_insert w) \<in> set S) ws"

lemma fold_writes:
  assumes "writes_to S ws"
  shows "filter (of_source S i) (fold (apply_write i) ws rows) = fold (apply_write i) ws (filter (of_source S i) rows)"
    and "\<not> (i = j \<and> set S \<inter> set T \<noteq> {}) \<Longrightarrow> filter (of_source T j) (fold (apply_write i) ws rows) = filter (of_source T j) rows"
proof -
  have own: "of_source S i r" if "w \<in> set ws" "source_key r = source_key (advisory_row i x (aw_insert w))" for w x r
    using assms that by (auto simp: writes_to_def list_all_iff of_source_def advisory_row_def source_key_def)
  have foreign: "\<not> of_source T j r"
    if "w \<in> set ws" "source_key r = source_key (advisory_row i x (aw_insert w))" "\<not> (i = j \<and> set S \<inter> set T \<noteq> {})" for w x r
    using assms that by (auto simp: writes_to_def list_all_iff of_source_def advisory_row_def source_key_def)
  show "filter (of_source S i) (fold (apply_write i) ws rows) = fold (apply_write i) ws (filter (of_source S i) rows)"
    using own
  proof (induction ws arbitrary: rows)
    case (Cons w ws)
    have "filter (of_source S i) (apply_write i w rows) = apply_write i w (filter (of_source S i) rows)"
      unfolding apply_write_row by (rule upsert_row_own) (rule Cons.prems [of w], simp_all)
    with Cons.IH [of "apply_write i w rows"] Cons.prems show ?case by (metis fold_simps(2) list.set_intros(2))
  qed simp
  show "filter (of_source T j) (fold (apply_write i) ws rows) = filter (of_source T j) rows"
    if "\<not> (i = j \<and> set S \<inter> set T \<noteq> {})"
    using foreign [OF _ _ that]
  proof (induction ws arbitrary: rows)
    case (Cons w ws)
    have "filter (of_source T j) (apply_write i w rows) = filter (of_source T j) rows"
      unfolding apply_write_row by (rule upsert_row_other) (rule Cons.prems [of w], simp_all)
    with Cons.IH [of "apply_write i w rows"] Cons.prems show ?case by (metis fold_simps(2) list.set_intros(2))
  qed simp
qed

lemma delete_sources_filter:
  "filter (of_source S i) (delete_sources S i rows) = []"
  "\<not> (i = j \<and> set S \<inter> set T \<noteq> {}) \<Longrightarrow> filter (of_source T j) (delete_sources S i rows) = filter (of_source T j) rows"
  by (induction rows) (auto simp: delete_sources_def of_source_def)

definition replay :: "nat \<Rightarrow> advisory_write list \<Rightarrow> crate_advisory_row list" where
  "replay i ws = fold (apply_write i) ws []"

definition replaced :: "string list \<Rightarrow> nat \<Rightarrow> advisory_write list \<Rightarrow> crate_advisory_row list \<Rightarrow> crate_advisory_row list" where
  "replaced S i ws rows = fold (apply_write i) ws (delete_sources S i rows)"

lemma replaced_filter:
  assumes "writes_to S ws"
  shows "filter (of_source S i) (replaced S i ws rows) = replay i ws"
    and "\<not> (i = j \<and> set S \<inter> set T \<noteq> {}) \<Longrightarrow> filter (of_source T j) (replaced S i ws rows) = filter (of_source T j) rows"
  by (simp_all add: replaced_def replay_def fold_writes [OF assms] delete_sources_filter)

section \<open>The contract of a source\<close>

locale advisory_source =
  fixes step :: "security_crate_row \<Rightarrow> security_sync_outcome \<Rightarrow> security_state \<Rightarrow> security_sync_outcome result \<times> security_state"
    and S :: "string list" and evidence :: "security_crate_row \<Rightarrow> advisory_write list"
    and available :: "security_crate_row \<Rightarrow> bool"
  assumes evidence_source: "writes_to S (evidence k)"
    and step_rows: "step k out st = (r, st') \<Longrightarrow> ss_rows st' = ss_rows st \<or> ss_rows st' = replaced S (sc_id k) (evidence k) (ss_rows st)"
    and step_checked: "step k out st = (Inr out', st') \<Longrightarrow>
      (so_checked_crate_ids out' = so_checked_crate_ids out \<and> ss_rows st' = ss_rows st) \<or>
      (so_checked_crate_ids out' = so_checked_crate_ids out @ [sc_id k] \<and> available k \<and>
       ss_rows st' = replaced S (sc_id k) (evidence k) (ss_rows st))"
begin

lemma loop_other:
  "sync_loop step ks out st = (r, st') \<Longrightarrow> \<not> (j \<in> sc_id ` set ks \<and> set S \<inter> set T \<noteq> {}) \<Longrightarrow>
   filter (of_source T j) (ss_rows st') = filter (of_source T j) (ss_rows st)"
proof (induction ks arbitrary: out st)
  case (Cons k ks)
  obtain r1 st1 where s: "step k out st = (r1, st1)" by fastforce
  have "filter (of_source T j) (ss_rows st1) = filter (of_source T j) (ss_rows st)"
    using step_rows [OF s] replaced_filter(2) [OF evidence_source, of "sc_id k" j T] Cons.prems(2) by auto
  then show ?case using Cons s by (cases r1) auto
qed simp

lemma loop_checked_subset:
  "sync_loop step ks out st = (Inr out', st') \<Longrightarrow>
   set (so_checked_crate_ids out) \<subseteq> set (so_checked_crate_ids out') \<and>
   set (so_checked_crate_ids out') \<subseteq> set (so_checked_crate_ids out) \<union> sc_id ` set ks"
proof (induction ks arbitrary: out st)
  case (Cons k ks)
  obtain r1 st1 where s: "step k out st = (r1, st1)" by fastforce
  with Cons.prems obtain o1 where r1: "r1 = Inr o1" by (cases r1) auto
  with Cons.IH [of o1 st1] Cons.prems s step_checked [of k out st o1 st1] show ?case by auto
qed simp

lemma loop_available:
  "sync_loop step ks out st = (Inr out', st') \<Longrightarrow> distinct (map sc_id ks) \<Longrightarrow> k \<in> set ks \<Longrightarrow>
   sc_id k \<in> set (so_checked_crate_ids out') \<Longrightarrow> sc_id k \<notin> set (so_checked_crate_ids out) \<Longrightarrow> available k"
proof (induction ks arbitrary: out st)
  case (Cons x ks)
  obtain r1 st1 where s: "step x out st = (r1, st1)" by fastforce
  with Cons.prems obtain o1 where r1: "r1 = Inr o1" by (cases r1) auto
  have rest: "sync_loop step ks o1 st1 = (Inr out', st')" using Cons.prems(1) s r1 by simp
  note st1 = step_checked [OF s [unfolded r1]]
  show ?case
  proof (cases "x = k")
    case True
    with Cons.prems(2) have "sc_id k \<notin> sc_id ` set ks" by auto
    with loop_checked_subset [OF rest] Cons.prems(4) have "sc_id k \<in> set (so_checked_crate_ids o1)" by auto
    with st1 True Cons.prems(5) show ?thesis by auto
  next
    case False
    then have k: "k \<in> set ks" "sc_id k \<noteq> sc_id x" using Cons.prems(2,3) by (auto simp: image_iff)
    with st1 Cons.prems(5) have "sc_id k \<notin> set (so_checked_crate_ids o1)" by auto
    with Cons.IH [OF rest _ k(1) Cons.prems(4)] Cons.prems(2) show ?thesis by simp
  qed
qed simp

lemma loop_rows:
  "sync_loop step ks out st = (Inr out', st') \<Longrightarrow> distinct (map sc_id ks) \<Longrightarrow> k \<in> set ks \<Longrightarrow>
   sc_id k \<notin> set (so_checked_crate_ids out) \<Longrightarrow>
   filter (of_source S (sc_id k)) (ss_rows st') =
     (if sc_id k \<in> set (so_checked_crate_ids out') then replay (sc_id k) (evidence k)
      else filter (of_source S (sc_id k)) (ss_rows st))"
proof (induction ks arbitrary: out st)
  case (Cons x ks)
  obtain r1 st1 where s: "step x out st = (r1, st1)" by fastforce
  with Cons.prems obtain o1 where r1: "r1 = Inr o1" by (cases r1) auto
  have rest: "sync_loop step ks o1 st1 = (Inr out', st')" using Cons.prems(1) s r1 by simp
  note st1 = step_checked [OF s [unfolded r1]]
  show ?case
  proof (cases "x = k")
    case True
    with Cons.prems(2) have notin: "sc_id k \<notin> sc_id ` set ks" by auto
    have rows: "filter (of_source S (sc_id k)) (ss_rows st') = filter (of_source S (sc_id k)) (ss_rows st1)"
      using loop_other [OF rest, of "sc_id k" S] notin by blast
    have "sc_id k \<in> set (so_checked_crate_ids out') \<longleftrightarrow> sc_id k \<in> set (so_checked_crate_ids o1)"
      using loop_checked_subset [OF rest] notin by auto
    with True rows st1 Cons.prems(4) replaced_filter(1) [OF evidence_source] show ?thesis by auto
  next
    case False
    then have k: "k \<in> set ks" "sc_id k \<noteq> sc_id x"
      using Cons.prems(2,3) by (auto simp: image_iff)
    have "filter (of_source S (sc_id k)) (ss_rows st1) = filter (of_source S (sc_id k)) (ss_rows st)"
      using st1 replaced_filter(2) [OF evidence_source, of "sc_id x" "sc_id k" S] k(2) by auto
    moreover have "sc_id k \<notin> set (so_checked_crate_ids o1)" using st1 Cons.prems(4) k(2) by auto
    ultimately show ?thesis using Cons.IH [OF rest _ k(1)] Cons.prems(2) by simp
  qed
qed simp

end

lemma write_all_Inr: "write_all f k ws rows = Inr rows' \<Longrightarrow> rows' = fold (apply_write (sc_id k)) ws rows"
  by (induction f k ws rows rule: write_all.induct) (auto split: option.splits)

lemma in_transaction_Inr:
  "in_transaction err l (delete_sources S) k ws rows = Inr rows' \<Longrightarrow> rows' = replaced S (sc_id k) ws rows"
  by (auto simp: in_transaction_def replaced_def dest: write_all_Inr split: option.splits)

lemma commit_crate_rows:
  assumes "commit_crate err k rows n out st = (r, st')"
  shows "ss_rows st' = ss_rows st \<or> ss_rows st' = rows"
    and "r = Inr out' \<Longrightarrow> so_checked_crate_ids out' = so_checked_crate_ids out @ [sc_id k] \<and> ss_rows st' = rows"
  using assms by (auto simp: commit_crate_def split: option.splits prod.splits sum.splits)

lemma checked_processed [simp]: "so_checked_crate_ids (processed k out) = so_checked_crate_ids out"
  by (simp add: processed_def)

lemma checked_push_error [simp]: "so_checked_crate_ids (push_error e out) = so_checked_crate_ids out"
  by (simp add: push_error_def)

lemma writes_for_source: "writes_to S (writes_for l a m) \<longleftrightarrow> ai_source a \<in> set S"
  by (cases m) (auto simp: writes_to_def writes_for_def list_all_iff)

lemma writes_to_Nil [simp]: "writes_to S []"
  by (simp add: writes_to_def)

lemma writes_to_append: "writes_to S (xs @ ys) \<longleftrightarrow> writes_to S xs \<and> writes_to S ys"
  by (simp add: writes_to_def)

lemma writes_to_concat: "(\<And>x. x \<in> set xs \<Longrightarrow> writes_to S (f x)) \<Longrightarrow> writes_to S (concat (map f xs))"
  by (induction xs) (simp_all add: writes_to_append)

abbreviation crate_versions_of :: "security_env \<Rightarrow> security_crate_row \<Rightarrow> (nat \<times> string) list" where
  "crate_versions_of env k \<equiv> fetch_security_versions_for_crate (se_store env) (sc_id k)"

definition osv_evidence :: "security_env \<Rightarrow> security_crate_row \<Rightarrow> advisory_write list" where
  "osv_evidence env k =
     (case se_query_crate env (sc_name k) of
        Inl _ \<Rightarrow> [] | Inr vulns \<Rightarrow> concat (map (osv_writes (sc_name k) (crate_versions_of env k)) vulns))"

definition ghsa_evidence :: "('v::linorder, 'r) semver_api \<Rightarrow> security_env \<Rightarrow> security_crate_row \<Rightarrow> advisory_write list" where
  "ghsa_evidence sv env k =
     (case se_fetch_advisories env (sc_name k) of
        Inl _ \<Rightarrow> [] | Inr as \<Rightarrow> concat (map (ghsa_writes sv (sc_name k) (crate_versions_of env k)) as))"

definition rustsec_evidence :: "('v::linorder, 'r) semver_api \<Rightarrow> security_env \<Rightarrow> security_crate_row \<Rightarrow> advisory_write list" where
  "rustsec_evidence sv env k =
     file_writes (map (rustsec_file sv (se_toml env) (sc_name k) (crate_versions_of env k)) (se_advisory_markdown_files env (sc_name k)))"

definition rustsec_readable :: "('v::linorder, 'r) semver_api \<Rightarrow> security_env \<Rightarrow> security_crate_row \<Rightarrow> bool" where
  "rustsec_readable sv env k \<longleftrightarrow>
     file_errors (map (rustsec_file sv (se_toml env) (sc_name k) (crate_versions_of env k)) (se_advisory_markdown_files env (sc_name k))) = []"

lemma osv_insert_source: "ai_source (osv_insert vuln as) \<in> set [''osv'', ''rustsec_osv'']"
  by (auto simp: osv_insert_def advisory_identity_def Let_def split: option.split)

lemma osv_writes_source: "writes_to [''osv'', ''rustsec_osv''] (osv_writes name rows vuln)"
  unfolding osv_writes_def Let_def by (simp only: writes_for_source osv_insert_source writes_to_Nil split: if_split) simp

lemma ghsa_writes_source: "writes_to [''ghsa''] (ghsa_writes sv name rows a)"
  by (simp add: ghsa_writes_def Let_def writes_for_source)

lemma rustsec_file_source: "rustsec_file sv toml name rows f = Inr ws \<Longrightarrow> writes_to [''rustsec_db''] ws"
  by (auto simp: rustsec_file_def Let_def rustsec_writes_def writes_for_source rustsec_insert_def
      split: sum.splits option.splits if_splits)

lemma file_writes_source:
  "(\<And>r ws. r \<in> set rs \<Longrightarrow> r = Inr ws \<Longrightarrow> writes_to S ws) \<Longrightarrow> writes_to S (file_writes rs)"
  unfolding file_writes_def by (rule writes_to_concat) (auto split: sum.split)

interpretation osv: advisory_source "sync_osv_crate env" "[''osv'', ''rustsec_osv'']" "osv_evidence env"
  "\<lambda>k. \<exists>vulns. se_query_crate env (sc_name k) = Inr vulns"
proof
  show "writes_to [''osv'', ''rustsec_osv''] (osv_evidence env k)" for k
    unfolding osv_evidence_def by (auto intro: writes_to_concat osv_writes_source split: sum.split)
  note d = sync_osv_crate_def Let_def osv_evidence_def clear_osv_advisory_matches_def
  show "ss_rows st' = ss_rows st \<or> ss_rows st' = replaced [''osv'', ''rustsec_osv''] (sc_id k) (osv_evidence env k) (ss_rows st)"
    if "sync_osv_crate env k out st = (r, st')" for k out st r st'
    using that by (auto simp: d dest!: in_transaction_Inr dest: commit_crate_rows(1) split: option.splits sum.splits)
  show "(so_checked_crate_ids out' = so_checked_crate_ids out \<and> ss_rows st' = ss_rows st) \<or>
      (so_checked_crate_ids out' = so_checked_crate_ids out @ [sc_id k] \<and> (\<exists>vulns. se_query_crate env (sc_name k) = Inr vulns) \<and>
       ss_rows st' = replaced [''osv'', ''rustsec_osv''] (sc_id k) (osv_evidence env k) (ss_rows st))"
    if "sync_osv_crate env k out st = (Inr out', st')" for k out st out' st'
    using that by (auto simp: d dest!: in_transaction_Inr dest: commit_crate_rows(2) [OF _ refl] split: option.splits sum.splits)
qed

interpretation ghsa: advisory_source "sync_ghsa_crate sv env" "[''ghsa'']" "ghsa_evidence sv env"
  "\<lambda>k. \<exists>as. se_fetch_advisories env (sc_name k) = Inr as"
proof
  show "writes_to [''ghsa''] (ghsa_evidence sv env k)" for k
    unfolding ghsa_evidence_def by (auto intro: writes_to_concat ghsa_writes_source split: sum.split)
  note d = sync_ghsa_crate_def Let_def ghsa_evidence_def clear_ghsa_advisory_matches_def
  show "ss_rows st' = ss_rows st \<or> ss_rows st' = replaced [''ghsa''] (sc_id k) (ghsa_evidence sv env k) (ss_rows st)"
    if "sync_ghsa_crate sv env k out st = (r, st')" for k out st r st'
    using that by (auto simp: d dest!: in_transaction_Inr dest: commit_crate_rows(1) split: option.splits sum.splits)
  show "(so_checked_crate_ids out' = so_checked_crate_ids out \<and> ss_rows st' = ss_rows st) \<or>
      (so_checked_crate_ids out' = so_checked_crate_ids out @ [sc_id k] \<and> (\<exists>as. se_fetch_advisories env (sc_name k) = Inr as) \<and>
       ss_rows st' = replaced [''ghsa''] (sc_id k) (ghsa_evidence sv env k) (ss_rows st))"
    if "sync_ghsa_crate sv env k out st = (Inr out', st')" for k out st out' st'
    using that by (auto simp: d dest!: in_transaction_Inr dest: commit_crate_rows(2) [OF _ refl] split: option.splits sum.splits)
qed

interpretation rustsec: advisory_source "sync_rustsec_crate sv env" "[''rustsec_db'']" "rustsec_evidence sv env"
  "rustsec_readable sv env"
proof
  show "writes_to [''rustsec_db''] (rustsec_evidence sv env k)" for k
    unfolding rustsec_evidence_def by (rule file_writes_source) (auto dest: rustsec_file_source [OF sym])
  note d = sync_rustsec_crate_def Let_def rustsec_evidence_def rustsec_readable_def clear_rustsec_db_advisory_matches_def
  show "ss_rows st' = ss_rows st \<or> ss_rows st' = replaced [''rustsec_db''] (sc_id k) (rustsec_evidence sv env k) (ss_rows st)"
    if "sync_rustsec_crate sv env k out st = (r, st')" for k out st r st'
    using that by (auto simp: d dest!: in_transaction_Inr dest: commit_crate_rows(1) split: option.splits sum.splits if_splits)
  show "(so_checked_crate_ids out' = so_checked_crate_ids out \<and> ss_rows st' = ss_rows st) \<or>
      (so_checked_crate_ids out' = so_checked_crate_ids out @ [sc_id k] \<and> rustsec_readable sv env k \<and>
       ss_rows st' = replaced [''rustsec_db''] (sc_id k) (rustsec_evidence sv env k) (ss_rows st))"
    if "sync_rustsec_crate sv env k out st = (Inr out', st')" for k out st out' st'
    using that by (auto simp: d dest!: in_transaction_Inr dest: commit_crate_rows(2) [OF _ refl] split: option.splits sum.splits if_splits)
qed

section \<open>A batch over all sources\<close>

lemma merge_results_checked:
  "set (fst (fold merge_result rs (c, out))) = {i \<in> set c. \<forall>r \<in> set rs. \<exists>s. r = Inr s \<and> i \<in> set (so_checked_crate_ids s)}"
proof (induction rs arbitrary: c out)
  case (Cons r rs)
  show ?case by (cases r) (auto simp: Cons.IH)
qed simp

lemma rustsec_loop_result:
  assumes "sync_rustsec_db_security sv env crates st = (r, st')" and "se_rustsec_db_dir env"
  shows "(\<exists>e. r = Inl e \<and> st' = st) \<or> (\<exists>r0. sync_loop (sync_rustsec_crate sv env) crates empty_outcome st = (r0, st') \<and>
     (\<forall>s. r = Inr s \<longrightarrow> (\<exists>s0. r0 = Inr s0 \<and> so_checked_crate_ids s = so_checked_crate_ids s0)))"
  using assms by (auto simp: sync_rustsec_db_security_def split: if_splits prod.splits sum.splits)

text \<open>The three source groups never share a source key.\<close>

definition osv_sources :: "string list" where "osv_sources = [''osv'', ''rustsec_osv'']"

lemma sources_disjoint:
  "set [''osv'', ''rustsec_osv''] \<inter> set [''ghsa''] = {}"
  "set [''osv'', ''rustsec_osv''] \<inter> set [''rustsec_db''] = {}"
  "set [''ghsa''] \<inter> set [''rustsec_db''] = {}"
  "set [''ghsa''] \<inter> set [''osv'', ''rustsec_osv''] = {}"
  "set [''rustsec_db''] \<inter> set [''osv'', ''rustsec_osv''] = {}"
  "set [''rustsec_db''] \<inter> set [''ghsa''] = {}"
  by simp_all

text \<open>The evidence a synchronisation is to leave for a crate, source by source.\<close>

definition evidence_current ::
  "('v::linorder, 'r) semver_api \<Rightarrow> security_env \<Rightarrow> security_crate_row \<Rightarrow> crate_advisory_row list \<Rightarrow> bool" where
  "evidence_current sv env k rows \<longleftrightarrow>
     (\<exists>vulns. se_query_crate env (sc_name k) = Inr vulns) \<and>
     filter (of_source [''osv'', ''rustsec_osv''] (sc_id k)) rows = replay (sc_id k) (osv_evidence env k) \<and>
     (\<exists>as. se_fetch_advisories env (sc_name k) = Inr as) \<and>
     filter (of_source [''ghsa''] (sc_id k)) rows = replay (sc_id k) (ghsa_evidence sv env k) \<and>
     (se_rustsec_db_dir env \<longrightarrow> rustsec_readable sv env k \<and>
        filter (of_source [''rustsec_db''] (sc_id k)) rows = replay (sc_id k) (rustsec_evidence sv env k))"

lemma sync_batch:
  assumes run: "sync_security_crates sv env crates st = (out, st')" and dist: "distinct (map sc_id crates)"
  shows "k \<in> set crates \<Longrightarrow> sc_id k \<in> set (so_checked_crate_ids out) \<Longrightarrow> evidence_current sv env k (ss_rows st')"
    and "j \<notin> sc_id ` set crates \<Longrightarrow> filter (of_source T j) (ss_rows st') = filter (of_source T j) (ss_rows st)"
    and "set (so_checked_crate_ids out) \<subseteq> sc_id ` set crates"
proof -
  obtain r1 st1 where osv: "sync_loop (sync_osv_crate env) crates empty_outcome st = (r1, st1)" by fastforce
  obtain r2 st2 where ghsa: "sync_loop (sync_ghsa_crate sv env) crates empty_outcome st1 = (r2, st2)" by fastforce
  obtain r3 st3 where rus: "sync_rustsec_db_security sv env crates st2 = (r3, st3)" by fastforce
  let ?rs = "[r1, r2] @ (if se_rustsec_db_dir env then [r3] else [])"
  have st': "st' = (if se_rustsec_db_dir env then st3 else st2)"
    and out: "set (so_checked_crate_ids out) = set (fst (fold merge_result ?rs (sort_dedup (map sc_id crates), empty_outcome)))"
    using run osv ghsa rus unfolding sync_security_crates_def sync_osv_security_def sync_ghsa_security_def Let_def
    by (auto split: prod.splits if_splits)
  have checked: "i \<in> set (so_checked_crate_ids out) \<longleftrightarrow> i \<in> sc_id ` set crates \<and>
      (\<forall>r \<in> set ?rs. \<exists>s. r = Inr s \<and> i \<in> set (so_checked_crate_ids s))" for i
    unfolding out merge_results_checked by auto
  then show "set (so_checked_crate_ids out) \<subseteq> sc_id ` set crates" by blast
  have e: "so_checked_crate_ids empty_outcome = []" by (simp add: empty_outcome_def)
  have g3: "filter (of_source T j) (ss_rows st') = filter (of_source T j) (ss_rows st2)"
    if "\<not> (j \<in> sc_id ` set crates \<and> set [''rustsec_db''] \<inter> set T \<noteq> {})" for T j
    using rustsec_loop_result [OF rus] st' rustsec.loop_other [of sv env crates empty_outcome st2 _ st3 j T] that by auto
  have g2: "filter (of_source T j) (ss_rows st2) = filter (of_source T j) (ss_rows st1)"
    if "\<not> (j \<in> sc_id ` set crates \<and> set [''ghsa''] \<inter> set T \<noteq> {})" for T j
    using ghsa.loop_other [OF ghsa that] .
  have g1: "filter (of_source T j) (ss_rows st1) = filter (of_source T j) (ss_rows st)"
    if "\<not> (j \<in> sc_id ` set crates \<and> set [''osv'', ''rustsec_osv''] \<inter> set T \<noteq> {})" for T j
    using osv.loop_other [OF osv that] .
  show "filter (of_source T j) (ss_rows st') = filter (of_source T j) (ss_rows st)" if "j \<notin> sc_id ` set crates"
    using g1 g2 g3 that by simp
  assume k: "k \<in> set crates" and kc: "sc_id k \<in> set (so_checked_crate_ids out)"
  from checked kc obtain s1 s2 where s1: "r1 = Inr s1" "sc_id k \<in> set (so_checked_crate_ids s1)"
    and s2: "r2 = Inr s2" "sc_id k \<in> set (so_checked_crate_ids s2)" by auto
  note o = osv [unfolded s1(1)] and g = ghsa [unfolded s2(1)]
  have a1: "\<exists>vulns. se_query_crate env (sc_name k) = Inr vulns"
    using osv.loop_available [OF o dist k s1(2)] e by simp
  have a2: "\<exists>as. se_fetch_advisories env (sc_name k) = Inr as"
    using ghsa.loop_available [OF g dist k s2(2)] e by simp
  have f1: "filter (of_source [''osv'', ''rustsec_osv''] (sc_id k)) (ss_rows st') = replay (sc_id k) (osv_evidence env k)"
    using osv.loop_rows [OF o dist k] s1(2) e g3 [of "sc_id k" "[''osv'', ''rustsec_osv'']"]
      g2 [of "sc_id k" "[''osv'', ''rustsec_osv'']"] by simp
  have f2: "filter (of_source [''ghsa''] (sc_id k)) (ss_rows st') = replay (sc_id k) (ghsa_evidence sv env k)"
    using ghsa.loop_rows [OF g dist k] s2(2) e g3 [of "sc_id k" "[''ghsa'']"] by simp
  have f3: "rustsec_readable sv env k \<and>
      filter (of_source [''rustsec_db''] (sc_id k)) (ss_rows st') = replay (sc_id k) (rustsec_evidence sv env k)"
    if dir: "se_rustsec_db_dir env"
  proof -
    from checked kc dir obtain s3 where s3: "r3 = Inr s3" "sc_id k \<in> set (so_checked_crate_ids s3)" by auto
    with rustsec_loop_result [OF rus dir] obtain s0
      where loop: "sync_loop (sync_rustsec_crate sv env) crates empty_outcome st2 = (Inr s0, st3)"
        and "sc_id k \<in> set (so_checked_crate_ids s0)" by auto
    then show ?thesis
      using rustsec.loop_available [OF loop dist k] rustsec.loop_rows [OF loop dist k] e dir st' by simp
  qed
  show "evidence_current sv env k (ss_rows st')"
    unfolding evidence_current_def using a1 a2 f1 f2 f3 by blast
qed

section \<open>From a published advisory to the verdict\<close>

lemma upsert_row_mem:
  "r \<in> set (upsert_row r rows)"
  "source_key ` set rows \<subseteq> source_key ` set (upsert_row r rows)"
  "set (upsert_row r rows) \<subseteq> insert r (set rows)"
proof -
  show "r \<in> set (upsert_row r rows)" by (auto simp: upsert_row_def image_iff)
  show "set (upsert_row r rows) \<subseteq> insert r (set rows)" by (auto simp: upsert_row_def)
  have "map source_key (map (\<lambda>r'. if source_key r' = source_key r then r else r') rows) = map source_key rows"
    by (induction rows) auto
  from arg_cong [OF this, of set]
  have "source_key ` set (map (\<lambda>r'. if source_key r' = source_key r then r else r') rows) = source_key ` set rows"
    by (simp only: set_map)
  then show "source_key ` set rows \<subseteq> source_key ` set (upsert_row r rows)" unfolding upsert_row_def by auto
qed

lemma replay_mem:
  "w \<in> set ws \<Longrightarrow> source_key (advisory_row i (map_option fst (aw_version w)) (aw_insert w)) \<in> source_key ` set (fold (apply_write i) ws rows)"
  "source_key ` set rows \<subseteq> source_key ` set (fold (apply_write i) ws rows)"
proof (induction ws arbitrary: rows)
  case (Cons x ws)
  case 1
  show ?case
  proof (cases "w = x")
    case True
    then have "source_key (advisory_row i (map_option fst (aw_version w)) (aw_insert w)) \<in> source_key ` set (apply_write i x rows)"
      unfolding apply_write_row using upsert_row_mem(1) by blast
    with Cons.IH(2) [of "apply_write i x rows"] show ?thesis by auto
  qed (use 1 Cons.IH(1) in auto)
next
  case (Cons x ws)
  case 2
  have "source_key ` set rows \<subseteq> source_key ` set (apply_write i x rows)"
    unfolding apply_write_row by (rule upsert_row_mem(2))
  with Cons.IH(2) [of "apply_write i x rows"] show ?case by simp
qed simp_all

lemma replay_fresh: "r \<in> set (fold (apply_write i) ws rows) \<Longrightarrow> r \<in> set rows \<or> \<not> car_requires_resync r"
proof (induction ws arbitrary: rows)
  case (Cons w ws)
  then have "r \<in> set (apply_write i w rows) \<or> \<not> car_requires_resync r" by simp
  then show ?case unfolding apply_write_row using upsert_row_mem(3) by (fastforce simp: advisory_row_def)
qed simp

definition withdrawn_elsewhere :: "crate_advisory_row list \<Rightarrow> nat \<Rightarrow> string \<Rightarrow> bool" where
  "withdrawn_elsewhere rows i aid = list_ex (\<lambda>r. car_crate_id r = int i \<and> car_advisory_id r = aid \<and> row_withdrawal r) rows"

lemma stored_match_verdict:
  assumes "r \<in> set rows" "car_crate_id r = int i" "car_version_id r = Some vid" "\<not> car_requires_resync r"
  shows "map_of (verdicts (advisories_for_version sv (fetch_advisory_rows rows [int i]) vid v)) (car_advisory_id r) =
    (if withdrawn_elsewhere rows i (car_advisory_id r) then None else Some Affected)"
proof -
  have "map_of (verdicts (advisories_for_version sv (fetch_advisory_rows rows [int i]) vid v)) (car_advisory_id r) =
      spec_verdict sv vid v (fetch_advisory_rows rows [int i]) (car_advisory_id r)"
    using advisories_for_version_core [of sv "fetch_advisory_rows rows [int i]" vid v] by (metis verdicts_def)
  moreover have "row_applicability sv vid v r = Affected" using assms by (simp add: row_applicability_def)
  ultimately show ?thesis using assms(1,2)
    by (auto simp: spec_verdict_def Let_def fetch_advisory_rows_def withdrawn_elsewhere_def list_ex_iff)
qed

text \<open>An advisory lists an indexed version of the crate explicitly and has not been withdrawn.\<close>

definition osv_lists :: "security_env \<Rightarrow> security_crate_row \<Rightarrow> osv_vulnerability \<Rightarrow> nat \<Rightarrow> string \<Rightarrow> bool" where
  "osv_lists env k vuln vid v \<longleftrightarrow>
     vu_withdrawn vuln = None \<and> (vid, v) \<in> set (crate_versions_of env k) \<and>
     list_ex (\<lambda>a. osv_package_matches (sc_name k) a \<and> v \<in> set (oa_versions a)) (vu_affected vuln)"

lemma osv_lists_written:
  assumes "osv_lists env k vuln vid v" and "distinct (map snd (crate_versions_of env k))"
  shows "\<exists>w \<in> set (osv_writes (sc_name k) (crate_versions_of env k) vuln).
    aw_version w = Some (vid, v) \<and> ai_advisory_id (aw_insert w) = fst (advisory_identity vuln)"
proof -
  let ?rows = "crate_versions_of env k" and ?scoped = "filter (osv_package_matches (sc_name k)) (vu_affected vuln)"
  let ?m = "List.map_filter (\<lambda>v. map_option (\<lambda>i. (i, v)) (map_of (map (\<lambda>(i, v). (v, i)) (rev ?rows)) v)) (concat (map oa_versions ?scoped))"
  have "distinct (map fst (map (\<lambda>(i, v). (v, i)) (rev ?rows)))"
    using assms(2) by (simp add: comp_def case_prod_beta rev_map [symmetric])
  then have "map_of (map (\<lambda>(i, v). (v, i)) (rev ?rows)) v = Some vid"
    using assms(1) by (subst map_of_eq_Some_iff) (force simp: osv_lists_def)+
  then have m: "(vid, v) \<in> set ?m" using assms(1) by (auto simp: set_map_filter osv_lists_def list_ex_iff)
  then have "?m \<noteq> []" by auto
  moreover have "ai_advisory_id (osv_insert vuln ?scoped) = fst (advisory_identity vuln)"
    by (simp add: osv_insert_def case_prod_beta)
  moreover have "vu_withdrawn vuln = None" "?scoped \<noteq> []"
    using assms(1) by (auto simp: osv_lists_def list_ex_iff filter_empty_conv)
  ultimately show ?thesis using m
    by (auto simp: osv_writes_def Let_def writes_for_def intro!: bexI [of _ "(vid, v)"])
qed


section \<open>The range text is read back as the published ranges\<close>

definition event_bound :: "('v, 'r) semver_api \<Rightarrow> osv_range_event \<Rightarrow> ('v option \<times> osv_event) option" where
  "event_bound sv e =
     (case oe_introduced e of
        Some x \<Rightarrow> Some (if x = ''0'' then None else parse_semver_for_matching sv x, Introduced)
      | None \<Rightarrow> (case oe_fixed e of
          Some x \<Rightarrow> Some (parse_semver_for_matching sv x, Fixed)
        | None \<Rightarrow> map_option (\<lambda>x. (parse_semver_for_matching sv x, LastAffected)) (oe_last_affected e)))"

definition limit_bound :: "('v, 'r) semver_api \<Rightarrow> osv_range_event \<Rightarrow> 'v option option" where
  "limit_bound sv e = map_option (\<lambda>x. if contains ''*'' x then None else parse_semver_for_matching sv x) (oe_limit e)"

definition published_range :: "('v::linorder, 'r) semver_api \<Rightarrow> osv_source_range \<Rightarrow> 'v osv_range" where
  "published_range sv r =
     \<lparr>osv_events = sort (List.map_filter (event_bound sv) (or_events r)),
      osv_limits = List.map_filter (limit_bound sv) (or_events r)\<rparr>"

definition version_text :: "string \<Rightarrow> bool" where
  "version_text s \<longleftrightarrow> list_all (\<lambda>c. 33 \<le> (of_char c :: nat) \<and> (of_char c :: nat) \<le> 126 \<and> c \<noteq> CHR '','' \<and> c \<noteq> CHR '';'') s"

text \<open>An event with exactly one value, which is a version text the reader can parse.\<close>

definition event_readable :: "('v, 'r) semver_api \<Rightarrow> osv_range_event \<Rightarrow> bool" where
  "event_readable sv e \<longleftrightarrow>
     (\<exists>x. version_text x \<and>
       (e = \<lparr>oe_introduced = Some x, oe_fixed = None, oe_last_affected = None, oe_limit = None\<rparr> \<and>
          (x = ''0'' \<or> parse_semver_for_matching sv x \<noteq> None) \<or>
        e = \<lparr>oe_introduced = None, oe_fixed = Some x, oe_last_affected = None, oe_limit = None\<rparr> \<and> parse_semver_for_matching sv x \<noteq> None \<or>
        e = \<lparr>oe_introduced = None, oe_fixed = None, oe_last_affected = Some x, oe_limit = None\<rparr> \<and> parse_semver_for_matching sv x \<noteq> None \<or>
        e = \<lparr>oe_introduced = None, oe_fixed = None, oe_last_affected = None, oe_limit = Some x\<rparr> \<and>
          (contains ''*'' x \<or> parse_semver_for_matching sv x \<noteq> None)))"

definition range_readable :: "('v, 'r) semver_api \<Rightarrow> osv_source_range \<Rightarrow> bool" where
  "range_readable sv r \<longleftrightarrow>
     or_range_type r \<in> {''SEMVER'', ''ECOSYSTEM''} \<and> list_all (event_readable sv) (or_events r) \<and>
     list_ex (\<lambda>e. oe_introduced e \<noteq> None) (or_events r) \<and>
     \<not> (list_ex (\<lambda>e. oe_fixed e \<noteq> None) (or_events r) \<and> list_ex (\<lambda>e. oe_last_affected e \<noteq> None) (or_events r))"

definition graphic :: "char \<Rightarrow> bool" where
  "graphic c \<longleftrightarrow> 33 \<le> (of_char c :: nat) \<and> (of_char c :: nat) \<le> 126"

lemma white_space_not_graphic:
  "list_all (\<lambda>w. \<not> graphic (hd w)) white_space" "list_all (\<lambda>w. \<not> graphic (hd w)) (map rev white_space)"
  by code_simp+

lemma graphic_front:
  assumes "graphic c" and ws: "list_all (\<lambda>w. \<not> graphic (hd w)) ws"
  shows "front_match ws (c # s) = None"
proof -
  have "\<not> (w \<noteq> [] \<and> starts_with w (c # s))" if "w \<in> set ws" for w
    using assms that by (cases w) (auto simp: list_all_iff)
  then show ?thesis by (auto simp: front_match_def find_None_iff)
qed

lemma front_match_Nil [simp]: "front_match ws [] = None"
  by (auto simp: front_match_def find_None_iff neq_Nil_conv)

lemma graphic_trim:
  assumes "list_all graphic s"
  shows "trim s = s"
proof -
  have "front_match white_space s = None"
    using assms graphic_front [OF _ white_space_not_graphic(1)] by (cases s) simp_all
  moreover have "front_match (map rev white_space) (rev s) = None"
    using assms graphic_front [OF _ white_space_not_graphic(2)]
    by (cases "rev s") (simp, metis list.set_intros(1) list_all_iff set_rev)
  ultimately show ?thesis by (simp add: trim_def trim_start_def trim_end_def)
qed

lemma version_text_graphic: "version_text x \<Longrightarrow> list_all graphic x \<and> CHR '','' \<notin> set x \<and> CHR '';'' \<notin> set x"
  by (auto simp: version_text_def graphic_def list_all_iff)

lemma event_text_trim:
  "version_text x \<Longrightarrow> list_all graphic k \<Longrightarrow> trim (k @ ''='' @ x) = k @ ''='' @ x"
  by (rule graphic_trim) (use version_text_graphic [of x] in \<open>auto simp: graphic_def\<close>)

lemma event_text_parts:
  assumes "version_text x" and "k \<in> {''introduced'', ''fixed'', ''last_affected'', ''limit''}"
  shows "split_once ''='' (trim (k @ ''='' @ x)) = Some (k, x)"
proof -
  have "list_all graphic k" "CHR ''='' \<notin> set k" using assms(2) by (auto simp: graphic_def)
  then show ?thesis using event_text_trim [OF assms(1), of k] split_once_first [of "CHR ''=''" k "[]" x] by simp
qed

text \<open>One event is written as one text, and reading the text adds its bound.\<close>

lemma event_roundtrip:
  assumes "event_readable sv e"
  shows "\<exists>t. event_texts e = [t] \<and> length (filter (\<lambda>x. x \<noteq> None) (event_values e)) = 1 \<and>
    parse_osv_event sv t rng = Some (rng\<lparr>osv_events := osv_events rng @ (case event_bound sv e of None \<Rightarrow> [] | Some b \<Rightarrow> [b]),
      osv_limits := osv_limits rng @ (case limit_bound sv e of None \<Rightarrow> [] | Some b \<Rightarrow> [b])\<rparr>) \<and>
    list_all graphic t \<and> CHR '','' \<notin> set t \<and> CHR '';'' \<notin> set t"
proof -
  have clean: "list_all graphic (k @ ''='' @ x) \<and> CHR '','' \<notin> set (k @ ''='' @ x) \<and> CHR '';'' \<notin> set (k @ ''='' @ x)"
    if "version_text x" "k \<in> {''introduced'', ''fixed'', ''last_affected'', ''limit''}" for x k
    using version_text_graphic [OF that(1)] that(2) by (auto simp: graphic_def)
  from assms obtain x where x: "version_text x" and alt:
      "e = \<lparr>oe_introduced = Some x, oe_fixed = None, oe_last_affected = None, oe_limit = None\<rparr> \<and> (x = ''0'' \<or> parse_semver_for_matching sv x \<noteq> None) \<or>
       e = \<lparr>oe_introduced = None, oe_fixed = Some x, oe_last_affected = None, oe_limit = None\<rparr> \<and> parse_semver_for_matching sv x \<noteq> None \<or>
       e = \<lparr>oe_introduced = None, oe_fixed = None, oe_last_affected = Some x, oe_limit = None\<rparr> \<and> parse_semver_for_matching sv x \<noteq> None \<or>
       e = \<lparr>oe_introduced = None, oe_fixed = None, oe_last_affected = None, oe_limit = Some x\<rparr> \<and> (contains ''*'' x \<or> parse_semver_for_matching sv x \<noteq> None)"
    unfolding event_readable_def by blast
  note parts = event_text_parts [OF x, of "''introduced''"] event_text_parts [OF x, of "''fixed''"]
    event_text_parts [OF x, of "''last_affected''"] event_text_parts [OF x, of "''limit''"]
  note txts = clean [OF x, of "''introduced''"] clean [OF x, of "''fixed''"] clean [OF x, of "''last_affected''"] clean [OF x, of "''limit''"]
  from alt show ?thesis
  proof (elim disjE conjE)
    assume e: "e = \<lparr>oe_introduced = Some x, oe_fixed = None, oe_last_affected = None, oe_limit = None\<rparr>" and "x = ''0''"
    then show ?thesis using parts(1) txts(1)
      by (simp add: event_texts_def event_values_def parse_osv_event_def event_bound_def limit_bound_def)
  next
    assume e: "e = \<lparr>oe_introduced = Some x, oe_fixed = None, oe_last_affected = None, oe_limit = None\<rparr>" and "parse_semver_for_matching sv x \<noteq> None"
    then show ?thesis using parts(1) txts(1)
      by (auto simp: event_texts_def event_values_def parse_osv_event_def event_bound_def limit_bound_def)
  next
    assume e: "e = \<lparr>oe_introduced = None, oe_fixed = Some x, oe_last_affected = None, oe_limit = None\<rparr>" and "parse_semver_for_matching sv x \<noteq> None"
    then show ?thesis using parts(2) txts(2)
      by (auto simp: event_texts_def event_values_def parse_osv_event_def event_bound_def limit_bound_def)
  next
    assume e: "e = \<lparr>oe_introduced = None, oe_fixed = None, oe_last_affected = Some x, oe_limit = None\<rparr>" and "parse_semver_for_matching sv x \<noteq> None"
    then show ?thesis using parts(3) txts(3)
      by (auto simp: event_texts_def event_values_def parse_osv_event_def event_bound_def limit_bound_def)
  next
    assume e: "e = \<lparr>oe_introduced = None, oe_fixed = None, oe_last_affected = None, oe_limit = Some x\<rparr>" and "contains ''*'' x"
    then show ?thesis using parts(4) txts(4)
      by (simp add: event_texts_def event_values_def parse_osv_event_def event_bound_def limit_bound_def)
  next
    assume e: "e = \<lparr>oe_introduced = None, oe_fixed = None, oe_last_affected = None, oe_limit = Some x\<rparr>" and "parse_semver_for_matching sv x \<noteq> None"
    then show ?thesis using parts(4) txts(4)
      by (auto simp: event_texts_def event_values_def parse_osv_event_def event_bound_def limit_bound_def)
  qed
qed

lemma range_parts_readable:
  "list_all (event_readable sv) es \<Longrightarrow> range_parts es ps = ([], ps @ concat (map event_texts es))"
proof (induction es arbitrary: ps)
  case (Cons e es)
  then have "length (filter (\<lambda>x. x \<noteq> None) (event_values e)) = 1" using event_roundtrip [of sv e] by auto
  with Cons show ?case by simp
qed simp

lemma parse_loop_readable:
  "list_all (event_readable sv) es \<Longrightarrow>
   parse_osv_loop sv (concat (map event_texts es)) rng =
     Some (rng\<lparr>osv_events := osv_events rng @ List.map_filter (event_bound sv) es,
               osv_limits := osv_limits rng @ List.map_filter (limit_bound sv) es\<rparr>)"
proof (induction es arbitrary: rng)
  case (Cons e es)
  from Cons.prems event_roundtrip [of sv e rng] obtain t where t: "event_texts e = [t]"
    "parse_osv_event sv t rng = Some (rng\<lparr>osv_events := osv_events rng @ (case event_bound sv e of None \<Rightarrow> [] | Some b \<Rightarrow> [b]),
      osv_limits := osv_limits rng @ (case limit_bound sv e of None \<Rightarrow> [] | Some b \<Rightarrow> [b])\<rparr>)" by auto
  show ?case
    using Cons.prems Cons.IH by (simp add: t map_filter_simps split: option.split)
qed (simp add: map_filter_simps)

lemma event_texts_clean:
  assumes "list_all (event_readable sv) es" and "t \<in> set (concat (map event_texts es))"
  shows "CHR '','' \<notin> set t \<and> CHR '';'' \<notin> set t"
proof -
  from assms obtain e where e: "event_readable sv e" "t \<in> set (event_texts e)" by (auto simp: list_all_iff)
  from event_roundtrip [OF e(1)] obtain t' where "event_texts e = [t']" "CHR '','' \<notin> set t'" "CHR '';'' \<notin> set t'" by blast
  with e(2) show ?thesis by simp
qed

lemma has_event_published:
  assumes "list_all (event_readable sv) es"
  shows "list_ex (\<lambda>(_, k). k = Introduced) (List.map_filter (event_bound sv) es) \<longleftrightarrow> list_ex (\<lambda>e. oe_introduced e \<noteq> None) es"
    and "list_ex (\<lambda>(_, k). k = Fixed) (List.map_filter (event_bound sv) es) \<longleftrightarrow> list_ex (\<lambda>e. oe_fixed e \<noteq> None) es"
    and "list_ex (\<lambda>(_, k). k = LastAffected) (List.map_filter (event_bound sv) es) \<longleftrightarrow> list_ex (\<lambda>e. oe_last_affected e \<noteq> None) es"
  using assms by (induction es) (auto simp: map_filter_simps event_readable_def event_bound_def)

lemma range_roundtrip:
  assumes "range_readable sv r"
  shows "\<exists>c. range_texts r = [c] \<and> osv_clause sv c = Some (published_range sv r) \<and> CHR '';'' \<notin> set c \<and>
    (starts_with ''SEMVER('' c \<or> starts_with ''ECOSYSTEM('' c)"
proof -
  let ?es = "or_events r" and ?parts = "concat (map event_texts (or_events r))"
  have es: "list_all (event_readable sv) ?es" and ty: "or_range_type r = ''SEMVER'' \<or> or_range_type r = ''ECOSYSTEM''"
    and intro: "list_ex (\<lambda>e. oe_introduced e \<noteq> None) ?es"
    and kinds: "\<not> (list_ex (\<lambda>e. oe_fixed e \<noteq> None) ?es \<and> list_ex (\<lambda>e. oe_last_affected e \<noteq> None) ?es)"
    using assms by (auto simp: range_readable_def)
  have ne: "?parts \<noteq> []"
  proof -
    from intro obtain e where e: "e \<in> set ?es" by (auto simp: list_ex_iff)
    with es event_roundtrip [of sv e] have "event_texts e \<noteq> []" by (auto simp: list_all_iff)
    with e show ?thesis by auto
  qed
  have split: "split_on '','' (join '','' ?parts) = ?parts"
    using ne event_texts_clean [OF es] by (intro split_on_join) auto
  have parse: "parse_osv_events sv (join '','' ?parts) = Some (published_range sv r)"
    unfolding parse_osv_events_def split parse_loop_readable [OF es] published_range_def
    using has_event_published [OF es] intro kinds by (simp add: has_event_def)
  have "CHR '';'' \<notin> set (join '','' ?parts)"
    using set_join_subset [of "'',''" ?parts] event_texts_clean [OF es] by auto
  moreover have "range_texts r = [or_range_type r @ ''('' @ join '','' ?parts @ '')'']"
    using ne by (simp add: range_texts_def range_parts_readable [OF es])
  moreover have "osv_clause sv (or_range_type r @ ''('' @ join '','' ?parts @ '')'') = Some (published_range sv r)"
    using ty parse strip_prefix_append [of "''SEMVER(''" "join '','' ?parts @ '')''"]
      strip_prefix_append [of "''ECOSYSTEM(''" "join '','' ?parts @ '')''"] strip_suffix_append [of "'')''" "join '','' ?parts"]
    by (auto simp: osv_clause_def strip_prefix_def)
  ultimately show ?thesis using ty by auto
qed

lemma readable_clauses:
  assumes "list_all (range_readable sv) rs"
  shows "list_all2 (\<lambda>r c. osv_clause sv c = Some (published_range sv r) \<and> CHR '';'' \<notin> set c \<and>
    (starts_with ''SEMVER('' c \<or> starts_with ''ECOSYSTEM('' c)) rs (concat (map range_texts rs))"
  using assms
proof (induction rs)
  case (Cons r rs)
  with range_roundtrip [of sv r] show ?case by auto
qed simp

lemma all2_ex: "list_all2 (\<lambda>x y. f y = Some (g x) \<and> Q y) xs ys \<Longrightarrow> (\<exists>y \<in> set ys. \<exists>z. f y = Some z \<and> P z) \<longleftrightarrow> (\<exists>x \<in> set xs. P (g x))"
  by (induction xs ys rule: list_all2_induct) auto

lemma all2_right: "list_all2 P xs ys \<Longrightarrow> y \<in> set ys \<Longrightarrow> \<exists>x \<in> set xs. P x y"
  by (induction xs ys rule: list_all2_induct) auto

lemma contains_join: "c \<in> set cs \<Longrightarrow> contains p c \<Longrightarrow> contains p (join sep cs)"
proof (induction sep cs rule: join.induct)
  case (3 sep x y ys)
  then show ?case unfolding contains_iff by (auto 4 4 simp: append_assoc) (metis append_assoc)+
qed auto


definition sample_affected :: "osv_affected list" where
  "sample_affected = [\<lparr>oa_package = Some (''crates.io'', ''demo''), oa_versions = [''1.0.0''],
     oa_ranges = [\<lparr>or_range_type = ''SEMVER'',
        or_events = [\<lparr>oe_introduced = Some ''0'', oe_fixed = None, oe_last_affected = None, oe_limit = None\<rparr>,
                     \<lparr>oe_introduced = None, oe_fixed = Some ''2.0.0'', oe_last_affected = None, oe_limit = None\<rparr>]\<rparr>],
     oa_functions = None\<rparr>]"


definition sample_vuln :: osv_vulnerability where
  "sample_vuln = \<lparr>vu_id = ''GHSA-1'', vu_withdrawn = None, vu_summary = None, vu_details = None,
     vu_aliases = [''RUSTSEC-2024-0001''], vu_affected = sample_affected, vu_references = [], vu_severity = [],
     vu_database_specific = None\<rparr>"

definition sample_security_env :: security_env where
  "sample_security_env =
     \<lparr>se_store = \<lparr>st_crates = [], st_versions = [
        \<lparr>cv_id = 7, cv_version = ''1.0.0'', cv_rust_version = None, cv_published_at = None, cv_readme = None,
         vr_crate_id = 3, vr_yanked = False, vr_total_downloads = 0, vr_locally_present = False, vr_source_origin = 0,
         vr_rustdoc_enriched_at = None, vr_rustdoc_last_attempt_at = None, vr_checksum = None,
     vr_license_expression = None, vr_dependencies_synced_at = None\<rparr>]\<rparr>,
      se_query_crate = (\<lambda>_. Inr [sample_vuln]), se_fetch_advisories = (\<lambda>_. Inr []), se_rustsec_db_dir = False,
      se_rustsec_crates_dir = False, se_advisory_markdown_files = (\<lambda>_. []), se_toml = (\<lambda>_. Inl ''toml''),
      se_db_error = (\<lambda>_ _ _. None)\<rparr>"

definition sample_batch :: "security_sync_outcome \<times> security_state" where
  "sample_batch = sync_security_crates sample_semver sample_security_env [\<lparr>sc_id = 3, sc_name = ''demo''\<rparr>]
     \<lparr>ss_rows = [], ss_cache = \<lparr>qc_entries = [], qc_events = []\<rparr>\<rparr>"


text \<open>
  A CVSS v3 vector begins with \<open>CVSS:3.1/\<close>, so the first number found in it is the version of the
  standard: whatever the vector says, the derived severity is low.
\<close>

theorem cvss_vector_is_low:
  "normalize_severity_label [\<lparr>ov_severity_type = t, ov_score = Some (''CVSS:3.1/'' @ vector)\<rparr>] None = Some ''low'' \<and>
   map_option severity_of_score (extract_first_float (''CVSS:3.1/'' @ vector)) = Some ''low''"
proof -
  have "float_token (''CVSS:3.1/'' @ vector) = ''3.1''" by (simp add: float_token_def is_ascii_digit_def)
  moreover have "parse_f64 ''3.1'' = Some (31, 1)" by code_simp
  moreover have "severity_of_score (31, 1) = ''low''" by (simp add: severity_of_score_def)
  ultimately show ?thesis by (simp add: normalize_severity_label_def extract_first_float_def)
qed

section \<open>The periodic scan\<close>

lemma concat_chunks: "0 < n \<Longrightarrow> concat (chunks n xs) = xs"
proof (induction n xs rule: chunks.induct)
  case (1 n xs)
  then show ?case by (subst chunks.simps) auto
qed

lemma scan_chunk_processed:
  "ro_crates_processed (fst (scan_chunk sv env now f chunk s)) = ro_crates_processed (fst s) + length chunk"
  "ro_pages (fst (scan_chunk sv env now f chunk s)) = Suc (ro_pages (fst s))"
  by (auto simp: scan_chunk_def accumulate_def sync_security_crates_def Let_def split: prod.splits)

lemma scan_chunks_processed:
  "ro_crates_processed (fst (fold (scan_chunk sv env now f) cs s)) = ro_crates_processed (fst s) + length (concat cs)"
  by (induction cs arbitrary: s) (simp_all add: scan_chunk_processed)

lemma evidence_current_cong:
  "(\<And>T. filter (of_source T (sc_id k)) rows = filter (of_source T (sc_id k)) rows') \<Longrightarrow>
   evidence_current sv env k rows = evidence_current sv env k rows'"
  by (simp add: evidence_current_def)

lemma stamp_fold_mem:
  "c \<in> set (fold (\<lambda>i cs. if f i then cs else stamp_security_checked_at now i cs) is' cs) \<Longrightarrow>
   c \<in> set cs \<or> (sc_id c \<in> set is' \<and> (\<exists>c0 \<in> set cs. c = c0\<lparr>sc_security_checked_at := Some now\<rparr>))"
proof (induction is' arbitrary: cs)
  case (Cons i is')
  show ?case
  proof (cases "f i")
    case False
    let ?cs = "stamp_security_checked_at now i cs"
    from Cons.prems False have "c \<in> set ?cs \<or> (sc_id c \<in> set is' \<and> (\<exists>c0 \<in> set ?cs. c = c0\<lparr>sc_security_checked_at := Some now\<rparr>))"
      using Cons.IH [of ?cs] by simp
    moreover have "c1 \<in> set cs \<or> (sc_id c1 = i \<and> (\<exists>c0 \<in> set cs. c1 = c0\<lparr>sc_security_checked_at := Some now\<rparr>))" if "c1 \<in> set ?cs" for c1
      using that by (auto simp: stamp_security_checked_at_def split: if_splits)
    ultimately show ?thesis by fastforce
  qed (use Cons in auto)
qed simp

definition scan_inv ::
  "('v::linorder, 'r) semver_api \<Rightarrow> security_env \<Rightarrow> int \<Rightarrow> security_crate list \<Rightarrow> nat set \<Rightarrow> security_crate list \<Rightarrow> crate_advisory_row list \<Rightarrow> bool" where
  "scan_inv sv env now C0 todo cs rows \<longleftrightarrow>
     security_crate_row.truncate ` set cs \<subseteq> security_crate_row.truncate ` set C0 \<and>
     (\<forall>c \<in> set cs. c \<in> set C0 \<or>
        (sc_security_checked_at c = Some now \<and> sc_id c \<notin> todo \<and> evidence_current sv env (security_crate_row.truncate c) rows))"

lemma truncate_sel [simp]:
  "sc_id (security_crate_row.truncate c) = sc_id c" "sc_name (security_crate_row.truncate c) = sc_name c"
  "security_crate_row.truncate (c\<lparr>sc_security_checked_at := x\<rparr>) = security_crate_row.truncate c"
  by (simp_all add: security_crate_row.truncate_def)

lemma truncate_unique:
  assumes "distinct (map sc_id (C0 :: security_crate list))" "x \<in> security_crate_row.truncate ` set C0"
    "y \<in> security_crate_row.truncate ` set C0" "sc_id x = sc_id y"
  shows "x = y"
proof -
  from assms(2,3) obtain a b where ab: "a \<in> set C0" "x = security_crate_row.truncate a" "b \<in> set C0" "y = security_crate_row.truncate b"
    by blast
  have "inj_on sc_id (set C0)" using assms(1) by (simp only: distinct_map)
  moreover have "sc_id a = sc_id b" using assms(4) ab(2,4) by simp
  ultimately have "a = b" using ab(1,3) by (rule inj_onD)
  with ab show ?thesis by simp
qed

lemma scan_chunk_inv:
  assumes C0: "distinct (map sc_id C0)" and inv: "scan_inv sv env now C0 (sc_id ` (set ch \<union> R)) cs (ss_rows st)"
    and ch: "set ch \<subseteq> security_crate_row.truncate ` set C0" "distinct (map sc_id ch)" and R: "sc_id ` set ch \<inter> sc_id ` R = {}"
    and step: "scan_chunk sv env now f ch (run, cs, st) = (run', cs', st')"
  shows "scan_inv sv env now C0 (sc_id ` R) cs' (ss_rows st')"
proof -
  obtain page st1 where page: "sync_security_crates sv env ch st = (page, st1)" by fastforce
  have st': "st' = st1" and cs': "cs' = fold (\<lambda>i cs. if f i then cs else stamp_security_checked_at now i cs) (so_checked_crate_ids page) cs"
    using step page by (auto simp: scan_chunk_def)
  note batch = sync_batch [OF page ch(2)]
  have one: "c \<in> set C0 \<or> (sc_security_checked_at c = Some now \<and> sc_id c \<notin> sc_id ` R \<and>
      evidence_current sv env (security_crate_row.truncate c) (ss_rows st'))"
    and sub: "security_crate_row.truncate c \<in> security_crate_row.truncate ` set C0" if c: "c \<in> set cs'" for c
  proof -
    from stamp_fold_mem [OF c [unfolded cs']]
    have "security_crate_row.truncate c \<in> security_crate_row.truncate ` set C0 \<and> (c \<in> set C0 \<or> (sc_security_checked_at c = Some now \<and> sc_id c \<notin> sc_id ` R \<and>
      evidence_current sv env (security_crate_row.truncate c) (ss_rows st')))"
    proof
      assume old: "c \<in> set cs"
      have "evidence_current sv env (security_crate_row.truncate c) (ss_rows st')"
        if "evidence_current sv env (security_crate_row.truncate c) (ss_rows st)" "sc_id c \<notin> sc_id ` set ch"
        using that evidence_current_cong [of "security_crate_row.truncate c" "ss_rows st'" "ss_rows st" sv env] batch(2)
        unfolding st' truncate_sel by blast
      with old inv show ?thesis unfolding scan_inv_def by auto
    next
      assume new: "sc_id c \<in> set (so_checked_crate_ids page) \<and> (\<exists>c0 \<in> set cs. c = c0\<lparr>sc_security_checked_at := Some now\<rparr>)"
      then obtain c0 where c0: "c0 \<in> set cs" "c = c0\<lparr>sc_security_checked_at := Some now\<rparr>" by blast
      then have mem: "security_crate_row.truncate c \<in> security_crate_row.truncate ` set C0" using inv by (auto simp: scan_inv_def)
      from new batch(3) obtain k where k: "k \<in> set ch" "sc_id k = sc_id c" by force
      then have "k = security_crate_row.truncate c" using truncate_unique [OF C0 _ mem, of k] ch(1) by auto
      moreover have "sc_id c \<notin> sc_id ` R" using R k by (metis disjoint_iff image_eqI)
      moreover have "sc_security_checked_at c = Some now" using c0(2) by simp
      ultimately show ?thesis using batch(1) [OF k(1)] new k(2) mem unfolding st' by simp
    qed
    then show "security_crate_row.truncate c \<in> security_crate_row.truncate ` set C0"
      "c \<in> set C0 \<or> (sc_security_checked_at c = Some now \<and> sc_id c \<notin> sc_id ` R \<and>
      evidence_current sv env (security_crate_row.truncate c) (ss_rows st'))" by auto
  qed
  then show ?thesis unfolding scan_inv_def by blast
qed

lemma scan_chunks_inv:
  assumes "distinct (map sc_id C0)" and "set (concat chs) \<subseteq> security_crate_row.truncate ` set C0" and "distinct (map sc_id (concat chs))"
    and "scan_inv sv env now C0 (sc_id ` set (concat chs)) cs (ss_rows st)"
    and "fold (scan_chunk sv env now f) chs (run, cs, st) = (run', cs', st')"
  shows "scan_inv sv env now C0 {} cs' (ss_rows st')"
  using assms(2-)
proof (induction chs arbitrary: run cs st)
  case (Cons ch chs)
  obtain run1 cs1 st1 where s: "scan_chunk sv env now f ch (run, cs, st) = (run1, cs1, st1)" by (metis prod_cases3)
  have "scan_inv sv env now C0 (sc_id ` set (concat chs)) cs1 (ss_rows st1)"
  proof (rule scan_chunk_inv [OF assms(1) _ _ _ _ s])
    show "scan_inv sv env now C0 (sc_id ` (set ch \<union> set (concat chs))) cs (ss_rows st)" using Cons.prems(3) by simp
    show "set ch \<subseteq> security_crate_row.truncate ` set C0" "distinct (map sc_id ch)" using Cons.prems(1,2) by auto
    show "sc_id ` set ch \<inter> sc_id ` set (concat chs) = {}" using Cons.prems(2) by simp
  qed
  then show ?case using Cons.IH [of cs1 st1 run1] Cons.prems s by simp
qed simp


definition sample_scan :: "security_sync_run_outcome \<times> security_crate list \<times> security_state" where
  "sample_scan = run_security_sync_scan sample_semver sample_security_env 100 (\<lambda>_. False) None 1 (Some 60)
     ([\<lparr>sc_id = 3, sc_name = ''demo'', sc_security_checked_at = None\<rparr>, \<lparr>sc_id = 4, sc_name = ''fresh'', sc_security_checked_at = Some 90\<rparr>],
      \<lparr>ss_rows = [], ss_cache = \<lparr>qc_entries = [], qc_events = []\<rparr>\<rparr>)"


end
