(* ===== verification/Sessions.thy ===== *)
theory Sessions
  imports Text_Utils
begin

text \<open>
  Persistence of legacy-protocol sessions: the statements of \<open>db/sessions.rs\<close>, the store
  \<open>PgSessionStore\<close> and the pruning of idle sessions of \<open>mcp/session.rs\<close>.  The session type of \<open>rmcp\<close> and
  its JSON form are arguments; times are seconds, and each statement sees its own \<open>NOW()\<close>.
\<close>

section \<open>The table\<close>

record session_row =
  ss_session_id :: string
  ss_state :: json
  ss_last_seen_at :: int

type_synonym sessions = "session_row list"

definition session_row_of :: "sessions \<Rightarrow> string \<Rightarrow> session_row option" where
  "session_row_of db sid = find (\<lambda>r. ss_session_id r = sid) db"

definition upsert_session :: "int \<Rightarrow> string \<Rightarrow> json \<Rightarrow> sessions \<Rightarrow> sessions" where
  "upsert_session now sid state db =
     (if list_ex (\<lambda>r. ss_session_id r = sid) db
      then map (\<lambda>r. if ss_session_id r = sid then r\<lparr>ss_state := state, ss_last_seen_at := now\<rparr> else r) db
      else db @ [\<lparr>ss_session_id = sid, ss_state = state, ss_last_seen_at = now\<rparr>])"

definition touch_sessions :: "int \<Rightarrow> string list \<Rightarrow> sessions \<Rightarrow> sessions" where
  "touch_sessions now sids db = map (\<lambda>r. if ss_session_id r \<in> set sids then r\<lparr>ss_last_seen_at := now\<rparr> else r) db"

definition load_session :: "int \<Rightarrow> string \<Rightarrow> sessions \<Rightarrow> json option \<times> sessions" where
  "load_session now sid db = (map_option ss_state (session_row_of db sid), touch_sessions now [sid] db)"

definition delete_session :: "string \<Rightarrow> sessions \<Rightarrow> sessions" where
  "delete_session sid db = filter (\<lambda>r. ss_session_id r \<noteq> sid) db"

definition stale_session :: "int \<Rightarrow> int \<Rightarrow> session_row \<Rightarrow> bool" where
  "stale_session now max_age_secs r \<longleftrightarrow> ss_last_seen_at r < now - max_age_secs"

definition delete_stale_sessions :: "int \<Rightarrow> int \<Rightarrow> sessions \<Rightarrow> nat \<times> sessions" where
  "delete_stale_sessions now max_age_secs db =
     (length (filter (stale_session now max_age_secs) db), filter (\<lambda>r. \<not> stale_session now max_age_secs r) db)"

section \<open>The store\<close>

datatype store_error = DatabaseError string | JsonError string

record 's session_api =
  sn_to_value :: "'s \<Rightarrow> string + json"
  sn_from_value :: "json \<Rightarrow> string + 's"

definition store_load ::
  "'s session_api \<Rightarrow> string option \<Rightarrow> int \<Rightarrow> string \<Rightarrow> sessions \<Rightarrow> (store_error + 's option) \<times> sessions" where
  "store_load api db_error now sid db =
     (case db_error of
        Some e \<Rightarrow> (Inl (DatabaseError e), db)
      | None \<Rightarrow>
          (case load_session now sid db of
             (None, db') \<Rightarrow> (Inr None, db')
           | (Some state, db') \<Rightarrow>
               (case sn_from_value api state of Inl e \<Rightarrow> (Inl (JsonError e), db') | Inr s \<Rightarrow> (Inr (Some s), db'))))"

definition store_store ::
  "'s session_api \<Rightarrow> string option \<Rightarrow> int \<Rightarrow> string \<Rightarrow> 's \<Rightarrow> sessions \<Rightarrow> (store_error + unit) \<times> sessions" where
  "store_store api db_error now sid s db =
     (case sn_to_value api s of
        Inl e \<Rightarrow> (Inl (JsonError e), db)
      | Inr state \<Rightarrow>
          (case db_error of Some e \<Rightarrow> (Inl (DatabaseError e), db) | None \<Rightarrow> (Inr (), upsert_session now sid state db)))"

definition store_delete :: "string option \<Rightarrow> string \<Rightarrow> sessions \<Rightarrow> (store_error + unit) \<times> sessions" where
  "store_delete db_error sid db =
     (case db_error of Some e \<Rightarrow> (Inl (DatabaseError e), db) | None \<Rightarrow> (Inr (), delete_session sid db))"

section \<open>Pruning\<close>

definition prune_stale ::
  "string option \<Rightarrow> string option \<Rightarrow> int \<Rightarrow> int \<Rightarrow> string list \<Rightarrow> int \<Rightarrow> sessions \<Rightarrow> nat result \<times> sessions" where
  "prune_stale touch_error delete_error touched_at deleted_at live max_idle_secs db =
     (case (if live = [] then None else touch_error) of
        Some e \<Rightarrow> (Inl e, db)
      | None \<Rightarrow>
          (let db' = (if live = [] then db else touch_sessions touched_at live db)
           in case delete_error of
                Some e \<Rightarrow> (Inl e, db')
              | None \<Rightarrow> (let (n, db'') = delete_stale_sessions deleted_at max_idle_secs db' in (Inr n, db''))))"

text \<open>One pass of \<open>run_session_reaper\<close>: the timeout is a \<open>u64\<close> that is cast to \<open>i64\<close>; zero disables the reaper.\<close>

definition reaper_poll_interval :: "64 word \<Rightarrow> nat" where
  "reaper_poll_interval timeout_secs = max (unat (timeout_secs div 2)) 60"

definition reaper_pass ::
  "string option \<Rightarrow> string option \<Rightarrow> int \<Rightarrow> int \<Rightarrow> string list \<Rightarrow> 64 word \<Rightarrow> sessions \<Rightarrow> sessions" where
  "reaper_pass touch_error delete_error touched_at deleted_at live timeout_secs db =
     (if timeout_secs = 0 then db
      else snd (prune_stale touch_error delete_error touched_at deleted_at live (sint timeout_secs) db))"

section \<open>The contract of a session store\<close>

definition sessions_inv :: "sessions \<Rightarrow> bool" where
  "sessions_inv db \<longleftrightarrow> distinct (map ss_session_id db)"

locale session_store =
  fixes inv :: "'d \<Rightarrow> bool" and load :: "string \<Rightarrow> 'd \<Rightarrow> 'a option" and seen :: "string \<Rightarrow> 'd \<Rightarrow> 'd"
    and put :: "string \<Rightarrow> 'a \<Rightarrow> 'd \<Rightarrow> 'd" and drop_session :: "string \<Rightarrow> 'd \<Rightarrow> 'd"
  assumes inv_put: "inv d \<Longrightarrow> inv (put i s d)" and inv_seen: "inv d \<Longrightarrow> inv (seen i d)" and inv_drop: "inv d \<Longrightarrow> inv (drop_session i d)"
    and load_put: "inv d \<Longrightarrow> load j (put i s d) = (if j = i then Some s else load j d)"
    and load_seen: "inv d \<Longrightarrow> load j (seen i d) = load j d"
    and load_drop: "inv d \<Longrightarrow> load j (drop_session i d) = (if j = i then None else load j d)"
begin

lemma load_seen_many: "inv d \<Longrightarrow> inv (fold seen is d) \<and> load j (fold seen is d) = load j d"
  by (induction "is" arbitrary: d) (auto simp: inv_seen load_seen)

lemma restored:
  assumes "inv d"
  shows "load i (fold seen is (put i s d)) = Some s" and "load i (fold seen is (drop_session i d)) = None"
  using assms load_seen_many inv_put inv_drop load_put load_drop by simp_all

end

lemma find_map_id:
  "(\<And>r. ss_session_id (f r) = ss_session_id r) \<Longrightarrow> session_row_of (map f db) sid = map_option f (session_row_of db sid)"
  unfolding session_row_of_def by (induction db) auto

lemma session_row_of_filter: "session_row_of (filter (\<lambda>r. ss_session_id r \<noteq> i) db) j = (if j = i then None else session_row_of db j)"
  unfolding session_row_of_def by (induction db) auto

lemma session_row_of_append: "session_row_of (db @ [r]) sid = (case session_row_of db sid of None \<Rightarrow> if ss_session_id r = sid then Some r else None | Some x \<Rightarrow> Some x)"
  unfolding session_row_of_def by (induction db) auto

lemma session_row_of_None: "session_row_of db sid = None \<longleftrightarrow> \<not> list_ex (\<lambda>r. ss_session_id r = sid) db"
  unfolding session_row_of_def by (induction db) auto

lemma session_row_of_id: "session_row_of db sid = Some r \<Longrightarrow> ss_session_id r = sid \<and> r \<in> set db"
  unfolding session_row_of_def by (induction db) (auto split: if_splits)

interpretation pg: session_store sessions_inv "\<lambda>i db. fst (load_session now i db)" "\<lambda>i db. snd (load_session now i db)"
  "upsert_session now" delete_session
proof (unfold_locales, goal_cases)
  case (1 d i s)
  have "map (ss_session_id \<circ> (\<lambda>r. if ss_session_id r = i then r\<lparr>ss_state := s, ss_last_seen_at := now\<rparr> else r)) d = map ss_session_id d"
    by (simp add: map_eq_conv)
  then have "list_ex (\<lambda>r. ss_session_id r = i) d \<Longrightarrow> ?case" using 1 by (simp only: sessions_inv_def upsert_session_def map_map if_True)
  moreover have "\<not> list_ex (\<lambda>r. ss_session_id r = i) d \<Longrightarrow> ?case" using 1 by (auto simp: sessions_inv_def upsert_session_def list_ex_iff)
  ultimately show ?case by blast
next
  case (2 d i)
  have "map ss_session_id (snd (load_session now i d)) = map ss_session_id d"
    by (simp add: load_session_def touch_sessions_def map_eq_conv)
  then show ?case using 2 by (simp only: sessions_inv_def)
next
  case (3 d i)
  then show ?case by (simp add: sessions_inv_def delete_session_def distinct_map_filter)
next
  case (4 d j i s)
  show ?case
  proof (cases "session_row_of d i")
    case None
    then have "\<not> list_ex (\<lambda>r. ss_session_id r = i) d" unfolding session_row_of_None .
    then have "upsert_session now i s d = d @ [\<lparr>ss_session_id = i, ss_state = s, ss_last_seen_at = now\<rparr>]" by (simp add: upsert_session_def)
    then show ?thesis using None by (auto simp: load_session_def session_row_of_append split: option.split)
  next
    case (Some r)
    then have "list_ex (\<lambda>r. ss_session_id r = i) d" using session_row_of_None [of d i] by simp
    then have "session_row_of (upsert_session now i s d) j =
        map_option (\<lambda>r. if ss_session_id r = i then r\<lparr>ss_state := s, ss_last_seen_at := now\<rparr> else r) (session_row_of d j)"
      unfolding upsert_session_def by (simp add: find_map_id)
    then show ?thesis using Some session_row_of_id [of d j] by (cases "session_row_of d j") (auto simp: load_session_def)
  qed
next
  case (5 d j i)
  show ?case by (cases "session_row_of d j") (simp_all add: load_session_def touch_sessions_def find_map_id)
next
  case (6 d j i)
  show ?case by (simp add: load_session_def delete_session_def session_row_of_filter)
qed

section \<open>What pruning keeps\<close>

text \<open>
  Pruning never removes a live session: when the two statements run within the idle limit of each other, a stored
  session survives exactly if it is live or was seen within the limit, with its state unchanged; live
  ones are marked as seen, and the number reported is the number removed.
\<close>

theorem prune_keeps_live_sessions:
  assumes "sessions_inv db" and "prune_stale None None touched_at deleted_at live max_idle db = (Inr n, db')"
    and "deleted_at - touched_at \<le> max_idle"
  shows "db' = map (\<lambda>r. if ss_session_id r \<in> set live then r\<lparr>ss_last_seen_at := touched_at\<rparr> else r)
      (filter (\<lambda>r. ss_session_id r \<in> set live \<or> \<not> stale_session deleted_at max_idle r) db) \<and>
    n + length db' = length db \<and> sessions_inv db'"
proof -
  let ?f = "\<lambda>r. if ss_session_id r \<in> set live then r\<lparr>ss_last_seen_at := touched_at\<rparr> else r"
  let ?P = "\<lambda>r. ss_session_id r \<in> set live \<or> \<not> stale_session deleted_at max_idle r"
  have t: "(if live = [] then db else touch_sessions touched_at live db) = map ?f db" by (simp add: touch_sessions_def)
  have p: "(\<not> stale_session deleted_at max_idle (?f r)) = ?P r" for r using assms(3) by (simp add: stale_session_def)
  have db': "db' = filter (\<lambda>r. \<not> stale_session deleted_at max_idle r) (map ?f db)"
    and n: "n = length (filter (stale_session deleted_at max_idle) (map ?f db))"
    using assms(2) by (auto simp: prune_stale_def t delete_stale_sessions_def Let_def)
  then have e: "db' = map ?f (filter ?P db)" using p by (simp add: filter_map o_def cong: filter_cong)
  have "map ss_session_id db' = map ss_session_id (filter ?P db)" unfolding e by simp
  then have "sessions_inv db'" using assms(1) by (simp add: sessions_inv_def distinct_map_filter)
  moreover have "n + length db' = length db" 
    unfolding n db' using sum_length_filter_compl [of "stale_session deleted_at max_idle" "map ?f db"] by (simp only: length_map)
  ultimately show ?thesis using e by simp
qed

theorem prune_keeps_live_sessions_witness:
  "prune_stale None None 100 101 [''a''] 60 [\<lparr>ss_session_id = ''a'', ss_state = JNull, ss_last_seen_at = 1\<rparr>,
      \<lparr>ss_session_id = ''b'', ss_state = JNull, ss_last_seen_at = 2\<rparr>] =
     (Inr 1, [\<lparr>ss_session_id = ''a'', ss_state = JNull, ss_last_seen_at = 100\<rparr>]) \<and>
   sessions_inv [\<lparr>ss_session_id = ''a'', ss_state = JNull, ss_last_seen_at = 100\<rparr>]"
proof -
  let ?db = "[\<lparr>ss_session_id = ''a'', ss_state = JNull, ss_last_seen_at = 1\<rparr>, \<lparr>ss_session_id = ''b'', ss_state = JNull, ss_last_seen_at = 2\<rparr>]"
  have run: "prune_stale None None 100 101 [''a''] 60 ?db = (Inr 1, [\<lparr>ss_session_id = ''a'', ss_state = JNull, ss_last_seen_at = 100\<rparr>])"
    by (simp add: prune_stale_def touch_sessions_def delete_stale_sessions_def stale_session_def)
  have "sessions_inv ?db" by (simp add: sessions_inv_def)
  from prune_keeps_live_sessions [OF this run] run show ?thesis by simp
qed

text \<open>
  A session that was stored is restored unchanged however often it was loaded since, and a deleted one is not
  restored, given that the JSON form of a session can be read back.
\<close>

theorem session_restore_roundtrip:
  assumes "sessions_inv db" and "\<And>s v. sn_to_value api s = Inr v \<Longrightarrow> sn_from_value api v = Inr s"
    and "store_store api None now sid s db = (Inr (), db')"
  shows "fst (store_load api None later sid (fold (\<lambda>i d. snd (load_session later i d)) sids db')) = Inr (Some s) \<and>
    fst (store_load api None later sid (fold (\<lambda>i d. snd (load_session later i d)) sids (snd (store_delete None sid db')))) = Inr None"
proof -
  obtain v where v: "sn_to_value api s = Inr v" "db' = upsert_session now sid v db"
    using assms(3) by (auto simp: store_store_def split: sum.splits)
  have inv: "sessions_inv db'" unfolding v(2) by (rule pg.inv_put [OF assms(1)])
  have same: "fst (load_session t i d) = fst (load_session u i d)" for t u i d by (simp add: load_session_def)
  have "fst (load_session now sid db') = Some v" unfolding v(2) using pg.load_put [OF assms(1)] by simp
  then have kept: "fst (load_session later sid (fold (\<lambda>i d. snd (load_session later i d)) sids db')) = Some v"
    using pg.load_seen_many [OF inv] same by metis
  have "fst (load_session later sid (fold (\<lambda>i d. snd (load_session later i d)) sids (delete_session sid db'))) = None"
    by (rule pg.restored(2) [OF inv])
  with kept show ?thesis using assms(2) [OF v(1)] by (simp add: store_load_def store_delete_def case_prod_beta split: prod.split option.split)
qed

theorem session_restore_roundtrip_witness:
  "fst (store_load \<lparr>sn_to_value = Inr, sn_from_value = Inr\<rparr> None 9 ''a'' (fold (\<lambda>i d. snd (load_session 9 i d)) [''b'', ''a'']
      (upsert_session 5 ''a'' JNull []))) = Inr (Some JNull)"
proof -
  let ?api = "\<lparr>sn_to_value = Inr, sn_from_value = Inr\<rparr> :: json session_api"
  have inv: "sessions_inv []" by (simp add: sessions_inv_def)
  have law: "\<And>s v. sn_to_value ?api s = Inr v \<Longrightarrow> sn_from_value ?api v = Inr s" by simp
  have run: "store_store ?api None 5 ''a'' JNull [] = (Inr (), upsert_session 5 ''a'' JNull [])" by (simp add: store_store_def)
  show ?thesis using session_restore_roundtrip [OF inv law run, of 9 "[''b'', ''a'']"] by blast
qed

text \<open>
  A timeout of \<open>2 ^ 63\<close> seconds and more is cast to a negative number, so that a pass deletes live sessions too.
\<close>

lemma huge_timeout_deletes_live_sessions:
  "reaper_pass None None 100 101 [''a''] (- 1) [\<lparr>ss_session_id = ''a'', ss_state = JNull, ss_last_seen_at = 1\<rparr>] = []"
  by (simp add: reaper_pass_def prune_stale_def touch_sessions_def delete_stale_sessions_def stale_session_def)

end
