(* ===== verification/Source_Disk.thy ===== *)
theory Source_Disk
  imports Local_Cache
begin

text \<open>
  Access to unpacked crate sources (\<open>mcp/utils.rs\<close>) and the ripgrep wrapper (\<open>mcp/ripgrep.rs\<close>): where
  the sources of a version lie on disk, how a file of the index is read back, and how the output of
  \<open>rg --json\<close> becomes a list of matches.  The listing of the registry directory, \<open>is_dir\<close>,
  \<open>read_to_string\<close>, the \<open>rg\<close> process and \<open>serde_json\<close> are arguments.
\<close>

section \<open>Source directories\<close>

text \<open>
  The disk as the look-ups see it.  The listing of \<open>src\<close> under the cargo registry fails or gives
  entries, each an error or a path with what \<open>file_type\<close> says of it (nothing when that fails).
\<close>

record source_disk =
  sd_cargo_registry_dir :: path
  sd_crate_source_cache_dir :: path
  sd_read_dir :: "path \<Rightarrow> (path \<times> bool option) result list result"
  sd_is_dir :: "path \<Rightarrow> bool"
  sd_read_to_string :: "path \<Rightarrow> string result"

fun registry_source_dir :: "source_disk \<Rightarrow> string \<Rightarrow> (path \<times> bool option) result list \<Rightarrow> path option" where
  "registry_source_dir disk target_dir_name [] = None"
| "registry_source_dir disk target_dir_name (Inl e # entries) = registry_source_dir disk target_dir_name entries"
| "registry_source_dir disk target_dir_name (Inr (p, file_type) # entries) =
     (if file_type \<noteq> Some True then registry_source_dir disk target_dir_name entries
      else if sd_is_dir disk (p @ [target_dir_name]) then Some (p @ [target_dir_name])
      else registry_source_dir disk target_dir_name entries)"

definition resolve_source_dir :: "source_disk \<Rightarrow> path \<Rightarrow> path option \<Rightarrow> string \<Rightarrow> string \<Rightarrow> path option" where
  "resolve_source_dir disk cargo_registry_dir crate_source_cache_dir crate_name ver =
     (let target_dir_name = crate_name @ ''-'' @ ver;
          registry = (case sd_read_dir disk (cargo_registry_dir @ [''src'']) of
            Inl _ \<Rightarrow> None
          | Inr entries \<Rightarrow> registry_source_dir disk target_dir_name entries)
      in case registry of
           Some d \<Rightarrow> Some d
         | None \<Rightarrow>
             (case crate_source_cache_dir of
                None \<Rightarrow> None
              | Some cache_dir \<Rightarrow> if sd_is_dir disk (cache_dir @ [target_dir_name]) then Some (cache_dir @ [target_dir_name]) else None))"

definition resolve_registry_source_dir :: "source_disk \<Rightarrow> path \<Rightarrow> string \<Rightarrow> string \<Rightarrow> path option" where
  "resolve_registry_source_dir disk cargo_registry_dir crate_name ver =
     resolve_source_dir disk cargo_registry_dir None crate_name ver"

text \<open>\<open>Path::join\<close> with a string: an absolute argument replaces the path; empty and \<open>.\<close> components do not count.\<close>

definition path_components :: "string \<Rightarrow> path" where
  "path_components s = filter (\<lambda>c. c \<noteq> [] \<and> c \<noteq> ''.'') (split_on ''/'' s)"

definition path_join :: "path \<Rightarrow> string \<Rightarrow> path" where
  "path_join dir s = (if starts_with ''/'' s then [] # path_components s else dir @ path_components s)"

definition read_in_dir :: "source_disk \<Rightarrow> string \<Rightarrow> path \<Rightarrow> string option" where
  "read_in_dir disk relative version_dir =
     (case sd_read_to_string disk (path_join version_dir relative) of Inl _ \<Rightarrow> None | Inr content \<Rightarrow> Some content)"

definition read_source_file_from_disk :: "source_disk \<Rightarrow> path \<Rightarrow> string \<Rightarrow> string \<Rightarrow> string \<Rightarrow> string option" where
  "read_source_file_from_disk disk cargo_registry_dir crate_name ver relative =
     Option.bind (resolve_registry_source_dir disk cargo_registry_dir crate_name ver) (read_in_dir disk relative)"

definition read_source_file_from_disk_or_cache ::
  "source_disk \<Rightarrow> path \<Rightarrow> path option \<Rightarrow> string \<Rightarrow> string \<Rightarrow> string \<Rightarrow> string option" where
  "read_source_file_from_disk_or_cache disk cargo_registry_dir crate_source_cache_dir crate_name ver relative =
     Option.bind (resolve_source_dir disk cargo_registry_dir crate_source_cache_dir crate_name ver) (read_in_dir disk relative)"

section \<open>ripgrep\<close>

record ripgrep_match =
  rm_path :: string
  rm_line_number :: u32
  rm_line_content :: string

datatype ripgrep_mode = FixedString | Regex

datatype ripgrep_error = RgNotFound string | ExecutionFailed "int option" string | ParseError string

definition show_i32 :: "int \<Rightarrow> string" where
  "show_i32 i = (if i < 0 then ''-'' @ show_nat (nat (- i)) else show_nat (nat i))"

fun display_ripgrep_error :: "ripgrep_error \<Rightarrow> string" where
  "display_ripgrep_error (RgNotFound e) = ''ripgrep binary not found: '' @ e"
| "display_ripgrep_error (ExecutionFailed exit_code stderr) =
     ''ripgrep failed (exit code '' @ (case exit_code of None \<Rightarrow> ''None'' | Some c \<Rightarrow> ''Some('' @ show_i32 c @ '')'') @ ''): '' @ trim stderr"
| "display_ripgrep_error (ParseError msg) = ''ripgrep output parse error: '' @ msg"

record rg_output =
  ro_exit_code :: "int option"
  ro_stdout :: string
  ro_stderr :: string

text \<open>The \<open>rg\<close> process: its arguments give the error of spawning it or its output.\<close>

record rg_api =
  ra_run :: "string list \<Rightarrow> rg_output result"
  ra_from_str :: "string \<Rightarrow> json result"

definition json_pointer2 :: "string \<Rightarrow> string \<Rightarrow> json \<Rightarrow> json option" where
  "json_pointer2 a b v = Option.bind (json_get a v) (json_get b)"

definition parse_match :: "path \<Rightarrow> json \<Rightarrow> ripgrep_match option" where
  "parse_match search_root value =
     (if Option.bind (json_get ''type'' value) as_str \<noteq> Some ''match'' then None
      else (case json_get ''data'' value of
          None \<Rightarrow> None
        | Some data \<Rightarrow>
            (let raw_path = unwrap_or (Option.bind (json_pointer2 ''path'' ''text'' data) as_str) [];
                 stripped = unwrap_or (strip_prefix (display_path search_root) raw_path) raw_path;
                 text_of = unwrap_or (Option.bind (json_pointer2 ''lines'' ''text'' data) as_str) []
             in Some \<lparr>rm_path = strip_front [[CHR 0x5C]] (strip_front [''/''] stripped),
                      rm_line_number = of_nat (unwrap_or (Option.bind (json_get ''line_number'' data) as_u64) 0),
                      rm_line_content = rev (strip_front [[CHR 0x0D]] (strip_front [[CHR 0x0A]] (rev text_of)))\<rparr>)))"

fun parse_lines :: "(string \<Rightarrow> json result) \<Rightarrow> path \<Rightarrow> nat \<Rightarrow> string list \<Rightarrow> ripgrep_match list \<Rightarrow> ripgrep_error + ripgrep_match list" where
  "parse_lines from_str search_root max_results [] matches = Inr matches"
| "parse_lines from_str search_root max_results (line # lines) matches =
     (if length matches \<ge> max_results then Inr matches
      else (case from_str line of
          Inl e \<Rightarrow> Inl (ParseError e)
        | Inr value \<Rightarrow>
            parse_lines from_str search_root max_results lines
              (case parse_match search_root value of None \<Rightarrow> matches | Some m \<Rightarrow> matches @ [m])))"

definition parse_json_output ::
  "(string \<Rightarrow> json result) \<Rightarrow> string \<Rightarrow> path \<Rightarrow> nat \<Rightarrow> ripgrep_error + ripgrep_match list" where
  "parse_json_output from_str stdout search_root max_results = parse_lines from_str search_root max_results (str_lines stdout) []"

definition rg_args :: "path \<Rightarrow> string \<Rightarrow> ripgrep_mode \<Rightarrow> string option \<Rightarrow> string list" where
  "rg_args dir pattern mode path_glob =
     [''--json'', ''--no-heading''] @
     (case mode of FixedString \<Rightarrow> [''-F'', ''-i''] | Regex \<Rightarrow> [''-i'']) @
     (case path_glob of None \<Rightarrow> [] | Some glob \<Rightarrow> [''--glob'', glob]) @
     [''--'', pattern, display_path dir]"

definition rg_search ::
  "rg_api \<Rightarrow> path \<Rightarrow> string \<Rightarrow> ripgrep_mode \<Rightarrow> string option \<Rightarrow> nat \<Rightarrow> ripgrep_error + ripgrep_match list" where
  "rg_search api dir pattern mode path_glob max_results =
     (case ra_run api (rg_args dir pattern mode path_glob) of
        Inl e \<Rightarrow> Inl (RgNotFound e)
      | Inr output \<Rightarrow>
          if ro_exit_code output \<noteq> Some 0 \<and> ro_exit_code output \<noteq> Some 1
          then Inl (ExecutionFailed (ro_exit_code output) (ro_stderr output))
          else parse_json_output (ra_from_str api) (ro_stdout output) dir max_results)"

fun search_multiple ::
  "rg_api \<Rightarrow> (path \<times> 't) list \<Rightarrow> string \<Rightarrow> ripgrep_mode \<Rightarrow> string option \<Rightarrow> nat \<Rightarrow> nat \<Rightarrow> ('t \<times> ripgrep_match) list \<Rightarrow>
   ripgrep_error + ('t \<times> ripgrep_match) list" where
  "search_multiple api [] pattern mode path_glob max_per_dir max_total results = Inr results"
| "search_multiple api ((dir, tag) # dirs) pattern mode path_glob max_per_dir max_total results =
     (if length results \<ge> max_total then Inr results
      else (case rg_search api dir pattern mode path_glob (min max_per_dir (max_total - length results)) of
          Inl e \<Rightarrow> Inl e
        | Inr matches \<Rightarrow>
            search_multiple api dirs pattern mode path_glob max_per_dir max_total
              (take max_total (results @ map (Pair tag) matches))))"

section \<open>Properties\<close>

text \<open>
  A resolved directory exists and is named after the crate and version; it lies in a registry
  directory, or in the download cache when no registry directory has it.
\<close>

lemma registry_source_dir_Some:
  "registry_source_dir disk n entries = Some d \<Longrightarrow> sd_is_dir disk d \<and> (\<exists>p. Inr (p, Some True) \<in> set entries \<and> d = p @ [n])"
  by (induction disk n entries rule: registry_source_dir.induct) (auto split: if_splits)

lemma registry_source_dir_None:
  "registry_source_dir disk n entries = None \<longleftrightarrow> (\<forall>p. Inr (p, Some True) \<in> set entries \<longrightarrow> \<not> sd_is_dir disk (p @ [n]))"
  by (induction disk n entries rule: registry_source_dir.induct) (auto split: if_splits)

lemma resolve_source_dir_Some:
  assumes "resolve_source_dir disk registry cache n v = Some d"
  shows "sd_is_dir disk d \<and> (\<exists>p. d = p @ [n @ ''-'' @ v] \<and>
    ((\<exists>entries. sd_read_dir disk (registry @ [''src'']) = Inr entries \<and> Inr (p, Some True) \<in> set entries) \<or> cache = Some p))"
  using assms registry_source_dir_Some
  by (auto simp: resolve_source_dir_def Let_def split: sum.splits option.splits if_splits dest!: registry_source_dir_Some)

text \<open>
  A file that the scan of the local cache recorded under a relative path is read back under that
  path, when its components are plain names.
\<close>

definition plain_component :: "string \<Rightarrow> bool" where
  "plain_component c \<longleftrightarrow> c \<noteq> [] \<and> c \<noteq> ''.'' \<and> CHR ''/'' \<notin> set c \<and> CHR 0x5C \<notin> set c"

lemma set_join: "set (join sep ps) \<subseteq> set sep \<union> \<Union> (set ` set ps)"
  by (induction sep ps rule: join.induct) auto

lemma map_slash_id: "CHR 0x5C \<notin> set s \<Longrightarrow> map slash s = s"
  by (rule map_idI) (auto simp: slash_def)

lemma relative_path_read_back:
  assumes "list_all plain_component p" "p \<noteq> []"
  shows "\<exists>rel. relative_path root (root @ p) = Inr rel \<and> path_join root rel = root @ p"
proof -
  let ?rel = "join ''/'' p"
  have "CHR 0x5C \<notin> set ?rel"
    using set_join [of "''/''" p] assms(1) by (auto simp: list_all_iff plain_component_def)
  then have "relative_path root (root @ p) = Inr ?rel" by (simp add: relative_path_def display_path_def map_slash_id)
  moreover have "path_components ?rel = p"
    using split_on_join [of p "CHR ''/''"] assms by (auto simp: path_components_def list_all_iff plain_component_def)
  moreover have "\<not> starts_with ''/'' ?rel"
  proof (cases p)
    case (Cons x xs)
    then obtain c cs where "x = c # cs" "c \<noteq> CHR ''/''" using assms(1) by (cases x) (auto simp: plain_component_def)
    with Cons show ?thesis by (cases xs) auto
  qed (use assms(2) in simp)
  ultimately show ?thesis by (auto simp: path_join_def)
qed

text \<open>
  The matches that the wrapper returns are those of the output of \<open>rg\<close> in its order, cut at the
  limit; a line that is no JSON is an error unless the limit was reached before it.
\<close>

lemma parse_lines_matches:
  assumes "parse_lines from_str root m lines acc = Inr ms" and "length acc \<le> m"
  shows "\<exists>vals rest. map Inr vals @ rest = map from_str lines \<and>
    ms = acc @ List.map_filter (parse_match root) vals \<and> length ms \<le> m \<and> (rest = [] \<or> length ms = m)"
  using assms
proof (induction lines arbitrary: acc)
  case Nil
  then show ?case by (simp add: map_filter_def)
next
  case (Cons line lines)
  show ?case
  proof (cases "m \<le> length acc")
    case True
    with Cons.prems show ?thesis by (intro exI [of _ "[]"] exI [of _ "map from_str (line # lines)"]) (simp add: map_filter_def)
  next
    case False
    then obtain x where v: "from_str line = Inr x" using Cons.prems(1) by (auto split: sum.splits)
    let ?acc = "case parse_match root x of None \<Rightarrow> acc | Some y \<Rightarrow> acc @ [y]"
    have "parse_lines from_str root m lines ?acc = Inr ms" "length ?acc \<le> m"
      using Cons.prems False v by (auto split: option.splits)
    from Cons.IH [OF this] obtain vals rest where ih: "map Inr vals @ rest = map from_str lines"
      "ms = ?acc @ List.map_filter (parse_match root) vals" "length ms \<le> m" "rest = [] \<or> length ms = m" by blast
    then show ?thesis using v
      by (intro exI [of _ "x # vals"] exI [of _ rest]) (auto simp: map_filter_def split: option.splits)
  qed
qed

theorem parse_json_output_matches:
  assumes "parse_json_output from_str stdout root m = Inr ms"
  shows "\<exists>vals rest. map Inr vals @ rest = map from_str (str_lines stdout) \<and>
    ms = List.map_filter (parse_match root) vals \<and> length ms \<le> m \<and> (rest = [] \<or> length ms = m)"
  using parse_lines_matches [OF assms [unfolded parse_json_output_def]] by simp

lemma rg_search_bounded: "rg_search api dir pattern mode glob m = Inr ms \<Longrightarrow> length ms \<le> m"
  by (auto simp: rg_search_def split: sum.splits if_splits dest!: parse_json_output_matches)

lemma search_multiple_bounded:
  "search_multiple api dirs pattern mode glob per m acc = Inr rs \<Longrightarrow> length acc \<le> m \<Longrightarrow> length rs \<le> m"
proof (induction dirs arbitrary: acc)
  case (Cons d dirs)
  then show ?case by (cases d) (auto split: if_splits sum.splits)
qed simp

end
