(* ===== verification/Source_Search.thy ===== *)
theory Source_Search
  imports Source_Disk Freshness Query_Cache Pagination Resolve
begin

text \<open>
  The \<open>source_search\<close> tool (\<open>mcp/tools/source/search.rs\<close>): ripgrep over the unpacked sources of the
  indexed versions, one hit per file, paginated by cursor and answered from the query cache for five
  minutes.  The cursor codec, the JSON form of keys and responses, the disk and the \<open>rg\<close> process are
  arguments; the source index is the one found when it is queried, after the indexing that the
  handler may have waited for.
\<close>

section \<open>The versions with indexed sources\<close>

definition file_owner :: "crate_store \<Rightarrow> source_file_row \<Rightarrow> (crate_row \<times> version_row) option" where
  "file_owner st f =
     (case find (\<lambda>v. cv_id v = sf_crate_version_id f) (st_versions st) of
        None \<Rightarrow> None
      | Some v \<Rightarrow> (case crate_of st v of None \<Rightarrow> None | Some c \<Rightarrow> Some (c, v)))"

record searchable_crate_version_row =
  sx_crate_name :: string
  sx_version :: string

text \<open>\<open>SELECT DISTINCT\<close>, ordered by name ascending and version text descending.\<close>

definition searchable_rows :: "crate_store \<Rightarrow> index_tables \<Rightarrow> string option \<Rightarrow> string option \<Rightarrow> (string \<times> string) list" where
  "searchable_rows st ix crate_name ver =
     sort_key fst (rev (sort_key snd (remdups (map (\<lambda>(c, v). (cc_name c, cv_version v))
       (filter (\<lambda>(c, v). (case crate_name of None \<Rightarrow> True | Some n \<Rightarrow> name_lower c = to_ascii_lowercase n) \<and>
                         (case ver of None \<Rightarrow> True | Some w \<Rightarrow> cv_version v = w))
          (List.map_filter (file_owner st) (ix_files ix)))))))"

definition list_searchable_crate_versions ::
  "crate_store \<Rightarrow> index_tables \<Rightarrow> string option \<Rightarrow> string option \<Rightarrow> int \<Rightarrow> searchable_crate_version_row list" where
  "list_searchable_crate_versions st ix crate_name ver lim =
     take (nat (max lim 1)) (map (\<lambda>(n, v). \<lparr>sx_crate_name = n, sx_version = v\<rparr>) (searchable_rows st ix crate_name ver))"

section \<open>Requests and responses\<close>

datatype source_search_mode = TextMode | RegexMode

record source_search_request =
  sq_query :: string
  sq_crate_name :: "string option"
  sq_version :: "string option"
  sq_path_glob :: "string option"
  sq_mode :: "source_search_mode option"
  sq_cursor :: "string option"
  sq_page :: "u32 option"
  sq_limit :: "u32 option"

record source_search_hit =
  xh_crate_name :: string
  xh_version :: string
  xh_path :: string
  xh_indexed_at :: string
  xh_match_line :: "u32 option"
  xh_snippet :: string

record source_search_response =
  xr_query :: string
  xr_crate_name :: "string option"
  xr_version :: "string option"
  xr_path_glob :: "string option"
  xr_mode :: source_search_mode
  xr_cursor :: "string option"
  xr_next_cursor :: "string option"
  xr_page :: u32
  xr_limit :: u32
  xr_has_more :: bool
  xr_truncated :: bool
  xr_count :: nat
  xr_confidence :: string
  xr_confidence_assessment :: confidence_assessment
  xr_suggested_next_tools :: "string list"
  xr_provenance :: string
  xr_hits :: "source_search_hit list"

record source_search_cache_key =
  sk_query :: string
  sk_crate_name :: "string option"
  sk_version :: "string option"
  sk_path_glob :: "string option"
  sk_mode :: source_search_mode
  sk_cursor :: "string option"
  sk_page :: u32
  sk_limit :: u32

record source_cursor_token =
  sc_v :: "8 word"
  sc_offset :: u32
  sc_limit :: u32
  sc_query :: string
  sc_crate_name :: "string option"
  sc_version :: "string option"
  sc_path_glob :: "string option"
  sc_mode :: source_search_mode

definition source_cursor_ops :: "source_cursor_token cursor_ops" where
  "source_cursor_ops = \<lparr>version = sc_v, limit = sc_limit, offset = sc_offset\<rparr>"

record source_search_env =
  xe_fresh :: fresh_env
  xe_disk :: source_disk
  xe_rg :: rg_api
  xe_index :: index_tables
  xe_codec :: "source_cursor_token codec"
  xe_key :: "source_search_cache_key \<Rightarrow> string result"
  xe_to_value :: "source_search_response \<Rightarrow> json result"
  xe_from_value :: "json \<Rightarrow> source_search_response result"
  xe_read_error :: "string option"
  xe_event_failed :: bool
  xe_crate_error :: bool
  xe_version_error :: bool
  xe_query_error :: "string option"
  xe_write_error :: "string option"

section \<open>The handler\<close>

record source_filters =
  sl_query :: string
  sl_crate_name :: "string option"
  sl_version :: "string option"
  sl_path_glob :: "string option"
  sl_mode :: source_search_mode
  sl_cursor :: "string option"
  sl_page :: u32
  sl_requested_limit :: u32

definition source_filters_of :: "source_search_request \<Rightarrow> source_filters result" where
  "source_filters_of request =
     res_bind (normalize_required (sq_query request) ''query'') (\<lambda>query.
       Inr \<lparr>sl_query = query, sl_crate_name = normalize_optional (sq_crate_name request),
            sl_version = normalize_optional (sq_version request), sl_path_glob = normalize_optional (sq_path_glob request),
            sl_mode = unwrap_or (sq_mode request) TextMode, sl_cursor = normalize_optional (sq_cursor request),
            sl_page = sync_page (sq_page request), sl_requested_limit = source_search_limit (sq_limit request)\<rparr>)"

definition source_cache_key :: "source_filters \<Rightarrow> source_search_cache_key" where
  "source_cache_key f =
     \<lparr>sk_query = sl_query f, sk_crate_name = sl_crate_name f, sk_version = sl_version f, sk_path_glob = sl_path_glob f,
      sk_mode = sl_mode f, sk_cursor = sl_cursor f, sk_page = sl_page f, sk_limit = sl_requested_limit f\<rparr>"

definition token_matches :: "source_filters \<Rightarrow> source_cursor_token \<Rightarrow> bool" where
  "token_matches f t \<longleftrightarrow>
     sc_query t = sl_query f \<and> sc_crate_name t = sl_crate_name f \<and> sc_version t = sl_version f \<and>
     sc_path_glob t = sl_path_glob f \<and> sc_mode t = sl_mode f"

definition source_pagination :: "source_search_env \<Rightarrow> source_filters \<Rightarrow> bool \<Rightarrow> pagination_params result" where
  "source_pagination env f explicit_limit =
     res_bind (case sl_cursor f of
         None \<Rightarrow> Inr None
       | Some c \<Rightarrow> res_bind (decode_cursor (xe_codec env) source_cursor_ops c) (\<lambda>t. Inr (Some t))) (\<lambda>decoded.
       if (case decoded of None \<Rightarrow> False | Some t \<Rightarrow> \<not> token_matches f t)
       then Inl ''cursor does not match current source_search filters''
       else resolve_pagination source_cursor_ops decoded explicit_limit (sl_requested_limit f) (sl_page f))"

text \<open>Indexing on demand: failing look-ups are ignored, a failing \<open>ensure_source_indexed\<close> is not.\<close>

definition index_on_demand :: "source_search_env \<Rightarrow> source_filters \<Rightarrow> server_state \<Rightarrow> unit result \<times> server_state" where
  "index_on_demand env f srv =
     (case sl_crate_name f of
        None \<Rightarrow> (Inr (), srv)
      | Some cn \<Rightarrow>
          (case (if xe_crate_error env then None else fetch_crate_core_by_name (sv_store srv) cn) of
             None \<Rightarrow> (Inr (), srv)
           | Some cr \<Rightarrow>
               (case (if xe_version_error env then None
                      else (case sl_version f of
                          Some v \<Rightarrow> fetch_crate_version_by_name (sv_store srv) (cc_id cr) v
                        | None \<Rightarrow> fetch_latest_crate_version (sv_store srv) (cc_id cr))) of
                  None \<Rightarrow> (Inr (), srv)
                | Some ver \<Rightarrow> ensure_source_indexed (xe_fresh env) cn (cv_version ver) (cv_id ver) srv)))"

definition source_hit :: "searchable_crate_version_row \<Rightarrow> ripgrep_match \<Rightarrow> source_search_hit" where
  "source_hit cv m =
     \<lparr>xh_crate_name = sx_crate_name cv, xh_version = sx_version cv, xh_path = rm_path m, xh_indexed_at = [],
      xh_match_line = Some (rm_line_number m), xh_snippet = fst (take_chars 220 (trim (rm_line_content m)))\<rparr>"

fun push_matches ::
  "nat \<Rightarrow> searchable_crate_version_row \<Rightarrow> ripgrep_match list \<Rightarrow> string list \<Rightarrow> source_search_hit list \<Rightarrow> source_search_hit list" where
  "push_matches target_count cv [] seen_paths file_hits = file_hits"
| "push_matches target_count cv (m # ms) seen_paths file_hits =
     (if length file_hits \<ge> target_count then file_hits
      else if rm_path m \<in> set seen_paths then push_matches target_count cv ms seen_paths file_hits
      else push_matches target_count cv ms (rm_path m # seen_paths) (file_hits @ [source_hit cv m]))"

definition rg_mode :: "source_search_mode \<Rightarrow> ripgrep_mode" where
  "rg_mode mode = (case mode of TextMode \<Rightarrow> FixedString | RegexMode \<Rightarrow> Regex)"

definition search_version ::
  "source_search_env \<Rightarrow> source_filters \<Rightarrow> searchable_crate_version_row \<Rightarrow> (ripgrep_error + ripgrep_match list) option" where
  "search_version env f cv =
     map_option (\<lambda>version_dir. rg_search (xe_rg env) version_dir (sl_query f) (rg_mode (sl_mode f)) (sl_path_glob f) 500)
       (resolve_source_dir (xe_disk env) (sd_cargo_registry_dir (xe_disk env)) (Some (sd_crate_source_cache_dir (xe_disk env)))
          (sx_crate_name cv) (sx_version cv))"

fun collect_hits ::
  "source_search_env \<Rightarrow> source_filters \<Rightarrow> nat \<Rightarrow> searchable_crate_version_row list \<Rightarrow> source_search_hit list \<Rightarrow> source_search_hit list result" where
  "collect_hits env f target_count [] file_hits = Inr file_hits"
| "collect_hits env f target_count (cv # cvs) file_hits =
     (if length file_hits \<ge> target_count then Inr file_hits
      else (case search_version env f cv of
          None \<Rightarrow> collect_hits env f target_count cvs file_hits
        | Some (Inl e) \<Rightarrow> Inl (''source_search ripgrep failed: '' @ display_ripgrep_error e)
        | Some (Inr matches) \<Rightarrow> collect_hits env f target_count cvs (push_matches target_count cv matches [] file_hits)))"

definition next_source_token :: "source_filters \<Rightarrow> u32 \<Rightarrow> u32 \<Rightarrow> source_cursor_token" where
  "next_source_token f lim next_offset =
     \<lparr>sc_v = 1, sc_offset = next_offset, sc_limit = lim, sc_query = sl_query f, sc_crate_name = sl_crate_name f,
      sc_version = sl_version f, sc_path_glob = sl_path_glob f, sc_mode = sl_mode f\<rparr>"

interpretation source_cursor: cursor_token source_cursor_ops "next_source_token f"
  by unfold_locales (simp_all add: source_cursor_ops_def next_source_token_def)

definition source_search_response_of ::
  "source_filters \<Rightarrow> pagination_params \<Rightarrow> source_search_hit list \<Rightarrow> bool \<Rightarrow> string option \<Rightarrow> source_search_response" where
  "source_search_response_of f pag hits has_next next_cur =
     (let assessment =
        (if hits = [] then \<lparr>ca_level = Low, ca_reason = ''no indexed source content matched the query''\<rparr>
         else \<lparr>ca_level = Medium, ca_reason = ''matches are lexical and may require source_read confirmation''\<rparr>)
      in \<lparr>xr_query = sl_query f, xr_crate_name = sl_crate_name f, xr_version = sl_version f, xr_path_glob = sl_path_glob f,
          xr_mode = sl_mode f, xr_cursor = sl_cursor f, xr_next_cursor = next_cur, xr_page = pp_effective_page pag,
          xr_limit = pp_limit pag, xr_has_more = has_next, xr_truncated = has_next, xr_count = length hits,
          xr_confidence = confidence_as_str (ca_level assessment), xr_confidence_assessment = assessment,
          xr_suggested_next_tools =
            (if hits = [] then [''index_crates'', ''symbol_search'', ''docs_search''] else [''source_read'', ''source_context'']),
          xr_provenance = ''local_postgres_index'', xr_hits = hits\<rparr>)"

definition source_page :: "source_search_env \<Rightarrow> source_filters \<Rightarrow> pagination_params \<Rightarrow> crate_store \<Rightarrow> source_search_response result" where
  "source_page env f pag st =
     (case xe_query_error env of
        Some e \<Rightarrow> Inl (''source_search crate version query failed: '' @ e)
      | None \<Rightarrow>
          res_bind (collect_hits env f (unat (pp_offset pag) + unat (pp_limit pag) + 1)
                      (list_searchable_crate_versions st (xe_index env) (sl_crate_name f) (sl_version f) 200) []) (\<lambda>file_hits.
            let skipped = drop (unat (pp_offset pag)) file_hits;
                has_next = length skipped > unat (pp_limit pag);
                hits = (if has_next then take (unat (pp_limit pag)) skipped else skipped)
            in if has_next
               then res_bind (encode_cursor (xe_codec env)
                      (next_source_token f (pp_limit pag) (saturating_add (pp_offset pag) (pp_limit pag)))) (\<lambda>c.
                        Inr (source_search_response_of f pag hits has_next (Some c)))
               else Inr (source_search_response_of f pag hits has_next None)))"

definition source_search_uncached ::
  "source_search_env \<Rightarrow> source_filters \<Rightarrow> bool \<Rightarrow> string \<Rightarrow> server_state \<Rightarrow> query_cache \<Rightarrow>
   source_search_response result \<times> server_state \<times> query_cache" where
  "source_search_uncached env f explicit_limit key srv cache =
     (case source_pagination env f explicit_limit of
        Inl e \<Rightarrow> (Inl e, srv, cache)
      | Inr pag \<Rightarrow>
          (case index_on_demand env f srv of
             (Inl e, srv') \<Rightarrow> (Inl e, srv', cache)
           | (Inr _, srv') \<Rightarrow>
               (case source_page env f pag (sv_store srv') of
                  Inl e \<Rightarrow> (Inl e, srv', cache)
                | Inr response \<Rightarrow>
                    (case xe_to_value env response of
                       Inl e \<Rightarrow> (Inl (''failed to encode source_search cache value: '' @ e), srv', cache)
                     | Inr v \<Rightarrow>
                         (case query_cache_put (xe_write_error env) cache (fe_now (xe_fresh env)) ''source_search'' key v 300 of
                            (Inl e, cache') \<Rightarrow> (Inl e, srv', cache')
                          | (Inr _, cache') \<Rightarrow> (Inr response, srv', cache'))))))"

definition handle_source_search ::
  "source_search_env \<Rightarrow> source_search_request \<Rightarrow> server_state \<Rightarrow> query_cache \<Rightarrow>
   source_search_response result \<times> server_state \<times> query_cache" where
  "handle_source_search env request srv cache =
     (case source_filters_of request of
        Inl e \<Rightarrow> (Inl e, srv, cache)
      | Inr f \<Rightarrow>
          (case xe_key env (source_cache_key f) of
             Inl e \<Rightarrow> (Inl (''failed to build source_search cache key: '' @ e), srv, cache)
           | Inr key \<Rightarrow>
               (case query_cache_get (xe_read_error env) (xe_event_failed env) cache (fe_now (xe_fresh env)) ''source_search'' key of
                  (Inl e, cache') \<Rightarrow> (Inl e, srv, cache')
                | (Inr (Some cached), cache') \<Rightarrow>
                    (case xe_from_value env cached of
                       Inl e \<Rightarrow> (Inl (''failed to decode source_search cache entry: '' @ e), srv, cache')
                     | Inr response \<Rightarrow> (Inr response, srv, cache'))
                | (Inr None, cache') \<Rightarrow> source_search_uncached env f (sq_limit request \<noteq> None) key srv cache')))"

section \<open>What a page contains\<close>

text \<open>The first match of every file, in the order of the output, leaving out the files in the first argument.\<close>

fun first_matches :: "string list \<Rightarrow> ripgrep_match list \<Rightarrow> ripgrep_match list" where
  "first_matches seen [] = []"
| "first_matches seen (m # ms) =
     (if rm_path m \<in> set seen then first_matches seen ms else m # first_matches (rm_path m # seen) ms)"

lemma first_matches_paths: "rm_path ` set (first_matches seen ms) = rm_path ` set ms - set seen"
  by (induction seen ms rule: first_matches.induct) auto

lemma first_matches_fresh: "x \<in> set (first_matches seen ms) \<Longrightarrow> rm_path x \<notin> set seen"
  using first_matches_paths [of seen ms] by blast

lemma first_matches_distinct: "distinct (map rm_path (first_matches seen ms))"
proof (induction seen ms rule: first_matches.induct)
  case (2 seen m ms)
  have "rm_path m \<notin> set (map rm_path (first_matches (rm_path m # seen) ms))"
    using first_matches_paths [of "rm_path m # seen" ms] by auto
  then show ?case using 2 by simp
qed simp

lemma first_matches_first:
  "x \<in> set (first_matches seen ms) \<Longrightarrow> find (\<lambda>m. rm_path m = rm_path x) ms = Some x"
proof (induction seen ms rule: first_matches.induct)
  case (2 seen m ms)
  show ?case
  proof (cases "x = m \<and> rm_path m \<notin> set seen")
    case False
    then have "x \<in> set (first_matches seen ms) \<and> rm_path m \<in> set seen \<or> x \<in> set (first_matches (rm_path m # seen) ms)"
      using 2(3) by (auto split: if_splits)
    moreover from this have "rm_path x \<noteq> rm_path m" using first_matches_fresh by fastforce
    ultimately show ?thesis using 2 by (auto split: if_splits)
  qed simp
qed simp

lemma push_matches_take:
  "length hits \<le> t \<Longrightarrow> push_matches t cv ms seen hits = take t (hits @ map (source_hit cv) (first_matches seen ms))"
  by (induction t cv ms seen hits rule: push_matches.induct) auto

definition version_hits :: "source_search_env \<Rightarrow> source_filters \<Rightarrow> searchable_crate_version_row \<Rightarrow> source_search_hit list" where
  "version_hits env f cv =
     (case search_version env f cv of Some (Inr ms) \<Rightarrow> map (source_hit cv) (first_matches [] ms) | _ \<Rightarrow> [])"

lemma take_take_append: "take t (take t xs @ ys) = take t (xs @ ys)"
  by (cases "length xs \<le> t") simp_all

lemma collect_hits_take:
  "collect_hits env f t cvs hits = Inr r \<Longrightarrow> length hits \<le> t \<Longrightarrow> r = take t (hits @ concat (map (version_hits env f) cvs))"
proof (induction cvs arbitrary: hits)
  case (Cons cv cvs)
  show ?case
  proof (cases "t \<le> length hits")
    case False
    show ?thesis
    proof (cases "search_version env f cv")
      case None
      then show ?thesis using Cons False by (simp add: version_hits_def)
    next
      case (Some res)
      then obtain ms where ms: "res = Inr ms" using Cons.prems False by (cases res) auto
      let ?hits = "push_matches t cv ms [] hits"
      have h: "?hits = take t (hits @ version_hits env f cv)"
        using push_matches_take [OF Cons.prems(2)] Some ms by (simp add: version_hits_def)
      have "r = take t (?hits @ concat (map (version_hits env f) cvs))"
        using Cons.IH [of ?hits] Cons.prems(1) False Some ms h by simp
      also have "\<dots> = take t ((hits @ version_hits env f cv) @ concat (map (version_hits env f) cvs))"
        unfolding h by (rule take_take_append)
      finally show ?thesis by simp
    qed
  qed (use Cons.prems in simp)
qed simp

definition hit_key :: "source_search_hit \<Rightarrow> string \<times> string \<times> string" where
  "hit_key h = (xh_crate_name h, xh_version h, xh_path h)"

lemma version_hits_keys:
  "h \<in> set (version_hits env f cv) \<Longrightarrow> xh_crate_name h = sx_crate_name cv \<and> xh_version h = sx_version cv"
  by (auto simp: version_hits_def source_hit_def split: option.splits sum.splits)

lemma version_hits_match:
  assumes "h \<in> set (version_hits env f cv)"
  obtains ms m where "search_version env f cv = Some (Inr ms)" "h = source_hit cv m" "m \<in> set (first_matches [] ms)"
proof (cases "search_version env f cv")
  case (Some r)
  then show thesis using assms that by (cases r) (auto simp: version_hits_def)
qed (use assms in \<open>simp add: version_hits_def\<close>)

lemma version_hits_distinct: "distinct (map hit_key (version_hits env f cv))"
proof -
  have "hit_key \<circ> source_hit cv = (\<lambda>p. (sx_crate_name cv, sx_version cv, p)) \<circ> rm_path"
    by (auto simp: hit_key_def source_hit_def)
  then have eq: "map hit_key (map (source_hit cv) ms) = map (\<lambda>p. (sx_crate_name cv, sx_version cv, p)) (map rm_path ms)" for ms
    by simp
  have "distinct (map (\<lambda>p. (sx_crate_name cv, sx_version cv, p)) ps)" if "distinct ps" for ps
    using that by (induction ps) auto
  then have "distinct (map hit_key (map (source_hit cv) (first_matches [] ms)))" for ms
    unfolding eq using first_matches_distinct by blast
  then show ?thesis by (simp add: version_hits_def split: option.splits sum.splits)
qed

lemma all_hits_distinct:
  "distinct cvs \<Longrightarrow> distinct (map hit_key (concat (map (version_hits env f) cvs)))"
proof (induction cvs)
  case (Cons cv cvs)
  have "hit_key h \<notin> hit_key ` set (concat (map (version_hits env f) cvs))" if "h \<in> set (version_hits env f cv)" for h
  proof
    assume "hit_key h \<in> hit_key ` set (concat (map (version_hits env f) cvs))"
    then obtain h' cv' where h': "cv' \<in> set cvs" "h' \<in> set (version_hits env f cv')" "hit_key h' = hit_key h" by force
    then have "cv' = cv"
      using version_hits_keys [OF that] version_hits_keys [OF h'(2)] by (simp add: hit_key_def)
    with h'(1) Cons.prems show False by simp
  qed
  then have "hit_key ` set (version_hits env f cv) \<inter> hit_key ` set (concat (map (version_hits env f) cvs)) = {}" by blast
  then show ?case using Cons version_hits_distinct [of env f cv] by (simp del: set_concat)
qed simp

lemma searchable_distinct: "distinct (list_searchable_crate_versions st ix n v lim)"
proof -
  have "distinct (searchable_rows st ix n v)" by (simp add: searchable_rows_def)
  moreover have "inj_on (\<lambda>(n, v). \<lparr>sx_crate_name = n, sx_version = v\<rparr>) (set (searchable_rows st ix n v))"
    by (rule inj_onI) auto
  ultimately have "distinct (map (\<lambda>(n, v). \<lparr>sx_crate_name = n, sx_version = v\<rparr>) (searchable_rows st ix n v))"
    unfolding distinct_map by (rule conjI)
  then show ?thesis unfolding list_searchable_crate_versions_def by (rule distinct_take)
qed

lemma source_page_Inr:
  assumes "source_page env f pag st = Inr resp"
  defines "all_hits \<equiv> concat (map (version_hits env f)
    (list_searchable_crate_versions st (xe_index env) (sl_crate_name f) (sl_version f) 200))"
  shows "xr_hits resp = take (unat (pp_limit pag)) (drop (unat (pp_offset pag)) all_hits) \<and>
    (xr_has_more resp \<longleftrightarrow> unat (pp_offset pag) + unat (pp_limit pag) < length all_hits) \<and>
    (xr_next_cursor resp \<noteq> None \<longleftrightarrow> xr_has_more resp) \<and> xr_count resp = length (xr_hits resp)"
proof -
  let ?off = "unat (pp_offset pag)" and ?lim = "unat (pp_limit pag)"
  obtain hits where hits: "collect_hits env f (?off + ?lim + 1)
      (list_searchable_crate_versions st (xe_index env) (sl_crate_name f) (sl_version f) 200) [] = Inr hits"
    and resp: "xr_has_more resp \<longleftrightarrow> ?lim < length (drop ?off hits)"
      "xr_hits resp = (if ?lim < length (drop ?off hits) then take ?lim (drop ?off hits) else drop ?off hits)"
      "xr_next_cursor resp \<noteq> None \<longleftrightarrow> xr_has_more resp" "xr_count resp = length (xr_hits resp)"
    using assms(1) by (fastforce simp: source_page_def res_bind_Inr_iff source_search_response_of_def Let_def split: option.splits if_splits)
  have h: "hits = take (?off + ?lim + 1) all_hits"
    using collect_hits_take [OF hits] by (simp add: all_hits_def)
  have "xr_hits resp = take ?lim (drop ?off hits)" using resp(2) by simp
  moreover have "take ?lim (drop ?off hits) = take ?lim (drop ?off all_hits)" by (simp add: h drop_take)
  moreover have "?lim < length (drop ?off hits) \<longleftrightarrow> ?off + ?lim < length all_hits" by (auto simp: h)
  ultimately show ?thesis using resp by simp
qed


section \<open>A concrete search\<close>

definition demo_disk :: source_disk where
  "demo_disk = \<lparr>sd_cargo_registry_dir = [[], ''registry''], sd_crate_source_cache_dir = [[], ''cache''],
     sd_read_dir = (\<lambda>_. Inl ''not found''), sd_is_dir = (\<lambda>p. p = [[], ''cache'', ''Serde-1.0.0'']),
     sd_read_to_string = (\<lambda>p. if p = [[], ''cache'', ''Serde-1.0.0'', ''src'', ''lib.rs''] then Inr (''use a;'' @ [CHR 0x0A] @ ''fn b() {}'' @ [CHR 0x0A]) else Inl ''not found'')\<rparr>"

definition demo_match :: json where
  "demo_match = JObject [(''data'', JObject [(''line_number'', JNull), (''lines'', JObject [(''text'', JString (''fn b() {}'' @ [CHR 0x0A]))]),
     (''path'', JObject [(''text'', JString ''/cache/Serde-1.0.0/src/lib.rs'')])]), (''type'', JString ''match'')]"

definition demo_rg :: rg_api where
  "demo_rg = \<lparr>ra_run = (\<lambda>_. Inr \<lparr>ro_exit_code = Some 0, ro_stdout = ''2'' @ [CHR 0x0A] @ ''3'' @ [CHR 0x0A], ro_stderr = []\<rparr>), ra_from_str = (\<lambda>_. Inr demo_match)\<rparr>"

definition demo_index :: index_tables where
  "demo_index = \<lparr>ix_files = [\<lparr>sf_id = 1, sf_crate_version_id = 10, sf_path = ''src/lib.rs'', sf_sha256 = [], sf_file_size = 18,
     sf_language = Some ''rust''\<rparr>], ix_next_file_id = 2, ix_symbols = [], ix_types = [], ix_impls = [], ix_traits = []\<rparr>"

definition demo_source_env :: source_search_env where
  "demo_source_env = \<lparr>xe_fresh = sample_fresh_env ''1.0.0'' 1000, xe_disk = demo_disk, xe_rg = demo_rg, xe_index = demo_index,
     xe_codec = \<lparr>to_vec = (\<lambda>_. Inl ''unused''), from_slice = (\<lambda>_. Inl ''unused''), b64_encode = (\<lambda>s. s), b64_decode = Inr\<rparr>,
     xe_key = (\<lambda>k. Inr (sk_query k)), xe_to_value = (\<lambda>_. Inr JNull), xe_from_value = (\<lambda>_. Inl ''unused''),
     xe_read_error = None, xe_event_failed = False, xe_crate_error = False, xe_version_error = False, xe_query_error = None,
     xe_write_error = None\<rparr>"

definition demo_source_request :: source_search_request where
  "demo_source_request = \<lparr>sq_query = ''fn'', sq_crate_name = None, sq_version = None, sq_path_glob = None, sq_mode = None,
     sq_cursor = None, sq_page = None, sq_limit = None\<rparr>"

definition demo_filters :: source_filters where
  "demo_filters = \<lparr>sl_query = ''fn'', sl_crate_name = None, sl_version = None, sl_path_glob = None, sl_mode = TextMode,
     sl_cursor = None, sl_page = 1, sl_requested_limit = 20\<rparr>"

definition demo_page :: pagination_params where
  "demo_page = \<lparr>pp_offset = 0, pp_limit = 20, pp_effective_page = 1\<rparr>"

lemma demo_filters_of: "source_filters_of demo_source_request = Inr demo_filters"
  by code_simp

lemma demo_pagination: "source_pagination demo_source_env demo_filters False = Inr demo_page"
  by code_simp

definition no_cache :: query_cache where
  "no_cache = \<lparr>qc_entries = [], qc_events = []\<rparr>"

lemma demo_source_run:
  "case handle_source_search demo_source_env demo_source_request sample_server no_cache of
     (Inr resp, _, _) \<Rightarrow> map hit_key (xr_hits resp) = [(''Serde'', ''1.0.0'', ''src/lib.rs'')] | _ \<Rightarrow> False"
  by code_simp


end
