(* ===== verification/Source_Read.thy ===== *)
theory Source_Read
  imports Source_Search Crate_Versions
begin

text \<open>
  The tools \<open>source_read\<close> (\<open>mcp/tools/source/search.rs\<close>) and \<open>source_context\<close>
  (\<open>mcp/tools/source/context.rs\<close>): a slice of an indexed source file, and what surrounds a line of it.
  The disk is an argument; the source index is the one found when it is queried.  \<open>None\<close> as an answer is
  the panic of \<open>clamp\<close> when the number of lines wraps to zero.  Line numbers are read as \<open>i32\<close> in the
  queries; the differences of \<open>source_context\<close> are taken without overflow, which holds below \<open>2 ^ 31\<close> lines.
\<close>

section \<open>The file queries\<close>

definition owned_files :: "crate_store \<Rightarrow> index_tables \<Rightarrow> (crate_row \<times> version_row \<times> source_file_row) list" where
  "owned_files st ix = List.map_filter (\<lambda>f. map_option (\<lambda>(c, v). (c, v, f)) (file_owner st f)) (ix_files ix)"

record source_read_row =
  rw_crate_name :: string
  rw_version :: string
  rw_path :: string

definition source_row :: "crate_row \<times> version_row \<times> source_file_row \<Rightarrow> source_read_row" where
  "source_row x = (case x of (c, v, f) \<Rightarrow> \<lparr>rw_crate_name = cc_name c, rw_version = cv_version v, rw_path = sf_path f\<rparr>)"

definition fetch_source_read_for_crate_version_path ::
  "crate_store \<Rightarrow> index_tables \<Rightarrow> string \<Rightarrow> nat \<Rightarrow> string \<Rightarrow> source_read_row option" where
  "fetch_source_read_for_crate_version_path st ix crate_name crate_version_id p =
     map_option source_row (find (\<lambda>(c, v, f). name_lower c = to_ascii_lowercase crate_name \<and> cv_id v = crate_version_id \<and> sf_path f = p)
       (owned_files st ix))"

definition fetch_source_read_latest_for_crate_path :: "crate_store \<Rightarrow> index_tables \<Rightarrow> string \<Rightarrow> string \<Rightarrow> source_read_row option" where
  "fetch_source_read_latest_for_crate_path st ix crate_name p =
     (case sort_key (\<lambda>(c, v, f). newest_key v)
             (filter (\<lambda>(c, v, f). name_lower c = to_ascii_lowercase crate_name \<and> sf_path f = p) (owned_files st ix)) of
        [] \<Rightarrow> None | x # _ \<Rightarrow> Some (source_row x))"

section \<open>source_read\<close>

record source_read_request =
  rd_crate_name :: string
  rd_version :: "string option"
  rd_path :: string
  rd_start_line :: "u32 option"
  rd_end_line :: "u32 option"

record source_read_response =
  rs_crate :: string
  rs_read_version :: string
  rs_path :: string
  rs_start_line :: u32
  rs_end_line :: u32
  rs_total_lines :: u32
  rs_content :: string
  rs_confidence :: string
  rs_confidence_assessment :: confidence_assessment
  rs_suggested_next_tools :: "string list"
  rs_provenance :: string

record source_read_env =
  rv_fresh :: fresh_env
  rv_disk :: source_disk
  rv_index :: index_tables
  rv_crate_error :: "string option"
  rv_version_error :: "string option"
  rv_lookup_error :: "string option"

definition quote_name :: "string \<Rightarrow> string" where
  "quote_name s = [CHR 0x27] @ s @ [CHR 0x27]"

definition file_lookup :: "string option \<Rightarrow> string \<Rightarrow> source_read_row option \<Rightarrow> source_read_row result" where
  "file_lookup lookup_error what row =
     (case lookup_error of
        Some e \<Rightarrow> Inl (''source_read lookup failed for '' @ what @ '': '' @ e)
      | None \<Rightarrow>
          (case row of
             None \<Rightarrow> Inl (''source file not found for '' @ what @ ''. Try crate_api or symbol_search to explore this crate'' @ [CHR 0x27] @ ''s API surface.'')
           | Some r \<Rightarrow> Inr r))"

definition read_row_of_version ::
  "source_read_env \<Rightarrow> string \<Rightarrow> string \<Rightarrow> string \<Rightarrow> server_state \<Rightarrow> source_read_row result \<times> server_state" where
  "read_row_of_version env crate_name p ver srv =
     (let what = crate_name @ ''@'' @ ver @ '':'' @ p
      in case rv_crate_error env of
           Some e \<Rightarrow> (Inl (''source_read crate lookup failed for '' @ what @ '': '' @ e), srv)
         | None \<Rightarrow>
     (case fetch_crate_core_by_name (sv_store srv) crate_name of
        None \<Rightarrow> (Inl (''crate '' @ quote_name crate_name @ '' is not indexed locally''), srv)
      | Some crate_row \<Rightarrow>
     (case rv_version_error env of
        Some e \<Rightarrow> (Inl (''source_read version lookup failed for '' @ what @ '': '' @ e), srv)
      | None \<Rightarrow>
     (case fetch_crate_version_by_name (sv_store srv) (cc_id crate_row) ver of
        None \<Rightarrow> (Inl (''version '' @ quote_name ver @ '' for crate '' @ quote_name crate_name @ '' is not indexed locally''), srv)
      | Some crate_version \<Rightarrow>
     (case ensure_source_indexed (rv_fresh env) crate_name ver (cv_id crate_version) srv of
        (Inl e, srv') \<Rightarrow> (Inl e, srv')
      | (Inr _, srv') \<Rightarrow>
          (file_lookup (rv_lookup_error env) what
             (fetch_source_read_for_crate_version_path (sv_store srv') (rv_index env) crate_name (cv_id crate_version) p), srv'))))))"

definition read_row_of_latest ::
  "source_read_env \<Rightarrow> string \<Rightarrow> string \<Rightarrow> server_state \<Rightarrow> source_read_row result \<times> server_state" where
  "read_row_of_latest env crate_name p srv =
     (case (case (if rv_crate_error env = None then fetch_crate_core_by_name (sv_store srv) crate_name else None) of
              None \<Rightarrow> (Inr (), srv)
            | Some cr \<Rightarrow>
                (case (if rv_version_error env = None then fetch_latest_crate_version (sv_store srv) (cc_id cr) else None) of
                   None \<Rightarrow> (Inr (), srv)
                 | Some lv \<Rightarrow> ensure_source_indexed (rv_fresh env) crate_name (cv_version lv) (cv_id lv) srv)) of
        (Inl e, srv') \<Rightarrow> (Inl e, srv')
      | (Inr _, srv') \<Rightarrow>
          (file_lookup (rv_lookup_error env) (crate_name @ '':'' @ p)
             (fetch_source_read_latest_for_crate_path (sv_store srv') (rv_index env) crate_name p), srv'))"

definition missing_content :: "string \<Rightarrow> string \<Rightarrow> string \<Rightarrow> string" where
  "missing_content crate_name ver p =
     ''source content not available on disk for '' @ crate_name @ ''@'' @ ver @ '':'' @ p @
     '' (not found in cargo registry). Try crate_type_info, crate_api, or symbol_search for rustdoc-based API data.''"

definition read_content :: "source_disk \<Rightarrow> string \<Rightarrow> string \<Rightarrow> string \<Rightarrow> string option" where
  "read_content disk crate_name ver p =
     read_source_file_from_disk_or_cache disk (sd_cargo_registry_dir disk) (Some (sd_crate_source_cache_dir disk)) crate_name ver p"

text \<open>\<open>lines.len().max(1) as u32\<close>, and \<open>Ord::clamp\<close>, which panics when its bounds are out of order.\<close>

definition total_lines_of :: "string \<Rightarrow> u32" where
  "total_lines_of content = of_nat (max (length (str_lines content)) 1)"

definition checked_clamp :: "u32 \<Rightarrow> u32 \<Rightarrow> u32 \<Rightarrow> u32 option" where
  "checked_clamp x lo hi = (if lo \<le> hi then Some (clamp x lo hi) else None)"

definition slice_lines :: "string list \<Rightarrow> nat \<Rightarrow> nat \<Rightarrow> string" where
  "slice_lines lines a b = (if a \<le> b \<and> b \<le> length lines then join [CHR 0x0A] (take (b - a) (drop a lines)) else [])"

definition read_slice :: "u32 option \<Rightarrow> u32 option \<Rightarrow> string \<Rightarrow> (u32 \<times> u32 \<times> u32 \<times> string) option" where
  "read_slice start end content =
     (let total_lines = total_lines_of content
      in case checked_clamp (unwrap_or start 1) 1 total_lines of
           None \<Rightarrow> None
         | Some start_line \<Rightarrow>
             (let end_line = min (max (source_read_end_line end) start_line) total_lines
              in Some (start_line, end_line, total_lines,
                       slice_lines (str_lines content) (unat (start_line - 1)) (unat end_line))))"

definition read_response :: "source_read_row \<Rightarrow> u32 \<times> u32 \<times> u32 \<times> string \<Rightarrow> source_read_response" where
  "read_response row x =
     (case x of (start_line, end_line, total_lines, selected) \<Rightarrow>
       (let assessment = \<lparr>ca_level = High, ca_reason = ''returned exact indexed file slice for selected crate/path''\<rparr>
        in \<lparr>rs_crate = rw_crate_name row, rs_read_version = rw_version row, rs_path = rw_path row, rs_start_line = start_line,
            rs_end_line = end_line, rs_total_lines = total_lines, rs_content = selected,
            rs_confidence = confidence_as_str (ca_level assessment), rs_confidence_assessment = assessment,
            rs_suggested_next_tools = [''source_context'', ''crate_type_info'', ''source_search''],
            rs_provenance = ''local_postgres_index''\<rparr>))"

definition handle_source_read ::
  "source_read_env \<Rightarrow> source_read_request \<Rightarrow> server_state \<Rightarrow> source_read_response result option \<times> server_state" where
  "handle_source_read env request srv =
     (case normalize_required (rd_crate_name request) ''crate_name'' of
        Inl e \<Rightarrow> (Some (Inl e), srv)
      | Inr crate_name \<Rightarrow>
     (case normalize_required (rd_path request) ''path'' of
        Inl e \<Rightarrow> (Some (Inl e), srv)
      | Inr p \<Rightarrow>
     (case (case normalize_optional (rd_version request) of
              Some ver \<Rightarrow> read_row_of_version env crate_name p ver srv
            | None \<Rightarrow> read_row_of_latest env crate_name p srv) of
        (Inl e, srv') \<Rightarrow> (Some (Inl e), srv')
      | (Inr row, srv') \<Rightarrow>
     (case read_content (rv_disk env) (rw_crate_name row) (rw_version row) (rw_path row) of
        None \<Rightarrow> (Some (Inl (missing_content (rw_crate_name row) (rw_version row) (rw_path row))), srv')
      | Some content \<Rightarrow>
          (map_option (\<lambda>x. Inr (read_response row x)) (read_slice (rd_start_line request) (rd_end_line request) content), srv')))))"

section \<open>The slice\<close>

lemma slice_lines_nth:
  assumes "1 \<le> a" "a \<le> b" "b \<le> max (length lines) 1"
  shows "slice_lines lines (a - 1) b = join [CHR 0x0A] (take (b - a + 1) (drop (a - 1) lines))"
proof (cases "lines = []")
  case False
  then have "b \<le> length lines" using assms(3) by (cases lines) auto
  moreover have "b - (a - 1) = b - a + 1" "a - 1 \<le> b" using assms by simp_all
  ultimately show ?thesis by (simp add: slice_lines_def)
qed (use assms in \<open>simp add: slice_lines_def\<close>)

lemma read_slice_exact:
  assumes "read_slice start end content = Some (a, b, t, selected)" and "length (str_lines content) < 2 ^ 32"
  defines "n \<equiv> max (length (str_lines content)) 1"
  shows "unat t = n \<and> unat a = clamp (unat (unwrap_or start 1)) 1 n \<and>
    unat b = min (max (unat (source_read_end_line end)) (unat a)) n \<and> 1 \<le> unat a \<and> unat a \<le> unat b \<and> unat b \<le> n \<and>
    selected = join [CHR 0x0A] (take (unat b - unat a + 1) (drop (unat a - 1) (str_lines content)))"
proof -
  have n: "1 \<le> n" "n < 2 ^ 32" using assms(2) by (auto simp: n_def)
  have t: "t = of_nat n" and a: "a = clamp (unwrap_or start 1) 1 t" and b: "b = min (max (source_read_end_line end) a) t"
    and s: "selected = slice_lines (str_lines content) (unat (a - 1)) (unat b)" and le: "1 \<le> t"
    using assms(1) by (auto simp: read_slice_def total_lines_of_def checked_clamp_def n_def Let_def split: if_splits)
  have ut: "unat t = n" using n(2) unfolding t by (simp add: unat_of_nat)
  have umin: "unat (min x y) = min (unat x) (unat y)" and umax: "unat (max x y) = max (unat x) (unat y)" for x y :: u32
    by (simp_all add: min_def max_def word_le_nat_alt)
  have ua: "unat a = clamp (unat (unwrap_or start 1)) 1 n"
    unfolding a by (simp add: clamp_def umin umax ut word_less_nat_alt word_le_nat_alt)
  have ub: "unat b = min (max (unat (source_read_end_line end)) (unat a)) n" unfolding b by (simp add: umin umax ut)
  have range: "1 \<le> unat a" "unat a \<le> n" using n(1) unfolding ua clamp_def by auto
  then have "unat a \<le> unat b" "unat b \<le> n" unfolding ub by auto
  moreover have "unat (a - 1) = unat a - 1" using range(1) by (simp add: unat_minus_one word_neq_0_conv word_less_nat_alt)
  moreover from this have "selected = join [CHR 0x0A] (take (unat b - unat a + 1) (drop (unat a - 1) (str_lines content)))"
    using slice_lines_nth [OF range(1) \<open>unat a \<le> unat b\<close>] \<open>unat b \<le> n\<close> unfolding s n_def by simp
  ultimately show ?thesis using ut ua ub range by blast
qed

text \<open>
  The end line is capped at 2000 whatever the start line is: from line 2000 on a call returns a single
  line, also when a longer range was asked for.
\<close>

theorem read_slice_single_line:
  assumes "read_slice start end content = Some (a, b, t, selected)" and "length (str_lines content) < 2 ^ 32" and "2000 \<le> unat a"
  shows "b = a"
proof -
  have "unat (source_read_end_line end) \<le> 2000"
    using source_read_end_line.bounds [of "end"] by (simp add: word_le_nat_alt)
  then have "unat b = unat a" using read_slice_exact [OF assms(1,2)] assms(3) by linarith
  then show ?thesis by (rule word_unat_eq_iff [THEN iffD2])
qed

section \<open>What is read\<close>

lemma find_owned:
  assumes "(c, v, f) \<in> set (owned_files st ix)"
  shows "f \<in> set (ix_files ix) \<and> file_owner st f = Some (c, v) \<and> v \<in> set (st_versions st) \<and> c \<in> set (st_crates st) \<and>
    cv_id v = sf_crate_version_id f \<and> cc_id c = vr_crate_id v"
proof -
  have f: "f \<in> set (ix_files ix)" "file_owner st f = Some (c, v)" using assms by (auto simp: owned_files_def set_map_filter)
  then show ?thesis by (auto simp: file_owner_def crate_of_def find_Some_iff split: option.splits)
qed

lemma version_file_row:
  assumes "fetch_source_read_for_crate_version_path st ix n i p = Some row"
  shows "\<exists>c v f. (c, v, f) \<in> set (owned_files st ix) \<and> row = source_row (c, v, f) \<and> name_lower c = to_ascii_lowercase n \<and>
    cv_id v = i \<and> sf_path f = p"
proof -
  obtain x where x: "find (\<lambda>(c, v, f). name_lower c = to_ascii_lowercase n \<and> cv_id v = i \<and> sf_path f = p) (owned_files st ix) = Some x"
    and row: "row = source_row x" using assms by (auto simp: fetch_source_read_for_crate_version_path_def)
  from find_SomeD [OF x] row show ?thesis by (cases x) auto
qed

lemma latest_file_row:
  assumes "fetch_source_read_latest_for_crate_path st ix n p = Some row"
  shows "\<exists>c v f. (c, v, f) \<in> set (owned_files st ix) \<and> row = source_row (c, v, f) \<and> name_lower c = to_ascii_lowercase n \<and>
    sf_path f = p \<and> (\<forall>(c', v', f') \<in> set (owned_files st ix). name_lower c' = to_ascii_lowercase n \<and> sf_path f' = p \<longrightarrow>
      newest_key v \<le> newest_key v')"
proof -
  let ?xs = "filter (\<lambda>(c, v, f). name_lower c = to_ascii_lowercase n \<and> sf_path f = p) (owned_files st ix)"
  obtain x ys where x: "sort_key (\<lambda>(c, v, f). newest_key v) ?xs = x # ys" and row: "row = source_row x"
    using assms by (auto simp: fetch_source_read_latest_for_crate_path_def split: list.splits)
  obtain c v f where cvf: "x = (c, v, f)" by (cases x)
  from sort_key_hd [OF x] have "x \<in> set ?xs" "\<And>y. y \<in> set ?xs \<Longrightarrow> (\<lambda>(c, v, f). newest_key v) x \<le> (\<lambda>(c, v, f). newest_key v) y"
    by blast+
  then show ?thesis using row cvf by (intro exI [of _ c] exI [of _ v] exI [of _ f]) fastforce
qed

lemma handle_source_read_Inr:
  assumes "handle_source_read env request srv = (Some (Inr resp), srv')"
  obtains row content x where
    "case normalize_optional (rd_version request) of
       Some ver \<Rightarrow> read_row_of_version env (trim (rd_crate_name request)) (trim (rd_path request)) ver srv = (Inr row, srv')
     | None \<Rightarrow> read_row_of_latest env (trim (rd_crate_name request)) (trim (rd_path request)) srv = (Inr row, srv')"
    "read_content (rv_disk env) (rw_crate_name row) (rw_version row) (rw_path row) = Some content"
    "read_slice (rd_start_line request) (rd_end_line request) content = Some x" "resp = read_response row x"
  using assms by (auto simp: handle_source_read_def normalize_required_def Let_def split: sum.splits prod.splits option.splits if_splits)

text \<open>The file that a request names: its row in the index, of the named version or of a newest one that has the path.\<close>

definition requested_file :: "source_read_env \<Rightarrow> source_read_request \<Rightarrow> server_state \<Rightarrow> server_state \<Rightarrow> crate_row \<Rightarrow> version_row \<Rightarrow> source_file_row \<Rightarrow> bool" where
  "requested_file env request srv srv' c v f \<longleftrightarrow>
     (let name = trim (rd_crate_name request); files = owned_files (sv_store srv') (rv_index env)
      in (c, v, f) \<in> set files \<and> name_lower c = to_ascii_lowercase name \<and> sf_path f = trim (rd_path request) \<and>
         (case normalize_optional (rd_version request) of
            Some w \<Rightarrow> \<exists>cr ver. fetch_crate_core_by_name (sv_store srv) name = Some cr \<and>
              fetch_crate_version_by_name (sv_store srv) (cc_id cr) w = Some ver \<and> cv_id v = cv_id ver
          | None \<Rightarrow> \<forall>(c', v', f') \<in> set files. name_lower c' = to_ascii_lowercase name \<and> sf_path f' = sf_path f \<longrightarrow>
              newest_key v \<le> newest_key v'))"

lemma read_row_of_version_Inr:
  assumes "read_row_of_version env n p ver srv = (Inr row, srv')"
  obtains cr v where "fetch_crate_core_by_name (sv_store srv) n = Some cr"
    "fetch_crate_version_by_name (sv_store srv) (cc_id cr) ver = Some v"
    "fetch_source_read_for_crate_version_path (sv_store srv') (rv_index env) n (cv_id v) p = Some row"
  using assms by (auto simp: read_row_of_version_def file_lookup_def Let_def split: sum.splits prod.splits option.splits)

lemma read_row_of_latest_Inr:
  assumes "read_row_of_latest env n p srv = (Inr row, srv')"
  shows "fetch_source_read_latest_for_crate_path (sv_store srv') (rv_index env) n p = Some row"
  using assms by (auto simp: read_row_of_latest_def file_lookup_def split: sum.splits prod.splits option.splits if_splits)

lemma requested_row:
  assumes "handle_source_read env request srv = (Some (Inr resp), srv')"
  obtains c v f content x where "requested_file env request srv srv' c v f"
    "read_content (rv_disk env) (cc_name c) (cv_version v) (sf_path f) = Some content"
    "read_slice (rd_start_line request) (rd_end_line request) content = Some x"
    "resp = read_response (source_row (c, v, f)) x"
proof -
  obtain row content x where row: "case normalize_optional (rd_version request) of
       Some ver \<Rightarrow> read_row_of_version env (trim (rd_crate_name request)) (trim (rd_path request)) ver srv = (Inr row, srv')
     | None \<Rightarrow> read_row_of_latest env (trim (rd_crate_name request)) (trim (rd_path request)) srv = (Inr row, srv')"
    and rest: "read_content (rv_disk env) (rw_crate_name row) (rw_version row) (rw_path row) = Some content"
    "read_slice (rd_start_line request) (rd_end_line request) content = Some x" "resp = read_response row x"
    using assms by (rule handle_source_read_Inr)
  have "\<exists>c v f. requested_file env request srv srv' c v f \<and> row = source_row (c, v, f)"
  proof (cases "normalize_optional (rd_version request)")
    case None
    with row have "read_row_of_latest env (trim (rd_crate_name request)) (trim (rd_path request)) srv = (Inr row, srv')" by simp
    from latest_file_row [OF read_row_of_latest_Inr [OF this]] obtain c v f where
      "(c, v, f) \<in> set (owned_files (sv_store srv') (rv_index env))" "row = source_row (c, v, f)"
      "name_lower c = to_ascii_lowercase (trim (rd_crate_name request))" "sf_path f = trim (rd_path request)"
      "\<forall>(c', v', f') \<in> set (owned_files (sv_store srv') (rv_index env)).
         name_lower c' = to_ascii_lowercase (trim (rd_crate_name request)) \<and> sf_path f' = trim (rd_path request) \<longrightarrow> newest_key v \<le> newest_key v'"
      by metis
    then have "requested_file env request srv srv' c v f" unfolding requested_file_def Let_def None option.case by simp
    with \<open>row = source_row (c, v, f)\<close> show ?thesis by blast
  next
    case (Some ver)
    with row have "read_row_of_version env (trim (rd_crate_name request)) (trim (rd_path request)) ver srv = (Inr row, srv')" by simp
    then obtain cr v where v: "fetch_crate_core_by_name (sv_store srv) (trim (rd_crate_name request)) = Some cr"
      "fetch_crate_version_by_name (sv_store srv) (cc_id cr) ver = Some v"
      "fetch_source_read_for_crate_version_path (sv_store srv') (rv_index env) (trim (rd_crate_name request)) (cv_id v) (trim (rd_path request)) = Some row"
      by (rule read_row_of_version_Inr)
    from version_file_row [OF v(3)] obtain c w f where
      "(c, w, f) \<in> set (owned_files (sv_store srv') (rv_index env))" "row = source_row (c, w, f)"
      "name_lower c = to_ascii_lowercase (trim (rd_crate_name request))" "cv_id w = cv_id v" "sf_path f = trim (rd_path request)"
      by metis
    then have "requested_file env request srv srv' c w f" unfolding requested_file_def Let_def Some option.case using v(1,2) by simp
    with \<open>row = source_row (c, w, f)\<close> show ?thesis by blast
  qed
  then obtain c v f where "requested_file env request srv srv' c v f" "row = source_row (c, v, f)" by blast
  then show thesis using that rest by (simp add: source_row_def)
qed

text \<open>
  (C30) An answer of \<open>source_read\<close> is a slice of a file of the index: the row belongs to the named crate and version
  (or to a newest version that has the path), the text is the one on disk in the directory of that version,
  the lines are counted from one, the first is the requested one within the file, the last the requested
  one or 200, at most 2000 and not before the first, and the content is exactly those lines.
\<close>

theorem source_read_exact:
  assumes "handle_source_read env request srv = (Some (Inr resp), srv')"
  shows "\<exists>c v f content. requested_file env request srv srv' c v f \<and>
    rs_crate resp = cc_name c \<and> rs_read_version resp = cv_version v \<and> rs_path resp = sf_path f \<and>
    read_content (rv_disk env) (cc_name c) (cv_version v) (sf_path f) = Some content \<and>
    (length (str_lines content) < 2 ^ 32 \<longrightarrow>
      (let n = max (length (str_lines content)) 1; a = unat (rs_start_line resp); b = unat (rs_end_line resp)
       in unat (rs_total_lines resp) = n \<and> a = clamp (unat (unwrap_or (rd_start_line request) 1)) 1 n \<and>
          b = min (max (unat (source_read_end_line (rd_end_line request))) a) n \<and> 1 \<le> a \<and> a \<le> b \<and> b \<le> n \<and>
          rs_content resp = join [CHR 0x0A] (take (b - a + 1) (drop (a - 1) (str_lines content)))))"
proof -
  obtain c v f content x where r: "requested_file env request srv srv' c v f"
    "read_content (rv_disk env) (cc_name c) (cv_version v) (sf_path f) = Some content"
    "read_slice (rd_start_line request) (rd_end_line request) content = Some x" "resp = read_response (source_row (c, v, f)) x"
    using assms by (rule requested_row)
  obtain a b t selected where x: "x = (a, b, t, selected)" by (cases x)
  have f: "rs_start_line resp = a" "rs_end_line resp = b" "rs_total_lines resp = t" "rs_content resp = selected"
    and row: "rs_crate resp = cc_name c" "rs_read_version resp = cv_version v" "rs_path resp = sf_path f"
    by (simp_all add: r(4) x read_response_def source_row_def Let_def)
  show ?thesis
    unfolding f Let_def using r(1,2) row read_slice_exact [OF r(3) [unfolded x]]
    by (intro exI [of _ c] exI [of _ v] exI [of _ f] exI [of _ content] conjI impI) blast+
qed

definition demo_read_env :: source_read_env where
  "demo_read_env = \<lparr>rv_fresh = sample_fresh_env ''1.0.0'' 1000\<lparr>fe_has_source_files := (\<lambda>_. True)\<rparr>, rv_disk = demo_disk, rv_index = demo_index,
     rv_crate_error = None, rv_version_error = None, rv_lookup_error = None\<rparr>"

definition demo_read_request :: source_read_request where
  "demo_read_request = \<lparr>rd_crate_name = ''serde'', rd_version = None, rd_path = ''src/lib.rs'', rd_start_line = Some 2, rd_end_line = None\<rparr>"

lemma demo_read_run:
  "case handle_source_read demo_read_env demo_read_request sample_server of
     (Some (Inr resp), _) \<Rightarrow> rs_content resp = ''fn b() {}'' | _ \<Rightarrow> False"
  by code_simp

theorem source_read_exact_witness:
  "\<exists>resp srv' c v f content. handle_source_read demo_read_env demo_read_request sample_server = (Some (Inr resp), srv') \<and>
     rs_content resp = ''fn b() {}'' \<and> requested_file demo_read_env demo_read_request sample_server srv' c v f \<and>
     read_content demo_disk (cc_name c) (cv_version v) (sf_path f) = Some content"
proof -
  obtain resp srv' where run: "handle_source_read demo_read_env demo_read_request sample_server = (Some (Inr resp), srv')"
    and content: "rs_content resp = ''fn b() {}''"
    using demo_read_run by (auto split: prod.splits option.splits sum.splits)
  have "rv_disk demo_read_env = demo_disk" by (simp add: demo_read_env_def)
  with source_read_exact [OF run] run content show ?thesis by metis
qed

end
