(* ===== verification/Source_Context.thy ===== *)
theory Source_Context
  imports Source_Read
begin

text \<open>
  The \<open>source_context\<close> tool (\<open>mcp/tools/source/context.rs\<close>): the module, the imports, the impl block and
  the types around a line of an indexed file.  Faults of the queries and the disk are arguments.
\<close>

section \<open>Modules and imports\<close>

definition module_parts :: "string \<Rightarrow> string list" where
  "module_parts normalized =
     (let parts = split_on ''/'' (strip_front [''src/''] normalized)
      in if last parts = ''mod.rs'' then butlast parts
         else butlast parts @ [unwrap_or (strip_suffix ''.rs'' (last parts)) (last parts)])"

definition module_path_from_source_path :: "string \<Rightarrow> string \<Rightarrow> string" where
  "module_path_from_source_path crate_name p =
     (let normalized = strip_front [''./''] p
      in if normalized = ''src/lib.rs'' \<or> normalized = ''src/main.rs'' then crate_name
         else (let filtered = filter (\<lambda>part. part \<noteq> []) (module_parts normalized)
               in if filtered = [] then crate_name else crate_name @ ''::'' @ join ''::'' filtered))"

record import_state =
  is_imports :: "string list"
  is_buffer :: string
  is_collecting :: bool

definition import_line :: "string \<Rightarrow> import_state \<Rightarrow> import_state" where
  "import_line raw_line s =
     (let trimmed_line = trim raw_line
      in if trimmed_line = [] then s
         else if is_collecting s
         then (let buffer = (if is_buffer s = [] then [] else is_buffer s @ '' '') @ trimmed_line
               in if ends_with '';'' trimmed_line
                  then s\<lparr>is_imports := is_imports s @ [trim buffer], is_buffer := [], is_collecting := False\<rparr>
                  else s\<lparr>is_buffer := buffer\<rparr>)
         else if starts_with ''use '' trimmed_line \<or> starts_with ''pub use '' trimmed_line
         then (let buffer = is_buffer s @ trimmed_line
               in if ends_with '';'' trimmed_line then s\<lparr>is_imports := is_imports s @ [trim buffer], is_buffer := []\<rparr>
                  else s\<lparr>is_buffer := buffer, is_collecting := True\<rparr>)
         else s)"

fun import_lines :: "u32 \<Rightarrow> nat \<Rightarrow> string list \<Rightarrow> import_state \<Rightarrow> import_state" where
  "import_lines line line_index [] s = s"
| "import_lines line line_index (raw_line # lines) s =
     (if (of_nat (line_index + 1) :: u32) > line then s
      else import_lines line (line_index + 1) lines (import_line raw_line s))"

definition collect_imports_in_scope :: "string \<Rightarrow> u32 \<Rightarrow> string list" where
  "collect_imports_in_scope content line =
     sort_dedup (is_imports (import_lines line 0 (str_lines content) \<lparr>is_imports = [], is_buffer = [], is_collecting = False\<rparr>))"

section \<open>The queries\<close>

definition in_file :: "index_tables \<Rightarrow> nat \<Rightarrow> string \<Rightarrow> 'a index_row \<Rightarrow> bool" where
  "in_file ix crate_version_id p r \<longleftrightarrow>
     ir_crate_version_id r = crate_version_id \<and> (\<exists>f \<in> set (ix_files ix). sf_id f = ir_source_file_id r \<and> sf_path f = p)"

definition fetch_symbol_start_line_for_context :: "index_tables \<Rightarrow> nat \<Rightarrow> string \<Rightarrow> string \<Rightarrow> int option" where
  "fetch_symbol_start_line_for_context ix crate_version_id p symbol_name =
     (case sort_key (\<lambda>r. sy_start_line (ir_value r))
             (filter (\<lambda>r. in_file ix crate_version_id p r \<and> sy_name (ir_value r) = symbol_name) (ix_symbols ix)) of
        [] \<Rightarrow> None | r # _ \<Rightarrow> Some (sy_start_line (ir_value r)))"

definition fetch_containing_impl_for_context :: "index_tables \<Rightarrow> nat \<Rightarrow> string \<Rightarrow> int \<Rightarrow> indexed_impl_insert option" where
  "fetch_containing_impl_for_context ix crate_version_id p line =
     (case sort_key (\<lambda>r. - ii_start_line (ir_value r))
             (filter (\<lambda>r. in_file ix crate_version_id p r \<and> ii_start_line (ir_value r) \<le> line) (ix_impls ix)) of
        [] \<Rightarrow> None | r # _ \<Rightarrow> Some (ir_value r))"

definition fetch_surrounding_types_for_context :: "index_tables \<Rightarrow> nat \<Rightarrow> string \<Rightarrow> int \<Rightarrow> int \<Rightarrow> indexed_type_insert list" where
  "fetch_surrounding_types_for_context ix crate_version_id p line lim =
     map ir_value (take (nat (max lim 1)) (sort_key (\<lambda>r. (\<bar>ty_start_line (ir_value r) - line\<bar>, ty_start_line (ir_value r)))
       (filter (in_file ix crate_version_id p) (ix_types ix))))"

section \<open>Requests and responses\<close>

record source_context_request =
  cq_crate_name :: string
  cq_version :: "string option"
  cq_path :: string
  cq_line :: "u32 option"
  cq_symbol_name :: "string option"

record source_context_impl_block =
  cb_type_name :: string
  cb_type_name_display :: "string option"
  cb_trait_name :: "string option"
  cb_trait_name_display :: "string option"
  cb_impl_kind :: string
  cb_source_line :: int

record source_context_type_context =
  cy_type_name :: string
  cy_kind :: string
  cy_source_line :: int

record source_context_response =
  cp_crate_name :: string
  cp_selected_version :: string
  cp_latest_version :: string
  cp_path :: string
  cp_line :: u32
  cp_symbol_name :: "string option"
  cp_module_path :: string
  cp_imports_in_scope :: "string list"
  cp_containing_impl :: "source_context_impl_block option"
  cp_surrounding_types :: "source_context_type_context list"
  cp_freshness_check_performed :: bool
  cp_freshness_check_result :: string
  cp_refresh_enqueued :: bool
  cp_refresh_job_id :: "string option"
  cp_freshness :: "response_freshness_source list"
  cp_confidence :: string
  cp_confidence_assessment :: confidence_assessment
  cp_suggested_next_tools :: "string list"
  cp_provenance :: string

record context_env =
  cn_fresh :: fresh_env
  cn_disk :: source_disk
  cn_index :: index_tables
  cn_file_error :: "string option"
  cn_symbol_error :: "string option"
  cn_impl_error :: "string option"
  cn_types_error :: "string option"

section \<open>The handler\<close>

text \<open>The crate, its latest version and the freshness check; unlike \<open>fetch_crate_context\<close> it does not index a missing crate.\<close>

definition context_crate :: "fresh_env \<Rightarrow> string \<Rightarrow> server_state \<Rightarrow> crate_context result \<times> server_state" where
  "context_crate env crate_name srv =
     (case fe_db_error env CrateLookup of
        Some e \<Rightarrow> (Inl (''crate lookup failed for '' @ crate_name @ '': '' @ e), srv)
      | None \<Rightarrow>
     (case fetch_crate_core_by_name (sv_store srv) crate_name of
        None \<Rightarrow> (Inl (''crate '' @ quote_name crate_name @ '' is not indexed locally; run index_crates first''), srv)
      | Some crate_row \<Rightarrow>
     (case lookup_latest (fe_db_error env LatestLookup) ''lookup'' crate_name crate_row (sv_store srv) of
        Inl e \<Rightarrow> (Inl e, srv)
      | Inr latest \<Rightarrow>
     (case ensure_freshness_for_interaction env (cc_id crate_row) (cc_name crate_row) (cv_version latest) srv of
        (Inl e, srv1) \<Rightarrow> (Inl e, srv1)
      | (Inr out, srv1) \<Rightarrow>
     (case (if io_freshness_check_result out = ''changed''
            then lookup_latest (fe_db_error env LatestRelookup) ''relookup'' crate_name crate_row (sv_store srv1) else Inr latest) of
        Inl e \<Rightarrow> (Inl e, srv1)
      | Inr latest' \<Rightarrow>
          (Inr \<lparr>cx_crate_row = crate_row, cx_latest_version = latest', cx_freshness_outcome = out\<rparr>, srv1))))))"

definition context_file ::
  "context_env \<Rightarrow> crate_context \<Rightarrow> crate_version_selection_row \<Rightarrow> string \<Rightarrow> crate_store \<Rightarrow> string result" where
  "context_file env ctx selected p st =
     (let name = cc_name (cx_crate_row ctx); what = name @ ''@'' @ cv_version selected @ '':'' @ p
      in case cn_file_error env of
           Some e \<Rightarrow> Inl (''source_context lookup failed for '' @ what @ '': '' @ e)
         | None \<Rightarrow>
             (case fetch_source_read_for_crate_version_path st (cn_index env) name (cv_id selected) p of
                None \<Rightarrow> Inl (''source file not found for '' @ what @ ''. Try crate_api or symbol_search to explore this crate'' @ [CHR 0x27] @ ''s API surface.'')
              | Some row \<Rightarrow>
                  (case read_content (cn_disk env) name (cv_version selected) (rw_path row) of
                     None \<Rightarrow> Inl (missing_content name (cv_version selected) p)
                   | Some content \<Rightarrow> Inr content)))"

text \<open>The anchor line; \<open>None\<close> is the panic of \<open>clamp\<close>.\<close>

definition context_line ::
  "context_env \<Rightarrow> crate_context \<Rightarrow> crate_version_selection_row \<Rightarrow> string \<Rightarrow> u32 option \<Rightarrow> string option \<Rightarrow> u32 \<Rightarrow> u32 result option" where
  "context_line env ctx selected p line symbol_name total_lines =
     (let what = cc_name (cx_crate_row ctx) @ ''@'' @ cv_version selected @ '':'' @ p
      in case line of
           Some l \<Rightarrow> map_option Inr (checked_clamp l 1 total_lines)
         | None \<Rightarrow>
     (case symbol_name of
        None \<Rightarrow> Some (Inl ''source_context requires either line or symbol_name'')
      | Some symbol \<Rightarrow>
     (case cn_symbol_error env of
        Some e \<Rightarrow> Some (Inl (''source_context symbol lookup failed for '' @ what @ '':'' @ symbol @ '': '' @ e))
      | None \<Rightarrow>
     (case fetch_symbol_start_line_for_context (cn_index env) (cv_id selected) p symbol of
        None \<Rightarrow> Some (Inl (''symbol '' @ quote_name symbol @ '' not found in '' @ what))
      | Some start_line \<Rightarrow> map_option Inr (checked_clamp (of_int (max start_line 1)) 1 total_lines)))))"

definition impl_block :: "indexed_impl_insert \<Rightarrow> source_context_impl_block" where
  "impl_block r =
     \<lparr>cb_type_name = ii_type_name r, cb_type_name_display = ii_type_name_display r, cb_trait_name = ii_trait_name r,
      cb_trait_name_display = ii_trait_name_display r, cb_impl_kind = ii_impl_kind r, cb_source_line = ii_start_line r\<rparr>"

definition containing_impl :: "context_env \<Rightarrow> nat \<Rightarrow> string \<Rightarrow> int \<Rightarrow> source_context_impl_block option result" where
  "containing_impl env crate_version_id p line =
     (case cn_impl_error env of
        Some e \<Rightarrow> Inl (''source_context impl lookup failed: '' @ e)
      | None \<Rightarrow>
          (case fetch_containing_impl_for_context (cn_index env) crate_version_id p line of
             None \<Rightarrow> Inr None
           | Some r \<Rightarrow> Inr (if \<bar>line - ii_start_line r\<bar> \<le> 200 then Some (impl_block r) else None)))"

definition surrounding_types :: "context_env \<Rightarrow> nat \<Rightarrow> string \<Rightarrow> int \<Rightarrow> source_context_type_context list result" where
  "surrounding_types env crate_version_id p line =
     (case cn_types_error env of
        Some e \<Rightarrow> Inl (''source_context type lookup failed: '' @ e)
      | None \<Rightarrow>
          Inr (map (\<lambda>r. \<lparr>cy_type_name = ty_type_name r, cy_kind = ty_kind r, cy_source_line = ty_start_line r\<rparr>)
            (fetch_surrounding_types_for_context (cn_index env) crate_version_id p line 5)))"

definition context_response ::
  "crate_context \<Rightarrow> version_resolution \<Rightarrow> string \<Rightarrow> string option \<Rightarrow> string \<Rightarrow> u32 \<Rightarrow> source_context_impl_block option \<Rightarrow>
   source_context_type_context list \<Rightarrow> source_context_response" where
  "context_response ctx res p symbol_name content line impl types =
     (let out = cx_freshness_outcome ctx; imports = collect_imports_in_scope content line;
          assessment = (if imports = [] \<and> impl = None \<and> types = []
            then \<lparr>ca_level = Low, ca_reason = ''indexed source context is limited for this location''\<rparr>
            else \<lparr>ca_level = Medium, ca_reason = ''module/import/type context derived from indexed source and syn metadata''\<rparr>)
      in \<lparr>cp_crate_name = cc_name (cx_crate_row ctx), cp_selected_version = cv_version (vs_selected_version res),
          cp_latest_version = cv_version (cx_latest_version ctx), cp_path = p, cp_line = line, cp_symbol_name = symbol_name,
          cp_module_path = module_path_from_source_path (cc_name (cx_crate_row ctx)) p, cp_imports_in_scope = imports,
          cp_containing_impl = impl, cp_surrounding_types = types,
          cp_freshness_check_performed = io_freshness_check_performed out, cp_freshness_check_result = io_freshness_check_result out,
          cp_refresh_enqueued = vs_refresh_enqueued res, cp_refresh_job_id = vs_refresh_job_id res,
          cp_freshness = [\<lparr>rf_source = ''crates.io'', rf_status = io_freshness_check_result out, rf_checked_at = None\<rparr>],
          cp_confidence = confidence_as_str (ca_level assessment), cp_confidence_assessment = assessment,
          cp_suggested_next_tools = (if impl = None \<and> types = [] then [''index_crates'', ''source_search'', ''crate_api'']
            else [''source_read'', ''symbol_search'', ''crate_type_info'']),
          cp_provenance = ''source_files + symbols + crate_impls + crate_types''\<rparr>)"

text \<open>From the resolved version on the handler only reads.\<close>

definition context_answer ::
  "context_env \<Rightarrow> source_context_request \<Rightarrow> crate_context \<Rightarrow> version_resolution \<Rightarrow> string \<Rightarrow> crate_store \<Rightarrow> source_context_response result option" where
  "context_answer env request ctx res p st =
     (let selected = vs_selected_version res; symbol_name = normalize_optional (cq_symbol_name request)
      in case context_file env ctx selected p st of
           Inl e \<Rightarrow> Some (Inl e)
         | Inr content \<Rightarrow>
     (case context_line env ctx selected p (cq_line request) symbol_name (total_lines_of content) of
        None \<Rightarrow> None
      | Some (Inl e) \<Rightarrow> Some (Inl e)
      | Some (Inr line) \<Rightarrow>
          Some (res_bind (containing_impl env (cv_id selected) p (sint line)) (\<lambda>impl.
                res_bind (surrounding_types env (cv_id selected) p (sint line)) (\<lambda>types.
                  Inr (context_response ctx res p symbol_name content line impl types))))))"

definition handle_source_context ::
  "context_env \<Rightarrow> source_context_request \<Rightarrow> server_state \<Rightarrow> source_context_response result option \<times> server_state" where
  "handle_source_context env request srv =
     (case normalize_required (cq_crate_name request) ''crate_name'' of
        Inl e \<Rightarrow> (Some (Inl e), srv)
      | Inr crate_name \<Rightarrow>
     (case normalize_required (cq_path request) ''path'' of
        Inl e \<Rightarrow> (Some (Inl e), srv)
      | Inr p \<Rightarrow>
     (case context_crate (cn_fresh env) crate_name srv of
        (Inl e, srv1) \<Rightarrow> (Some (Inl e), srv1)
      | (Inr ctx, srv1) \<Rightarrow>
     (case resolve_version_or_latest (cn_fresh env) ctx (normalize_optional (cq_version request)) srv1 of
        (Inl e, srv2) \<Rightarrow> (Some (Inl e), srv2)
      | (Inr res, srv2) \<Rightarrow>
     (case ensure_source_indexed (cn_fresh env) crate_name (cv_version (vs_selected_version res)) (cv_id (vs_selected_version res)) srv2 of
        (Inl e, srv3) \<Rightarrow> (Some (Inl e), srv3)
      | (Inr _, srv3) \<Rightarrow> (context_answer env request ctx res p (sv_store srv3), srv3))))))"

section \<open>Imports in scope\<close>

definition use_start :: "string \<Rightarrow> bool" where
  "use_start l \<longleftrightarrow> starts_with ''use '' l \<or> starts_with ''pub use '' l"

definition use_statement :: "string \<Rightarrow> bool" where
  "use_statement l \<longleftrightarrow> use_start l \<and> ends_with '';'' l"

lemma use_start_append: "use_start l \<Longrightarrow> use_start (l @ t)"
  by (auto simp: use_start_def intro: starts_with_mono)

lemma ends_with_append: "ends_with p t \<Longrightarrow> ends_with p (s @ t)"
  by (auto simp: ends_with_def intro: starts_with_mono)

lemma trim_use_statement: "use_statement l \<Longrightarrow> trim l = l"
proof -
  assume l: "use_statement l"
  from l obtain c t where "l = c # t" "c = CHR ''u'' \<or> c = CHR ''p''"
    unfolding use_statement_def use_start_def by (cases l) auto
  moreover have "front_match white_space (CHR ''u'' # t) = None" by (simp add: front_match_def white_space_def)
  moreover have "front_match white_space (CHR ''p'' # t) = None" by (simp add: front_match_def white_space_def)
  ultimately have front: "front_match white_space l = None" by metis
  from l obtain r where "rev l = CHR '';'' # r" unfolding use_statement_def ends_with_def by (cases "rev l") auto
  then have "front_match (map rev white_space) (rev l) = None" by (simp add: front_match_def white_space_def)
  then show "trim l = l" using front by (simp add: trim_def trim_start_fixed trim_end_def)
qed

definition import_inv :: "import_state \<Rightarrow> bool" where
  "import_inv s \<longleftrightarrow> list_all use_statement (is_imports s) \<and>
     (if is_collecting s then use_start (is_buffer s) \<and> is_buffer s \<noteq> [] else is_buffer s = [])"

lemma import_line_inv:
  assumes "import_inv s" shows "import_inv (import_line raw s)"
proof (cases "trim raw = []")
  case ne: False
  show ?thesis
  proof (cases "is_collecting s")
    case True
    then have b: "use_start (is_buffer s @ '' '' @ trim raw)" "is_buffer s \<noteq> []"
      using assms by (auto simp: import_inv_def intro: use_start_append)
    have "use_statement (is_buffer s @ '' '' @ trim raw)" if "ends_with '';'' (trim raw)"
      using b(1) ends_with_append [OF that, of "is_buffer s @ '' ''"] by (simp add: use_statement_def)
    with True ne b assms show ?thesis by (auto simp: import_inv_def import_line_def Let_def trim_use_statement)
  next
    case False
    have "use_statement (trim raw)" if "use_start (trim raw)" "ends_with '';'' (trim raw)"
      using that by (simp add: use_statement_def)
    with False ne assms show ?thesis
      by (auto simp: import_inv_def import_line_def Let_def trim_use_statement use_start_def)
  qed
qed (use assms in \<open>simp add: import_line_def\<close>)

lemma import_lines_fold:
  "k + length lines < 2 ^ 32 \<Longrightarrow> import_lines line k lines s = fold import_line (take (unat line - k) lines) s"
proof (induction lines arbitrary: k s)
  case (Cons l lines)
  have "unat (of_nat (k + 1) :: u32) = k + 1" using Cons.prems by (subst unat_of_nat) simp
  then have "(of_nat (k + 1) :: u32) > line \<longleftrightarrow> unat line < k + 1" by (simp only: word_less_nat_alt)
  moreover have "unat line - k = Suc (unat line - (k + 1))" if "\<not> unat line < k + 1" using that by simp
  ultimately show ?case using Cons.IH [of "k + 1"] Cons.prems by (cases "unat line < k + 1") simp_all
qed simp

lemma fold_import_inv: "import_inv s \<Longrightarrow> import_inv (fold import_line ls s)"
  by (induction ls arbitrary: s) (simp_all add: import_line_inv)

lemma fold_single_lines:
  assumes "\<forall>l \<in> set ls. use_start (trim l) \<longrightarrow> ends_with '';'' (trim l)" "\<not> is_collecting s" "is_buffer s = []"
  shows "is_imports (fold import_line ls s) = is_imports s @ filter use_start (map trim ls)"
  using assms
proof (induction ls arbitrary: s)
  case (Cons l ls)
  show ?case
  proof (cases "use_start (trim l)")
    case True
    then have "use_statement (trim l)" using Cons.prems(1) by (simp add: use_statement_def)
    moreover have "trim l \<noteq> []" using True by (auto simp: use_start_def)
    ultimately have "import_line l s = s\<lparr>is_imports := is_imports s @ [trim l], is_buffer := []\<rparr>"
      using Cons.prems by (simp add: import_line_def Let_def use_statement_def use_start_def)
    then show ?thesis using Cons.IH [of "import_line l s"] Cons.prems True by simp
  next
    case False
    then have "import_line l s = s" using Cons.prems(2) by (simp add: import_line_def Let_def use_start_def)
    then show ?thesis using Cons.IH [of s] Cons.prems False by simp
  qed
qed simp

theorem imports_in_scope:
  fixes line :: u32
  assumes "length (str_lines content) < 2 ^ 32"
  defines "scope \<equiv> take (unat line) (str_lines content)"
  shows "list_all use_statement (collect_imports_in_scope content line) \<and> sorted_wrt (<) (collect_imports_in_scope content line) \<and>
    ((\<forall>l \<in> set scope. use_start (trim l) \<longrightarrow> ends_with '';'' (trim l)) \<longrightarrow>
     set (collect_imports_in_scope content line) = {l \<in> trim ` set scope. use_start l})"
proof -
  let ?s = "\<lparr>is_imports = [], is_buffer = [], is_collecting = False\<rparr>"
  have e: "collect_imports_in_scope content line = sort_dedup (is_imports (fold import_line scope ?s))"
    using import_lines_fold [of 0 "str_lines content" line ?s] assms(1) by (simp add: collect_imports_in_scope_def scope_def)
  have "import_inv (fold import_line scope ?s)" by (rule fold_import_inv) (simp add: import_inv_def)
  then have "list_all use_statement (is_imports (fold import_line scope ?s))" by (simp add: import_inv_def)
  then show ?thesis using fold_single_lines [of scope ?s] by (auto simp: e list_all_iff)
qed

section \<open>The surroundings of a line\<close>

text \<open>The impl block of a line: the last one of the file that starts at or before the line, when that is within 200 lines.\<close>

definition impl_of_line :: "index_tables \<Rightarrow> nat \<Rightarrow> string \<Rightarrow> int \<Rightarrow> source_context_impl_block option \<Rightarrow> bool" where
  "impl_of_line ix i p line b \<longleftrightarrow>
     (let before = {r \<in> set (ix_impls ix). in_file ix i p r \<and> ii_start_line (ir_value r) \<le> line}
      in case b of
           Some x \<Rightarrow> \<exists>r \<in> before. x = impl_block (ir_value r) \<and> line - 200 \<le> ii_start_line (ir_value r) \<and>
             (\<forall>s \<in> before. ii_start_line (ir_value s) \<le> ii_start_line (ir_value r))
         | None \<Rightarrow> \<forall>r \<in> before. ii_start_line (ir_value r) < line - 200)"

lemma containing_impl_correct:
  assumes "containing_impl env i p line = Inr b"
  shows "impl_of_line (cn_index env) i p line b"
proof -
  let ?rows = "filter (\<lambda>r. in_file (cn_index env) i p r \<and> ii_start_line (ir_value r) \<le> line) (ix_impls (cn_index env))"
  show ?thesis
  proof (cases "sort_key (\<lambda>r. - ii_start_line (ir_value r)) ?rows")
    case Nil
    then have "?rows = []" by (simp only: sort_key_Nil_iff)
    moreover have "b = None"
      using assms Nil by (simp add: containing_impl_def fetch_containing_impl_for_context_def split: option.splits)
    ultimately show ?thesis by (auto simp: impl_of_line_def filter_empty_conv)
  next
    case (Cons r rs)
    note r = sort_key_hd [OF Cons]
    have b: "b = (if \<bar>line - ii_start_line (ir_value r)\<bar> \<le> 200 then Some (impl_block (ir_value r)) else None)"
      using assms Cons by (auto simp: containing_impl_def fetch_containing_impl_for_context_def split: option.splits if_splits)
    show ?thesis
    proof (cases "\<bar>line - ii_start_line (ir_value r)\<bar> \<le> 200")
      case True
      moreover have "ii_start_line (ir_value s) \<le> ii_start_line (ir_value r)" if "s \<in> set ?rows" for s using r(2) [OF that] by simp
      ultimately have "b = Some (impl_block (ir_value r)) \<and> line - 200 \<le> ii_start_line (ir_value r) \<and>
        (\<forall>s \<in> set ?rows. ii_start_line (ir_value s) \<le> ii_start_line (ir_value r))" using b by auto
      then show ?thesis using r(1) unfolding impl_of_line_def Let_def by (simp only: option.case set_filter) blast
    next
      case False
      have "ii_start_line (ir_value s) < line - 200" if "s \<in> set ?rows" for s
        using r(2) [OF that] r(1) False by auto
      then have "\<forall>s \<in> set ?rows. ii_start_line (ir_value s) < line - 200" by blast
      then show ?thesis using b False unfolding impl_of_line_def Let_def by (simp only: option.case set_filter if_False)
    qed
  qed
qed

text \<open>The types near a line: at most five of the file, and none that is left out is nearer than one that is listed.\<close>

definition types_near_line :: "index_tables \<Rightarrow> nat \<Rightarrow> string \<Rightarrow> int \<Rightarrow> source_context_type_context list \<Rightarrow> bool" where
  "types_near_line ix i p line types \<longleftrightarrow>
     (\<exists>near far. mset (near @ far) = mset (filter (in_file ix i p) (ix_types ix)) \<and>
        types = map (\<lambda>r. \<lparr>cy_type_name = ty_type_name (ir_value r), cy_kind = ty_kind (ir_value r), cy_source_line = ty_start_line (ir_value r)\<rparr>) near \<and>
        length near \<le> 5 \<and> (length near < 5 \<longrightarrow> far = []) \<and>
        (\<forall>r \<in> set near. \<forall>s \<in> set far. \<bar>ty_start_line (ir_value r) - line\<bar> \<le> \<bar>ty_start_line (ir_value s) - line\<bar>))"

lemma surrounding_types_correct:
  assumes "surrounding_types env i p line = Inr types"
  shows "types_near_line (cn_index env) i p line types"
proof -
  let ?key = "\<lambda>r. (\<bar>ty_start_line (ir_value r) - line\<bar>, ty_start_line (ir_value r))"
  define rows where "rows = sort_key ?key (filter (in_file (cn_index env) i p) (ix_types (cn_index env)))"
  have sorted: "sorted (map ?key rows)" by (simp add: rows_def)
  have "mset (take 5 rows @ drop 5 rows) = mset (filter (in_file (cn_index env) i p) (ix_types (cn_index env)))"
    unfolding append_take_drop_id by (simp add: rows_def)
  moreover have "types = map (\<lambda>r. \<lparr>cy_type_name = ty_type_name (ir_value r), cy_kind = ty_kind (ir_value r), cy_source_line = ty_start_line (ir_value r)\<rparr>) (take 5 rows)"
    using assms by (auto simp: surrounding_types_def fetch_surrounding_types_for_context_def rows_def split: option.splits)
  moreover have "?key r \<le> ?key s" if "r \<in> set (take 5 rows)" "s \<in> set (drop 5 rows)" for r s
  proof -
    have "sorted (map ?key (take 5 rows) @ map ?key (drop 5 rows))" using sorted by (metis append_take_drop_id map_append)
    with that show ?thesis by (auto simp: sorted_append)
  qed
  then have "\<forall>r \<in> set (take 5 rows). \<forall>s \<in> set (drop 5 rows). \<bar>ty_start_line (ir_value r) - line\<bar> \<le> \<bar>ty_start_line (ir_value s) - line\<bar>"
    by (fastforce simp: less_eq_prod_def)
  ultimately show ?thesis
    unfolding types_near_line_def by (intro exI [of _ "take 5 rows"] exI [of _ "drop 5 rows"]) (auto simp: min_def)
qed

lemma handle_source_context_Inr:
  assumes "handle_source_context env request srv = (Some (Inr resp), srv')"
  obtains ctx srv1 res srv2 where "context_crate (cn_fresh env) (trim (cq_crate_name request)) srv = (Inr ctx, srv1)"
    "resolve_version_or_latest (cn_fresh env) ctx (normalize_optional (cq_version request)) srv1 = (Inr res, srv2)"
    "context_answer env request ctx res (trim (cq_path request)) (sv_store srv') = Some (Inr resp)"
  using assms by (auto simp: handle_source_context_def normalize_required_def Let_def split: sum.splits prod.splits if_splits)

lemma context_answer_Inr:
  assumes "context_answer env request ctx res p st = Some (Inr resp)"
  obtains content line impl types where "context_file env ctx (vs_selected_version res) p st = Inr content"
    "context_line env ctx (vs_selected_version res) p (cq_line request) (normalize_optional (cq_symbol_name request)) (total_lines_of content) = Some (Inr line)"
    "containing_impl env (cv_id (vs_selected_version res)) p (sint line) = Inr impl"
    "surrounding_types env (cv_id (vs_selected_version res)) p (sint line) = Inr types"
    "resp = context_response ctx res p (normalize_optional (cq_symbol_name request)) content line impl types"
  using assms by (auto simp: context_answer_def Let_def res_bind_Inr_iff split: sum.splits option.splits)

lemma checked_clamp_range:
  assumes "checked_clamp x 1 (total_lines_of content) = Some line" and "length (str_lines content) < 2 ^ 32"
  shows "1 \<le> unat line \<and> unat line \<le> max (length (str_lines content)) 1"
proof -
  have "line = clamp x 1 (total_lines_of content)" "1 \<le> total_lines_of content"
    using assms(1) by (auto simp: checked_clamp_def split: if_splits)
  then have "1 \<le> line" "line \<le> total_lines_of content" using clamp_bounds by blast+
  moreover have "unat (total_lines_of content) = max (length (str_lines content)) 1"
    using assms(2) by (simp add: total_lines_of_def unat_of_nat)
  ultimately show ?thesis by (simp add: word_le_nat_alt)
qed

lemma context_line_range:
  assumes "context_line env ctx selected p l symbol (total_lines_of content) = Some (Inr line)" and "length (str_lines content) < 2 ^ 32"
  shows "1 \<le> unat line \<and> unat line \<le> max (length (str_lines content)) 1"
  using assms(1) checked_clamp_range [OF _ assms(2)] by (auto simp: context_line_def Let_def split: option.splits)

lemma sint_small: "unat (w :: u32) < 2 ^ 31 \<Longrightarrow> sint w = int (unat w)"
proof -
  assume "unat w < 2 ^ 31"
  then have "int (unat w) < int (2 ^ 31)" by (simp only: of_nat_less_iff)
  then have "uint w < 2 ^ 31" by (simp only: uint_nat of_nat_power of_nat_numeral)
  moreover have "- (2 ^ 31) \<le> uint w" using uint_ge_0 [of w] by (rule order_trans [rotated]) simp
  ultimately have "signed_take_bit 31 (uint w) = uint w" by (intro signed_take_bit_int_eq_self)
  then show "sint w = int (unat w)" by (simp add: sint_uint)
qed


definition demo_context_env :: context_env where
  "demo_context_env = \<lparr>cn_fresh = sample_fresh_env ''1.0.0'' 1000\<lparr>fe_has_source_files := (\<lambda>_. True)\<rparr>, cn_disk = demo_disk, cn_index = demo_index,
     cn_file_error = None, cn_symbol_error = None, cn_impl_error = None, cn_types_error = None\<rparr>"

definition demo_context_request :: source_context_request where
  "demo_context_request = \<lparr>cq_crate_name = ''serde'', cq_version = Some ''1.0.0'', cq_path = ''src/lib.rs'', cq_line = Some 7, cq_symbol_name = None\<rparr>"

lemma demo_context_run:
  "case handle_source_context demo_context_env demo_context_request sample_server of
     (Some (Inr resp), _) \<Rightarrow> cp_imports_in_scope resp = [''use a;''] \<and> cp_line resp = 2 \<and> cp_module_path resp = ''Serde'' | _ \<Rightarrow> False"
  by code_simp


end
