(* ===== verification/Stdio_Adapter.thy ===== *)
theory Stdio_Adapter
  imports Rustdoc_Files
begin

text \<open>
  The stdio adapter (\<open>rust-mcp-stdio/src/main.rs\<close>) and the protocol helpers it shares with the server
  (\<open>rust-mcp-types/src/protocol.rs\<close>).  \<open>serde_json\<close>, \<open>base64\<close> and the constants of \<open>rmcp\<close> are arguments
  (\<open>mcp_api\<close>); the HTTP endpoint is an argument that may answer every call differently (\<open>up_sent\<close>
  records the requests made so far, and the answer depends on it).
\<close>

section \<open>Protocol helpers\<close>

record mcp_api =
  ma_from_str :: "string \<Rightarrow> json result"
  ma_to_vec :: "json \<Rightarrow> string result"
  ma_base64 :: "string \<Rightarrow> string"
  ma_base64_prefix :: string
  ma_base64_suffix :: string
  ma_header_protocol_version :: string
  ma_header_method :: string
  ma_header_name :: string
  ma_package_version :: string
  ma_show_status :: "nat \<Rightarrow> string"

definition LATEST_MCP_PROTOCOL_VERSION :: string where
  "LATEST_MCP_PROTOCOL_VERSION = ''2026-07-28''"

definition META_KEY :: string where "META_KEY = ''_meta''"

definition META_PROTOCOL_VERSION :: string where
  "META_PROTOCOL_VERSION = ''io.modelcontextprotocol/protocolVersion''"

definition META_CLIENT_INFO :: string where
  "META_CLIENT_INFO = ''io.modelcontextprotocol/clientInfo''"

definition META_CLIENT_CAPABILITIES :: string where
  "META_CLIENT_CAPABILITIES = ''io.modelcontextprotocol/clientCapabilities''"

definition request_meta_protocol_version :: "json \<Rightarrow> string option" where
  "request_meta_protocol_version message =
     Option.bind (json_get ''params'' message) (\<lambda>params.
     Option.bind (json_get META_KEY params) (\<lambda>meta.
     Option.bind (json_get META_PROTOCOL_VERSION meta) as_str))"

text \<open>\<open>entry(k).or_insert_with(..)\<close> followed by \<open>as_object_mut\<close>: the value under the key is replaced only if it is an object.\<close>

fun with_object_entry :: "string \<Rightarrow> ((string \<times> json) list \<Rightarrow> (string \<times> json) list) \<Rightarrow> (string \<times> json) list \<Rightarrow> (string \<times> json) list" where
  "with_object_entry k f entries =
     (let entries' = or_insert k (JObject []) entries
      in case bt_get entries' k of
           Some (JObject inner) \<Rightarrow> bt_insert k (JObject (f inner)) entries'
         | _ \<Rightarrow> entries')"

definition stateless_meta :: "string \<Rightarrow> string \<Rightarrow> (string \<times> json) list \<Rightarrow> (string \<times> json) list" where
  "stateless_meta client_name client_version meta =
     or_insert META_CLIENT_INFO (json_obj [(''name'', JString client_name), (''version'', JString client_version)])
       (or_insert META_CLIENT_CAPABILITIES (JObject [])
         (bt_insert META_PROTOCOL_VERSION (JString LATEST_MCP_PROTOCOL_VERSION) meta))"

definition insert_stateless_request_meta :: "string \<Rightarrow> string \<Rightarrow> json \<Rightarrow> json" where
  "insert_stateless_request_meta client_name client_version message =
     (case message of
        JObject entries \<Rightarrow>
          JObject (with_object_entry ''params'' (with_object_entry META_KEY (stateless_meta client_name client_version)) entries)
      | _ \<Rightarrow> message)"

definition requires_base64 :: "mcp_api \<Rightarrow> string \<Rightarrow> bool" where
  "requires_base64 api value \<longleftrightarrow>
     value \<noteq> [] \<and>
     (hd value \<in> {CHR 0x20, CHR 0x09} \<or> last value \<in> {CHR 0x20, CHR 0x09} \<or>
      list_ex (\<lambda>c. \<not> in_bytes 32 126 c) value \<or>
      starts_with (ma_base64_prefix api) value \<and> ends_with (ma_base64_suffix api) value)"

definition encode_header_value :: "mcp_api \<Rightarrow> string \<Rightarrow> string" where
  "encode_header_value api value =
     (if requires_base64 api value then ma_base64_prefix api @ ma_base64 api value @ ma_base64_suffix api else value)"

definition NAME_FROM_NAME :: "string list" where
  "NAME_FROM_NAME = [''tools/call'', ''prompts/get'']"

definition NAME_FROM_URI :: "string list" where
  "NAME_FROM_URI = [''resources/read'']"

definition name_key :: "string \<Rightarrow> string option" where
  "name_key m = (if m \<in> set NAME_FROM_NAME then Some ''name'' else if m \<in> set NAME_FROM_URI then Some ''uri'' else None)"

definition json_method :: "json \<Rightarrow> string option" where
  "json_method message = Option.bind (json_get ''method'' message) as_str"

definition stateless_request_headers :: "mcp_api \<Rightarrow> json \<Rightarrow> string \<Rightarrow> (string \<times> string) list" where
  "stateless_request_headers api message protocol_version =
     (ma_header_protocol_version api, protocol_version) #
     (case json_method message of
        None \<Rightarrow> []
      | Some m \<Rightarrow>
          (ma_header_method api, m) #
          (case Option.bind (name_key m) (\<lambda>key. Option.bind (json_get ''params'' message) (\<lambda>params.
                  Option.bind (json_get key params) as_str)) of
             None \<Rightarrow> []
           | Some name \<Rightarrow> [(ma_header_name api, encode_header_value api name)]))"

section \<open>Messages from the endpoint\<close>

definition sse_data :: "string \<Rightarrow> string list" where
  "sse_data event = List.map_filter (\<lambda>line. map_option trim_start (strip_prefix ''data:'' line)) (str_lines event)"

definition parse_sse_event :: "mcp_api \<Rightarrow> string \<Rightarrow> json option" where
  "parse_sse_event api event =
     (let data_lines = sse_data event
      in if data_lines = [] then None
         else (let joined = join [CHR 0x0A] data_lines
               in if trim joined = [] then None
                  else (case ma_from_str api joined of Inl _ \<Rightarrow> None | Inr v \<Rightarrow> Some v)))"

definition parse_sse_json_events :: "mcp_api \<Rightarrow> string \<Rightarrow> json list" where
  "parse_sse_json_events api body = List.map_filter (parse_sse_event api) (split_on [CHR 0x0A, CHR 0x0A] body)"

record upstream_reply =
  ur_status :: nat
  ur_content_type :: string
  ur_body :: string

definition reply_is_success :: "nat \<Rightarrow> bool" where
  "reply_is_success status \<longleftrightarrow> 200 \<le> status \<and> status < 300"

definition into_messages :: "mcp_api \<Rightarrow> upstream_reply \<Rightarrow> json list result" where
  "into_messages api reply =
     (let body = ur_body reply
      in if \<not> reply_is_success (ur_status reply)
         then (case ma_from_str api body of
                 Inr json \<Rightarrow> Inr [json]
               | Inl _ \<Rightarrow> Inl (''upstream MCP request returned HTTP '' @ ma_show_status api (ur_status reply) @ '' with body: '' @ body))
         else if trim body = [] then Inr []
         else if contains ''text/event-stream'' (ur_content_type reply) then Inr (parse_sse_json_events api body)
         else (case ma_from_str api body of
                 Inr parsed \<Rightarrow> Inr [parsed]
               | Inl _ \<Rightarrow> Inl (''upstream returned invalid JSON: '' @ body)))"

definition jsonrpc_error :: "json \<Rightarrow> string \<Rightarrow> string \<Rightarrow> json" where
  "jsonrpc_error request_id code message =
     json_obj [(''jsonrpc'', JString ''2.0''), (''id'', request_id),
       (''error'', json_obj [(''code'', JNumber code), (''message'', JString message)])]"

definition jsonrpc_error_for_payload :: "json \<Rightarrow> string \<Rightarrow> string \<Rightarrow> json" where
  "jsonrpc_error_for_payload payload code message = jsonrpc_error (unwrap_or (json_get ''id'' payload) JNull) code message"

section \<open>The upstream connection\<close>

text \<open>An \<open>anyhow\<close> error shows its outermost context only.\<close>

datatype request_headers = StatelessHeaders "(string \<times> string) list" | SessionHeader string | NoHeaders

record upstream_request =
  uq_payload :: json
  uq_headers :: request_headers

record upstream =
  up_session_id :: "string option"
  up_initialize :: "json option"
  up_sent :: "upstream_request list"

record http_answer =
  ha_session_id :: "string option"
  ha_status :: nat
  ha_content_type :: "string option"
  ha_text :: "string result"

type_synonym endpoint = "upstream_request list \<Rightarrow> upstream_request \<Rightarrow> http_answer result"

definition ADAPTER_CLIENT_NAME :: string where
  "ADAPTER_CLIENT_NAME = ''rust-mcp-stdio''"

definition new_upstream :: upstream where
  "new_upstream = \<lparr>up_session_id = None, up_initialize = None, up_sent = []\<rparr>"

definition prepare_upstream :: "mcp_api \<Rightarrow> json \<Rightarrow> bool \<Rightarrow> json \<times> string option" where
  "prepare_upstream api payload legacy =
     (let m = json_method payload
      in if legacy \<or> m = Some ''initialize'' \<or> m = Some ''notifications/initialized'' then (payload, None)
         else (let is_request = (m \<noteq> None \<and> json_get ''id'' payload \<noteq> None);
                   payload' = (if is_request \<and> request_meta_protocol_version payload = None
                     then insert_stateless_request_meta ADAPTER_CLIENT_NAME (ma_package_version api) payload else payload)
               in (payload', Some (unwrap_or (request_meta_protocol_version payload') LATEST_MCP_PROTOCOL_VERSION))))"

definition send_headers :: "mcp_api \<Rightarrow> json \<Rightarrow> string option \<Rightarrow> string option \<Rightarrow> request_headers" where
  "send_headers api payload stateless_version session_id =
     (case stateless_version of
        Some version \<Rightarrow> StatelessHeaders (stateless_request_headers api payload version)
      | None \<Rightarrow> (case session_id of Some sid \<Rightarrow> SessionHeader sid | None \<Rightarrow> NoHeaders))"

definition send :: "mcp_api \<Rightarrow> endpoint \<Rightarrow> json \<Rightarrow> string option \<Rightarrow> upstream \<Rightarrow> upstream_reply result \<times> upstream" where
  "send api http payload stateless_version st =
     (let request = \<lparr>uq_payload = payload, uq_headers = send_headers api payload stateless_version (up_session_id st)\<rparr>;
          st1 = st\<lparr>up_sent := up_sent st @ [request]\<rparr>
      in case http (up_sent st) request of
           Inl _ \<Rightarrow> (Inl ''failed to send upstream MCP HTTP request'', st1)
         | Inr answer \<Rightarrow>
             (let st2 = (case ha_session_id answer of None \<Rightarrow> st1 | Some sid \<Rightarrow> st1\<lparr>up_session_id := Some sid\<rparr>)
              in case ha_text answer of
                   Inl _ \<Rightarrow> (Inl ''failed to read upstream MCP response body'', st2)
                 | Inr body \<Rightarrow>
                     (Inr \<lparr>ur_status = ha_status answer, ur_content_type = unwrap_or (ha_content_type answer) [], ur_body = body\<rparr>, st2)))"

definition initialized_notification :: json where
  "initialized_notification =
     json_obj [(''jsonrpc'', JString ''2.0''), (''method'', JString ''notifications/initialized''), (''params'', JObject [])]"

definition reestablish_session :: "mcp_api \<Rightarrow> endpoint \<Rightarrow> upstream \<Rightarrow> unit result \<times> upstream" where
  "reestablish_session api http st =
     (let st0 = st\<lparr>up_session_id := None\<rparr>
      in case up_initialize st of
           None \<Rightarrow> (Inl ''no legacy `initialize` handshake to replay'', st0)
         | Some initialize \<Rightarrow>
             (case send api http initialize None st0 of
                (Inl e, st1) \<Rightarrow> (Inl e, st1)
              | (Inr reply, st1) \<Rightarrow>
                  if \<not> reply_is_success (ur_status reply) \<or> up_session_id st1 = None
                  then (Inl (''upstream MCP session expired and could not be re-established (HTTP '' @
                             ma_show_status api (ur_status reply) @ ''); retry the request''), st1)
                  else (case send api http initialized_notification None st1 of
                          (Inl e, st2) \<Rightarrow> (Inl e, st2)
                        | (Inr _, st2) \<Rightarrow> (Inr (), st2))))"

definition is_initialize :: "json \<Rightarrow> bool" where
  "is_initialize payload \<longleftrightarrow> json_method payload = Some ''initialize''"

text \<open>The first delivery, and the retry when the session turned out to be gone.\<close>

definition deliver :: "mcp_api \<Rightarrow> endpoint \<Rightarrow> json \<Rightarrow> upstream \<Rightarrow> json list result \<times> upstream" where
  "deliver api http payload st =
     (let had_session = (up_session_id st \<noteq> None);
          (upstream_payload, stateless_version) = prepare_upstream api payload (up_initialize st \<noteq> None)
      in case send api http upstream_payload stateless_version st of
           (Inl e, st1) \<Rightarrow> (Inl e, st1)
         | (Inr reply, st1) \<Rightarrow>
             if had_session \<and> ur_status reply = 404
             then (case reestablish_session api http st1 of
                     (Inl e, st2) \<Rightarrow> (Inl e, st2)
                   | (Inr _, st2) \<Rightarrow>
                       (case send api http payload None st2 of
                          (Inl e, st3) \<Rightarrow> (Inl e, st3)
                        | (Inr reply', st3) \<Rightarrow> (into_messages api reply', st3)))
             else (into_messages api reply, st1))"

definition forward :: "mcp_api \<Rightarrow> endpoint \<Rightarrow> json \<Rightarrow> upstream \<Rightarrow> json list result \<times> upstream" where
  "forward api http payload st =
     (let st0 = (if is_initialize payload then st\<lparr>up_session_id := None, up_initialize := Some payload\<rparr> else st)
      in if up_initialize st0 \<noteq> None \<and> \<not> is_initialize payload \<and> up_session_id st0 = None
         then (case reestablish_session api http st0 of
                 (Inl e, st1) \<Rightarrow> (Inl e, st1)
               | (Inr _, st1) \<Rightarrow> deliver api http payload st1)
         else deliver api http payload st0)"

section \<open>The loop\<close>

text \<open>\<open>read_line\<close> returns the text up to and including a line feed and fails on invalid UTF-8; blank lines are skipped.\<close>

definition next_line :: "string \<Rightarrow> string \<times> string" where
  "next_line s = (case split_once [CHR 0x0A] s of None \<Rightarrow> (s, []) | Some (a, b) \<Rightarrow> (a @ [CHR 0x0A], b))"

lemma next_line_shorter: "s \<noteq> [] \<Longrightarrow> next_line s = (line, rest) \<Longrightarrow> length rest < length s"
  by (auto simp: next_line_def split: option.splits dest: split_once_shorter [rotated])

function read_stdio_line :: "string \<Rightarrow> (string \<times> string) option result" where
  "read_stdio_line s =
     (if s = [] then Inr None
      else (let (line, rest) = next_line s
            in if \<not> utf8_valid line then Inl ''failed to read stdio message''
               else (let trimmed = trim line in if trimmed \<noteq> [] then Inr (Some (trimmed, rest)) else read_stdio_line rest)))"
  by pat_completeness auto
termination
  by (relation "measure length") (auto dest: next_line_shorter [OF _ sym])

declare read_stdio_line.simps [simp del]

definition write_stdio_jsonrpc_message :: "mcp_api \<Rightarrow> json \<Rightarrow> string \<Rightarrow> string result" where
  "write_stdio_jsonrpc_message api payload out =
     (case ma_to_vec api payload of
        Inl _ \<Rightarrow> Inl ''failed to encode JSON-RPC payload''
      | Inr encoded \<Rightarrow> Inr (out @ encoded @ [CHR 0x0A]))"

fun write_messages :: "mcp_api \<Rightarrow> json list \<Rightarrow> string \<Rightarrow> string result" where
  "write_messages api [] out = Inr out"
| "write_messages api (m # ms) out = res_bind (write_stdio_jsonrpc_message api m out) (write_messages api ms)"

definition answer_line :: "mcp_api \<Rightarrow> endpoint \<Rightarrow> string \<Rightarrow> upstream \<Rightarrow> json list \<times> upstream" where
  "answer_line api http line st =
     (case ma_from_str api line of
        Inl e \<Rightarrow> ([jsonrpc_error JNull ''-32700'' (''parse error: '' @ e)], st)
      | Inr payload \<Rightarrow>
          (let is_request = (json_get ''id'' payload \<noteq> None);
               (r, st') = forward api http payload st;
               relayed = (case r of
                   Inl e \<Rightarrow> [jsonrpc_error_for_payload payload ''-32000'' (''stdio proxy upstream call failed: '' @ e)]
                 | Inr ms \<Rightarrow> ms);
               messages = (if relayed = [] \<and> is_request
                 then [jsonrpc_error_for_payload payload ''-32000'' ''stdio proxy upstream returned no JSON-RPC payload'']
                 else relayed)
           in (filter (\<lambda>m. \<not> (json_get ''id'' m = None \<and> \<not> is_request)) messages, st')))"

lemma read_stdio_line_shorter: "read_stdio_line s = Inr (Some (line, rest)) \<Longrightarrow> length rest < length s"
proof (induction s rule: read_stdio_line.induct)
  case (1 s)
  show ?case
  proof (cases "s = []")
    case True
    then show ?thesis using "1.prems" by (simp add: read_stdio_line.simps)
  next
    case False
    obtain a b where n: "next_line s = (a, b)" by (cases "next_line s")
    have "length b < length s" by (rule next_line_shorter [OF False n])
    moreover have "read_stdio_line s = (if \<not> utf8_valid a then Inl ''failed to read stdio message''
        else if trim a \<noteq> [] then Inr (Some (trim a, b)) else read_stdio_line b)"
      using False n by (subst read_stdio_line.simps) (simp add: Let_def)
    ultimately show ?thesis using "1.prems" "1.IH" [OF False n [symmetric] refl] by (simp split: if_splits)
  qed
qed

function adapter_loop :: "mcp_api \<Rightarrow> endpoint \<Rightarrow> string \<Rightarrow> upstream \<Rightarrow> string \<Rightarrow> string result \<times> upstream" where
  "adapter_loop api http input st out =
     (case read_stdio_line input of
        Inl e \<Rightarrow> (Inl e, st)
      | Inr None \<Rightarrow> (Inr out, st)
      | Inr (Some (line, rest)) \<Rightarrow>
          (case answer_line api http line st of
             (messages, st') \<Rightarrow>
               (case write_messages api messages out of
                  Inl e \<Rightarrow> (Inl e, st')
                | Inr out' \<Rightarrow> adapter_loop api http rest st' out')))"
  by pat_completeness auto
termination
  by (relation "measure (\<lambda>(api, http, input, st, out). length input)") (auto dest: read_stdio_line_shorter)

declare adapter_loop.simps [simp del]

text \<open>\<open>schemas_url_from_mcp_url\<close> on the path of the parsed URL.\<close>

definition schemas_path :: "string \<Rightarrow> string" where
  "schemas_path url_path =
     (let p = rev (strip_front [''/''] (rev url_path))
      in case strip_suffix ''/mcp'' p of
           Some prefix \<Rightarrow> if prefix = [] then ''/schemas'' else prefix @ ''/schemas''
         | None \<Rightarrow> if p = [] then ''/schemas'' else p @ ''/schemas'')"

section \<open>A client that initialised stays on its session\<close>

definition handshake :: "json \<Rightarrow> upstream_request \<Rightarrow> bool" where
  "handshake initialize q \<longleftrightarrow>
     q = \<lparr>uq_payload = initialize, uq_headers = NoHeaders\<rparr> \<or>
     uq_payload q = initialized_notification \<and> (\<exists>sid. uq_headers q = SessionHeader sid)"

definition on_session :: "json \<Rightarrow> upstream_request \<Rightarrow> bool" where
  "on_session payload q \<longleftrightarrow> uq_payload q = payload \<and> (\<exists>sid. uq_headers q = SessionHeader sid)"

lemma send_spec:
  assumes "send api http payload v st = (r, st')"
  shows "up_sent st' = up_sent st @ [\<lparr>uq_payload = payload, uq_headers = send_headers api payload v (up_session_id st)\<rparr>]"
    and "up_initialize st' = up_initialize st" and "up_session_id st \<noteq> None \<Longrightarrow> up_session_id st' \<noteq> None"
  using assms by (auto simp: send_def Let_def split: sum.splits option.splits)

lemma send_on_session:
  assumes "send api http payload None st = (r, st')" and "up_session_id st \<noteq> None"
  shows "\<exists>q. up_sent st' = up_sent st @ [q] \<and> on_session payload q"
  using send_spec(1) [OF assms(1)] assms(2) by (auto simp: on_session_def send_headers_def)

lemma reestablish_spec:
  assumes "reestablish_session api http st = (r, st')" and "up_initialize st = Some initialize"
  shows "\<exists>new. up_sent st' = up_sent st @ new \<and> length new \<le> 2 \<and> list_all (handshake initialize) new \<and>
    up_initialize st' = Some initialize \<and> (r = Inr () \<longrightarrow> up_session_id st' \<noteq> None)"
proof -
  let ?st0 = "st\<lparr>up_session_id := None\<rparr>" and ?q = "\<lparr>uq_payload = initialize, uq_headers = NoHeaders\<rparr>"
  obtain r1 st1 where s1: "send api http initialize None ?st0 = (r1, st1)" by (cases "send api http initialize None ?st0")
  have sent1: "up_sent st1 = up_sent st @ [?q]" "up_initialize st1 = Some initialize"
    using send_spec(1,2) [OF s1] assms(2) by (simp_all add: send_headers_def)
  have h: "handshake initialize ?q" by (simp add: handshake_def)
  consider (early) "r \<noteq> Inr ()" "st' = st1"
    | (notified) r2 where "up_session_id st1 \<noteq> None" "send api http initialized_notification None st1 = (r2, st')"
    using assms s1 by (auto simp: reestablish_session_def Let_def split: sum.splits prod.splits if_splits)
  then show ?thesis
  proof cases
    case early
    then show ?thesis using sent1 h by auto
  next
    case (notified r2)
    then obtain q where "up_sent st' = up_sent st1 @ [q]" "on_session initialized_notification q" using send_on_session by blast
    moreover have "handshake initialize q" if "on_session initialized_notification q" for q
      using that by (simp add: handshake_def on_session_def)
    ultimately show ?thesis using sent1 h notified send_spec(2,3) [OF notified(2)] by auto
  qed
qed

lemma deliver_spec:
  assumes "deliver api http payload st = (r, st')" and "up_initialize st = Some initialize" and "up_session_id st \<noteq> None"
  shows "\<exists>new. up_sent st' = up_sent st @ new \<and> length new \<le> 4 \<and> list_all (\<lambda>q. handshake initialize q \<or> on_session payload q) new \<and>
    up_initialize st' = Some initialize"
proof -
  have p: "prepare_upstream api payload True = (payload, None)" by (simp add: prepare_upstream_def Let_def)
  obtain r1 st1 where s1: "send api http payload None st = (r1, st1)" by (cases "send api http payload None st")
  obtain q1 where q1: "up_sent st1 = up_sent st @ [q1]" "on_session payload q1" using send_on_session [OF s1 assms(3)] by blast
  have i1: "up_initialize st1 = Some initialize" using send_spec(2) [OF s1] assms(2) by simp
  consider (first) "st' = st1" | (again) r2 st2 where "reestablish_session api http st1 = (r2, st2)"
      "r2 \<noteq> Inr () \<and> st' = st2 \<or> (\<exists>r3. r2 = Inr () \<and> send api http payload None st2 = (r3, st'))"
    using assms s1 p by (auto simp: deliver_def Let_def split: sum.splits prod.splits if_splits)
  then show ?thesis
  proof cases
    case first
    then show ?thesis using q1 i1 by auto
  next
    case (again r2 st2)
    from reestablish_spec [OF again(1) i1] obtain new where n: "up_sent st2 = up_sent st1 @ new" "length new \<le> 2"
      "list_all (handshake initialize) new" "up_initialize st2 = Some initialize" "r2 = Inr () \<longrightarrow> up_session_id st2 \<noteq> None" by blast
    then have n': "list_all (\<lambda>q. handshake initialize q \<or> on_session payload q) new" by (auto simp: list_all_iff)
    from again(2) show ?thesis
    proof (elim disjE exE conjE)
      assume "st' = st2"
      then show ?thesis using n n' q1 by auto
    next
      fix r3
      assume r: "r2 = Inr ()" "send api http payload None st2 = (r3, st')"
      then obtain q3 where "up_sent st' = up_sent st2 @ [q3]" "on_session payload q3" using send_on_session n(5) by blast
      then show ?thesis using n n' q1 send_spec(2) [OF r(2)] by auto
    qed
  qed
qed

text \<open>
  (C18) Once the client has sent \<open>initialize\<close>, a later message is never sent with the headers of the stateless protocol:
  whatever the endpoint answers, everything sent for it is the message itself under a session
  identifier or the saved handshake, at most six requests in all, and the client stays initialised.
\<close>

theorem legacy_session_protocol:
  assumes "forward api http payload st = (r, st')" and "up_initialize st = Some initialize" and "\<not> is_initialize payload"
  shows "\<exists>new. up_sent st' = up_sent st @ new \<and> length new \<le> 6 \<and> list_all (\<lambda>q. handshake initialize q \<or> on_session payload q) new \<and>
    up_initialize st' = Some initialize"
proof (cases "up_session_id st")
  case (Some sid)
  then have "deliver api http payload st = (r, st')" using assms by (simp add: forward_def)
  from deliver_spec [OF this assms(2)] Some show ?thesis by force
next
  case None
  obtain r1 st1 where re: "reestablish_session api http st = (r1, st1)" by (cases "reestablish_session api http st")
  from reestablish_spec [OF re assms(2)] obtain new where n: "up_sent st1 = up_sent st @ new" "length new \<le> 2"
    "list_all (handshake initialize) new" "up_initialize st1 = Some initialize" "r1 = Inr () \<longrightarrow> up_session_id st1 \<noteq> None" by blast
  then have n': "list_all (\<lambda>q. handshake initialize q \<or> on_session payload q) new" by (auto simp: list_all_iff)
  show ?thesis
  proof (cases r1)
    case (Inl e)
    then have "st' = st1" using assms re None by (simp add: forward_def)
    then show ?thesis using n n' by auto
  next
    case (Inr u)
    then have "deliver api http payload st1 = (r, st')" using assms re None by (simp add: forward_def)
    from deliver_spec [OF this n(4)] obtain new2 where "up_sent st' = up_sent st1 @ new2" "length new2 \<le> 4"
      "list_all (\<lambda>q. handshake initialize q \<or> on_session payload q) new2" "up_initialize st' = Some initialize"
      using Inr n(5) by auto
    then show ?thesis using n n' by auto
  qed
qed


definition sample_mcp_api :: mcp_api where
  "sample_mcp_api = \<lparr>ma_from_str = (\<lambda>s. Inr (JString s)), ma_to_vec = (\<lambda>j. case j of JString s \<Rightarrow> Inr s | _ \<Rightarrow> Inl ''unsupported''),
     ma_base64 = id, ma_base64_prefix = ''=?base64?'', ma_base64_suffix = ''?='', ma_header_protocol_version = ''MCP-Protocol-Version'',
     ma_header_method = ''Mcp-Method'', ma_header_name = ''Mcp-Name'', ma_package_version = ''0.1.0'', ma_show_status = show_nat\<rparr>"

definition gone_endpoint :: endpoint where
  "gone_endpoint sent q = Inr \<lparr>ha_session_id = None, ha_status = 404, ha_content_type = None, ha_text = Inr []\<rparr>"

theorem legacy_session_protocol_witness:
  "\<exists>new. up_sent (snd (forward sample_mcp_api gone_endpoint (JObject [(''id'', JNumber ''2''), (''method'', JString ''tools/call'')])
       \<lparr>up_session_id = Some ''s1'', up_initialize = Some (JString ''hello''), up_sent = []\<rparr>)) = [] @ new \<and> length new \<le> 6 \<and>
     list_all (\<lambda>q. handshake (JString ''hello'') q \<or>
       on_session (JObject [(''id'', JNumber ''2''), (''method'', JString ''tools/call'')]) q) new"
proof -
  let ?p = "JObject [(''id'', JNumber ''2''), (''method'', JString ''tools/call'')]"
  let ?st = "\<lparr>up_session_id = Some ''s1'', up_initialize = Some (JString ''hello''), up_sent = []\<rparr>"
  obtain r st' where f: "forward sample_mcp_api gone_endpoint ?p ?st = (r, st')" by (cases "forward sample_mcp_api gone_endpoint ?p ?st")
  have "\<not> is_initialize ?p" by (simp add: is_initialize_def json_method_def bt_get_Cons)
  moreover have "up_initialize ?st = Some (JString ''hello'')" by simp
  ultimately show ?thesis using legacy_session_protocol [OF f] f by auto
qed

section \<open>Framing\<close>

text \<open>What a JSON encoding looks like on the wire: not empty, no line feed, no white space around it, valid UTF-8.\<close>

definition one_line :: "string \<Rightarrow> bool" where
  "one_line e \<longleftrightarrow> e \<noteq> [] \<and> trim e = e \<and> CHR 0x0A \<notin> set e \<and> utf8_valid e"

lemma trim_fixed_start: "trim e = e \<Longrightarrow> trim_start e = e"
proof -
  assume t: "trim e = e"
  obtain a where a: "e = a @ trim_start e" unfolding trim_start_def using strip_front_suffix by blast
  obtain b where b: "trim_start e = trim e @ b" unfolding trim_def using trim_end_prefix by blast
  have "length (trim e) \<le> length (trim_start e)" using b by (metis length_append le_add1)
  moreover have "length e = length a + length (trim_start e)" using a by (metis length_append)
  ultimately show ?thesis using a t by simp
qed

lemma trim_start_space: "trim_start (CHR 0x20 # s) = trim_start s"
  unfolding trim_start_def by (subst strip_front.simps) (simp add: front_match_def white_space_def)

lemma str_lines_single: "CHR 0x0A \<notin> set s \<Longrightarrow> s \<noteq> [] \<Longrightarrow> str_lines s = [s]"
  by (simp add: str_lines_def)

definition sse_event :: "string \<Rightarrow> string" where
  "sse_event e = ''data: '' @ e @ [CHR 0x0A, CHR 0x0A]"

lemma parse_sse_event_data:
  assumes "one_line e" and "ma_from_str api e = Inr j"
  shows "parse_sse_event api (''data: '' @ e) = Some j"
proof -
  have "str_lines (''data: '' @ e) = [''data: '' @ e]" using assms(1) by (intro str_lines_single) (auto simp: one_line_def)
  moreover have "strip_prefix ''data:'' (''data: '' @ e) = Some (CHR 0x20 # e)" by (simp add: strip_prefix_def)
  moreover have "trim_start (CHR 0x20 # e) = e" using assms(1) trim_fixed_start trim_start_space by (simp add: one_line_def)
  ultimately have "sse_data (''data: '' @ e) = [e]" by (simp add: sse_data_def map_filter_simps)
  then show ?thesis using assms by (simp add: parse_sse_event_def Let_def one_line_def)
qed

text \<open>
  The events of a server-sent event stream are read back in order: a body that carries each message as one \<open>data:\<close>
  line followed by a blank line parses to exactly those messages.
\<close>

theorem sse_roundtrip:
  assumes "list_all2 (\<lambda>e j. one_line e \<and> ma_from_str api e = Inr j) es js"
  shows "parse_sse_json_events api (concat (map sse_event es)) = js"
  using assms
proof (induction es js rule: list_all2_induct)
  case Nil
  then show ?case by (simp add: parse_sse_json_events_def map_filter_simps parse_sse_event_def sse_data_def str_lines_def)
next
  case (Cons e es j js)
  let ?rest = "concat (map sse_event es)"
  have "concat (map sse_event (e # es)) = (''data: '' @ e) @ CHR 0x0A # [CHR 0x0A] @ ?rest" by (simp add: sse_event_def)
  moreover have "CHR 0x0A \<notin> set (''data: '' @ e)" using Cons.hyps by (simp add: one_line_def)
  ultimately have "split_on [CHR 0x0A, CHR 0x0A] (concat (map sse_event (e # es))) = (''data: '' @ e) # split_on [CHR 0x0A, CHR 0x0A] ?rest"
    using split_on_first by metis
  then show ?case using Cons.IH parse_sse_event_data [of e api j] Cons.hyps by (simp add: parse_sse_json_events_def map_filter_simps)
qed

theorem sse_roundtrip_witness:
  "parse_sse_json_events sample_mcp_api (concat (map sse_event [''a'', ''b''])) = [JString ''a'', JString ''b'']"
proof (rule sse_roundtrip)
  have "one_line ''a''" "one_line ''b''" by code_simp+
  then show "list_all2 (\<lambda>e j. one_line e \<and> ma_from_str sample_mcp_api e = Inr j) [''a'', ''b''] [JString ''a'', JString ''b'']"
    by (simp add: sample_mcp_api_def)
qed

lemma utf8_valid_append: "utf8_valid a \<Longrightarrow> utf8_valid b \<Longrightarrow> utf8_valid (a @ b)"
  by (induction a rule: utf8_valid.induct) (auto split: if_splits list.splits)

lemma trim_newline:
  assumes "one_line e"
  shows "trim (e @ [CHR 0x0A]) = e"
proof -
  have ne: "e \<noteq> []" and s: "trim_start e = e" using assms trim_fixed_start by (auto simp: one_line_def)
  have none: "front_match white_space e = None" using s unfolding trim_start_def by (metis front_match_strip_front)
  have "front_match white_space (e @ [CHR 0x0A]) = None"
  proof (rule ccontr)
    assume "front_match white_space (e @ [CHR 0x0A]) \<noteq> None"
    then obtain w where w: "w \<in> set white_space" "w \<noteq> []" "starts_with w (e @ [CHR 0x0A])" using front_match_Some by blast
    show False
    proof (cases "length w \<le> length e")
      case True
      then have "starts_with w e" using w(3) by (simp add: starts_with_def)
      then show False using none w(1,2) by (auto simp: front_match_def find_None_iff)
    next
      case False
      then have "w = e @ [CHR 0x0A]" using w(3) by (simp add: starts_with_def)
      then have "last w = CHR 0x0A" "2 \<le> length w" using ne by (cases e; simp)+
      then show False using w(1) by (auto simp: white_space_def)
    qed
  qed
  then have "trim (e @ [CHR 0x0A]) = trim_end (e @ [CHR 0x0A])" by (simp add: trim_def trim_start_fixed)
  also have "\<dots> = trim_end e"
    unfolding trim_end_def rev_append rev.simps append_Nil append_Cons
    by (subst strip_front.simps) (simp add: front_match_def white_space_def)
  finally show ?thesis using assms s by (simp add: trim_def one_line_def)
qed

lemma read_written_line:
  assumes "one_line e"
  shows "read_stdio_line (e @ CHR 0x0A # rest) = Inr (Some (e, rest))"
proof -
  have "next_line (e @ CHR 0x0A # rest) = (e @ [CHR 0x0A], rest)"
    using assms split_once_first [of "CHR 0x0A" e "[]" rest] by (simp add: next_line_def one_line_def)
  moreover have "utf8_valid (e @ [CHR 0x0A])" using assms by (intro utf8_valid_append) (auto simp: one_line_def in_bytes_def)
  ultimately show ?thesis
    using assms trim_newline by (subst read_stdio_line.simps) (simp add: one_line_def)
qed

text \<open>A peer that reads the adapter's output line by line.\<close>

function read_lines :: "string \<Rightarrow> string list result" where
  "read_lines s =
     (case read_stdio_line s of
        Inl e \<Rightarrow> Inl e
      | Inr None \<Rightarrow> Inr []
      | Inr (Some (line, rest)) \<Rightarrow> res_bind (read_lines rest) (\<lambda>ls. Inr (line # ls)))"
  by pat_completeness auto
termination
  by (relation "measure length") (auto dest: read_stdio_line_shorter)

declare read_lines.simps [simp del]

lemma write_messages_encoded:
  "list_all2 (\<lambda>m e. ma_to_vec api m = Inr e) ms es \<Longrightarrow> write_messages api ms out = Inr (out @ concat (map (\<lambda>e. e @ [CHR 0x0A]) es))"
  by (induction ms es arbitrary: out rule: list_all2_induct) (simp_all add: write_stdio_jsonrpc_message_def)

lemma read_lines_encoded: "list_all one_line es \<Longrightarrow> read_lines (concat (map (\<lambda>e. e @ [CHR 0x0A]) es)) = Inr es"
proof (induction es)
  case Nil
  then show ?case by (subst read_lines.simps) (simp add: read_stdio_line.simps)
next
  case (Cons e es)
  then show ?case using read_written_line [of e "concat (map (\<lambda>e. e @ [CHR 0x0A]) es)"] by (subst read_lines.simps) simp
qed

text \<open>
  (C20) The adapter's output is framed so that a peer reading it line by line recovers exactly the messages written, in
  order, whatever their number.
\<close>

theorem stdio_framing_roundtrip:
  assumes "list_all2 (\<lambda>m e. ma_to_vec api m = Inr e \<and> one_line e) ms es"
  shows "\<exists>out. write_messages api ms [] = Inr out \<and> read_lines out = Inr es"
proof -
  have "list_all2 (\<lambda>m e. ma_to_vec api m = Inr e) ms es" using assms by (rule list_all2_mono) blast
  moreover have "list_all one_line es" using assms by (induction rule: list_all2_induct) auto
  ultimately show ?thesis using write_messages_encoded [of api ms es "[]"] read_lines_encoded by auto
qed

theorem stdio_framing_roundtrip_witness:
  "\<exists>out. write_messages sample_mcp_api [JString ''a'', JString ''b''] [] = Inr out \<and> read_lines out = Inr [''a'', ''b'']"
proof (rule stdio_framing_roundtrip)
  have "one_line ''a''" "one_line ''b''" by code_simp+
  then show "list_all2 (\<lambda>m e. ma_to_vec sample_mcp_api m = Inr e \<and> one_line e) [JString ''a'', JString ''b''] [''a'', ''b'']"
    by (simp add: sample_mcp_api_def)
qed

section \<open>Header values\<close>

text \<open>How a receiver reads a header value.\<close>

definition decode_header_value :: "mcp_api \<Rightarrow> (string \<Rightarrow> string option) \<Rightarrow> string \<Rightarrow> string option" where
  "decode_header_value api b64_decode v =
     (if starts_with (ma_base64_prefix api) v \<and> ends_with (ma_base64_suffix api) v
      then b64_decode (take (length v - length (ma_base64_prefix api) - length (ma_base64_suffix api)) (drop (length (ma_base64_prefix api)) v))
      else Some v)"

lemma header_value_roundtrip:
  assumes "\<And>s. b64_decode (ma_base64 api s) = Some s" and "ma_base64_prefix api \<noteq> []"
  shows "decode_header_value api b64_decode (encode_header_value api v) = Some v"
proof (cases "requires_base64 api v")
  case True
  then show ?thesis using assms(1) by (simp add: encode_header_value_def decode_header_value_def ends_with_def)
next
  case False
  then have "v = [] \<or> \<not> (starts_with (ma_base64_prefix api) v \<and> ends_with (ma_base64_suffix api) v)" by (auto simp: requires_base64_def)
  moreover have "\<not> starts_with (ma_base64_prefix api) []" using assms(2) by (cases "ma_base64_prefix api") auto
  ultimately show ?thesis using False by (auto simp: encode_header_value_def decode_header_value_def)
qed

section \<open>The stateless upgrade\<close>

lemma with_object_entry_get:
  assumes "bt_get entries k = None \<or> (\<exists>inner. bt_get entries k = Some (JObject inner))"
  shows "\<exists>inner. bt_get (with_object_entry k f entries) k = Some (JObject (f inner)) \<and> inner = (case bt_get entries k of Some (JObject m) \<Rightarrow> m | _ \<Rightarrow> [])"
  using assms by (auto simp: Let_def bt_get_or_insert bt_get_insert)

lemma with_object_entry_other: "k' \<noteq> k \<Longrightarrow> bt_get (with_object_entry k f entries) k' = bt_get entries k'"
  by (auto simp: Let_def bt_get_or_insert bt_get_insert split: option.split json.split)

text \<open>
  On the stateless protocol the version in the headers is the version in the message: a request the adapter upgrades
  carries the latest version in its \<open>_meta\<close>, and a request that brought a version keeps it and is
  sent unchanged.
\<close>

theorem stateless_version_agrees:
  assumes "prepare_upstream api payload False = (payload', Some v)" and "payload = JObject entries" and "json_get ''id'' payload \<noteq> None"
    and "json_method payload \<noteq> None"
    and "json_get ''params'' payload = None \<or> (\<exists>params. json_get ''params'' payload = Some (JObject params) \<and>
           (bt_get params META_KEY = None \<or> (\<exists>meta. bt_get params META_KEY = Some (JObject meta))))"
  shows "request_meta_protocol_version payload' = Some v \<and>
    (request_meta_protocol_version payload \<noteq> None \<longrightarrow> payload' = payload) \<and>
    (request_meta_protocol_version payload = None \<longrightarrow> v = LATEST_MCP_PROTOCOL_VERSION)"
proof (cases "request_meta_protocol_version payload")
  case (Some w)
  then show ?thesis using assms(1) by (auto simp: prepare_upstream_def Let_def split: if_splits)
next
  case None
  let ?meta = "stateless_meta ADAPTER_CLIENT_NAME (ma_package_version api)"
  have p': "payload' = insert_stateless_request_meta ADAPTER_CLIENT_NAME (ma_package_version api) payload"
    and v: "v = unwrap_or (request_meta_protocol_version payload') LATEST_MCP_PROTOCOL_VERSION"
    using assms(1,3,4) None by (auto simp: prepare_upstream_def Let_def split: if_splits)
  let ?inner = "case bt_get entries ''params'' of Some (JObject m) \<Rightarrow> m | _ \<Rightarrow> []"
  have "bt_get entries ''params'' = None \<or> (\<exists>inner. bt_get entries ''params'' = Some (JObject inner))"
    using assms(2,5) by auto
  from with_object_entry_get [OF this, of "with_object_entry META_KEY ?meta"]
  have params: "json_get ''params'' payload' = Some (JObject (with_object_entry META_KEY ?meta ?inner))"
    unfolding p' insert_stateless_request_meta_def assms(2) by simp
  have "bt_get ?inner META_KEY = None \<or> (\<exists>m. bt_get ?inner META_KEY = Some (JObject m))" using assms(2,5) by auto
  from with_object_entry_get [OF this, of ?meta] obtain m where
    "bt_get (with_object_entry META_KEY ?meta ?inner) META_KEY = Some (JObject (?meta m))" by blast
  moreover have "bt_get (?meta m) META_PROTOCOL_VERSION = Some (JString LATEST_MCP_PROTOCOL_VERSION)" for m
    by (simp add: stateless_meta_def bt_get_or_insert bt_get_insert META_PROTOCOL_VERSION_def META_CLIENT_INFO_def META_CLIENT_CAPABILITIES_def)
  ultimately have "request_meta_protocol_version payload' = Some LATEST_MCP_PROTOCOL_VERSION"
    unfolding request_meta_protocol_version_def params by simp
  then show ?thesis using v None by simp
qed

theorem stateless_version_agrees_witness:
  "\<exists>payload' v. prepare_upstream sample_mcp_api (JObject [(''id'', JNumber ''1''), (''method'', JString ''ping'')]) False = (payload', Some v) \<and>
     request_meta_protocol_version payload' = Some v"
proof -
  let ?p = "JObject [(''id'', JNumber ''1''), (''method'', JString ''ping'')]"
  obtain payload' v where run: "prepare_upstream sample_mcp_api ?p False = (payload', Some v)"
    by (simp add: prepare_upstream_def Let_def json_method_def bt_get_Cons)
  have "json_get ''id'' ?p \<noteq> None" "json_method ?p \<noteq> None" "json_get ''params'' ?p = None"
    by (simp_all add: json_method_def bt_get_Cons)
  then show ?thesis using stateless_version_agrees [OF run refl] run by blast
qed

end
