(* ===== verification/Symbol_Search.thy ===== *)
theory Symbol_Search
  imports Index_Rows Freshness Query_Cache Pagination Limits Resolve
begin

text \<open>
  The \<open>symbol_search\<close> tool (\<open>mcp/tools/symbol.rs\<close>) and its two queries (\<open>db/tools.rs\<close>): a paginated
  search over the symbol index, answered from the query cache for five minutes.  The order of rows by
  id is their order in the table; the rendering of \<open>indexed_at\<close>, \<open>ILIKE\<close>, the cursor codec and the JSON
  form of keys and responses are arguments.
\<close>

section \<open>The queries\<close>

record symbol_search_filters =
  yf_query :: string
  yf_crate_name :: "string option"
  yf_version :: "string option"
  yf_kind :: "string option"
  yf_include_all_versions :: bool
  yf_collapse_by_canonical :: bool

type_synonym joined_symbol = "crate_row \<times> version_row \<times> source_file_row \<times> indexed_symbol_insert index_row"

definition joined_symbols :: "crate_store \<Rightarrow> index_tables \<Rightarrow> joined_symbol list" where
  "joined_symbols st ix =
     List.map_filter (\<lambda>s.
       case find (\<lambda>v. cv_id v = ir_crate_version_id s) (st_versions st) of
         None \<Rightarrow> None
       | Some v \<Rightarrow>
           (case crate_of st v of
              None \<Rightarrow> None
            | Some c \<Rightarrow> map_option (\<lambda>f. (c, v, f, s)) (find (\<lambda>f. sf_id f = ir_source_file_id s) (ix_files ix)))) (ix_symbols ix)"

text \<open>The \<open>WHERE\<close> clause; the sub-select for the newest version has the order of \<open>fetch_latest_crate_version\<close>.\<close>

definition symbol_where :: "(string \<Rightarrow> string \<Rightarrow> bool) \<Rightarrow> crate_store \<Rightarrow> symbol_search_filters \<Rightarrow> joined_symbol \<Rightarrow> bool" where
  "symbol_where ilike st f x \<longleftrightarrow>
     (case x of (c, v, _, s) \<Rightarrow>
        (case yf_crate_name f of None \<Rightarrow> True | Some n \<Rightarrow> name_lower c = to_ascii_lowercase n) \<and>
        (case yf_version f of None \<Rightarrow> True | Some w \<Rightarrow> cv_version v = w) \<and>
        (case yf_kind f of None \<Rightarrow> True | Some k \<Rightarrow> sy_kind (ir_value s) = k) \<and>
        ilike (''%'' @ yf_query f @ ''%'') (sy_name (ir_value s)) \<and>
        (yf_version f = None \<and> \<not> yf_include_all_versions f \<longrightarrow>
           map_option cv_id (fetch_latest_crate_version st (cc_id c)) = Some (cv_id v)))"

definition canonical_key :: "joined_symbol \<Rightarrow> string \<times> string \<times> string \<times> string" where
  "canonical_key x = (case x of (c, v, f, s) \<Rightarrow> (cc_name c, sf_path f, sy_name (ir_value s), sy_kind (ir_value s)))"

definition collapse_order :: "joined_symbol \<Rightarrow> (string \<times> string \<times> string \<times> string) \<times> (bool \<times> int \<times> int) \<times> int \<times> int" where
  "collapse_order x =
     (case x of (c, v, f, s) \<Rightarrow> (canonical_key x, newest_key v, sy_start_line (ir_value s), sy_end_line (ir_value s)))"

definition plain_order ::
  "joined_symbol \<Rightarrow> string \<times> (bool \<times> int \<times> int) \<times> string \<times> string \<times> string \<times> int \<times> int" where
  "plain_order x =
     (case x of (c, v, f, s) \<Rightarrow>
        (cc_name c, newest_key v, sy_name (ir_value s), sy_kind (ir_value s), sf_path f, sy_start_line (ir_value s), sy_end_line (ir_value s)))"

definition matching_symbols :: "(string \<Rightarrow> string \<Rightarrow> bool) \<Rightarrow> crate_store \<Rightarrow> index_tables \<Rightarrow> symbol_search_filters \<Rightarrow> joined_symbol list" where
  "matching_symbols ilike st ix f =
     (let rows = filter (symbol_where ilike st f) (joined_symbols st ix)
      in if yf_collapse_by_canonical f then distinct_on canonical_key (sort_key collapse_order rows) else sort_key plain_order rows)"

definition count_symbol_search_hits :: "(string \<Rightarrow> string \<Rightarrow> bool) \<Rightarrow> crate_store \<Rightarrow> index_tables \<Rightarrow> symbol_search_filters \<Rightarrow> nat" where
  "count_symbol_search_hits ilike st ix f =
     (let rows = filter (symbol_where ilike st f) (joined_symbols st ix)
      in if yf_collapse_by_canonical f then length (remdups (map canonical_key rows)) else length rows)"

definition search_symbol_hits ::
  "(string \<Rightarrow> string \<Rightarrow> bool) \<Rightarrow> crate_store \<Rightarrow> index_tables \<Rightarrow> symbol_search_filters \<Rightarrow> int \<Rightarrow> int \<Rightarrow> joined_symbol list" where
  "search_symbol_hits ilike st ix f lim off =
     take (nat (max lim 1)) (drop (nat (max off 0)) (matching_symbols ilike st ix f))"

section \<open>Requests and responses\<close>

record symbol_search_request =
  yq_query :: string
  yq_crate_name :: "string option"
  yq_version :: "string option"
  yq_kind :: "string option"
  yq_include_all_versions :: "bool option"
  yq_collapse_by_canonical :: "bool option"
  yq_include_docs :: "bool option"
  yq_cursor :: "string option"
  yq_page :: "u32 option"
  yq_limit :: "u32 option"

record symbol_search_hit =
  yh_crate_name :: string
  yh_version :: string
  yh_source_path :: string
  yh_name :: string
  yh_kind :: string
  yh_signature :: "string option"
  yh_visibility :: "string option"
  yh_docs :: "string option"
  yh_start_line :: int
  yh_end_line :: int
  yh_index_source :: string
  yh_indexed_at :: string

record symbol_search_response =
  yr_query :: string
  yr_crate_name :: "string option"
  yr_version :: "string option"
  yr_kind :: "string option"
  yr_include_all_versions :: bool
  yr_collapse_by_canonical :: bool
  yr_cursor :: "string option"
  yr_next_cursor :: "string option"
  yr_page :: u32
  yr_limit :: u32
  yr_total_count :: nat
  yr_has_more :: bool
  yr_count :: nat
  yr_confidence :: string
  yr_confidence_assessment :: confidence_assessment
  yr_suggested_next_tools :: "string list"
  yr_provenance :: string
  yr_hits :: "symbol_search_hit list"

text \<open>The six filter fields of the cache key and of the cursor are kept as one record.\<close>

record symbol_search_cache_key =
  yk_filters :: symbol_search_filters
  yk_cursor :: "string option"
  yk_page :: u32
  yk_limit :: u32

record symbol_cursor_token =
  yt_v :: "8 word"
  yt_offset :: u32
  yt_limit :: u32
  yt_filters :: symbol_search_filters

definition symbol_cursor_ops :: "symbol_cursor_token cursor_ops" where
  "symbol_cursor_ops = \<lparr>version = yt_v, limit = yt_limit, offset = yt_offset\<rparr>"

definition next_symbol_token :: "symbol_search_filters \<Rightarrow> u32 \<Rightarrow> u32 \<Rightarrow> symbol_cursor_token" where
  "next_symbol_token f lim next_offset = \<lparr>yt_v = 1, yt_offset = next_offset, yt_limit = lim, yt_filters = f\<rparr>"

interpretation symbol_cursor: cursor_token symbol_cursor_ops "next_symbol_token f"
  by unfold_locales (simp_all add: symbol_cursor_ops_def next_symbol_token_def)

record symbol_search_env =
  ye_now :: int
  ye_codec :: "symbol_cursor_token codec"
  ye_key :: "symbol_search_cache_key \<Rightarrow> string result"
  ye_to_value :: "symbol_search_response \<Rightarrow> json result"
  ye_from_value :: "json \<Rightarrow> symbol_search_response result"
  ye_ilike :: "string \<Rightarrow> string \<Rightarrow> bool"
  ye_indexed_at :: "indexed_symbol_insert index_row \<Rightarrow> string"
  ye_read_error :: "string option"
  ye_event_failed :: bool
  ye_count_error :: "string option"
  ye_query_error :: "string option"
  ye_write_error :: "string option"
  ye_store :: crate_store
  ye_index :: index_tables

section \<open>The handler\<close>

definition symbol_filters :: "symbol_search_request \<Rightarrow> symbol_search_filters result" where
  "symbol_filters request =
     res_bind (normalize_required (yq_query request) ''query'') (\<lambda>query.
       Inr \<lparr>yf_query = query, yf_crate_name = normalize_optional (yq_crate_name request),
            yf_version = normalize_optional (yq_version request), yf_kind = normalize_optional (yq_kind request),
            yf_include_all_versions = unwrap_or (yq_include_all_versions request) False,
            yf_collapse_by_canonical = unwrap_or (yq_collapse_by_canonical request) False\<rparr>)"

definition symbol_cache_key :: "symbol_search_request \<Rightarrow> symbol_search_filters \<Rightarrow> symbol_search_cache_key" where
  "symbol_cache_key request f =
     \<lparr>yk_filters = f, yk_cursor = normalize_optional (yq_cursor request), yk_page = sync_page (yq_page request),
      yk_limit = symbol_search_limit (yq_limit request)\<rparr>"

definition symbol_pagination :: "symbol_search_env \<Rightarrow> symbol_search_request \<Rightarrow> symbol_search_filters \<Rightarrow> pagination_params result" where
  "symbol_pagination env request f =
     res_bind (case normalize_optional (yq_cursor request) of
         None \<Rightarrow> Inr None
       | Some c \<Rightarrow> res_bind (decode_cursor (ye_codec env) symbol_cursor_ops c) (\<lambda>t. Inr (Some t))) (\<lambda>decoded.
       if (case decoded of None \<Rightarrow> False | Some t \<Rightarrow> yt_filters t \<noteq> f)
       then Inl ''cursor does not match current symbol_search filters''
       else resolve_pagination symbol_cursor_ops decoded (yq_limit request \<noteq> None) (symbol_search_limit (yq_limit request))
              (sync_page (yq_page request)))"

definition symbol_hit :: "(indexed_symbol_insert index_row \<Rightarrow> string) \<Rightarrow> bool \<Rightarrow> joined_symbol \<Rightarrow> symbol_search_hit" where
  "symbol_hit show_indexed_at include_docs x =
     (case x of (c, v, f, s) \<Rightarrow>
        \<lparr>yh_crate_name = cc_name c, yh_version = cv_version v, yh_source_path = sf_path f, yh_name = sy_name (ir_value s),
         yh_kind = sy_kind (ir_value s), yh_signature = sy_signature (ir_value s), yh_visibility = sy_visibility (ir_value s),
         yh_docs = (if include_docs then map_option doc_summary (sy_docs (ir_value s)) else None),
         yh_start_line = sy_start_line (ir_value s), yh_end_line = sy_end_line (ir_value s), yh_index_source = ir_index_source s,
         yh_indexed_at = show_indexed_at s\<rparr>)"

definition symbol_response ::
  "symbol_search_filters \<Rightarrow> string option \<Rightarrow> pagination_params \<Rightarrow> nat \<Rightarrow> bool \<Rightarrow> string option \<Rightarrow> symbol_search_hit list \<Rightarrow> symbol_search_response" where
  "symbol_response f cursor pag total_count has_next next_cur hits =
     (let assessment =
        (if hits = [] then \<lparr>ca_level = Low, ca_reason = ''no indexed symbols matched the query/filter set''\<rparr>
         else \<lparr>ca_level = Medium, ca_reason = ''symbol hits resolved by indexed name matching; verify with source_read''\<rparr>)
      in \<lparr>yr_query = yf_query f, yr_crate_name = yf_crate_name f, yr_version = yf_version f, yr_kind = yf_kind f,
          yr_include_all_versions = yf_include_all_versions f, yr_collapse_by_canonical = yf_collapse_by_canonical f,
          yr_cursor = cursor, yr_next_cursor = next_cur, yr_page = pp_effective_page pag, yr_limit = pp_limit pag,
          yr_total_count = total_count, yr_has_more = has_next, yr_count = length hits,
          yr_confidence = confidence_as_str (ca_level assessment), yr_confidence_assessment = assessment,
          yr_suggested_next_tools = (if hits = [] then [''index_crates'', ''index_refresh'', ''source_search'']
            else [''source_read'', ''crate_intel'']),
          yr_provenance = ''local_postgres_index'', yr_hits = hits\<rparr>)"

definition symbol_page ::
  "symbol_search_env \<Rightarrow> symbol_search_request \<Rightarrow> symbol_search_filters \<Rightarrow> pagination_params \<Rightarrow> symbol_search_response result" where
  "symbol_page env request f pag =
     (case ye_count_error env of
        Some e \<Rightarrow> Inl (''symbol_search count query failed: '' @ e)
      | None \<Rightarrow>
     (case ye_query_error env of
        Some e \<Rightarrow> Inl (''symbol_search query failed: '' @ e)
      | None \<Rightarrow>
          (let total_count = count_symbol_search_hits (ye_ilike env) (ye_store env) (ye_index env) f;
               rows = search_symbol_hits (ye_ilike env) (ye_store env) (ye_index env) f (uint (pp_limit pag)) (uint (pp_offset pag));
               hits = map (symbol_hit (ye_indexed_at env) (unwrap_or (yq_include_docs request) False)) rows;
               has_next = unat (pp_offset pag) + length hits < total_count;
               cursor = normalize_optional (yq_cursor request)
           in if has_next
              then res_bind (encode_cursor (ye_codec env)
                     (next_symbol_token f (pp_limit pag) (saturating_add (pp_offset pag) (pp_limit pag)))) (\<lambda>c.
                       Inr (symbol_response f cursor pag total_count has_next (Some c) hits))
              else Inr (symbol_response f cursor pag total_count has_next None hits))))"

definition symbol_search_uncached ::
  "symbol_search_env \<Rightarrow> symbol_search_request \<Rightarrow> symbol_search_filters \<Rightarrow> string \<Rightarrow> query_cache \<Rightarrow>
   symbol_search_response result \<times> query_cache" where
  "symbol_search_uncached env request f key cache =
     (case res_bind (symbol_pagination env request f) (symbol_page env request f) of
        Inl e \<Rightarrow> (Inl e, cache)
      | Inr response \<Rightarrow>
          (case ye_to_value env response of
             Inl e \<Rightarrow> (Inl (''failed to encode symbol_search cache value: '' @ e), cache)
           | Inr v \<Rightarrow>
               (case query_cache_put (ye_write_error env) cache (ye_now env) ''symbol_search'' key v 300 of
                  (Inl e, cache') \<Rightarrow> (Inl e, cache')
                | (Inr _, cache') \<Rightarrow> (Inr response, cache'))))"

definition handle_symbol_search ::
  "symbol_search_env \<Rightarrow> symbol_search_request \<Rightarrow> query_cache \<Rightarrow> symbol_search_response result \<times> query_cache" where
  "handle_symbol_search env request cache =
     (case symbol_filters request of
        Inl e \<Rightarrow> (Inl e, cache)
      | Inr f \<Rightarrow>
          (case ye_key env (symbol_cache_key request f) of
             Inl e \<Rightarrow> (Inl (''failed to build symbol_search cache key: '' @ e), cache)
           | Inr key \<Rightarrow>
               (case query_cache_get (ye_read_error env) (ye_event_failed env) cache (ye_now env) ''symbol_search'' key of
                  (Inl e, cache') \<Rightarrow> (Inl e, cache')
                | (Inr (Some cached), cache') \<Rightarrow>
                    (case ye_from_value env cached of
                       Inl e \<Rightarrow> (Inl (''failed to decode symbol_search cache entry: '' @ e), cache')
                     | Inr response \<Rightarrow> (Inr response, cache'))
                | (Inr None, cache') \<Rightarrow> symbol_search_uncached env request f key cache')))"

section \<open>One row per canonical symbol\<close>

lemma matching_symbols_count: "count_symbol_search_hits ilike st ix f = length (matching_symbols ilike st ix f)"
  by (simp add: count_symbol_search_hits_def matching_symbols_def Let_def length_remdups_card_conv length_distinct_on)

text \<open>With \<open>collapse_by_canonical\<close> a symbol is reported once, from its most recently published version.\<close>

lemma collapsed_symbols:
  assumes "yf_collapse_by_canonical f"
  shows "distinct (map canonical_key (matching_symbols ilike st ix f)) \<and>
    (\<forall>x \<in> set (matching_symbols ilike st ix f). \<forall>y \<in> set (joined_symbols st ix).
       symbol_where ilike st f y \<and> canonical_key y = canonical_key x \<longrightarrow> collapse_order x \<le> collapse_order y)"
proof -
  let ?rows = "sort_key collapse_order (filter (symbol_where ilike st f) (joined_symbols st ix))"
  have m: "matching_symbols ilike st ix f = distinct_on canonical_key ?rows" using assms by (simp add: matching_symbols_def Let_def)
  show ?thesis
    unfolding m
  proof (intro conjI ballI impI)
    show "distinct (map canonical_key (distinct_on canonical_key ?rows))" by (rule distinct_on_distinct)
    fix x y
    assume x: "x \<in> set (distinct_on canonical_key ?rows)" and "y \<in> set (joined_symbols st ix)"
      "symbol_where ilike st f y \<and> canonical_key y = canonical_key x"
    then have "y \<in> set ?rows" "canonical_key y = canonical_key x" by simp_all
    with x show "collapse_order x \<le> collapse_order y" by (rule distinct_on_least [OF sorted_sort_key])
  qed
qed

section \<open>What a page contains\<close>

lemma symbol_pagination_limit:
  assumes "symbol_pagination env request f = Inr pag" shows "pp_limit pag \<noteq> 0"
proof -
  have "symbol_search_limit (yq_limit request) \<noteq> 0" using symbol_search_limit.bounds [of "yq_limit request"] by auto
  then show ?thesis
    using assms decode_cursor_valid [of "ye_codec env" symbol_cursor_ops]
    by (fastforce simp: symbol_pagination_def res_bind_Inr_iff resolve_pagination_def split: option.splits if_splits)
qed

lemma symbol_search_fresh:
  assumes "handle_symbol_search env request cache = (Inr resp, cache')"
    and "symbol_filters request = Inr f" and "ye_key env (symbol_cache_key request f) = Inr key"
    and "fetch_query_cache_value cache (ye_now env) key ''symbol_search'' = None"
  obtains pag cache1 v where "symbol_pagination env request f = Inr pag" "symbol_page env request f pag = Inr resp"
    "cache1 = (if ye_event_failed env then cache else insert_query_cache_event cache (ye_now env) ''symbol_search'' False)"
    "ye_to_value env resp = Inr v" "query_cache_put None cache1 (ye_now env) ''symbol_search'' key v 300 = (Inr (), cache')"
proof -
  have no_read: "ye_read_error env = None"
    using assms(1-3) by (cases "ye_read_error env") (simp_all add: handle_symbol_search_def query_cache_get_def)
  define cache1 where "cache1 = (if ye_event_failed env then cache else insert_query_cache_event cache (ye_now env) ''symbol_search'' False)"
  have "symbol_search_uncached env request f key cache1 = (Inr resp, cache')"
    using assms no_read by (simp add: handle_symbol_search_def query_cache_get_def Let_def cache1_def split: if_splits)
  then show ?thesis
    using that [OF _ _ cache1_def]
    by (auto simp: symbol_search_uncached_def Let_def query_cache_put_def res_bind_Inr_iff split: option.splits sum.splits)
qed

lemma symbol_page_Inr:
  assumes "symbol_page env request f pag = Inr resp" and "pp_limit pag \<noteq> 0"
  defines "rows \<equiv> matching_symbols (ye_ilike env) (ye_store env) (ye_index env) f"
  shows "yr_hits resp = map (symbol_hit (ye_indexed_at env) (unwrap_or (yq_include_docs request) False))
      (take (unat (pp_limit pag)) (drop (unat (pp_offset pag)) rows)) \<and>
    yr_total_count resp = length rows \<and> (yr_has_more resp \<longleftrightarrow> unat (pp_offset pag) + unat (pp_limit pag) < length rows) \<and>
    (yr_next_cursor resp \<noteq> None \<longleftrightarrow> yr_has_more resp)"
proof -
  let ?off = "unat (pp_offset pag)" and ?lim = "unat (pp_limit pag)"
  have lim: "0 < ?lim" using assms(2) by (simp add: unat_gt_0)
  have "uint (pp_limit pag) \<noteq> 0" using assms(2) by (simp add: uint_0_iff)
  then have "max (uint (pp_limit pag)) 1 = uint (pp_limit pag)" using uint_ge_0 [of "pp_limit pag"] by (intro max_absorb1) linarith
  then have s: "search_symbol_hits (ye_ilike env) (ye_store env) (ye_index env) f (uint (pp_limit pag)) (uint (pp_offset pag)) =
      take ?lim (drop ?off rows)"
    by (simp add: search_symbol_hits_def rows_def flip: unat_eq_nat_uint)
  have len: "?off + length (map h (take ?lim (drop ?off rows))) < length rows \<longleftrightarrow> ?off + ?lim < length rows"
    for h :: "joined_symbol \<Rightarrow> symbol_search_hit" using lim by (auto simp: min_def)
  have "ye_count_error env = None" "ye_query_error env = None"
    using assms(1) by (simp_all add: symbol_page_def split: option.splits)
  then have r: "(if ?off + ?lim < length rows
       then res_bind (encode_cursor (ye_codec env) (next_symbol_token f (pp_limit pag) (saturating_add (pp_offset pag) (pp_limit pag)))) (\<lambda>c.
         Inr (symbol_response f (normalize_optional (yq_cursor request)) pag (length rows) (?off + ?lim < length rows) (Some c)
           (map (symbol_hit (ye_indexed_at env) (unwrap_or (yq_include_docs request) False)) (take ?lim (drop ?off rows)))))
       else Inr (symbol_response f (normalize_optional (yq_cursor request)) pag (length rows) (?off + ?lim < length rows) None
           (map (symbol_hit (ye_indexed_at env) (unwrap_or (yq_include_docs request) False)) (take ?lim (drop ?off rows))))) = Inr resp"
    using assms(1) unfolding symbol_page_def Let_def s matching_symbols_count rows_def [symmetric] len by simp
  show ?thesis
  proof (cases "?off + ?lim < length rows")
    case True
    with r obtain c where "resp = symbol_response f (normalize_optional (yq_cursor request)) pag (length rows) True (Some c)
        (map (symbol_hit (ye_indexed_at env) (unwrap_or (yq_include_docs request) False)) (take ?lim (drop ?off rows)))"
      by (auto simp: res_bind_Inr_iff)
    with True show ?thesis by (simp add: symbol_response_def Let_def)
  next
    case False
    with r have "resp = symbol_response f (normalize_optional (yq_cursor request)) pag (length rows) False None
        (map (symbol_hit (ye_indexed_at env) (unwrap_or (yq_include_docs request) False)) (take ?lim (drop ?off rows)))" by simp
    with False show ?thesis by (simp add: symbol_response_def Let_def)
  qed
qed


text \<open>
  (C34) The cache key does not contain \<open>include_docs\<close>: after a fresh answer without docs the same request with docs is
  answered from the cache for five minutes, and no hit has its docs.
\<close>

theorem symbol_search_docs_ignored:
  assumes "handle_symbol_search env request cache = (Inr resp, cache')" and "cache_inv cache"
    and "symbol_filters request = Inr f" and "ye_key env (symbol_cache_key request f) = Inr key"
    and "fetch_query_cache_value cache (ye_now env) key ''symbol_search'' = None"
    and "\<And>r v. ye_to_value env r = Inr v \<Longrightarrow> ye_from_value env v = Inr r"
    and "yq_include_docs request = None" and "later < ye_now env + 300"
  shows "fst (handle_symbol_search (env\<lparr>ye_now := later, ye_read_error := None\<rparr>) (request\<lparr>yq_include_docs := Some True\<rparr>) cache') = Inr resp \<and>
    list_all (\<lambda>h. yh_docs h = None) (yr_hits resp)"
proof -
  let ?env = "env\<lparr>ye_now := later, ye_read_error := None\<rparr>" and ?req = "request\<lparr>yq_include_docs := Some True\<rparr>"
  obtain pag cache1 v where p: "symbol_pagination env request f = Inr pag" "symbol_page env request f pag = Inr resp"
    and c1: "cache1 = (if ye_event_failed env then cache else insert_query_cache_event cache (ye_now env) ''symbol_search'' False)"
    and v: "ye_to_value env resp = Inr v" and put: "query_cache_put None cache1 (ye_now env) ''symbol_search'' key v 300 = (Inr (), cache')"
    using symbol_search_fresh [OF assms(1,3-5)] by metis
  have inv: "cache_inv cache1" using assms(2) c1 by (simp add: cache_inv_def insert_query_cache_event_def)
  have "cache' = upsert_query_cache_value cache1 (ye_now env) key ''symbol_search'' v 300" using put by (simp add: query_cache_put_def)
  then have "fetch_query_cache_value cache' later key ''symbol_search'' = Some v"
    using fetch_iff [OF upsert_inv [OF inv]] upsert_entries [OF inv] assms(8) by simp
  moreover have "symbol_filters ?req = Inr f" "symbol_cache_key ?req f = symbol_cache_key request f"
    using assms(3) by (simp_all add: symbol_filters_def symbol_cache_key_def)
  ultimately have "fst (handle_symbol_search ?env ?req cache') = Inr resp"
    using assms(4) assms(6) [OF v] by (simp add: handle_symbol_search_def query_cache_get_def Let_def)
  moreover have "list_all (\<lambda>h. yh_docs h = None) (yr_hits resp)"
    using symbol_page_Inr [OF p(2) symbol_pagination_limit [OF p(1)]] assms(7)
    by (auto simp: list_all_iff symbol_hit_def split: prod.splits)
  ultimately show ?thesis ..
qed

section \<open>A concrete search\<close>

definition demo_symbol :: indexed_symbol_insert where
  "demo_symbol = \<lparr>sy_name = ''Serializer'', sy_kind = ''trait'', sy_visibility = None, sy_signature = None, sy_start_line = 3, sy_end_line = 3,
     sy_rustdoc_item_id = None, sy_canonical_path = None, sy_definition_path = None, sy_deprecated_since = None, sy_deprecated_note = None,
     sy_docs = Some ''Writes.'', sy_attrs = None\<rparr>"

definition demo_symbol_index :: index_tables where
  "demo_symbol_index = \<lparr>ix_files = [\<lparr>sf_id = 1, sf_crate_version_id = 10, sf_path = ''src/lib.rs'', sf_sha256 = [], sf_file_size = 18,
     sf_language = Some ''rust''\<rparr>], ix_next_file_id = 2, ix_symbols = [index_row 10 1 ''local_cache'' demo_symbol], ix_types = [],
     ix_impls = [], ix_traits = []\<rparr>"

definition demo_symbol_request :: symbol_search_request where
  "demo_symbol_request = \<lparr>yq_query = ''Serial'', yq_crate_name = None, yq_version = None, yq_kind = None, yq_include_all_versions = None,
     yq_collapse_by_canonical = Some True, yq_include_docs = None, yq_cursor = None, yq_page = None, yq_limit = None\<rparr>"

definition demo_symbol_filters :: symbol_search_filters where
  "demo_symbol_filters = \<lparr>yf_query = ''Serial'', yf_crate_name = None, yf_version = None, yf_kind = None,
     yf_include_all_versions = False, yf_collapse_by_canonical = True\<rparr>"

definition demo_symbol_response :: symbol_search_response where
  "demo_symbol_response = \<lparr>yr_query = ''Serial'', yr_crate_name = None, yr_version = None, yr_kind = None, yr_include_all_versions = False,
     yr_collapse_by_canonical = True, yr_cursor = None, yr_next_cursor = None, yr_page = 1, yr_limit = 25, yr_total_count = 1,
     yr_has_more = False, yr_count = 1, yr_confidence = ''medium'',
     yr_confidence_assessment = \<lparr>ca_level = Medium, ca_reason = ''symbol hits resolved by indexed name matching; verify with source_read''\<rparr>,
     yr_suggested_next_tools = [''source_read'', ''crate_intel''], yr_provenance = ''local_postgres_index'',
     yr_hits = [\<lparr>yh_crate_name = ''Serde'', yh_version = ''1.0.0'', yh_source_path = ''src/lib.rs'', yh_name = ''Serializer'',
       yh_kind = ''trait'', yh_signature = None, yh_visibility = None, yh_docs = None, yh_start_line = 3, yh_end_line = 3,
       yh_index_source = ''local_cache'', yh_indexed_at = ''t''\<rparr>]\<rparr>"

definition demo_symbol_env :: symbol_search_env where
  "demo_symbol_env = \<lparr>ye_now = 7,
     ye_codec = \<lparr>to_vec = (\<lambda>_. Inl ''unused''), from_slice = (\<lambda>_. Inl ''unused''), b64_encode = (\<lambda>s. s), b64_decode = Inr\<rparr>,
     ye_key = (\<lambda>k. Inr (yf_query (yk_filters k))),
     ye_to_value = (\<lambda>r. if r = demo_symbol_response then Inr JNull else Inl ''other''), ye_from_value = (\<lambda>_. Inr demo_symbol_response),
     ye_ilike = like_match, ye_indexed_at = (\<lambda>_. ''t''), ye_read_error = None, ye_event_failed = False, ye_count_error = None,
     ye_query_error = None, ye_write_error = None, ye_store = sv_store sample_server, ye_index = demo_symbol_index\<rparr>"

definition fresh_cache :: query_cache where
  "fresh_cache = \<lparr>qc_entries = [], qc_events = []\<rparr>"

lemma demo_symbol_filters_of: "symbol_filters demo_symbol_request = Inr demo_symbol_filters"
  by code_simp

lemma demo_symbol_run: "fst (handle_symbol_search demo_symbol_env demo_symbol_request fresh_cache) = Inr demo_symbol_response"
  by code_simp

lemma demo_symbol_key: "ye_key demo_symbol_env (symbol_cache_key demo_symbol_request demo_symbol_filters) = Inr ''Serial''"
  by (simp add: demo_symbol_env_def symbol_cache_key_def demo_symbol_filters_def)

lemma demo_symbol_miss: "fetch_query_cache_value fresh_cache (ye_now demo_symbol_env) ''Serial'' ''symbol_search'' = None"
  by (simp add: fresh_cache_def fetch_query_cache_value_def)


theorem symbol_search_docs_ignored_witness:
  "\<exists>cache'. fst (handle_symbol_search (demo_symbol_env\<lparr>ye_now := 300, ye_read_error := None\<rparr>)
       (demo_symbol_request\<lparr>yq_include_docs := Some True\<rparr>) cache') = Inr demo_symbol_response \<and>
     list_all (\<lambda>h. yh_docs h = None) (yr_hits demo_symbol_response)"
proof -
  obtain cache' where run: "handle_symbol_search demo_symbol_env demo_symbol_request fresh_cache = (Inr demo_symbol_response, cache')"
    using demo_symbol_run by (metis prod.collapse)
  have "cache_inv fresh_cache" by (simp add: fresh_cache_def cache_inv_def)
  moreover have "ye_from_value demo_symbol_env v = Inr r" if "ye_to_value demo_symbol_env r = Inr v" for r v
    using that by (simp add: demo_symbol_env_def split: if_splits)
  moreover have "yq_include_docs demo_symbol_request = None" "300 < ye_now demo_symbol_env + 300"
    by (simp_all add: demo_symbol_request_def demo_symbol_env_def)
  ultimately show ?thesis
    using symbol_search_docs_ignored [OF run _ demo_symbol_filters_of demo_symbol_key demo_symbol_miss, of 300] by blast
qed

end
