(* ===== verification/Spec2Isabelle.thy ===== *)
theory Spec2Isabelle
  imports Compatibility Crate_Graph Crate_Sync Dependency_Audit Docs_Search Feature_Impact License Local_Cache Maintenance Migration_Path Rustdoc_Sync
    Rate_Limiter Security_Props Sessions Source_Context Stdio_Adapter Symbol_Search
begin

text \<open>
  \<^bold>\<open>A verification development for rust-mcp\<close>

  rust-mcp is an MCP server that answers questions about Rust crates from a local PostgreSQL index.
  Tool handlers (\<open>mcp/tools\<close>) read the index; when a crate is missing or stale they enqueue refresh
  jobs (\<open>db/indexing.rs\<close>) and wait for them through the indexing coordinator
  (\<open>mcp/indexing/coordinator.rs\<close>); a single worker (\<open>mcp/indexing/worker.rs\<close>) claims jobs, runs the
  synchronisation handlers, records the result and signals the waiters.  Paths below are relative to
  \<open>src/crates/rust-mcp/src\<close>.

  \<^bold>\<open>Conventions.\<close> A Rust \<open>String\<close> is \<^typ>\<open>string\<close> (one \<^typ>\<open>char\<close> per UTF-8 byte), \<open>Result<T, String>\<close> is
  \<open>string + 'a\<close>, \<open>u32\<close> is \<^typ>\<open>32 word\<close>, a struct is a record with a two-letter field prefix, a
  \<open>BTreeMap\<close> an ascending association list.  A PostgreSQL table is a list of records and a statement
  a function on it; a statement that can fail takes the failure as an argument (\<open>string option\<close>), so
  that every error path is a branch.  Crates outside the repository (semver, rustsec, serde_json,
  base64, cargo_toml), the clock, the disk and HTTP are arguments; what a theorem needs of them is a
  hypothesis with a witness.

  \<^bold>\<open>Shared theories.\<close>
  \<^item> \<open>Prelude\<close>, \<open>Collections\<close>: the standard-library operations in use and ordered maps; locales \<open>dict\<close>,
    \<open>ranked\<close>, \<open>keyed_merge\<close>, \<open>ranked_merge\<close>.
  \<^item> \<open>Limits\<close>, \<open>Text_Utils\<close>, \<open>Pagination\<close>: \<open>mcp/utils.rs\<close>; locales \<open>clamped_limit\<close> (every limit helper)
    and \<open>cursor_token\<close> (every paginated tool).
  \<^item> \<open>Query_Cache\<close>: \<open>mcp/query_cache.rs\<close>.

  \<^bold>\<open>Indexing.\<close>
  \<^item> \<open>Refresh_Queue\<close> (locale \<open>coalescing_queue\<close>), \<open>Coordinator\<close>, \<open>Worker\<close>: the job queue as a state
    machine with its invariant, the interleaving of handlers and worker, and the refinement of the
    worker loop to the queue.
  \<^item> \<open>Crate_Store\<close>, \<open>Freshness\<close>, \<open>Maintenance\<close>: the crate tables, \<open>mcp/indexing/freshness.rs\<close>,
    \<open>mcp/queries.rs\<close>, \<open>mcp/indexing/maintenance.rs\<close>.
  \<^item> \<open>Crate_Sync\<close> (locale \<open>upsert\<close>): \<open>sync_single_crate\<close> and the persistence transaction: what is written is
    what crates.io published, keys are kept, a failing transaction changes nothing.
  \<^item> \<open>Security_Sync\<close>, \<open>Security_Props\<close> (locale \<open>advisory_source\<close>): \<open>mcp/indexing/security.rs\<close> and the scan;
    stored evidence is what the sources published, end to end with \<open>Advisories\<close>.
  \<^item> \<open>Index_Rows\<close> (locale \<open>unique_insert\<close>): the symbol index and its replace transactions.
  \<^item> \<open>Rustdoc_Types\<close>, \<open>Rustdoc_Paths\<close>, \<open>Rustdoc_Extract\<close>, \<open>Rustdoc_Files\<close>, \<open>Rustdoc_Sync\<close>:
    \<open>mcp/indexing/rustdoc_json.rs\<close>: canonical paths, typed JSON columns, the synchronisation.
  \<^item> \<open>Syn_Extract\<close>, \<open>Local_Cache\<close>: \<open>mcp/indexing/local_cache.rs\<close>: line bounds of extracted rows, and the
    refresh of a version as a mirror of the disk.
  \<^item> \<open>Docs_Pages\<close>, \<open>Docs_Sync\<close>: the documentation crawl of \<open>mcp/tools/docs.rs\<close>: containment of links,
    termination, exactness.

  \<^bold>\<open>Tools.\<close>
  \<^item> \<open>Semver\<close>, \<open>Advisories\<close>: \<open>mcp/advisories.rs\<close>; range semantics of OSV, RustSec and GHSA and the
    refinement of the per-version verdict.
  \<^item> \<open>Manifest_Deps\<close>, \<open>Resolve\<close>, \<open>Feature_Impact\<close>, \<open>Dependency_Audit\<close>: \<open>mcp/tools/dependency\<close>;
    \<open>Compatibility\<close>: the two compatibility tools on top of the resolver.
  \<^item> \<open>Crate_Versions\<close>, \<open>Graph_Cycles\<close>, \<open>Crate_Graph\<close> (locale \<open>level_traversal\<close>), \<open>Api_Diff\<close>,
    \<open>Migration_Path\<close>, \<open>License\<close>: \<open>mcp/tools/krate\<close>.
  \<^item> \<open>Docs_Search\<close>, \<open>Symbol_Search\<close>: the paginated searches with their caches.
  \<^item> \<open>Source_Disk\<close>, \<open>Source_Search\<close>, \<open>Source_Read\<close>, \<open>Source_Context\<close>: \<open>mcp/utils.rs\<close>, \<open>mcp/ripgrep.rs\<close> and
    \<open>mcp/tools/source\<close>: where sources lie, what a search page, a slice and the context of a line contain.

  \<^bold>\<open>Processes and transport.\<close>
  \<^item> \<open>Rate_Limiter\<close>: \<open>state.rs\<close>, both gates for any number of interleaved tasks.
  \<^item> \<open>Sessions\<close> (locale \<open>session_store\<close>): \<open>mcp/session.rs\<close>, \<open>db/sessions.rs\<close>.
  \<^item> \<open>Stdio_Adapter\<close>: the \<open>rust-mcp-stdio\<close> crate and \<open>protocol.rs\<close>: framing, forwarding, session recovery.

  \<^bold>\<open>Fuel.\<close> Loops are total functions with a termination proof.  The only fuel is that of
  \<open>follow_cursors\<close>, the client that follows \<open>next_cursor\<close>; the enumeration theorem shows that one unit
  per row is enough.

  \<^bold>\<open>Not modelled.\<close> HTTP clients (\<open>integration\<close>) and the GitHub synchronisation are I/O; transport and wiring
  (\<open>mcp/server.rs\<close>, \<open>http.rs\<close>, \<open>app.rs\<close>), configuration and metrics are glue; \<open>discovery.rs\<close> and
  \<open>cache_watcher.rs\<close> follow file-system notifications.  Of \<open>mcp/indexing/handlers.rs\<close> the tool handlers that
  dispatch to the modelled synchronisations and format their outcome (\<open>index_crates\<close>, \<open>index_status\<close>,
  \<open>index_refresh\<close>) are left out, as are the endless timer loops around the modelled scans.  The other
  read-only crate tools format rows of tables whose writers are modelled; \<open>alternatives.rs\<close> ranks them with
  floating-point scores.
\<close>

end
